(* ===== verification/Prelude.thy ===== *)
theory Prelude
  imports Main "HOL-Library.Word" "HOL-Library.Char_ord" "HOL-Library.List_Lexorder"
    "HOL-Library.Product_Lexorder"
begin

text \<open>
  What the components share: the standard library containers and string operations the Rust
  code uses, machine-integer arithmetic, and the state-and-error actions in which fallible
  methods are written.

  A Rust \<open>String\<close> is its UTF-8 byte sequence (a HOL \<open>string\<close>), so \<open>len()\<close> is \<open>length\<close> and
  \<open>Ord\<close> is the lexicographic order of the bytes. A \<open>BTreeMap\<close> is an association list whose
  keys increase strictly, a \<open>BTreeSet\<close> a strictly increasing list: both iterate in key order.
\<close>

named_theorems wp \<comment> \<open>rules that compute with action triples\<close>
named_theorems display \<comment> \<open>the text of errors and identifiers\<close>
named_theorems btree \<comment> \<open>lookup and domain laws of the ordered containers\<close>

section \<open>Ordered maps and sets\<close>

type_synonym ('k, 'v) btree = "('k \<times> 'v) list"

definition keys :: "('k \<times> 'v) list \<Rightarrow> 'k list" where
  "keys m = map fst m"

definition vals :: "('k \<times> 'v) list \<Rightarrow> 'v list" where
  "vals m = map snd m"

abbreviation bt_get :: "('k \<times> 'v) list \<Rightarrow> 'k \<Rightarrow> 'v option" where
  "bt_get m k \<equiv> map_of m k"

fun bt_insert :: "'k::linorder \<Rightarrow> 'v \<Rightarrow> ('k \<times> 'v) list \<Rightarrow> ('k \<times> 'v) list" where
  "bt_insert k v [] = [(k, v)]"
| "bt_insert k v ((k', v') # m) =
     (if k < k' then (k, v) # (k', v') # m
      else if k = k' then (k, v) # m
      else (k', v') # bt_insert k v m)"

definition bt_remove :: "'k \<Rightarrow> ('k \<times> 'v) list \<Rightarrow> ('k \<times> 'v) list" where
  "bt_remove k m = filter (\<lambda>p. fst p \<noteq> k) m"

definition bt_ok :: "('k::linorder \<times> 'v) list \<Rightarrow> bool" where
  "bt_ok m \<longleftrightarrow> sorted_wrt (<) (keys m)"

fun bs_insert :: "'k::linorder \<Rightarrow> 'k list \<Rightarrow> 'k list" where
  "bs_insert k [] = [k]"
| "bs_insert k (k' # s) =
     (if k < k' then k # k' # s else if k = k' then k' # s else k' # bs_insert k s)"

definition bs_remove :: "'k \<Rightarrow> 'k list \<Rightarrow> 'k list" where
  "bs_remove k s = filter (\<lambda>k'. k' \<noteq> k) s"

definition bs_extend :: "'k::linorder list \<Rightarrow> 'k list \<Rightarrow> 'k list" where
  "bs_extend ks s = fold bs_insert ks s"

definition bt_from :: "('k::linorder \<times> 'v) list \<Rightarrow> ('k \<times> 'v) list" where
  "bt_from kvs = fold (\<lambda>(k, v). bt_insert k v) kvs []"

lemma keys_simps [simp]: "keys [] = []" "keys (p # m) = fst p # keys m"
  by (simp_all add: keys_def)

lemma vals_simps [simp]: "vals [] = []" "vals (p # m) = snd p # vals m"
  by (simp_all add: vals_def)

lemma set_keys_bt_insert [btree, simp]: "set (keys (bt_insert k v m)) = insert k (set (keys m))"
  by (induction k v m rule: bt_insert.induct) (simp_all add: insert_commute)

lemma bt_get_insert [btree, simp]:
  "bt_get (bt_insert k v m) k' = (if k' = k then Some v else bt_get m k')"
  by (induction k v m rule: bt_insert.induct) auto

lemma bt_ok_Nil [simp]: "bt_ok []"
  by (simp add: bt_ok_def)

lemma bt_ok_Cons: "bt_ok (p # m) \<longleftrightarrow> (\<forall>k \<in> set (keys m). fst p < k) \<and> bt_ok m"
  by (auto simp: bt_ok_def)

lemma bt_ok_insert [btree, simp, intro]: "bt_ok m \<Longrightarrow> bt_ok (bt_insert k v m)"
proof (induction m)
  case Nil
  then show ?case by (simp add: bt_ok_Cons)
next
  case (Cons p m)
  then show ?case by (cases p) (auto simp: bt_ok_Cons)
qed

lemma bt_ok_distinct: "bt_ok m \<Longrightarrow> distinct (keys m)"
  by (induction m) (auto simp: bt_ok_Cons)

lemma bt_get_remove [btree, simp]:
  "bt_get (bt_remove k m) k' = (if k' = k then None else bt_get m k')"
  by (induction m) (auto simp: bt_remove_def)

lemma set_keys_bt_remove [btree, simp]: "set (keys (bt_remove k m)) = set (keys m) - {k}"
  by (auto simp: keys_def bt_remove_def)

lemma bt_ok_remove [btree, simp, intro]: "bt_ok m \<Longrightarrow> bt_ok (bt_remove k m)"
  by (induction m) (auto simp: bt_ok_Cons bt_remove_def keys_def)

lemma bt_get_None: "bt_get m k = None \<longleftrightarrow> k \<notin> set (keys m)"
  by (simp add: keys_def map_of_eq_None_iff)

lemma bt_get_Some_key: "bt_get m k = Some v \<Longrightarrow> k \<in> set (keys m)"
  by (metis bt_get_None option.simps(3))

lemma bt_get_eq_Some: "bt_ok m \<Longrightarrow> bt_get m k = Some v \<longleftrightarrow> (k, v) \<in> set m"
  using bt_ok_distinct [of m] by (simp add: keys_def)

lemma in_vals_get: "bt_ok m \<Longrightarrow> v \<in> set (vals m) \<longleftrightarrow> (\<exists>k. bt_get m k = Some v)"
  by (force simp: vals_def bt_get_eq_Some)

text \<open>Two ordered maps with the same lookups are the same list.\<close>

lemma bt_ok_ext:
  assumes "bt_ok m" and "bt_ok n" and "\<And>k. bt_get m k = bt_get n k"
  shows "m = n"
proof -
  have ks: "set (keys m) = set (keys n)"
    using assms(3) by (metis bt_get_None subsetI subset_antisym)
  have keq: "keys m = keys n"
    using assms(1,2) ks strict_sorted_equal [of "keys m" "keys n"] by (simp add: bt_ok_def)
  have eta: "map (\<lambda>k. (k, the (bt_get m k))) (keys m) = m" if "bt_ok m"
    for m :: "('a \<times> 'b) list"
    using bt_ok_distinct [OF that] by (auto simp: keys_def intro!: map_idI)
  have "m = map (\<lambda>k. (k, the (bt_get m k))) (keys m)"
    using eta [OF assms(1)] by simp
  also have "\<dots> = map (\<lambda>k. (k, the (bt_get n k))) (keys n)"
    using keq assms(3) by simp
  also have "\<dots> = n"
    by (rule eta [OF assms(2)])
  finally show ?thesis .
qed

lemma bt_insert_same:
  "bt_ok m \<Longrightarrow> bt_get m k = Some v \<Longrightarrow> bt_insert k v m = m"
  by (rule bt_ok_ext) auto

lemma bt_insert_twice: "bt_ok m \<Longrightarrow> bt_insert k v (bt_insert k w m) = bt_insert k v m"
  by (rule bt_ok_ext) auto

lemma set_bs_insert [btree, simp]: "set (bs_insert k s) = insert k (set s)"
  by (induction s) auto

lemma set_bs_remove [btree, simp]: "set (bs_remove k s) = set s - {k}"
  by (auto simp: bs_remove_def)

lemma set_bs_extend [btree, simp]: "set (bs_extend ks s) = set ks \<union> set s"
  by (induction ks arbitrary: s) (auto simp: bs_extend_def)

lemma sorted_bs_insert [btree, simp]: "sorted_wrt (<) s \<Longrightarrow> sorted_wrt (<) (bs_insert k s)"
  by (induction s) auto

lemma sorted_bs_remove [btree, simp]: "sorted_wrt (<) s \<Longrightarrow> sorted_wrt (<) (bs_remove k s)"
  by (simp add: bs_remove_def sorted_wrt_filter)

lemma sorted_bs_extend [btree, simp]: "sorted_wrt (<) s \<Longrightarrow> sorted_wrt (<) (bs_extend ks s)"
  by (induction ks arbitrary: s) (auto simp: bs_extend_def)

lemma bs_distinct: "sorted_wrt (<) (s :: 'k::linorder list) \<Longrightarrow> distinct s"
  by (induction s) auto

section \<open>Strings\<close>

text \<open>
  \<open>trim()\<close> removes Unicode White_Space at both ends. In UTF-8 such a character is one byte
  (9 to 13, 32), two bytes (U+0085, U+00A0) or three (U+1680, U+2000 to U+200A, U+2028,
  U+2029, U+202F, U+205F, U+3000).
\<close>

definition byte :: "char \<Rightarrow> nat" where
  "byte c = of_char c"

definition ws1 :: "char \<Rightarrow> bool" where
  "ws1 a \<longleftrightarrow> 9 \<le> byte a \<and> byte a \<le> 13 \<or> byte a = 32"

definition ws2 :: "char \<Rightarrow> char \<Rightarrow> bool" where
  "ws2 a b \<longleftrightarrow> byte a = 0xC2 \<and> (byte b = 0x85 \<or> byte b = 0xA0)"

definition ws3 :: "char \<Rightarrow> char \<Rightarrow> char \<Rightarrow> bool" where
  "ws3 a b c \<longleftrightarrow>
     byte a = 0xE1 \<and> byte b = 0x9A \<and> byte c = 0x80
   \<or> byte a = 0xE2 \<and> byte b = 0x80 \<and>
       (0x80 \<le> byte c \<and> byte c \<le> 0x8A \<or> byte c = 0xA8 \<or> byte c = 0xA9 \<or> byte c = 0xAF)
   \<or> byte a = 0xE2 \<and> byte b = 0x81 \<and> byte c = 0x9F
   \<or> byte a = 0xE3 \<and> byte b = 0x80 \<and> byte c = 0x80"

fun trim_start :: "string \<Rightarrow> string" where
  "trim_start [] = []"
| "trim_start [a] = (if ws1 a then [] else [a])"
| "trim_start [a, b] = (if ws1 a then trim_start [b] else if ws2 a b then [] else [a, b])"
| "trim_start (a # b # c # s) =
     (if ws1 a then trim_start (b # c # s)
      else if ws2 a b then trim_start (c # s)
      else if ws3 a b c then trim_start s
      else a # b # c # s)"

text \<open>The same from the other end, on the reversed bytes.\<close>

fun trim_reversed :: "string \<Rightarrow> string" where
  "trim_reversed [] = []"
| "trim_reversed [a] = (if ws1 a then [] else [a])"
| "trim_reversed [b, a] = (if ws1 b then trim_reversed [a] else if ws2 a b then [] else [b, a])"
| "trim_reversed (c # b # a # s) =
     (if ws1 c then trim_reversed (b # a # s)
      else if ws2 b c then trim_reversed (a # s)
      else if ws3 a b c then trim_reversed s
      else c # b # a # s)"

definition trim_end :: "string \<Rightarrow> string" where
  "trim_end s = rev (trim_reversed (rev s))"

definition trim :: "string \<Rightarrow> string" where
  "trim s = trim_end (trim_start s)"

definition blank :: "string \<Rightarrow> bool" where
  "blank s \<longleftrightarrow> trim s = []"

definition strip_prefix :: "string \<Rightarrow> string \<Rightarrow> string option" where
  "strip_prefix p s = (if take (length p) s = p then Some (drop (length p) s) else None)"

definition starts_with :: "string \<Rightarrow> string \<Rightarrow> bool" where
  "starts_with s p \<longleftrightarrow> take (length p) s = p"

fun join :: "string \<Rightarrow> string list \<Rightarrow> string" where
  "join sep [] = []"
| "join sep [s] = s"
| "join sep (s # ss) = s @ sep @ join sep ss"

lemma trim_Nil [simp]: "trim [] = []" and blank_Nil [simp]: "blank []"
  by (simp_all add: trim_def trim_end_def blank_def)

lemma length_trim_start: "length (trim_start s) \<le> length s"
  by (induction s rule: trim_start.induct) auto

lemma length_trim_reversed: "length (trim_reversed s) \<le> length s"
  by (induction s rule: trim_reversed.induct) auto

lemma length_trim: "length (trim s) \<le> length s"
  unfolding trim_def trim_end_def
  using length_trim_start [of s] length_trim_reversed [of "rev (trim_start s)"] by simp

section \<open>Numbers\<close>

text \<open>Decimal and hexadecimal formatting, and the reading of digits that undoes it.\<close>

definition digit :: "nat \<Rightarrow> char" where
  "digit d = char_of (if d < 10 then 48 + d else 87 + d)"

fun show_base :: "nat \<Rightarrow> nat \<Rightarrow> string" where
  "show_base b n =
     (if n < b \<or> b < 2 then [digit n] else show_base b (n div b) @ [digit (n mod b)])"

declare show_base.simps [simp del]

lemma show_base_small: "n < b \<Longrightarrow> show_base b n = [digit n]"
  by (simp add: show_base.simps)

lemma digit_simps [simp]:
  "digit 0 = CHR ''0''" "digit 1 = CHR ''1''" "digit 2 = CHR ''2''" "digit 3 = CHR ''3''"
    "digit 4 = CHR ''4''" "digit 5 = CHR ''5''" "digit 6 = CHR ''6''" "digit 7 = CHR ''7''"
    "digit 8 = CHR ''8''" "digit 9 = CHR ''9''" "digit 10 = CHR ''a''" "digit 11 = CHR ''b''"
    "digit 12 = CHR ''c''" "digit 13 = CHR ''d''" "digit 14 = CHR ''e''" "digit 15 = CHR ''f''"
  "digit (Suc 0) = CHR ''1''"
  by (simp_all add: digit_def char_of_def bit_0)

definition dec :: "nat \<Rightarrow> string" where
  "dec n = show_base 10 n"

definition hex :: "nat \<Rightarrow> string" where
  "hex n = show_base 16 n"

definition digit_value :: "char \<Rightarrow> nat" where
  "digit_value c = (if byte c < 58 then byte c - 48 else byte c - 87)"

definition read_base :: "nat \<Rightarrow> string \<Rightarrow> nat" where
  "read_base b s = foldl (\<lambda>a c. a * b + digit_value c) 0 s"

lemma byte_digit: "d < 16 \<Longrightarrow> byte (digit d) = (if d < 10 then 48 + d else 87 + d)"
  by (simp add: byte_def digit_def)

lemma digit_value_digit: "d < 16 \<Longrightarrow> digit_value (digit d) = d"
  by (simp add: digit_value_def byte_digit)

lemma read_show_base:
  "2 \<le> b \<Longrightarrow> b \<le> 16 \<Longrightarrow> read_base b (show_base b n) = n"
proof (induction b n rule: show_base.induct)
  case (1 b n)
  show ?case
  proof (cases "n < b")
    case True
    with "1.prems" show ?thesis
      by (simp add: show_base.simps [of b n] read_base_def digit_value_digit)
  next
    case False
    with 1 have IH: "read_base b (show_base b (n div b)) = n div b" by simp
    have "n mod b < 16"
      using "1.prems" by (meson le_trans mod_less_divisor less_le_trans zero_less_numeral)
    with False "1.prems" IH show ?thesis
      by (simp add: show_base.simps [of b n] read_base_def digit_value_digit)
  qed
qed

lemma read_hex: "read_base 16 (hex n) = n"
  unfolding hex_def by (rule read_show_base) simp_all

lemma read_dec: "read_base 10 (dec n) = n"
  unfolding dec_def by (rule read_show_base) simp_all

lemma hex_inject [simp]: "hex m = hex n \<longleftrightarrow> m = n"
  by (metis read_hex)

lemma dec_inject [simp]: "dec m = dec n \<longleftrightarrow> m = n"
  by (metis read_dec)

text \<open>Formatting writes digits only, so no separator occurs in a number.\<close>

lemma set_show_base: "c \<in> set (show_base b n) \<Longrightarrow> 2 \<le> b \<Longrightarrow> b \<le> 16 \<Longrightarrow> \<exists>d < 16. c = digit d"
proof (induction b n rule: show_base.induct)
  case (1 b n)
  have m: "n mod b < 16"
    using "1.prems" by (meson le_trans mod_less_divisor less_le_trans zero_less_numeral)
  show ?case
  proof (cases "n < b")
    case True
    with "1.prems" show ?thesis
      by (auto simp: show_base.simps [of b n] intro!: exI [of _ n])
  next
    case False
    with 1 m show ?thesis by (auto simp: show_base.simps [of b n])
  qed
qed

lemma underscore_not_in_hex [simp]: "CHR ''_'' \<notin> set (hex n)"
proof
  assume "CHR ''_'' \<in> set (hex n)"
  then obtain d where d: "d < 16" and "CHR ''_'' = digit d"
    using set_show_base [of "CHR ''_''" 16 n] by (auto simp: hex_def)
  moreover have "byte (CHR ''_'') = 95" by (simp add: byte_def)
  ultimately show False using byte_digit [of d] by (auto split: if_splits)
qed

type_synonym u32 = "32 word"
type_synonym u64 = "64 word"

definition saturating_add :: "'a::len word \<Rightarrow> 'a word \<Rightarrow> 'a word" where
  "saturating_add a b = (if a \<le> a + b then a + b else - 1)"

lemma saturating_add_ge: "a \<le> saturating_add a b"
  by (simp add: saturating_add_def)

lemma less_saturating_add:
  assumes "0 < b" and "a \<noteq> - 1"
  shows "a < saturating_add a b"
proof (cases "a \<le> a + b")
  case True
  moreover have "a \<noteq> a + b" using assms(1) by auto
  ultimately have "a < a + b" by (rule le_neq_trans)
  with True show ?thesis by (simp add: saturating_add_def)
next
  case False
  then show ?thesis using assms(2) by (simp add: saturating_add_def word_order.not_eq_extremum)
qed

end
