(* ===== verification/Policy.thy ===== *)
theory Policy
  imports Prelude
begin

text \<open>
  Capability policy (crates/harness-core/src/policy.rs): three access levels in increasing
  order, the declarative policy that denies what it does not mention, and the projection of a
  run's tools through the policy and a parent's projection.
\<close>

datatype access = Deny | Ask | Allow

text \<open>\<open>derive(PartialOrd, Ord)\<close> orders the constructors as declared.\<close>

fun access_rank :: "access \<Rightarrow> nat" where
  "access_rank Deny = 0"
| "access_rank Ask = 1"
| "access_rank Allow = 2"

lemma access_rank_inject [simp]: "access_rank a = access_rank b \<longleftrightarrow> a = b"
  by (cases a; cases b) simp_all

instantiation access :: linorder
begin

definition less_eq_access :: "access \<Rightarrow> access \<Rightarrow> bool" where
  "less_eq_access a b \<longleftrightarrow> access_rank a \<le> access_rank b"

definition less_access :: "access \<Rightarrow> access \<Rightarrow> bool" where
  "less_access a b \<longleftrightarrow> access_rank a < access_rank b"

instance
  by intro_classes (auto simp: less_eq_access_def less_access_def)

end

lemma access_order [simp]:
  "Deny \<le> a" "a \<le> Allow" "a \<le> Deny \<longleftrightarrow> a = Deny" "Allow \<le> a \<longleftrightarrow> a = Allow"
  "Deny < a \<longleftrightarrow> a \<noteq> Deny"
  by (cases a; simp add: less_eq_access_def less_access_def)+

definition restrict :: "access \<Rightarrow> access \<Rightarrow> access" where
  "restrict a b = min a b"

record policy_context =
  principal :: "string option"
  channel :: "string option"
  agent :: "string option"
  sandbox :: "string option"

text \<open>A \<open>ToolPolicy\<close> object is its \<open>access\<close> method.\<close>

type_synonym tool_policy = "string \<Rightarrow> policy_context \<Rightarrow> access"

record capability_policy =
  cp_default :: access
  cp_tools :: "(string \<times> access) list"

definition deny_by_default :: capability_policy where
  "deny_by_default = \<lparr>cp_default = Deny, cp_tools = []\<rparr>"

definition with_default :: "capability_policy \<Rightarrow> access \<Rightarrow> capability_policy" where
  "with_default p a = p\<lparr>cp_default := a\<rparr>"

definition grant :: "capability_policy \<Rightarrow> string \<Rightarrow> access \<Rightarrow> capability_policy" where
  "grant p tool_name a = p\<lparr>cp_tools := bt_insert tool_name a (cp_tools p)\<rparr>"

definition capability_access :: "capability_policy \<Rightarrow> tool_policy" where
  "capability_access p tool_name context =
     (case bt_get (cp_tools p) tool_name of Some a \<Rightarrow> a | None \<Rightarrow> cp_default p)"

type_synonym capability_projection = "(string \<times> access) list"

definition projection_access :: "capability_projection \<Rightarrow> string \<Rightarrow> access" where
  "projection_access p tool_name =
     (case bt_get p tool_name of Some a \<Rightarrow> a | None \<Rightarrow> Deny)"

definition visible_names :: "capability_projection \<Rightarrow> string list" where
  "visible_names p = map fst (filter (\<lambda>(_, a). a \<noteq> Deny) p)"

definition project_capabilities ::
  "string list \<Rightarrow> tool_policy \<Rightarrow> policy_context \<Rightarrow> capability_projection option \<Rightarrow>
   capability_projection" where
  "project_capabilities tool_names policy context parent =
     bt_from (map (\<lambda>name.
       let requested = policy name context;
           effective = (case parent of
             Some p \<Rightarrow> restrict requested (projection_access p name)
           | None \<Rightarrow> requested)
       in (name, effective)) tool_names)"

section \<open>What the projection grants\<close>

lemma bt_from_map_get:
  "bt_get (bt_from (map (\<lambda>n. (n, f n)) ns)) k = (if k \<in> set ns then Some (f k) else None)"
proof -
  have "bt_get (fold (\<lambda>(k, v). bt_insert k v) (map (\<lambda>n. (n, f n)) ns) m) k =
      (if k \<in> set ns then Some (f k) else bt_get m k)" for m
    by (induction ns arbitrary: m) auto
  then show ?thesis by (simp add: bt_from_def)
qed

lemma projection_access_project:
  "projection_access (project_capabilities names policy context parent) n =
     (if n \<in> set names
      then (case parent of
              Some p \<Rightarrow> min (policy n context) (projection_access p n)
            | None \<Rightarrow> policy n context)
      else Deny)"
  by (simp add: projection_access_def project_capabilities_def Let_def bt_from_map_get
      restrict_def split: option.split)

lemma visible_names_iff:
  "bt_ok p \<Longrightarrow> n \<in> set (visible_names p) \<longleftrightarrow> projection_access p n \<noteq> Deny"
proof -
  assume p: "bt_ok p"
  have "n \<in> set (visible_names p) \<longleftrightarrow> (\<exists>a. (n, a) \<in> set p \<and> a \<noteq> Deny)"
    by (force simp: visible_names_def)
  also have "\<dots> \<longleftrightarrow> (\<exists>a. bt_get p n = Some a \<and> a \<noteq> Deny)"
    using bt_get_eq_Some [OF p] by metis
  also have "\<dots> \<longleftrightarrow> projection_access p n \<noteq> Deny"
    by (auto simp: projection_access_def split: option.splits)
  finally show ?thesis .
qed

lemma distinct_visible_names: "bt_ok p \<Longrightarrow> distinct (visible_names p)"
proof -
  assume "bt_ok p"
  then have "distinct (map fst p)" using bt_ok_distinct [of p] by (simp add: keys_def)
  then show ?thesis unfolding visible_names_def by (rule distinct_map_filter)
qed

lemma bt_ok_project [simp]: "bt_ok (project_capabilities names policy context parent)"
proof -
  have "bt_ok m \<Longrightarrow> bt_ok (fold (\<lambda>(k, v). bt_insert k v) kvs m)"
    for m kvs :: "(string \<times> access) list"
    by (induction kvs arbitrary: m) auto
  then show ?thesis by (simp add: project_capabilities_def bt_from_def)
qed

text \<open>A chain of agents: each is projected under the one before it.\<close>

fun delegate ::
  "(string list \<times> tool_policy \<times> policy_context) list \<Rightarrow> capability_projection option \<Rightarrow>
   capability_projection option" where
  "delegate [] parent = parent"
| "delegate ((names, policy, context) # rest) parent =
     delegate rest (Some (project_capabilities names policy context parent))"

lemma delegate_Some: "delegate chain (Some p) = Some q \<Longrightarrow>
    projection_access q n \<le> projection_access p n"
proof (induction chain arbitrary: p)
  case Nil
  then show ?case by simp
next
  case (Cons a chain)
  obtain names policy ctx where a: "a = (names, policy, ctx)" by (cases a) auto
  let ?p = "project_capabilities names policy ctx (Some p)"
  have "projection_access q n \<le> projection_access ?p n"
    using Cons a by simp
  also have "\<dots> \<le> projection_access p n"
    by (simp add: projection_access_project)
  finally show ?case .
qed

lemma delegate_last:
  "delegate (chain @ [(names, policy, ctx)]) parent =
     Some (project_capabilities names policy ctx (delegate chain parent))"
  by (induction chain arbitrary: parent) auto

lemma delegate_append: "delegate (xs @ ys) p = delegate ys (delegate xs p)"
  by (induction xs p rule: delegate.induct) auto

text \<open>A delegated agent never holds more than any of its ancestors: in a chain of agents each
  projected under its parent, every tool's access at the end is at most the access any agent
  above it has, at most what the last agent's own policy says, and denied when the last agent's
  registry lacks the tool.\<close>

theorem delegation_never_widens:
  assumes "delegate upper parent = Some ancestor"
    and "delegate (upper @ lower @ [(names, policy, ctx)]) parent = Some child"
  shows "projection_access child tool \<le> projection_access ancestor tool \<and>
    projection_access child tool \<le> (if tool \<in> set names then policy tool ctx else Deny)"
proof -
  have d: "delegate (lower @ [(names, policy, ctx)]) (Some ancestor) = Some child"
    using assms by (simp add: delegate_append)
  then have "projection_access child tool \<le> projection_access ancestor tool"
    by (rule delegate_Some)
  moreover have "projection_access child tool \<le> (if tool \<in> set names then policy tool ctx else Deny)"
    using d unfolding delegate_last
    by (auto simp: projection_access_project split: option.splits)
  ultimately show ?thesis ..
qed

definition sample_context :: policy_context where
  "sample_context = \<lparr>principal = None, channel = None, agent = None, sandbox = None\<rparr>"

theorem delegation_never_widens_witness:
  "projection_access (the (delegate
     [([''read'', ''shell''], capability_access (grant deny_by_default ''shell'' Ask), sample_context),
      ([''shell''], capability_access (with_default deny_by_default Allow), sample_context)] None))
     ''shell'' \<le> Ask"
proof -
  let ?a = "[([''read'', ''shell''], capability_access (grant deny_by_default ''shell'' Ask), sample_context)]"
  have "projection_access (the (delegate (?a @ [] @
      [([''shell''], capability_access (with_default deny_by_default Allow), sample_context)]) None)) ''shell''
     \<le> projection_access (the (delegate ?a None)) ''shell''"
    by (rule conjunct1 [OF delegation_never_widens [where upper = ?a and lower = "[]"]]) simp_all
  moreover have "projection_access (the (delegate ?a None)) ''shell'' = Ask"
    by (simp add: projection_access_project capability_access_def grant_def deny_by_default_def)
  ultimately show ?thesis by simp
qed

end
