(* ===== verification/Json.thy ===== *)
theory Json
  imports Prelude
begin

text \<open>
  JSON values as the program handles them. \<open>Value\<close> is the public data type of serde_json (a
  third-party crate): its constructors and the accessors the sources call on it are written here
  after the crate's documentation; parsing and printing JSON text stay parameters of the
  definitions that need them. An object is an ordered map (the crate's default), a number is an
  unsigned 64-bit integer or any other number, known by its text only.
\<close>

datatype json =
    JNull
  | JBool bool
  | JUint u64
  | JNumber string
  | JString string
  | JArray "json list"
  | JObject "(string \<times> json) list"

text \<open>\<open>json!({...})\<close> orders the keys.\<close>

definition jobject :: "(string \<times> json) list \<Rightarrow> json" where
  "jobject kvs = JObject (bt_from kvs)"

fun jget :: "json \<Rightarrow> string \<Rightarrow> json option" where
  "jget (JObject m) k = bt_get m k"
| "jget _ k = None"

fun as_str :: "json \<Rightarrow> string option" where
  "as_str (JString s) = Some s"
| "as_str _ = None"

fun as_u64 :: "json \<Rightarrow> u64 option" where
  "as_u64 (JUint n) = Some n"
| "as_u64 _ = None"

fun as_bool :: "json \<Rightarrow> bool option" where
  "as_bool (JBool b) = Some b"
| "as_bool _ = None"

fun as_array :: "json \<Rightarrow> json list option" where
  "as_array (JArray xs) = Some xs"
| "as_array _ = None"

fun as_object :: "json \<Rightarrow> (string \<times> json) list option" where
  "as_object (JObject m) = Some m"
| "as_object _ = None"

fun is_null :: "json \<Rightarrow> bool" where
  "is_null JNull = True"
| "is_null _ = False"

text \<open>\<open>get(key).and_then(accessor)\<close> and \<open>get(key).filter(|v| !v.is_null())\<close>\<close>

definition jfield :: "(json \<Rightarrow> 'a option) \<Rightarrow> json \<Rightarrow> string \<Rightarrow> 'a option" where
  "jfield f v k = Option.bind (jget v k) f"

definition jpresent :: "json \<Rightarrow> string \<Rightarrow> json option" where
  "jpresent v k = (case jget v k of Some x \<Rightarrow> if is_null x then None else Some x | None \<Rightarrow> None)"

fun_cases as_str_SomeE: "as_str v = Some s"
fun_cases as_u64_SomeE: "as_u64 v = Some n"
fun_cases as_array_SomeE: "as_array v = Some xs"

lemma as_str_Some [simp]: "as_str v = Some s \<longleftrightarrow> v = JString s"
  by (cases v) auto

lemma as_u64_Some [simp]: "as_u64 v = Some n \<longleftrightarrow> v = JUint n"
  by (cases v) auto

lemma as_array_Some [simp]: "as_array v = Some xs \<longleftrightarrow> v = JArray xs"
  by (cases v) auto

lemma bt_ok_from: "bt_ok (bt_from kvs)"
proof -
  have "bt_ok m \<Longrightarrow> bt_ok (fold (\<lambda>(k, v). bt_insert k v) kvs m)" for m
    by (induction kvs arbitrary: m) auto
  then show ?thesis by (simp add: bt_from_def)
qed

lemma bt_get_from: "bt_get (bt_from kvs) k = bt_get (rev kvs) k"
proof -
  have "bt_get (fold (\<lambda>(k, v). bt_insert k v) kvs m) k = bt_get (rev kvs @ m) k" for m
    by (induction kvs arbitrary: m) (auto simp: map_add_def split: option.splits)
  then show ?thesis by (simp add: bt_from_def)
qed

lemma jget_jobject [simp]: "jget (jobject kvs) k = bt_get (rev kvs) k"
  by (simp add: jobject_def bt_get_from)

end
