(* ===== verification/Actions.thy ===== *)
theory Actions
  imports Prelude
begin

text \<open>
  A method that may fail and changes state is an action: it takes the state and returns its
  result, \<open>Inl\<close> an error or \<open>Inr\<close> a value, with the new state. \<open>and_then\<close> is the code's \<open>?\<close>
  (an error ends the method at once, the state reached so far stays), \<open>attempt\<close> is a \<open>match\<close>
  on a result, \<open>for_each\<close> a loop whose body may leave with \<open>?\<close>.

  Properties of actions are stated as triples: from every state satisfying \<open>P\<close> the action ends
  in a state and value satisfying \<open>Q\<close>, or in a state and error satisfying \<open>E\<close>.
\<close>

type_synonym ('s, 'e, 'a) act = "'s \<Rightarrow> ('e + 'a) \<times> 's"

definition ok :: "'a \<Rightarrow> ('s, 'e, 'a) act" where
  "ok a = (\<lambda>s. (Inr a, s))"

definition err :: "'e \<Rightarrow> ('s, 'e, 'a) act" where
  "err e = (\<lambda>s. (Inl e, s))"

definition and_then :: "('s, 'e, 'a) act \<Rightarrow> ('a \<Rightarrow> ('s, 'e, 'b) act) \<Rightarrow> ('s, 'e, 'b) act" where
  "and_then m k = (\<lambda>s. case m s of (Inl e, s') \<Rightarrow> (Inl e, s') | (Inr a, s') \<Rightarrow> k a s')"

definition attempt :: "('s, 'e, 'a) act \<Rightarrow> ('e + 'a \<Rightarrow> ('s, 'f, 'b) act) \<Rightarrow> ('s, 'f, 'b) act" where
  "attempt m k = (\<lambda>s. case m s of (r, s') \<Rightarrow> k r s')"

definition map_err :: "('e \<Rightarrow> 'f) \<Rightarrow> ('s, 'e, 'a) act \<Rightarrow> ('s, 'f, 'a) act" where
  "map_err f m = attempt m (\<lambda>r. case r of Inl e \<Rightarrow> err (f e) | Inr a \<Rightarrow> ok a)"

definition reads :: "('s \<Rightarrow> 'a) \<Rightarrow> ('s, 'e, 'a) act" where
  "reads f = (\<lambda>s. (Inr (f s), s))"

definition writes :: "('s \<Rightarrow> 's) \<Rightarrow> ('s, 'e, unit) act" where
  "writes f = (\<lambda>s. (Inr (), f s))"

fun for_each :: "'x list \<Rightarrow> ('x \<Rightarrow> ('s, 'e, unit) act) \<Rightarrow> ('s, 'e, unit) act" where
  "for_each [] f = ok ()"
| "for_each (x # xs) f = and_then (f x) (\<lambda>_. for_each xs f)"

lemmas act_defs = ok_def err_def and_then_def attempt_def map_err_def reads_def writes_def

lemma and_then_ok [simp]: "and_then (ok a) k = k a"
  by (simp add: act_defs)

lemma and_then_err [simp]: "and_then (err e) k = err e"
  by (simp add: act_defs)

lemma and_then_assoc: "and_then (and_then m k) h = and_then m (\<lambda>a. and_then (k a) h)"
  by (rule ext) (simp add: and_then_def split: prod.split sum.split)

lemma for_each_append: "for_each (xs @ ys) f = and_then (for_each xs f) (\<lambda>_. for_each ys f)"
  by (induction xs) (simp_all add: and_then_assoc)

section \<open>Triples\<close>

definition triple ::
  "('s \<Rightarrow> bool) \<Rightarrow> ('s, 'e, 'a) act \<Rightarrow> ('a \<Rightarrow> 's \<Rightarrow> bool) \<Rightarrow> ('e \<Rightarrow> 's \<Rightarrow> bool) \<Rightarrow> bool" where
  "triple P m Q E \<longleftrightarrow>
     (\<forall>s. P s \<longrightarrow> (case m s of (Inl e, s') \<Rightarrow> E e s' | (Inr a, s') \<Rightarrow> Q a s'))"

lemma tripleI:
  "(\<And>s a s'. P s \<Longrightarrow> m s = (Inr a, s') \<Longrightarrow> Q a s') \<Longrightarrow>
   (\<And>s e s'. P s \<Longrightarrow> m s = (Inl e, s') \<Longrightarrow> E e s') \<Longrightarrow> triple P m Q E"
  by (auto simp: triple_def split: prod.splits sum.splits)

lemma triple_value: "triple P m Q E \<Longrightarrow> P s \<Longrightarrow> m s = (Inr a, s') \<Longrightarrow> Q a s'"
  by (auto simp: triple_def split: prod.splits sum.splits)

lemma triple_error: "triple P m Q E \<Longrightarrow> P s \<Longrightarrow> m s = (Inl e, s') \<Longrightarrow> E e s'"
  by (auto simp: triple_def split: prod.splits sum.splits)

lemma triple_weaken:
  "triple P' m Q' E' \<Longrightarrow> (\<And>s. P s \<Longrightarrow> P' s) \<Longrightarrow> (\<And>a s. Q' a s \<Longrightarrow> Q a s) \<Longrightarrow>
   (\<And>e s. E' e s \<Longrightarrow> E e s) \<Longrightarrow> triple P m Q E"
  unfolding triple_def by (fastforce split: prod.splits sum.splits)

lemma triple_pre: "triple P' m Q E \<Longrightarrow> (\<And>s. P s \<Longrightarrow> P' s) \<Longrightarrow> triple P m Q E"
  by (rule triple_weaken)

lemma triple_ok [wp]: "triple (Q a) (ok a) Q E"
  by (simp add: triple_def ok_def)

lemma triple_err [wp]: "triple (E e) (err e) Q E"
  by (simp add: triple_def err_def)

lemma triple_reads [wp]: "triple (\<lambda>s. Q (f s) s) (reads f) Q E"
  by (simp add: triple_def reads_def)

lemma triple_writes [wp]: "triple (\<lambda>s. Q () (f s)) (writes f) Q E"
  by (simp add: triple_def writes_def)

lemma triple_exists:
  assumes "\<And>b. triple (P b) m Q E"
  shows "triple (\<lambda>s. \<exists>b. P b s) m Q E"
  by (rule tripleI) (use triple_value [OF assms] triple_error [OF assms] in blast)+

lemma triple_conj: "(B \<Longrightarrow> triple P m Q E) \<Longrightarrow> triple (\<lambda>s. B \<and> P s) m Q E"
  by (cases B) (simp_all add: triple_def)

lemma triple_okI: "(\<And>s. P s \<Longrightarrow> Q a s) \<Longrightarrow> triple P (ok a) Q E"
  by (simp add: triple_def ok_def)

lemma triple_errI: "(\<And>s. P s \<Longrightarrow> E e s) \<Longrightarrow> triple P (err e) Q E"
  by (simp add: triple_def err_def)

lemma triple_readsI: "(\<And>s. P s \<Longrightarrow> Q (f s) s) \<Longrightarrow> triple P (reads f) Q E"
  by (simp add: triple_def reads_def)

lemma triple_and_then:
  assumes m: "triple P m R E" and k: "\<And>a. triple (R a) (k a) Q E"
  shows "triple P (and_then m k) Q E"
proof -
  have "case and_then m k s of (Inl e, s') \<Rightarrow> E e s' | (Inr a, s') \<Rightarrow> Q a s'" if P: "P s" for s
  proof (cases "m s")
    case (Pair r t)
    show ?thesis
    proof (cases r)
      case (Inl e)
      with Pair triple_error [OF m P] show ?thesis by (simp add: and_then_def)
    next
      case (Inr b)
      with Pair triple_value [OF m P] have "R b t" by simp
      with k [of b] Pair Inr show ?thesis by (simp add: and_then_def triple_def)
    qed
  qed
  then show ?thesis by (simp add: triple_def)
qed

lemma triple_attempt:
  assumes m: "triple P m (\<lambda>a. R (Inr a)) (\<lambda>e. R (Inl e))" and k: "\<And>r. triple (R r) (k r) Q E"
  shows "triple P (attempt m k) Q E"
proof -
  have "case attempt m k s of (Inl e, s') \<Rightarrow> E e s' | (Inr a, s') \<Rightarrow> Q a s'" if P: "P s" for s
  proof (cases "m s")
    case (Pair r t)
    have "R r t"
      using Pair triple_value [OF m P] triple_error [OF m P] by (cases r) simp_all
    with k [of r] Pair show ?thesis by (simp add: attempt_def triple_def)
  qed
  then show ?thesis by (simp add: triple_def)
qed

lemma triple_if:
  "(c \<Longrightarrow> triple P m Q E) \<Longrightarrow> (\<not> c \<Longrightarrow> triple P n Q E) \<Longrightarrow> triple P (if c then m else n) Q E"
  by simp

lemma triple_map_err:
  assumes "triple P m Q (\<lambda>e. E (f e))"
  shows "triple P (map_err f m) Q E"
  unfolding map_err_def
proof (rule triple_attempt [where R = "\<lambda>r s. case r of Inl e \<Rightarrow> E (f e) s | Inr a \<Rightarrow> Q a s"])
  show "triple P m (\<lambda>a s. case Inr a of Inl e \<Rightarrow> E (f e) s | Inr a \<Rightarrow> Q a s)
     (\<lambda>e s. case Inl e of Inl e \<Rightarrow> E (f e) s | Inr a \<Rightarrow> Q a s)"
    using assms by simp
  show "triple (\<lambda>s. case r of Inl e \<Rightarrow> E (f e) s | Inr a \<Rightarrow> Q a s)
     (case r of Inl e \<Rightarrow> err (f e) | Inr a \<Rightarrow> ok a) Q E" for r
    by (cases r) (simp_all add: triple_ok triple_err)
qed

text \<open>A loop invariant that speaks of the elements already visited.\<close>

lemma triple_for_each:
  assumes "\<And>xs x ys. zs = xs @ x # ys \<Longrightarrow> triple (I xs) (f x) (\<lambda>_. I (xs @ [x])) E"
  shows "triple (I []) (for_each zs f) (\<lambda>_. I zs) E"
proof -
  have "triple (I xs) (for_each ys f) (\<lambda>_. I zs) E" if "zs = xs @ ys" for xs ys
    using that
  proof (induction ys arbitrary: xs)
    case Nil
    then show ?case using triple_ok [of "\<lambda>_. I zs" "()"] by simp
  next
    case (Cons y ys)
    have "triple (I (xs @ [y])) (for_each ys f) (\<lambda>_. I zs) E"
      using Cons.prems by (intro Cons.IH) simp
    with assms [OF Cons.prems] show ?case
      by (auto intro: triple_and_then)
  qed
  from this [of "[]" zs] show ?thesis by simp
qed

section \<open>Preservation\<close>

text \<open>An assertion that an action keeps, whether it returns or fails.\<close>

definition preserves :: "('s \<Rightarrow> bool) \<Rightarrow> ('s, 'e, 'a) act \<Rightarrow> bool" where
  "preserves I m \<longleftrightarrow> triple I m (\<lambda>_. I) (\<lambda>_. I)"

named_theorems frame

lemma preserves_ok [frame]: "preserves I (ok a)" and preserves_err [frame]: "preserves I (err e)"
  by (simp_all add: preserves_def triple_def ok_def err_def)

lemma preserves_and_then [frame]:
  "preserves I m \<Longrightarrow> (\<And>a. preserves I (k a)) \<Longrightarrow> preserves I (and_then m k)"
  unfolding preserves_def by (rule triple_and_then)

lemma preserves_attempt [frame]:
  "preserves I m \<Longrightarrow> (\<And>r. preserves I (k r)) \<Longrightarrow> preserves I (attempt m k)"
  unfolding preserves_def by (rule triple_attempt [where R = "\<lambda>_. I"])

lemma preserves_if [frame]:
  "preserves I m \<Longrightarrow> preserves I n \<Longrightarrow> preserves I (if c then m else n)"
  by simp

lemma preserves_option [frame]:
  "preserves I m \<Longrightarrow> (\<And>x. preserves I (k x)) \<Longrightarrow> preserves I (case y of None \<Rightarrow> m | Some x \<Rightarrow> k x)"
  by (cases y) simp_all

lemma preserves_sum [frame]:
  "(\<And>x. preserves I (j x)) \<Longrightarrow> (\<And>x. preserves I (k x)) \<Longrightarrow>
   preserves I (case y of Inl x \<Rightarrow> j x | Inr x \<Rightarrow> k x)"
  by (cases y) simp_all

lemma preservesD: "preserves I m \<Longrightarrow> I s \<Longrightarrow> m s = (r, s') \<Longrightarrow> I s'"
  by (cases r) (auto simp: preserves_def dest: triple_value triple_error)

lemma preserves_reads [frame]: "preserves I (reads f)"
  by (simp add: preserves_def triple_def reads_def)

lemma preserves_writes: "(\<And>s. I s \<Longrightarrow> I (f s)) \<Longrightarrow> preserves I (writes f)"
  by (simp add: preserves_def triple_def writes_def)

lemma preserves_for_each: "(\<And>x. x \<in> set xs \<Longrightarrow> preserves I (f x)) \<Longrightarrow> preserves I (for_each xs f)"
  by (induction xs) (auto intro: frame)

end
