(* ===== verification/Host.thy ===== *)
theory Host
  imports Actions
begin

text \<open>
  The process a component runs in: its clock, its identifier counter and the outcomes of its
  file operations. The readings of the clock and the outcomes of I/O are functions of the number
  of readings and operations made so far, so a theorem about every host covers every behaviour
  of the operating system.

  Identifiers follow crates/harness-core/src/id.rs: \<open>prefix_timestamp_sequence_pid\<close> with the
  numbers in hexadecimal and the sequence taken from one process-wide atomic counter.
\<close>

section \<open>Clock and identifiers\<close>

text \<open>An I/O operation succeeds, or fails after some bytes of a write reached the file.\<close>

datatype io_outcome = Io_ok | Io_error string nat

record host =
  h_pid :: nat
  h_next_id :: u64
  h_clock :: "nat \<Rightarrow> int" \<comment> \<open>nanoseconds since the epoch, negative before it\<close>
  h_readings :: nat
  h_io :: "nat \<Rightarrow> io_outcome"
  h_operations :: nat

type_synonym thread_id = string
type_synonym turn_id = string
type_synonym call_id = string
type_synonym event_id = string

text \<open>\<open>duration_since(UNIX_EPOCH).unwrap_or_default()\<close>: a clock before the epoch reads zero.\<close>

definition now_nanos :: "host \<Rightarrow> nat \<times> host" where
  "now_nanos h = (nat (h_clock h (h_readings h)), h\<lparr>h_readings := Suc (h_readings h)\<rparr>)"

definition as_millis :: "nat \<Rightarrow> nat" where
  "as_millis n = n div 1000000"

text \<open>\<open>as_millis().try_into().unwrap_or(u64::MAX)\<close>\<close>

definition now_ms :: "host \<Rightarrow> u64 \<times> host" where
  "now_ms h =
     (let (n, h') = now_nanos h; ms = as_millis n
      in (if ms < 2 ^ 64 then of_nat ms else - 1, h'))"

definition id_text :: "string \<Rightarrow> nat \<Rightarrow> u64 \<Rightarrow> nat \<Rightarrow> string" where
  "id_text prefix timestamp sequence pid =
     prefix @ ''_'' @ hex timestamp @ ''_'' @ hex (unat sequence) @ ''_'' @ hex pid"

definition generated_id :: "string \<Rightarrow> host \<Rightarrow> string \<times> host" where
  "generated_id prefix h =
     (let (timestamp, h1) = now_nanos h
      in (id_text prefix timestamp (h_next_id h1) (h_pid h1),
          h1\<lparr>h_next_id := h_next_id h1 + 1\<rparr>))"

definition ThreadId_new :: "host \<Rightarrow> thread_id \<times> host" where
  "ThreadId_new = generated_id ''thread''"

definition TurnId_new :: "host \<Rightarrow> turn_id \<times> host" where
  "TurnId_new = generated_id ''turn''"

definition CallId_new :: "host \<Rightarrow> call_id \<times> host" where
  "CallId_new = generated_id ''call''"

definition EventId_new :: "host \<Rightarrow> event_id \<times> host" where
  "EventId_new = generated_id ''event''"

lemmas id_new_defs = ThreadId_new_def TurnId_new_def CallId_new_def EventId_new_def

fun generate_ids :: "string list \<Rightarrow> host \<Rightarrow> string list \<times> host" where
  "generate_ids [] h = ([], h)"
| "generate_ids (p # ps) h =
     (let (i, h1) = generated_id p h; (is, h2) = generate_ids ps h1 in (i # is, h2))"

lemma generated_id_host [simp]:
  "h_next_id (snd (generated_id p h)) = h_next_id h + 1"
  "h_pid (snd (generated_id p h)) = h_pid h"
  "h_io (snd (generated_id p h)) = h_io h"
  "h_operations (snd (generated_id p h)) = h_operations h"
  by (simp_all add: generated_id_def now_nanos_def)

lemma now_nanos_host [simp]:
  "h_next_id (snd (now_nanos h)) = h_next_id h" "h_pid (snd (now_nanos h)) = h_pid h"
  "h_io (snd (now_nanos h)) = h_io h" "h_operations (snd (now_nanos h)) = h_operations h"
  by (simp_all add: now_nanos_def)

lemma now_ms_host [simp]:
  "h_next_id (snd (now_ms h)) = h_next_id h" "h_pid (snd (now_ms h)) = h_pid h"
  "h_io (snd (now_ms h)) = h_io h" "h_operations (snd (now_ms h)) = h_operations h"
  by (simp_all add: now_ms_def now_nanos_def Let_def)

text \<open>The text of an identifier determines its parts, because no part but a prefix can hold
  an underscore.\<close>

lemma split_at_separator:
  assumes "xs @ c # ys = xs' @ c # ys'" and "c \<notin> set xs" and "c \<notin> set xs'"
  shows "xs = xs' \<and> ys = ys'"
  using assms
proof (induction xs arbitrary: xs')
  case Nil
  then show ?case by (cases xs') auto
next
  case (Cons x xs)
  then show ?case by (cases xs') auto
qed

lemma id_text_inject:
  assumes "id_text p t s q = id_text p' t' s' q'" and "CHR ''_'' \<notin> set p" and "CHR ''_'' \<notin> set p'"
  shows "p = p' \<and> t = t' \<and> s = s' \<and> q = q'"
proof -
  have 1: "p = p'" and r1: "hex t @ CHR ''_'' # hex (unat s) @ CHR ''_'' # hex q
      = hex t' @ CHR ''_'' # hex (unat s') @ CHR ''_'' # hex q'"
    using split_at_separator [of p "CHR ''_''" _ p'] assms by (auto simp: id_text_def)
  have 2: "hex t = hex t'" and r2: "hex (unat s) @ CHR ''_'' # hex q
      = hex (unat s') @ CHR ''_'' # hex q'"
    using split_at_separator [OF r1] by simp_all
  have 3: "hex (unat s) = hex (unat s')" and 4: "hex q = hex q'"
    using split_at_separator [OF r2] by simp_all
  from 1 2 3 4 show ?thesis by (simp add: word_unat_eq_iff)
qed

lemma generated_id_text:
  "fst (generated_id p h) = id_text p (fst (now_nanos h)) (h_next_id h) (h_pid h)"
  by (simp add: generated_id_def now_nanos_def)

text \<open>The identifiers of a run carry the consecutive values of the counter.\<close>

lemma generate_ids_sequence:
  "i \<in> set (fst (generate_ids ps h)) \<Longrightarrow>
   \<exists>k < length ps. \<exists>t. i = id_text (ps ! k) t (h_next_id h + of_nat k) (h_pid h)"
proof (induction ps arbitrary: h)
  case Nil
  then show ?case by simp
next
  case (Cons p ps)
  obtain i0 h1 where g: "generated_id p h = (i0, h1)" by fastforce
  have h1: "h_next_id h1 = h_next_id h + 1" "h_pid h1 = h_pid h"
    using generated_id_host(1,2) [of p h] g by simp_all
  show ?case
  proof (cases "i = i0")
    case True
    then have "i = id_text p (fst (now_nanos h)) (h_next_id h) (h_pid h)"
      using generated_id_text [of p h] g by simp
    then show ?thesis by (intro exI [of _ 0]) auto
  next
    case False
    with Cons.prems g have "i \<in> set (fst (generate_ids ps h1))"
      by (auto split: prod.splits)
    from Cons.IH [OF this] h1 obtain k t
      where "k < length ps" "i = id_text (ps ! k) t (h_next_id h + 1 + of_nat k) (h_pid h)"
      by auto
    then show ?thesis by (intro exI [of _ "Suc k"]) (auto simp: add.assoc)
  qed
qed

lemma generate_ids_distinct:
  assumes "length ps \<le> 2 ^ 64" and "\<And>p. p \<in> set ps \<Longrightarrow> CHR ''_'' \<notin> set p"
  shows "distinct (fst (generate_ids ps h))"
  using assms
proof (induction ps arbitrary: h)
  case Nil
  then show ?case by simp
next
  case (Cons p ps)
  obtain i0 h1 where g: "generated_id p h = (i0, h1)" by fastforce
  have h1: "h_next_id h1 = h_next_id h + 1" "h_pid h1 = h_pid h"
    using generated_id_host(1,2) [of p h] g by simp_all
  have i0: "i0 = id_text p (fst (now_nanos h)) (h_next_id h) (h_pid h)"
    using generated_id_text [of p h] g by simp
  have "i0 \<notin> set (fst (generate_ids ps h1))"
  proof
    assume "i0 \<in> set (fst (generate_ids ps h1))"
    from generate_ids_sequence [OF this] h1 obtain k t where k: "k < length ps"
      and "i0 = id_text (ps ! k) t (h_next_id h + 1 + of_nat k) (h_pid h)" by auto
    with i0 have "id_text p (fst (now_nanos h)) (h_next_id h) (h_pid h)
        = id_text (ps ! k) t (h_next_id h + 1 + of_nat k) (h_pid h)" by simp
    moreover have "CHR ''_'' \<notin> set (ps ! k)" using Cons.prems(2) k by simp
    ultimately have "h_next_id h = h_next_id h + 1 + of_nat k"
      using id_text_inject Cons.prems(2) [of p] by (metis list.set_intros(1))
    then have "(of_nat (Suc k) :: u64) = 0" by (simp add: add.assoc)
    then have "2 ^ 64 dvd Suc k" by (simp only: word_of_nat_eq_0_iff) simp
    moreover have "Suc k < 2 ^ 64" using k Cons.prems(1) by simp
    ultimately show False by (auto dest: dvd_imp_le)
  qed
  moreover have "distinct (fst (generate_ids ps h1))"
    using Cons.prems by (intro Cons.IH) auto
  ultimately show ?case using g by (auto split: prod.splits)
qed

text \<open>The identifiers a process generates are pairwise distinct, whatever its clock does (it may
  stand still or run backwards) and whatever the counter starts from, for up to \<open>2 ^ 64\<close> of them;
  each has the shape \<open>prefix_timestamp_sequence_pid\<close> with the counter's consecutive values.\<close>

theorem generated_ids_unique:
  assumes "length ps \<le> 2 ^ 64" and "set ps \<subseteq> {''thread'', ''turn'', ''call'', ''event''}"
  shows "distinct (fst (generate_ids ps h)) \<and>
    (\<forall>i \<in> set (fst (generate_ids ps h)). \<exists>k < length ps. \<exists>t.
       i = id_text (ps ! k) t (h_next_id h + of_nat k) (h_pid h))"
proof -
  have "CHR ''_'' \<notin> set p" if "p \<in> set ps" for p
    using that assms(2) by auto
  then show ?thesis
    using generate_ids_distinct [OF assms(1)] generate_ids_sequence by blast
qed

theorem generated_ids_unique_witness:
  "distinct (fst (generate_ids [''turn'', ''event'', ''event'']
     \<lparr>h_pid = 7, h_next_id = - 1, h_clock = (\<lambda>n. - int n), h_readings = 0, h_io = (\<lambda>_. Io_ok),
      h_operations = 0\<rparr>))"
  by (rule conjunct1 [OF generated_ids_unique]) simp_all

section \<open>Append-only log files\<close>

text \<open>
  A log opened with \<open>append(true)\<close>: its bytes and the host that performs the operations. A
  failed \<open>write_all\<close> may leave any prefix of the buffer in the file; a failed flush or sync
  leaves the bytes written so far.
\<close>

record log_file =
  lf_bytes :: string
  lf_host :: host

definition io_step :: "host \<Rightarrow> io_outcome \<times> host" where
  "io_step h = (h_io h (h_operations h), h\<lparr>h_operations := Suc (h_operations h)\<rparr>)"

definition write_all :: "string \<Rightarrow> (log_file, string, unit) act" where
  "write_all bytes f =
     (case io_step (lf_host f) of
        (Io_ok, h) \<Rightarrow> (Inr (), f\<lparr>lf_bytes := lf_bytes f @ bytes, lf_host := h\<rparr>)
      | (Io_error e n, h) \<Rightarrow> (Inl e, f\<lparr>lf_bytes := lf_bytes f @ take n bytes, lf_host := h\<rparr>))"

definition sync_file :: "(log_file, string, unit) act" where
  "sync_file f =
     (case io_step (lf_host f) of
        (Io_ok, h) \<Rightarrow> (Inr (), f\<lparr>lf_host := h\<rparr>)
      | (Io_error e n, h) \<Rightarrow> (Inl e, f\<lparr>lf_host := h\<rparr>))"

abbreviation newline :: char where
  "newline \<equiv> CHR 0x0A"

text \<open>\<open>write_all(&encoded)?; write_all(b"\n")?; flush()?; sync_data()?\<close>\<close>

definition append_line :: "string \<Rightarrow> (log_file, string, unit) act" where
  "append_line encoded =
     and_then (write_all encoded) (\<lambda>_.
     and_then (write_all [newline]) (\<lambda>_.
     and_then sync_file (\<lambda>_. sync_file)))"

text \<open>An action on a component of the state, run on the whole state.\<close>

definition zoom :: "('s \<Rightarrow> 't) \<Rightarrow> ('t \<Rightarrow> 's \<Rightarrow> 's) \<Rightarrow> ('t, 'e, 'a) act \<Rightarrow> ('s, 'e, 'a) act" where
  "zoom get put m = (\<lambda>s. case m (get s) of (r, t) \<Rightarrow> (r, put t s))"

text \<open>After an append the log holds the old bytes and the record, or an error was returned and
  the log ends in a prefix of the record.\<close>

lemma write_all_result:
  "write_all b f = (Inr u, f') \<Longrightarrow> lf_bytes f' = lf_bytes f @ b"
  "write_all b f = (Inl m, f') \<Longrightarrow> \<exists>n. lf_bytes f' = lf_bytes f @ take n b"
  by (auto simp: write_all_def split: prod.splits io_outcome.splits)

lemma sync_file_bytes: "sync_file f = (r, f') \<Longrightarrow> lf_bytes f' = lf_bytes f"
  by (auto simp: sync_file_def split: prod.splits io_outcome.splits)

lemma append_line_appended:
  "append_line e f = (Inr u, f') \<Longrightarrow> lf_bytes f' = lf_bytes f @ e @ [newline]"
  by (auto simp: append_line_def and_then_def dest!: write_all_result(1) sync_file_bytes
      split: prod.splits sum.splits)

lemma append_line_failed:
  assumes "append_line e f = (Inl m, f')"
  shows "\<exists>p q. e @ [newline] = p @ q \<and> lf_bytes f' = lf_bytes f @ p"
proof -
  obtain r1 f1 where 1: "write_all e f = (r1, f1)" by fastforce
  show ?thesis
  proof (cases r1)
    case (Inl m1)
    with assms 1 have "f' = f1" by (simp add: append_line_def and_then_def)
    with 1 Inl write_all_result(2) obtain n where "lf_bytes f' = lf_bytes f @ take n e" by blast
    then show ?thesis by (intro exI [of _ "take n e"] exI [of _ "drop n e @ [newline]"]) simp
  next
    case (Inr u1)
    with 1 have f1: "lf_bytes f1 = lf_bytes f @ e" by (auto dest: write_all_result(1))
    obtain r2 f2 where 2: "write_all [newline] f1 = (r2, f2)" by fastforce
    show ?thesis
    proof (cases r2)
      case (Inl m2)
      with assms 1 2 Inr have "f' = f2" by (simp add: append_line_def and_then_def)
      with 2 Inl write_all_result(2) obtain n
        where "lf_bytes f' = lf_bytes f1 @ take n [newline]" by blast
      with f1 show ?thesis
        by (intro exI [of _ "e @ take n [newline]"] exI [of _ "drop n [newline]"])
          (simp del: take_Cons drop_Cons)
    next
      case (Inr u2)
      with 2 f1 have "lf_bytes f2 = lf_bytes f @ e @ [newline]"
        by (auto dest: write_all_result(1))
      moreover have "lf_bytes f' = lf_bytes f2"
        using assms 1 2 \<open>r1 = Inr u1\<close> Inr
        by (auto simp: append_line_def and_then_def dest!: sync_file_bytes
            split: prod.splits sum.splits)
      ultimately show ?thesis by (intro exI [of _ "e @ [newline]"] exI [of _ "[]"]) simp
    qed
  qed
qed

end
