(* ===== verification/Protocol.thy ===== *)
theory Protocol
  imports Json Host
begin

text \<open>
  The protocol data of crates/harness-core: tool calls, canonical actions, receipts and
  transcript messages (protocol.rs), approvals (approval.rs), model requests and responses
  (model.rs), context segments (context.rs), runtime events and their envelopes (event.rs), and
  the errors with the texts their \<open>Display\<close> writes.
\<close>

section \<open>Tool calls, actions and receipts\<close>

record tool_call =
  tc_id :: call_id
  tc_name :: string
  tc_arguments :: json

definition ToolCall_new :: "string \<Rightarrow> json \<Rightarrow> host \<Rightarrow> tool_call \<times> host" where
  "ToolCall_new name arguments h =
     (let (i, h') = CallId_new h
      in (\<lparr>tc_id = i, tc_name = name, tc_arguments = arguments\<rparr>, h'))"

datatype effect_kind = ReadOnly | WorkspaceWrite | ExternalSideEffect

datatype retry_safety = Retry_Safe | Retry_Idempotent | Retry_Unsafe

record canonical_action =
  ca_tool_name :: string
  ca_arguments :: json
  ca_effect :: effect_kind
  ca_retry_safety :: retry_safety
  ca_scope :: "string option"

definition CanonicalAction_new ::
  "string \<Rightarrow> json \<Rightarrow> effect_kind \<Rightarrow> retry_safety \<Rightarrow> canonical_action" where
  "CanonicalAction_new tool_name arguments effect safety =
     \<lparr>ca_tool_name = tool_name, ca_arguments = arguments, ca_effect = effect,
      ca_retry_safety = safety, ca_scope = None\<rparr>"

definition in_scope :: "canonical_action \<Rightarrow> string \<Rightarrow> canonical_action" where
  "in_scope a scope = a\<lparr>ca_scope := Some scope\<rparr>"

record prepared_tool_call =
  pc_call_id :: call_id
  pc_action :: canonical_action

datatype receipt_status = Receipt_Succeeded | Receipt_Failed | Receipt_Denied | Receipt_Unknown

record tool_receipt =
  tr_call_id :: call_id
  tr_tool_name :: string
  tr_status :: receipt_status
  tr_action :: "canonical_action option"
  tr_output :: "json option"
  tr_error :: "string option"

definition receipt_succeeded :: "prepared_tool_call \<Rightarrow> json \<Rightarrow> tool_receipt" where
  "receipt_succeeded p output =
     \<lparr>tr_call_id = pc_call_id p, tr_tool_name = ca_tool_name (pc_action p),
      tr_status = Receipt_Succeeded, tr_action = Some (pc_action p),
      tr_output = Some output, tr_error = None\<rparr>"

definition receipt_failed :: "prepared_tool_call \<Rightarrow> string \<Rightarrow> tool_receipt" where
  "receipt_failed p e =
     \<lparr>tr_call_id = pc_call_id p, tr_tool_name = ca_tool_name (pc_action p),
      tr_status = Receipt_Failed, tr_action = Some (pc_action p),
      tr_output = None, tr_error = Some e\<rparr>"

definition receipt_denied ::
  "call_id \<Rightarrow> string \<Rightarrow> canonical_action option \<Rightarrow> string \<Rightarrow> tool_receipt" where
  "receipt_denied call_id tool_name action reason =
     \<lparr>tr_call_id = call_id, tr_tool_name = tool_name, tr_status = Receipt_Denied,
      tr_action = action, tr_output = None, tr_error = Some reason\<rparr>"

definition receipt_malformed :: "tool_call \<Rightarrow> string \<Rightarrow> tool_receipt" where
  "receipt_malformed call e =
     \<lparr>tr_call_id = tc_id call, tr_tool_name = tc_name call, tr_status = Receipt_Failed,
      tr_action = None, tr_output = None, tr_error = Some e\<rparr>"

definition receipt_unknown :: "prepared_tool_call \<Rightarrow> string \<Rightarrow> tool_receipt" where
  "receipt_unknown p reason =
     \<lparr>tr_call_id = pc_call_id p, tr_tool_name = ca_tool_name (pc_action p),
      tr_status = Receipt_Unknown, tr_action = Some (pc_action p),
      tr_output = None, tr_error = Some reason\<rparr>"

lemmas receipt_defs = receipt_succeeded_def receipt_failed_def receipt_denied_def
  receipt_malformed_def receipt_unknown_def

lemma receipt_call_id [simp]:
  "tr_call_id (receipt_succeeded p v) = pc_call_id p"
  "tr_call_id (receipt_failed p e) = pc_call_id p"
  "tr_call_id (receipt_denied i n a e) = i"
  "tr_call_id (receipt_malformed c e) = tc_id c"
  "tr_call_id (receipt_unknown p e) = pc_call_id p"
  by (simp_all add: receipt_defs)

lemma receipt_tool_name [simp]:
  "tr_tool_name (receipt_succeeded p v) = ca_tool_name (pc_action p)"
  "tr_tool_name (receipt_failed p e) = ca_tool_name (pc_action p)"
  "tr_tool_name (receipt_denied i n a e) = n"
  "tr_tool_name (receipt_malformed c e) = tc_name c"
  "tr_tool_name (receipt_unknown p e) = ca_tool_name (pc_action p)"
  by (simp_all add: receipt_defs)

lemma receipt_status [simp]:
  "tr_status (receipt_succeeded p v) = Receipt_Succeeded"
  "tr_status (receipt_failed p e) = Receipt_Failed"
  "tr_status (receipt_denied i n a e) = Receipt_Denied"
  "tr_status (receipt_malformed c e) = Receipt_Failed"
  "tr_status (receipt_unknown p e) = Receipt_Unknown"
  by (simp_all add: receipt_defs)

datatype transcript_message =
    User string
  | Assistant string "tool_call list"
  | Tool_Result tool_receipt

section \<open>Approval\<close>

record approval_request =
  ar_thread_id :: thread_id
  ar_turn_id :: turn_id
  ar_call_id :: call_id
  ar_action :: canonical_action
  ar_reason :: string

datatype approval_decision = Approved canonical_action | Denied string

datatype approval_error = ApprovalError string

fun approval_error_text :: "approval_error \<Rightarrow> string" where
  [display]: "approval_error_text (ApprovalError e) = ''approval provider failed: '' @ e"

text \<open>The fail-closed provider used when no control plane is interactive.\<close>

definition DenyAllApprovals ::
  "approval_request \<Rightarrow> 'w \<Rightarrow> (approval_error + approval_decision) \<times> 'w" where
  "DenyAllApprovals request w = (Inr (Denied ''no approval provider is configured''), w)"

section \<open>Context and model data\<close>

datatype prompt_layer = Stable | Rules | Skills | Memory_Layer | Compaction | Volatile

record prompt_segment =
  ps_layer :: prompt_layer
  ps_name :: string
  ps_text :: string

record context_input =
  ci_thread_id :: thread_id
  ci_turn_id :: turn_id
  ci_transcript :: "transcript_message list"

record compiled_context =
  cc_prompt :: "prompt_segment list"
  cc_messages :: "transcript_message list"

datatype context_error =
    TooLarge nat nat \<comment> \<open>actual, maximum\<close>
  | Path_Error string
  | Read_Error string

fun context_error_text :: "context_error \<Rightarrow> string" where
  [display]: "context_error_text (TooLarge actual maximum) =
     ''context exceeds the configured character budget ('' @ dec actual @ '' > '' @ dec maximum @ '')''"
| "context_error_text (Path_Error e) = ''context path error: '' @ e"
| "context_error_text (Read_Error e) = ''failed to read context source: '' @ e"

record tool_definition =
  td_name :: string
  td_description :: string
  td_input_schema :: json

record model_request =
  mr_thread_id :: thread_id
  mr_turn_id :: turn_id
  mr_iteration :: nat
  mr_context :: compiled_context
  mr_tools :: "tool_definition list"

datatype stop_reason = EndTurn | ToolUse | MaxTokens | Other_Stop

fun stop_reason_debug :: "stop_reason \<Rightarrow> string" where
  "stop_reason_debug EndTurn = ''EndTurn''"
| "stop_reason_debug ToolUse = ''ToolUse''"
| "stop_reason_debug MaxTokens = ''MaxTokens''"
| "stop_reason_debug Other_Stop = ''Other''"

record token_usage =
  input_tokens :: u64
  output_tokens :: u64

definition no_usage :: token_usage where
  "no_usage = \<lparr>input_tokens = 0, output_tokens = 0\<rparr>"

record model_response =
  mp_content :: string
  mp_tool_calls :: "tool_call list"
  mp_stop_reason :: stop_reason
  mp_usage :: token_usage

definition response_text :: "string \<Rightarrow> model_response" where
  "response_text content =
     \<lparr>mp_content = content, mp_tool_calls = [], mp_stop_reason = EndTurn, mp_usage = no_usage\<rparr>"

definition response_tool_calls :: "tool_call list \<Rightarrow> model_response" where
  "response_tool_calls calls =
     \<lparr>mp_content = [], mp_tool_calls = calls, mp_stop_reason = ToolUse, mp_usage = no_usage\<rparr>"

record model_error =
  me_message :: string
  me_retryable :: bool

definition model_error_text :: "model_error \<Rightarrow> string" where
  [display]: "model_error_text e = ''model request failed: '' @ me_message e"

section \<open>Runtime events\<close>

datatype hook_point = BeforeModel | BeforeTool | AfterTool

datatype runtime_event =
    ThreadStarted
  | TurnStarted
  | UserMessage string
  | ContextCompiled nat nat nat "string list"
  | ModelRequestStarted nat
  | AssistantMessage string "tool_call list" stop_reason token_usage
  | ToolPrepared prepared_tool_call
  | ApprovalRequested approval_request
  | ApprovalResolved call_id approval_decision
  | ToolExecutionStarted prepared_tool_call
  | ToolReceiptRecorded tool_receipt
  | HookFailed string hook_point string
  | TurnCompleted string
  | TurnFailed string
  | TurnCancelled

record event_envelope =
  ev_id :: event_id
  ev_sequence :: u64
  ev_at_unix_ms :: nat
  ev_thread_id :: thread_id
  ev_turn_id :: "turn_id option"
  ev_event :: runtime_event

fun terminal_event :: "runtime_event \<Rightarrow> bool" where
  "terminal_event (TurnCompleted _) = True"
| "terminal_event (TurnFailed _) = True"
| "terminal_event TurnCancelled = True"
| "terminal_event _ = False"

section \<open>Tool errors\<close>

datatype tool_error =
    OutcomeUnknown string
  | InvalidArguments string
  | Execution string
  | ExecutorUnavailable string
  | Tool_Cancelled

fun tool_error_text :: "tool_error \<Rightarrow> string" where
  [display]: "tool_error_text (OutcomeUnknown e) = ''tool outcome is unknown: '' @ e"
| "tool_error_text (InvalidArguments e) = ''invalid tool arguments: '' @ e"
| "tool_error_text (Execution e) = ''tool execution failed: '' @ e"
| "tool_error_text (ExecutorUnavailable e) = ''tool executor is unavailable: '' @ e"
| "tool_error_text Tool_Cancelled = ''tool execution was cancelled''"

end
