(* ===== verification/Registry.thy ===== *)
theory Registry
  imports Protocol
begin

text \<open>
  Tools, the tool registry (crates/harness-core/src/tool.rs), the executors (executor.rs) and
  the hooks (hook.rs). A trait object is a record of its methods; a method may read and change
  the environment \<open>'w\<close> of the runtime (files, processes, network, other threads), which stays
  abstract.
\<close>

section \<open>Tools and their registry\<close>

record tool_execution_context =
  tx_thread_id :: thread_id
  tx_turn_id :: turn_id
  tx_workspace :: "string option"
  tx_metadata :: "(string \<times> string) list"

record 'w tool =
  t_definition :: tool_definition
  t_prepare :: "tool_call \<Rightarrow> tool_execution_context \<Rightarrow> 'w \<Rightarrow> (tool_error + prepared_tool_call) \<times> 'w"
  t_execute :: "prepared_tool_call \<Rightarrow> tool_execution_context \<Rightarrow> 'w \<Rightarrow> (tool_error + json) \<times> 'w"

datatype registry_error = EmptyName | Duplicate string

fun registry_error_text :: "registry_error \<Rightarrow> string" where
  [display]: "registry_error_text EmptyName = ''tool name cannot be empty''"
| "registry_error_text (Duplicate n) = ''tool `'' @ n @ ''` is already registered''"

record 'w registered_tool =
  rg_definition :: tool_definition
  rg_implementation :: "'w tool"

type_synonym 'w tool_registry = "(string \<times> 'w registered_tool) list"

definition register_arc :: "'w tool \<Rightarrow> 'w tool_registry \<Rightarrow> registry_error + 'w tool_registry" where
  "register_arc tool tools =
     (let defn = t_definition tool
      in if blank (td_name defn) then Inl EmptyName
         else if bt_get tools (td_name defn) \<noteq> None
           then Inl (Duplicate (td_name defn))
         else Inr (bt_insert (td_name defn)
                \<lparr>rg_definition = defn, rg_implementation = tool\<rparr> tools))"

definition registry_get :: "'w tool_registry \<Rightarrow> string \<Rightarrow> 'w tool option" where
  "registry_get tools name = map_option rg_implementation (bt_get tools name)"

definition registry_names :: "'w tool_registry \<Rightarrow> string list" where
  "registry_names tools = keys tools"

definition definitions_for :: "'w tool_registry \<Rightarrow> string list \<Rightarrow> tool_definition list" where
  "definitions_for tools names =
     map rg_definition (List.map_filter (\<lambda>name. bt_get tools name) names)"

text \<open>Every entry sits under the name its tool declared, no name is blank.\<close>

definition registry_ok :: "'w tool_registry \<Rightarrow> bool" where
  "registry_ok tools \<longleftrightarrow> bt_ok tools \<and>
     (\<forall>(n, r) \<in> set tools. td_name (rg_definition r) = n \<and>
        rg_definition r = t_definition (rg_implementation r) \<and> \<not> blank n)"

fun register_all :: "'w tool list \<Rightarrow> 'w tool_registry \<Rightarrow> registry_error + 'w tool_registry" where
  "register_all [] tools = Inr tools"
| "register_all (t # ts) tools =
     (case register_arc t tools of Inl e \<Rightarrow> Inl e | Inr tools' \<Rightarrow> register_all ts tools')"

lemma set_bt_insert_subset: "set (bt_insert k v m) \<subseteq> insert (k, v) (set m)"
  by (induction k v m rule: bt_insert.induct) auto

lemma register_arc_ok:
  assumes "register_arc t tools = Inr tools'" and "registry_ok tools"
  shows "registry_ok tools'"
proof -
  from assms have "\<not> blank (td_name (t_definition t))"
    and t': "tools' = bt_insert (td_name (t_definition t))
          \<lparr>rg_definition = t_definition t, rg_implementation = t\<rparr> tools"
    by (auto simp: register_arc_def Let_def split: if_splits)
  moreover have "set tools' \<subseteq> insert (td_name (t_definition t),
      \<lparr>rg_definition = t_definition t, rg_implementation = t\<rparr>) (set tools)"
    unfolding t' by (rule set_bt_insert_subset)
  ultimately show ?thesis
    using assms(2) by (auto simp: registry_ok_def)
qed

lemma register_all_ok:
  "register_all ts tools = Inr tools' \<Longrightarrow> registry_ok tools \<Longrightarrow> registry_ok tools'"
  by (induction ts arbitrary: tools) (auto split: sum.splits dest: register_arc_ok)

lemma registry_get_name:
  "registry_ok tools \<Longrightarrow> registry_get tools n = Some t \<Longrightarrow> td_name (t_definition t) = n"
  by (auto simp: registry_ok_def registry_get_def dest!: map_of_SomeD)

lemma definitions_for_names:
  assumes "registry_ok tools" and "set names \<subseteq> set (registry_names tools)"
  shows "map td_name (definitions_for tools names) = names"
  using assms(2)
proof (induction names)
  case Nil
  then show ?case by (simp add: definitions_for_def List.map_filter_def)
next
  case (Cons n names)
  then obtain r where r: "bt_get tools n = Some r"
    using bt_get_None [of tools n] by (auto simp: registry_names_def)
  then have "td_name (rg_definition r) = n"
    using assms(1) by (auto simp: registry_ok_def dest!: map_of_SomeD)
  with Cons r show ?case by (simp add: definitions_for_def List.map_filter_def)
qed

section \<open>Executors\<close>

type_synonym 'w executor =
  "'w tool \<Rightarrow> prepared_tool_call \<Rightarrow> tool_execution_context \<Rightarrow> 'w \<Rightarrow> (tool_error + json) \<times> 'w"

definition RejectingExecutor :: "'w executor" where
  "RejectingExecutor tool prepared context w =
     (Inl (ExecutorUnavailable ''no tool executor is configured''), w)"

definition DirectExecutor :: "'w executor" where
  "DirectExecutor tool prepared context w = t_execute tool prepared context w"

section \<open>Hooks\<close>

record hook_context =
  hc_thread_id :: thread_id
  hc_turn_id :: turn_id
  hc_iteration :: nat

record hook_error =
  he_hook :: string
  he_point :: string
  he_reason :: string

definition hook_error_text :: "hook_error \<Rightarrow> string" where
  [display]: "hook_error_text e =
     ''hook `'' @ he_hook e @ ''` rejected '' @ he_point e @ '': '' @ he_reason e"

record 'w hook =
  hk_name :: string
  hk_before_model :: "hook_context \<Rightarrow> compiled_context \<Rightarrow> 'w \<Rightarrow> (string + unit) \<times> 'w"
  hk_before_tool :: "hook_context \<Rightarrow> prepared_tool_call \<Rightarrow> 'w \<Rightarrow> (string + unit) \<times> 'w"
  hk_after_tool :: "hook_context \<Rightarrow> tool_receipt \<Rightarrow> 'w \<Rightarrow> (string + unit) \<times> 'w"

text \<open>The trait's default methods accept.\<close>

definition default_hook :: "string \<Rightarrow> 'w hook" where
  "default_hook name = \<lparr>hk_name = name, hk_before_model = (\<lambda>_ _ w. (Inr (), w)),
     hk_before_tool = (\<lambda>_ _ w. (Inr (), w)), hk_after_tool = (\<lambda>_ _ w. (Inr (), w))\<rparr>"

type_synonym 'w hook_set = "'w hook list"

text \<open>Each loop of \<open>HookSet\<close> runs the hooks in order and stops at the first rejection.\<close>

fun run_hooks ::
  "string \<Rightarrow> ('w hook \<Rightarrow> 'w \<Rightarrow> (string + unit) \<times> 'w) \<Rightarrow> 'w hook_set \<Rightarrow> ('w, hook_error, unit) act"
where
  "run_hooks point method [] = ok ()"
| "run_hooks point method (h # hs) =
     and_then (map_err (\<lambda>reason. \<lparr>he_hook = hk_name h, he_point = point, he_reason = reason\<rparr>)
                (method h))
       (\<lambda>_. run_hooks point method hs)"

definition hooks_before_model ::
  "'w hook_set \<Rightarrow> hook_context \<Rightarrow> compiled_context \<Rightarrow> ('w, hook_error, unit) act" where
  "hooks_before_model hooks context compiled =
     run_hooks ''before_model'' (\<lambda>h. hk_before_model h context compiled) hooks"

definition hooks_before_tool ::
  "'w hook_set \<Rightarrow> hook_context \<Rightarrow> prepared_tool_call \<Rightarrow> ('w, hook_error, unit) act" where
  "hooks_before_tool hooks context prepared =
     run_hooks ''before_tool'' (\<lambda>h. hk_before_tool h context prepared) hooks"

definition hooks_after_tool ::
  "'w hook_set \<Rightarrow> hook_context \<Rightarrow> tool_receipt \<Rightarrow> ('w, hook_error, unit) act" where
  "hooks_after_tool hooks context receipt =
     run_hooks ''after_tool'' (\<lambda>h. hk_after_tool h context receipt) hooks"

text \<open>A rejection names the first hook that rejected; a set accepts when every hook did.\<close>

lemma run_hooks_error:
  "run_hooks point method hs w = (Inl e, w') \<Longrightarrow>
   \<exists>xs h ys v. hs = xs @ h # ys \<and> run_hooks point method xs w = (Inr (), v) \<and>
     method h v = (Inl (he_reason e), w') \<and> he_hook e = hk_name h \<and> he_point e = point"
proof (induction hs arbitrary: w)
  case Nil
  then show ?case by (simp add: ok_def)
next
  case (Cons h hs)
  obtain r v where m: "method h w = (r, v)" by fastforce
  show ?case
  proof (cases r)
    case (Inl reason)
    with Cons.prems m show ?thesis
      by (intro exI [of _ "[]"] exI [of _ h] exI [of _ hs] exI [of _ w])
        (auto simp: act_defs)
  next
    case (Inr u)
    with Cons.prems m have "run_hooks point method hs v = (Inl e, w')"
      by (simp add: act_defs)
    from Cons.IH [OF this] obtain xs g ys v' where "hs = xs @ g # ys"
      "run_hooks point method xs v = (Inr (), v')" "method g v' = (Inl (he_reason e), w')"
      "he_hook e = hk_name g" "he_point e = point" by blast
    with Inr m show ?thesis
      by (intro exI [of _ "h # xs"] exI [of _ g] exI [of _ ys] exI [of _ v'])
        (auto simp: act_defs)
  qed
qed

end
