(* ===== verification/Jsonl.thy ===== *)
theory Jsonl
  imports Host
begin

text \<open>
  JSON-lines logs: how the bytes of a log split into lines, and what the sources rely on of the
  serde_json codec. Encoding and decoding records are parameters; \<open>codec_ok\<close> states the
  documented behaviour needed of them on the records of a log: a record is written without a
  newline, reads back from its text (with or without the line end), and a proper prefix of its
  text fails with an end-of-input error.
\<close>

datatype 'a decoded = Decoded 'a | Undecodable bool string \<comment> \<open>\<open>is_eof()\<close>, message\<close>

fun is_ascii_whitespace :: "char \<Rightarrow> bool" where
  "is_ascii_whitespace c = (byte c \<in> {9, 10, 12, 13, 32})"

text \<open>\<open>split_inclusive('\n')\<close>, which is also what repeated \<open>read_until(b'\n')\<close> yields.\<close>

fun split_lines :: "string \<Rightarrow> string list" where
  "split_lines [] = []"
| "split_lines (c # s) =
     (if c = newline then [newline] # split_lines s
      else case split_lines s of [] \<Rightarrow> [[c]] | l # ls \<Rightarrow> (c # l) # ls)"

definition terminated :: "string \<Rightarrow> bool" where
  "terminated l \<longleftrightarrow> l \<noteq> [] \<and> last l = newline"

definition line_of :: "('a \<Rightarrow> string + string) \<Rightarrow> 'a \<Rightarrow> string" where
  "line_of encode e = (case encode e of Inr s \<Rightarrow> s @ [newline] | Inl _ \<Rightarrow> [])"

definition codec_ok :: "('a \<Rightarrow> string + string) \<Rightarrow> (string \<Rightarrow> 'a decoded) \<Rightarrow> 'a set \<Rightarrow> bool" where
  "codec_ok encode decode es \<longleftrightarrow>
     (\<forall>e \<in> es. \<exists>s. encode e = Inr s \<and> s \<noteq> [] \<and> newline \<notin> set s \<and> \<not> is_ascii_whitespace (hd s) \<and>
        decode s = Decoded e \<and> decode (s @ [newline]) = Decoded e \<and>
        (\<forall>p q. s = p @ q \<longrightarrow> p \<noteq> [] \<longrightarrow> q \<noteq> [] \<longrightarrow> (\<exists>m. decode p = Undecodable True m)))"

lemma concat_split_lines [simp]: "concat (split_lines s) = s"
  by (induction s) (auto split: list.splits)

lemma split_lines_line [simp]:
  "newline \<notin> set l \<Longrightarrow> split_lines (l @ newline # s) = (l @ [newline]) # split_lines s"
  by (induction l) auto

lemma split_lines_tail: "newline \<notin> set l \<Longrightarrow> l \<noteq> [] \<Longrightarrow> split_lines l = [l]"
proof (induction l)
  case (Cons c l)
  then show ?case by (cases "l = []") auto
qed simp

lemma codec_okE:
  assumes "codec_ok encode decode es" and "e \<in> es"
  obtains s where "encode e = Inr s" "s \<noteq> []" "newline \<notin> set s" "\<not> is_ascii_whitespace (hd s)"
    "decode s = Decoded e" "decode (s @ [newline]) = Decoded e"
    "\<And>p q. s = p @ q \<Longrightarrow> p \<noteq> [] \<Longrightarrow> q \<noteq> [] \<Longrightarrow> \<exists>m. decode p = Undecodable True m"
proof -
  from assms obtain s where s: "encode e = Inr s \<and> s \<noteq> [] \<and> newline \<notin> set s \<and>
      \<not> is_ascii_whitespace (hd s) \<and> decode s = Decoded e \<and> decode (s @ [newline]) = Decoded e \<and>
      (\<forall>p q. s = p @ q \<longrightarrow> p \<noteq> [] \<longrightarrow> q \<noteq> [] \<longrightarrow> (\<exists>m. decode p = Undecodable True m))"
    unfolding codec_ok_def by blast
  show ?thesis by (rule that [of s]) (use s in auto)
qed

lemma codec_ok_subset: "codec_ok encode decode es \<Longrightarrow> ds \<subseteq> es \<Longrightarrow> codec_ok encode decode ds"
  unfolding codec_ok_def by blast

lemma split_lines_records:
  assumes "codec_ok encode decode (set es)"
  shows "split_lines (concat (map (line_of encode) es) @ t) = map (line_of encode) es @ split_lines t"
  using assms
proof (induction es)
  case Nil
  then show ?case by simp
next
  case (Cons e es)
  obtain s where "encode e = Inr s" "newline \<notin> set s"
    by (rule codec_okE [OF Cons.prems, of e]) auto
  moreover have "codec_ok encode decode (set es)"
    using Cons.prems by (rule codec_ok_subset) auto
  ultimately show ?case using Cons.IH by (simp add: line_of_def)
qed

text \<open>What a log holds after its complete records: nothing, or a prefix of the line of the one
  record whose append failed.\<close>

definition log_holds :: "('a \<Rightarrow> string + string) \<Rightarrow> 'a list \<Rightarrow> 'a option \<Rightarrow> string \<Rightarrow> bool" where
  "log_holds encode es pending bytes \<longleftrightarrow>
     (\<exists>tail. bytes = concat (map (line_of encode) es) @ tail \<and>
        (case pending of None \<Rightarrow> tail = [] | Some e \<Rightarrow> \<exists>q. line_of encode e = tail @ q))"

lemma log_holds_Nil [simp]: "log_holds encode [] None []"
  by (simp add: log_holds_def)

lemma log_holds_snoc:
  "log_holds encode es None b \<Longrightarrow> encode e = Inr s \<Longrightarrow> log_holds encode (es @ [e]) None (b @ s @ [newline])"
  by (simp add: log_holds_def line_of_def)

lemma log_holds_pending:
  "log_holds encode es None b \<Longrightarrow> encode e = Inr s \<Longrightarrow> s @ [newline] = p @ q \<Longrightarrow>
   log_holds encode es (Some e) (b @ p)"
  by (auto simp: log_holds_def line_of_def)

text \<open>The tail is empty, a proper prefix of a record, the whole record, or the whole line.\<close>

lemma tail_cases:
  assumes "line_of encode e = tail @ q" and "encode e = Inr s"
  obtains (empty) "tail = []" | (torn) r where "s = tail @ r" "tail \<noteq> []" "r \<noteq> []"
  | (unterminated) "tail = s" | (complete) "tail = s @ [newline]"
proof -
  from assms have eq: "s @ [newline] = tail @ q" by (simp add: line_of_def)
  show ?thesis
  proof (cases q rule: rev_cases)
    case Nil
    with eq show ?thesis by (intro complete) simp
  next
    case (snoc r c)
    with eq have s: "s = tail @ r" by simp
    show ?thesis
    proof (cases "tail = []")
      case True
      then show ?thesis by (rule empty)
    next
      case False
      then show ?thesis
        using s torn unterminated by (cases "r = []") auto
    qed
  qed
qed

end
