(* ===== verification/Store.thy ===== *)
theory Store
  imports Protocol Jsonl
begin

text \<open>
  The event stores (crates/harness-core/src/store.rs): the \<open>EventStore\<close> contract as a locale,
  the in-memory store, and the append-only JSONL store with its repair of a torn final record.
\<close>

section \<open>The contract of an event store\<close>

datatype store_error =
    Store_Io string
  | Serialization string
  | Corrupt nat string
  | Poisoned

fun store_error_text :: "store_error \<Rightarrow> string" where
  [display]: "store_error_text (Store_Io e) = ''event store I/O error: '' @ e"
| "store_error_text (Serialization e) = ''event serialization error: '' @ e"
| "store_error_text (Corrupt line m) = ''corrupt event at line '' @ dec line @ '': '' @ m"
| "store_error_text Poisoned = ''event store lock was poisoned''"

type_synonym 's store_append =
  "thread_id \<Rightarrow> turn_id option \<Rightarrow> runtime_event \<Rightarrow> ('s, store_error, event_envelope) act"

type_synonym 's store_load = "thread_id \<Rightarrow> 's \<Rightarrow> store_error + event_envelope list"

definition thread_events :: "thread_id \<Rightarrow> event_envelope list \<Rightarrow> event_envelope list" where
  "thread_events t es = filter (\<lambda>v. ev_thread_id v = t) es"

text \<open>
  An \<open>EventStore\<close> has a history. A successful append puts exactly one envelope carrying the
  given thread, turn and event at its end, a failed one leaves the history alone, and a load
  returns the part of the history that belongs to the thread.
\<close>

locale event_store =
  fixes append :: "thread_id \<Rightarrow> turn_id option \<Rightarrow> runtime_event \<Rightarrow> 's \<Rightarrow>
      (store_error + event_envelope) \<times> 's"
    and load :: "thread_id \<Rightarrow> 's \<Rightarrow> store_error + event_envelope list"
    and history :: "'s \<Rightarrow> event_envelope list"
  assumes append_value: "append t u e s = (Inr v, s') \<Longrightarrow>
      history s' = history s @ [v] \<and> ev_thread_id v = t \<and> ev_turn_id v = u \<and> ev_event v = e"
    and append_error: "append t u e s = (Inl x, s') \<Longrightarrow> history s' = history s"
    and load_value: "load t s = Inr es \<Longrightarrow> es = thread_events t (history s)"
begin

lemma append_thread_events:
  "append t u e s = (Inr v, s') \<Longrightarrow>
   thread_events t' (history s') = thread_events t' (history s) @ (if t' = t then [v] else [])"
  using append_value [of t u e s v s'] by (simp add: thread_events_def)

lemma append_extends:
  "append t u e s = (r, s') \<Longrightarrow> \<exists>vs. history s' = history s @ vs \<and>
     (\<forall>v \<in> set vs. ev_thread_id v = t \<and> ev_turn_id v = u \<and> ev_event v = e)"
  by (cases r) (auto dest: append_value append_error)

lemma append_other_threads:
  "append t u e s = (r, s') \<Longrightarrow> t' \<noteq> t \<Longrightarrow>
   thread_events t' (history s') = thread_events t' (history s)"
  by (cases r) (auto simp: append_thread_events dest: append_error)

end

text \<open>A store that numbers its envelopes: the numbers of the history increase strictly, as long
  as the counter does not wrap (\<open>room\<close>).\<close>

locale sequenced_store = event_store +
  fixes invar :: "'a \<Rightarrow> bool" and room :: "'a \<Rightarrow> bool"
  assumes invar_append: "append t u e s = (r, s') \<Longrightarrow> invar s \<Longrightarrow> room s \<Longrightarrow> invar s'"
    and invar_sorted: "invar s \<Longrightarrow> sorted_wrt (<) (map ev_sequence (history s))"
begin

lemma invar_history_distinct: "invar s \<Longrightarrow> distinct (map ev_sequence (history s))"
  by (rule bs_distinct) (rule invar_sorted)

lemma append_sequence_grows:
  assumes "append t u e s = (Inr v, s')" and "invar s" and "room s" and "w \<in> set (history s)"
  shows "ev_sequence w < ev_sequence v"
proof -
  have "sorted_wrt (<) (map ev_sequence (history s @ [v]))"
    using assms invar_append invar_sorted append_value by metis
  with assms(4) show ?thesis by (auto simp: sorted_wrt_append)
qed

end

text \<open>
  What the users of a store rely on, thread by thread: other threads may be written to at the
  same time, an append of this thread adds one envelope to the thread's log and a failed one adds
  nothing. \<open>load\<close> may fail, and otherwise returns the log.
\<close>

locale thread_log =
  fixes append :: "thread_id \<Rightarrow> turn_id option \<Rightarrow> runtime_event \<Rightarrow> 's \<Rightarrow>
      (store_error + event_envelope) \<times> 's"
    and load :: "thread_id \<Rightarrow> 's \<Rightarrow> store_error + event_envelope list"
    and log :: "thread_id \<Rightarrow> 's \<Rightarrow> event_envelope list"
  assumes log_append: "append t u e s = (Inr v, s') \<Longrightarrow>
      log t s' = log t s @ [v] \<and> ev_turn_id v = u \<and> ev_event v = e"
    and log_failed: "append t u e s = (Inl x, s') \<Longrightarrow> log t s' = log t s"
    and log_load: "load t s = Inr es \<Longrightarrow> es = log t s"

sublocale event_store \<subseteq> threads: thread_log append load "\<lambda>t s. thread_events t (history s)"
proof
  show "thread_events t (history s') = thread_events t (history s) @ [v] \<and>
      ev_turn_id v = u \<and> ev_event v = e"
    if "append t u e s = (Inr v, s')" for t u e s v s'
    using append_value [OF that] by (simp add: thread_events_def)
  show "thread_events t (history s') = thread_events t (history s)"
    if "append t u e s = (Inl x, s')" for t u e s x s'
    using append_error [OF that] by simp
  show "es = thread_events t (history s)" if "load t s = Inr es" for t s es
    using that by (rule load_value)
qed

section \<open>Envelopes\<close>

definition make_envelope ::
  "u64 \<Rightarrow> thread_id \<Rightarrow> turn_id option \<Rightarrow> runtime_event \<Rightarrow> host \<Rightarrow> event_envelope \<times> host" where
  "make_envelope sequence thread turn event h =
     (let (nanos, h1) = now_nanos h; (i, h2) = EventId_new h1
      in (\<lparr>ev_id = i, ev_sequence = sequence, ev_at_unix_ms = as_millis nanos,
           ev_thread_id = thread, ev_turn_id = turn, ev_event = event\<rparr>, h2))"

lemma make_envelope_fields [simp]:
  "ev_sequence (fst (make_envelope n t u e h)) = n"
  "ev_thread_id (fst (make_envelope n t u e h)) = t"
  "ev_turn_id (fst (make_envelope n t u e h)) = u"
  "ev_event (fst (make_envelope n t u e h)) = e"
  by (simp_all add: make_envelope_def split: prod.split)

lemma make_envelope_result:
  "make_envelope n t u e h = (v, h') \<Longrightarrow>
   ev_sequence v = n \<and> ev_thread_id v = t \<and> ev_turn_id v = u \<and> ev_event v = e"
  using make_envelope_fields [of n t u e h] by simp

text \<open>The numbers of a history: strictly increasing and below the next one.\<close>

definition sequence_ok :: "u64 \<Rightarrow> event_envelope list \<Rightarrow> bool" where
  "sequence_ok next_sequence es \<longleftrightarrow>
     sorted_wrt (<) (map ev_sequence es) \<and> (\<forall>e \<in> set es. ev_sequence e < next_sequence)"

lemma word_less_succ:
  assumes "(a :: 'a::len word) \<noteq> - 1" and "b < a \<or> b = a"
  shows "b < a + 1"
proof -
  have "1 + a \<noteq> 0" using assms(1) by (simp add: add.commute eq_neg_iff_add_eq_0)
  then have "unat (a + 1) = Suc (unat a)" using unatSuc [of a] by (simp add: add.commute)
  with assms(2) show ?thesis by (auto simp: word_less_nat_alt)
qed

lemma sequence_ok_snoc:
  assumes "sequence_ok n es" and "ev_sequence e = n" and "n \<noteq> - 1"
  shows "sequence_ok (n + 1) (es @ [e])"
  using assms word_less_succ [of n] by (auto simp: sequence_ok_def sorted_wrt_append)

section \<open>The in-memory store\<close>

record memory_store =
  ms_poisoned :: bool
  ms_next_sequence :: u64
  ms_events :: "event_envelope list"
  ms_host :: host

definition memory_new :: "host \<Rightarrow> memory_store" where
  "memory_new h = \<lparr>ms_poisoned = False, ms_next_sequence = 0, ms_events = [], ms_host = h\<rparr>"

definition memory_append :: "memory_store store_append" where
  "memory_append thread turn event s =
     (if ms_poisoned s then (Inl Poisoned, s)
      else let (v, h) = make_envelope (ms_next_sequence s) thread turn event (ms_host s)
           in (Inr v, s\<lparr>ms_next_sequence := ms_next_sequence s + 1,
                        ms_events := ms_events s @ [v], ms_host := h\<rparr>))"

definition memory_load :: "memory_store store_load" where
  "memory_load thread s =
     (if ms_poisoned s then Inl Poisoned
      else Inr (filter (\<lambda>v. ev_thread_id v = thread) (ms_events s)))"

definition memory_all_events :: "memory_store \<Rightarrow> store_error + event_envelope list" where
  "memory_all_events s = (if ms_poisoned s then Inl Poisoned else Inr (ms_events s))"

interpretation mem: event_store memory_append memory_load ms_events
  by unfold_locales
    (auto simp: memory_append_def memory_load_def thread_events_def
      dest!: make_envelope_result split: if_splits prod.splits)

interpretation memseq: sequenced_store memory_append memory_load ms_events
    "\<lambda>s. sequence_ok (ms_next_sequence s) (ms_events s)" "\<lambda>s. ms_next_sequence s \<noteq> - 1"
proof
  show "sequence_ok (ms_next_sequence s') (ms_events s')"
    if "memory_append t u e s = (r, s')" "sequence_ok (ms_next_sequence s) (ms_events s)"
      "ms_next_sequence s \<noteq> - 1" for t u e s r s'
    using that by (auto simp: memory_append_def intro: sequence_ok_snoc
        dest!: make_envelope_result split: if_splits prod.splits)
qed (simp add: sequence_ok_def)

end
