(* ===== verification/Recovery.thy ===== *)
theory Recovery
  imports Store
begin

text \<open>
  Recovery of an interrupted thread (crates/harness-core/src/recovery.rs): the scan of the
  thread's events, the receipts and failures it appends, and what the log says afterwards.
\<close>

section \<open>The scan and the repair\<close>

record recovery_report =
  receipts_recorded :: "tool_receipt list"
  turns_marked_failed :: "turn_id list"

type_synonym call_key = "turn_id \<times> call_id"

record recovery_scan =
  rv_open :: "turn_id list"
  rv_calls :: "(call_key \<times> tool_call) list"
  rv_prepared :: "(call_key \<times> prepared_tool_call) list"
  rv_started :: "(call_key \<times> prepared_tool_call) list"
  rv_completed :: "call_key list"

definition recovery_start :: recovery_scan where
  "recovery_start = \<lparr>rv_open = [], rv_calls = [], rv_prepared = [], rv_started = [], rv_completed = []\<rparr>"

fun scan_event :: "turn_id \<Rightarrow> runtime_event \<Rightarrow> recovery_scan \<Rightarrow> recovery_scan" where
  "scan_event t TurnStarted sc = sc\<lparr>rv_open := bs_insert t (rv_open sc)\<rparr>"
| "scan_event t (AssistantMessage _ tool_calls _ _) sc =
     sc\<lparr>rv_calls := fold (\<lambda>call. bt_insert (t, tc_id call) call) tool_calls (rv_calls sc)\<rparr>"
| "scan_event t (ToolPrepared action) sc =
     sc\<lparr>rv_prepared := bt_insert (t, pc_call_id action) action (rv_prepared sc)\<rparr>"
| "scan_event t (ToolExecutionStarted action) sc =
     sc\<lparr>rv_started := bt_insert (t, pc_call_id action) action (rv_started sc)\<rparr>"
| "scan_event t (ToolReceiptRecorded receipt) sc =
     sc\<lparr>rv_completed := bs_insert (t, tr_call_id receipt) (rv_completed sc)\<rparr>"
| "scan_event t (TurnCompleted _) sc = sc\<lparr>rv_open := bs_remove t (rv_open sc)\<rparr>"
| "scan_event t (TurnFailed _) sc = sc\<lparr>rv_open := bs_remove t (rv_open sc)\<rparr>"
| "scan_event t TurnCancelled sc = sc\<lparr>rv_open := bs_remove t (rv_open sc)\<rparr>"
| "scan_event t _ sc = sc"

fun scan_envelopes :: "event_envelope list \<Rightarrow> recovery_scan \<Rightarrow> recovery_scan" where
  "scan_envelopes [] sc = sc"
| "scan_envelopes (v # vs) sc =
     scan_envelopes vs
       (case ev_turn_id v of None \<Rightarrow> sc | Some t \<Rightarrow> scan_event t (ev_event v) sc)"

definition recovery_keys :: "recovery_scan \<Rightarrow> call_key list" where
  "recovery_keys sc =
     bs_extend (keys (rv_started sc)) (bs_extend (keys (rv_prepared sc))
       (bs_extend (keys (rv_calls sc)) []))"

definition recovery_receipt :: "recovery_scan \<Rightarrow> call_key \<Rightarrow> tool_receipt option" where
  "recovery_receipt sc key =
     (if key \<in> set (rv_completed sc) then None
      else case bt_get (rv_started sc) key of
        Some action \<Rightarrow>
          Some (receipt_unknown action
            ''execution started but no durable receipt was found during recovery'')
      | None \<Rightarrow>
          (case bt_get (rv_prepared sc) key of
             Some action \<Rightarrow> Some (receipt_failed action ''turn was interrupted before execution began'')
           | None \<Rightarrow>
               (case bt_get (rv_calls sc) key of
                  Some call \<Rightarrow>
                    Some (receipt_malformed call ''turn was interrupted before tool preparation'')
                | None \<Rightarrow> None)))"

fun record_recovery_receipts ::
  "'s store_append \<Rightarrow> thread_id \<Rightarrow> recovery_scan \<Rightarrow> call_key list \<Rightarrow> recovery_report \<Rightarrow>
   ('s, store_error, recovery_report) act" where
  "record_recovery_receipts append_event thread sc [] report = ok report"
| "record_recovery_receipts append_event thread sc (key # ks) report =
     (case recovery_receipt sc key of
        None \<Rightarrow> record_recovery_receipts append_event thread sc ks report
      | Some receipt \<Rightarrow>
          and_then (append_event thread (Some (fst key)) (ToolReceiptRecorded receipt)) (\<lambda>_.
          record_recovery_receipts append_event thread sc ks
            (report\<lparr>receipts_recorded := receipts_recorded report @ [receipt]\<rparr>)))"

definition recovery_failure :: string where
  "recovery_failure = ''turn was interrupted and recovered without replaying actions''"

fun mark_turns_failed ::
  "'s store_append \<Rightarrow> thread_id \<Rightarrow> turn_id list \<Rightarrow> recovery_report \<Rightarrow>
   ('s, store_error, recovery_report) act" where
  "mark_turns_failed append_event thread [] report = ok report"
| "mark_turns_failed append_event thread (t # ts) report =
     and_then (append_event thread (Some t) (TurnFailed recovery_failure)) (\<lambda>_.
     mark_turns_failed append_event thread ts
       (report\<lparr>turns_marked_failed := turns_marked_failed report @ [t]\<rparr>))"

definition load_act :: "'s store_load \<Rightarrow> thread_id \<Rightarrow> ('s, store_error, event_envelope list) act" where
  "load_act load thread s = (load thread s, s)"

definition recover_thread ::
  "'s store_append \<Rightarrow> 's store_load \<Rightarrow> thread_id \<Rightarrow> ('s, store_error, recovery_report) act" where
  "recover_thread append_event load_thread thread =
     and_then (load_act load_thread thread) (\<lambda>events.
     let sc = scan_envelopes events recovery_start
     in and_then (record_recovery_receipts append_event thread sc (recovery_keys sc)
          \<lparr>receipts_recorded = [], turns_marked_failed = []\<rparr>) (\<lambda>report.
        mark_turns_failed append_event thread (rv_open sc) report))"

section \<open>What the events of a thread say\<close>

definition turn_event :: "turn_id \<Rightarrow> (runtime_event \<Rightarrow> bool) \<Rightarrow> event_envelope list \<Rightarrow> bool" where
  "turn_event t P es \<longleftrightarrow> list_ex (\<lambda>v. ev_turn_id v = Some t \<and> P (ev_event v)) es"

fun announces :: "call_id \<Rightarrow> runtime_event \<Rightarrow> bool" where
  "announces c (AssistantMessage _ calls _ _) = list_ex (\<lambda>call. tc_id call = c) calls"
| "announces c _ = False"

fun prepares :: "call_id \<Rightarrow> runtime_event \<Rightarrow> bool" where
  "prepares c (ToolPrepared p) = (pc_call_id p = c)"
| "prepares c _ = False"

fun starts :: "call_id \<Rightarrow> runtime_event \<Rightarrow> bool" where
  "starts c (ToolExecutionStarted p) = (pc_call_id p = c)"
| "starts c _ = False"

fun receipts :: "call_id \<Rightarrow> runtime_event \<Rightarrow> bool" where
  "receipts c (ToolReceiptRecorded r) = (tr_call_id r = c)"
| "receipts c _ = False"

text \<open>A turn is open when it started and no terminal event of it came after.\<close>

fun turn_open_from :: "bool \<Rightarrow> turn_id \<Rightarrow> event_envelope list \<Rightarrow> bool" where
  "turn_open_from b t [] = b"
| "turn_open_from b t (v # vs) =
     turn_open_from
       (if ev_turn_id v = Some t
        then ev_event v = TurnStarted \<or> b \<and> \<not> terminal_event (ev_event v) else b) t vs"

definition turn_open :: "turn_id \<Rightarrow> event_envelope list \<Rightarrow> bool" where
  "turn_open t es = turn_open_from False t es"

lemma turn_event_simps [simp]:
  "turn_event t P [] = False"
  "turn_event t P (v # vs) \<longleftrightarrow> ev_turn_id v = Some t \<and> P (ev_event v) \<or> turn_event t P vs"
  "turn_event t P (xs @ ys) \<longleftrightarrow> turn_event t P xs \<or> turn_event t P ys"
  by (simp_all add: turn_event_def)

lemma turn_open_from_append [simp]:
  "turn_open_from b t (xs @ ys) = turn_open_from (turn_open_from b t xs) t ys"
  by (induction xs arbitrary: b) auto

text \<open>What the scan collects is what the events say.\<close>

definition scan_agrees :: "recovery_scan \<Rightarrow> event_envelope list \<Rightarrow> bool" where
  "scan_agrees sc es \<longleftrightarrow>
     (\<forall>t. t \<in> set (rv_open sc) \<longleftrightarrow> turn_open t es) \<and>
     (\<forall>t c. (t, c) \<in> set (keys (rv_calls sc)) \<longleftrightarrow> turn_event t (announces c) es) \<and>
     (\<forall>t c. (t, c) \<in> set (keys (rv_prepared sc)) \<longleftrightarrow> turn_event t (prepares c) es) \<and>
     (\<forall>t c. (t, c) \<in> set (keys (rv_started sc)) \<longleftrightarrow> turn_event t (starts c) es) \<and>
     (\<forall>t c. (t, c) \<in> set (rv_completed sc) \<longleftrightarrow> turn_event t (receipts c) es)"

text \<open>The entries sit under their own call ids, and the sets are in order.\<close>

definition scan_ok :: "recovery_scan \<Rightarrow> bool" where
  "scan_ok sc \<longleftrightarrow>
     (\<forall>t c x. bt_get (rv_calls sc) (t, c) = Some x \<longrightarrow> tc_id x = c) \<and>
     (\<forall>t c p. bt_get (rv_prepared sc) (t, c) = Some p \<longrightarrow> pc_call_id p = c) \<and>
     (\<forall>t c p. bt_get (rv_started sc) (t, c) = Some p \<longrightarrow> pc_call_id p = c) \<and>
     sorted_wrt (<) (rv_open sc)"

lemma scan_envelopes_append:
  "scan_envelopes (xs @ ys) sc = scan_envelopes ys (scan_envelopes xs sc)"
  by (induction xs arbitrary: sc) auto

lemma keys_insert_calls:
  "set (keys (fold (\<lambda>call. bt_insert (t, tc_id call) call) calls m)) =
     set (keys m) \<union> {(t, c) |c. \<exists>call \<in> set calls. tc_id call = c}"
  by (induction calls arbitrary: m) auto

lemma get_insert_calls:
  "bt_get (fold (\<lambda>call. bt_insert (t, tc_id call) call) calls m) (u, c) = Some x \<Longrightarrow>
   (\<And>x. bt_get m (u, c) = Some x \<Longrightarrow> tc_id x = c) \<Longrightarrow> tc_id x = c"
proof (induction calls arbitrary: m)
  case Nil
  then show ?case by simp
next
  case (Cons a calls)
  show ?case
    by (rule Cons.IH) (use Cons.prems in \<open>auto split: if_splits\<close>)
qed

lemma scan_agrees_snoc:
  assumes "scan_agrees sc es"
  shows "scan_agrees (case ev_turn_id v of None \<Rightarrow> sc | Some t \<Rightarrow> scan_event t (ev_event v) sc) (es @ [v])"
proof (cases "ev_turn_id v")
  case None
  with assms show ?thesis by (simp add: scan_agrees_def turn_open_def)
next
  case (Some t)
  then show ?thesis
    using assms
    by (cases "ev_event v") (auto simp: scan_agrees_def turn_open_def keys_insert_calls list_ex_iff)
qed

lemma scan_ok_event: "scan_ok sc \<Longrightarrow> scan_ok (scan_event t e sc)"
  by (cases e) (auto simp: scan_ok_def dest!: get_insert_calls)

lemma scan_agrees_log: "scan_agrees (scan_envelopes es recovery_start) es"
proof (induction es rule: rev_induct)
  case Nil
  then show ?case by (simp add: scan_agrees_def recovery_start_def turn_open_def)
next
  case (snoc v es)
  then show ?case using scan_agrees_snoc [OF snoc, of v] by (simp add: scan_envelopes_append)
qed

lemma scan_ok_log: "scan_ok (scan_envelopes es recovery_start)"
proof (induction es rule: rev_induct)
  case Nil
  then show ?case by (simp add: scan_ok_def recovery_start_def)
next
  case (snoc v es)
  then show ?case
    by (auto simp: scan_envelopes_append intro: scan_ok_event split: option.split)
qed

text \<open>What the scan of a log collects, as rewrite rules.\<close>

lemma scanned [simp]:
  "t \<in> set (rv_open (scan_envelopes es recovery_start)) \<longleftrightarrow> turn_open t es"
  "(t, c) \<in> set (keys (rv_calls (scan_envelopes es recovery_start))) \<longleftrightarrow> turn_event t (announces c) es"
  "(t, c) \<in> set (keys (rv_prepared (scan_envelopes es recovery_start))) \<longleftrightarrow> turn_event t (prepares c) es"
  "(t, c) \<in> set (keys (rv_started (scan_envelopes es recovery_start))) \<longleftrightarrow> turn_event t (starts c) es"
  "(t, c) \<in> set (rv_completed (scan_envelopes es recovery_start)) \<longleftrightarrow> turn_event t (receipts c) es"
  using scan_agrees_log [of es] by (simp_all add: scan_agrees_def)

section \<open>What recovery appends\<close>

type_synonym step = "turn_id option \<times> runtime_event"

definition step_of :: "event_envelope \<Rightarrow> step" where
  "step_of v = (ev_turn_id v, ev_event v)"

fun receipt_plan :: "recovery_scan \<Rightarrow> call_key list \<Rightarrow> step list" where
  "receipt_plan sc [] = []"
| "receipt_plan sc (key # ks) =
     (case recovery_receipt sc key of
        None \<Rightarrow> receipt_plan sc ks
      | Some r \<Rightarrow> (Some (fst key), ToolReceiptRecorded r) # receipt_plan sc ks)"

definition failure_plan :: "turn_id list \<Rightarrow> step list" where
  "failure_plan ts = map (\<lambda>t. (Some t, TurnFailed recovery_failure)) ts"

definition recovery_plan :: "recovery_scan \<Rightarrow> step list" where
  "recovery_plan sc = receipt_plan sc (recovery_keys sc) @ failure_plan (rv_open sc)"

lemma recovery_receipt_call:
  assumes "scan_ok sc" and "recovery_receipt sc (t, c) = Some r"
  shows "tr_call_id r = c"
  using assms by (auto simp: recovery_receipt_def scan_ok_def split: if_splits option.splits)

lemma recovery_keys_iff:
  "k \<in> set (recovery_keys sc) \<longleftrightarrow>
     k \<in> set (keys (rv_started sc)) \<or> k \<in> set (keys (rv_prepared sc)) \<or> k \<in> set (keys (rv_calls sc))"
  by (simp add: recovery_keys_def)

lemma distinct_recovery_keys: "distinct (recovery_keys sc)"
  unfolding recovery_keys_def by (intro bs_distinct sorted_bs_extend) simp

lemma receipt_plan_empty_iff:
  "receipt_plan sc ks = [] \<longleftrightarrow> (\<forall>k \<in> set ks. recovery_receipt sc k = None)"
  by (induction ks) (auto split: option.split)

lemma in_receipt_plan:
  "x \<in> set (receipt_plan sc ks) \<longleftrightarrow>
     (\<exists>k \<in> set ks. \<exists>r. recovery_receipt sc k = Some r \<and> x = (Some (fst k), ToolReceiptRecorded r))"
  by (induction ks) (auto split: option.split)

lemma recovery_receipt_None:
  "k \<in> set (recovery_keys sc) \<Longrightarrow> recovery_receipt sc k = None \<longleftrightarrow> k \<in> set (rv_completed sc)"
  by (auto simp: recovery_receipt_def recovery_keys_iff bt_get_None split: option.splits)

text \<open>The scan of a log to which a plan's events were added: nothing is left to do.\<close>

lemma turn_event_step:
  "turn_event t P vs \<longleftrightarrow> (\<exists>e. (Some t, e) \<in> set (map step_of vs) \<and> P e)"
  by (force simp: turn_event_def list_ex_iff step_of_def)

lemma turn_open_plan:
  assumes "set (map step_of vs) \<subseteq> set (receipt_plan sc ks) \<union> set (failure_plan ts)"
  shows "turn_open_from b t vs \<longleftrightarrow> b \<and> (Some t, TurnFailed recovery_failure) \<notin> set (map step_of vs)"
  using assms
proof (induction vs arbitrary: b)
  case Nil
  then show ?case by simp
next
  case (Cons v vs)
  then have "step_of v \<in> set (receipt_plan sc ks) \<union> set (failure_plan ts)" by simp
  then consider r where "ev_event v = ToolReceiptRecorded r"
    | "ev_event v = TurnFailed recovery_failure"
    by (auto simp: in_receipt_plan failure_plan_def step_of_def)
  then have "turn_open_from b t (v # vs) \<longleftrightarrow>
      turn_open_from (b \<and> step_of v \<noteq> (Some t, TurnFailed recovery_failure)) t vs"
    by cases (simp_all add: step_of_def)
  also have "\<dots> \<longleftrightarrow> (b \<and> step_of v \<noteq> (Some t, TurnFailed recovery_failure)) \<and>
      (Some t, TurnFailed recovery_failure) \<notin> set (map step_of vs)"
    using Cons.prems by (intro Cons.IH) simp
  finally show ?case by auto
qed

fun receipt_key :: "step \<Rightarrow> call_key option" where
  "receipt_key (Some t, ToolReceiptRecorded r) = Some (t, tr_call_id r)"
| "receipt_key _ = None"

definition receipt_keys :: "event_envelope list \<Rightarrow> call_key list" where
  "receipt_keys vs = List.map_filter receipt_key (map step_of vs)"

lemma map_filter_append [simp]:
  "List.map_filter f (xs @ ys) = List.map_filter f xs @ List.map_filter f ys"
  by (simp add: List.map_filter_def)

lemma receipt_keys_simps [simp]:
  "receipt_keys [] = []" "receipt_keys (xs @ ys) = receipt_keys xs @ receipt_keys ys"
  by (simp_all add: receipt_keys_def List.map_filter_def)

lemma receipt_plan_keys:
  "scan_ok sc \<Longrightarrow>
   List.map_filter receipt_key (receipt_plan sc ks) = filter (\<lambda>k. recovery_receipt sc k \<noteq> None) ks"
proof (induction ks)
  case Nil
  then show ?case by (simp add: List.map_filter_def)
next
  case (Cons k ks)
  then show ?case
    using recovery_receipt_call [of sc "fst k" "snd k"]
    by (cases k) (auto simp: List.map_filter_def split: option.split)
qed

lemma failure_plan_keys: "List.map_filter receipt_key (failure_plan ts) = []"
  by (simp add: failure_plan_def List.map_filter_def)

lemma recovery_plan_keys:
  assumes "scan_ok sc"
  shows "distinct (List.map_filter receipt_key (recovery_plan sc))"
    and "k \<in> set (List.map_filter receipt_key (recovery_plan sc)) \<longleftrightarrow>
       k \<in> set (recovery_keys sc) \<and> k \<notin> set (rv_completed sc)"
  using assms distinct_recovery_keys [of sc] recovery_receipt_None [of k sc]
  by (auto simp: recovery_plan_def receipt_plan_keys failure_plan_keys)

text \<open>What a step of the plan may be.\<close>

definition recovery_step :: "event_envelope list \<Rightarrow> event_envelope \<Rightarrow> bool" where
  "recovery_step es v \<longleftrightarrow>
     (\<exists>t. ev_turn_id v = Some t \<and>
       (case ev_event v of
          ToolReceiptRecorded r \<Rightarrow>
            \<not> turn_event t (receipts (tr_call_id r)) es \<and> tr_output r = None \<and>
            (if turn_event t (starts (tr_call_id r)) es then tr_status r = Receipt_Unknown
             else tr_status r = Receipt_Failed \<and>
               (turn_event t (prepares (tr_call_id r)) es \<or> turn_event t (announces (tr_call_id r)) es))
        | TurnFailed m \<Rightarrow> m = recovery_failure \<and> turn_open t es
        | _ \<Rightarrow> False))"

lemma recovery_plan_steps:
  assumes "step_of v \<in> set (recovery_plan (scan_envelopes es recovery_start))"
  shows "recovery_step es v"
proof -
  let ?sc = "scan_envelopes es recovery_start"
  from assms consider k r where "recovery_receipt ?sc k = Some r" "k \<in> set (recovery_keys ?sc)"
      "ev_turn_id v = Some (fst k)" "ev_event v = ToolReceiptRecorded r"
    | t where "t \<in> set (rv_open ?sc)" "ev_turn_id v = Some t" "ev_event v = TurnFailed recovery_failure"
    by (auto simp: recovery_plan_def in_receipt_plan failure_plan_def step_of_def)
  then show ?thesis
  proof cases
    case 1
    obtain t c where k: "k = (t, c)" by (cases k)
    have c: "tr_call_id r = c"
      using recovery_receipt_call [OF scan_ok_log] 1(1) k by blast
    have undone: "(t, c) \<notin> set (rv_completed ?sc)"
      using 1(1) k by (auto simp: recovery_receipt_def split: if_splits)
    have "if (t, c) \<in> set (keys (rv_started ?sc)) then tr_status r = Receipt_Unknown
        else tr_status r = Receipt_Failed \<and>
          ((t, c) \<in> set (keys (rv_prepared ?sc)) \<or> (t, c) \<in> set (keys (rv_calls ?sc)))"
      using 1(1) k bt_get_None [of "rv_started ?sc" "(t, c)"] bt_get_Some_key [of "rv_prepared ?sc" "(t, c)"]
        bt_get_Some_key [of "rv_calls ?sc" "(t, c)"]
      by (auto simp: recovery_receipt_def split: if_splits option.splits)
    moreover have "tr_output r = None"
      using 1(1) by (auto simp: recovery_receipt_def receipt_defs split: if_splits option.splits)
    ultimately show ?thesis
      using undone 1(3,4) k c by (simp add: recovery_step_def split: if_splits)
  next
    case 2
    then show ?thesis by (simp add: recovery_step_def)
  qed
qed

text \<open>What the log says once the whole plan is in it.\<close>

lemma recovery_plan_closes:
  assumes plan: "map step_of vs = recovery_plan (scan_envelopes es recovery_start)"
  shows "turn_event t (announces c) es \<or> turn_event t (prepares c) es \<or> turn_event t (starts c) es \<Longrightarrow>
      turn_event t (receipts c) (es @ vs)"
    and "\<not> turn_open t (es @ vs)"
    and "recovery_plan (scan_envelopes (es @ vs) recovery_start) = []"
proof -
  let ?sc = "scan_envelopes es recovery_start" and ?sc' = "scan_envelopes (es @ vs) recovery_start"
  have vs: "set (map step_of vs) \<subseteq> set (receipt_plan ?sc (recovery_keys ?sc)) \<union> set (failure_plan (rv_open ?sc))"
    by (simp add: plan recovery_plan_def del: set_map)
  show closes: "turn_event t (receipts c) (es @ vs)"
    if "turn_event t (announces c) es \<or> turn_event t (prepares c) es \<or> turn_event t (starts c) es" for t c
  proof (cases "(t, c) \<in> set (rv_completed ?sc)")
    case True
    then show ?thesis by simp
  next
    case False
    have key: "(t, c) \<in> set (recovery_keys ?sc)"
      using that by (auto simp: recovery_keys_iff)
    then obtain r where r: "recovery_receipt ?sc (t, c) = Some r"
      using recovery_receipt_None [OF key] False by auto
    then have "(Some t, ToolReceiptRecorded r) \<in> set (map step_of vs)"
      unfolding plan recovery_plan_def using key by (force simp: in_receipt_plan)
    moreover have "receipts c (ToolReceiptRecorded r)"
      using recovery_receipt_call [OF scan_ok_log r] by simp
    ultimately have "turn_event t (receipts c) vs" unfolding turn_event_step by blast
    then show ?thesis by simp
  qed
  show closed: "\<not> turn_open t (es @ vs)" for t
    using turn_open_plan [OF vs, of "turn_open_from False t es" t] plan
    by (auto simp: turn_open_def [of t "es @ vs"] turn_open_def [of t es, symmetric] recovery_plan_def failure_plan_def)
  have no: "\<not> turn_event t (announces c) vs \<and> \<not> turn_event t (prepares c) vs \<and> \<not> turn_event t (starts c) vs" for t c
  proof -
    have "e = TurnFailed recovery_failure \<or> (\<exists>r. e = ToolReceiptRecorded r)"
      if "(Some t, e) \<in> set (map step_of vs)" for e
      using subsetD [OF vs that] by (auto simp: in_receipt_plan failure_plan_def)
    then show ?thesis unfolding turn_event_step by fastforce
  qed
  have "rv_open ?sc' = []"
    using closed scanned(1) [of _ "es @ vs"] by (metis list.set_intros(1) neq_Nil_conv)
  moreover have "recovery_receipt ?sc' k = None" if k: "k \<in> set (recovery_keys ?sc')" for k
  proof -
    obtain t c where "k = (t, c)" by (cases k)
    with k no have "turn_event t (receipts c) (es @ vs)"
      by (intro closes) (auto simp: recovery_keys_iff)
    with \<open>k = (t, c)\<close> recovery_receipt_None [OF k] show ?thesis by simp
  qed
  ultimately show "recovery_plan ?sc' = []"
    by (simp add: recovery_plan_def receipt_plan_empty_iff failure_plan_def)
qed

section \<open>Recovery on any store\<close>

context thread_log
begin

lemma record_recovery_receipts_log:
  assumes "record_recovery_receipts append t sc ks report s = (r, s')"
  shows "\<exists>vs rest. log t s' = log t s @ vs \<and> receipt_plan sc ks = map step_of vs @ rest \<and>
    (\<forall>report'. r = Inr report' \<longrightarrow> rest = [] \<and>
       receipts_recorded report' = receipts_recorded report @ List.map_filter (recovery_receipt sc) ks \<and>
       turns_marked_failed report' = turns_marked_failed report)"
  using assms
proof (induction ks arbitrary: report s)
  case Nil
  then show ?case by (auto simp: ok_def List.map_filter_def)
next
  case (Cons k ks)
  show ?case
  proof (cases "recovery_receipt sc k")
    case None
    with Cons show ?thesis by (simp add: List.map_filter_def)
  next
    case (Some x)
    obtain q s1 where a: "append t (Some (fst k)) (ToolReceiptRecorded x) s = (q, s1)" by fastforce
    show ?thesis
    proof (cases q)
      case (Inl e)
      with a Some Cons.prems have "r = Inl e" "s' = s1" by (simp_all add: and_then_def)
      with a Inl log_failed show ?thesis
        by (intro exI [of _ "[]"] exI [of _ "receipt_plan sc (k # ks)"]) auto
    next
      case (Inr v)
      let ?report = "report\<lparr>receipts_recorded := receipts_recorded report @ [x]\<rparr>"
      have "record_recovery_receipts append t sc ks ?report s1 = (r, s')"
        using Cons.prems Some a Inr by (simp add: and_then_def)
      from Cons.IH [OF this] obtain vs rest where vs: "log t s' = log t s1 @ vs"
        "receipt_plan sc ks = map step_of vs @ rest"
        "\<forall>report'. r = Inr report' \<longrightarrow> rest = [] \<and>
           receipts_recorded report' = receipts_recorded ?report @ List.map_filter (recovery_receipt sc) ks \<and>
           turns_marked_failed report' = turns_marked_failed ?report" by (elim exE conjE)
      have v: "log t s1 = log t s @ [v]" "step_of v = (Some (fst k), ToolReceiptRecorded x)"
        using a Inr log_append by (auto simp: step_of_def)
      show ?thesis
      proof (intro exI [of _ "v # vs"] exI [of _ rest] conjI allI impI)
        show "log t s' = log t s @ v # vs" using vs(1) v(1) by simp
        show "receipt_plan sc (k # ks) = map step_of (v # vs) @ rest"
          using vs(2) v(2) Some by simp
      next
        fix report' assume "r = Inr report'"
        note all = vs(3) [rule_format, OF this]
        show "rest = []" "turns_marked_failed report' = turns_marked_failed report"
          using all by simp_all
        show "receipts_recorded report' =
            receipts_recorded report @ List.map_filter (recovery_receipt sc) (k # ks)"
          using all Some by (simp add: List.map_filter_def)
      qed
    qed
  qed
qed

lemma mark_turns_failed_log:
  assumes "mark_turns_failed append t ts report s = (r, s')"
  shows "\<exists>vs rest. log t s' = log t s @ vs \<and> failure_plan ts = map step_of vs @ rest \<and>
    (\<forall>report'. r = Inr report' \<longrightarrow> rest = [] \<and>
       turns_marked_failed report' = turns_marked_failed report @ ts \<and>
       receipts_recorded report' = receipts_recorded report)"
  using assms
proof (induction ts arbitrary: report s)
  case Nil
  then show ?case by (auto simp: ok_def failure_plan_def)
next
  case (Cons u ts)
  obtain q s1 where a: "append t (Some u) (TurnFailed recovery_failure) s = (q, s1)" by fastforce
  show ?case
  proof (cases q)
    case (Inl e)
    with a Cons.prems have "r = Inl e" "s' = s1" by (simp_all add: and_then_def)
    with a Inl log_failed show ?thesis
      by (intro exI [of _ "[]"] exI [of _ "failure_plan (u # ts)"]) auto
  next
    case (Inr v)
    let ?report = "report\<lparr>turns_marked_failed := turns_marked_failed report @ [u]\<rparr>"
    have "mark_turns_failed append t ts ?report s1 = (r, s')"
      using Cons.prems a Inr by (simp add: and_then_def)
    from Cons.IH [OF this] obtain vs rest where vs: "log t s' = log t s1 @ vs"
      "failure_plan ts = map step_of vs @ rest"
      "\<forall>report'. r = Inr report' \<longrightarrow> rest = [] \<and>
         turns_marked_failed report' = turns_marked_failed ?report @ ts \<and>
         receipts_recorded report' = receipts_recorded ?report" by (elim exE conjE)
    have v: "log t s1 = log t s @ [v]" "step_of v = (Some u, TurnFailed recovery_failure)"
      using a Inr log_append by (auto simp: step_of_def)
    show ?thesis
    proof (intro exI [of _ "v # vs"] exI [of _ rest] conjI allI impI)
      show "log t s' = log t s @ v # vs" using vs(1) v(1) by simp
      show "failure_plan (u # ts) = map step_of (v # vs) @ rest"
        using vs(2) v(2) by (simp add: failure_plan_def)
    next
      fix report' assume "r = Inr report'"
      note all = vs(3) [rule_format, OF this]
      show "rest = []" "turns_marked_failed report' = turns_marked_failed report @ u # ts"
        "receipts_recorded report' = receipts_recorded report"
        using all by simp_all
    qed
  qed
qed

text \<open>Whatever happens, recovery puts a prefix of its plan into the log; all of it if it returns.\<close>

lemma recover_thread_log:
  assumes "recover_thread append load t s = (r, s')"
  shows "\<exists>vs rest. log t s' = log t s @ vs \<and>
    recovery_plan (scan_envelopes (log t s) recovery_start) = map step_of vs @ rest \<and>
    (\<forall>report. r = Inr report \<longrightarrow> rest = [] \<and>
       turns_marked_failed report = rv_open (scan_envelopes (log t s) recovery_start) \<and>
       receipts_recorded report = List.map_filter
         (recovery_receipt (scan_envelopes (log t s) recovery_start))
         (recovery_keys (scan_envelopes (log t s) recovery_start)))"
proof (cases "load t s")
  case (Inl e)
  with assms have "r = Inl e" "s' = s"
    by (simp_all add: recover_thread_def load_act_def and_then_def)
  then show ?thesis
    by (intro exI [of _ "[]"]
        exI [of _ "recovery_plan (scan_envelopes (log t s) recovery_start)"]) auto
next
  case (Inr es)
  then have es: "es = log t s" by (rule log_load)
  let ?sc = "scan_envelopes (log t s) recovery_start"
  let ?empty = "\<lparr>receipts_recorded = [], turns_marked_failed = []\<rparr>"
  obtain q s1 where a: "record_recovery_receipts append t ?sc (recovery_keys ?sc) ?empty s = (q, s1)"
    by fastforce
  from record_recovery_receipts_log [OF a] obtain vs rest where vs: "log t s1 = log t s @ vs"
    "receipt_plan ?sc (recovery_keys ?sc) = map step_of vs @ rest"
    "\<forall>report'. q = Inr report' \<longrightarrow> rest = [] \<and>
       receipts_recorded report' = List.map_filter (recovery_receipt ?sc) (recovery_keys ?sc) \<and>
       turns_marked_failed report' = []" by auto
  show ?thesis
  proof (cases q)
    case (Inl e)
    with assms Inr es a have "r = Inl e" "s' = s1"
      by (simp_all add: recover_thread_def load_act_def and_then_def Let_def)
    with vs show ?thesis
      by (intro exI [of _ vs] exI [of _ "rest @ failure_plan (rv_open ?sc)"])
        (simp add: recovery_plan_def)
  next
    case (Inr report)
    with assms \<open>load t s = Inr es\<close> es a
    have b: "mark_turns_failed append t (rv_open ?sc) report s1 = (r, s')"
      by (simp add: recover_thread_def load_act_def and_then_def Let_def)
    from mark_turns_failed_log [OF b] obtain ws rest' where ws: "log t s' = log t s1 @ ws"
      "failure_plan (rv_open ?sc) = map step_of ws @ rest'"
      "\<forall>report'. r = Inr report' \<longrightarrow> rest' = [] \<and>
         turns_marked_failed report' = turns_marked_failed report @ rv_open ?sc \<and>
         receipts_recorded report' = receipts_recorded report" by (elim exE conjE)
    with vs Inr show ?thesis
      by (intro exI [of _ "vs @ ws"] exI [of _ rest']) (simp add: recovery_plan_def)
  qed
qed

text \<open>Nothing to do, nothing changed.\<close>

lemma recover_thread_idle:
  assumes "recovery_plan (scan_envelopes (log t s) recovery_start) = []"
    and "recover_thread append load t s = (r, s')"
  shows "log t s' = log t s"
  using recover_thread_log [OF assms(2)] assms(1) by auto

end

section \<open>Properties\<close>

text \<open>C8 When recovery of a thread returns, on any store that keeps the contract, every call that
  the thread's log announced, prepared or started has a receipt, no turn is open, and what was
  appended is only that: one receipt for each call that had none (outcome unknown when its
  execution had started, failed when it had not, never with an output) and one failure for each
  turn that was open. Nothing is executed or announced again.\<close>

theorem recovery_closes_thread:
  assumes "thread_log append_event load_thread log"
    and "recover_thread append_event load_thread t s = (Inr report, s')"
  shows "\<exists>vs. log t s' = log t s @ vs \<and> (\<forall>v \<in> set vs. recovery_step (log t s) v) \<and>
    distinct (receipt_keys vs) \<and>
    (\<forall>u c. turn_event u (announces c) (log t s) \<or> turn_event u (prepares c) (log t s) \<or>
       turn_event u (starts c) (log t s) \<longrightarrow> turn_event u (receipts c) (log t s')) \<and>
    (\<forall>u. \<not> turn_open u (log t s'))"
proof -
  let ?sc = "scan_envelopes (log t s) recovery_start"
  obtain vs where vs: "log t s' = log t s @ vs" "map step_of vs = recovery_plan ?sc"
    using thread_log.recover_thread_log [OF assms(1,2)] by auto
  have "recovery_step (log t s) v" if "v \<in> set vs" for v
  proof (rule recovery_plan_steps)
    show "step_of v \<in> set (recovery_plan ?sc)" unfolding vs(2) [symmetric] using that by simp
  qed
  moreover have "distinct (receipt_keys vs)"
    unfolding receipt_keys_def vs(2) by (rule recovery_plan_keys(1)) (rule scan_ok_log)
  ultimately show ?thesis
    using recovery_plan_closes(1,2) [OF vs(2)] vs(1) by (intro exI [of _ vs]) auto
qed

text \<open>C9 An interrupted recovery is harmless and a finished one is final: whatever a recovery
  returns, the log only grew, by receipts and failures of the kinds above; and once one returned
  successfully, recovering again appends nothing.\<close>

theorem recovery_idempotent:
  assumes "thread_log append_event load_thread log"
    and "recover_thread append_event load_thread t s = (r, s')"
    and "recover_thread append_event load_thread t s' = (r', s'')"
  shows "(\<exists>vs. log t s' = log t s @ vs \<and> (\<forall>v \<in> set vs. recovery_step (log t s) v)) \<and>
    (isl r \<or> log t s'' = log t s' \<and>
       (isl r' \<or> r' = Inr \<lparr>receipts_recorded = [], turns_marked_failed = []\<rparr>))"
proof -
  let ?sc = "scan_envelopes (log t s) recovery_start"
  let ?sc' = "scan_envelopes (log t s') recovery_start"
  obtain vs rest where vs: "log t s' = log t s @ vs" "recovery_plan ?sc = map step_of vs @ rest"
    and rest: "\<forall>report. r = Inr report \<longrightarrow> rest = []"
    using thread_log.recover_thread_log [OF assms(1,2)] by auto
  have "recovery_step (log t s) v" if "v \<in> set vs" for v
    by (rule recovery_plan_steps) (use that vs(2) in auto)
  moreover have "log t s'' = log t s' \<and>
       (isl r' \<or> r' = Inr \<lparr>receipts_recorded = [], turns_marked_failed = []\<rparr>)" if "\<not> isl r"
  proof -
    from that rest have "rest = []" by (cases r) auto
    with vs have plan: "map step_of vs = recovery_plan ?sc" by simp
    have empty: "recovery_plan ?sc' = []"
      using recovery_plan_closes(3) [OF plan] vs(1) by simp
    then have none: "List.map_filter (recovery_receipt ?sc') (recovery_keys ?sc') = []" "rv_open ?sc' = []"
      by (auto simp: recovery_plan_def failure_plan_def receipt_plan_empty_iff List.map_filter_def
          filter_empty_conv)
    obtain ws rest' where "log t s'' = log t s' @ ws" "recovery_plan ?sc' = map step_of ws @ rest'"
      and rep: "\<forall>report. r' = Inr report \<longrightarrow> rest' = [] \<and> turns_marked_failed report = rv_open ?sc' \<and>
        receipts_recorded report = List.map_filter (recovery_receipt ?sc') (recovery_keys ?sc')"
      using thread_log.recover_thread_log [OF assms(1,3)] by auto
    moreover from rep none have "isl r' \<or> r' = Inr \<lparr>receipts_recorded = [], turns_marked_failed = []\<rparr>"
      by (cases r') auto
    ultimately show ?thesis using empty by simp
  qed
  ultimately show ?thesis using vs(1) by auto
qed

definition sample_prepared :: prepared_tool_call where
  "sample_prepared = \<lparr>pc_call_id = ''c1'',
     pc_action = CanonicalAction_new ''shell'' JNull ExternalSideEffect Retry_Unsafe\<rparr>"

definition sample_interrupted :: memory_store where
  "sample_interrupted =
     (let ev = (\<lambda>n e. \<lparr>ev_id = [], ev_sequence = n, ev_at_unix_ms = 0, ev_thread_id = ''t'',
                      ev_turn_id = Some ''u'', ev_event = e\<rparr>)
      in \<lparr>ms_poisoned = False, ms_next_sequence = 4,
          ms_events = [ev 0 TurnStarted,
            ev 1 (AssistantMessage [] [\<lparr>tc_id = ''c1'', tc_name = ''shell'', tc_arguments = JNull\<rparr>,
                \<lparr>tc_id = ''c2'', tc_name = ''read'', tc_arguments = JNull\<rparr>] ToolUse no_usage),
            ev 2 (ToolPrepared sample_prepared), ev 3 (ToolExecutionStarted sample_prepared)],
          ms_host = \<lparr>h_pid = 7, h_next_id = 4, h_clock = (\<lambda>_. 0), h_readings = 8,
            h_io = (\<lambda>_. Io_ok), h_operations = 0\<rparr>\<rparr>)"

lemma sample_recovery:
  "\<exists>report s. recover_thread memory_append memory_load ''t'' sample_interrupted = (Inr report, s) \<and>
     map tr_status (receipts_recorded report) = [Receipt_Unknown, Receipt_Failed] \<and>
     turns_marked_failed report = [''u'']"
  by (simp add: recover_thread_def load_act_def memory_load_def memory_append_def sample_interrupted_def
      sample_prepared_def recovery_start_def recovery_keys_def bs_extend_def recovery_receipt_def
      and_then_def ok_def Let_def split_beta)

theorem recovery_closes_thread_witness:
  "\<exists>report s. recover_thread memory_append memory_load ''t'' sample_interrupted = (Inr report, s) \<and>
     turn_event ''u'' (receipts ''c2'') (thread_events ''t'' (ms_events s)) \<and>
     \<not> turn_open ''u'' (thread_events ''t'' (ms_events s))"
proof -
  obtain report s
    where r: "recover_thread memory_append memory_load ''t'' sample_interrupted = (Inr report, s)"
    using sample_recovery by blast
  have "turn_event ''u'' (announces ''c2'') (thread_events ''t'' (ms_events sample_interrupted))"
    by (simp add: sample_interrupted_def thread_events_def Let_def)
  with recovery_closes_thread [OF mem.threads.thread_log_axioms r] r show ?thesis by blast
qed

theorem recovery_idempotent_witness:
  "\<exists>report s. recover_thread memory_append memory_load ''t'' sample_interrupted = (Inr report, s) \<and>
     thread_events ''t'' (ms_events (snd (recover_thread memory_append memory_load ''t'' s))) =
     thread_events ''t'' (ms_events s)"
proof -
  obtain report s
    where r: "recover_thread memory_append memory_load ''t'' sample_interrupted = (Inr report, s)"
    using sample_recovery by blast
  obtain r' s' where r': "recover_thread memory_append memory_load ''t'' s = (r', s')" by fastforce
  from recovery_idempotent [OF mem.threads.thread_log_axioms r r'] r r' show ?thesis by simp
qed

end
