(* ===== verification/Runtime.thy ===== *)
theory Runtime
  imports Policy Registry Recovery
begin

text \<open>
  The agent runtime (crates/harness-core/src/runtime.rs): one turn from the durable start event
  through the model loop, the handling of every tool call and the terminal event. The trait
  objects it was built with are the fields of the runtime record; each may read and change the
  environment \<open>'w\<close>, and so may a poll of the cancellation token. An asynchronous call is the
  function that its completion returns.
\<close>

section \<open>The runtime and its state\<close>

record runtime_config =
  max_model_iterations :: nat
  config_workspace :: "string option"
  tool_metadata :: "(string \<times> string) list"

definition default_config :: runtime_config where
  "default_config = \<lparr>max_model_iterations = 32, config_workspace = None, tool_metadata = []\<rparr>"

record turn_outcome =
  to_thread_id :: thread_id
  to_turn_id :: turn_id
  to_content :: string
  to_model_iterations :: nat

datatype runtime_error =
    Runtime_Store store_error
  | Runtime_Context context_error
  | Runtime_Model model_error
  | Runtime_Hook hook_error
  | UnknownThread thread_id
  | ConcurrentTurn thread_id
  | DuplicateTurn thread_id turn_id
  | InvalidModelResponse turn_id string
  | IncompleteModelResponse turn_id stop_reason
  | Runtime_Cancelled turn_id
  | MaxModelIterations turn_id nat
  | ReceiptPersistenceUnknown call_id string store_error

fun runtime_error_text :: "runtime_error \<Rightarrow> string" where
  [display]: "runtime_error_text (Runtime_Store e) = store_error_text e"
| "runtime_error_text (Runtime_Context e) = context_error_text e"
| "runtime_error_text (Runtime_Model e) = model_error_text e"
| "runtime_error_text (Runtime_Hook e) = hook_error_text e"
| "runtime_error_text (UnknownThread t) = ''thread `'' @ t @ ''` does not exist''"
| "runtime_error_text (ConcurrentTurn t) = ''thread `'' @ t @ ''` already has an active turn''"
| "runtime_error_text (DuplicateTurn t u) =
     ''turn `'' @ u @ ''` already exists in thread `'' @ t @ ''`''"
| "runtime_error_text (InvalidModelResponse u reason) =
     ''model returned an invalid response for turn `'' @ u @ ''`: '' @ reason"
| "runtime_error_text (IncompleteModelResponse u stop) =
     ''model stopped without a complete response for turn `'' @ u @ ''`: '' @ stop_reason_debug stop"
| "runtime_error_text (Runtime_Cancelled u) = ''turn `'' @ u @ ''` was cancelled''"
| "runtime_error_text (MaxModelIterations u maximum) =
     ''turn `'' @ u @ ''` exceeded '' @ dec maximum @ '' model iterations''"
| "runtime_error_text (ReceiptPersistenceUnknown c name e) =
     ''tool `'' @ name @ ''` may have changed external state, but receipt `'' @ c
     @ ''` could not be persisted: '' @ store_error_text e"

record ('s, 'w) runtime =
  rt_model :: "model_request \<Rightarrow> 'w \<Rightarrow> (model_error + model_response) \<times> 'w"
  rt_append :: "'s store_append"
  rt_load :: "'s store_load"
  rt_compile :: "context_input \<Rightarrow> 'w \<Rightarrow> (context_error + compiled_context) \<times> 'w"
  rt_tools :: "'w tool_registry"
  rt_policy :: tool_policy
  rt_policy_context :: policy_context
  rt_parent :: "capability_projection option"
  rt_approvals :: "approval_request \<Rightarrow> 'w \<Rightarrow> (approval_error + approval_decision) \<times> 'w"
  rt_executor :: "'w executor"
  rt_hooks :: "'w hook_set"
  rt_observers :: nat \<comment> \<open>how many observers are registered\<close>
  rt_cancelled :: "'w \<Rightarrow> bool \<times> 'w" \<comment> \<open>\<open>cancellation.is_cancelled()\<close> of the turn's token\<close>
  rt_config :: runtime_config

text \<open>What changes: the store, the environment, what each observer was told, the threads with an
  active turn and the host that generates identifiers.\<close>

record ('s, 'w) rstate =
  r_store :: 's
  r_env :: 'w
  r_notified :: "(nat \<times> event_envelope) list"
  r_active :: "thread_id list"
  r_active_poisoned :: bool
  r_host :: host

type_synonym ('s, 'w, 'a) ract = "(('s, 'w) rstate, runtime_error, 'a) act"

definition on_store :: "('s, 'e, 'a) act \<Rightarrow> (('s, 'w) rstate, 'e, 'a) act" where
  "on_store m = zoom r_store (\<lambda>x s. s\<lparr>r_store := x\<rparr>) m"

definition on_env :: "('w, 'e, 'a) act \<Rightarrow> (('s, 'w) rstate, 'e, 'a) act" where
  "on_env m = zoom r_env (\<lambda>x s. s\<lparr>r_env := x\<rparr>) m"

definition notify :: "('s, 'w) runtime \<Rightarrow> event_envelope \<Rightarrow> ('s, 'w, unit) ract" where
  "notify rt v = writes (\<lambda>s. s\<lparr>r_notified := r_notified s @ map (\<lambda>i. (i, v)) [0..<rt_observers rt]\<rparr>)"

definition append_event ::
  "('s, 'w) runtime \<Rightarrow> thread_id \<Rightarrow> turn_id option \<Rightarrow> runtime_event \<Rightarrow> ('s, 'w, event_envelope) ract"
where
  "append_event rt thread turn event =
     and_then (map_err Runtime_Store (on_store (rt_append rt thread turn event))) (\<lambda>v.
     and_then (notify rt v) (\<lambda>_. ok v))"

definition load_events :: "('s, 'w) runtime \<Rightarrow> thread_id \<Rightarrow> ('s, 'w, event_envelope list) ract" where
  "load_events rt thread = map_err Runtime_Store (on_store (load_act (rt_load rt) thread))"

definition capabilities :: "('s, 'w) runtime \<Rightarrow> capability_projection" where
  "capabilities rt =
     project_capabilities (registry_names (rt_tools rt)) (rt_policy rt) (rt_policy_context rt) (rt_parent rt)"

section \<open>Threads and recovery\<close>

definition start_thread :: "('s, 'w) runtime \<Rightarrow> ('s, 'w, thread_id) ract" where
  "start_thread rt s =
     (let (t, h) = ThreadId_new (r_host s)
      in and_then (append_event rt t None ThreadStarted) (\<lambda>_. ok t) (s\<lparr>r_host := h\<rparr>))"

definition ensure_thread :: "('s, 'w) runtime \<Rightarrow> thread_id \<Rightarrow> ('s, 'w, unit) ract" where
  "ensure_thread rt thread =
     and_then (load_events rt thread) (\<lambda>events.
     if list_ex (\<lambda>v. ev_event v = ThreadStarted) events then ok () else err (UnknownThread thread))"

definition ensure_turn_unused :: "('s, 'w) runtime \<Rightarrow> thread_id \<Rightarrow> turn_id \<Rightarrow> ('s, 'w, unit) ract" where
  "ensure_turn_unused rt thread turn =
     and_then (load_events rt thread) (\<lambda>events.
     if list_ex (\<lambda>v. ev_turn_id v = Some turn) events then err (DuplicateTurn thread turn) else ok ())"

definition thread_events_of :: "('s, 'w) runtime \<Rightarrow> thread_id \<Rightarrow> ('s, 'w, event_envelope list) ract" where
  "thread_events_of rt thread = and_then (ensure_thread rt thread) (\<lambda>_. load_events rt thread)"

definition acquire_thread :: "thread_id \<Rightarrow> ('s, 'w, unit) ract" where
  "acquire_thread thread s =
     (if r_active_poisoned s then (Inl (Runtime_Store Poisoned), s)
      else if thread \<in> set (r_active s) then (Inl (ConcurrentTurn thread), s)
      else (Inr (), s\<lparr>r_active := bs_insert thread (r_active s)\<rparr>))"

text \<open>Dropping the guard.\<close>

definition release_thread :: "thread_id \<Rightarrow> ('s, 'w) rstate \<Rightarrow> ('s, 'w) rstate" where
  "release_thread thread s =
     (if r_active_poisoned s then s else s\<lparr>r_active := bs_remove thread (r_active s)\<rparr>)"

definition with_thread :: "thread_id \<Rightarrow> ('s, 'w, 'a) ract \<Rightarrow> ('s, 'w, 'a) ract" where
  "with_thread thread m =
     and_then (acquire_thread thread) (\<lambda>_ s. case m s of (r, s') \<Rightarrow> (r, release_thread thread s'))"

definition recover_exclusive :: "('s, 'w) runtime \<Rightarrow> thread_id \<Rightarrow> ('s, 'w, recovery_report) ract" where
  "recover_exclusive rt thread =
     and_then (load_events rt thread) (\<lambda>events.
     let watermark = (if events = [] then 0 else saturating_add (ev_sequence (last events)) 1)
     in and_then (map_err Runtime_Store (on_store (recover_thread (rt_append rt) (rt_load rt) thread)))
       (\<lambda>report.
        if receipts_recorded report \<noteq> [] \<or> turns_marked_failed report \<noteq> []
        then and_then (load_events rt thread) (\<lambda>events.
             and_then (for_each events (\<lambda>v. if watermark \<le> ev_sequence v then notify rt v else ok ()))
               (\<lambda>_. ok report))
        else ok report))"

definition recover :: "('s, 'w) runtime \<Rightarrow> thread_id \<Rightarrow> ('s, 'w, recovery_report) ract" where
  "recover rt thread =
     and_then (ensure_thread rt thread) (\<lambda>_. with_thread thread (recover_exclusive rt thread))"

section \<open>Ending a turn\<close>

definition record_receipt ::
  "('s, 'w) runtime \<Rightarrow> thread_id \<Rightarrow> turn_id \<Rightarrow> tool_receipt \<Rightarrow> bool \<Rightarrow> ('s, 'w, unit) ract" where
  "record_receipt rt thread turn receipt execution_crossed =
     attempt (append_event rt thread (Some turn) (ToolReceiptRecorded receipt)) (\<lambda>result.
       case result of
         Inr _ \<Rightarrow> ok ()
       | Inl e \<Rightarrow>
           (case e of
              Runtime_Store source \<Rightarrow>
                if execution_crossed
                then err (ReceiptPersistenceUnknown (tr_call_id receipt) (tr_tool_name receipt) source)
                else err e
            | _ \<Rightarrow> err e))"

definition fail_turn :: "('s, 'w) runtime \<Rightarrow> thread_id \<Rightarrow> turn_id \<Rightarrow> string \<Rightarrow> ('s, 'w, unit) ract" where
  "fail_turn rt thread turn e =
     and_then (append_event rt thread (Some turn) (TurnFailed e)) (\<lambda>_. ok ())"

text \<open>\<open>fail_turn(..)?; return Err(..)\<close>\<close>

definition fail_with ::
  "('s, 'w) runtime \<Rightarrow> thread_id \<Rightarrow> turn_id \<Rightarrow> string \<Rightarrow> runtime_error \<Rightarrow> ('s, 'w, 'a) ract" where
  "fail_with rt thread turn text e = and_then (fail_turn rt thread turn text) (\<lambda>_. err e)"

definition record_hook_failure ::
  "('s, 'w) runtime \<Rightarrow> thread_id \<Rightarrow> turn_id \<Rightarrow> hook_point \<Rightarrow> hook_error \<Rightarrow> ('s, 'w, unit) ract" where
  "record_hook_failure rt thread turn point e =
     and_then (append_event rt thread (Some turn) (HookFailed (he_hook e) point (he_reason e)))
       (\<lambda>_. ok ())"

fun deny_calls ::
  "('s, 'w) runtime \<Rightarrow> thread_id \<Rightarrow> turn_id \<Rightarrow> string \<Rightarrow> tool_call list \<Rightarrow> ('s, 'w, unit) ract" where
  "deny_calls rt thread turn reason [] = ok ()"
| "deny_calls rt thread turn reason (call # calls) =
     and_then (record_receipt rt thread turn (receipt_denied (tc_id call) (tc_name call) None reason) False)
       (\<lambda>_. deny_calls rt thread turn reason calls)"

definition cancel_turn ::
  "('s, 'w) runtime \<Rightarrow> thread_id \<Rightarrow> turn_id \<Rightarrow> tool_call list \<Rightarrow> ('s, 'w, 'a) ract" where
  "cancel_turn rt thread turn unhandled_calls =
     and_then (deny_calls rt thread turn ''turn was cancelled before tool preparation'' unhandled_calls) (\<lambda>_.
     and_then (append_event rt thread (Some turn) TurnCancelled) (\<lambda>_. err (Runtime_Cancelled turn)))"

section \<open>Tool calls\<close>

text \<open>\<open>record_receipt(.., receipt.clone(), false)?; return Ok(receipt)\<close>\<close>

definition refuse_call ::
  "('s, 'w) runtime \<Rightarrow> thread_id \<Rightarrow> turn_id \<Rightarrow> tool_receipt \<Rightarrow> ('s, 'w, tool_receipt) ract" where
  "refuse_call rt thread turn receipt =
     and_then (record_receipt rt thread turn receipt False) (\<lambda>_. ok receipt)"

definition execution_context :: "('s, 'w) runtime \<Rightarrow> thread_id \<Rightarrow> turn_id \<Rightarrow> tool_execution_context" where
  "execution_context rt thread turn =
     \<lparr>tx_thread_id = thread, tx_turn_id = turn, tx_workspace = config_workspace (rt_config rt),
      tx_metadata = tool_metadata (rt_config rt)\<rparr>"

text \<open>The approval of an action whose access is \<open>Ask\<close>: the reason of a denial, if it is denied.\<close>

definition denial_of :: "canonical_action \<Rightarrow> approval_decision \<Rightarrow> string option" where
  "denial_of action decision =
     (case decision of
        Approved approved \<Rightarrow>
          if approved = action then None
          else Some ''approval did not match the exact canonical action; execution was denied''
      | Denied reason \<Rightarrow> Some reason)"

definition ask_approval ::
  "('s, 'w) runtime \<Rightarrow> thread_id \<Rightarrow> turn_id \<Rightarrow> prepared_tool_call \<Rightarrow> ('s, 'w, string option) ract" where
  "ask_approval rt thread turn prepared =
     (let request = \<lparr>ar_thread_id = thread, ar_turn_id = turn, ar_call_id = pc_call_id prepared,
            ar_action = pc_action prepared, ar_reason = ''effective tool policy requires approval''\<rparr>
      in and_then (append_event rt thread (Some turn) (ApprovalRequested request)) (\<lambda>_.
         attempt (on_env (rt_approvals rt request)) (\<lambda>result.
         let decision = (case result of Inr d \<Rightarrow> d | Inl e \<Rightarrow> Denied (approval_error_text e))
         in and_then (append_event rt thread (Some turn) (ApprovalResolved (pc_call_id prepared) decision))
              (\<lambda>_. ok (denial_of (pc_action prepared) decision)))))"

definition receipt_of :: "prepared_tool_call \<Rightarrow> tool_error + json \<Rightarrow> tool_receipt" where
  "receipt_of prepared result =
     (case result of
        Inr output \<Rightarrow> receipt_succeeded prepared output
      | Inl (OutcomeUnknown reason) \<Rightarrow> receipt_unknown prepared reason
      | Inl e \<Rightarrow> receipt_failed prepared (tool_error_text e))"

definition execute_call ::
  "('s, 'w) runtime \<Rightarrow> thread_id \<Rightarrow> turn_id \<Rightarrow> nat \<Rightarrow> 'w tool \<Rightarrow> prepared_tool_call \<Rightarrow>
   ('s, 'w, tool_receipt) ract" where
  "execute_call rt thread turn iteration tool prepared =
     and_then (append_event rt thread (Some turn) (ToolExecutionStarted prepared)) (\<lambda>_.
     attempt (on_env (rt_executor rt tool prepared (execution_context rt thread turn))) (\<lambda>result.
     let receipt = receipt_of prepared result
     in and_then (record_receipt rt thread turn receipt True) (\<lambda>_.
        attempt (on_env (hooks_after_tool (rt_hooks rt)
          \<lparr>hc_thread_id = thread, hc_turn_id = turn, hc_iteration = iteration\<rparr> receipt)) (\<lambda>hooked.
        case hooked of
          Inr _ \<Rightarrow> ok receipt
        | Inl e \<Rightarrow>
            and_then (record_hook_failure rt thread turn AfterTool e) (\<lambda>_.
            fail_with rt thread turn (hook_error_text e) (Runtime_Hook e))))))"

definition run_prepared ::
  "('s, 'w) runtime \<Rightarrow> thread_id \<Rightarrow> turn_id \<Rightarrow> nat \<Rightarrow> tool_call \<Rightarrow> access \<Rightarrow> 'w tool \<Rightarrow>
   prepared_tool_call \<Rightarrow> ('s, 'w, tool_receipt) ract" where
  "run_prepared rt thread turn iteration call level tool prepared =
     and_then (append_event rt thread (Some turn) (ToolPrepared prepared)) (\<lambda>_.
     attempt (on_env (hooks_before_tool (rt_hooks rt)
       \<lparr>hc_thread_id = thread, hc_turn_id = turn, hc_iteration = iteration\<rparr> prepared)) (\<lambda>hooked.
     case hooked of
       Inl e \<Rightarrow>
         and_then (record_hook_failure rt thread turn BeforeTool e) (\<lambda>_.
         refuse_call rt thread turn
           (receipt_denied (tc_id call) (tc_name call) (Some (pc_action prepared)) (hook_error_text e)))
     | Inr _ \<Rightarrow>
         and_then (if level = Ask then ask_approval rt thread turn prepared else ok None) (\<lambda>denial.
         case denial of
           Some reason \<Rightarrow>
             refuse_call rt thread turn
               (receipt_denied (tc_id call) (tc_name call) (Some (pc_action prepared)) reason)
         | None \<Rightarrow> execute_call rt thread turn iteration tool prepared)))"

definition handle_tool_call ::
  "('s, 'w) runtime \<Rightarrow> thread_id \<Rightarrow> turn_id \<Rightarrow> nat \<Rightarrow> tool_call \<Rightarrow> capability_projection \<Rightarrow>
   ('s, 'w, tool_receipt) ract" where
  "handle_tool_call rt thread turn iteration call caps =
     (let level = projection_access caps (tc_name call)
      in case registry_get (rt_tools rt) (tc_name call) of
           None \<Rightarrow>
             refuse_call rt thread turn
               (receipt_denied (tc_id call) (tc_name call) None ''tool is not registered'')
         | Some tool \<Rightarrow>
             if level = Deny then
               refuse_call rt thread turn (receipt_denied (tc_id call) (tc_name call) None
                 ''tool is denied by the effective capability projection'')
             else
               attempt (on_env (t_prepare tool call (execution_context rt thread turn))) (\<lambda>result.
               case result of
                 Inl e \<Rightarrow> refuse_call rt thread turn (receipt_malformed call (tool_error_text e))
               | Inr prepared \<Rightarrow>
                   if pc_call_id prepared \<noteq> tc_id call \<or> ca_tool_name (pc_action prepared) \<noteq> tc_name call
                   then refuse_call rt thread turn (receipt_malformed call
                          ''tool preparation changed the call id or tool name'')
                   else run_prepared rt thread turn iteration call level tool prepared))"

section \<open>The model loop\<close>

fun check_calls :: "tool_call list \<Rightarrow> call_id list \<Rightarrow> call_id list \<Rightarrow> string + unit" where
  "check_calls [] previously_seen current = Inr ()"
| "check_calls (call # calls) previously_seen current =
     (if blank (tc_id call) then Inl ''model returned a tool call with an empty id''
      else if blank (tc_name call)
        then Inl (''tool call `'' @ tc_id call @ ''` has an empty tool name'')
      else if tc_id call \<in> set previously_seen \<or> tc_id call \<in> set current
        then Inl (''tool call id `'' @ tc_id call @ ''` was reused within the same turn'')
      else check_calls calls previously_seen (bs_insert (tc_id call) current))"

definition validate_tool_calls :: "tool_call list \<Rightarrow> call_id list \<Rightarrow> string + unit" where
  "validate_tool_calls calls previously_seen = check_calls calls previously_seen []"

fun transcript_from_events :: "event_envelope list \<Rightarrow> transcript_message list" where
  "transcript_from_events [] = []"
| "transcript_from_events (v # vs) =
     (case ev_event v of
        UserMessage content \<Rightarrow> [User content]
      | AssistantMessage content tool_calls _ _ \<Rightarrow> [Assistant content tool_calls]
      | ToolReceiptRecorded receipt \<Rightarrow> [Tool_Result receipt]
      | _ \<Rightarrow> []) @ transcript_from_events vs"

definition is_cancelled :: "('s, 'w) runtime \<Rightarrow> ('s, 'w, bool) ract" where
  "is_cancelled rt = on_env (\<lambda>w. case rt_cancelled rt w of (c, w') \<Rightarrow> (Inr c, w'))"

text \<open>The first half of an iteration: compile the context, run the hooks and record both steps.\<close>

definition compile_context ::
  "('s, 'w) runtime \<Rightarrow> thread_id \<Rightarrow> turn_id \<Rightarrow> nat \<Rightarrow> string list \<Rightarrow> transcript_message list \<Rightarrow>
   ('s, 'w, compiled_context) ract" where
  "compile_context rt thread turn iteration visible transcript =
     attempt (on_env (rt_compile rt
       \<lparr>ci_thread_id = thread, ci_turn_id = turn, ci_transcript = transcript\<rparr>)) (\<lambda>result.
     case result of
       Inl e \<Rightarrow> fail_with rt thread turn (context_error_text e) (Runtime_Context e)
     | Inr compiled \<Rightarrow>
         attempt (on_env (hooks_before_model (rt_hooks rt)
           \<lparr>hc_thread_id = thread, hc_turn_id = turn, hc_iteration = iteration\<rparr> compiled)) (\<lambda>hooked.
         case hooked of
           Inl e \<Rightarrow>
             and_then (record_hook_failure rt thread turn BeforeModel e) (\<lambda>_.
             fail_with rt thread turn (hook_error_text e) (Runtime_Hook e))
         | Inr _ \<Rightarrow>
             and_then (append_event rt thread (Some turn)
               (ContextCompiled iteration (length (cc_prompt compiled)) (length (cc_messages compiled)) visible))
               (\<lambda>_.
             and_then (append_event rt thread (Some turn) (ModelRequestStarted iteration)) (\<lambda>_.
             ok compiled))))"

definition request_model ::
  "('s, 'w) runtime \<Rightarrow> thread_id \<Rightarrow> turn_id \<Rightarrow> nat \<Rightarrow> tool_definition list \<Rightarrow> compiled_context \<Rightarrow>
   ('s, 'w, model_response) ract" where
  "request_model rt thread turn iteration visible_tools compiled =
     attempt (on_env (rt_model rt
       \<lparr>mr_thread_id = thread, mr_turn_id = turn, mr_iteration = iteration, mr_context = compiled,
        mr_tools = visible_tools\<rparr>)) (\<lambda>result.
     case result of
       Inr response \<Rightarrow> ok response
     | Inl e \<Rightarrow>
         and_then (is_cancelled rt) (\<lambda>cancelled.
         if cancelled then cancel_turn rt thread turn []
         else fail_with rt thread turn (model_error_text e) (Runtime_Model e)))"

definition record_response ::
  "('s, 'w) runtime \<Rightarrow> thread_id \<Rightarrow> turn_id \<Rightarrow> model_response \<Rightarrow> call_id list \<Rightarrow> ('s, 'w, unit) ract"
where
  "record_response rt thread turn response seen =
     (case validate_tool_calls (mp_tool_calls response) seen of
        Inl reason \<Rightarrow> fail_with rt thread turn reason (InvalidModelResponse turn reason)
      | Inr _ \<Rightarrow>
          and_then (append_event rt thread (Some turn)
            (AssistantMessage (mp_content response) (mp_tool_calls response) (mp_stop_reason response)
              (mp_usage response))) (\<lambda>_. ok ()))"

definition stop_error :: "turn_id \<Rightarrow> model_response \<Rightarrow> runtime_error option" where
  "stop_error turn response =
     (case mp_stop_reason response of
        MaxTokens \<Rightarrow> Some (IncompleteModelResponse turn MaxTokens)
      | Other_Stop \<Rightarrow> Some (IncompleteModelResponse turn Other_Stop)
      | ToolUse \<Rightarrow>
          if mp_tool_calls response = []
          then Some (InvalidModelResponse turn ''tool-use stop has no tool calls'') else None
      | EndTurn \<Rightarrow>
          if mp_tool_calls response \<noteq> []
          then Some (InvalidModelResponse turn ''end-turn stop contains tool calls'') else None)"

definition check_stop ::
  "('s, 'w) runtime \<Rightarrow> thread_id \<Rightarrow> turn_id \<Rightarrow> model_response \<Rightarrow> ('s, 'w, unit) ract" where
  "check_stop rt thread turn response =
     (case stop_error turn response of
        Some e \<Rightarrow>
          and_then (deny_calls rt thread turn (runtime_error_text e) (mp_tool_calls response)) (\<lambda>_.
          fail_with rt thread turn (runtime_error_text e) e)
      | None \<Rightarrow> ok ())"

fun handle_calls ::
  "('s, 'w) runtime \<Rightarrow> thread_id \<Rightarrow> turn_id \<Rightarrow> nat \<Rightarrow> capability_projection \<Rightarrow> tool_call list \<Rightarrow>
   transcript_message list \<Rightarrow> ('s, 'w, transcript_message list) ract" where
  "handle_calls rt thread turn iteration caps [] transcript = ok transcript"
| "handle_calls rt thread turn iteration caps (call # calls) transcript =
     and_then (is_cancelled rt) (\<lambda>cancelled.
     if cancelled then cancel_turn rt thread turn (call # calls)
     else
       and_then (handle_tool_call rt thread turn iteration call caps) (\<lambda>receipt.
       handle_calls rt thread turn iteration caps calls (transcript @ [Tool_Result receipt])))"

text \<open>The loop \<open>for iteration in 0..max\<close>: \<open>n\<close> iterations are left, the next is \<open>iteration\<close>.\<close>

fun turn_loop ::
  "('s, 'w) runtime \<Rightarrow> thread_id \<Rightarrow> turn_id \<Rightarrow> capability_projection \<Rightarrow> nat \<Rightarrow> nat \<Rightarrow>
   transcript_message list \<Rightarrow> call_id list \<Rightarrow> ('s, 'w, turn_outcome) ract" where
  "turn_loop rt thread turn caps 0 iteration transcript seen =
     (let maximum = max_model_iterations (rt_config rt)
      in fail_with rt thread turn (''maximum model iterations ('' @ dec maximum @ '') exceeded'')
           (MaxModelIterations turn maximum))"
| "turn_loop rt thread turn caps (Suc n) iteration transcript seen =
     and_then (is_cancelled rt) (\<lambda>cancelled.
     if cancelled then cancel_turn rt thread turn []
     else
       and_then (compile_context rt thread turn iteration (visible_names caps) transcript) (\<lambda>compiled.
       and_then (request_model rt thread turn iteration
         (definitions_for (rt_tools rt) (visible_names caps)) compiled) (\<lambda>response.
       let calls = mp_tool_calls response
       in and_then (record_response rt thread turn response seen) (\<lambda>_.
          and_then (check_stop rt thread turn response) (\<lambda>_.
          and_then (is_cancelled rt) (\<lambda>cancelled.
          if cancelled then cancel_turn rt thread turn calls
          else if calls = [] then
            and_then (append_event rt thread (Some turn) (TurnCompleted (mp_content response))) (\<lambda>_.
            ok \<lparr>to_thread_id = thread, to_turn_id = turn, to_content = mp_content response,
                to_model_iterations = iteration + 1\<rparr>)
          else
            and_then (handle_calls rt thread turn iteration caps calls
              (transcript @ [Assistant (mp_content response) calls])) (\<lambda>transcript'.
            turn_loop rt thread turn caps n (iteration + 1) transcript'
              (bs_extend (map tc_id calls) seen))))))))"

definition start_turn ::
  "('s, 'w) runtime \<Rightarrow> thread_id \<Rightarrow> turn_id \<Rightarrow> string \<Rightarrow> ('s, 'w, turn_outcome) ract" where
  "start_turn rt thread turn input =
     and_then (append_event rt thread (Some turn) TurnStarted) (\<lambda>_.
     and_then (append_event rt thread (Some turn) (UserMessage input)) (\<lambda>_.
     and_then (load_events rt thread) (\<lambda>events.
     turn_loop rt thread turn (capabilities rt) (max_model_iterations (rt_config rt)) 0
       (transcript_from_events events) [])))"

definition run_turn_with_id ::
  "('s, 'w) runtime \<Rightarrow> thread_id \<Rightarrow> turn_id \<Rightarrow> string \<Rightarrow> ('s, 'w, turn_outcome) ract" where
  "run_turn_with_id rt thread turn input =
     and_then (ensure_thread rt thread) (\<lambda>_.
     with_thread thread
       (and_then (ensure_turn_unused rt thread turn) (\<lambda>_.
        and_then (recover_exclusive rt thread) (\<lambda>_.
        start_turn rt thread turn input))))"

definition run_turn :: "('s, 'w) runtime \<Rightarrow> thread_id \<Rightarrow> string \<Rightarrow> ('s, 'w, turn_outcome) ract" where
  "run_turn rt thread input s =
     (let (turn, h) = TurnId_new (r_host s)
      in run_turn_with_id rt thread turn input (s\<lparr>r_host := h\<rparr>))"

end
