(* ===== verification/TurnSpec.thy ===== *)
theory TurnSpec
  imports Runtime
begin

text \<open>
  The contract of a turn: a step relation over the durable events of one turn, as a state
  machine that knows nothing of the runtime's code. What it allows is proved here by rule
  induction (every execution was announced, prepared, permitted and, where asked for, approved;
  receipts follow the announced calls one by one; one terminal event ends the turn);
  \<open>TurnRefinement\<close> shows that the runtime refines it.
\<close>

section \<open>The step relation\<close>

datatype phase =
    Fresh
  | Opened
  | Idle bool \<comment> \<open>between calls and iterations; a tool has just been executed\<close>
  | Vetoed \<comment> \<open>a before-model hook rejected\<close>
  | Compiled
  | Requested
  | Prepared prepared_tool_call
  | Asked prepared_tool_call
  | Cleared prepared_tool_call \<comment> \<open>approved\<close>
  | Refused
  | Running prepared_tool_call
  | Broken \<comment> \<open>an after-tool hook rejected\<close>
  | Closed runtime_event \<comment> \<open>by this terminal event\<close>

text \<open>What a turn runs under: the effective capability projection and the bound on its model
  iterations.\<close>

record turn_rules =
  granted :: capability_projection
  iteration_limit :: nat

record turn_state =
  ts_phase :: phase
  ts_iteration :: nat
  ts_announced :: "tool_call list" \<comment> \<open>every call of the turn so far\<close>
  ts_pending :: "tool_call list" \<comment> \<open>those without a receipt\<close>
  ts_answer :: "(string \<times> bool \<times> stop_reason) option"
    \<comment> \<open>the last response: its content, whether it has calls, why it stopped\<close>

definition turn_start :: turn_state where
  "turn_start = \<lparr>ts_phase = Fresh, ts_iteration = 0, ts_announced = [], ts_pending = [], ts_answer = None\<rparr>"

text \<open>Between iterations the turn may go on when it has not been answered, or the answer's calls
  are all handled.\<close>

definition may_continue :: "turn_state \<Rightarrow> bool" where
  "may_continue st \<longleftrightarrow> ts_pending st = [] \<and>
     (case ts_answer st of None \<Rightarrow> True | Some (_, calls, stop) \<Rightarrow> calls \<and> stop = ToolUse)"

text \<open>A response that may not be acted upon.\<close>

definition incomplete :: "turn_state \<Rightarrow> bool" where
  "incomplete st \<longleftrightarrow>
     (case ts_answer st of
        None \<Rightarrow> False
      | Some (_, calls, stop) \<Rightarrow>
          stop = MaxTokens \<or> stop = Other_Stop \<or> (stop = ToolUse \<and> \<not> calls) \<or> (stop = EndTurn \<and> calls))"

definition executed_receipt :: "prepared_tool_call \<Rightarrow> tool_receipt \<Rightarrow> bool" where
  "executed_receipt p r \<longleftrightarrow> tr_call_id r = pc_call_id p \<and> tr_tool_name r = ca_tool_name (pc_action p) \<and>
     tr_action r = Some (pc_action p) \<and> tr_status r \<in> {Receipt_Succeeded, Receipt_Failed, Receipt_Unknown}"

definition refused_receipt :: "tool_call \<Rightarrow> tool_receipt \<Rightarrow> bool" where
  "refused_receipt call r \<longleftrightarrow> tr_call_id r = tc_id call \<and> tr_tool_name r = tc_name call \<and>
     tr_status r \<in> {Receipt_Denied, Receipt_Failed} \<and> tr_output r = None"

inductive turn_step ::
  "turn_rules \<Rightarrow> turn_state \<Rightarrow> runtime_event \<Rightarrow> turn_state \<Rightarrow> bool"
  for rules :: turn_rules where
  started: "ts_phase st = Fresh \<Longrightarrow> turn_step rules st TurnStarted (st\<lparr>ts_phase := Opened\<rparr>)"
| input: "ts_phase st = Opened \<Longrightarrow>
    turn_step rules st (UserMessage content) (st\<lparr>ts_phase := Idle False\<rparr>)"
| compiled: "ts_phase st = Idle b \<Longrightarrow> may_continue st \<Longrightarrow> ts_iteration st < iteration_limit rules \<Longrightarrow>
    turn_step rules st (ContextCompiled (ts_iteration st) segments messages (visible_names (granted rules)))
      (st\<lparr>ts_phase := Compiled\<rparr>)"
| vetoed: "ts_phase st = Idle b \<Longrightarrow> may_continue st \<Longrightarrow>
    turn_step rules st (HookFailed hook BeforeModel reason) (st\<lparr>ts_phase := Vetoed\<rparr>)"
| requested: "ts_phase st = Compiled \<Longrightarrow>
    turn_step rules st (ModelRequestStarted (ts_iteration st)) (st\<lparr>ts_phase := Requested\<rparr>)"
| answered: "ts_phase st = Requested \<Longrightarrow>
    validate_tool_calls calls (map tc_id (ts_announced st)) = Inr () \<Longrightarrow>
    turn_step rules st (AssistantMessage content calls stop usage)
      (st\<lparr>ts_phase := Idle False, ts_iteration := ts_iteration st + 1,
          ts_announced := ts_announced st @ calls, ts_pending := calls,
          ts_answer := Some (content, calls \<noteq> [], stop)\<rparr>)"
| refused: "ts_phase st = Idle b \<Longrightarrow> ts_pending st = call # calls \<Longrightarrow> refused_receipt call r \<Longrightarrow>
    turn_step rules st (ToolReceiptRecorded r) (st\<lparr>ts_phase := Idle False, ts_pending := calls\<rparr>)"
| prepared: "ts_phase st = Idle b \<Longrightarrow> ts_pending st = call # calls \<Longrightarrow> \<not> incomplete st \<Longrightarrow>
    pc_call_id p = tc_id call \<Longrightarrow> ca_tool_name (pc_action p) = tc_name call \<Longrightarrow>
    projection_access (granted rules) (tc_name call) \<noteq> Deny \<Longrightarrow>
    turn_step rules st (ToolPrepared p) (st\<lparr>ts_phase := Prepared p\<rparr>)"
| blocked: "ts_phase st = Prepared p \<Longrightarrow>
    turn_step rules st (HookFailed hook BeforeTool reason) (st\<lparr>ts_phase := Refused\<rparr>)"
| asked: "ts_phase st = Prepared p \<Longrightarrow>
    projection_access (granted rules) (ca_tool_name (pc_action p)) = Ask \<Longrightarrow>
    ar_call_id request = pc_call_id p \<Longrightarrow> ar_action request = pc_action p \<Longrightarrow>
    turn_step rules st (ApprovalRequested request) (st\<lparr>ts_phase := Asked p\<rparr>)"
| resolved: "ts_phase st = Asked p \<Longrightarrow>
    turn_step rules st (ApprovalResolved (pc_call_id p) decision)
      (st\<lparr>ts_phase := if decision = Approved (pc_action p) then Cleared p else Refused\<rparr>)"
| running: "ts_phase st = Cleared p \<or>
      ts_phase st = Prepared p \<and> projection_access (granted rules) (ca_tool_name (pc_action p)) = Allow \<Longrightarrow>
    turn_step rules st (ToolExecutionStarted p) (st\<lparr>ts_phase := Running p\<rparr>)"
| denied: "ts_phase st = Refused \<Longrightarrow> ts_pending st = call # calls \<Longrightarrow> refused_receipt call r \<Longrightarrow>
    tr_status r = Receipt_Denied \<Longrightarrow>
    turn_step rules st (ToolReceiptRecorded r) (st\<lparr>ts_phase := Idle False, ts_pending := calls\<rparr>)"
| executed: "ts_phase st = Running p \<Longrightarrow> ts_pending st = call # calls \<Longrightarrow> executed_receipt p r \<Longrightarrow>
    turn_step rules st (ToolReceiptRecorded r) (st\<lparr>ts_phase := Idle True, ts_pending := calls\<rparr>)"
| broken: "ts_phase st = Idle True \<Longrightarrow>
    turn_step rules st (HookFailed hook AfterTool reason) (st\<lparr>ts_phase := Broken\<rparr>)"
| failed: "ts_phase st \<in> {Vetoed, Requested, Broken} \<or> ts_phase st = Idle b \<and> ts_pending st = [] \<Longrightarrow>
    turn_step rules st (TurnFailed m) (st\<lparr>ts_phase := Closed (TurnFailed m)\<rparr>)"
| cancelled: "ts_phase st = Requested \<or> ts_phase st = Idle b \<and> ts_pending st = [] \<Longrightarrow>
    turn_step rules st TurnCancelled (st\<lparr>ts_phase := Closed TurnCancelled\<rparr>)"
| completed: "ts_phase st = Idle b \<Longrightarrow> ts_answer st = Some (content, False, EndTurn) \<Longrightarrow>
    turn_step rules st (TurnCompleted content) (st\<lparr>ts_phase := Closed (TurnCompleted content)\<rparr>)"

text \<open>A history of the turn: the events in order and the state they lead to.\<close>

inductive turn_run ::
  "turn_rules \<Rightarrow> runtime_event list \<Rightarrow> turn_state \<Rightarrow> bool"
  for rules :: turn_rules where
  none: "turn_run rules [] turn_start"
| more: "turn_run rules es st \<Longrightarrow> turn_step rules st e st' \<Longrightarrow> turn_run rules (es @ [e]) st'"

inductive_cases turn_step_ToolExecutionStarted: "turn_step rules st (ToolExecutionStarted p) st'"
inductive_cases turn_step_terminal:
  "turn_step rules st (TurnCompleted c) st'"
  "turn_step rules st (TurnFailed m) st'"
  "turn_step rules st TurnCancelled st'"

inductive_simps turn_run_Nil [simp]: "turn_run rules [] st"

section \<open>Receipts follow the announced calls\<close>

fun announced_by :: "runtime_event \<Rightarrow> tool_call list" where
  "announced_by (AssistantMessage _ calls _ _) = calls"
| "announced_by _ = []"

fun receipted_by :: "runtime_event \<Rightarrow> call_id list" where
  "receipted_by (ToolReceiptRecorded r) = [tr_call_id r]"
| "receipted_by _ = []"

definition announced :: "runtime_event list \<Rightarrow> tool_call list" where
  "announced es = concat (map announced_by es)"

definition receipted :: "runtime_event list \<Rightarrow> call_id list" where
  "receipted es = concat (map receipted_by es)"

lemma announced_simps [simp]:
  "announced [] = []" "announced (es @ [e]) = announced es @ announced_by e"
  by (simp_all add: announced_def)

lemma receipted_simps [simp]:
  "receipted [] = []" "receipted (es @ [e]) = receipted es @ receipted_by e"
  by (simp_all add: receipted_def)

lemma check_calls_distinct:
  "check_calls calls seen current = Inr () \<Longrightarrow>
   distinct (map tc_id calls) \<and> set (map tc_id calls) \<inter> (set seen \<union> set current) = {} \<and>
   (\<forall>call \<in> set calls. \<not> blank (tc_id call) \<and> \<not> blank (tc_name call))"
  by (induction calls seen current rule: check_calls.induct) (auto split: if_splits)

lemma validate_tool_calls_Inr:
  "validate_tool_calls calls seen = Inr () \<Longrightarrow>
   distinct (map tc_id calls) \<and> set (map tc_id calls) \<inter> set seen = {} \<and>
   (\<forall>call \<in> set calls. \<not> blank (tc_id call) \<and> \<not> blank (tc_name call))"
  using check_calls_distinct [of calls seen "[]"] by (simp add: validate_tool_calls_def)

text \<open>The invariant of a history: the announced calls are those with a receipt followed by the
  pending ones, and the call in progress is the first pending one.\<close>

fun in_progress :: "phase \<Rightarrow> prepared_tool_call option" where
  "in_progress (Prepared p) = Some p"
| "in_progress (Asked p) = Some p"
| "in_progress (Cleared p) = Some p"
| "in_progress (Running p) = Some p"
| "in_progress _ = None"

definition turn_inv :: "turn_rules \<Rightarrow> runtime_event list \<Rightarrow> turn_state \<Rightarrow> bool" where
  "turn_inv rules es st \<longleftrightarrow>
     ts_announced st = announced es \<and>
     map tc_id (announced es) = receipted es @ map tc_id (ts_pending st) \<and>
     (ts_phase st \<in> {Fresh, Opened, Vetoed, Compiled, Requested} \<longrightarrow> ts_pending st = []) \<and>
     (\<forall>p. in_progress (ts_phase st) = Some p \<longrightarrow>
        (\<exists>call calls. ts_pending st = call # calls \<and> pc_call_id p = tc_id call \<and>
           ca_tool_name (pc_action p) = tc_name call) \<and> ToolPrepared p \<in> set es \<and>
        projection_access (granted rules) (ca_tool_name (pc_action p)) \<noteq> Deny \<and> \<not> incomplete st) \<and>
     (\<forall>p. ts_phase st = Cleared p \<longrightarrow> ApprovalResolved (pc_call_id p) (Approved (pc_action p)) \<in> set es) \<and>
     ((\<exists>e. ts_phase st = Closed e) \<longleftrightarrow> list_ex terminal_event es)"

lemmas turn_inv_defs = turn_inv_def refused_receipt_def executed_receipt_def may_continue_def incomplete_def

lemma turn_step_inv:
  assumes "turn_step rules st e st'" and "turn_inv rules es st"
  shows "turn_inv rules (es @ [e]) st'"
  using assms(1)
proof cases
  case answered
  with assms(2) show ?thesis by (auto simp: turn_inv_def)
next
  case (running p)
  then have "in_progress (ts_phase st) = Some p" "\<nexists>e. ts_phase st = Closed e" by auto
  with running(1,2) assms(2) show ?thesis
    unfolding turn_inv_def by (simp add: incomplete_def)
qed (use assms(2) in \<open>auto simp: turn_inv_defs\<close>)

lemma turn_run_inv: "turn_run rules es st \<Longrightarrow> turn_inv rules es st"
proof (induction rule: turn_run.induct)
  case none
  then show ?case by (simp add: turn_inv_def turn_start_def)
qed (rule turn_step_inv)

lemma turn_run_distinct: "turn_run rules es st \<Longrightarrow> distinct (map tc_id (announced es))"
proof (induction rule: turn_run.induct)
  case none
  then show ?case by simp
next
  case (more es st e st')
  have a: "ts_announced st = announced es"
    using turn_run_inv [OF more(1)] by (simp add: turn_inv_def)
  from more(2,3) show ?case
  proof cases
    case (answered calls content stop usage)
    with more(3) a show ?thesis
      using validate_tool_calls_Inr [OF answered(4)] by auto
  qed (use more(3) in simp_all)
qed

lemma drop_rest: "call # calls = drop n xs \<Longrightarrow> calls = drop (Suc n) xs"
  by (metis drop_Suc list.sel(3) tl_drop)

lemma turn_run_pending: "turn_run rules es st \<Longrightarrow> ts_pending st = drop (length (receipted es)) (announced es)"
proof (induction rule: turn_run.induct)
  case none
  then show ?case by (simp add: turn_start_def)
next
  case (more es st e st')
  have inv: "turn_inv rules es st" by (rule turn_run_inv [OF more(1)])
  from more(2,3) show ?case
  proof cases
    case (answered calls content stop usage)
    then have "ts_pending st = []" using inv by (simp add: turn_inv_def)
    then have "map tc_id (announced es) = receipted es" using inv by (simp add: turn_inv_def)
    then have "length (receipted es) = length (announced es)" by (metis length_map)
    with answered show ?thesis by simp
  qed (use more(3) in \<open>auto dest: drop_rest\<close>)
qed

text \<open>So the receipts of a history are a prefix of the announced calls, without repetition.\<close>

lemma turn_run_receipts:
  assumes "turn_run rules es st"
  shows "map tc_id (announced es) = receipted es @ map tc_id (ts_pending st)" and "distinct (receipted es)"
  using turn_run_inv [OF assms] turn_run_distinct [OF assms] by (simp_all add: turn_inv_def)

section \<open>What precedes an execution\<close>

lemma turn_run_prefix:
  "turn_run rules (es @ [e]) st' \<Longrightarrow> \<exists>st. turn_run rules es st \<and> turn_step rules st e st'"
  by (erule turn_run.cases) auto

lemma turn_run_take: "turn_run rules (xs @ ys) st \<Longrightarrow> \<exists>st'. turn_run rules xs st'"
proof (induction ys arbitrary: st rule: rev_induct)
  case Nil
  then show ?case by auto
next
  case (snoc y ys)
  then obtain st' where "turn_run rules (xs @ ys) st'"
    using turn_run_prefix [of rules "xs @ ys" y st] by auto
  then show ?case by (rule snoc.IH)
qed

lemma turn_run_split:
  "turn_run rules (xs @ e # ys) st \<Longrightarrow>
   \<exists>st1 st2. turn_run rules xs st1 \<and> turn_step rules st1 e st2 \<and> turn_run rules (xs @ [e]) st2"
  using turn_run_take [of rules "xs @ [e]" ys st] turn_run_prefix [of rules xs e] by fastforce

text \<open>An execution is gated: the call was announced by a complete response and has no receipt
  yet, exactly this action was prepared for it, its tool's access is \<open>Allow\<close>, or \<open>Ask\<close> and
  exactly this action was approved.\<close>

definition permitted ::
  "turn_rules \<Rightarrow> runtime_event list \<Rightarrow> prepared_tool_call \<Rightarrow> bool" where
  "permitted rules before p \<longleftrightarrow>
     (\<exists>call \<in> set (announced before). tc_id call = pc_call_id p \<and>
        tc_name call = ca_tool_name (pc_action p)) \<and>
     ToolPrepared p \<in> set before \<and> pc_call_id p \<notin> set (receipted before) \<and>
     (projection_access (granted rules) (ca_tool_name (pc_action p)) = Allow \<or>
      projection_access (granted rules) (ca_tool_name (pc_action p)) = Ask \<and>
      ApprovalResolved (pc_call_id p) (Approved (pc_action p)) \<in> set before)"

lemma executions_permitted:
  assumes "turn_run rules (xs @ ToolExecutionStarted p # ys) st"
  shows "permitted rules xs p"
proof -
  obtain st1 st2 where run: "turn_run rules xs st1"
    and step: "turn_step rules st1 (ToolExecutionStarted p) st2"
    using turn_run_split [OF assms] by blast
  note inv = turn_run_inv [OF run, unfolded turn_inv_def]
  have phase: "ts_phase st1 = Cleared p \<or>
      ts_phase st1 = Prepared p \<and> projection_access (granted rules) (ca_tool_name (pc_action p)) = Allow"
    using step by (rule turn_step_ToolExecutionStarted)
  then have "in_progress (ts_phase st1) = Some p" by auto
  with inv obtain call calls where pending: "ts_pending st1 = call # calls" "pc_call_id p = tc_id call"
      "ca_tool_name (pc_action p) = tc_name call" "ToolPrepared p \<in> set xs"
      "projection_access (granted rules) (ca_tool_name (pc_action p)) \<noteq> Deny" by blast
  have "map tc_id (announced xs) = receipted xs @ tc_id call # map tc_id calls"
    using turn_run_receipts(1) [OF run] pending(1) by simp
  moreover have "distinct (map tc_id (announced xs))" by (rule turn_run_distinct [OF run])
  ultimately have "tc_id call \<notin> set (receipted xs)" by auto
  moreover have "call \<in> set (announced xs)"
    using turn_run_pending [OF run] pending(1) by (metis in_set_dropD list.set_intros(1))
  moreover have "projection_access (granted rules) (ca_tool_name (pc_action p)) = Allow \<or>
      projection_access (granted rules) (ca_tool_name (pc_action p)) = Ask \<and>
      ApprovalResolved (pc_call_id p) (Approved (pc_action p)) \<in> set xs"
    using phase inv pending(5) by (cases "projection_access (granted rules) (ca_tool_name (pc_action p))") auto
  ultimately show ?thesis
    using pending(2-4) by (auto simp: permitted_def)
qed

section \<open>Executions and endings\<close>

fun executed_by :: "runtime_event \<Rightarrow> call_id list" where
  "executed_by (ToolExecutionStarted p) = [pc_call_id p]"
| "executed_by _ = []"

definition executed :: "runtime_event list \<Rightarrow> call_id list" where
  "executed es = concat (map executed_by es)"

lemma executed_simps [simp]:
  "executed [] = []" "executed (es @ [e]) = executed es @ executed_by e"
  by (simp_all add: executed_def)

text \<open>No call is executed twice: a started call has its receipt before the next one starts.\<close>

lemma turn_run_executed:
  "turn_run rules es st \<Longrightarrow> distinct (executed es) \<and>
   set (executed es) \<subseteq> set (receipted es) \<union>
     (case ts_phase st of Running p \<Rightarrow> {pc_call_id p} | _ \<Rightarrow> {})"
proof (induction rule: turn_run.induct)
  case none
  then show ?case by simp
next
  case (more es st e st')
  from more(2) show ?case
  proof cases
    case (running p)
    have "turn_run rules (es @ ToolExecutionStarted p # []) st'"
      using turn_run.more [OF more(1,2)] running by simp
    then have "pc_call_id p \<notin> set (receipted es)"
      using executions_permitted [of rules es p "[]"] by (simp add: permitted_def)
    moreover have "set (executed es) \<subseteq> set (receipted es)"
      using more(3) running by (auto split: phase.splits)
    ultimately show ?thesis using more(3) running by auto
  next
    case (executed p call calls r)
    with more(3) show ?thesis by (auto simp: executed_receipt_def)
  qed (use more(3) in \<open>auto split: phase.splits\<close>)
qed

text \<open>A receipt that reports anything but a refusal comes right after its execution started.\<close>

lemma turn_run_running:
  "turn_run rules es st \<Longrightarrow> ts_phase st = Running p \<Longrightarrow> \<exists>xs. es = xs @ [ToolExecutionStarted p]"
proof (induction rule: turn_run.induct)
  case none
  then show ?case by (simp add: turn_start_def)
next
  case (more es st e st')
  from more(2) show ?case by cases (use more(4) in \<open>auto split: if_splits\<close>)
qed

lemma effect_receipts:
  assumes "turn_run rules (xs @ ToolReceiptRecorded r # ys) st"
    and "tr_status r \<in> {Receipt_Succeeded, Receipt_Unknown} \<or> tr_output r \<noteq> None"
  shows "\<exists>zs p. xs = zs @ [ToolExecutionStarted p] \<and> executed_receipt p r"
proof -
  obtain st1 st2 where run: "turn_run rules xs st1"
    and step: "turn_step rules st1 (ToolReceiptRecorded r) st2"
    using turn_run_split [OF assms(1)] by blast
  from step show ?thesis
  proof cases
    case (executed p call calls)
    with turn_run_running [OF run] show ?thesis by blast
  qed (use assms(2) in \<open>auto simp: refused_receipt_def\<close>)
qed

text \<open>A response without calls leaves nothing pending.\<close>

lemma turn_run_answer:
  "turn_run rules es st \<Longrightarrow> ts_answer st = Some (content, False, stop) \<Longrightarrow> ts_pending st = []"
proof (induction arbitrary: content stop rule: turn_run.induct)
  case none
  then show ?case by (simp add: turn_start_def)
next
  case (more es st e st')
  from more(2) show ?case by cases (use more(3,4) in auto)
qed

text \<open>A terminal event is the last one, and leaves calls without a receipt only after an
  after-tool hook rejected.\<close>

lemma turn_run_closed: "turn_run rules es st \<Longrightarrow> ts_phase st = Closed e \<Longrightarrow> \<exists>xs. es = xs @ [e] \<and> terminal_event e"
proof (induction rule: turn_run.induct)
  case none
  then show ?case by (simp add: turn_start_def)
next
  case (more es st e' st')
  from more(2) show ?case by cases (use more(4) in \<open>auto split: if_splits\<close>)
qed

lemma turn_run_terminal:
  "turn_run rules (xs @ [e]) st \<Longrightarrow> \<not> list_ex terminal_event xs"
proof -
  assume "turn_run rules (xs @ [e]) st"
  then obtain st1 where run: "turn_run rules xs st1" and step: "turn_step rules st1 e st"
    using turn_run_prefix by blast
  from step have "\<nexists>e. ts_phase st1 = Closed e" by cases auto
  then show ?thesis using turn_run_inv [OF run] by (simp add: turn_inv_def)
qed

lemma turn_run_pending_closed:
  "turn_run rules es st \<Longrightarrow>
   (ts_phase st = Broken \<longrightarrow> (\<exists>h m. HookFailed h AfterTool m \<in> set es)) \<and>
   (\<forall>e. ts_phase st = Closed e \<longrightarrow> ts_pending st = [] \<or>
     (\<exists>h m f. HookFailed h AfterTool m \<in> set es \<and> e = TurnFailed f))"
proof (induction rule: turn_run.induct)
  case none
  then show ?case by (simp add: turn_start_def)
next
  case (more es st e st')
  note inv = turn_run_inv [OF more(1), unfolded turn_inv_def]
  from more(2) show ?case
  proof cases
    case (failed b m)
    then consider "ts_phase st = Broken" | "ts_pending st = []" using inv by auto
    then show ?thesis
    proof cases
      case 1
      with more(3) obtain h n where "HookFailed h AfterTool n \<in> set es" by blast
      with failed show ?thesis by auto
    qed (use failed in auto)
  next
    case (cancelled b)
    then have "ts_pending st = []" using inv by auto
    with cancelled show ?thesis by simp
  next
    case (completed b content)
    then have "ts_pending st = []"
      using turn_run_answer [OF more(1)] by simp
    with completed show ?thesis by simp
  qed auto
qed

text \<open>The model is asked at most as often as the limit allows.\<close>

fun is_request :: "runtime_event \<Rightarrow> bool" where
  "is_request (ModelRequestStarted _) = True"
| "is_request _ = False"

lemma turn_run_requests:
  "turn_run rules es st \<Longrightarrow>
   length (filter is_request es) \<le> iteration_limit rules \<and>
   (ts_phase st \<in> {Compiled, Requested} \<longrightarrow> ts_iteration st < iteration_limit rules) \<and>
   (ts_phase st = Requested \<longrightarrow> length (filter is_request es) \<le> ts_iteration st + 1) \<and>
   ((\<exists>e. ts_phase st = Closed e) \<or> ts_phase st = Requested \<or> length (filter is_request es) \<le> ts_iteration st)"
proof (induction rule: turn_run.induct)
  case none
  then show ?case by (simp add: turn_start_def)
next
  case (more es st e st')
  from more(2) show ?case by cases (use more(3) in auto)
qed

end
