(* ===== verification/TurnRefinement.thy ===== *)
theory TurnRefinement
  imports TurnSpec
begin

text \<open>
  The runtime refines the contract of a turn: whatever the model, the tools, the approvals, the
  hooks, the cancellation token and the store do, the events that a turn appends to the thread's
  log form a history of \<open>TurnSpec\<close>, and the way the turn returns agrees with its last event.
\<close>

section \<open>Assertions on the log\<close>

definition in_turn ::
  "turn_rules \<Rightarrow> turn_id \<Rightarrow> event_envelope list \<Rightarrow> event_envelope list \<Rightarrow> turn_state \<Rightarrow> bool" where
  "in_turn rules u L es st \<longleftrightarrow>
     (\<exists>vs. es = L @ vs \<and> (\<forall>v \<in> set vs. ev_turn_id v = Some u) \<and> turn_run rules (map ev_event vs) st)"

lemma in_turn_start: "in_turn rules u L L turn_start"
  by (simp add: in_turn_def)

lemma in_turn_step:
  "in_turn rules u L es st \<Longrightarrow> ev_turn_id v = Some u \<Longrightarrow> turn_step rules st (ev_event v) st' \<Longrightarrow>
   in_turn rules u L (es @ [v]) st'"
  unfolding in_turn_def by (elim exE conjE, rule_tac x = "vs @ [v]" in exI) (auto intro: turn_run.more)

definition store_failure :: "runtime_error \<Rightarrow> bool" where
  "store_failure x \<longleftrightarrow> (\<exists>e. x = Runtime_Store e) \<or> (\<exists>c n e. x = ReceiptPersistenceUnknown c n e)"

lemma store_failure_intros [intro, simp]:
  "store_failure (Runtime_Store e)" "store_failure (ReceiptPersistenceUnknown c n e)"
  by (simp_all add: store_failure_def)

text \<open>How an error relates to the terminal event that was recorded for it.\<close>

fun failure_texts :: "turn_id \<Rightarrow> runtime_error \<Rightarrow> string set" where
  "failure_texts u (Runtime_Context e) = {context_error_text e}"
| "failure_texts u (Runtime_Model e) = {model_error_text e}"
| "failure_texts u (Runtime_Hook e) = {hook_error_text e}"
| "failure_texts u (InvalidModelResponse u' reason) =
     (if u' = u then {reason, runtime_error_text (InvalidModelResponse u' reason)} else {})"
| "failure_texts u (IncompleteModelResponse u' stop) =
     (if u' = u then {runtime_error_text (IncompleteModelResponse u' stop)} else {})"
| "failure_texts u (MaxModelIterations u' n) =
     (if u' = u then {''maximum model iterations ('' @ dec n @ '') exceeded''} else {})"
| "failure_texts u _ = {}"

definition ended_by :: "turn_id \<Rightarrow> runtime_error \<Rightarrow> runtime_event \<Rightarrow> bool" where
  "ended_by u x e \<longleftrightarrow>
     (case e of
        TurnFailed m \<Rightarrow> m \<in> failure_texts u x
      | TurnCancelled \<Rightarrow> x = Runtime_Cancelled u
      | _ \<Rightarrow> False)"

definition ended ::
  "turn_rules \<Rightarrow> turn_id \<Rightarrow> event_envelope list \<Rightarrow> event_envelope list \<Rightarrow> runtime_event \<Rightarrow> bool" where
  "ended rules u L es e \<longleftrightarrow>
     (\<exists>st. in_turn rules u L es st \<and> ts_phase st = Closed e)"

definition halted ::
  "turn_rules \<Rightarrow> turn_id \<Rightarrow> event_envelope list \<Rightarrow> runtime_error \<Rightarrow> event_envelope list \<Rightarrow> bool" where
  "halted rules u L x es \<longleftrightarrow>
     store_failure x \<and> (\<exists>st. in_turn rules u L es st) \<or> (\<exists>e. ended rules u L es e \<and> ended_by u x e)"

lemma halted_ended: "ended rules u L es e \<Longrightarrow> ended_by u x e \<Longrightarrow> halted rules u L x es"
  by (auto simp: halted_def)

text \<open>The turn is in a state with a property; in such a state, in particular in a given phase with
  given pending calls, last answer, iteration and identifiers seen.\<close>

definition at_turn ::
  "turn_rules \<Rightarrow> turn_id \<Rightarrow> event_envelope list \<Rightarrow> (turn_state \<Rightarrow> bool) \<Rightarrow>
   event_envelope list \<Rightarrow> bool" where
  "at_turn rules u L C es \<longleftrightarrow> (\<exists>st. in_turn rules u L es st \<and> C st)"

definition now ::
  "phase \<Rightarrow> tool_call list \<Rightarrow> (string \<times> bool \<times> stop_reason) option \<Rightarrow> nat \<Rightarrow> call_id list \<Rightarrow>
   turn_state \<Rightarrow> bool" where
  "now ph pend ans i seen st \<longleftrightarrow>
     ts_phase st = ph \<and> ts_pending st = pend \<and> ts_answer st = ans \<and> ts_iteration st = i \<and>
     set seen = tc_id ` set (ts_announced st)"

definition resting ::
  "tool_call list \<Rightarrow> (string \<times> bool \<times> stop_reason) option \<Rightarrow> nat \<Rightarrow> call_id list \<Rightarrow> turn_state \<Rightarrow> bool"
where
  "resting pend ans i seen st \<longleftrightarrow> (\<exists>b. now (Idle b) pend ans i seen st)"

definition continues :: "(string \<times> bool \<times> stop_reason) option \<Rightarrow> bool" where
  "continues ans \<longleftrightarrow> (case ans of None \<Rightarrow> True | Some (_, calls, stop) \<Rightarrow> calls \<and> stop = ToolUse)"

lemma now_may_continue: "now (Idle b) [] ans i seen st \<Longrightarrow> continues ans \<Longrightarrow> may_continue st"
  by (simp add: now_def may_continue_def continues_def)

lemma now_complete: "now ph pend (Some (c, True, ToolUse)) i seen st \<Longrightarrow> \<not> incomplete st"
  by (simp add: now_def incomplete_def)

lemma halted_at: "at_turn rules u L C es \<Longrightarrow> store_failure x \<Longrightarrow> halted rules u L x es"
  by (auto simp: at_turn_def halted_def)

lemma check_calls_cong:
  "set seen = set seen' \<Longrightarrow> check_calls calls seen current = check_calls calls seen' current"
  by (induction calls seen current rule: check_calls.induct) auto

lemma validate_tool_calls_cong:
  "set seen = set seen' \<Longrightarrow> validate_tool_calls calls seen = validate_tool_calls calls seen'"
  unfolding validate_tool_calls_def by (rule check_calls_cong)

section \<open>How a run ends\<close>

definition rules_of :: "('s, 'w) runtime \<Rightarrow> turn_rules" where
  "rules_of rt =
     \<lparr>granted = capabilities rt, iteration_limit = max_model_iterations (rt_config rt)\<rparr>"

lemma rules_of_simps [simp]:
  "granted (rules_of rt) = capabilities rt"
  "iteration_limit (rules_of rt) = max_model_iterations (rt_config rt)"
  by (simp_all add: rules_of_def)

text \<open>The value a completed turn returns.\<close>

definition finished :: "thread_id \<Rightarrow> turn_id \<Rightarrow> nat \<Rightarrow> turn_outcome \<Rightarrow> turn_state \<Rightarrow> bool" where
  "finished t u maximum out st \<longleftrightarrow>
     ts_phase st = Closed (TurnCompleted (to_content out)) \<and> to_thread_id out = t \<and> to_turn_id out = u \<and>
     to_model_iterations out = ts_iteration st \<and> ts_iteration st \<le> maximum"

definition repaired :: "event_envelope list \<Rightarrow> event_envelope list \<Rightarrow> bool" where
  "repaired L es \<longleftrightarrow>
     (\<exists>vs. es = L @ vs \<and> map step_of vs = recovery_plan (scan_envelopes L recovery_start))"

definition partly_repaired :: "event_envelope list \<Rightarrow> event_envelope list \<Rightarrow> bool" where
  "partly_repaired L es \<longleftrightarrow>
     (\<exists>vs rest. es = L @ vs \<and> recovery_plan (scan_envelopes L recovery_start) = map step_of vs @ rest)"

lemma repaired_partly: "repaired L es \<Longrightarrow> partly_repaired L es"
  unfolding repaired_def partly_repaired_def by (elim exE, intro exI [of _ "[]"] exI) auto

lemma partly_repaired_refl: "partly_repaired L L"
  by (auto simp: partly_repaired_def)

definition unused_turn :: "turn_id \<Rightarrow> event_envelope list \<Rightarrow> bool" where
  "unused_turn u es \<longleftrightarrow> (\<forall>v \<in> set es. ev_turn_id v \<noteq> Some u)"

text \<open>How a run that started on the log \<open>L\<close> ends: refused before any event, stopped within the
  recovery, or within the turn.\<close>

definition turn_ended ::
  "('s, 'w) runtime \<Rightarrow> thread_id \<Rightarrow> turn_id \<Rightarrow> event_envelope list \<Rightarrow> runtime_error \<Rightarrow> event_envelope list \<Rightarrow> bool" where
  "turn_ended rt t u L x es \<longleftrightarrow>
     es = L \<and> x \<in> {UnknownThread t, ConcurrentTurn t, DuplicateTurn t u} \<or>
     partly_repaired L es \<and> store_failure x \<or>
     unused_turn u L \<and> (\<exists>M. repaired L M \<and> halted (rules_of rt) u M x es)"

definition turn_returned ::
  "('s, 'w) runtime \<Rightarrow> thread_id \<Rightarrow> turn_id \<Rightarrow> event_envelope list \<Rightarrow> turn_outcome \<Rightarrow> event_envelope list \<Rightarrow> bool" where
  "turn_returned rt t u L out es \<longleftrightarrow> unused_turn u L \<and>
     (\<exists>M. repaired L M \<and>
        at_turn (rules_of rt) u M (finished t u (max_model_iterations (rt_config rt)) out) es)"

section \<open>A runtime on a store\<close>

locale served_runtime = thread_log "rt_append rt" "rt_load rt" log
  for rt :: "('s, 'w) runtime" and log :: "thread_id \<Rightarrow> 's \<Rightarrow> event_envelope list"
begin

text \<open>An assertion on the thread's log, as one on the state.\<close>

definition on_log :: "thread_id \<Rightarrow> (event_envelope list \<Rightarrow> bool) \<Rightarrow> ('s, 'w) rstate \<Rightarrow> bool" where
  "on_log t P s \<longleftrightarrow> P (log t (r_store s))"

lemma triple_on_env [wp]:
  "triple (on_log t P) (on_env m) (\<lambda>_. on_log t P) (\<lambda>_. on_log t P)"
  by (rule tripleI) (auto simp: on_env_def zoom_def on_log_def split: prod.splits)

lemma triple_notify: "triple (on_log t P) (notify rt v) (\<lambda>_. on_log t P) E"
  by (rule tripleI) (auto simp: notify_def writes_def on_log_def)

lemma triple_append_event [wp]:
  assumes good: "\<And>es v. P es \<Longrightarrow> ev_turn_id v = u \<Longrightarrow> ev_event v = e \<Longrightarrow> Q (es @ [v])"
    and bad: "\<And>es x. P es \<Longrightarrow> E (Runtime_Store x) es"
  shows "triple (on_log t P) (append_event rt t u e) (\<lambda>_. on_log t Q) (\<lambda>x. on_log t (E x))"
  unfolding append_event_def
proof (rule triple_and_then)
  show "triple (on_log t P) (map_err Runtime_Store (on_store (rt_append rt t u e))) (\<lambda>_. on_log t Q)
      (\<lambda>x. on_log t (E x))"
  proof (rule triple_map_err, rule tripleI)
    show "on_log t Q s'" if "on_log t P s" "on_store (rt_append rt t u e) s = (Inr v, s')" for s v s'
      using that good log_append by (auto simp: on_log_def on_store_def zoom_def split: prod.splits)
    show "on_log t (E (Runtime_Store x)) s'"
      if "on_log t P s" "on_store (rt_append rt t u e) s = (Inl x, s')" for s x s'
      using that bad log_failed by (auto simp: on_log_def on_store_def zoom_def split: prod.splits)
  qed
  show "triple (on_log t Q) (and_then (notify rt v) (\<lambda>_. ok v)) (\<lambda>_. on_log t Q) (\<lambda>x. on_log t (E x))"
    for v
    by (rule triple_and_then [OF triple_notify triple_okI])
qed

lemma triple_load_events:
  assumes "\<And>es. P es \<Longrightarrow> Q es es" and "\<And>es x. P es \<Longrightarrow> E (Runtime_Store x) es"
  shows "triple (on_log t P) (load_events rt t) (\<lambda>es. on_log t (Q es)) (\<lambda>x. on_log t (E x))"
  unfolding load_events_def
  by (rule triple_map_err, rule tripleI)
    (use assms log_load in \<open>auto simp: on_log_def on_store_def zoom_def load_act_def split: prod.splits\<close>)

text \<open>Triples about the events of a turn: \<open>turn_triple\<close> for an action that returns normally in a
  state with a property or halts the turn.\<close>

definition turn_triple ::
  "turn_rules \<Rightarrow> turn_id \<Rightarrow> thread_id \<Rightarrow> event_envelope list \<Rightarrow> (turn_state \<Rightarrow> bool) \<Rightarrow>
   ('s, 'w, 'a) ract \<Rightarrow> ('a \<Rightarrow> turn_state \<Rightarrow> bool) \<Rightarrow> bool" where
  "turn_triple rules u t L C m D \<longleftrightarrow>
     triple (on_log t (at_turn rules u L C)) m (\<lambda>a. on_log t (at_turn rules u L (D a)))
       (\<lambda>x. on_log t (halted rules u L x))"

lemma turn_and_then:
  "turn_triple rules u t L C m D \<Longrightarrow> (\<And>a. turn_triple rules u t L (D a) (k a) F) \<Longrightarrow>
   turn_triple rules u t L C (and_then m k) F"
  unfolding turn_triple_def by (rule triple_and_then)

lemma turn_ok: "(\<And>st. C st \<Longrightarrow> D a st) \<Longrightarrow> turn_triple rules u t L C (ok a) D"
  unfolding turn_triple_def by (rule triple_okI) (auto simp: on_log_def at_turn_def)

lemma turn_weaken:
  "turn_triple rules u t L C m D \<Longrightarrow> (\<And>st. C' st \<Longrightarrow> C st) \<Longrightarrow> (\<And>a st. D a st \<Longrightarrow> D' a st) \<Longrightarrow>
   turn_triple rules u t L C' m D'"
  unfolding turn_triple_def
  by (erule triple_weaken) (auto simp: on_log_def at_turn_def)

lemma turn_pre: "turn_triple rules u t L C m D \<Longrightarrow> (\<And>st. C' st \<Longrightarrow> C st) \<Longrightarrow> turn_triple rules u t L C' m D"
  by (rule turn_weaken)

lemma at_turn_exists: "at_turn rules u L (\<lambda>st. \<exists>b. C b st) es \<longleftrightarrow> (\<exists>b. at_turn rules u L (C b) es)"
  by (auto simp: at_turn_def)

lemma turn_exists:
  "(\<And>b. turn_triple rules u t L (C b) m D) \<Longrightarrow> turn_triple rules u t L (\<lambda>st. \<exists>b. C b st) m D"
  unfolding turn_triple_def on_log_def at_turn_exists by (rule triple_exists)

lemma turn_conj:
  "(B \<Longrightarrow> turn_triple rules u t L C m D) \<Longrightarrow> turn_triple rules u t L (\<lambda>st. B \<and> C st) m D"
  by (cases B) (simp_all add: turn_triple_def triple_def on_log_def at_turn_def)

text \<open>A call into the environment leaves the log alone.\<close>

lemma turn_env:
  "(\<And>r. turn_triple rules u t L C (k r) D) \<Longrightarrow> turn_triple rules u t L C (attempt (on_env m) k) D"
  unfolding turn_triple_def
  by (rule triple_attempt [where R = "\<lambda>_. on_log t (at_turn rules u L C)"]) (rule triple_on_env)

lemma turn_poll:
  "(\<And>c. turn_triple rules u t L C (k c) D) \<Longrightarrow> turn_triple rules u t L C (and_then (is_cancelled rt) k) D"
  unfolding turn_triple_def
proof (rule triple_and_then [where R = "\<lambda>_. on_log t (at_turn rules u L C)"])
  show "triple (on_log t (at_turn rules u L C)) (is_cancelled rt) (\<lambda>_. on_log t (at_turn rules u L C))
      (\<lambda>x. on_log t (halted rules u L x))"
    by (rule tripleI)
      (auto simp: is_cancelled_def on_env_def zoom_def on_log_def split: prod.splits)
qed

text \<open>Recording an event that the contract allows.\<close>

lemma at_turn_step:
  assumes "at_turn rules u L C es" and "\<And>st. C st \<Longrightarrow> \<exists>st'. turn_step rules st (ev_event v) st' \<and> D st'"
    and "ev_turn_id v = Some u"
  shows "at_turn rules u L D (es @ [v])"
  using assms in_turn_step unfolding at_turn_def by blast

lemma turn_append:
  assumes "\<And>st. C st \<Longrightarrow> \<exists>st'. turn_step rules st e st' \<and> D st'"
  shows "turn_triple rules u t L C (append_event rt t (Some u) e) (\<lambda>_. D)"
  unfolding turn_triple_def
proof (rule triple_append_event [where Q = "at_turn rules u L D" and E = "halted rules u L"])
  show "at_turn rules u L D (es @ [v])"
    if "at_turn rules u L C es" "ev_turn_id v = Some u" "ev_event v = e" for es v
    using that assms at_turn_step [of rules u L C es v D] by simp
  show "halted rules u L (Runtime_Store x) es" if "at_turn rules u L C es" for es x
    using that by (rule halted_at) (simp add: store_failure_def)
qed

text \<open>Recording the terminal event and returning the error that goes with it.\<close>

lemma turn_end:
  assumes "\<And>st. C st \<Longrightarrow> \<exists>st'. turn_step rules st e st' \<and> ts_phase st' = Closed e" and "ended_by u x e"
  shows "turn_triple rules u t L C (and_then (append_event rt t (Some u) e) (\<lambda>_. err x)) D"
  unfolding turn_triple_def
proof (rule triple_and_then)
  show "triple (on_log t (at_turn rules u L C)) (append_event rt t (Some u) e)
      (\<lambda>_. on_log t (\<lambda>es. ended rules u L es e)) (\<lambda>x. on_log t (halted rules u L x))"
  proof (rule triple_append_event [where Q = "\<lambda>es. ended rules u L es e" and E = "halted rules u L"])
    show "ended rules u L (es @ [v]) e"
      if "at_turn rules u L C es" "ev_turn_id v = Some u" "ev_event v = e" for es v
      using that assms(1) at_turn_step [of rules u L C es v "\<lambda>st. ts_phase st = Closed e"]
      by (simp add: ended_def at_turn_def)
    show "halted rules u L (Runtime_Store x) es" if "at_turn rules u L C es" for es x
      using that by (rule halted_at) (simp add: store_failure_def)
  qed
  show "triple (on_log t (\<lambda>es. ended rules u L es e)) (err x) (\<lambda>a. on_log t (at_turn rules u L (D a)))
      (\<lambda>x. on_log t (halted rules u L x))" for a
    by (rule triple_errI) (use assms(2) in \<open>auto simp: on_log_def intro: halted_ended\<close>)
qed

lemma turn_fail_with:
  assumes "\<And>st. C st \<Longrightarrow> \<exists>st'. turn_step rules st (TurnFailed m) st' \<and> ts_phase st' = Closed (TurnFailed m)"
    and "m \<in> failure_texts u x"
  shows "turn_triple rules u t L C (fail_with rt t u m x) D"
proof -
  have "ended_by u x (TurnFailed m)"
    using assms(2) by (simp add: ended_by_def)
  then show ?thesis
    unfolding fail_with_def fail_turn_def and_then_assoc and_then_ok
    by (rule turn_end [rotated]) (rule assms(1))
qed

lemma turn_record_receipt:
  assumes "\<And>st. C st \<Longrightarrow> \<exists>st'. turn_step rules st (ToolReceiptRecorded r) st' \<and> D st'"
  shows "turn_triple rules u t L C (record_receipt rt t u r crossed) (\<lambda>_. D)"
  unfolding turn_triple_def record_receipt_def
proof (rule triple_attempt [where R = "\<lambda>q s. case q of
      Inr _ \<Rightarrow> on_log t (at_turn rules u L D) s
    | Inl x \<Rightarrow> (\<exists>e. x = Runtime_Store e) \<and> on_log t (at_turn rules u L C) s"])
  show "triple (on_log t (at_turn rules u L C)) (append_event rt t (Some u) (ToolReceiptRecorded r))
      (\<lambda>v s. case Inr v of Inr _ \<Rightarrow> on_log t (at_turn rules u L D) s
        | Inl x \<Rightarrow> (\<exists>e. x = Runtime_Store e) \<and> on_log t (at_turn rules u L C) s)
      (\<lambda>x s. case Inl x of Inr _ \<Rightarrow> on_log t (at_turn rules u L D) s
        | Inl x \<Rightarrow> (\<exists>e. x = Runtime_Store e) \<and> on_log t (at_turn rules u L C) s)"
    by (rule triple_weaken [OF triple_append_event [where P = "at_turn rules u L C" and
          Q = "at_turn rules u L D" and E = "\<lambda>x es. (\<exists>e. x = Runtime_Store e) \<and> at_turn rules u L C es"]])
      (use assms at_turn_step [of rules u L C _ _ D] in \<open>auto simp: on_log_def\<close>)
  show "triple (\<lambda>s. case q of Inr _ \<Rightarrow> on_log t (at_turn rules u L D) s
        | Inl x \<Rightarrow> (\<exists>e. x = Runtime_Store e) \<and> on_log t (at_turn rules u L C) s)
      (case q of Inr _ \<Rightarrow> ok () | Inl e \<Rightarrow>
        (case e of Runtime_Store source \<Rightarrow>
           if crossed then err (ReceiptPersistenceUnknown (tr_call_id r) (tr_tool_name r) source) else err e
         | _ \<Rightarrow> err e))
      (\<lambda>_. on_log t (at_turn rules u L D)) (\<lambda>x. on_log t (halted rules u L x))" for q
  proof (cases q)
    case (Inr v)
    then show ?thesis by (auto intro: triple_okI)
  next
    case (Inl x)
    then show ?thesis
      by (cases x) (simp_all add: triple_def err_def on_log_def halted_at [where C = C])
  qed
qed

section \<open>The operations refine the contract\<close>

lemma step_refused:
  "resting (call # calls) ans i seen st \<Longrightarrow> refused_receipt call r \<Longrightarrow>
   \<exists>st'. turn_step rules st (ToolReceiptRecorded r) st' \<and> resting calls ans i seen st'"
  unfolding resting_def now_def
  by (elim exE conjE, intro exI conjI, rule turn_step.refused) auto

lemma refused_denied [simp]: "refused_receipt call (receipt_denied (tc_id call) (tc_name call) a reason)"
  by (simp add: refused_receipt_def receipt_denied_def)

lemma refused_malformed [simp]: "refused_receipt call (receipt_malformed call reason)"
  by (simp add: refused_receipt_def receipt_malformed_def)

lemma turn_deny_calls:
  "turn_triple rules u t L (resting calls ans i seen) (deny_calls rt t u reason calls) (\<lambda>_. resting [] ans i seen)"
proof (induction calls)
  case Nil
  then show ?case by (simp add: turn_ok)
next
  case (Cons call calls)
  have "turn_triple rules u t L (resting (call # calls) ans i seen)
      (record_receipt rt t u (receipt_denied (tc_id call) (tc_name call) None reason) False)
      (\<lambda>_. resting calls ans i seen)"
    by (rule turn_record_receipt) (erule step_refused, rule refused_denied)
  then show ?case by (simp add: turn_and_then Cons.IH)
qed

lemma step_cancelled:
  "resting [] ans i seen st \<or> now Requested [] ans i seen st \<Longrightarrow>
   \<exists>st'. turn_step rules st TurnCancelled st' \<and> ts_phase st' = Closed TurnCancelled"
  unfolding resting_def now_def
  by (elim disjE exE conjE; intro exI conjI, rule turn_step.cancelled) auto

lemma turn_cancel:
  "turn_triple rules u t L (resting calls ans i seen) (cancel_turn rt t u calls) D"
  unfolding cancel_turn_def
  by (rule turn_and_then [OF turn_deny_calls], rule turn_end)
    (auto simp: ended_by_def intro: step_cancelled)

lemma turn_cancel_request:
  "turn_triple rules u t L (now Requested [] ans i seen) (cancel_turn rt t u []) D"
  unfolding cancel_turn_def deny_calls.simps and_then_ok
  by (rule turn_end) (auto simp: ended_by_def intro: step_cancelled)

lemma turn_refuse:
  "refused_receipt call r \<Longrightarrow>
   turn_triple rules u t L (resting (call # calls) ans i seen) (refuse_call rt t u r) (\<lambda>_. resting calls ans i seen)"
  unfolding refuse_call_def
  by (rule turn_and_then [OF turn_record_receipt], erule step_refused, assumption) (simp add: turn_ok)

text \<open>From here on a call is handled that a complete response announced.\<close>

abbreviation handling :: "phase \<Rightarrow> tool_call list \<Rightarrow> string \<Rightarrow> nat \<Rightarrow> call_id list \<Rightarrow> turn_state \<Rightarrow> bool" where
  "handling ph calls c i seen \<equiv> now ph calls (Some (c, True, ToolUse)) i seen"

abbreviation waiting :: "tool_call list \<Rightarrow> string \<Rightarrow> nat \<Rightarrow> call_id list \<Rightarrow> turn_state \<Rightarrow> bool" where
  "waiting calls c i seen \<equiv> resting calls (Some (c, True, ToolUse)) i seen"

lemma turn_deny_prepared:
  "turn_triple rules u t L (handling Refused (call # calls) c i seen)
     (refuse_call rt t u (receipt_denied (tc_id call) (tc_name call) a reason)) (\<lambda>_. waiting calls c i seen)"
  unfolding refuse_call_def
proof (rule turn_and_then [OF turn_record_receipt])
  show "\<exists>st'. turn_step rules st
      (ToolReceiptRecorded (receipt_denied (tc_id call) (tc_name call) a reason)) st' \<and> waiting calls c i seen st'"
    if "handling Refused (call # calls) c i seen st" for st
    unfolding resting_def now_def
    by (insert that [unfolded now_def], intro exI conjI, rule turn_step.denied [of _ call calls]) auto
qed (simp add: turn_ok)

lemma executed_receipt_of: "executed_receipt p (receipt_of p result)"
  by (auto simp: executed_receipt_def receipt_of_def receipt_defs split: sum.split tool_error.split)

text \<open>A rejection is recorded and fails the turn.\<close>

lemma turn_hook_failure:
  assumes "\<And>st. C st \<Longrightarrow> \<exists>st'. turn_step rules st (HookFailed (he_hook e) point (he_reason e)) st' \<and> D st'"
  shows "turn_triple rules u t L C (record_hook_failure rt t u point e) (\<lambda>_. D)"
  unfolding record_hook_failure_def
  by (rule turn_and_then [OF turn_append], erule assms) (simp add: turn_ok)

lemma turn_hook_result:
  "turn_triple rules u t L (handling (Idle True) calls c i seen)
     (case hooked of Inl e \<Rightarrow> and_then (record_hook_failure rt t u AfterTool e) (\<lambda>_.
         fail_with rt t u (hook_error_text e) (Runtime_Hook e))
       | Inr _ \<Rightarrow> ok r)
     (\<lambda>_. waiting calls c i seen)"
proof (cases hooked)
  case (Inl e)
  have "turn_triple rules u t L (handling (Idle True) calls c i seen) (record_hook_failure rt t u AfterTool e)
      (\<lambda>_ st. ts_phase st = Broken)"
    by (rule turn_hook_failure, unfold now_def) (intro exI conjI, rule turn_step.broken, auto)
  moreover have "turn_triple rules u t L (\<lambda>st. ts_phase st = Broken)
      (fail_with rt t u (hook_error_text e) (Runtime_Hook e)) (\<lambda>_. waiting calls c i seen)"
    by (rule turn_fail_with) (intro exI conjI, rule turn_step.failed, auto)
  ultimately show ?thesis unfolding Inl sum.case by (rule turn_and_then)
next
  case (Inr x)
  show ?thesis unfolding Inr sum.case by (rule turn_ok) (auto simp: resting_def)
qed

lemma turn_execute:
  assumes "ph = Cleared p \<or> ph = Prepared p \<and> projection_access (granted rules) (ca_tool_name (pc_action p)) = Allow"
  shows "turn_triple rules u t L (handling ph (call # calls) c i seen) (execute_call rt t u k tool p)
    (\<lambda>_. waiting calls c i seen)"
  unfolding execute_call_def Let_def
proof (rule turn_and_then [OF turn_append])
  show "\<exists>st'. turn_step rules st (ToolExecutionStarted p) st' \<and> handling (Running p) (call # calls) c i seen st'"
    if "handling ph (call # calls) c i seen st" for st
    unfolding now_def
    by (insert that [unfolded now_def] assms, intro exI conjI, rule turn_step.running) auto
  show "turn_triple rules u t L (handling (Running p) (call # calls) c i seen)
      (attempt (on_env (rt_executor rt tool p (execution_context rt t u))) (\<lambda>result.
        and_then (record_receipt rt t u (receipt_of p result) True) (\<lambda>_.
        attempt (on_env (hooks_after_tool (rt_hooks rt)
          \<lparr>hc_thread_id = t, hc_turn_id = u, hc_iteration = k\<rparr> (receipt_of p result))) (\<lambda>hooked.
        case hooked of Inl e \<Rightarrow> and_then (record_hook_failure rt t u AfterTool e) (\<lambda>_.
            fail_with rt t u (hook_error_text e) (Runtime_Hook e))
          | Inr _ \<Rightarrow> ok (receipt_of p result)))))
      (\<lambda>_. waiting calls c i seen)"
  proof (rule turn_env, rule turn_and_then [OF turn_record_receipt])
    show "\<exists>st'. turn_step rules st (ToolReceiptRecorded (receipt_of p result)) st' \<and>
        handling (Idle True) calls c i seen st'"
      if "handling (Running p) (call # calls) c i seen st" for st result
      unfolding now_def
      by (insert that [unfolded now_def] executed_receipt_of [of p result], intro exI conjI,
          rule turn_step.executed [of _ p call calls]) auto
    show "turn_triple rules u t L (handling (Idle True) calls c i seen)
        (attempt (on_env (hooks_after_tool (rt_hooks rt)
          \<lparr>hc_thread_id = t, hc_turn_id = u, hc_iteration = k\<rparr> (receipt_of p result))) (\<lambda>hooked.
        case hooked of Inl e \<Rightarrow> and_then (record_hook_failure rt t u AfterTool e) (\<lambda>_.
            fail_with rt t u (hook_error_text e) (Runtime_Hook e))
          | Inr _ \<Rightarrow> ok (receipt_of p result)))
        (\<lambda>_. waiting calls c i seen)" for result
      by (rule turn_env) (simp add: turn_hook_result split: sum.split)
  qed
qed

lemma turn_ask:
  assumes "projection_access (granted rules) (ca_tool_name (pc_action p)) = Ask"
  shows "turn_triple rules u t L (handling (Prepared p) calls c i seen) (ask_approval rt t u p)
    (\<lambda>denial. handling (if denial = None then Cleared p else Refused) calls c i seen)"
  unfolding ask_approval_def Let_def
proof (rule turn_and_then [OF turn_append])
  show "\<exists>st'. turn_step rules st (ApprovalRequested
      \<lparr>ar_thread_id = t, ar_turn_id = u, ar_call_id = pc_call_id p, ar_action = pc_action p,
       ar_reason = ''effective tool policy requires approval''\<rparr>) st' \<and>
      handling (Asked p) calls c i seen st'"
    if "handling (Prepared p) calls c i seen st" for st
    unfolding now_def
    by (insert that [unfolded now_def] assms, intro exI conjI, rule turn_step.asked) auto
  have resolved: "turn_triple rules u t L (handling (Asked p) calls c i seen)
      (and_then (append_event rt t (Some u) (ApprovalResolved (pc_call_id p) d))
        (\<lambda>_. ok (denial_of (pc_action p) d)))
      (\<lambda>denial. handling (if denial = None then Cleared p else Refused) calls c i seen)" for d
  proof (rule turn_and_then [OF turn_append])
    show "\<exists>st'. turn_step rules st (ApprovalResolved (pc_call_id p) d) st' \<and>
        handling (if d = Approved (pc_action p) then Cleared p else Refused) calls c i seen st'"
      if "handling (Asked p) calls c i seen st" for st
      unfolding now_def
      by (insert that [unfolded now_def], intro exI conjI, rule turn_step.resolved) auto
    have "denial_of (pc_action p) d = None \<longleftrightarrow> d = Approved (pc_action p)"
      by (auto simp: denial_of_def split: approval_decision.splits)
    then show "turn_triple rules u t L
        (handling (if d = Approved (pc_action p) then Cleared p else Refused) calls c i seen)
        (ok (denial_of (pc_action p) d))
        (\<lambda>denial. handling (if denial = None then Cleared p else Refused) calls c i seen)"
      by (intro turn_ok) simp
  qed
  show "turn_triple rules u t L (handling (Asked p) calls c i seen)
      (attempt (on_env (rt_approvals rt
        \<lparr>ar_thread_id = t, ar_turn_id = u, ar_call_id = pc_call_id p, ar_action = pc_action p,
         ar_reason = ''effective tool policy requires approval''\<rparr>)) (\<lambda>result.
        and_then (append_event rt t (Some u) (ApprovalResolved (pc_call_id p)
          (case result of Inl e \<Rightarrow> Denied (approval_error_text e) | Inr d \<Rightarrow> d)))
        (\<lambda>_. ok (denial_of (pc_action p)
          (case result of Inl e \<Rightarrow> Denied (approval_error_text e) | Inr d \<Rightarrow> d)))))
      (\<lambda>denial. handling (if denial = None then Cleared p else Refused) calls c i seen)"
    by (rule turn_env) (rule resolved)
qed

text \<open>A prepared call that may run: it was approved, or its tool needs no approval.\<close>

definition may_run :: "turn_rules \<Rightarrow> prepared_tool_call \<Rightarrow> phase \<Rightarrow> bool" where
  "may_run rules p ph \<longleftrightarrow>
     ph = Cleared p \<or> ph = Prepared p \<and> projection_access (granted rules) (ca_tool_name (pc_action p)) = Allow"

definition decided ::
  "turn_rules \<Rightarrow> prepared_tool_call \<Rightarrow> tool_call list \<Rightarrow> string \<Rightarrow> nat \<Rightarrow> call_id list \<Rightarrow> string option \<Rightarrow> turn_state \<Rightarrow> bool"
where
  "decided rules p calls c i seen denial st \<longleftrightarrow>
     (if denial = None then \<exists>ph. may_run rules p ph \<and> handling ph calls c i seen st
      else handling Refused calls c i seen st)"

lemma turn_prepare:
  assumes "pc_call_id p = tc_id call" "ca_tool_name (pc_action p) = tc_name call"
    and "projection_access (granted rules) (tc_name call) \<noteq> Deny" and w: "waiting (call # calls) c i seen st"
  shows "\<exists>st'. turn_step rules st (ToolPrepared p) st' \<and> handling (Prepared p) (call # calls) c i seen st'"
proof -
  obtain b where b: "handling (Idle b) (call # calls) c i seen st"
    using w unfolding resting_def by blast
  show ?thesis
    unfolding now_def
    by (insert b [unfolded now_def] now_complete [OF b] assms, intro exI conjI,
        rule turn_step.prepared [of _ b call calls]) auto
qed

lemma turn_blocked:
  assumes "pc_call_id p = tc_id call" "ca_tool_name (pc_action p) = tc_name call"
  shows "turn_triple rules u t L (handling (Prepared p) (call # calls) c i seen)
      (and_then (record_hook_failure rt t u BeforeTool e) (\<lambda>_. refuse_call rt t u
        (receipt_denied (tc_id call) (tc_name call) (Some (pc_action p)) (hook_error_text e))))
      (\<lambda>_. waiting calls c i seen)"
proof (rule turn_and_then [OF turn_hook_failure])
  show "\<exists>st'. turn_step rules st (HookFailed (he_hook e) BeforeTool (he_reason e)) st' \<and>
      handling Refused (call # calls) c i seen st'"
    if "handling (Prepared p) (call # calls) c i seen st" for st
    unfolding now_def
    by (insert that [unfolded now_def], intro exI conjI, rule turn_step.blocked) auto
qed (rule turn_deny_prepared)

lemma turn_decide:
  assumes "level = projection_access (granted rules) (ca_tool_name (pc_action p))" "level \<noteq> Deny"
  shows "turn_triple rules u t L (handling (Prepared p) calls c i seen)
      (if level = Ask then ask_approval rt t u p else ok None) (decided rules p calls c i seen)"
proof (cases "level = Ask")
  case True
  with assms show ?thesis
    by (auto simp: decided_def may_run_def intro!: turn_weaken [OF turn_ask] split: if_splits)
next
  case False
  with assms have "may_run rules p (Prepared p)"
    by (cases level) (auto simp: may_run_def)
  with False show ?thesis by (auto simp: decided_def intro!: turn_ok)
qed

lemma turn_after_decision:
  assumes "pc_call_id p = tc_id call" "ca_tool_name (pc_action p) = tc_name call"
  shows "turn_triple rules u t L (decided rules p (call # calls) c i seen denial)
      (case denial of
         Some reason \<Rightarrow> refuse_call rt t u (receipt_denied (tc_id call) (tc_name call) (Some (pc_action p)) reason)
       | None \<Rightarrow> execute_call rt t u k tool p) (\<lambda>_. waiting calls c i seen)"
proof (cases denial)
  case None
  have "turn_triple rules u t L (handling ph (call # calls) c i seen) (execute_call rt t u k tool p)
      (\<lambda>_. waiting calls c i seen)" if "may_run rules p ph" for ph
    using that unfolding may_run_def by (rule turn_execute)
  then show ?thesis unfolding decided_def None by (auto intro!: turn_exists turn_conj)
next
  case (Some reason)
  then show ?thesis using turn_deny_prepared by (simp add: decided_def [abs_def])
qed

lemma turn_run_prepared:
  assumes p: "pc_call_id p = tc_id call" "ca_tool_name (pc_action p) = tc_name call"
    and level: "level = projection_access (granted rules) (tc_name call)" "level \<noteq> Deny"
  shows "turn_triple rules u t L (waiting (call # calls) c i seen)
    (run_prepared rt t u k call level tool p) (\<lambda>_. waiting calls c i seen)"
  unfolding run_prepared_def
proof (rule turn_and_then [OF turn_append])
  show "\<exists>st'. turn_step rules st (ToolPrepared p) st' \<and> handling (Prepared p) (call # calls) c i seen st'"
    if "waiting (call # calls) c i seen st" for st
    by (rule turn_prepare [OF p level(2) [unfolded level(1)] that])
  have named: "level = projection_access (granted rules) (ca_tool_name (pc_action p))" using level(1) p by simp
  let ?denied = "\<lambda>reason. refuse_call rt t u
    (receipt_denied (tc_id call) (tc_name call) (Some (pc_action p)) reason)"
  show "turn_triple rules u t L (handling (Prepared p) (call # calls) c i seen)
      (attempt (on_env (hooks_before_tool (rt_hooks rt)
        \<lparr>hc_thread_id = t, hc_turn_id = u, hc_iteration = k\<rparr> p)) (\<lambda>hooked.
       case hooked of
         Inl e \<Rightarrow> and_then (record_hook_failure rt t u BeforeTool e) (\<lambda>_. ?denied (hook_error_text e))
       | Inr _ \<Rightarrow> and_then (if level = Ask then ask_approval rt t u p else ok None) (\<lambda>denial.
           case denial of Some reason \<Rightarrow> ?denied reason | None \<Rightarrow> execute_call rt t u k tool p)))
      (\<lambda>_. waiting calls c i seen)"
    by (rule turn_env, split sum.split, intro conjI allI impI)
      (rule turn_blocked [OF p], rule turn_and_then [OF turn_decide [OF named level(2)] turn_after_decision [OF p]])
qed

lemma turn_handle_call:
  "turn_triple rules u t L (waiting (call # calls) c i seen) (handle_tool_call rt t u k call (granted rules))
     (\<lambda>_. waiting calls c i seen)"
proof (cases "registry_get (rt_tools rt) (tc_name call)")
  case None
  then show ?thesis by (simp add: handle_tool_call_def turn_refuse)
next
  case (Some tool)
  have prepare: "turn_triple rules u t L (waiting (call # calls) c i seen)
      (case result of
         Inl e \<Rightarrow> refuse_call rt t u (receipt_malformed call (tool_error_text e))
       | Inr p \<Rightarrow>
           if pc_call_id p \<noteq> tc_id call \<or> ca_tool_name (pc_action p) \<noteq> tc_name call
           then refuse_call rt t u (receipt_malformed call
                  ''tool preparation changed the call id or tool name'')
           else run_prepared rt t u k call (projection_access (granted rules) (tc_name call)) tool p)
      (\<lambda>_. waiting calls c i seen)"
    if "projection_access (granted rules) (tc_name call) \<noteq> Deny" for result
    using that by (cases result) (simp_all add: turn_refuse turn_run_prepared)
  show ?thesis
  proof (cases "projection_access (granted rules) (tc_name call) = Deny")
    case True
    with Some show ?thesis by (simp add: handle_tool_call_def turn_refuse)
  next
    case False
    have eq: "handle_tool_call rt t u k call (granted rules) =
        attempt (on_env (t_prepare tool call (execution_context rt t u))) (\<lambda>result. case result of
           Inl e \<Rightarrow> refuse_call rt t u (receipt_malformed call (tool_error_text e))
         | Inr p \<Rightarrow>
             if pc_call_id p \<noteq> tc_id call \<or> ca_tool_name (pc_action p) \<noteq> tc_name call
             then refuse_call rt t u (receipt_malformed call
                    ''tool preparation changed the call id or tool name'')
             else run_prepared rt t u k call (projection_access (granted rules) (tc_name call)) tool p)"
      unfolding handle_tool_call_def Let_def Some option.case if_not_P [OF False] by (rule refl)
    show ?thesis unfolding eq by (rule turn_env) (rule prepare [OF False])
  qed
qed

lemma turn_handle_calls:
  "turn_triple rules u t L (waiting calls c i seen) (handle_calls rt t u k (granted rules) calls transcript)
     (\<lambda>_. waiting [] c i seen)"
proof (induction calls arbitrary: transcript)
  case Nil
  then show ?case by (simp add: turn_ok)
next
  case (Cons call calls)
  have "turn_triple rules u t L (waiting (call # calls) c i seen)
      (and_then (handle_tool_call rt t u k call (granted rules)) (\<lambda>receipt.
        handle_calls rt t u k (granted rules) calls (transcript @ [Tool_Result receipt])))
      (\<lambda>_. waiting [] c i seen)"
    by (rule turn_and_then [OF turn_handle_call Cons.IH])
  then show ?case
    unfolding handle_calls.simps by (intro turn_poll) (simp add: turn_cancel)
qed

lemma step_failed:
  "resting [] ans i seen st \<Longrightarrow>
   \<exists>st'. turn_step rules st (TurnFailed m) st' \<and> ts_phase st' = Closed (TurnFailed m)"
  unfolding resting_def now_def
  by (elim exE conjE, intro exI conjI, rule turn_step.failed) auto

lemma turn_compile:
  assumes "continues ans" and limit: "i < iteration_limit rules"
  shows "turn_triple rules u t L (resting [] ans i seen)
    (compile_context rt t u i (visible_names (granted rules)) transcript) (\<lambda>_. now Requested [] ans i seen)"
proof -
  have compile_failed: "turn_triple rules u t L (resting [] ans i seen)
      (fail_with rt t u (context_error_text e) (Runtime_Context e)) D" for e D
    by (rule turn_fail_with) (erule step_failed, simp)
  have vetoed: "\<exists>st'. turn_step rules st (HookFailed h BeforeModel m) st' \<and> ts_phase st' = Vetoed"
    if r: "resting [] ans i seen st" for st h m
  proof -
    obtain b where "now (Idle b) [] ans i seen st" using r by (auto simp: resting_def)
    then show ?thesis
      using turn_step.vetoed [of st b rules h m] now_may_continue [of b ans i seen st] assms
      unfolding now_def by fastforce
  qed
  have veto: "turn_triple rules u t L (resting [] ans i seen) (record_hook_failure rt t u BeforeModel e)
      (\<lambda>_ st. ts_phase st = Vetoed)" for e
    by (rule turn_hook_failure) (rule vetoed)
  have veto_failed: "turn_triple rules u t L (\<lambda>st. ts_phase st = Vetoed)
      (fail_with rt t u (hook_error_text e) (Runtime_Hook e)) D" for e D
    by (rule turn_fail_with) (intro exI conjI, rule turn_step.failed, auto)
  have compiled: "\<exists>st'. turn_step rules st (ContextCompiled i a b (visible_names (granted rules))) st' \<and>
      now Compiled [] ans i seen st'"
    if r: "resting [] ans i seen st" for st a b
  proof -
    obtain b where "now (Idle b) [] ans i seen st" using r by (auto simp: resting_def)
    then show ?thesis
      using turn_step.compiled [of st b rules] now_may_continue [of b ans i seen st] assms
      unfolding now_def by fastforce
  qed
  have requested: "\<exists>st'. turn_step rules st (ModelRequestStarted i) st' \<and> now Requested [] ans i seen st'"
    if "now Compiled [] ans i seen st" for st
    using turn_step.requested [of st rules] that unfolding now_def by fastforce
  have hooked: "turn_triple rules u t L (resting [] ans i seen)
      (case h of
         Inl e \<Rightarrow> and_then (record_hook_failure rt t u BeforeModel e) (\<lambda>_.
           fail_with rt t u (hook_error_text e) (Runtime_Hook e))
       | Inr _ \<Rightarrow> and_then (append_event rt t (Some u) (ContextCompiled i (length (cc_prompt x))
             (length (cc_messages x)) (visible_names (granted rules)))) (\<lambda>_.
           and_then (append_event rt t (Some u) (ModelRequestStarted i)) (\<lambda>_. ok x)))
      (\<lambda>_. now Requested [] ans i seen)" for h x
    by (split sum.split, intro conjI allI impI)
      (rule turn_and_then [OF veto veto_failed],
       rule turn_and_then [OF turn_append [OF compiled]], assumption,
       rule turn_and_then [OF turn_append [OF requested]], assumption, simp add: turn_ok)
  show ?thesis
    unfolding compile_context_def
    by (rule turn_env, split sum.split, intro conjI allI impI)
      (rule compile_failed, rule turn_env, rule hooked)
qed

lemma turn_request:
  "turn_triple rules u t L (now Requested [] ans i seen) (request_model rt t u i tools compiled)
     (\<lambda>_. now Requested [] ans i seen)"
proof -
  have failed: "turn_triple rules u t L (now Requested [] ans i seen)
      (fail_with rt t u (model_error_text e) (Runtime_Model e)) D" for e D
    by (rule turn_fail_with, unfold now_def) (intro exI conjI, rule turn_step.failed, auto)
  have error: "turn_triple rules u t L (now Requested [] ans i seen)
      (and_then (is_cancelled rt) (\<lambda>cancelled. if cancelled then cancel_turn rt t u []
         else fail_with rt t u (model_error_text e) (Runtime_Model e))) D" for e D
    by (rule turn_poll) (simp add: turn_cancel_request failed)
  show ?thesis
    unfolding request_model_def
    by (rule turn_env, split sum.split, intro conjI allI impI) (rule error, simp add: turn_ok)
qed

text \<open>The state after an answer.\<close>

abbreviation answered :: "model_response \<Rightarrow> nat \<Rightarrow> call_id list \<Rightarrow> turn_state \<Rightarrow> bool" where
  "answered response i seen \<equiv> resting (mp_tool_calls response)
     (Some (mp_content response, mp_tool_calls response \<noteq> [], mp_stop_reason response))
     (i + 1) (bs_extend (map tc_id (mp_tool_calls response)) seen)"

lemma turn_respond:
  "turn_triple rules u t L (now Requested [] ans i seen) (record_response rt t u response seen)
     (\<lambda>_. answered response i seen)"
proof (cases "validate_tool_calls (mp_tool_calls response) seen")
  case (Inl reason)
  have "turn_triple rules u t L (now Requested [] ans i seen)
      (fail_with rt t u reason (InvalidModelResponse u reason)) (\<lambda>_. answered response i seen)"
    by (rule turn_fail_with, unfold now_def) (intro exI conjI, rule turn_step.failed, auto)
  then show ?thesis by (simp add: record_response_def Inl)
next
  case (Inr x)
  have answer: "\<exists>st'. turn_step rules st (AssistantMessage (mp_content response) (mp_tool_calls response)
        (mp_stop_reason response) (mp_usage response)) st' \<and> answered response i seen st'"
    if r: "now Requested [] ans i seen st" for st
  proof -
    have "set seen = set (map tc_id (ts_announced st))"
      using r by (simp add: now_def)
    from validate_tool_calls_cong [OF this] Inr
    have v: "validate_tool_calls (mp_tool_calls response) (map tc_id (ts_announced st)) = Inr ()" by simp
    show ?thesis
      unfolding resting_def now_def
      by (insert r [unfolded now_def] v, intro exI conjI, rule turn_step.answered) auto
  qed
  show ?thesis
    unfolding record_response_def Inr sum.case
    by (rule turn_and_then [OF turn_append [OF answer]], assumption) (simp add: turn_ok)
qed

lemma turn_check_stop:
  "turn_triple rules u t L (answered response i seen) (check_stop rt t u response)
     (\<lambda>_ st. answered response i seen st \<and> stop_error u response = None)"
proof (cases "stop_error u response")
  case None
  then show ?thesis by (simp add: check_stop_def turn_ok)
next
  case (Some x)
  have "runtime_error_text x \<in> failure_texts u x"
    using Some by (auto simp: stop_error_def split: stop_reason.splits if_splits)
  then have "turn_triple rules u t L
      (resting [] (Some (mp_content response, mp_tool_calls response \<noteq> [], mp_stop_reason response))
        (i + 1) (bs_extend (map tc_id (mp_tool_calls response)) seen))
      (fail_with rt t u (runtime_error_text x) x) D" for D
    by (intro turn_fail_with) (erule step_failed, assumption)
  from turn_and_then [OF turn_deny_calls this] show ?thesis
    unfolding check_stop_def Some option.case .
qed

lemma turn_completes:
  assumes "mp_tool_calls response = []" and "i < iteration_limit rules"
    and "iteration_limit rules = max_model_iterations (rt_config rt)"
  shows "turn_triple rules u t L (\<lambda>st. answered response i seen st \<and> stop_error u response = None)
      (and_then (append_event rt t (Some u) (TurnCompleted (mp_content response))) (\<lambda>_.
        ok \<lparr>to_thread_id = t, to_turn_id = u, to_content = mp_content response, to_model_iterations = i + 1\<rparr>))
      (finished t u (max_model_iterations (rt_config rt)))"
proof -
  have "\<exists>st'. turn_step rules st (TurnCompleted (mp_content response)) st' \<and>
      ts_phase st' = Closed (TurnCompleted (mp_content response)) \<and> ts_iteration st' = i + 1"
    if r: "answered response i seen st \<and> stop_error u response = None" for st
  proof -
    have "mp_stop_reason response = EndTurn"
      using r assms(1) by (auto simp: stop_error_def split: stop_reason.splits)
    moreover obtain b where "ts_phase st = Idle b" "ts_iteration st = i + 1"
      "ts_answer st = Some (mp_content response, False, mp_stop_reason response)"
      using r assms(1) by (auto simp: resting_def now_def)
    ultimately show ?thesis
      using turn_step.completed [of st b "mp_content response" rules] by fastforce
  qed
  note append = turn_append [OF this]
  show ?thesis
    by (rule turn_and_then [OF append], assumption, rule turn_ok)
      (use assms(2,3) in \<open>simp add: finished_def\<close>)
qed

lemma turn_handle_answer:
  assumes "mp_tool_calls response \<noteq> []"
  shows "turn_triple rules u t L (\<lambda>st. answered response i seen st \<and> stop_error u response = None)
    (handle_calls rt t u i (granted rules) (mp_tool_calls response) transcript)
    (\<lambda>_. waiting [] (mp_content response) (i + 1) (bs_extend (map tc_id (mp_tool_calls response)) seen))"
proof (rule turn_pre [OF turn_handle_calls])
  show "waiting (mp_tool_calls response) (mp_content response) (i + 1)
      (bs_extend (map tc_id (mp_tool_calls response)) seen) st"
    if "answered response i seen st \<and> stop_error u response = None" for st
  proof -
    have "mp_stop_reason response = ToolUse"
      using that assms by (auto simp: stop_error_def split: stop_reason.splits)
    with that assms show ?thesis by simp
  qed
qed

lemma turn_loop_refines:
  assumes "continues ans" and "i + n = iteration_limit rules"
    and "iteration_limit rules = max_model_iterations (rt_config rt)"
  shows "turn_triple rules u t L (resting [] ans i seen) (turn_loop rt t u (granted rules) n i transcript seen)
    (finished t u (max_model_iterations (rt_config rt)))"
  using assms
proof (induction n arbitrary: ans i seen transcript)
  case 0
  have "turn_triple rules u t L (resting [] ans i seen)
      (fail_with rt t u (''maximum model iterations ('' @ dec (max_model_iterations (rt_config rt)) @ '') exceeded'')
        (MaxModelIterations u (max_model_iterations (rt_config rt)))) D" for D
    by (rule turn_fail_with) (erule step_failed, simp)
  then show ?case by (simp add: Let_def)
next
  case (Suc n)
  let ?F = "finished t u (max_model_iterations (rt_config rt))"
  have lim: "i < iteration_limit rules" using Suc.prems(2) by simp
  have next_round: "turn_triple rules u t L (waiting [] content (i + 1) seen')
     (turn_loop rt t u (granted rules) n (i + 1) transcript' seen') ?F" for content seen' transcript'
    by (rule Suc.IH) (use Suc.prems(2,3) in \<open>simp_all add: continues_def\<close>)
  have after: "turn_triple rules u t L (\<lambda>st. answered response i seen st \<and> stop_error u response = None)
      (if c then cancel_turn rt t u (mp_tool_calls response)
       else if mp_tool_calls response = [] then
         and_then (append_event rt t (Some u) (TurnCompleted (mp_content response))) (\<lambda>_.
         ok \<lparr>to_thread_id = t, to_turn_id = u, to_content = mp_content response,
             to_model_iterations = i + 1\<rparr>)
       else
         and_then (handle_calls rt t u i (granted rules) (mp_tool_calls response)
           (transcript @ [Assistant (mp_content response) (mp_tool_calls response)])) (\<lambda>transcript'.
         turn_loop rt t u (granted rules) n (i + 1) transcript'
           (bs_extend (map tc_id (mp_tool_calls response)) seen))) ?F" for response c
    using turn_completes [OF _ lim Suc.prems(3)] turn_and_then [OF turn_handle_answer next_round]
    by (auto intro: turn_pre [OF turn_cancel])
  show ?case
    unfolding turn_loop.simps Let_def
    by (rule turn_poll, split if_split, intro conjI impI, rule turn_cancel,
        rule turn_and_then [OF turn_compile [OF Suc.prems(1) lim]], rule turn_and_then [OF turn_request],
        rule turn_and_then [OF turn_respond], rule turn_and_then [OF turn_check_stop],
        rule turn_poll, rule after)
qed

section \<open>The whole turn\<close>

lemma triple_recover_store:
  "triple (on_log t (\<lambda>es. es = L))
     (map_err Runtime_Store (on_store (recover_thread (rt_append rt) (rt_load rt) t)))
     (\<lambda>_. on_log t (repaired L)) (\<lambda>x s. store_failure x \<and> on_log t (partly_repaired L) s)"
proof (rule triple_map_err, rule tripleI)
  fix s :: "('s, 'w) rstate" and s' and r
  let ?m = "on_store (recover_thread (rt_append rt) (rt_load rt) t)"
  assume L: "on_log t (\<lambda>es. es = L) s"
  have grows: "\<exists>vs rest. log t (r_store s') = L @ vs \<and>
      recovery_plan (scan_envelopes L recovery_start) = map step_of vs @ rest \<and>
      (\<forall>report. r = Inr report \<longrightarrow> rest = [])" if "?m s = (r, s')" for r s'
  proof -
    have "recover_thread (rt_append rt) (rt_load rt) t (r_store s) = (r, r_store s')"
      using \<open>?m s = (r, s')\<close> by (auto simp: on_store_def zoom_def split: prod.splits)
    from recover_thread_log [OF this] obtain vs rest where "log t (r_store s') = log t (r_store s) @ vs"
      "recovery_plan (scan_envelopes (log t (r_store s)) recovery_start) = map step_of vs @ rest"
      "\<And>report. r = Inr report \<Longrightarrow> rest = []" by auto
    moreover have "log t (r_store s) = L" using L by (simp add: on_log_def)
    ultimately show ?thesis by auto
  qed
  show "on_log t (repaired L) s'" if "?m s = (Inr a, s')" for a s'
    using grows [OF that] by (auto simp: on_log_def repaired_def)
  show "store_failure (Runtime_Store e) \<and> on_log t (partly_repaired L) s'" if "?m s = (Inl e, s')" for e s'
    using grows [OF that] by (auto simp: on_log_def partly_repaired_def)
qed

lemma triple_notify_each:
  "triple (on_log t P) (for_each vs (\<lambda>v. if b v then notify rt v else ok ())) (\<lambda>_. on_log t P) E"
  by (rule triple_for_each [where I = "\<lambda>_. on_log t P"]) (auto intro: triple_notify triple_okI)

lemma triple_recover_exclusive:
  "triple (on_log t (\<lambda>es. es = L)) (recover_exclusive rt t)
     (\<lambda>_. on_log t (repaired L)) (\<lambda>x s. store_failure x \<and> on_log t (partly_repaired L) s)"
proof -
  let ?E = "\<lambda>x s. store_failure x \<and> on_log t (partly_repaired L) s"
  have load: "triple (on_log t P) (load_events rt t) (\<lambda>_. on_log t P) ?E"
    if "\<And>es. P es \<Longrightarrow> partly_repaired L es" for P
    by (rule triple_weaken [OF triple_load_events [of P "\<lambda>_. P"
          "\<lambda>x es. store_failure x \<and> partly_repaired L es" t]])
      (use that in \<open>auto simp: on_log_def\<close>)
  show ?thesis
    unfolding recover_exclusive_def Let_def
  proof (rule triple_and_then [OF load], simp add: partly_repaired_refl,
      rule triple_and_then [OF triple_recover_store], split if_split, intro conjI impI)
    fix events :: "event_envelope list" and report
    show "triple (on_log t (repaired L))
      (and_then (load_events rt t) (\<lambda>es. and_then (for_each es (\<lambda>v.
         if (if events = [] then 0 else saturating_add (ev_sequence (last events)) 1) \<le> ev_sequence v
         then notify rt v else ok ())) (\<lambda>_. ok report)))
      (\<lambda>_. on_log t (repaired L)) ?E"
      by (rule triple_and_then [OF load], erule repaired_partly,
          rule triple_and_then [OF triple_notify_each], rule triple_okI)
    show "triple (on_log t (repaired L)) (ok report) (\<lambda>_. on_log t (repaired L)) ?E"
      by (rule triple_okI)
  qed
qed

lemma recover_exclusive_log:
  assumes "recover_exclusive rt t s = (r, s')"
  shows "\<exists>R. log t (r_store s') = log t (r_store s) @ R"
proof -
  have pre: "on_log t (\<lambda>es. es = log t (r_store s)) s" by (simp add: on_log_def)
  show ?thesis
  proof (cases r)
    case (Inl x)
    with assms triple_error [OF triple_recover_exclusive pre] show ?thesis
      by (auto simp: on_log_def partly_repaired_def)
  next
    case (Inr report)
    with assms triple_value [OF triple_recover_exclusive pre] show ?thesis
      by (auto simp: on_log_def repaired_def)
  qed
qed

lemma turn_start_turn:
  "turn_triple (rules_of rt) u t L (\<lambda>st. st = turn_start) (start_turn rt t u input)
     (finished t u (max_model_iterations (rt_config rt)))"
  unfolding start_turn_def
proof (rule turn_and_then [OF turn_append])
  show "\<exists>st'. turn_step (rules_of rt) st TurnStarted st' \<and> st' = turn_start\<lparr>ts_phase := Opened\<rparr>"
    if "st = turn_start" for st
    using turn_step.started [of st] that by (auto simp: turn_start_def)
  have opened: "turn_triple (rules_of rt) u t L (\<lambda>st. st = turn_start\<lparr>ts_phase := Opened\<rparr>)
      (append_event rt t (Some u) (UserMessage input)) (\<lambda>_. resting [] None 0 [])"
  proof (rule turn_append)
    show "\<exists>st'. turn_step (rules_of rt) st (UserMessage input) st' \<and> resting [] None 0 [] st'"
      if "st = turn_start\<lparr>ts_phase := Opened\<rparr>" for st
      using turn_step.input [of st "rules_of rt" input] that
      by (intro exI [of _ "st\<lparr>ts_phase := Idle False\<rparr>"]) (auto simp: turn_start_def resting_def now_def)
  qed
  have load: "turn_triple (rules_of rt) u t L (resting [] None 0 []) (load_events rt t)
      (\<lambda>_. resting [] None 0 [])"
    unfolding turn_triple_def
    by (rule triple_load_events) (auto intro: halted_at)
  have loop: "turn_triple (rules_of rt) u t L (resting [] None 0 [])
      (turn_loop rt t u (capabilities rt) (max_model_iterations (rt_config rt)) 0 transcript [])
      (finished t u (max_model_iterations (rt_config rt)))" for transcript
    using turn_loop_refines [of None 0 "max_model_iterations (rt_config rt)" "rules_of rt" u t L "[]" transcript]
    by (simp add: continues_def)
  show "turn_triple (rules_of rt) u t L (\<lambda>st. st = turn_start\<lparr>ts_phase := Opened\<rparr>)
     (and_then (append_event rt t (Some u) (UserMessage input)) (\<lambda>_.
      and_then (load_events rt t) (\<lambda>events.
      turn_loop rt t u (capabilities rt) (max_model_iterations (rt_config rt)) 0
        (transcript_from_events events) [])))
     (finished t u (max_model_iterations (rt_config rt)))"
    by (rule turn_and_then [OF opened], rule turn_and_then [OF load], rule loop)
qed

lemma triple_check:
  assumes "\<And>es x. P es \<Longrightarrow> store_failure x \<Longrightarrow> E x es"
    and "\<And>es. P es \<Longrightarrow> b es \<Longrightarrow> Q es" and "\<And>es. P es \<Longrightarrow> \<not> b es \<Longrightarrow> E e es"
  shows "triple (on_log t P) (and_then (load_events rt t) (\<lambda>es. if b es then ok () else err e))
    (\<lambda>_. on_log t Q) (\<lambda>x. on_log t (E x))"
proof (rule triple_and_then [OF triple_load_events [where Q = "\<lambda>es' es. P es \<and> es' = es" and E = E]])
  show "triple (on_log t (\<lambda>es. P es \<and> es' = es)) (if b es' then ok () else err e) (\<lambda>_. on_log t Q)
      (\<lambda>x. on_log t (E x))" for es'
    using assms(2,3) by (auto simp: on_log_def intro!: triple_okI triple_errI)
qed (use assms(1) in auto)

lemma triple_with_thread:
  assumes m: "triple (on_log t P) m (\<lambda>a. on_log t (Q a)) (\<lambda>x. on_log t (E x))"
    and busy: "\<And>es. P es \<Longrightarrow> E (ConcurrentTurn t) es" and broken: "\<And>es. P es \<Longrightarrow> E (Runtime_Store Poisoned) es"
  shows "triple (on_log t P) (with_thread t m) (\<lambda>a. on_log t (Q a)) (\<lambda>x. on_log t (E x))"
proof (unfold with_thread_def, rule triple_and_then)
  show "triple (on_log t P) (acquire_thread t) (\<lambda>_. on_log t P) (\<lambda>x. on_log t (E x))"
    using busy broken by (intro tripleI) (auto simp: acquire_thread_def on_log_def split: if_splits)
  show "triple (on_log t P) (\<lambda>s. case m s of (r, s') \<Rightarrow> (r, release_thread t s'))
      (\<lambda>a. on_log t (Q a)) (\<lambda>x. on_log t (E x))" for a
    using triple_value [OF m] triple_error [OF m]
    by (intro tripleI) (auto simp: on_log_def release_thread_def split: prod.splits)
qed

lemma triple_run_turn:
  "triple (on_log t (\<lambda>es. es = L)) (run_turn_with_id rt t u input)
     (\<lambda>out. on_log t (turn_returned rt t u L out)) (\<lambda>x. on_log t (turn_ended rt t u L x))"
proof -
  let ?E = "\<lambda>x. on_log t (turn_ended rt t u L x)"
  have thread: "triple (on_log t (\<lambda>es. es = L)) (ensure_thread rt t) (\<lambda>_. on_log t (\<lambda>es. es = L)) ?E"
    unfolding ensure_thread_def
    by (rule triple_check) (auto simp: turn_ended_def partly_repaired_refl)
  have "\<And>es. list_ex (\<lambda>v. ev_turn_id v = Some u) es \<longleftrightarrow> \<not> unused_turn u es"
    by (auto simp: unused_turn_def list_ex_iff)
  then have check: "ensure_turn_unused rt t u =
      and_then (load_events rt t) (\<lambda>es. if unused_turn u es then ok () else err (DuplicateTurn t u))"
    unfolding ensure_turn_unused_def by (intro arg_cong2 [where f = and_then] refl ext) simp
  have unused: "triple (on_log t (\<lambda>es. es = L)) (ensure_turn_unused rt t u)
      (\<lambda>_. on_log t (\<lambda>es. es = L \<and> unused_turn u L)) ?E"
    unfolding check
    by (rule triple_check) (auto simp: turn_ended_def partly_repaired_refl)
  have recovered: "triple (on_log t (\<lambda>es. es = L \<and> unused_turn u L)) (recover_exclusive rt t)
      (\<lambda>_ s. unused_turn u L \<and> on_log t (repaired L) s) ?E"
  proof (rule tripleI)
    fix s :: "('s, 'w) rstate" and s' and a
    assume s: "on_log t (\<lambda>es. es = L \<and> unused_turn u L) s"
    then have "on_log t (\<lambda>es. es = L) s" by (simp add: on_log_def)
    note good = triple_value [OF triple_recover_exclusive this]
      and bad = triple_error [OF triple_recover_exclusive this]
    show "unused_turn u L \<and> on_log t (repaired L) s'" if "recover_exclusive rt t s = (Inr a, s')" for a s'
      using good [OF that] s by (simp add: on_log_def)
    show "?E x s'" if "recover_exclusive rt t s = (Inl x, s')" for x s'
      using bad [OF that] by (simp add: on_log_def turn_ended_def)
  qed
  have turn: "triple (\<lambda>s. unused_turn u L \<and> on_log t (repaired L) s) (start_turn rt t u input)
     (\<lambda>out. on_log t (turn_returned rt t u L out)) ?E"
  proof (rule triple_conj, rule tripleI)
    fix s :: "('s, 'w) rstate" and s' and a
    assume u: "unused_turn u L" and s: "on_log t (repaired L) s"
    let ?M = "log t (r_store s)"
    have M: "repaired L ?M" using s by (simp add: on_log_def)
    have pre: "on_log t (at_turn (rules_of rt) u ?M (\<lambda>st. st = turn_start)) s"
      using in_turn_start by (auto simp: on_log_def at_turn_def)
    note run = turn_start_turn [of u t ?M input, unfolded turn_triple_def]
    show "on_log t (turn_returned rt t u L out) s'" if "start_turn rt t u input s = (Inr out, s')" for out s'
      using triple_value [OF run pre that] u M by (auto simp: on_log_def turn_returned_def)
    show "?E x s'" if "start_turn rt t u input s = (Inl x, s')" for x s'
      using triple_error [OF run pre that] u M by (auto simp: on_log_def turn_ended_def)
  qed
  show ?thesis
    unfolding run_turn_with_id_def
    by (rule triple_and_then [OF thread], rule triple_with_thread, rule triple_and_then [OF unused],
        rule triple_and_then [OF recovered], rule turn) (auto simp: turn_ended_def partly_repaired_refl)
qed

end

end
