(* ===== verification/TurnFrame.thy ===== *)
theory TurnFrame
  imports TurnRefinement
begin

text \<open>
  What a turn leaves alone: an assertion that the recording of an event, a load, a call into the
  environment and the question for an approval keep holds throughout a turn. Three uses: the set of active
  threads, so that the guard of a thread is released on every way out; the notifications, so that
  observers see exactly the events the store acknowledged; and the approvals in the log, each of which
  the approval provider gave.
\<close>

definition approval_answer :: "runtime_event \<Rightarrow> bool" where
  "approval_answer e \<longleftrightarrow> (case e of ApprovalResolved c d \<Rightarrow> True | _ \<Rightarrow> False)"

lemma on_env_kept: "(\<And>s w. I s \<Longrightarrow> I (s\<lparr>r_env := w\<rparr>)) \<Longrightarrow> preserves I (on_env m)"
  unfolding preserves_def by (rule tripleI) (auto simp: on_env_def zoom_def split: prod.splits)

lemma ask_approval_kept:
  assumes "\<And>e. preserves I (append_event rt t (Some u) e)" and "\<And>s w. I s \<Longrightarrow> I (s\<lparr>r_env := w\<rparr>)"
  shows "preserves I (ask_approval rt t u prepared)"
  unfolding ask_approval_def Let_def by (intro frame assms(1) on_env_kept assms(2))

locale turn_frame =
  fixes rt :: "('s, 'w) runtime" and t :: thread_id and I :: "('s, 'w) rstate \<Rightarrow> bool"
  assumes frame_append: "\<not> approval_answer e \<Longrightarrow> preserves I (append_event rt t u e)"
    and frame_load: "preserves I (load_events rt t)"
    and frame_env: "I s \<Longrightarrow> I (s\<lparr>r_env := w\<rparr>)"
    and frame_ask: "preserves I (ask_approval rt t u' prepared)"
begin

lemma frame_on_env: "preserves I (on_env m)"
  by (rule on_env_kept) (rule frame_env)

lemma frame_plain:
  "preserves I (append_event rt t u TurnStarted)" "preserves I (append_event rt t u (UserMessage x))"
  "preserves I (append_event rt t u (ContextCompiled a b c d))" "preserves I (append_event rt t u (ModelRequestStarted i))"
  "preserves I (append_event rt t u (AssistantMessage y calls stop usage))"
  "preserves I (append_event rt t u (ToolPrepared p))" "preserves I (append_event rt t u (ToolExecutionStarted p))"
  "preserves I (append_event rt t u (ToolReceiptRecorded r))" "preserves I (append_event rt t u (HookFailed h point m))"
  "preserves I (append_event rt t u (TurnCompleted x))" "preserves I (append_event rt t u (TurnFailed x))"
  "preserves I (append_event rt t u TurnCancelled)"
  by (rule frame_append, simp add: approval_answer_def)+

lemmas frame_rules = frame_plain frame_load frame_on_env frame_ask frame

lemma frame_receipt_error:
  "preserves I (case e of Runtime_Store source \<Rightarrow>
      if crossed then err (ReceiptPersistenceUnknown (tr_call_id r) (tr_tool_name r) source) else err e
    | _ \<Rightarrow> err e)"
  by (cases e) (simp_all add: frame)

lemma frame_record_receipt: "preserves I (record_receipt rt t u r crossed)"
  unfolding record_receipt_def by (intro frame_rules frame_receipt_error)

lemma frame_fail_with: "preserves I (fail_with rt t u m x)"
  unfolding fail_with_def fail_turn_def by (intro frame_rules)

lemma frame_deny_calls: "preserves I (deny_calls rt t u reason calls)"
  by (induction calls) (auto intro!: frame_rules frame_record_receipt)

lemma frame_cancel_turn: "preserves I (cancel_turn rt t u calls)"
  unfolding cancel_turn_def by (intro frame_rules frame_deny_calls)

lemma frame_hook_failure: "preserves I (record_hook_failure rt t u point e)"
  unfolding record_hook_failure_def by (intro frame_rules)

lemma frame_is_cancelled: "preserves I (is_cancelled rt)"
  unfolding is_cancelled_def by (rule frame_on_env)

lemmas frame_ops = frame_rules frame_record_receipt frame_fail_with frame_deny_calls frame_cancel_turn
  frame_hook_failure frame_is_cancelled

lemma frame_handle_tool_call: "preserves I (handle_tool_call rt t u k call caps)"
  unfolding handle_tool_call_def run_prepared_def execute_call_def refuse_call_def Let_def
  by (intro frame_ops)

lemma frame_handle_calls: "preserves I (handle_calls rt t u k caps calls transcript)"
  by (induction calls arbitrary: transcript) (auto intro!: frame_ops frame_handle_tool_call)

lemma frame_compile_context: "preserves I (compile_context rt t u i visible transcript)"
  unfolding compile_context_def by (intro frame_ops)

lemma frame_request_model: "preserves I (request_model rt t u i tools compiled)"
  unfolding request_model_def by (intro frame_ops)

lemma frame_record_response: "preserves I (record_response rt t u response seen)"
  unfolding record_response_def by (intro frame_ops)

lemma frame_check_stop: "preserves I (check_stop rt t u response)"
  unfolding check_stop_def by (intro frame_ops)

lemma frame_turn_loop: "preserves I (turn_loop rt t u caps n i transcript seen)"
  by (induction n arbitrary: i transcript seen)
    (auto simp: Let_def intro!: frame_ops frame_compile_context frame_request_model frame_record_response
      frame_check_stop frame_handle_calls)

lemma frame_start_turn: "preserves I (start_turn rt t u input)"
  unfolding start_turn_def by (intro frame_ops frame_turn_loop)

end

section \<open>The steps of a run\<close>

lemma load_events_state: "load_events rt t s = (r, s') \<Longrightarrow> s' = s"
  by (auto simp: load_events_def map_err_def attempt_def on_store_def zoom_def load_act_def ok_def err_def
      split: prod.splits sum.splits)

lemma ensure_state:
  "ensure_thread rt t s = (r, s') \<Longrightarrow> s' = s"
  "ensure_turn_unused rt t u s = (q, s') \<Longrightarrow> s' = s"
  by (auto simp: ensure_thread_def ensure_turn_unused_def and_then_def ok_def err_def
      dest!: load_events_state split: prod.splits sum.splits if_splits)

lemma bs_remove_insert: "t \<notin> set xs \<Longrightarrow> bs_remove t (bs_insert t xs) = xs"
  by (induction xs) (auto simp: bs_remove_def filter_id_conv)

text \<open>A run is refused with nothing changed, or recovers under the guard and then stops with the
  recovery's error or runs the turn; the guard is released at the end.\<close>

lemma run_turn_cases:
  assumes "run_turn_with_id rt t u input s = (r, s')"
  obtains (refused) "r_store s' = r_store s" "r_notified s' = r_notified s" "r_active s' = r_active s" "isl r"
  | (stopped) x s1 where "t \<notin> set (r_active s)" "\<not> r_active_poisoned s"
      "recover_exclusive rt t (s\<lparr>r_active := bs_insert t (r_active s)\<rparr>) = (Inl x, s1)"
      "r = Inl x" "s' = release_thread t s1"
  | (ran) report s1 s2 where "t \<notin> set (r_active s)" "\<not> r_active_poisoned s"
      "recover_exclusive rt t (s\<lparr>r_active := bs_insert t (r_active s)\<rparr>) = (Inr report, s1)"
      "start_turn rt t u input s1 = (r, s2)" "s' = release_thread t s2"
proof -
  obtain r0 s0 where e: "ensure_thread rt t s = (r0, s0)" by fastforce
  with ensure_state have [simp]: "s0 = s" by blast
  let ?s = "s\<lparr>r_active := bs_insert t (r_active s)\<rparr>"
  show ?thesis
  proof (cases r0)
    case (Inl x)
    with assms e show ?thesis by (intro refused) (auto simp: run_turn_with_id_def and_then_def)
  next
    case ok0: (Inr x)
    show ?thesis
    proof (cases "r_active_poisoned s \<or> t \<in> set (r_active s)")
      case True
      with assms e ok0 show ?thesis
        by (intro refused)
          (auto simp: run_turn_with_id_def and_then_def with_thread_def acquire_thread_def split: if_splits)
    next
      case free: False
      obtain r1 s1 where un: "ensure_turn_unused rt t u ?s = (r1, s1)" by fastforce
      with ensure_state(2) have [simp]: "s1 = ?s" by blast
      have undo: "bs_remove t (bs_insert t (r_active s)) = r_active s"
        using free by (simp add: bs_remove_insert)
      show ?thesis
      proof (cases r1)
        case (Inl x)
        with assms e ok0 free un show ?thesis
          by (intro refused) (auto simp: run_turn_with_id_def and_then_def with_thread_def
              acquire_thread_def release_thread_def undo)
      next
        case ok1: (Inr x)
        obtain r2 s2 where rec: "recover_exclusive rt t ?s = (r2, s2)" by fastforce
        show ?thesis
        proof (cases r2)
          case (Inl x)
          with assms e ok0 free un ok1 rec show ?thesis
            by (intro stopped [of x s2])
              (auto simp: run_turn_with_id_def and_then_def with_thread_def acquire_thread_def)
        next
          case (Inr report)
          obtain r3 s3 where "start_turn rt t u input s2 = (r3, s3)" by fastforce
          with assms e ok0 free un ok1 rec Inr show ?thesis
            by (intro ran [of report s2 s3])
              (auto simp: run_turn_with_id_def and_then_def with_thread_def acquire_thread_def)
        qed
      qed
    qed
  qed
qed

section \<open>The guard\<close>

lemma frame_active_append:
  "preserves (\<lambda>s. r_active s = A \<and> r_active_poisoned s = p) (append_event rt t u e)"
proof -
  have "preserves (\<lambda>s. r_active s = A \<and> r_active_poisoned s = p) (on_store m)" for m
    unfolding preserves_def by (rule tripleI) (auto simp: on_store_def zoom_def split: prod.splits)
  moreover have "preserves (\<lambda>s. r_active s = A \<and> r_active_poisoned s = p) (notify rt v)" for v
    unfolding preserves_def by (rule tripleI) (auto simp: notify_def writes_def)
  ultimately show ?thesis
    unfolding append_event_def map_err_def by (intro frame)
qed

lemma preserves_load: "preserves I (load_events rt t)"
  unfolding preserves_def by (rule tripleI) (auto dest: load_events_state)

interpretation active_frame: turn_frame rt t "\<lambda>s. r_active s = A \<and> r_active_poisoned s = p"
  for rt :: "('s, 'w) runtime" and t A p
  by unfold_locales (auto intro: frame_active_append preserves_load ask_approval_kept)

lemma recover_exclusive_active:
  "preserves (\<lambda>s. r_active s = A \<and> r_active_poisoned s = p) (recover_exclusive rt t)"
proof -
  let ?I = "\<lambda>s. r_active s = A \<and> r_active_poisoned s = p"
  have "preserves ?I (on_store m)" for m
    unfolding preserves_def by (rule tripleI) (auto simp: on_store_def zoom_def split: prod.splits)
  moreover have "preserves ?I (notify rt v)" for v
    unfolding preserves_def by (rule tripleI) (auto simp: notify_def writes_def)
  moreover have "preserves ?I (for_each vs (\<lambda>v. if b v then notify rt v else ok ()))" for vs b
    using calculation(2) by (induction vs) (auto intro!: frame)
  ultimately show ?thesis
    unfolding recover_exclusive_def map_err_def Let_def by (intro frame preserves_load)
qed

lemma run_turn_active:
  assumes "run_turn_with_id rt t u input s = (r, s')"
  shows "r_active s' = r_active s"
  using assms
proof (cases rule: run_turn_cases)
  case (stopped x s1)
  let ?A = "bs_insert t (r_active s)"
  have "r_active s1 = ?A \<and> r_active_poisoned s1 = False"
    by (rule preservesD [OF recover_exclusive_active _ stopped(3)]) (use stopped in simp)
  with stopped show ?thesis by (simp add: release_thread_def bs_remove_insert)
next
  case (ran report s1 s2)
  let ?A = "bs_insert t (r_active s)"
  have "r_active s1 = ?A \<and> r_active_poisoned s1 = False"
    by (rule preservesD [OF recover_exclusive_active _ ran(3)]) (use ran in simp)
  then have "r_active s2 = ?A \<and> r_active_poisoned s2 = False"
    by (rule preservesD [OF active_frame.frame_start_turn _ ran(4)])
  with ran show ?thesis by (simp add: release_thread_def bs_remove_insert)
qed

section \<open>Observers\<close>

definition notices :: "('s, 'w) runtime \<Rightarrow> event_envelope list \<Rightarrow> (nat \<times> event_envelope) list" where
  "notices rt vs = concat (map (\<lambda>v. map (\<lambda>i. (i, v)) [0..<rt_observers rt]) vs)"

lemma notices_snoc [simp]:
  "notices rt [] = []" "notices rt (vs @ [v]) = notices rt vs @ map (\<lambda>i. (i, v)) [0..<rt_observers rt]"
  by (simp_all add: notices_def)

text \<open>Since the log was \<open>L\<close> and the notifications \<open>N\<close>, exactly the new events were told.\<close>

definition informed ::
  "('s, 'w) runtime \<Rightarrow> (thread_id \<Rightarrow> 's \<Rightarrow> event_envelope list) \<Rightarrow> thread_id \<Rightarrow> event_envelope list \<Rightarrow>
   (nat \<times> event_envelope) list \<Rightarrow> ('s, 'w) rstate \<Rightarrow> bool" where
  "informed rt log t L N s \<longleftrightarrow>
     (\<exists>vs. log t (r_store s) = L @ vs \<and> r_notified s = N @ notices rt vs)"

context served_runtime
begin

lemma append_event_cases:
  assumes "append_event rt t u e s = (r, s')"
  obtains (added) v where "r = Inr v" "log t (r_store s') = log t (r_store s) @ [v]"
      "r_notified s' = r_notified s @ map (\<lambda>i. (i, v)) [0..<rt_observers rt]"
  | (rejected) x where "r = Inl (Runtime_Store x)" "log t (r_store s') = log t (r_store s)"
      "r_notified s' = r_notified s"
proof -
  obtain q x where a: "rt_append rt t u e (r_store s) = (q, x)" by fastforce
  show ?thesis
  proof (cases q)
    case (Inl y)
    with assms a log_failed [of t u e "r_store s" y x] show ?thesis
      by (intro rejected [of y])
        (auto simp: append_event_def and_then_def map_err_def attempt_def on_store_def zoom_def err_def)
  next
    case (Inr v)
    with assms a log_append [of t u e "r_store s" v x] show ?thesis
      by (intro added [of v])
        (auto simp: append_event_def and_then_def map_err_def attempt_def on_store_def zoom_def ok_def
          notify_def writes_def)
  qed
qed

lemma frame_informed_append: "preserves (informed rt log t L N) (append_event rt t u e)"
  unfolding preserves_def
proof (rule tripleI)
  show "informed rt log t L N s'"
    if "informed rt log t L N s" "append_event rt t u e s = (Inr v, s')" for s v s'
    using that(2,1)
  proof (cases rule: append_event_cases)
    case (added v)
    with that(1) obtain vs where "log t (r_store s') = L @ vs @ [v]"
      "r_notified s' = N @ notices rt (vs @ [v])"
      by (auto simp: informed_def)
    then show ?thesis unfolding informed_def by blast
  qed (simp add: informed_def)
  show "informed rt log t L N s'"
    if "informed rt log t L N s" "append_event rt t u e s = (Inl x, s')" for s x s'
    using that(2,1) by (cases rule: append_event_cases) (auto simp: informed_def)
qed

lemma turn_frame_informed: "turn_frame rt t (informed rt log t L N)"
  by unfold_locales (auto intro: frame_informed_append preserves_load ask_approval_kept simp: informed_def)

text \<open>Recovery tells only what is in the log.\<close>

definition told :: "thread_id \<Rightarrow> (nat \<times> event_envelope) list \<Rightarrow> ('s, 'w) rstate \<Rightarrow> bool" where
  "told t N s \<longleftrightarrow> (\<exists>ns. r_notified s = N @ ns \<and> snd ` set ns \<subseteq> set (log t (r_store s)))"

lemma told_notify:
  "triple (\<lambda>s. told t N s \<and> v \<in> set (log t (r_store s)) \<and> log t (r_store s) = L) (notify rt v)
     (\<lambda>_ s. told t N s \<and> log t (r_store s) = L) E"
proof (rule tripleI)
  fix s :: "('s, 'w) rstate" and a s'
  assume "told t N s \<and> v \<in> set (log t (r_store s)) \<and> log t (r_store s) = L" "notify rt v s = (Inr a, s')"
  then obtain ns where "r_notified s = N @ ns" "snd ` set ns \<subseteq> set (log t (r_store s))"
    "r_notified s' = r_notified s @ map (\<lambda>i. (i, v)) [0..<rt_observers rt]" "r_store s' = r_store s"
    "v \<in> set L" "log t (r_store s) = L"
    by (auto simp: told_def notify_def writes_def)
  then show "told t N s' \<and> log t (r_store s') = L"
    unfolding told_def by (intro conjI exI [of _ "ns @ map (\<lambda>i. (i, v)) [0..<rt_observers rt]"]) auto
qed (simp add: notify_def writes_def)

lemma told_notify_each:
  "triple (\<lambda>s. told t N s \<and> log t (r_store s) = L)
     (for_each L (\<lambda>v. if b v then notify rt v else ok ()))
     (\<lambda>_ s. told t N s \<and> log t (r_store s) = L) E"
  by (rule triple_for_each [where I = "\<lambda>_ s. told t N s \<and> log t (r_store s) = L"])
    (auto intro!: triple_okI intro: triple_pre [OF told_notify])

lemma recover_exclusive_told:
  assumes "recover_exclusive rt t s = (r, s')"
  shows "told t (r_notified s) s'"
proof -
  let ?N = "r_notified s"
  let ?rec = "map_err Runtime_Store (on_store (recover_thread (rt_append rt) (rt_load rt) t))"
  have keep: "triple (told t ?N) (load_events rt t) (\<lambda>es s. told t ?N s \<and> es = log t (r_store s)) (\<lambda>_. told t ?N)"
  proof (rule tripleI)
    fix s1 es s2 assume s1: "told t ?N s1" and l: "load_events rt t s1 = (Inr es, s2)"
    then have "es = log t (r_store s1)"
      by (auto simp: load_events_def map_err_def attempt_def on_store_def zoom_def load_act_def ok_def err_def
          dest: log_load split: sum.splits)
    with s1 load_events_state [OF l] show "told t ?N s2 \<and> es = log t (r_store s2)" by simp
  qed (auto dest: load_events_state)
  have "told t ?N s2" if "told t ?N s1" "?rec s1 = (q, s2)" for s1 q s2
  proof -
    obtain x y where rec: "recover_thread (rt_append rt) (rt_load rt) t (r_store s1) = (x, y)" by fastforce
    from recover_thread_log [OF rec] obtain vs where "log t y = log t (r_store s1) @ vs" by blast
    moreover have "r_store s2 = y" "r_notified s2 = r_notified s1"
      using that(2) rec
      by (auto simp: map_err_def attempt_def on_store_def zoom_def ok_def err_def split: sum.splits)
    ultimately show ?thesis using that(1) by (auto simp: told_def)
  qed
  then have rec: "triple (told t ?N) ?rec (\<lambda>_. told t ?N) (\<lambda>_. told t ?N)"
    by (intro tripleI) blast+
  have notify: "triple (\<lambda>s. told t ?N s \<and> es = log t (r_store s))
      (and_then (for_each es (\<lambda>v. if b v then notify rt v else ok ())) (\<lambda>_. ok report))
      (\<lambda>_. told t ?N) (\<lambda>_. told t ?N)" for es b and report :: recovery_report
  proof (rule triple_and_then)
    show "triple (\<lambda>s. told t ?N s \<and> es = log t (r_store s))
        (for_each es (\<lambda>v. if b v then notify rt v else ok ())) (\<lambda>_. told t ?N) (\<lambda>_. told t ?N)"
      by (rule triple_weaken [OF told_notify_each [of t ?N es b "\<lambda>_. told t ?N"]]) auto
  qed (rule triple_okI)
  have "triple (told t ?N) (recover_exclusive rt t) (\<lambda>_. told t ?N) (\<lambda>_. told t ?N)"
    unfolding recover_exclusive_def Let_def
  proof (rule triple_and_then [OF keep], rule triple_and_then)
    show "triple (\<lambda>s. told t ?N s \<and> es = log t (r_store s)) ?rec (\<lambda>_. told t ?N) (\<lambda>_. told t ?N)" for es
      by (rule triple_pre [OF rec]) simp
    show "triple (told t ?N)
       (if receipts_recorded report \<noteq> [] \<or> turns_marked_failed report \<noteq> []
        then and_then (load_events rt t) (\<lambda>es. and_then (for_each es (\<lambda>v.
          if (if events = [] then 0 else saturating_add (ev_sequence (last events)) 1) \<le> ev_sequence v
          then notify rt v else ok ())) (\<lambda>_. ok report))
        else ok report) (\<lambda>_. told t ?N) (\<lambda>_. told t ?N)"
      for report :: recovery_report and events :: "event_envelope list"
      by (split if_split, intro conjI impI) (rule triple_and_then [OF keep notify], rule triple_okI)
  qed
  moreover have "told t ?N s" by (simp add: told_def)
  ultimately show ?thesis using assms by (cases r) (auto dest: triple_value triple_error)
qed

end

end
