(* ===== verification/JsonlStore.thy ===== *)
theory JsonlStore
  imports Store "HOL-Library.Sublist"
begin

text \<open>
  The append-only JSONL store of crates/harness-core/src/store.rs: opening a log, which repairs a
  torn final record after saving it to a backup file, and appending to it. The files of the
  directory and the host that performs the operations are the state of \<open>jsonl_open\<close>; the text
  codec of envelopes is a parameter.
\<close>

section \<open>The disk\<close>

record disk =
  d_files :: "(string \<times> string) list" \<comment> \<open>path and bytes\<close>
  d_host :: host

definition file_bytes :: "(string \<times> string) list \<Rightarrow> string \<Rightarrow> string" where
  "file_bytes files path = (case bt_get files path of Some b \<Rightarrow> b | None \<Rightarrow> [])"

abbreviation contents :: "disk \<Rightarrow> string \<Rightarrow> string" where
  "contents d path \<equiv> file_bytes (d_files d) path"

definition put_file :: "string \<Rightarrow> string \<Rightarrow> disk \<Rightarrow> disk" where
  "put_file path bytes d = d\<lparr>d_files := bt_insert path bytes (d_files d)\<rparr>"

text \<open>An operation that changes no file: an open, a read, a flush, a sync.\<close>

definition disk_io :: "(disk, store_error, unit) act" where
  "disk_io d =
     (case io_step (d_host d) of
        (Io_ok, h) \<Rightarrow> (Inr (), d\<lparr>d_host := h\<rparr>)
      | (Io_error e n, h) \<Rightarrow> (Inl (Store_Io e), d\<lparr>d_host := h\<rparr>))"

text \<open>\<open>OpenOptions::new().create(true).read(true).append(true).open(path)\<close>\<close>

definition open_log :: "string \<Rightarrow> (disk, store_error, unit) act" where
  "open_log path =
     and_then disk_io (\<lambda>_. writes (\<lambda>d. if bt_get (d_files d) path = None then put_file path [] d else d))"

definition create_new :: "string \<Rightarrow> (disk, store_error, unit) act" where
  "create_new path =
     and_then disk_io (\<lambda>_ d.
       if bt_get (d_files d) path \<noteq> None then (Inl (Store_Io ''File exists (os error 17)''), d)
       else (Inr (), put_file path [] d))"

definition write_file :: "string \<Rightarrow> string \<Rightarrow> (disk, store_error, unit) act" where
  "write_file path bytes d =
     (case io_step (d_host d) of
        (Io_ok, h) \<Rightarrow> (Inr (), put_file path (contents d path @ bytes) (d\<lparr>d_host := h\<rparr>))
      | (Io_error e n, h) \<Rightarrow>
          (Inl (Store_Io e), put_file path (contents d path @ take n bytes) (d\<lparr>d_host := h\<rparr>)))"

definition set_len :: "string \<Rightarrow> nat \<Rightarrow> (disk, store_error, unit) act" where
  "set_len path n =
     and_then disk_io (\<lambda>_. writes (\<lambda>d. put_file path (take n (contents d path)) d))"

definition disk_EventId :: "(disk, store_error, event_id) act" where
  "disk_EventId d = (case EventId_new (d_host d) of (i, h) \<Rightarrow> (Inr i, d\<lparr>d_host := h\<rparr>))"

section \<open>Opening a log\<close>

record log_scan =
  sc_events :: "event_envelope list"
  sc_line :: nat
  sc_valid_bytes :: nat
  sc_torn_tail :: "string option"
  sc_needs_newline :: bool

definition scan_start :: log_scan where
  "scan_start = \<lparr>sc_events = [], sc_line = 0, sc_valid_bytes = 0, sc_torn_tail = None,
     sc_needs_newline = False\<rparr>"

text \<open>The body of the loop for one line that was read: leave with an error, stop (\<open>break\<close>) or
  go on.\<close>

definition scan_line ::
  "(string \<Rightarrow> event_envelope decoded) \<Rightarrow> string \<Rightarrow> log_scan \<Rightarrow> store_error + bool \<times> log_scan" where
  "scan_line decode line sc0 =
     (let sc = sc0\<lparr>sc_line := sc_line sc0 + 1\<rparr>;
          onward = (\<lambda>sc. Inr (True,
            sc\<lparr>sc_valid_bytes := sc_valid_bytes sc + length line,
               sc_needs_newline := \<not> terminated line\<rparr>))
      in if list_all is_ascii_whitespace line then onward sc
         else case decode line of
           Decoded event \<Rightarrow> onward (sc\<lparr>sc_events := sc_events sc @ [event]\<rparr>)
         | Undecodable is_eof m \<Rightarrow>
             if \<not> terminated line \<and> is_eof then Inr (False, sc\<lparr>sc_torn_tail := Some line\<rparr>)
             else Inl (Corrupt (sc_line sc) m))"

fun scan_lines ::
  "(string \<Rightarrow> event_envelope decoded) \<Rightarrow> string list \<Rightarrow> log_scan \<Rightarrow> (disk, store_error, log_scan) act"
where
  "scan_lines decode [] sc = and_then disk_io (\<lambda>_. ok sc)"
| "scan_lines decode (l # ls) sc =
     and_then disk_io (\<lambda>_.
       case scan_line decode l sc of
         Inl e \<Rightarrow> err e
       | Inr (True, sc') \<Rightarrow> scan_lines decode ls sc'
       | Inr (False, sc') \<Rightarrow> ok sc')"

text \<open>The repair: the torn bytes are written to a new backup file and synced, directory
  included, before the log is cut; a complete record without its newline gets one.\<close>

definition repair_log :: "string \<Rightarrow> log_scan \<Rightarrow> (disk, store_error, string option) act" where
  "repair_log path sc =
     (case sc_torn_tail sc of
        Some bytes \<Rightarrow>
          and_then disk_EventId (\<lambda>i.
            let backup = path @ ''.torn-'' @ i
            in and_then (create_new backup) (\<lambda>_.
               and_then (write_file backup bytes) (\<lambda>_.
               and_then disk_io (\<lambda>_.
               and_then disk_io (\<lambda>_.
               and_then disk_io (\<lambda>_.
               and_then (set_len path (sc_valid_bytes sc)) (\<lambda>_.
               and_then disk_io (\<lambda>_. ok (Some backup)))))))))
      | None \<Rightarrow>
          if sc_needs_newline sc then
            and_then (write_file path [newline]) (\<lambda>_.
            and_then disk_io (\<lambda>_. ok None))
          else ok None)"

record jsonl_store =
  js_path :: string
  js_recovered_tail :: "string option"
  js_poisoned :: bool
  js_file :: log_file
  js_next_sequence :: u64
  js_events :: "event_envelope list"
  js_write_failed :: bool

definition next_sequence_of :: "event_envelope list \<Rightarrow> u64" where
  "next_sequence_of es = (if es = [] then 0 else Max (set (map ev_sequence es)) + 1)"

definition jsonl_open ::
  "(string \<Rightarrow> event_envelope decoded) \<Rightarrow> string \<Rightarrow> (disk, store_error, jsonl_store) act" where
  "jsonl_open decode path =
     and_then (open_log path) (\<lambda>_.
     and_then (reads (\<lambda>d. split_lines (contents d path))) (\<lambda>lines.
     and_then (scan_lines decode lines scan_start) (\<lambda>sc.
     and_then (repair_log path sc) (\<lambda>recovered_tail.
     let events = sort_key ev_sequence (sc_events sc)
     in reads (\<lambda>d. \<lparr>js_path = path, js_recovered_tail = recovered_tail, js_poisoned = False,
          js_file = \<lparr>lf_bytes = contents d path, lf_host = d_host d\<rparr>,
          js_next_sequence = next_sequence_of events, js_events = events,
          js_write_failed = False\<rparr>)))))"

section \<open>Appending and loading\<close>

definition jsonl_append ::
  "(event_envelope \<Rightarrow> string + string) \<Rightarrow> jsonl_store store_append" where
  "jsonl_append encode thread turn event s =
     (if js_poisoned s then (Inl Poisoned, s)
      else if js_write_failed s
        then (Inl (Store_Io ''a previous append failed; reopen the event store before writing''), s)
      else let (v, h) = make_envelope (js_next_sequence s) thread turn event (lf_host (js_file s));
               s1 = s\<lparr>js_file := (js_file s)\<lparr>lf_host := h\<rparr>\<rparr>
           in case encode v of
                Inl m \<Rightarrow> (Inl (Serialization m), s1)
              | Inr encoded \<Rightarrow>
                  (case append_line encoded (js_file s1) of
                     (Inl m, f) \<Rightarrow> (Inl (Store_Io m), s1\<lparr>js_file := f, js_write_failed := True\<rparr>)
                   | (Inr _, f) \<Rightarrow>
                       (Inr v, s1\<lparr>js_file := f, js_write_failed := False,
                                  js_next_sequence := js_next_sequence s1 + 1,
                                  js_events := js_events s1 @ [v]\<rparr>)))"

definition jsonl_load :: "jsonl_store store_load" where
  "jsonl_load thread s =
     (if js_poisoned s then Inl Poisoned
      else Inr (filter (\<lambda>v. ev_thread_id v = thread) (js_events s)))"

text \<open>The envelope a call makes.\<close>

definition attempted ::
  "thread_id \<Rightarrow> turn_id option \<Rightarrow> runtime_event \<Rightarrow> jsonl_store \<Rightarrow> event_envelope" where
  "attempted t u e s = fst (make_envelope (js_next_sequence s) t u e (lf_host (js_file s)))"

text \<open>What an append can do: refuse without writing, fail with a prefix of the record in the
  file, or acknowledge the record.\<close>

lemma jsonl_append_cases:
  assumes "jsonl_append encode t u e s = (r, s')"
  obtains (refused) x f where "r = Inl x" "s' = s\<lparr>js_file := f\<rparr>" "lf_bytes f = lf_bytes (js_file s)"
  | (failed) v encoded m f p q where "r = Inl (Store_Io m)" "\<not> js_write_failed s"
      "v = attempted t u e s" "encode v = Inr encoded" "ev_sequence v = js_next_sequence s" "ev_thread_id v = t"
      "ev_turn_id v = u" "ev_event v = e" "encoded @ [newline] = p @ q"
      "lf_bytes f = lf_bytes (js_file s) @ p"
      "s' = s\<lparr>js_file := f, js_write_failed := True\<rparr>"
  | (acknowledged) v encoded f where "r = Inr v" "\<not> js_write_failed s"
      "v = attempted t u e s" "encode v = Inr encoded" "ev_sequence v = js_next_sequence s" "ev_thread_id v = t"
      "ev_turn_id v = u" "ev_event v = e"
      "lf_bytes f = lf_bytes (js_file s) @ encoded @ [newline]"
      "s' = s\<lparr>js_file := f, js_write_failed := False, js_next_sequence := js_next_sequence s + 1,
              js_events := js_events s @ [v]\<rparr>"
proof (cases "js_poisoned s \<or> js_write_failed s")
  case True
  with assms show ?thesis
    by (intro refused [of "projl r" "js_file s"]) (auto simp: jsonl_append_def split: if_splits)
next
  case False
  obtain v h where v: "make_envelope (js_next_sequence s) t u e (lf_host (js_file s)) = (v, h)"
    by fastforce
  have made: "v = attempted t u e s" using v by (simp add: attempted_def)
  note fields = make_envelope_result [OF v]
  let ?f = "(js_file s)\<lparr>lf_host := h\<rparr>"
  show ?thesis
  proof (cases "encode v")
    case (Inl m)
    with assms v False show ?thesis
      by (intro refused [of "Serialization m" ?f]) (auto simp: jsonl_append_def Let_def)
  next
    case (Inr encoded)
    obtain w f where w: "append_line encoded ?f = (w, f)" by fastforce
    show ?thesis
    proof (cases w)
      case (Inl m)
      with w have "append_line encoded ?f = (Inl m, f)" by simp
      from append_line_failed [OF this] obtain p q
        where "encoded @ [newline] = p @ q" "lf_bytes f = lf_bytes ?f @ p" by (elim exE conjE)
      moreover have "jsonl_append encode t u e s =
          (Inl (Store_Io m), s\<lparr>js_file := f, js_write_failed := True\<rparr>)"
        using v False Inr Inl w by (simp add: jsonl_append_def)
      ultimately show ?thesis
        using assms False Inr fields made by (intro failed [of m v encoded p q f]) simp_all
    next
      case (Inr u')
      with w have "lf_bytes f = lf_bytes ?f @ encoded @ [newline]"
        by (auto dest: append_line_appended)
      moreover have "jsonl_append encode t u e s =
          (Inr v, s\<lparr>js_file := f, js_write_failed := False,
             js_next_sequence := js_next_sequence s + 1, js_events := js_events s @ [v]\<rparr>)"
        using v False \<open>encode v = Inr encoded\<close> Inr w by (simp add: jsonl_append_def)
      ultimately show ?thesis
        using assms False \<open>encode v = Inr encoded\<close> fields made
        by (intro acknowledged [of v encoded f]) simp_all
    qed
  qed
qed

section \<open>The store keeps its contract\<close>

text \<open>The log holds the acknowledged events, followed by a prefix of the one record whose append
  failed; after a failure nothing is written behind that prefix.\<close>

definition jsonl_inv ::
  "(event_envelope \<Rightarrow> string + string) \<Rightarrow> event_envelope option \<Rightarrow> jsonl_store \<Rightarrow> bool" where
  "jsonl_inv encode pend s \<longleftrightarrow>
     log_holds encode (js_events s) pend (lf_bytes (js_file s)) \<and>
     (js_write_failed s \<or> pend = None) \<and>
     sequence_ok (js_next_sequence s) (js_events s) \<and>
     (\<forall>e. pend = Some e \<longrightarrow> ev_sequence e = js_next_sequence s)"

interpretation jsonl: event_store "jsonl_append encode" jsonl_load js_events
  for encode :: "event_envelope \<Rightarrow> string + string"
  by unfold_locales
    (auto simp: jsonl_load_def thread_events_def split: if_splits elim!: jsonl_append_cases)

interpretation jsonlseq: sequenced_store "jsonl_append encode" jsonl_load js_events
    "\<lambda>s. sequence_ok (js_next_sequence s) (js_events s)" "\<lambda>s. js_next_sequence s \<noteq> - 1"
  for encode :: "event_envelope \<Rightarrow> string + string"
proof
  show "sequence_ok (js_next_sequence s') (js_events s')"
    if "jsonl_append encode t u e s = (r, s')" "sequence_ok (js_next_sequence s) (js_events s)"
      "js_next_sequence s \<noteq> - 1" for t u e s r s'
    using that by (auto elim!: jsonl_append_cases intro: sequence_ok_snoc)
qed (simp add: sequence_ok_def)

lemma jsonl_inv_append:
  assumes a: "jsonl_append encode t u e s = (r, s')" and i: "jsonl_inv encode pend s"
    and n: "js_next_sequence s \<noteq> - 1"
  obtains "isl r" "jsonl_inv encode pend s'" "js_events s' = js_events s"
      "js_next_sequence s' = js_next_sequence s"
    | v where "isl r" "jsonl_inv encode (Some v) s'" "js_events s' = js_events s"
      "js_next_sequence s' = js_next_sequence s" "pend = None" "v = attempted t u e s"
    | v where "r = Inr v" "jsonl_inv encode None s'" "js_events s' = js_events s @ [v]"
      "js_next_sequence s' = js_next_sequence s + 1" "v = attempted t u e s"
  using a
proof (cases rule: jsonl_append_cases)
  case (refused x f)
  with i show ?thesis by (intro that(1)) (simp_all add: jsonl_inv_def)
next
  case (failed v encoded m f p q)
  with i have "pend = None" by (simp add: jsonl_inv_def)
  with failed i have "jsonl_inv encode (Some v) s'"
    using log_holds_pending [of encode "js_events s" "lf_bytes (js_file s)" v encoded p q]
    by (simp add: jsonl_inv_def)
  with failed \<open>pend = None\<close> show ?thesis by (intro that(2) [of v]) simp_all
next
  case (acknowledged v encoded f)
  with i have "pend = None" by (simp add: jsonl_inv_def)
  with acknowledged i n have "jsonl_inv encode None s'"
    using log_holds_snoc [of encode "js_events s" "lf_bytes (js_file s)" v encoded]
      sequence_ok_snoc [of "js_next_sequence s" "js_events s" v]
    by (simp add: jsonl_inv_def)
  with acknowledged show ?thesis by (intro that(3) [of v]) simp_all
qed

section \<open>Opening after a crash\<close>

text \<open>Assertions about the files; with \<open>\<phi>\<close> the host's operations succeed, and then an error is
  impossible.\<close>

definition on_files ::
  "bool \<Rightarrow> ((string \<times> string) list \<Rightarrow> bool) \<Rightarrow> disk \<Rightarrow> bool" where
  "on_files \<phi> G d \<longleftrightarrow> G (d_files d) \<and> (\<phi> \<longrightarrow> h_io (d_host d) = (\<lambda>_. Io_ok))"

definition io_failed :: "bool \<Rightarrow> ((string \<times> string) list \<Rightarrow> bool) \<Rightarrow> store_error \<Rightarrow> disk \<Rightarrow> bool" where
  "io_failed \<phi> G e d \<longleftrightarrow> \<not> \<phi> \<and> G (d_files d) \<and> (\<exists>m. e = Store_Io m)"

lemma io_failed_mono: "io_failed \<phi> G e d \<Longrightarrow> (\<And>fs. G fs \<Longrightarrow> H fs) \<Longrightarrow> io_failed \<phi> H e d"
  by (simp add: io_failed_def)

lemma on_files_mono: "on_files \<phi> G d \<Longrightarrow> (\<And>fs. G fs \<Longrightarrow> H fs) \<Longrightarrow> on_files \<phi> H d"
  by (simp add: on_files_def)

lemma triple_disk_io [wp]:
  "(\<And>fs. G fs \<Longrightarrow> H fs) \<Longrightarrow> triple (on_files \<phi> G) disk_io (\<lambda>_. on_files \<phi> G) (io_failed \<phi> H)"
  by (rule tripleI) (auto simp: disk_io_def on_files_def io_failed_def io_step_def
      split: io_outcome.splits)

lemma triple_open_log [wp]:
  assumes "\<And>fs. G fs \<Longrightarrow> H fs" and "\<And>fs. G fs \<Longrightarrow> bt_get fs path = None \<Longrightarrow> G (bt_insert path [] fs)"
  shows "triple (on_files \<phi> G) (open_log path) (\<lambda>_. on_files \<phi> G) (io_failed \<phi> H)"
  unfolding open_log_def
proof (rule triple_and_then)
  show "triple (on_files \<phi> G) disk_io (\<lambda>_. on_files \<phi> G) (io_failed \<phi> H)"
    using assms(1) by (rule triple_disk_io)
  show "triple (on_files \<phi> G)
      (writes (\<lambda>d. if bt_get (d_files d) path = None then put_file path [] d else d))
      (\<lambda>_. on_files \<phi> G) (io_failed \<phi> H)" for a
    using assms(2) by (intro tripleI) (auto simp: writes_def on_files_def put_file_def)
qed

lemma triple_create_new [wp]:
  assumes "\<And>fs. G fs \<Longrightarrow> H fs" and "\<And>fs. G fs \<Longrightarrow> \<phi> \<Longrightarrow> bt_get fs path = None"
  shows "triple (on_files \<phi> G) (create_new path)
     (\<lambda>_. on_files \<phi> (\<lambda>fs. \<exists>fs0. G fs0 \<and> bt_get fs0 path = None \<and> fs = bt_insert path [] fs0))
     (io_failed \<phi> H)"
  unfolding create_new_def
proof (rule triple_and_then)
  show "triple (on_files \<phi> G) disk_io (\<lambda>_. on_files \<phi> G) (io_failed \<phi> H)"
    using assms(1) by (rule triple_disk_io)
  show "triple (on_files \<phi> G)
      (\<lambda>d. if bt_get (d_files d) path \<noteq> None then (Inl (Store_Io ''File exists (os error 17)''), d)
        else (Inr (), put_file path [] d))
      (\<lambda>_. on_files \<phi> (\<lambda>fs. \<exists>fs0. G fs0 \<and> bt_get fs0 path = None \<and> fs = bt_insert path [] fs0))
      (io_failed \<phi> H)" for a
    using assms
    by (intro tripleI) (fastforce simp: on_files_def io_failed_def put_file_def split: if_splits)+
qed

lemma triple_write_file [wp]:
  assumes "\<And>fs n. G fs \<Longrightarrow> H (bt_insert path (file_bytes fs path @ take n bytes) fs)"
  shows "triple (on_files \<phi> G) (write_file path bytes)
     (\<lambda>_. on_files \<phi> (\<lambda>fs. \<exists>fs0. G fs0 \<and> fs = bt_insert path (file_bytes fs0 path @ bytes) fs0))
     (io_failed \<phi> H)"
  using assms
  by (intro tripleI)
    (auto simp: write_file_def on_files_def io_failed_def io_step_def put_file_def
      split: io_outcome.splits)

lemma triple_set_len [wp]:
  assumes "\<And>fs. G fs \<Longrightarrow> H fs"
  shows "triple (on_files \<phi> G) (set_len path n)
     (\<lambda>_. on_files \<phi> (\<lambda>fs. \<exists>fs0. G fs0 \<and> fs = bt_insert path (take n (file_bytes fs0 path)) fs0))
     (io_failed \<phi> H)"
  unfolding set_len_def
proof (rule triple_and_then)
  show "triple (on_files \<phi> G) disk_io (\<lambda>_. on_files \<phi> G) (io_failed \<phi> H)"
    using assms by (rule triple_disk_io)
  show "triple (on_files \<phi> G) (writes (\<lambda>d. put_file path (take n (contents d path)) d))
     (\<lambda>_. on_files \<phi> (\<lambda>fs. \<exists>fs0. G fs0 \<and> fs = bt_insert path (take n (file_bytes fs0 path)) fs0))
     (io_failed \<phi> H)" for a
    by (intro tripleI) (auto simp: writes_def on_files_def put_file_def)
qed

lemma triple_disk_EventId [wp]:
  "triple (on_files \<phi> G) disk_EventId (\<lambda>_. on_files \<phi> G) E"
proof (rule tripleI)
  show "on_files \<phi> G d'" if "on_files \<phi> G d" "disk_EventId d = (Inr a, d')" for d a d'
    using that generated_id_host(3) [of "''event''" "d_host d"]
    by (auto simp: disk_EventId_def on_files_def EventId_new_def simp del: generated_id_host
        split: prod.splits)
qed (auto simp: disk_EventId_def split: prod.splits)

text \<open>What the scan of a log that holds \<open>es\<close> and perhaps a part of \<open>pend\<close> finds.\<close>

definition scan_found ::
  "(event_envelope \<Rightarrow> string + string) \<Rightarrow> event_envelope list \<Rightarrow> event_envelope option \<Rightarrow> string \<Rightarrow>
   log_scan \<Rightarrow> bool" where
  "scan_found encode es pend b sc \<longleftrightarrow>
     (case sc_torn_tail sc of
        Some t \<Rightarrow> sc_events sc = es \<and> b = concat (map (line_of encode) es) @ t \<and>
          sc_valid_bytes sc = length (concat (map (line_of encode) es)) \<and> pend \<noteq> None
      | None \<Rightarrow> (sc_events sc = es \<or> (\<exists>e. pend = Some e \<and> sc_events sc = es @ [e])) \<and>
          concat (map (line_of encode) (sc_events sc)) =
            (if sc_needs_newline sc then b @ [newline] else b) \<and>
          (sc_needs_newline sc \<longrightarrow> pend \<noteq> None))"

definition scanned ::
  "(event_envelope \<Rightarrow> string + string) \<Rightarrow> event_envelope list \<Rightarrow> log_scan" where
  "scanned encode es = \<lparr>sc_events = es, sc_line = length es,
     sc_valid_bytes = length (concat (map (line_of encode) es)), sc_torn_tail = None,
     sc_needs_newline = False\<rparr>"

lemma scan_start_scanned: "scan_start = scanned encode []"
  by (simp add: scan_start_def scanned_def)

lemma not_blank_line:
  "s \<noteq> [] \<Longrightarrow> \<not> is_ascii_whitespace (hd s) \<Longrightarrow> \<not> list_all is_ascii_whitespace (s @ t)"
  by (cases s) (simp_all del: is_ascii_whitespace.simps)

lemma not_terminated: "newline \<notin> set l \<Longrightarrow> \<not> terminated l"
  unfolding terminated_def using last_in_set [of l] by metis

lemma scan_line_record:
  assumes "codec_ok encode decode M" and "e \<in> M"
  shows "scan_line decode (line_of encode e) (scanned encode es) = Inr (True, scanned encode (es @ [e]))"
proof -
  obtain s where s: "encode e = Inr s" "s \<noteq> []" "\<not> is_ascii_whitespace (hd s)"
      "decode (s @ [newline]) = Decoded e"
    by (rule codec_okE [OF assms])
  then have "\<not> list_all is_ascii_whitespace (s @ [newline])"
    by (intro not_blank_line)
  with s show ?thesis
    by (simp add: scan_line_def line_of_def scanned_def terminated_def
        del: is_ascii_whitespace.simps list_all_append)
qed

lemma triple_scan_records:
  assumes codec: "codec_ok encode decode M" and "set es \<subseteq> M"
    and G: "\<And>fs. G fs \<Longrightarrow> H fs"
    and tail: "triple (on_files \<phi> G) (scan_lines decode ls (scanned encode (ds @ es))) Q (io_failed \<phi> H)"
  shows "triple (on_files \<phi> G) (scan_lines decode (map (line_of encode) es @ ls) (scanned encode ds)) Q
     (io_failed \<phi> H)"
  using assms(2) tail
proof (induction es arbitrary: ds)
  case Nil
  then show ?case by simp
next
  case (Cons e es)
  have "scan_line decode (line_of encode e) (scanned encode ds) = Inr (True, scanned encode (ds @ [e]))"
    using codec Cons.prems(1) by (intro scan_line_record) auto
  moreover have "triple (on_files \<phi> G)
      (scan_lines decode (map (line_of encode) es @ ls) (scanned encode (ds @ [e]))) Q (io_failed \<phi> H)"
    using Cons by (intro Cons.IH) auto
  ultimately show ?case
    using triple_disk_io [of G H \<phi>] G by (auto intro: triple_and_then)
qed

text \<open>The line of a record that may be cut, after the records before it.\<close>

lemma scan_tail:
  assumes codec: "codec_ok encode decode M" "e \<in> M" and q: "line_of encode e = tail @ q" and "tail \<noteq> []"
    and b: "b = concat (map (line_of encode) es) @ tail"
  obtains l reads_on sc where "split_lines tail = [l]" "scan_line decode l (scanned encode es) = Inr (reads_on, sc)"
    "scan_found encode es (Some e) b sc"
proof -
  let ?L = "concat (map (line_of encode) es)"
  obtain s where s: "encode e = Inr s" "s \<noteq> []" "newline \<notin> set s" "\<not> is_ascii_whitespace (hd s)"
    "decode s = Decoded e" "decode (s @ [newline]) = Decoded e"
    "\<And>p q. s = p @ q \<Longrightarrow> p \<noteq> [] \<Longrightarrow> q \<noteq> [] \<Longrightarrow> \<exists>m. decode p = Undecodable True m"
    by (rule codec_okE [OF codec]) auto
  show ?thesis
  proof (cases rule: tail_cases [OF q s(1)])
    case 1
    with assms(4) show ?thesis by simp
  next
    case (2 r)
    then obtain m where "decode tail = Undecodable True m" using s(7) by blast
    moreover have nl: "newline \<notin> set tail" using s(3) 2 by auto
    moreover have "\<not> list_all is_ascii_whitespace tail"
      using not_blank_line [of tail "[]"] 2 s(4) by simp
    moreover have "\<not> terminated tail" using nl by (rule not_terminated)
    ultimately show ?thesis
      using 2 by (intro that [of tail False
          "(scanned encode es)\<lparr>sc_line := Suc (length es), sc_torn_tail := Some tail\<rparr>"])
        (simp_all add: split_lines_tail scan_line_def scanned_def scan_found_def b)
  next
    case 3
    have nl: "\<not> terminated s" using s(3) by (rule not_terminated)
    have "\<not> list_all is_ascii_whitespace s" using not_blank_line [of s "[]"] s(2,4) by simp
    with nl 3 s show ?thesis
      by (intro that [of s True "(scanned encode es)\<lparr>sc_line := Suc (length es), sc_events := es @ [e],
           sc_valid_bytes := length ?L + length s, sc_needs_newline := True\<rparr>"])
        (simp_all add: split_lines_tail scan_line_def scanned_def scan_found_def b line_of_def)
  next
    case 4
    with s(1) have l: "tail = line_of encode e" by (simp add: line_of_def)
    have "split_lines tail = [line_of encode e]"
      using s(3) split_lines_line [of s "[]"] by (simp add: l line_of_def s(1))
    moreover have "scan_line decode (line_of encode e) (scanned encode es) = Inr (True, scanned encode (es @ [e]))"
      by (rule scan_line_record [OF codec])
    moreover have "scan_found encode es (Some e) b (scanned encode (es @ [e]))"
      by (simp add: scan_found_def scanned_def b l)
    ultimately show ?thesis by (rule that)
  qed
qed

lemma triple_scan_log:
  assumes codec: "codec_ok encode decode (set es \<union> set_option pend)"
    and holds: "log_holds encode es pend b" and G: "\<And>fs. G fs \<Longrightarrow> H fs"
  shows "triple (on_files \<phi> G) (scan_lines decode (split_lines b) scan_start)
     (\<lambda>sc d. on_files \<phi> G d \<and> scan_found encode es pend b sc) (io_failed \<phi> H)"
proof -
  note io = triple_disk_io [of G H \<phi>, OF G]
  obtain tail where b: "b = concat (map (line_of encode) es) @ tail"
    and t: "case pend of None \<Rightarrow> tail = [] | Some e \<Rightarrow> \<exists>q. line_of encode e = tail @ q"
    using holds unfolding log_holds_def by blast
  have codes: "codec_ok encode decode (set es)"
    using codec by (rule codec_ok_subset) simp
  have split: "split_lines b = map (line_of encode) es @ split_lines tail"
    unfolding b by (rule split_lines_records [OF codes])
  have finish: "triple (on_files \<phi> G) (and_then disk_io (\<lambda>_. ok sc))
      (\<lambda>sc d. on_files \<phi> G d \<and> scan_found encode es pend b sc) (io_failed \<phi> H)"
    if "scan_found encode es pend b sc" for sc
    using that by (intro triple_and_then [OF io]) (auto simp: triple_def ok_def)
  have "triple (on_files \<phi> G) (scan_lines decode (split_lines tail) (scanned encode ([] @ es)))
      (\<lambda>sc d. on_files \<phi> G d \<and> scan_found encode es pend b sc) (io_failed \<phi> H)"
  proof (cases "tail = []")
    case True
    then have "scan_found encode es pend b (scanned encode es)"
      using b by (simp add: scan_found_def scanned_def)
    with True show ?thesis by (simp add: finish)
  next
    case False
    with t obtain e q where e: "pend = Some e" and q: "line_of encode e = tail @ q"
      by (auto split: option.splits)
    obtain l reads_on sc where "split_lines tail = [l]" "scan_line decode l (scanned encode es) = Inr (reads_on, sc)"
      "scan_found encode es pend b sc"
      unfolding e by (rule scan_tail [OF codec _ q False b]) (simp_all add: e)
    then show ?thesis by (cases reads_on) (auto intro!: triple_and_then [OF io] finish)
  qed
  then show ?thesis
    unfolding split scan_start_scanned [of encode]
    by (intro triple_scan_records [OF codes _ G]) auto
qed

text \<open>The logs an interrupted open can leave: the one it found, or the repaired one.\<close>

definition log_or_repaired ::
  "(event_envelope \<Rightarrow> string + string) \<Rightarrow> event_envelope list \<Rightarrow> event_envelope option \<Rightarrow> string \<Rightarrow>
   bool" where
  "log_or_repaired encode es pend b \<longleftrightarrow>
     log_holds encode es pend b \<or> log_holds encode es None b \<or>
     (\<exists>e. pend = Some e \<and> log_holds encode (es @ [e]) None b)"

definition no_backups :: "string \<Rightarrow> (string \<times> string) list \<Rightarrow> bool" where
  "no_backups path files \<longleftrightarrow> (\<forall>i. bt_get files (path @ ''.torn-'' @ i) = None)"

lemma backup_name_differs [simp]: "path @ ''.torn-'' @ i \<noteq> path" "path \<noteq> path @ ''.torn-'' @ i"
  by simp_all

lemma file_bytes_insert [simp]:
  "file_bytes (bt_insert q b files) p = (if p = q then b else file_bytes files p)"
  by (simp add: file_bytes_def)

lemma take_newline: "take n [newline] = [] \<or> take n [newline] = [newline]"
  by (cases n) simp_all

lemma triple_repair_untorn:
  assumes found: "scan_found encode es pend b sc" and holds: "log_holds encode es pend b" and None: "sc_torn_tail sc = None"
  shows "triple (on_files \<phi> (\<lambda>fs. file_bytes fs path = b \<and> (\<phi> \<longrightarrow> no_backups path fs)))
     (repair_log path sc)
     (\<lambda>_. on_files \<phi> (\<lambda>fs. file_bytes fs path = concat (map (line_of encode) (sc_events sc))))
     (io_failed \<phi> (\<lambda>fs. log_or_repaired encode es pend (file_bytes fs path)))"
    (is "triple (on_files \<phi> ?G) _ (\<lambda>_. on_files \<phi> ?R) (io_failed \<phi> ?H)")
proof -
  have before: "?H fs" if "file_bytes fs path = b" for fs
    using that holds by (simp add: log_or_repaired_def)
  have after: "?H fs" if "?R fs" for fs
    using that found None
    by (auto simp: scan_found_def log_or_repaired_def log_holds_def split: if_splits)
  show ?thesis
  proof (cases "sc_needs_newline sc")
    case True
    have R: "concat (map (line_of encode) (sc_events sc)) = b @ [newline]"
      using found None True by (simp add: scan_found_def)
    have "triple (on_files \<phi> ?G) (write_file path [newline]) (\<lambda>_. on_files \<phi> ?R) (io_failed \<phi> ?H)"
    proof (rule triple_weaken [OF triple_write_file [where G = ?G and H = ?H]])
      show "?H (bt_insert path (file_bytes fs path @ take n [newline]) fs)" if "?G fs" for fs n
        using take_newline [of n] that before [of "bt_insert path b fs"]
          after [of "bt_insert path (b @ [newline]) fs"] R by auto
    qed (auto simp: R elim!: on_files_mono)
    then have "triple (on_files \<phi> ?G)
        (and_then (write_file path [newline]) (\<lambda>_. and_then disk_io (\<lambda>_. ok (None :: string option))))
        (\<lambda>_. on_files \<phi> ?R) (io_failed \<phi> ?H)"
      by (rule triple_and_then) (rule triple_and_then [OF triple_disk_io triple_ok], rule after)
    then show ?thesis by (simp add: repair_log_def None True)
  next
    case False
    with found None have "concat (map (line_of encode) (sc_events sc)) = b"
      by (simp add: scan_found_def)
    then show ?thesis
      unfolding repair_log_def None using False
      by (auto intro: triple_pre [OF triple_ok] elim!: on_files_mono)
  qed
qed

lemma triple_repair_torn:
  assumes found: "scan_found encode es pend b sc" and holds: "log_holds encode es pend b" and Some: "sc_torn_tail sc = Some t"
  shows "triple (on_files \<phi> (\<lambda>fs. file_bytes fs path = b \<and> (\<phi> \<longrightarrow> no_backups path fs)))
     (repair_log path sc)
     (\<lambda>_. on_files \<phi> (\<lambda>fs. file_bytes fs path = concat (map (line_of encode) (sc_events sc))))
     (io_failed \<phi> (\<lambda>fs. log_or_repaired encode es pend (file_bytes fs path)))"
    (is "triple (on_files \<phi> ?G) _ (\<lambda>_. on_files \<phi> ?R) (io_failed \<phi> ?H)")
proof -
  let ?L = "concat (map (line_of encode) es)"
  let ?B = "\<lambda>fs. file_bytes fs path = b"
  have b: "b = ?L @ t" "sc_valid_bytes sc = length ?L" "sc_events sc = es"
    using found Some by (simp_all add: scan_found_def)
  have cut: "take (sc_valid_bytes sc) b = ?L" using b by simp
  have before: "?H fs" if "?B fs" for fs
    using that holds by (simp add: log_or_repaired_def)
  have after: "?H fs" if "?R fs" for fs
    using that b by (simp add: log_or_repaired_def log_holds_def)
  have "triple (on_files \<phi> ?G) (create_new (path @ ''.torn-'' @ i)) (\<lambda>_. on_files \<phi> ?B) (io_failed \<phi> ?H)"
    for i
    by (rule triple_weaken [OF triple_create_new [where G = ?G and H = ?H]])
      (auto simp: before no_backups_def elim!: on_files_mono)
  moreover have "triple (on_files \<phi> ?B) (write_file (path @ ''.torn-'' @ i) t) (\<lambda>_. on_files \<phi> ?B)
      (io_failed \<phi> ?H)" for i
    by (rule triple_weaken [OF triple_write_file [where G = ?B and H = ?H]])
      (auto simp: before elim!: on_files_mono)
  moreover have "triple (on_files \<phi> ?B) disk_io (\<lambda>_. on_files \<phi> ?B) (io_failed \<phi> ?H)"
    by (rule triple_disk_io) (rule before)
  moreover have "triple (on_files \<phi> ?B) (set_len path (sc_valid_bytes sc)) (\<lambda>_. on_files \<phi> ?R)
      (io_failed \<phi> ?H)"
    by (rule triple_weaken [OF triple_set_len [where G = ?B and H = ?H, OF before]])
      (use cut b(3) in \<open>auto elim!: on_files_mono\<close>)
  moreover have "triple (on_files \<phi> ?R) disk_io (\<lambda>_. on_files \<phi> ?R) (io_failed \<phi> ?H)"
    by (rule triple_disk_io) (rule after)
  ultimately show ?thesis
    unfolding repair_log_def Some Let_def option.case
    by (intro triple_and_then [OF triple_disk_EventId])
      (assumption | rule triple_and_then triple_okI)+
qed

lemma triple_repair_log:
  assumes "scan_found encode es pend b sc" and "log_holds encode es pend b"
  shows "triple (on_files \<phi> (\<lambda>fs. file_bytes fs path = b \<and> (\<phi> \<longrightarrow> no_backups path fs)))
     (repair_log path sc)
     (\<lambda>_. on_files \<phi> (\<lambda>fs. file_bytes fs path = concat (map (line_of encode) (sc_events sc))))
     (io_failed \<phi> (\<lambda>fs. log_or_repaired encode es pend (file_bytes fs path)))"
  using triple_repair_untorn [OF assms] triple_repair_torn [OF assms] by (cases "sc_torn_tail sc") simp_all

definition increasing :: "event_envelope list \<Rightarrow> bool" where
  "increasing es \<longleftrightarrow> sorted_wrt (<) (map ev_sequence es)"

definition opt_list :: "'a option \<Rightarrow> 'a list" where
  "opt_list x = (case x of None \<Rightarrow> [] | Some a \<Rightarrow> [a])"

lemma set_opt_list [simp]: "set (opt_list x) = set_option x"
  by (cases x) (simp_all add: opt_list_def)

definition reopened ::
  "(event_envelope \<Rightarrow> string + string) \<Rightarrow> event_envelope list \<Rightarrow> event_envelope option \<Rightarrow> string \<Rightarrow>
   jsonl_store \<Rightarrow> disk \<Rightarrow> bool" where
  "reopened encode es pend path s d \<longleftrightarrow>
     (js_events s = es \<or> js_events s = es @ opt_list pend) \<and>
     log_holds encode (js_events s) None (lf_bytes (js_file s)) \<and>
     contents d path = lf_bytes (js_file s) \<and>
     js_next_sequence s = next_sequence_of (js_events s) \<and> \<not> js_write_failed s"

lemma triple_jsonl_open:
  assumes codec: "codec_ok encode decode (set es \<union> set_option pend)"
    and holds: "log_holds encode es pend b" and inc: "increasing (es @ opt_list pend)"
  shows "triple (on_files \<phi> (\<lambda>fs. file_bytes fs path = b \<and> (\<phi> \<longrightarrow> no_backups path fs)))
     (jsonl_open decode path) (reopened encode es pend path)
     (io_failed \<phi> (\<lambda>fs. log_or_repaired encode es pend (file_bytes fs path)))"
    (is "triple (on_files \<phi> ?G) _ _ (io_failed \<phi> ?H)")
proof -
  have G: "?H fs" if "?G fs" for fs
    using that holds by (simp add: log_or_repaired_def)
  have new: "?G (bt_insert path [] fs)" if "?G fs" "bt_get fs path = None" for fs
    using that by (auto simp: file_bytes_def no_backups_def)
  have read: "triple (on_files \<phi> ?G) (reads (\<lambda>d. split_lines (contents d path)))
      (\<lambda>ls d. on_files \<phi> ?G d \<and> ls = split_lines b) (io_failed \<phi> ?H)"
    by (rule triple_readsI) (simp add: on_files_def)
  have scan: "triple (\<lambda>d. on_files \<phi> ?G d \<and> ls = split_lines b) (scan_lines decode ls scan_start)
      (\<lambda>sc d. on_files \<phi> ?G d \<and> scan_found encode es pend b sc) (io_failed \<phi> ?H)" for ls
    using triple_scan_log [OF codec holds, of ?G ?H \<phi>, OF G] by (auto simp: triple_def)
  have repair: "triple (\<lambda>d. on_files \<phi> ?G d \<and> scan_found encode es pend b sc) (repair_log path sc)
      (\<lambda>_ d. contents d path = concat (map (line_of encode) (sc_events sc)) \<and>
         scan_found encode es pend b sc) (io_failed \<phi> ?H)" for sc
    using triple_repair_log [OF _ holds, of sc \<phi> path]
    by (auto simp: triple_def on_files_def split: prod.splits sum.splits) blast+
  have final: "reopened encode es pend path
      \<lparr>js_path = path, js_recovered_tail = tail, js_poisoned = False,
       js_file = \<lparr>lf_bytes = contents d path, lf_host = d_host d\<rparr>,
       js_next_sequence = next_sequence_of (sort_key ev_sequence (sc_events sc)),
       js_events = sort_key ev_sequence (sc_events sc), js_write_failed = False\<rparr> d"
    if "contents d path = concat (map (line_of encode) (sc_events sc))"
      "scan_found encode es pend b sc" for d sc tail
  proof -
    have es: "sc_events sc = es \<or> sc_events sc = es @ opt_list pend"
      using that(2) by (auto simp: scan_found_def opt_list_def split: option.splits)
    then have "sorted (map ev_sequence (sc_events sc))"
      using inc by (auto simp: increasing_def sorted_wrt_append intro: strict_sorted_imp_sorted)
    then have "sort_key ev_sequence (sc_events sc) = sc_events sc"
      by (rule sort_key_id_if_sorted)
    with es that(1) show ?thesis
      by (auto simp: reopened_def log_holds_def)
  qed
  show ?thesis
    unfolding jsonl_open_def Let_def
    by (rule triple_and_then [OF triple_open_log [where G = ?G, OF G new]], assumption, assumption,
        assumption, rule triple_and_then [OF read], rule triple_and_then [OF scan],
        rule triple_and_then [OF repair], rule triple_readsI, rule final) simp_all
qed

section \<open>Sessions\<close>

text \<open>
  A process opens the log, appends to it and dies; the next one opens it again. The history of
  such sessions collects the envelopes whose append was acknowledged and those any call made.
  I/O may fail anywhere, so a session can also end within an append or within the open.
\<close>

type_synonym append_request = "thread_id \<times> turn_id option \<times> runtime_event"

fun jsonl_run ::
  "(event_envelope \<Rightarrow> string + string) \<Rightarrow> append_request list \<Rightarrow> jsonl_store \<Rightarrow>
   event_envelope list \<times> event_envelope list \<times> jsonl_store" where
  "jsonl_run encode [] s = ([], [], s)"
| "jsonl_run encode ((t, u, e) # reqs) s =
     (let (r, s1) = jsonl_append encode t u e s;
          (acks, made, s2) = jsonl_run encode reqs s1
      in (case r of Inr v \<Rightarrow> v # acks | Inl _ \<Rightarrow> acks, attempted t u e s # made, s2))"

fun jsonl_sessions ::
  "(event_envelope \<Rightarrow> string + string) \<Rightarrow> (string \<Rightarrow> event_envelope decoded) \<Rightarrow> string \<Rightarrow>
   append_request list list \<Rightarrow> disk \<Rightarrow> event_envelope list \<times> event_envelope list \<times> disk" where
  "jsonl_sessions encode decode path [] d = ([], [], d)"
| "jsonl_sessions encode decode path (reqs # rest) d =
     (case jsonl_open decode path d of
        (Inl _, d1) \<Rightarrow> jsonl_sessions encode decode path rest d1
      | (Inr s, d1) \<Rightarrow>
          let (acks, made, s1) = jsonl_run encode reqs s;
              d2 = put_file path (lf_bytes (js_file s1)) (d1\<lparr>d_host := lf_host (js_file s1)\<rparr>);
              (acks', made', d3) = jsonl_sessions encode decode path rest d2
          in (acks @ acks', made @ made', d3))"

lemma unat_next: "(n :: u64) \<noteq> - 1 \<Longrightarrow> unat (n + 1) = unat n + 1"
  using unatSuc [of n] by (simp add: add.commute eq_neg_iff_add_eq_0)

lemma unat_max: "unat (- 1 :: u64) = 2 ^ 64 - 1"
  by (simp add: unsigned_minus_1_eq_mask mask_eq_exp_minus_1)

lemma unat_room: "unat (n :: u64) + k < 2 ^ 64 \<Longrightarrow> 0 < k \<Longrightarrow> n \<noteq> - 1"
  using unat_max by auto

lemma jsonl_run_inv:
  assumes "jsonl_run encode reqs s = (acks, made, s')" and "jsonl_inv encode pend s"
    and "unat (js_next_sequence s) + length reqs < 2 ^ 64"
  shows "\<exists>pend'. jsonl_inv encode pend' s' \<and> js_events s' = js_events s @ acks \<and>
    set acks \<union> set_option pend' \<subseteq> set made \<union> set_option pend \<and>
    unat (js_next_sequence s') + length (opt_list pend') \<le>
      unat (js_next_sequence s) + length (opt_list pend) + length reqs"
  using assms
proof (induction reqs arbitrary: s pend acks made)
  case Nil
  then show ?case by auto
next
  case (Cons req reqs)
  obtain t u e where req: "req = (t, u, e)" by (cases req)
  obtain r s1 where a: "jsonl_append encode t u e s = (r, s1)" by fastforce
  obtain acks1 made1 where run: "jsonl_run encode reqs s1 = (acks1, made1, s')"
    and made: "made = attempted t u e s # made1"
    and acks: "acks = (case r of Inr v \<Rightarrow> v # acks1 | Inl _ \<Rightarrow> acks1)"
    using Cons.prems(1) by (auto simp: req a split: prod.splits)
  have n: "js_next_sequence s \<noteq> - 1"
    using Cons.prems(3) by (intro unat_room [of _ "length (req # reqs)"]) simp_all
  show ?case
    using a Cons.prems(2) n
  proof (cases rule: jsonl_inv_append)
    case 1
    then have "acks = acks1" using acks by (cases r) simp_all
    with 1 Cons.IH [OF run 1(2)] Cons.prems(3) made show ?thesis by fastforce
  next
    case (2 v)
    then have "acks = acks1" using acks by (cases r) simp_all
    with 2 Cons.IH [OF run 2(2)] Cons.prems(3) made show ?thesis
      by (fastforce simp: opt_list_def)
  next
    case (3 v)
    then have "acks = v # acks1" using acks by simp
    with 3 Cons.IH [OF run 3(2)] Cons.prems(3) made unat_next [OF n] show ?thesis
      by (fastforce simp: opt_list_def)
  qed
qed

text \<open>What the disk holds between sessions.\<close>

definition disk_inv ::
  "(event_envelope \<Rightarrow> string + string) \<Rightarrow> string \<Rightarrow> event_envelope set \<Rightarrow> event_envelope list \<Rightarrow>
   nat \<Rightarrow> disk \<Rightarrow> bool" where
  "disk_inv encode path M acks k d \<longleftrightarrow>
     (\<exists>es pend. log_holds encode es pend (contents d path) \<and> subseq acks es \<and>
        set (es @ opt_list pend) \<subseteq> M \<and> increasing (es @ opt_list pend) \<and>
        (\<forall>v \<in> set (es @ opt_list pend). unat (ev_sequence v) < k))"

lemma next_sequence_of_bounds:
  assumes "increasing es" and "\<And>v. v \<in> set es \<Longrightarrow> unat (ev_sequence v) < k" and "k < 2 ^ 64"
  shows "unat (next_sequence_of es) \<le> k \<and> sequence_ok (next_sequence_of es) es"
proof (cases "es = []")
  case True
  then show ?thesis by (simp add: next_sequence_of_def sequence_ok_def)
next
  case False
  let ?m = "Max (set (map ev_sequence es))"
  have "?m \<in> set (map ev_sequence es)" using False by (intro Max_in) simp_all
  then obtain v where "v \<in> set es" "?m = ev_sequence v" by auto
  with assms(2) have m: "unat ?m < k" by simp
  have ge: "ev_sequence v \<le> ?m" if "v \<in> set es" for v
    using that by (intro Max_ge) simp_all
  have "?m \<noteq> - 1" using m assms(3) unat_max by auto
  then have "unat (?m + 1) = unat ?m + 1" and lt: "ev_sequence v < ?m + 1" if "v \<in> set es" for v
    using that unat_next ge word_less_succ by (auto simp: order.order_iff_strict)
  with False m assms(1) show ?thesis
    by (auto simp: next_sequence_of_def sequence_ok_def increasing_def unat_next \<open>?m \<noteq> - 1\<close>
        simp del: list.set_map set_map)
qed

lemma jsonl_inv_increasing:
  assumes "jsonl_inv encode pend s"
  shows "increasing (js_events s @ opt_list pend)"
    and "v \<in> set (js_events s @ opt_list pend) \<Longrightarrow>
      unat (ev_sequence v) < unat (js_next_sequence s) + length (opt_list pend)"
  using assms
  by (auto simp: jsonl_inv_def sequence_ok_def increasing_def opt_list_def sorted_wrt_append
      word_less_nat_alt split: option.splits dest!: bspec)

lemma disk_inv_mono:
  assumes "disk_inv encode path M acks k d" and "k \<le> k'"
  shows "disk_inv encode path M acks k' d"
proof -
  from assms(1) obtain es pend where "log_holds encode es pend (contents d path)" "subseq acks es"
    "set (es @ opt_list pend) \<subseteq> M" "increasing (es @ opt_list pend)"
    "\<forall>v \<in> set (es @ opt_list pend). unat (ev_sequence v) < k"
    unfolding disk_inv_def by blast
  moreover have "\<forall>v \<in> set (es @ opt_list pend). unat (ev_sequence v) < k'"
    using calculation(5) assms(2) by (meson less_le_trans)
  ultimately show ?thesis unfolding disk_inv_def by blast
qed

lemma disk_inv_repaired:
  assumes "disk_inv encode path M acks k d"
  obtains es pend where "log_holds encode es pend (contents d path)" "subseq acks es"
    "set (es @ opt_list pend) \<subseteq> M" "increasing (es @ opt_list pend)"
    "\<And>v. v \<in> set (es @ opt_list pend) \<Longrightarrow> unat (ev_sequence v) < k"
    "\<And>d'. log_or_repaired encode es pend (contents d' path) \<Longrightarrow> disk_inv encode path M acks k d'"
proof -
  obtain es pend where i: "log_holds encode es pend (contents d path)" "subseq acks es"
    "set (es @ opt_list pend) \<subseteq> M" "increasing (es @ opt_list pend)"
    "\<forall>v \<in> set (es @ opt_list pend). unat (ev_sequence v) < k"
    using assms unfolding disk_inv_def by blast
  moreover have "disk_inv encode path M acks k d'"
    if "log_or_repaired encode es pend (contents d' path)" for d'
  proof -
    from that consider "log_holds encode es pend (contents d' path)"
      | "log_holds encode es None (contents d' path)"
      | e where "pend = Some e" "log_holds encode (es @ [e]) None (contents d' path)"
      by (auto simp: log_or_repaired_def)
    then show ?thesis
    proof cases
      case 1
      with i show ?thesis unfolding disk_inv_def by blast
    next
      case 2
      with i show ?thesis
        unfolding disk_inv_def
        by (intro exI [of _ es] exI [of _ None])
          (auto simp: opt_list_def increasing_def sorted_wrt_append split: option.splits)
    next
      case 3
      with i show ?thesis
        unfolding disk_inv_def
        by (intro exI [of _ "es @ [e]"] exI [of _ None])
          (auto simp: opt_list_def intro: list_emb_prefix)
    qed
  qed
  ultimately show ?thesis by (intro that) auto
qed

lemma reopened_inv:
  assumes "reopened encode es pend path s d" and "set (es @ opt_list pend) \<subseteq> M"
    and "increasing (es @ opt_list pend)" and "subseq acks es"
    and "\<And>v. v \<in> set (es @ opt_list pend) \<Longrightarrow> unat (ev_sequence v) < k" and "k < 2 ^ 64"
  shows "jsonl_inv encode None s" and "unat (js_next_sequence s) \<le> k"
    and "subseq acks (js_events s)" and "set (js_events s) \<subseteq> M"
proof -
  have es: "js_events s = es \<or> js_events s = es @ opt_list pend"
    and log: "log_holds encode (js_events s) None (lf_bytes (js_file s))"
    and nxt: "js_next_sequence s = next_sequence_of (js_events s)" and "\<not> js_write_failed s"
    using assms(1) by (simp_all add: reopened_def)
  have "increasing (js_events s)" and "\<And>v. v \<in> set (js_events s) \<Longrightarrow> unat (ev_sequence v) < k"
    using es assms(3,5) by (auto simp: increasing_def sorted_wrt_append)
  then have "unat (js_next_sequence s) \<le> k \<and> sequence_ok (js_next_sequence s) (js_events s)"
    unfolding nxt using assms(6) by (rule next_sequence_of_bounds)
  with log show "jsonl_inv encode None s" "unat (js_next_sequence s) \<le> k"
    by (simp_all add: jsonl_inv_def)
  show "subseq acks (js_events s)" "set (js_events s) \<subseteq> M"
    using es assms(2,4) by (auto intro: list_emb_prefix)
qed

lemma jsonl_sessions_inv:
  assumes "jsonl_sessions encode decode path sessions d = (acks, made, d')"
    and "disk_inv encode path M acks0 k d" and "codec_ok encode decode M" and "set made \<subseteq> M"
    and "k + length (concat sessions) < 2 ^ 64"
  shows "disk_inv encode path M (acks0 @ acks) (k + length (concat sessions)) d'"
  using assms
proof (induction sessions arbitrary: d acks made acks0 k)
  case Nil
  then show ?case by simp
next
  case (Cons reqs rest)
  obtain es pend where i: "log_holds encode es pend (contents d path)" "subseq acks0 es"
    "set (es @ opt_list pend) \<subseteq> M" "increasing (es @ opt_list pend)"
    "\<And>v. v \<in> set (es @ opt_list pend) \<Longrightarrow> unat (ev_sequence v) < k"
    and rep: "\<And>d'. log_or_repaired encode es pend (contents d' path) \<Longrightarrow>
      disk_inv encode path M acks0 k d'"
    using disk_inv_repaired [OF Cons.prems(2)] by blast
  have codec: "codec_ok encode decode (set es \<union> set_option pend)"
    using Cons.prems(3) by (rule codec_ok_subset) (use i(3) in auto)
  note op = triple_jsonl_open [OF codec i(1,4), of False path]
  have pre: "on_files False (\<lambda>fs. file_bytes fs path = contents d path \<and>
      (False \<longrightarrow> no_backups path fs)) d"
    by (simp add: on_files_def)
  obtain r d1 where o: "jsonl_open decode path d = (r, d1)" by fastforce
  show ?case
  proof (cases r)
    case (Inl e)
    with o triple_error [OF op pre] have "disk_inv encode path M acks0 k d1"
      by (intro rep) (simp add: io_failed_def)
    moreover have "jsonl_sessions encode decode path rest d1 = (acks, made, d')"
      using Cons.prems(1) o Inl by simp
    ultimately have "disk_inv encode path M (acks0 @ acks) (k + length (concat rest)) d'"
      using Cons.prems(3-5) by (intro Cons.IH) auto
    then show ?thesis by (rule disk_inv_mono) simp
  next
    case (Inr s)
    with o triple_value [OF op pre] have re: "reopened encode es pend path s d1" by simp
    have k: "k < 2 ^ 64" using Cons.prems(5) by simp
    note s = reopened_inv [OF re i(3,4,2,5) k]
    obtain acks1 made1 s1 where run: "jsonl_run encode reqs s = (acks1, made1, s1)"
      by (cases "jsonl_run encode reqs s")
    let ?d2 = "put_file path (lf_bytes (js_file s1)) (d1\<lparr>d_host := lf_host (js_file s1)\<rparr>)"
    obtain acks2 made2 where rest: "jsonl_sessions encode decode path rest ?d2 = (acks2, made2, d')"
      and acks: "acks = acks1 @ acks2" and made: "made = made1 @ made2"
      using Cons.prems(1) o Inr run by (auto split: prod.splits)
    obtain pend1 where p: "jsonl_inv encode pend1 s1" "js_events s1 = js_events s @ acks1"
      "set acks1 \<union> set_option pend1 \<subseteq> set made1"
      "unat (js_next_sequence s1) + length (opt_list pend1) \<le> unat (js_next_sequence s) + length reqs"
      using jsonl_run_inv [OF run s(1)] s(2) Cons.prems(5) by (auto simp: opt_list_def)
    have "disk_inv encode path M (acks0 @ acks1) (k + length reqs) ?d2"
      unfolding disk_inv_def
    proof (intro exI [of _ "js_events s1"] exI [of _ pend1] conjI ballI)
      show "log_holds encode (js_events s1) pend1 (contents ?d2 path)"
        using p(1) by (simp add: jsonl_inv_def put_file_def)
      show "subseq (acks0 @ acks1) (js_events s1)"
        unfolding p(2) using s(3) by (intro list_emb_append_mono) simp_all
      show "set (js_events s1 @ opt_list pend1) \<subseteq> M"
        using p(2,3) s(4) Cons.prems(4) made by auto
      show "increasing (js_events s1 @ opt_list pend1)"
        by (rule jsonl_inv_increasing(1) [OF p(1)])
      show "unat (ev_sequence v) < k + length reqs" if "v \<in> set (js_events s1 @ opt_list pend1)" for v
        using jsonl_inv_increasing(2) [OF p(1) that] p(4) s(2) by simp
    qed
    from Cons.IH [OF rest this Cons.prems(3)] Cons.prems(4,5) made acks show ?thesis
      by (simp add: add.assoc)
  qed
qed

lemma disk_inv_empty: "contents d path = [] \<Longrightarrow> disk_inv encode path M [] 0 d"
  unfolding disk_inv_def by (intro exI [of _ "[]"] exI [of _ None]) (simp add: opt_list_def increasing_def)

section \<open>Acknowledged events survive\<close>

text \<open>C7 Whatever sequence of sessions ran on a log that started empty, with I/O failing anywhere
  (within an append, within an open, within a repair), opening the log again never reports
  corruption: when it succeeds, every event whose append was acknowledged is there, in order, no
  event is there that no call made, and the sequence numbers increase strictly; and it does
  succeed when the host's I/O works and no earlier backup has the new backup's name.\<close>

theorem acknowledged_events_survive:
  assumes "jsonl_sessions encode decode path sessions d0 = (acks, made, d)"
    and "contents d0 path = []" and "length (concat sessions) < 2 ^ 64"
    and "codec_ok encode decode (set made)"
  shows "(case jsonl_open decode path d of
            (Inl e, _) \<Rightarrow> \<exists>m. e = Store_Io m
          | (Inr s, _) \<Rightarrow> subseq acks (js_events s) \<and> set (js_events s) \<subseteq> set made \<and>
              sorted_wrt (<) (map ev_sequence (js_events s)) \<and> \<not> js_write_failed s) \<and>
         (h_io (d_host d) = (\<lambda>_. Io_ok) \<and> no_backups path (d_files d) \<longrightarrow>
            (\<exists>s d'. jsonl_open decode path d = (Inr s, d')))"
proof -
  have "disk_inv encode path (set made) ([] @ acks) (0 + length (concat sessions)) d"
    using assms(3) by (intro jsonl_sessions_inv [OF assms(1) disk_inv_empty assms(4)] assms(2)) simp_all
  then have inv: "disk_inv encode path (set made) acks (length (concat sessions)) d"
    by simp
  obtain es pend where i: "log_holds encode es pend (contents d path)" "subseq acks es"
    "set (es @ opt_list pend) \<subseteq> set made" "increasing (es @ opt_list pend)"
    "\<And>v. v \<in> set (es @ opt_list pend) \<Longrightarrow> unat (ev_sequence v) < length (concat sessions)"
    by (rule disk_inv_repaired [OF inv], rule that)
  have codec: "codec_ok encode decode (set es \<union> set_option pend)"
    using assms(4) by (rule codec_ok_subset) (use i(3) in auto)
  note op = triple_jsonl_open [OF codec i(1,4), of _ path]
  obtain r d1 where o: "jsonl_open decode path d = (r, d1)" by fastforce
  have pre: "on_files \<phi> (\<lambda>fs. file_bytes fs path = contents d path \<and>
      (\<phi> \<longrightarrow> no_backups path fs)) d"
    if "\<phi> \<longrightarrow> h_io (d_host d) = (\<lambda>_. Io_ok) \<and> no_backups path (d_files d)" for \<phi>
    using that by (simp add: on_files_def)
  show ?thesis
  proof (cases r)
    case (Inl e)
    then have "\<exists>m. e = Store_Io m"
      using o triple_error [OF op [of False] pre] by (simp add: io_failed_def)
    moreover have "\<not> (h_io (d_host d) = (\<lambda>_. Io_ok) \<and> no_backups path (d_files d))"
      using Inl o triple_error [OF op [of True] pre] by (auto simp: io_failed_def)
    ultimately show ?thesis using o Inl by simp
  next
    case (Inr s)
    then have re: "reopened encode es pend path s d1"
      using o triple_value [OF op [of False] pre] by simp
    note s = reopened_inv [OF re i(3,4,2,5) assms(3)]
    with o Inr re show ?thesis
      by (auto simp: jsonl_inv_def sequence_ok_def reopened_def)
  qed
qed

definition sample_host :: "(nat \<Rightarrow> io_outcome) \<Rightarrow> host" where
  "sample_host io = \<lparr>h_pid = 7, h_next_id = 0, h_clock = (\<lambda>_. 0), h_readings = 0, h_io = io,
     h_operations = 0\<rparr>"

definition sample_event :: "u64 \<Rightarrow> string \<Rightarrow> runtime_event \<Rightarrow> event_envelope" where
  "sample_event n i e = \<lparr>ev_id = i, ev_sequence = n, ev_at_unix_ms = 0, ev_thread_id = ''t'',
     ev_turn_id = None, ev_event = e\<rparr>"

definition sample_encode :: "event_envelope \<Rightarrow> string + string" where
  "sample_encode v = Inr (if ev_event v = ThreadStarted then ''[0]'' else ''[1]'')"

definition sample_decode :: "string \<Rightarrow> event_envelope decoded" where
  "sample_decode l =
     (if l = ''[0]'' \<or> l = ''[0]'' @ [newline]
        then Decoded (sample_event 0 ''event_0_0_7'' ThreadStarted)
      else if l = ''[1]'' \<or> l = ''[1]'' @ [newline]
        then Decoded (sample_event 1 ''event_0_1_7'' TurnStarted)
      else Undecodable True ''EOF while parsing a value'')"

text \<open>The second append fails after one byte, the log is left with a torn record.\<close>

definition sample_sessions :: "event_envelope list \<times> event_envelope list \<times> disk" where
  "sample_sessions = jsonl_sessions sample_encode sample_decode ''log''
     [[(''t'', None, ThreadStarted), (''t'', None, TurnStarted)]]
     \<lparr>d_files = [], d_host = sample_host (\<lambda>n. if n = 6 then Io_error ''full'' 1 else Io_ok)\<rparr>"

lemmas sample_run_defs = sample_sessions_def jsonl_open_def open_log_def disk_io_def act_defs
  scan_start_def scan_line_def repair_log_def io_step_def put_file_def file_bytes_def
  jsonl_append_def attempted_def sample_host_def sample_encode_def sample_decode_def
  make_envelope_def now_nanos_def EventId_new_def generated_id_def id_text_def hex_def
  show_base_small append_line_def write_all_def sync_file_def next_sequence_of_def
  sample_event_def as_millis_def

lemma sample_acks: "fst sample_sessions = [sample_event 0 ''event_0_0_7'' ThreadStarted]"
  by (simp add: sample_run_defs)

lemma sample_made: "fst (snd sample_sessions) =
    [sample_event 0 ''event_0_0_7'' ThreadStarted, sample_event 1 ''event_0_1_7'' TurnStarted]"
  by (simp add: sample_run_defs)

lemma sample_files: "d_files (snd (snd sample_sessions)) = [(''log'', ''[0]'' @ [newline] @ ''['')]"
  by (simp add: sample_run_defs)

lemma sample_codec: "codec_ok sample_encode sample_decode
    {sample_event 0 ''event_0_0_7'' ThreadStarted, sample_event 1 ''event_0_1_7'' TurnStarted}"
  unfolding codec_ok_def
  by (auto simp: sample_encode_def sample_decode_def sample_event_def byte_def)

theorem acknowledged_events_survive_witness:
  "case jsonl_open sample_decode ''log'' (snd (snd sample_sessions)) of
     (Inl e, _) \<Rightarrow> \<exists>m. e = Store_Io m
   | (Inr s, _) \<Rightarrow> subseq [sample_event 0 ''event_0_0_7'' ThreadStarted] (js_events s)"
proof -
  obtain acks made d where run: "sample_sessions = (acks, made, d)" by (cases sample_sessions)
  have "codec_ok sample_encode sample_decode (set made)"
    using sample_codec sample_made by (simp add: run)
  from acknowledged_events_survive [OF run [unfolded sample_sessions_def] _ _ this]
  show ?thesis using sample_acks by (simp add: run file_bytes_def split: prod.splits sum.splits)
qed

section \<open>Opening keeps every byte\<close>

definition same_log :: "(string \<times> string) list \<Rightarrow> string \<Rightarrow> (string \<times> string) list \<Rightarrow> bool" where
  "same_log F path fs \<longleftrightarrow>
     (\<forall>q. bt_get F q \<noteq> None \<longrightarrow> bt_get fs q = bt_get F q) \<and> file_bytes fs path = file_bytes F path"

text \<open>The other files are as before; the log was only extended, or its old bytes are its new ones
  followed by those of a file that did not exist before.\<close>

definition bytes_kept :: "(string \<times> string) list \<Rightarrow> string \<Rightarrow> (string \<times> string) list \<Rightarrow> bool" where
  "bytes_kept F path fs \<longleftrightarrow>
     (\<forall>q. q \<noteq> path \<and> bt_get F q \<noteq> None \<longrightarrow> bt_get fs q = bt_get F q) \<and>
     ((\<exists>t. file_bytes fs path = file_bytes F path @ t) \<or>
      (\<exists>q. q \<noteq> path \<and> bt_get F q = None \<and> file_bytes fs path @ file_bytes fs q = file_bytes F path))"

lemma same_log_kept: "same_log F path fs \<Longrightarrow> bytes_kept F path fs"
  by (simp add: same_log_def bytes_kept_def)

lemma bytes_kept_extend:
  "same_log F path fs \<Longrightarrow> bytes_kept F path (bt_insert path (file_bytes fs path @ t) fs)"
  by (auto simp: same_log_def bytes_kept_def)

lemma bytes_kept_new:
  "same_log F path fs \<Longrightarrow> q \<noteq> path \<Longrightarrow> bt_get F q = None \<Longrightarrow> bytes_kept F path (bt_insert q b fs)"
  by (auto simp: same_log_def bytes_kept_def)

lemma bytes_kept_cut:
  "same_log F path fs \<Longrightarrow> q \<noteq> path \<Longrightarrow> bt_get F q = None \<Longrightarrow>
   take n (file_bytes F path) @ file_bytes fs q = file_bytes F path \<Longrightarrow>
   bytes_kept F path (bt_insert path (take n (file_bytes fs path)) fs)"
  by (auto simp: same_log_def bytes_kept_def)

lemma triple_any_error:
  "triple P m Q (io_failed False H) \<Longrightarrow> triple P m Q (\<lambda>e d. H (d_files d))"
  by (erule triple_weaken) (simp_all add: io_failed_def)

lemmas triple_io_any = triple_any_error [OF triple_disk_io]

lemma split_lines_terminated: "\<forall>l \<in> set (butlast (split_lines s)). terminated l"
  by (induction s) (auto simp: terminated_def split: list.splits if_splits)

lemma triple_scan_any:
  assumes "concat past @ concat ls = b" and "sc_valid_bytes sc = length (concat past)"
    and "sc_torn_tail sc = None" and "\<forall>l \<in> set (butlast ls). terminated l"
  shows "triple (on_files False G) (scan_lines decode ls sc)
    (\<lambda>sc' d. on_files False G d \<and> (\<forall>t. sc_torn_tail sc' = Some t \<longrightarrow> take (sc_valid_bytes sc') b @ t = b))
    (\<lambda>e d. G (d_files d))"
  using assms
proof (induction ls arbitrary: past sc)
  case Nil
  then show ?case
    by (auto intro!: triple_and_then [OF triple_io_any] triple_okI)
next
  case (Cons l ls)
  have body: "triple (on_files False G) (case scan_line decode l sc of
         Inl e \<Rightarrow> err e | Inr (True, sc') \<Rightarrow> scan_lines decode ls sc' | Inr (False, sc') \<Rightarrow> ok sc')
     (\<lambda>sc' d. on_files False G d \<and> (\<forall>t. sc_torn_tail sc' = Some t \<longrightarrow> take (sc_valid_bytes sc') b @ t = b))
     (\<lambda>e d. G (d_files d))"
  proof (cases "scan_line decode l sc")
    case (Inl e)
    then show ?thesis by (auto intro!: triple_errI simp: on_files_def)
  next
    case (Inr p)
    obtain go sc' where p: "p = (go, sc')" by (cases p)
    show ?thesis
    proof (cases go)
      case True
      then have v: "sc_valid_bytes sc' = sc_valid_bytes sc + length l" "sc_torn_tail sc' = None"
        using Inr p Cons.prems(3)
        by (auto simp: scan_line_def Let_def split: if_splits decoded.splits)
      have "\<forall>l \<in> set (butlast ls). terminated l"
        using Cons.prems(4) by (cases ls) auto
      then show ?thesis
        using Cons.IH [of "past @ [l]" sc'] Cons.prems v Inr p True by simp
    next
      case False
      then have v: "sc_valid_bytes sc' = sc_valid_bytes sc" "sc_torn_tail sc' = Some l"
        and l: "\<not> terminated l"
        using Inr p Cons.prems(3)
        by (auto simp: scan_line_def Let_def split: if_splits decoded.splits)
      then have "ls = []" using Cons.prems(4) by (auto split: if_splits)
      then have "take (sc_valid_bytes sc') b @ l = b" using Cons.prems(1,2) v by auto
      then show ?thesis using Inr p False v by (auto intro!: triple_okI)
    qed
  qed
  then show ?case
    by (auto intro!: triple_and_then [OF triple_io_any])
qed

lemma triple_repair_any:
  assumes torn: "\<And>t. sc_torn_tail sc = Some t \<Longrightarrow> take (sc_valid_bytes sc) (file_bytes F path) @ t = file_bytes F path"
  shows "triple (on_files False (same_log F path)) (repair_log path sc)
    (\<lambda>_ d. bytes_kept F path (d_files d)) (\<lambda>_ d. bytes_kept F path (d_files d))"
proof (cases "sc_torn_tail sc")
  case None
  have put: "triple (on_files False (same_log F path)) (write_file path [newline])
      (\<lambda>_. on_files False (bytes_kept F path)) (\<lambda>_ d. bytes_kept F path (d_files d))"
    by (rule triple_any_error, rule triple_weaken [OF triple_write_file
          [where G = "same_log F path" and H = "bytes_kept F path"]])
      (auto simp: bytes_kept_extend elim!: on_files_mono)
  show ?thesis
    unfolding repair_log_def None
    by (auto intro!: triple_and_then [OF put] triple_and_then [OF triple_io_any] triple_okI
        simp: on_files_def same_log_kept)
next
  case (Some t)
  let ?b = "file_bytes F path"
  let ?S = "same_log F path"
  let ?K = "bytes_kept F path"
  have b: "take (sc_valid_bytes sc) ?b @ t = ?b" using torn [OF Some] .
  define backup where "backup i = path @ ''.torn-'' @ i" for i
  have name: "backup i \<noteq> path" "path \<noteq> backup i" for i by (simp_all add: backup_def)
  let ?C = "\<lambda>i fs. ?S fs \<and> bt_get F (backup i) = None \<and> file_bytes fs (backup i) = []"
  let ?D = "\<lambda>i fs. ?S fs \<and> bt_get F (backup i) = None \<and> file_bytes fs (backup i) = t"
  have new: "?S (bt_insert (backup i) c fs)" if "?S fs" "bt_get F (backup i) = None" for i c fs
    using that name by (auto simp: same_log_def)
  have fresh: "bt_get F q = None" if "?S fs" "bt_get fs q = None" for q fs
    using that by (metis same_log_def)
  have create: "triple (on_files False ?S) (create_new (backup i)) (\<lambda>_. on_files False (?C i))
      (\<lambda>_ d. ?K (d_files d))" for i
    by (rule triple_any_error, rule triple_weaken [OF triple_create_new [where G = ?S and H = ?K]])
      (auto simp: same_log_kept new fresh elim!: on_files_mono)
  have put: "triple (on_files False (?C i)) (write_file (backup i) t) (\<lambda>_. on_files False (?D i))
      (\<lambda>_ d. ?K (d_files d))" for i
    by (rule triple_any_error, rule triple_weaken [OF triple_write_file [where G = "?C i" and H = ?K]])
      (auto simp: bytes_kept_new new name elim!: on_files_mono)
  have sync: "triple (on_files False (?D i)) disk_io (\<lambda>_. on_files False (?D i)) (\<lambda>_ d. ?K (d_files d))"
    for i
    by (rule triple_io_any) (simp add: same_log_kept)
  have cut: "triple (on_files False (?D i)) (set_len path (sc_valid_bytes sc)) (\<lambda>_. on_files False ?K)
      (\<lambda>_ d. ?K (d_files d))" for i
    by (rule triple_any_error, rule triple_weaken [OF triple_set_len [where G = "?D i" and H = ?K]])
      (use b name in \<open>auto simp: same_log_kept intro: bytes_kept_cut elim!: on_files_mono\<close>)
  have final: "triple (on_files False ?K) disk_io (\<lambda>_. on_files False ?K) (\<lambda>_ d. ?K (d_files d))"
    by (rule triple_io_any)
  show ?thesis
    unfolding repair_log_def Some Let_def option.case backup_def [symmetric]
    by (rule triple_and_then [OF triple_disk_EventId], rule triple_and_then [OF create],
        rule triple_and_then [OF put], rule triple_and_then [OF sync], rule triple_and_then [OF sync],
        rule triple_and_then [OF sync], rule triple_and_then [OF cut], rule triple_and_then [OF final],
        rule triple_okI) (simp add: on_files_def)
qed

text \<open>Opening never discards a byte of the log, whatever its contents, the codec and the I/O
  failures: afterwards every other file is as it was, and the log's old bytes are a prefix of its
  new ones, or its new bytes followed by the bytes of a file the open created.\<close>

theorem jsonl_open_keeps_bytes:
  "bytes_kept (d_files d) path (d_files (snd (jsonl_open decode path d)))"
proof -
  let ?F = "d_files d"
  have new: "same_log ?F path (bt_insert path [] fs)" if "same_log ?F path fs" "bt_get fs path = None"
    for fs
    using that unfolding same_log_def by (auto simp: file_bytes_def)
  have op: "triple (on_files False (same_log ?F path)) (open_log path)
      (\<lambda>_. on_files False (same_log ?F path)) (\<lambda>_ d. bytes_kept ?F path (d_files d))"
    by (rule triple_any_error, rule triple_open_log) (auto simp: same_log_kept new)
  have read: "triple (on_files False (same_log ?F path)) (reads (\<lambda>d. split_lines (contents d path)))
      (\<lambda>ls d. on_files False (same_log ?F path) d \<and> ls = split_lines (file_bytes ?F path))
      (\<lambda>_ d. bytes_kept ?F path (d_files d))"
    by (rule triple_readsI) (simp add: on_files_def same_log_def)
  have scan: "triple (\<lambda>d. on_files False (same_log ?F path) d \<and> ls = split_lines (file_bytes ?F path))
      (scan_lines decode ls scan_start)
      (\<lambda>sc d. on_files False (same_log ?F path) d \<and> (\<forall>t. sc_torn_tail sc = Some t \<longrightarrow>
         take (sc_valid_bytes sc) (file_bytes ?F path) @ t = file_bytes ?F path))
      (\<lambda>_ d. bytes_kept ?F path (d_files d))" for ls
  proof (cases "ls = split_lines (file_bytes ?F path)")
    case True
    show ?thesis
      by (rule triple_weaken [OF triple_scan_any 
          [of "[]" ls "file_bytes ?F path" scan_start "same_log ?F path"]])
        (auto simp: True scan_start_def split_lines_terminated same_log_kept)
  qed (simp add: triple_def)
  have repair: "triple (\<lambda>d. on_files False (same_log ?F path) d \<and> (\<forall>t. sc_torn_tail sc = Some t \<longrightarrow>
         take (sc_valid_bytes sc) (file_bytes ?F path) @ t = file_bytes ?F path))
      (repair_log path sc)
      (\<lambda>_ d. bytes_kept ?F path (d_files d)) (\<lambda>_ d. bytes_kept ?F path (d_files d))" for sc
    using triple_repair_any [of sc ?F path] by (auto simp: triple_def)
  have "triple (on_files False (same_log ?F path)) (jsonl_open decode path)
      (\<lambda>_ d. bytes_kept ?F path (d_files d)) (\<lambda>_ d. bytes_kept ?F path (d_files d))"
    unfolding jsonl_open_def Let_def
    by (rule triple_and_then [OF op], rule triple_and_then [OF read], rule triple_and_then [OF scan],
        rule triple_and_then [OF repair], rule triple_readsI)
  moreover have "on_files False (same_log ?F path) d"
    by (simp add: on_files_def same_log_def)
  ultimately show ?thesis
    unfolding triple_def by (cases "jsonl_open decode path d") (auto split: sum.splits)
qed

end
