(* ===== verification/TurnProperties.thy ===== *)
theory TurnProperties
  imports TurnFrame JsonlStore
begin

text \<open>
  The properties of a turn, for every runtime on a store that keeps the contract, and so for the
  in-memory store and the JSONL store; what observers see; and the guard of a thread.
\<close>

interpretation memory_runtime: served_runtime
  "rt\<lparr>rt_append := memory_append, rt_load := memory_load\<rparr>" "\<lambda>t s. thread_events t (ms_events s)"
  for rt :: "(memory_store, 'w) runtime"
  by (simp add: served_runtime_def mem.threads.thread_log_axioms)

interpretation jsonl_runtime: served_runtime
  "rt\<lparr>rt_append := jsonl_append encode, rt_load := jsonl_load\<rparr>" "\<lambda>t s. thread_events t (js_events s)"
  for rt :: "(jsonl_store, 'w) runtime" and encode
  by (simp add: served_runtime_def jsonl.threads.thread_log_axioms)

section \<open>What a run adds to the log\<close>

text \<open>The recovery's events, then those of the turn.\<close>

definition turn_added ::
  "('s, 'w) runtime \<Rightarrow> turn_id \<Rightarrow> event_envelope list \<Rightarrow> event_envelope list \<Rightarrow> event_envelope list \<Rightarrow>
   event_envelope list \<Rightarrow> turn_state \<Rightarrow> bool" where
  "turn_added rt u L L' R vs st \<longleftrightarrow>
     L' = L @ R @ vs \<and> (\<forall>v \<in> set R. recovery_step L v) \<and> (\<forall>v \<in> set vs. ev_turn_id v = Some u) \<and>
     turn_run (rules_of rt) (map ev_event vs) st \<and>
     (vs \<noteq> [] \<longrightarrow> unused_turn u L \<and> (\<forall>w. \<not> turn_open w (L @ R)))"

definition turn_result ::
  "thread_id \<Rightarrow> turn_id \<Rightarrow> event_envelope list \<Rightarrow> turn_state \<Rightarrow> runtime_error + turn_outcome \<Rightarrow> bool" where
  "turn_result t u added st r \<longleftrightarrow>
     (case r of
        Inr out \<Rightarrow> ts_phase st = Closed (TurnCompleted (to_content out)) \<and> to_thread_id out = t \<and>
          to_turn_id out = u \<and> to_model_iterations out = ts_iteration st
      | Inl x \<Rightarrow> store_failure x \<or>
          (added = [] \<and> x \<in> {UnknownThread t, ConcurrentTurn t, DuplicateTurn t u}) \<or>
          (\<exists>e. ts_phase st = Closed e \<and> ended_by u x e))"

lemma repaired_steps:
  assumes "partly_repaired L M"
  obtains R where "M = L @ R" "\<And>v. v \<in> set R \<Longrightarrow> recovery_step L v"
proof -
  obtain R rest where R: "M = L @ R" "recovery_plan (scan_envelopes L recovery_start) = map step_of R @ rest"
    using assms by (auto simp: partly_repaired_def)
  have "recovery_step L v" if "v \<in> set R" for v
    by (rule recovery_plan_steps) (use that R(2) in auto)
  with R(1) show ?thesis by (rule that)
qed

lemma repaired_closed: "repaired L M \<Longrightarrow> \<not> turn_open w M"
  unfolding repaired_def using recovery_plan_closes(2) by blast

lemma turn_added_in_turn:
  assumes "repaired L M" and "in_turn (rules_of rt) u M L' st" and "unused_turn u L"
  obtains R vs where "turn_added rt u L L' R vs st"
proof -
  obtain R where R: "M = L @ R" "\<And>v. v \<in> set R \<Longrightarrow> recovery_step L v"
    using repaired_steps [OF repaired_partly [OF assms(1)]] by blast
  obtain vs where "L' = M @ vs" "\<forall>v \<in> set vs. ev_turn_id v = Some u"
    "turn_run (rules_of rt) (map ev_event vs) st"
    using assms(2) by (auto simp: in_turn_def)
  with R repaired_closed [OF assms(1)] assms(3) have "turn_added rt u L L' R vs st"
    by (auto simp: turn_added_def)
  then show ?thesis by (rule that)
qed

lemma turn_added_none:
  assumes "partly_repaired L L'"
  obtains R where "turn_added rt u L L' R [] turn_start"
proof -
  obtain R where "L' = L @ R" "\<And>v. v \<in> set R \<Longrightarrow> recovery_step L v"
    using repaired_steps [OF assms] by blast
  then have "turn_added rt u L L' R [] turn_start" by (simp add: turn_added_def)
  then show ?thesis by (rule that)
qed

text \<open>The shared fact: what a run adds and how it ends.\<close>

lemma run_turn_summary:
  assumes "served_runtime rt log" and "run_turn_with_id rt t u input s = (r, s')"
  obtains R vs st where "turn_added rt u (log t (r_store s)) (log t (r_store s')) R vs st"
    "turn_result t u (R @ vs) st r"
proof -
  let ?L = "log t (r_store s)" and ?L' = "log t (r_store s')"
  note on_log = served_runtime.on_log_def [OF assms(1)]
  note triple = served_runtime.triple_run_turn [OF assms(1), of t ?L u input]
  have pre: "served_runtime.on_log log t (\<lambda>es. es = ?L) s" by (simp add: on_log)
  show ?thesis
  proof (cases r)
    case (Inr out)
    with assms(2) have "run_turn_with_id rt t u input s = (Inr out, s')" by simp
    from triple_value [OF triple pre this] obtain M st where "repaired ?L M" "unused_turn u ?L"
      "in_turn (rules_of rt) u M ?L' st"
      "finished t u (max_model_iterations (rt_config rt)) out st"
      by (auto simp: on_log turn_returned_def at_turn_def)
    then show ?thesis
      by (elim turn_added_in_turn) (auto simp: turn_result_def finished_def Inr intro: that)
  next
    case (Inl x)
    with assms(2) have "run_turn_with_id rt t u input s = (Inl x, s')" by simp
    from triple_error [OF triple pre this] have "turn_ended rt t u ?L x ?L'" by (simp add: on_log)
    then consider "?L' = ?L" "x \<in> {UnknownThread t, ConcurrentTurn t, DuplicateTurn t u}"
      | "partly_repaired ?L ?L'" "store_failure x"
      | M where "unused_turn u ?L" "repaired ?L M" "halted (rules_of rt) u M x ?L'"
      unfolding turn_ended_def by blast
    then show ?thesis
    proof cases
      case 1
      then have "turn_added rt u ?L ?L' [] [] turn_start" by (simp add: turn_added_def)
      with 1 Inl show ?thesis by (intro that [of "[]" "[]" turn_start]) (auto simp: turn_result_def)
    next
      case 2
      then show ?thesis
        by (elim turn_added_none [of _ _ rt u]) (auto simp: turn_result_def Inl intro: that)
    next
      case 3
      from 3(3) obtain st where st: "in_turn (rules_of rt) u M ?L' st"
        "store_failure x \<or> (\<exists>e. ts_phase st = Closed e \<and> ended_by u x e)"
        by (auto simp: halted_def ended_def)
      with 3 show ?thesis
        by (elim turn_added_in_turn [of _ M rt u _ st]) (auto simp: turn_result_def Inl intro: that)
    qed
  qed
qed

text \<open>Recovery events are receipts and failures.\<close>

lemma recovery_step_kind:
  "recovery_step L v \<Longrightarrow> (\<exists>r. ev_event v = ToolReceiptRecorded r) \<or> (\<exists>m. ev_event v = TurnFailed m)"
  by (cases "ev_event v") (auto simp: recovery_step_def)

lemma turn_result_closed:
  assumes "turn_added rt u L L' R vs st" and "turn_result t u (R @ vs) st r"
  shows "(\<exists>x. r = Inl x \<and> store_failure x) \<or> vs = [] \<or>
    (\<exists>xs e. map ev_event vs = xs @ [e] \<and> terminal_event e \<and> \<not> list_ex terminal_event xs \<and>
       ts_phase st = Closed e \<and>
       (case r of Inr out \<Rightarrow> e = TurnCompleted (to_content out) | Inl x \<Rightarrow> ended_by u x e))"
proof -
  have run: "turn_run (rules_of rt) (map ev_event vs) st"
    using assms(1) by (simp add: turn_added_def)
  have closed: "\<exists>xs. map ev_event vs = xs @ [e] \<and> terminal_event e \<and> \<not> list_ex terminal_event xs"
    if "ts_phase st = Closed e" for e
    using turn_run_closed [OF run that] turn_run_terminal run by metis
  show ?thesis
  proof (cases r)
    case (Inr out)
    with assms(2) have "ts_phase st = Closed (TurnCompleted (to_content out))"
      by (simp add: turn_result_def)
    with closed Inr show ?thesis by fastforce
  next
    case (Inl x)
    with assms(2) consider "store_failure x" | "vs = []"
      | e where "ts_phase st = Closed e" "ended_by u x e"
      by (auto simp: turn_result_def)
    then show ?thesis
      using closed Inl by cases fastforce+
  qed
qed

section \<open>Properties\<close>

text \<open>C1 The runtime refines the contract of a turn. Whatever the model, tools, approvals, hooks,
  cancellation and store do, what a run adds to the thread's log is the recovery of earlier turns
  followed by a history of this turn that the contract allows; the turn's history begins only
  when its identifier is unused and no turn is open; and the value or error that is returned
  agrees with the history's last event, unless the store failed or the run was refused with the
  log untouched.\<close>

theorem run_turn_refines_contract:
  assumes "served_runtime rt log" and "run_turn_with_id rt t u input s = (r, s')"
  shows "\<exists>R vs st. turn_added rt u (log t (r_store s)) (log t (r_store s')) R vs st \<and>
    turn_result t u (R @ vs) st r"
  using run_turn_summary [OF assms] by blast





text \<open>C6 One active turn per thread: a run on a thread that has an active turn is refused with the
  store and the notifications untouched, and every run, however it ends, leaves the set of
  active threads as it found it.\<close>

theorem guard_excludes_and_releases:
  assumes "run_turn_with_id rt t u input s = (r, s')"
  shows "r_active s' = r_active s \<and>
    (t \<in> set (r_active s) \<longrightarrow> r_store s' = r_store s \<and> r_notified s' = r_notified s \<and> isl r)"
proof
  show "r_active s' = r_active s" using assms by (rule run_turn_active)
  show "t \<in> set (r_active s) \<longrightarrow> r_store s' = r_store s \<and> r_notified s' = r_notified s \<and> isl r"
    using assms by (cases rule: run_turn_cases) auto
qed

section \<open>A sample run\<close>

text \<open>The model asks for one call of a tool whose access is \<open>Ask\<close>, the approval is given, the
  execution succeeds and the model completes the turn.\<close>

definition sample_tool :: "nat tool" where
  "sample_tool = \<lparr>
     t_definition = \<lparr>td_name = ''shell'', td_description = [], td_input_schema = JNull\<rparr>,
     t_prepare = (\<lambda>call _ w. (Inr \<lparr>pc_call_id = tc_id call,
       pc_action = CanonicalAction_new (tc_name call) (tc_arguments call) ExternalSideEffect Retry_Unsafe\<rparr>, w)),
     t_execute = (\<lambda>_ _ w. (Inr JNull, w))\<rparr>"

definition sample_runtime :: "(memory_store, nat) runtime" where
  "sample_runtime = \<lparr>
     rt_model = (\<lambda>_ w. (Inr (if w = 0
       then response_tool_calls [\<lparr>tc_id = ''c1'', tc_name = ''shell'', tc_arguments = JNull\<rparr>]
       else response_text ''done''), Suc w)),
     rt_append = memory_append, rt_load = memory_load,
     rt_compile = (\<lambda>i w. (Inr \<lparr>cc_prompt = [], cc_messages = ci_transcript i\<rparr>, w)),
     rt_tools = [(''shell'', \<lparr>rg_definition = t_definition sample_tool, rg_implementation = sample_tool\<rparr>)],
     rt_policy = capability_access (grant deny_by_default ''shell'' Ask),
     rt_policy_context = sample_context, rt_parent = None,
     rt_approvals = (\<lambda>q w. (Inr (Approved (ar_action q)), w)),
     rt_executor = DirectExecutor, rt_hooks = [], rt_observers = 1,
     rt_cancelled = (\<lambda>w. (False, w)),
     rt_config = default_config\<lparr>max_model_iterations := Suc (Suc 0)\<rparr>\<rparr>"

definition sample_state :: "(memory_store, nat) rstate" where
  "sample_state = \<lparr>
     r_store = snd (memory_append ''t'' None ThreadStarted (memory_new (sample_host (\<lambda>_. Io_ok)))),
     r_env = 0, r_notified = [], r_active = [], r_active_poisoned = False,
     r_host = sample_host (\<lambda>_. Io_ok)\<rparr>"

lemma sample_served: "served_runtime sample_runtime (\<lambda>t s. thread_events t (ms_events s))"
proof -
  have "sample_runtime = sample_runtime\<lparr>rt_append := memory_append, rt_load := memory_load\<rparr>"
    by (simp add: sample_runtime_def)
  then show ?thesis using memory_runtime.served_runtime_axioms [of sample_runtime] by simp
qed

definition sample_outcome :: turn_outcome where
  "sample_outcome =
     \<lparr>to_thread_id = ''t'', to_turn_id = ''u'', to_content = ''done'', to_model_iterations = 2\<rparr>"

definition sample_final :: "(memory_store, nat) rstate" where
  "sample_final = snd (run_turn_with_id sample_runtime ''t'' ''u'' ''hi'' sample_state)"

lemmas sample_turn_defs =
  run_turn_with_id_def ensure_thread_def load_events_def map_err_def attempt_def and_then_def
  on_store_def zoom_def load_act_def ok_def err_def with_thread_def acquire_thread_def
  ensure_turn_unused_def recover_exclusive_def recover_thread_def recovery_start_def
  recovery_keys_def bs_extend_def start_turn_def append_event_def notify_def writes_def
  capabilities_def is_cancelled_def on_env_def compile_context_def hooks_before_model_def
  hooks_before_tool_def hooks_after_tool_def request_model_def record_response_def
  validate_tool_calls_def check_stop_def stop_error_def handle_tool_call_def run_prepared_def
  ask_approval_def execute_call_def receipt_of_def record_receipt_def denial_of_def
  registry_get_def DirectExecutor_def release_thread_def sample_runtime_def sample_state_def
  sample_tool_def memory_append_def memory_load_def memory_new_def sample_host_def
  make_envelope_def now_nanos_def EventId_new_def generated_id_def response_tool_calls_def
  response_text_def no_usage_def project_capabilities_def registry_names_def grant_def
  deny_by_default_def capability_access_def bt_from_def projection_access_def visible_names_def
  CanonicalAction_new_def execution_context_def default_config_def blank_def trim_def trim_end_def
  ws1_def ws2_def ws3_def byte_def id_text_def hex_def show_base_small as_millis_def Let_def

lemma sample_run:
  "run_turn_with_id sample_runtime ''t'' ''u'' ''hi'' sample_state = (Inr sample_outcome, sample_final)"
proof -
  have "fst (run_turn_with_id sample_runtime ''t'' ''u'' ''hi'' sample_state) = Inr sample_outcome"
    by (simp add: sample_turn_defs sample_outcome_def)
  then show ?thesis by (simp add: sample_final_def prod_eq_iff)
qed

text \<open>The run executes the call.\<close>

lemma sample_executes:
  "list_ex (\<lambda>v. case ev_event v of ToolExecutionStarted p \<Rightarrow> pc_call_id p = ''c1'' | _ \<Rightarrow> False)
     (thread_events ''t'' (ms_events (r_store sample_final)))"
  by (simp add: sample_final_def sample_turn_defs thread_events_def)

theorem run_turn_refines_contract_witness:
  "served_runtime sample_runtime (\<lambda>t s. thread_events t (ms_events s)) \<and>
   run_turn_with_id sample_runtime ''t'' ''u'' ''hi'' sample_state = (Inr sample_outcome, sample_final) \<and>
   (\<exists>R vs st. turn_added sample_runtime ''u'' (thread_events ''t'' (ms_events (r_store sample_state))) (thread_events ''t'' (ms_events (r_store sample_final))) R vs st \<and>
    turn_result ''t'' ''u'' (R @ vs) st (Inr sample_outcome))"
  by (intro conjI sample_served sample_run run_turn_refines_contract [OF sample_served sample_run])





text \<open>The second turn on an active thread.\<close>

lemma sample_refused:
  "run_turn_with_id sample_runtime ''t'' ''u'' ''hi'' (sample_state\<lparr>r_active := [''t'']\<rparr>) =
     (Inl (ConcurrentTurn ''t''), sample_state\<lparr>r_active := [''t'']\<rparr>)"
  by (simp add: sample_turn_defs)

theorem guard_excludes_and_releases_witness:
  "run_turn_with_id sample_runtime ''t'' ''u'' ''hi'' (sample_state\<lparr>r_active := [''t'']\<rparr>) =
     (Inl (ConcurrentTurn ''t''), sample_state\<lparr>r_active := [''t'']\<rparr>) \<and>
   ''t'' \<in> set (r_active (sample_state\<lparr>r_active := [''t'']\<rparr>))"
  using guard_excludes_and_releases [OF sample_refused] sample_refused by simp

end
