(* ===== verification/TextLog.thy ===== *)
theory TextLog
  imports JsonlStore
begin

text \<open>
  Logs that are read as text, line by line, and replayed: what the task ledger and the memory
  store share. A reader takes \<open>BufReader::lines()\<close>, fails on a line that is not UTF-8, skips blank
  lines and decodes the others; \<open>text_codec\<close> states what is relied on of the JSON codec for the
  records of such a log.
\<close>

section \<open>Text lines\<close>

text \<open>Well-formed UTF-8, recognised byte by byte: no overlong form, no surrogate, nothing above
  U+10FFFF. The states name the continuation bytes that are due.\<close>

datatype utf8_state =
    Char_Start | Due1 | Due2 | Due3 | After_E0 | After_ED | After_F0 | After_F4 | Malformed

definition utf8_first :: "nat \<Rightarrow> utf8_state" where
  "utf8_first b =
     (if b < 0x80 then Char_Start
      else if 0xC2 \<le> b \<and> b < 0xE0 then Due1
      else if b = 0xE0 then After_E0
      else if b = 0xED then After_ED
      else if 0xE1 \<le> b \<and> b \<le> 0xEF then Due2
      else if b = 0xF0 then After_F0
      else if 0xF1 \<le> b \<and> b \<le> 0xF3 then Due3
      else if b = 0xF4 then After_F4
      else Malformed)"

fun utf8_step :: "utf8_state \<Rightarrow> nat \<Rightarrow> utf8_state" where
  "utf8_step Char_Start b = utf8_first b"
| "utf8_step Due1 b = (if 0x80 \<le> b \<and> b < 0xC0 then Char_Start else Malformed)"
| "utf8_step Due2 b = (if 0x80 \<le> b \<and> b < 0xC0 then Due1 else Malformed)"
| "utf8_step Due3 b = (if 0x80 \<le> b \<and> b < 0xC0 then Due2 else Malformed)"
| "utf8_step After_E0 b = (if 0xA0 \<le> b \<and> b < 0xC0 then Due1 else Malformed)"
| "utf8_step After_ED b = (if 0x80 \<le> b \<and> b < 0xA0 then Due1 else Malformed)"
| "utf8_step After_F0 b = (if 0x90 \<le> b \<and> b < 0xC0 then Due2 else Malformed)"
| "utf8_step After_F4 b = (if 0x80 \<le> b \<and> b < 0x90 then Due2 else Malformed)"
| "utf8_step Malformed b = Malformed"

definition valid_utf8 :: "string \<Rightarrow> bool" where
  "valid_utf8 s \<longleftrightarrow> foldl (\<lambda>q c. utf8_step q (byte c)) Char_Start s = Char_Start"

abbreviation carriage_return :: char where
  "carriage_return \<equiv> CHR 0x0D"

text \<open>\<open>lines()\<close> drops the line feed, and a carriage return before it.\<close>

definition strip_eol :: "string \<Rightarrow> string" where
  "strip_eol l =
     (if terminated l
      then if butlast l \<noteq> [] \<and> last (butlast l) = carriage_return then butlast (butlast l) else butlast l
      else l)"

section \<open>The codec\<close>

text \<open>A record is written as a JSON object on one line, without line feed or carriage return, and
  reads back.\<close>

definition text_codec :: "('a \<Rightarrow> string + string) \<Rightarrow> (string \<Rightarrow> 'a decoded) \<Rightarrow> 'a set \<Rightarrow> bool" where
  "text_codec encode decode es \<longleftrightarrow>
     (\<forall>e \<in> es. \<exists>s. encode e = Inr (CHR ''{'' # s @ ''}'') \<and> valid_utf8 (CHR ''{'' # s @ ''}'') \<and>
        newline \<notin> set s \<and> decode (CHR ''{'' # s @ ''}'') = Decoded e)"

lemma text_codecE:
  assumes "text_codec encode decode es" and "e \<in> es"
  obtains s where "encode e = Inr (CHR ''{'' # s @ ''}'')" "valid_utf8 (CHR ''{'' # s @ ''}'')"
    "newline \<notin> set s" "decode (CHR ''{'' # s @ ''}'') = Decoded e"
  using assms unfolding text_codec_def by blast

lemma text_codec_subset: "text_codec encode decode es \<Longrightarrow> ds \<subseteq> es \<Longrightarrow> text_codec encode decode ds"
  unfolding text_codec_def by blast

lemma valid_utf8_ascii: "byte a < 0x80 \<Longrightarrow> valid_utf8 s \<Longrightarrow> valid_utf8 (s @ [a])"
  by (simp add: valid_utf8_def utf8_first_def)

lemma trim_start_object [simp]: "trim_start (CHR ''{'' # s) = CHR ''{'' # s"
  by (cases s; cases "tl s") (simp_all add: ws1_def ws2_def ws3_def byte_def)

lemma trim_reversed_object [simp]: "trim_reversed (CHR ''}'' # s) = CHR ''}'' # s"
  by (cases s; cases "tl s") (simp_all add: ws1_def ws2_def ws3_def byte_def)

lemma object_not_blank [simp]: "\<not> blank (CHR ''{'' # s @ ''}'')"
  by (simp add: blank_def trim_def trim_end_def)

lemma strip_eol_line [simp]: "s \<noteq> [] \<Longrightarrow> last s \<noteq> carriage_return \<Longrightarrow> strip_eol (s @ [newline]) = s"
  by (simp add: strip_eol_def terminated_def)

lemma split_lines_text:
  assumes "text_codec encode decode (set es)"
  shows "split_lines (concat (map (line_of encode) es) @ t) = map (line_of encode) es @ split_lines t"
  using assms
proof (induction es)
  case Nil
  then show ?case by simp
next
  case (Cons e es)
  obtain s where s: "encode e = Inr (CHR ''{'' # s @ ''}'')" "newline \<notin> set s"
    by (rule text_codecE [OF Cons.prems, of e]) auto
  have "newline \<notin> set (CHR ''{'' # s @ ''}'')" using s(2) by simp
  from split_lines_line [OF this] have "split_lines (line_of encode e @ u) = line_of encode e # split_lines u"
    for u by (simp add: line_of_def s(1))
  moreover have "text_codec encode decode (set es)"
    using Cons.prems by (rule text_codec_subset) auto
  ultimately show ?case using Cons.IH by simp
qed

text \<open>The text of an I/O error, without the prefix a store adds.\<close>

fun io_message :: "store_error \<Rightarrow> string" where
  "io_message (Store_Io m) = m"
| "io_message e = store_error_text e"

section \<open>Replaying a log\<close>

text \<open>One line of a log being replayed: what \<open>apply\<close> makes of its record.\<close>

datatype 'e read_error =
    Not_Utf8
  | Bad_Record nat string
  | Rejected 'e

definition replay_line ::
  "(string \<Rightarrow> 'a decoded) \<Rightarrow> ('a \<Rightarrow> 'v \<Rightarrow> 'e + 'v) \<Rightarrow> nat \<Rightarrow> string \<Rightarrow> 'v \<Rightarrow> 'e read_error + 'v" where
  "replay_line decode apply index line v =
     (if \<not> valid_utf8 line then Inl Not_Utf8
      else if blank (strip_eol line) then Inr v
      else case decode (strip_eol line) of
        Undecodable eof m \<Rightarrow> Inl (Bad_Record (index + 1) m)
      | Decoded e \<Rightarrow> (case apply e v of Inl x \<Rightarrow> Inl (Rejected x) | Inr v' \<Rightarrow> Inr v'))"

text \<open>The loop over the lines; each read may fail, the one that finds the end of the file too.\<close>

fun replay_lines ::
  "(string \<Rightarrow> 'a decoded) \<Rightarrow> ('a \<Rightarrow> 'v \<Rightarrow> 'e + 'v) \<Rightarrow> nat \<Rightarrow> string list \<Rightarrow> 'v \<Rightarrow>
   (disk, store_error + 'e read_error, 'v) act" where
  "replay_lines decode apply index [] v = and_then (map_err Inl disk_io) (\<lambda>_. ok v)"
| "replay_lines decode apply index (l # ls) v =
     and_then (map_err Inl disk_io) (\<lambda>_.
       case replay_line decode apply index l v of
         Inl x \<Rightarrow> err (Inr x)
       | Inr v' \<Rightarrow> replay_lines decode apply (index + 1) ls v')"

text \<open>The abstract replay: the records applied in order.\<close>

fun replay :: "('a \<Rightarrow> 'v \<Rightarrow> 'e + 'v) \<Rightarrow> 'a list \<Rightarrow> 'v \<Rightarrow> 'e + 'v" where
  "replay apply [] v = Inr v"
| "replay apply (e # es) v = (case apply e v of Inl x \<Rightarrow> Inl x | Inr v' \<Rightarrow> replay apply es v')"

lemma replay_append:
  "replay apply (es @ fs) v =
     (case replay apply es v of Inl x \<Rightarrow> Inl x | Inr v' \<Rightarrow> replay apply fs v')"
  by (induction es arbitrary: v) (auto split: sum.splits)

lemma replay_line_record:
  assumes "text_codec encode decode es" and "e \<in> es"
  shows "replay_line decode apply n (line_of encode e) v =
    (case apply e v of Inl x \<Rightarrow> Inl (Rejected x) | Inr v' \<Rightarrow> Inr v')"
proof -
  obtain s where s: "encode e = Inr (CHR ''{'' # s @ ''}'')" "valid_utf8 (CHR ''{'' # s @ ''}'')"
    "decode (CHR ''{'' # s @ ''}'') = Decoded e"
    using assms by (rule text_codecE)
  let ?s = "CHR ''{'' # s @ ''}''"
  have "line_of encode e = ?s @ [newline]" by (simp add: line_of_def s(1))
  moreover have "valid_utf8 (?s @ [newline])"
    using s(2) by (intro valid_utf8_ascii) (simp_all add: byte_def)
  moreover have "strip_eol (?s @ [newline]) = ?s" by (rule strip_eol_line) simp_all
  ultimately show ?thesis using s(3) object_not_blank [of s] by (simp add: replay_line_def)
qed

text \<open>Reading the lines of records replays the records, unless a read fails.\<close>

lemma replay_lines_records:
  assumes "text_codec encode decode (set es)" and "replay apply es v = Inr v'"
    and "replay_lines decode apply n (map (line_of encode) es) v d = (r, d')"
  shows "r = Inr v' \<or> (\<exists>m. r = Inl (Inl (Store_Io m)))" and "d_files d' = d_files d"
proof -
  have "(r = Inr v' \<or> (\<exists>m. r = Inl (Inl (Store_Io m)))) \<and> d_files d' = d_files d"
    using assms
  proof (induction es arbitrary: v d n)
    case Nil
    then show ?case
      by (auto simp: act_defs disk_io_def split: prod.splits io_outcome.splits)
  next
    case (Cons e es)
    have sub: "text_codec encode decode (set es)"
      using Cons.prems(1) by (rule text_codec_subset) auto
    obtain v1 where v1: "apply e v = Inr v1" "replay apply es v1 = Inr v'"
      using Cons.prems(2) by (auto split: sum.splits)
    have line: "replay_line decode apply n (line_of encode e) v = Inr v1"
      by (subst replay_line_record [OF Cons.prems(1)]) (simp_all add: v1(1))
    obtain q d1 where io: "disk_io d = (q, d1)" by fastforce
    then have d1: "d_files d1 = d_files d"
      by (auto simp: disk_io_def split: prod.splits io_outcome.splits)
    show ?case
    proof (cases q)
      case (Inl x)
      then have "\<exists>m. x = Store_Io m"
        using io by (auto simp: disk_io_def split: prod.splits io_outcome.splits)
      then show ?thesis
        using Cons.prems(3) io Inl d1 by (auto simp: act_defs)
    next
      case (Inr y)
      then have "replay_lines decode apply (n + 1) (map (line_of encode) es) v1 d1 = (r, d')"
        using Cons.prems(3) io line by (simp add: act_defs)
      from Cons.IH [OF sub v1(2) this] d1 show ?thesis by simp
    qed
  qed
  then show "r = Inr v' \<or> (\<exists>m. r = Inl (Inl (Store_Io m)))" and "d_files d' = d_files d" by simp_all
qed

text \<open>Opening the log, with its result: the bytes stay, only I/O fails.\<close>

lemma open_log_result:
  assumes "open_log path d = (r, d')"
  shows "contents d' path = contents d path" and "r = Inr () \<or> (\<exists>m. r = Inl (Store_Io m))"
  using assms
  by (auto simp: open_log_def disk_io_def act_defs put_file_def file_bytes_def
      split: prod.splits sum.splits io_outcome.splits if_splits)

text \<open>The counter of a log: the maximum taken while replaying is the next number, below wrap-around.\<close>

lemma max_next_sequence:
  assumes "Suc n < 2 ^ 64"
  shows "max (of_nat n) (of_nat n + 1) = (of_nat n + 1 :: u64)"
proof -
  have "of_nat n + 1 = (of_nat (Suc n) :: u64)" by simp
  then have "(of_nat n :: u64) \<le> of_nat n + 1"
    using assms by (simp only: word_le_nat_alt) (simp add: unat_of_nat take_bit_nat_eq_self del: of_nat_Suc)
  then show ?thesis by (simp add: max_def)
qed

section \<open>Event-sourced state\<close>

text \<open>A state that is only changed by events: what each event keeps, every replay keeps.\<close>

locale event_sourced =
  fixes apply_to :: "'a \<Rightarrow> 'v \<Rightarrow> 'e + 'v" and invar :: "'v \<Rightarrow> bool"
  assumes apply_invar: "invar v \<Longrightarrow> apply_to e v = Inr v' \<Longrightarrow> invar v'"
begin

lemma replay_invar: "invar v \<Longrightarrow> replay apply_to es v = Inr v' \<Longrightarrow> invar v'"
  by (induction es arbitrary: v) (auto split: sum.splits dest: apply_invar)

lemma replay_split:
  "replay apply_to (es @ fs) v = Inr v' \<Longrightarrow>
   \<exists>u. replay apply_to es v = Inr u \<and> replay apply_to fs u = Inr v'"
  by (simp add: replay_append split: sum.splits)

end

text \<open>A state whose events run out: each takes from a finite allowance.\<close>

locale bounded_events = event_sourced +
  fixes allowance :: "'b \<Rightarrow> nat"
  assumes apply_allowance: "invar v \<Longrightarrow> apply_to e v = Inr v' \<Longrightarrow> allowance v' < allowance v"
begin

lemma replay_bounded: "invar v \<Longrightarrow> replay apply_to es v = Inr v' \<Longrightarrow> length es + allowance v' \<le> allowance v"
proof (induction es arbitrary: v)
  case Nil
  then show ?case by simp
next
  case (Cons e es)
  then obtain u where u: "apply_to e v = Inr u" "replay apply_to es u = Inr v'"
    by (auto split: sum.splits)
  with Cons have "length es + allowance v' \<le> allowance u" by (blast intro: apply_invar)
  with apply_allowance [OF Cons.prems(1) u(1)] show ?case by simp
qed

lemma exhausted: "invar v \<Longrightarrow> allowance v = 0 \<Longrightarrow> \<exists>x. apply_to e v = Inl x"
  using apply_allowance by (cases "apply_to e v") fastforce+

end

end
