(* ===== verification/TaskLedger.thy ===== *)
theory TaskLedger
  imports TextLog Json
begin

text \<open>
  The persistent task ledger of crates/task-ledger/src/lib.rs: tasks submitted under idempotency
  keys, claimed under leases, finished or cancelled, recovered as unknown when their lease expired
  and acknowledged after delivery. The state of the model is the ledger behind its lock; the text
  codec of its log records is a parameter.
\<close>

section \<open>Data\<close>

type_synonym task_id = string

definition TaskId_new :: "host \<Rightarrow> task_id \<times> host" where
  "TaskId_new h = (case ThreadId_new h of (t, h') \<Rightarrow> (''task_'' @ t, h'))"

datatype task_status =
    Task_Pending | Task_Running | Task_Succeeded | Task_Failed | Task_Cancelled | Task_Unknown

fun is_terminal :: "task_status \<Rightarrow> bool" where
  "is_terminal st =
     (st \<in> {Task_Succeeded, Task_Failed, Task_Cancelled, Task_Unknown})"

datatype delivery_state = Not_Ready | Delivery_Pending | Acknowledged

record task_lease =
  tl_worker_id :: string
  tl_expires_at :: u64

record lease_token =
  lt_worker_id :: string
  lt_attempt :: u32

record task_record =
  tk_id :: task_id
  tk_idempotency_key :: string
  tk_payload :: json
  tk_status :: task_status
  tk_attempt :: u32
  tk_lease :: "task_lease option"
  tk_result :: "json option"
  tk_error :: "string option"
  tk_delivery :: delivery_state
  tk_created_at :: u64
  tk_updated_at :: u64

definition lease_token_of :: "task_record \<Rightarrow> lease_token option" where
  "lease_token_of task =
     map_option (\<lambda>lease. \<lparr>lt_worker_id = tl_worker_id lease, lt_attempt = tk_attempt task\<rparr>)
       (tk_lease task)"

record submission =
  sub_task :: task_record
  sub_created :: bool

datatype ledger_event =
    Submitted task_record
  | Claimed task_id task_lease
  | Heartbeat task_id u64
  | Ledger_Succeeded task_id json
  | Ledger_Failed task_id string
  | Ledger_Cancelled task_id string
  | MarkedUnknown task_id string
  | DeliveryAcknowledged task_id

record ledger_envelope =
  le_sequence :: u64
  le_at_unix_ms :: u64
  le_event :: ledger_event

datatype ledger_error =
    Ledger_Io string
  | Ledger_Serialization string
  | Ledger_Corrupt nat string
  | Ledger_Poisoned
  | UnknownTask task_id
  | InvalidLease task_id string
  | InvalidTransition task_id task_status string

type_synonym task_map = "(task_id \<times> task_record) list"

text \<open>The ledger behind its lock. \<open>lg_history\<close> is a ghost: the envelopes whose append was
  acknowledged, which no operation reads.\<close>

record ledger =
  lg_poisoned :: bool
  lg_file :: log_file
  lg_next_sequence :: u64
  lg_tasks :: task_map
  lg_idempotency :: "(string \<times> task_id) list"
  lg_history :: "ledger_envelope list"

type_synonym 'a ledger_act = "(ledger, ledger_error, 'a) act"

section \<open>Events\<close>

text \<open>\<open>tasks.get_mut(task_id).ok_or_else(..)?\<close> and an update in place.\<close>

definition update_task ::
  "task_map \<Rightarrow> task_id \<Rightarrow> (task_record \<Rightarrow> task_record) \<Rightarrow> ledger_error + task_map" where
  "update_task tasks task_id f =
     (case bt_get tasks task_id of
        None \<Rightarrow> Inl (UnknownTask task_id)
      | Some task \<Rightarrow> Inr (bt_insert task_id (f task) tasks))"

definition terminate_task :: "task_status \<Rightarrow> string option \<Rightarrow> u64 \<Rightarrow> task_record \<Rightarrow> task_record" where
  "terminate_task status error event_time task =
     task\<lparr>tk_status := status, tk_lease := None, tk_error := error, tk_delivery := Delivery_Pending,
       tk_updated_at := event_time\<rparr>"

fun apply_event :: "task_map \<Rightarrow> ledger_event \<Rightarrow> u64 \<Rightarrow> ledger_error + task_map" where
  "apply_event tasks (Submitted task) event_time = Inr (bt_insert (tk_id task) task tasks)"
| "apply_event tasks (Claimed task_id lease) event_time =
     update_task tasks task_id (\<lambda>task. task\<lparr>tk_status := Task_Running,
       tk_attempt := tk_attempt task + 1, tk_lease := Some lease, tk_updated_at := event_time\<rparr>)"
| "apply_event tasks (Heartbeat task_id expires_at) event_time =
     update_task tasks task_id (\<lambda>task. task\<lparr>
       tk_lease := map_option (\<lambda>lease. lease\<lparr>tl_expires_at := expires_at\<rparr>) (tk_lease task),
       tk_updated_at := event_time\<rparr>)"
| "apply_event tasks (Ledger_Succeeded task_id result) event_time =
     update_task tasks task_id (\<lambda>task.
       (terminate_task Task_Succeeded None event_time task)\<lparr>tk_result := Some result\<rparr>)"
| "apply_event tasks (Ledger_Failed task_id error) event_time =
     update_task tasks task_id (terminate_task Task_Failed (Some error) event_time)"
| "apply_event tasks (Ledger_Cancelled task_id reason) event_time =
     update_task tasks task_id (terminate_task Task_Cancelled (Some reason) event_time)"
| "apply_event tasks (MarkedUnknown task_id reason) event_time =
     update_task tasks task_id (terminate_task Task_Unknown (Some reason) event_time)"
| "apply_event tasks (DeliveryAcknowledged task_id) event_time =
     update_task tasks task_id (\<lambda>task. task\<lparr>tk_delivery := Acknowledged, tk_updated_at := event_time\<rparr>)"

section \<open>Opening\<close>

definition apply_envelope ::
  "ledger_envelope \<Rightarrow> task_map \<times> u64 \<times> ledger_envelope list \<Rightarrow>
   ledger_error + task_map \<times> u64 \<times> ledger_envelope list" where
  "apply_envelope envelope view =
     (case view of (tasks, next_sequence, history) \<Rightarrow>
      case apply_event tasks (le_event envelope) (le_at_unix_ms envelope) of
        Inl e \<Rightarrow> Inl e
      | Inr tasks' \<Rightarrow>
          Inr (tasks', max next_sequence (le_sequence envelope + 1), history @ [envelope]))"

fun ledger_io_error :: "store_error + ledger_error read_error \<Rightarrow> ledger_error" where
  "ledger_io_error (Inl (Store_Io m)) = Ledger_Io m"
| "ledger_io_error (Inl e) = Ledger_Io (store_error_text e)"
| "ledger_io_error (Inr Not_Utf8) = Ledger_Io ''stream did not contain valid UTF-8''"
| "ledger_io_error (Inr (Bad_Record line m)) = Ledger_Corrupt line m"
| "ledger_io_error (Inr (Rejected e)) = e"

definition idempotency_index :: "task_map \<Rightarrow> (string \<times> task_id) list" where
  "idempotency_index tasks = bt_from (map (\<lambda>task. (tk_idempotency_key task, tk_id task)) (vals tasks))"

definition ledger_open ::
  "(string \<Rightarrow> ledger_envelope decoded) \<Rightarrow> string \<Rightarrow> (disk, ledger_error, ledger) act" where
  "ledger_open decode path =
     map_err ledger_io_error (
       and_then (map_err Inl (open_log path)) (\<lambda>_.
       and_then (reads (\<lambda>d. split_lines (contents d path))) (\<lambda>lines.
       and_then (replay_lines decode apply_envelope 0 lines ([], 0, [])) (\<lambda>(tasks, next_sequence, history).
       and_then (map_err Inl (open_log path)) (\<lambda>_.
       reads (\<lambda>d. \<lparr>lg_poisoned = False,
         lg_file = \<lparr>lf_bytes = contents d path, lf_host = d_host d\<rparr>,
         lg_next_sequence = next_sequence, lg_tasks = tasks,
         lg_idempotency = idempotency_index tasks, lg_history = history\<rparr>))))))"

section \<open>Operations\<close>

definition ledger_host :: "(host \<Rightarrow> 'a \<times> host) \<Rightarrow> 'a ledger_act" where
  "ledger_host f s =
     (case f (lf_host (lg_file s)) of
        (a, h) \<Rightarrow> (Inr a, s\<lparr>lg_file := (lg_file s)\<lparr>lf_host := h\<rparr>\<rparr>))"

text \<open>\<open>self.state.lock().map_err(|_| LedgerError::Poisoned)?\<close>\<close>

definition locked :: "'a ledger_act \<Rightarrow> 'a ledger_act" where
  "locked m s = (if lg_poisoned s then (Inl Ledger_Poisoned, s) else m s)"

text \<open>The envelope is written and synced before the event is applied. There is no mark that a
  write failed: after an error the next call appends behind whatever bytes the failed one left.\<close>

definition append_locked ::
  "(ledger_envelope \<Rightarrow> string + string) \<Rightarrow> ledger_event \<Rightarrow> unit ledger_act" where
  "append_locked encode event =
     and_then (ledger_host now_ms) (\<lambda>now s.
     let envelope = \<lparr>le_sequence = lg_next_sequence s, le_at_unix_ms = now, le_event = event\<rparr>
     in case encode envelope of
          Inl m \<Rightarrow> (Inl (Ledger_Serialization m), s)
        | Inr encoded \<Rightarrow>
            (case append_line encoded (lg_file s) of
               (Inl m, f) \<Rightarrow> (Inl (Ledger_Io m), s\<lparr>lg_file := f\<rparr>)
             | (Inr _, f) \<Rightarrow>
                 (case apply_event (lg_tasks s) event now of
                    Inl e \<Rightarrow> (Inl e, s\<lparr>lg_file := f\<rparr>)
                  | Inr tasks \<Rightarrow>
                      (Inr (), s\<lparr>lg_file := f, lg_tasks := tasks,
                         lg_idempotency := (case event of
                             Submitted task \<Rightarrow>
                               bt_insert (tk_idempotency_key task) (tk_id task) (lg_idempotency s)
                           | _ \<Rightarrow> lg_idempotency s),
                         lg_next_sequence := lg_next_sequence s + 1,
                         lg_history := lg_history s @ [envelope]\<rparr>))))"

definition invalid_transition :: "task_record \<Rightarrow> string \<Rightarrow> ledger_error" where
  "invalid_transition task operation = InvalidTransition (tk_id task) (tk_status task) operation"

definition require_task :: "task_id \<Rightarrow> task_record ledger_act" where
  "require_task task_id s =
     (case bt_get (lg_tasks s) task_id of
        None \<Rightarrow> (Inl (UnknownTask task_id), s)
      | Some task \<Rightarrow> (Inr task, s))"

definition require_lease :: "task_record \<Rightarrow> lease_token \<Rightarrow> u64 \<Rightarrow> ledger_error + task_lease" where
  "require_lease task token now =
     (if tk_status task \<noteq> Task_Running then Inl (invalid_transition task ''lease operation'')
      else case tk_lease task of
        None \<Rightarrow> Inl (InvalidLease (tk_id task) ''running task has no lease'')
      | Some lease \<Rightarrow>
          if lt_worker_id token \<noteq> tl_worker_id lease \<or> lt_attempt token \<noteq> tk_attempt task
          then Inl (InvalidLease (tk_id task) ''worker or claim attempt does not match'')
          else if tl_expires_at lease \<le> now
          then Inl (InvalidLease (tk_id task) ''lease has expired'')
          else Inr lease)"

text \<open>\<open>state.tasks[task_id].clone()\<close>, after an event on the task was applied.\<close>

definition task_now :: "task_id \<Rightarrow> task_record ledger_act" where
  "task_now task_id = reads (\<lambda>s. the (bt_get (lg_tasks s) task_id))"

definition submit ::
  "(ledger_envelope \<Rightarrow> string + string) \<Rightarrow> string \<Rightarrow> json \<Rightarrow> submission ledger_act" where
  "submit encode idempotency_key payload = locked (\<lambda>s.
     case Option.bind (bt_get (lg_idempotency s) idempotency_key) (bt_get (lg_tasks s)) of
       Some task \<Rightarrow> (Inr \<lparr>sub_task = task, sub_created = False\<rparr>, s)
     | None \<Rightarrow>
         and_then (ledger_host now_ms) (\<lambda>now.
         and_then (ledger_host TaskId_new) (\<lambda>id.
         let task = \<lparr>tk_id = id, tk_idempotency_key = idempotency_key, tk_payload = payload,
               tk_status = Task_Pending, tk_attempt = 0, tk_lease = None, tk_result = None,
               tk_error = None, tk_delivery = Not_Ready, tk_created_at = now, tk_updated_at = now\<rparr>
         in and_then (append_locked encode (Submitted task)) (\<lambda>_.
            ok \<lparr>sub_task = task, sub_created = True\<rparr>))) s)"

text \<open>\<open>min_by_key\<close>: the first element with the least key.\<close>

fun min_by_key :: "('a \<Rightarrow> 'k::linorder) \<Rightarrow> 'a list \<Rightarrow> 'a option" where
  "min_by_key f [] = None"
| "min_by_key f (x # xs) =
     (case min_by_key f xs of
        None \<Rightarrow> Some x
      | Some y \<Rightarrow> if f x \<le> f y then Some x else Some y)"

definition next_pending :: "task_map \<Rightarrow> task_record option" where
  "next_pending tasks =
     min_by_key (\<lambda>task. (tk_created_at task, tk_id task))
       (filter (\<lambda>task. tk_status task = Task_Pending) (vals tasks))"

definition claim_next ::
  "(ledger_envelope \<Rightarrow> string + string) \<Rightarrow> string \<Rightarrow> u64 \<Rightarrow> u64 \<Rightarrow> task_record option ledger_act" where
  "claim_next encode worker_id now lease_duration = locked (\<lambda>s.
     case next_pending (lg_tasks s) of
       None \<Rightarrow> (Inr None, s)
     | Some task \<Rightarrow>
         and_then (append_locked encode (Claimed (tk_id task)
           \<lparr>tl_worker_id = worker_id, tl_expires_at = saturating_add now (max lease_duration 1)\<rparr>)) (\<lambda>_.
         reads (\<lambda>s. bt_get (lg_tasks s) (tk_id task))) s)"

definition heartbeat ::
  "(ledger_envelope \<Rightarrow> string + string) \<Rightarrow> task_id \<Rightarrow> lease_token \<Rightarrow> u64 \<Rightarrow> u64 \<Rightarrow> task_record ledger_act"
where
  "heartbeat encode task_id token now expires_at = locked (
     and_then (require_task task_id) (\<lambda>task.
     case require_lease task token now of
       Inl e \<Rightarrow> err e
     | Inr lease \<Rightarrow>
         if expires_at \<le> tl_expires_at lease
         then err (InvalidLease (tk_id task) ''heartbeat must extend the current lease'')
         else and_then (append_locked encode (Heartbeat task_id expires_at)) (\<lambda>_. task_now task_id)))"

definition finish ::
  "(ledger_envelope \<Rightarrow> string + string) \<Rightarrow> task_id \<Rightarrow> lease_token \<Rightarrow> u64 \<Rightarrow> ledger_event \<Rightarrow>
   task_record ledger_act" where
  "finish encode task_id token now event = locked (
     and_then (require_task task_id) (\<lambda>task.
     case require_lease task token now of
       Inl e \<Rightarrow> err e
     | Inr _ \<Rightarrow> and_then (append_locked encode event) (\<lambda>_. task_now task_id)))"

definition succeed ::
  "(ledger_envelope \<Rightarrow> string + string) \<Rightarrow> task_id \<Rightarrow> lease_token \<Rightarrow> u64 \<Rightarrow> json \<Rightarrow> task_record ledger_act"
where
  "succeed encode task_id token now result =
     finish encode task_id token now (Ledger_Succeeded task_id result)"

definition fail_task ::
  "(ledger_envelope \<Rightarrow> string + string) \<Rightarrow> task_id \<Rightarrow> lease_token \<Rightarrow> u64 \<Rightarrow> string \<Rightarrow> task_record ledger_act"
where
  "fail_task encode task_id token now error =
     finish encode task_id token now (Ledger_Failed task_id error)"

definition cancel ::
  "(ledger_envelope \<Rightarrow> string + string) \<Rightarrow> task_id \<Rightarrow> string \<Rightarrow> task_record ledger_act" where
  "cancel encode task_id reason = locked (
     and_then (require_task task_id) (\<lambda>task.
     if is_terminal (tk_status task) then err (invalid_transition task ''cancel'')
     else and_then (append_locked encode (Ledger_Cancelled task_id reason)) (\<lambda>_. task_now task_id)))"

definition expired :: "u64 \<Rightarrow> task_record \<Rightarrow> bool" where
  "expired now task \<longleftrightarrow>
     tk_status task = Task_Running \<and>
     (case tk_lease task of Some lease \<Rightarrow> tl_expires_at lease \<le> now | None \<Rightarrow> False)"

fun mark_unknown ::
  "(ledger_envelope \<Rightarrow> string + string) \<Rightarrow> task_id list \<Rightarrow> task_record list \<Rightarrow> task_record list ledger_act"
where
  "mark_unknown encode [] recovered = ok recovered"
| "mark_unknown encode (task_id # ids) recovered =
     and_then (append_locked encode (MarkedUnknown task_id
       ''worker lease expired; completion cannot be determined'')) (\<lambda>_.
     and_then (task_now task_id) (\<lambda>task.
     mark_unknown encode ids (recovered @ [task])))"

definition recover_expired ::
  "(ledger_envelope \<Rightarrow> string + string) \<Rightarrow> u64 \<Rightarrow> task_record list ledger_act" where
  "recover_expired encode now = locked (\<lambda>s.
     mark_unknown encode (map tk_id (filter (expired now) (vals (lg_tasks s)))) [] s)"

definition acknowledge_delivery ::
  "(ledger_envelope \<Rightarrow> string + string) \<Rightarrow> task_id \<Rightarrow> task_record ledger_act" where
  "acknowledge_delivery encode task_id = locked (
     and_then (require_task task_id) (\<lambda>task.
     if tk_delivery task \<noteq> Delivery_Pending then err (invalid_transition task ''acknowledge_delivery'')
     else and_then (append_locked encode (DeliveryAcknowledged task_id)) (\<lambda>_. task_now task_id)))"

definition get_task :: "task_id \<Rightarrow> task_record option ledger_act" where
  "get_task task_id = locked (reads (\<lambda>s. bt_get (lg_tasks s) task_id))"

definition list_tasks :: "task_record list ledger_act" where
  "list_tasks = locked (reads (\<lambda>s. vals (lg_tasks s)))"

end
