(* ===== verification/LedgerMachine.thy ===== *)
theory LedgerMachine
  imports TaskLedger
begin

text \<open>
  The state machine of a task and the invariant of the ledger. \<open>allowed\<close> says when an event may be
  recorded; every operation of the ledger makes allowed steps only, so what allowed steps preserve
  holds of every run: a task is claimed at most once, its outcome never changes and an idempotency
  key belongs to one task.
\<close>

section \<open>Tasks\<close>

definition task_ok :: "task_record \<Rightarrow> bool" where
  "task_ok t \<longleftrightarrow>
     (case tk_status t of
        Task_Pending \<Rightarrow> tk_attempt t = 0 \<and> tk_lease t = None \<and> tk_result t = None \<and>
          tk_error t = None \<and> tk_delivery t = Not_Ready
      | Task_Running \<Rightarrow> tk_attempt t = 1 \<and> tk_lease t \<noteq> None \<and> tk_result t = None \<and>
          tk_error t = None \<and> tk_delivery t = Not_Ready
      | Task_Succeeded \<Rightarrow> tk_attempt t = 1 \<and> tk_lease t = None \<and> tk_result t \<noteq> None \<and>
          tk_error t = None \<and> tk_delivery t \<noteq> Not_Ready
      | Task_Cancelled \<Rightarrow> tk_attempt t \<in> {0, 1} \<and> tk_lease t = None \<and> tk_result t = None \<and>
          tk_error t \<noteq> None \<and> tk_delivery t \<noteq> Not_Ready
      | _ \<Rightarrow> tk_attempt t = 1 \<and> tk_lease t = None \<and> tk_result t = None \<and>
          tk_error t \<noteq> None \<and> tk_delivery t \<noteq> Not_Ready)"

text \<open>How a task may change over time.\<close>

fun status_rank :: "task_status \<Rightarrow> nat" where
  "status_rank Task_Pending = 0"
| "status_rank Task_Running = 1"
| "status_rank _ = 2"

fun delivery_rank :: "delivery_state \<Rightarrow> nat" where
  "delivery_rank Not_Ready = 0"
| "delivery_rank Delivery_Pending = 1"
| "delivery_rank Acknowledged = 2"

definition task_evolves :: "task_record \<Rightarrow> task_record \<Rightarrow> bool" where
  "task_evolves t t' \<longleftrightarrow>
     tk_id t' = tk_id t \<and> tk_idempotency_key t' = tk_idempotency_key t \<and>
     tk_payload t' = tk_payload t \<and> tk_created_at t' = tk_created_at t \<and>
     status_rank (tk_status t) \<le> status_rank (tk_status t') \<and>
     delivery_rank (tk_delivery t) \<le> delivery_rank (tk_delivery t') \<and>
     (is_terminal (tk_status t) \<longrightarrow>
        tk_status t' = tk_status t \<and> tk_result t' = tk_result t \<and> tk_error t' = tk_error t \<and>
        tk_attempt t' = tk_attempt t)"

lemma is_terminal_rank: "is_terminal st \<longleftrightarrow> status_rank st = 2"
  by (cases st) simp_all

lemma task_evolves_refl [simp]: "task_evolves t t"
  by (simp add: task_evolves_def)

lemma task_evolves_trans: "task_evolves t u \<Longrightarrow> task_evolves u v \<Longrightarrow> task_evolves t v"
  unfolding task_evolves_def by (auto simp del: is_terminal.simps)

section \<open>Events\<close>

text \<open>When an event may be recorded, and the task it is about.\<close>

fun event_task :: "ledger_event \<Rightarrow> task_id" where
  "event_task (Submitted t) = tk_id t"
| "event_task (Claimed i l) = i"
| "event_task (Heartbeat i e) = i"
| "event_task (Ledger_Succeeded i r) = i"
| "event_task (Ledger_Failed i e) = i"
| "event_task (Ledger_Cancelled i r) = i"
| "event_task (MarkedUnknown i r) = i"
| "event_task (DeliveryAcknowledged i) = i"

fun allowed_on :: "task_record \<Rightarrow> ledger_event \<Rightarrow> bool" where
  "allowed_on t (Submitted u) = False"
| "allowed_on t (Claimed i l) = (tk_status t = Task_Pending)"
| "allowed_on t (Heartbeat i e) =
     (tk_status t = Task_Running \<and> (\<exists>l. tk_lease t = Some l \<and> tl_expires_at l < e))"
| "allowed_on t (Ledger_Cancelled i r) = (\<not> is_terminal (tk_status t))"
| "allowed_on t (DeliveryAcknowledged i) = (tk_delivery t = Delivery_Pending)"
| "allowed_on t e = (tk_status t = Task_Running)"

definition fresh_task :: "task_record \<Rightarrow> bool" where
  "fresh_task t \<longleftrightarrow> task_ok t \<and> tk_status t = Task_Pending"

definition allowed :: "task_map \<Rightarrow> ledger_event \<Rightarrow> bool" where
  "allowed tasks e \<longleftrightarrow>
     (case e of
        Submitted t \<Rightarrow> fresh_task t \<and> bt_get tasks (tk_id t) = None \<and>
          (\<forall>i u. bt_get tasks i = Some u \<longrightarrow> tk_idempotency_key u \<noteq> tk_idempotency_key t)
      | _ \<Rightarrow> \<exists>t. bt_get tasks (event_task e) = Some t \<and> allowed_on t e)"

text \<open>What an event makes of its task.\<close>

fun event_result :: "task_record \<Rightarrow> ledger_event \<Rightarrow> u64 \<Rightarrow> task_record" where
  "event_result t (Submitted u) at = u"
| "event_result t (Claimed i lease) at = t\<lparr>tk_status := Task_Running,
     tk_attempt := tk_attempt t + 1, tk_lease := Some lease, tk_updated_at := at\<rparr>"
| "event_result t (Heartbeat i e) at = t\<lparr>
     tk_lease := map_option (\<lambda>lease. lease\<lparr>tl_expires_at := e\<rparr>) (tk_lease t), tk_updated_at := at\<rparr>"
| "event_result t (Ledger_Succeeded i r) at =
     (terminate_task Task_Succeeded None at t)\<lparr>tk_result := Some r\<rparr>"
| "event_result t (Ledger_Failed i x) at = terminate_task Task_Failed (Some x) at t"
| "event_result t (Ledger_Cancelled i x) at = terminate_task Task_Cancelled (Some x) at t"
| "event_result t (MarkedUnknown i x) at = terminate_task Task_Unknown (Some x) at t"
| "event_result t (DeliveryAcknowledged i) at = t\<lparr>tk_delivery := Acknowledged, tk_updated_at := at\<rparr>"

lemma apply_event_result:
  assumes "allowed tasks e" and "\<nexists>u. e = Submitted u"
  obtains t where "bt_get tasks (event_task e) = Some t" "allowed_on t e"
    "apply_event tasks e at = Inr (bt_insert (event_task e) (event_result t e at) tasks)"
  using assms by (cases e) (auto simp: allowed_def update_task_def)

lemma event_result_ok:
  "task_ok t \<Longrightarrow> allowed_on t e \<Longrightarrow> task_ok (event_result t e at)"
  by (cases e; cases "tk_status t") (auto simp: task_ok_def terminate_task_def)

lemma event_result_evolves:
  "task_ok t \<Longrightarrow> allowed_on t e \<Longrightarrow> task_evolves t (event_result t e at)"
  by (cases e; cases "tk_status t"; cases "tk_delivery t")
    (auto simp: task_ok_def task_evolves_def terminate_task_def)

section \<open>The ledger\<close>

definition tasks_ok :: "task_map \<Rightarrow> bool" where
  "tasks_ok tasks \<longleftrightarrow>
     bt_ok tasks \<and> (\<forall>i t. bt_get tasks i = Some t \<longrightarrow> tk_id t = i \<and> task_ok t)"

definition index_ok :: "task_map \<Rightarrow> (string \<times> task_id) list \<Rightarrow> bool" where
  "index_ok tasks index \<longleftrightarrow>
     bt_ok index \<and>
     (\<forall>k i. bt_get index k = Some i \<longleftrightarrow>
        (\<exists>t. bt_get tasks i = Some t \<and> tk_idempotency_key t = k))"

definition history_ok :: "ledger \<Rightarrow> bool" where
  "history_ok s \<longleftrightarrow>
     replay apply_envelope (lg_history s) ([], 0, []) =
       Inr (lg_tasks s, lg_next_sequence s, lg_history s) \<and>
     lg_next_sequence s = of_nat (length (lg_history s))"

definition ledger_ok :: "ledger \<Rightarrow> bool" where
  "ledger_ok s \<longleftrightarrow> tasks_ok (lg_tasks s) \<and> index_ok (lg_tasks s) (lg_idempotency s)"

definition tasks_evolve :: "task_map \<Rightarrow> task_map \<Rightarrow> bool" where
  "tasks_evolve tasks tasks' \<longleftrightarrow>
     (\<forall>i t. bt_get tasks i = Some t \<longrightarrow> (\<exists>t'. bt_get tasks' i = Some t' \<and> task_evolves t t'))"

lemma tasks_evolve_refl [simp]: "tasks_evolve tasks tasks"
  by (auto simp: tasks_evolve_def)

lemma tasks_evolve_trans: "tasks_evolve a b \<Longrightarrow> tasks_evolve b c \<Longrightarrow> tasks_evolve a c"
  unfolding tasks_evolve_def by (meson task_evolves_trans)

definition index_after :: "(string \<times> task_id) list \<Rightarrow> ledger_event \<Rightarrow> (string \<times> task_id) list" where
  "index_after index e =
     (case e of Submitted t \<Rightarrow> bt_insert (tk_idempotency_key t) (tk_id t) index | _ \<Rightarrow> index)"

lemma allowed_step:
  assumes "tasks_ok tasks" and "index_ok tasks index" and "allowed tasks e"
  obtains tasks' where "apply_event tasks e at = Inr tasks'" "tasks_ok tasks'"
    "index_ok tasks' (index_after index e)" "tasks_evolve tasks tasks'"
proof (cases "\<exists>u. e = Submitted u")
  case True
  then obtain u where u: "e = Submitted u" by blast
  with assms(3) have fresh: "task_ok u" "bt_get tasks (tk_id u) = None"
    "\<And>i t. bt_get tasks i = Some t \<Longrightarrow> tk_idempotency_key t \<noteq> tk_idempotency_key u"
    by (auto simp: allowed_def fresh_task_def)
  show ?thesis
  proof (rule that)
    show "apply_event tasks e at = Inr (bt_insert (tk_id u) u tasks)" by (simp add: u)
    show "tasks_ok (bt_insert (tk_id u) u tasks)"
      using assms(1) fresh(1) by (auto simp: tasks_ok_def)
    show "index_ok (bt_insert (tk_id u) u tasks) (index_after index e)"
      using assms(2) fresh(2,3) by (auto simp: index_ok_def index_after_def u)
    show "tasks_evolve tasks (bt_insert (tk_id u) u tasks)"
      using fresh(2) by (auto simp: tasks_evolve_def)
  qed
next
  case False
  from apply_event_result [OF assms(3) False] obtain t where t: "bt_get tasks (event_task e) = Some t"
    "allowed_on t e"
    "apply_event tasks e at = Inr (bt_insert (event_task e) (event_result t e at) tasks)"
    by blast
  have ok: "tk_id t = event_task e" "task_ok t" using assms(1) t(1) by (auto simp: tasks_ok_def)
  note evolves = event_result_evolves [OF ok(2) t(2), of at]
  let ?tasks = "bt_insert (event_task e) (event_result t e at) tasks"
  show ?thesis
  proof (rule that)
    show "apply_event tasks e at = Inr ?tasks" by (rule t(3))
    show "tasks_ok ?tasks"
      using assms(1) ok event_result_ok [OF ok(2) t(2)] evolves
      by (auto simp: tasks_ok_def task_evolves_def)
    show "index_ok ?tasks (index_after index e)"
      using assms(2) False t(1) evolves
      by (cases e) (auto simp: index_ok_def index_after_def task_evolves_def)
    show "tasks_evolve tasks ?tasks"
      using t(1) evolves by (auto simp: tasks_evolve_def)
  qed
qed

section \<open>Steps of a ledger\<close>

definition same_core :: "ledger \<Rightarrow> ledger \<Rightarrow> bool" where
  "same_core s s' \<longleftrightarrow>
     lg_poisoned s' = lg_poisoned s \<and> lg_next_sequence s' = lg_next_sequence s \<and>
     lg_tasks s' = lg_tasks s \<and> lg_idempotency s' = lg_idempotency s \<and> lg_history s' = lg_history s"

definition recorded :: "ledger_event \<Rightarrow> u64 \<Rightarrow> ledger \<Rightarrow> ledger \<Rightarrow> bool" where
  "recorded e at s s' \<longleftrightarrow>
     apply_event (lg_tasks s) e at = Inr (lg_tasks s') \<and>
     lg_idempotency s' = index_after (lg_idempotency s) e \<and>
     lg_next_sequence s' = lg_next_sequence s + 1 \<and> lg_poisoned s' = lg_poisoned s \<and>
     lg_history s' = lg_history s @ [\<lparr>le_sequence = lg_next_sequence s, le_at_unix_ms = at, le_event = e\<rparr>]"

inductive ledger_steps :: "ledger \<Rightarrow> ledger \<Rightarrow> bool" where
  idle: "same_core s s' \<Longrightarrow> ledger_steps s s'"
| event: "ledger_steps s s1 \<Longrightarrow> allowed (lg_tasks s1) e \<Longrightarrow> recorded e at s1 s' \<Longrightarrow> ledger_steps s s'"

lemma same_core_refl [simp]: "same_core s s"
  by (simp add: same_core_def)

lemma same_core_trans: "same_core a b \<Longrightarrow> same_core b c \<Longrightarrow> same_core a c"
  by (simp add: same_core_def)

lemma ledger_steps_idle: "ledger_steps s s1 \<Longrightarrow> same_core s1 s' \<Longrightarrow> ledger_steps s s'"
proof (induction arbitrary: s' rule: ledger_steps.induct)
  case (idle s s1)
  then show ?case by (blast intro: ledger_steps.idle same_core_trans)
next
  case (event s s1 e at s2)
  have "recorded e at s1 s'" using event.hyps(3) event.prems by (simp add: recorded_def same_core_def)
  with event.hyps(1,2) show ?case by (rule ledger_steps.event)
qed

lemma ledger_steps_trans:
  assumes "ledger_steps b c" and "ledger_steps a b"
  shows "ledger_steps a c"
  using assms
proof (induction rule: ledger_steps.induct)
  case (idle b c)
  then show ?case by (blast intro: ledger_steps_idle)
next
  case (event b c e at d)
  then show ?case by (blast intro: ledger_steps.event)
qed

text \<open>What every run of steps keeps.\<close>

lemma ledger_steps_ok:
  "ledger_steps s s' \<Longrightarrow> ledger_ok s \<Longrightarrow> ledger_ok s' \<and> tasks_evolve (lg_tasks s) (lg_tasks s')"
proof (induction rule: ledger_steps.induct)
  case (idle s s')
  then show ?case by (simp add: ledger_ok_def same_core_def)
next
  case (event s s1 e at s')
  then have ok: "tasks_ok (lg_tasks s1)" "index_ok (lg_tasks s1) (lg_idempotency s1)"
    and before: "tasks_evolve (lg_tasks s) (lg_tasks s1)" by (simp_all add: ledger_ok_def)
  obtain tasks' where "apply_event (lg_tasks s1) e at = Inr tasks'" "tasks_ok tasks'"
    "index_ok tasks' (index_after (lg_idempotency s1) e)" "tasks_evolve (lg_tasks s1) tasks'"
    by (rule allowed_step [OF ok event.hyps(2)])
  with event.hyps(3) before show ?case
    by (auto simp: recorded_def ledger_ok_def intro: tasks_evolve_trans)
qed

lemma recorded_history: "recorded e at s s' \<Longrightarrow> history_ok s \<Longrightarrow>
  length (lg_history s') < 2 ^ 64 \<Longrightarrow> history_ok s'"
proof -
  assume r: "recorded e at s s'" and h: "history_ok s" and len: "length (lg_history s') < 2 ^ 64"
  have len': "Suc (length (lg_history s)) < 2 ^ 64" using r len by (simp add: recorded_def)
  from max_next_sequence [OF len'] r h show "history_ok s'"
    by (simp add: recorded_def history_ok_def replay_append apply_envelope_def)
qed

lemma ledger_steps_history:
  "ledger_steps s s' \<Longrightarrow> history_ok s \<Longrightarrow> length (lg_history s') < 2 ^ 64 \<Longrightarrow> history_ok s'"
proof (induction rule: ledger_steps.induct)
  case (idle s s')
  then show ?case by (simp add: history_ok_def same_core_def)
next
  case (event s s1 e at s')
  then have "history_ok s1" by (simp add: recorded_def)
  with event.hyps(3) event.prems(2) show ?case by (blast intro: recorded_history)
qed

section \<open>Operations make steps\<close>

lemma append_locked_cases:
  assumes "append_locked encode e s = (r, s')"
  obtains (failed) x where "r = Inl x" "same_core s s'"
  | (recorded) at where "r = Inr ()" "recorded e at s s'"
proof -
  let ?s = "s\<lparr>lg_file := (lg_file s)\<lparr>lf_host := snd (now_ms (lf_host (lg_file s)))\<rparr>\<rparr>"
  let ?v = "\<lparr>le_sequence = lg_next_sequence s,
    le_at_unix_ms = fst (now_ms (lf_host (lg_file s))), le_event = e\<rparr>"
  show ?thesis
  proof (cases "encode ?v")
    case (Inl m)
    with assms show ?thesis
      by (intro failed) (auto simp: append_locked_def ledger_host_def act_defs same_core_def
          split: prod.splits)
  next
    case (Inr b)
    obtain q f where w: "append_line b (lg_file ?s) = (q, f)" by fastforce
    show ?thesis
    proof (cases q)
      case (Inl m)
      with assms \<open>encode ?v = Inr b\<close> w show ?thesis
        by (intro failed) (auto simp: append_locked_def ledger_host_def act_defs same_core_def
            split: prod.splits)
    next
      case (Inr u)
      show ?thesis
      proof (cases "apply_event (lg_tasks s) e (fst (now_ms (lf_host (lg_file s))))")
        case (Inl x)
        with assms \<open>encode ?v = Inr b\<close> w Inr show ?thesis
          by (intro failed) (auto simp: append_locked_def ledger_host_def act_defs same_core_def
              split: prod.splits)
      next
        case (Inr tasks')
        with assms \<open>encode ?v = Inr b\<close> w \<open>q = Inr u\<close> show ?thesis
          by (intro recorded [of "fst (now_ms (lf_host (lg_file s)))"]) (auto simp: append_locked_def ledger_host_def act_defs recorded_def
              index_after_def split: prod.splits ledger_event.splits)
      qed
    qed
  qed
qed

lemma append_locked_steps:
  assumes "append_locked encode e s = (r, s')" and "allowed (lg_tasks s) e"
  shows "ledger_steps s s'"
  using assms(1)
proof (cases rule: append_locked_cases)
  case (failed x)
  then show ?thesis by (intro ledger_steps.idle)
next
  case (recorded at)
  have "ledger_steps s s" by (rule ledger_steps.idle) simp
  then show ?thesis using assms(2) recorded(2) by (rule ledger_steps.event)
qed

end
