(* ===== verification/LedgerProperties.thy ===== *)
theory LedgerProperties
  imports LedgerMachine
begin

text \<open>
  The operations of the ledger as steps of its state machine, and the properties of the ledger:
  the contract of every run, the fencing of results by leases, idempotent submission, the choice
  of the next task, the recovery of expired leases, and durability over restarts.
\<close>

section \<open>What each operation does\<close>

lemma require_lease_Inr:
  "require_lease t token now = Inr l \<longleftrightarrow>
     tk_status t = Task_Running \<and> tk_lease t = Some l \<and> lt_worker_id token = tl_worker_id l \<and>
     lt_attempt token = tk_attempt t \<and> now < tl_expires_at l"
  by (auto simp: require_lease_def split: option.splits if_splits)

text \<open>The token that holds a task's lease.\<close>

definition holds_lease :: "task_record \<Rightarrow> lease_token \<Rightarrow> u64 \<Rightarrow> bool" where
  "holds_lease t token now \<longleftrightarrow>
     tk_status t = Task_Running \<and> lease_token_of t = Some token \<and>
     (\<forall>l. tk_lease t = Some l \<longrightarrow> now < tl_expires_at l)"

lemma holds_lease_iff: "holds_lease t token now \<longleftrightarrow> (\<exists>l. require_lease t token now = Inr l)"
  by (cases token) (auto simp: holds_lease_def lease_token_of_def require_lease_Inr)

lemma holds_lease_status: "holds_lease t token now \<Longrightarrow> tk_status t = Task_Running"
  by (simp add: holds_lease_def)

text \<open>Four operations have one shape: find the task, check it, record an event, return the task.\<close>

definition guarded_update ::
  "(ledger_envelope \<Rightarrow> string + string) \<Rightarrow> task_id \<Rightarrow> (task_record \<Rightarrow> ledger_error option) \<Rightarrow>
   ledger_event \<Rightarrow> task_record ledger_act" where
  "guarded_update encode i guard e = locked (
     and_then (require_task i) (\<lambda>t.
     case guard t of
       Some x \<Rightarrow> err x
     | None \<Rightarrow> and_then (append_locked encode e) (\<lambda>_. task_now i)))"

definition lease_guard :: "lease_token \<Rightarrow> u64 \<Rightarrow> task_record \<Rightarrow> ledger_error option" where
  "lease_guard token now t = (case require_lease t token now of Inl x \<Rightarrow> Some x | Inr _ \<Rightarrow> None)"

lemma finish_guarded: "finish encode i token now e = guarded_update encode i (lease_guard token now) e"
  unfolding finish_def guarded_update_def lease_guard_def
  by (intro arg_cong [of _ _ locked] arg_cong [of _ _ "and_then (require_task i)"] ext)
    (simp split: sum.splits)

lemma heartbeat_guarded:
  "heartbeat encode i token now expires_at =
     guarded_update encode i (\<lambda>t. case require_lease t token now of
         Inl x \<Rightarrow> Some x
       | Inr l \<Rightarrow> if expires_at \<le> tl_expires_at l
           then Some (InvalidLease (tk_id t) ''heartbeat must extend the current lease'') else None)
       (Heartbeat i expires_at)"
  unfolding heartbeat_def guarded_update_def
  by (intro arg_cong [of _ _ locked] arg_cong [of _ _ "and_then (require_task i)"] ext)
    (simp split: sum.splits)

lemma cancel_guarded:
  "cancel encode i reason =
     guarded_update encode i (\<lambda>t. if is_terminal (tk_status t)
         then Some (invalid_transition t ''cancel'') else None) (Ledger_Cancelled i reason)"
  unfolding cancel_def guarded_update_def
  by (intro arg_cong [of _ _ locked] arg_cong [of _ _ "and_then (require_task i)"] ext) simp

lemma acknowledge_guarded:
  "acknowledge_delivery encode i =
     guarded_update encode i (\<lambda>t. if tk_delivery t \<noteq> Delivery_Pending
         then Some (invalid_transition t ''acknowledge_delivery'') else None) (DeliveryAcknowledged i)"
  unfolding acknowledge_delivery_def guarded_update_def
  by (intro arg_cong [of _ _ locked] arg_cong [of _ _ "and_then (require_task i)"] ext) simp

lemma guarded_cases:
  assumes "guarded_update encode i guard e s = (r, s')"
  obtains (poisoned) "lg_poisoned s" "r = Inl Ledger_Poisoned" "s' = s"
  | (unknown) "\<not> lg_poisoned s" "bt_get (lg_tasks s) i = None" "r = Inl (UnknownTask i)" "s' = s"
  | (refused) t x where "\<not> lg_poisoned s" "bt_get (lg_tasks s) i = Some t" "guard t = Some x"
      "r = Inl x" "s' = s"
  | (failed) t x where "bt_get (lg_tasks s) i = Some t" "guard t = None"
      "append_locked encode e s = (Inl x, s')" "r = Inl x"
  | (recorded) t where "bt_get (lg_tasks s) i = Some t" "guard t = None"
      "append_locked encode e s = (Inr (), s')" "r = Inr (the (bt_get (lg_tasks s') i))"
proof (cases "lg_poisoned s")
  case True
  with assms show ?thesis by (intro poisoned) (auto simp: guarded_update_def locked_def)
next
  case False
  show ?thesis
  proof (cases "bt_get (lg_tasks s) i")
    case None
    with False assms show ?thesis
      by (intro unknown) (auto simp: guarded_update_def locked_def require_task_def act_defs)
  next
    case (Some t)
    show ?thesis
    proof (cases "guard t")
      case (Some x)
      with False \<open>bt_get (lg_tasks s) i = Some t\<close> assms show ?thesis
        by (intro refused [of t x]) (auto simp: guarded_update_def locked_def require_task_def act_defs)
    next
      case None
      obtain q s1 where q: "append_locked encode e s = (q, s1)" by fastforce
      with False \<open>bt_get (lg_tasks s) i = Some t\<close> None assms show ?thesis
        using failed recorded
        by (cases q) (auto simp: guarded_update_def locked_def require_task_def task_now_def act_defs)
    qed
  qed
qed

lemma guarded_steps:
  assumes "guarded_update encode i guard e s = (r, s')" and "event_task e = i"
    and "\<And>t. bt_get (lg_tasks s) i = Some t \<Longrightarrow> guard t = None \<Longrightarrow> allowed_on t e"
  shows "ledger_steps s s'"
proof -
  have "allowed (lg_tasks s) e" if "bt_get (lg_tasks s) i = Some t" "guard t = None" for t
    using that assms(2) assms(3) [OF that] by (cases e) (auto simp: allowed_def)
  with assms(1) show ?thesis
    by (cases rule: guarded_cases) (auto intro: ledger_steps.idle append_locked_steps)
qed

lemma finish_steps:
  assumes "finish encode i token now e s = (r, s')"
    and "e = Ledger_Succeeded i result \<or> e = Ledger_Failed i error"
  shows "ledger_steps s s'"
  using assms(1) unfolding finish_guarded
  by (rule guarded_steps)
    (use assms(2) in \<open>auto simp: lease_guard_def require_lease_Inr split: sum.splits\<close>)

lemma heartbeat_steps: "heartbeat encode i token now expires_at s = (r, s') \<Longrightarrow> ledger_steps s s'"
  unfolding heartbeat_guarded
  by (erule guarded_steps) (auto simp: require_lease_Inr split: sum.splits if_splits)

lemma cancel_steps: "cancel encode i reason s = (r, s') \<Longrightarrow> ledger_steps s s'"
  unfolding cancel_guarded by (erule guarded_steps) (auto split: if_splits)

lemma acknowledge_steps: "acknowledge_delivery encode i s = (r, s') \<Longrightarrow> ledger_steps s s'"
  unfolding acknowledge_guarded by (erule guarded_steps) (auto split: if_splits)

section \<open>The choice of the next task\<close>

lemma min_by_key_None [simp]: "min_by_key f xs = None \<longleftrightarrow> xs = []"
  by (cases xs) (auto split: option.splits)

lemma min_by_key_least:
  "min_by_key f xs = Some x \<Longrightarrow> x \<in> set xs \<and> (\<forall>y \<in> set xs. f x \<le> f y)"
  by (induction xs arbitrary: x) (auto split: option.splits if_splits intro: order_trans)

lemma next_pendingD:
  assumes "tasks_ok tasks" and "next_pending tasks = Some t"
  shows "bt_get tasks (tk_id t) = Some t" and "tk_status t = Task_Pending"
    and "\<And>i u. bt_get tasks i = Some u \<Longrightarrow> tk_status u = Task_Pending \<Longrightarrow>
      tk_created_at t < tk_created_at u \<or> tk_created_at t = tk_created_at u \<and> tk_id t \<le> tk_id u"
proof -
  have bt: "bt_ok tasks" and ids: "\<And>i u. bt_get tasks i = Some u \<Longrightarrow> tk_id u = i"
    using assms(1) by (simp_all add: tasks_ok_def)
  note least = min_by_key_least [OF assms(2) [unfolded next_pending_def]]
  then obtain i where "bt_get tasks i = Some t" by (auto simp: in_vals_get [OF bt])
  with ids show "bt_get tasks (tk_id t) = Some t" by fastforce
  show "tk_status t = Task_Pending" using least by simp
  show "tk_created_at t < tk_created_at u \<or> tk_created_at t = tk_created_at u \<and> tk_id t \<le> tk_id u"
    if "bt_get tasks i = Some u" "tk_status u = Task_Pending" for i u
  proof -
    have "u \<in> set (vals tasks)" using that(1) by (auto simp: in_vals_get [OF bt])
    with that(2) least have "(tk_created_at t, tk_id t) \<le> (tk_created_at u, tk_id u)" by simp
    then show ?thesis by (auto simp: less_eq_prod_def)
  qed
qed

lemma claim_next_cases:
  assumes "claim_next encode w now duration s = (r, s')"
  obtains (refused) "lg_poisoned s" "r = Inl Ledger_Poisoned" "s' = s"
  | (none) "\<not> lg_poisoned s" "next_pending (lg_tasks s) = None" "r = Inr None" "s' = s"
  | (failed) t x where "next_pending (lg_tasks s) = Some t" "r = Inl x"
      "append_locked encode (Claimed (tk_id t) \<lparr>tl_worker_id = w,
         tl_expires_at = saturating_add now (max duration 1)\<rparr>) s = (Inl x, s')"
  | (recorded) t where "next_pending (lg_tasks s) = Some t" "r = Inr (bt_get (lg_tasks s') (tk_id t))"
      "append_locked encode (Claimed (tk_id t) \<lparr>tl_worker_id = w,
         tl_expires_at = saturating_add now (max duration 1)\<rparr>) s = (Inr (), s')"
proof (cases "lg_poisoned s")
  case True
  with assms show ?thesis by (intro refused) (auto simp: claim_next_def locked_def)
next
  case False
  show ?thesis
  proof (cases "next_pending (lg_tasks s)")
    case None
    with False assms show ?thesis by (intro none) (auto simp: claim_next_def locked_def)
  next
    case (Some t)
    obtain q s1 where q: "append_locked encode (Claimed (tk_id t) \<lparr>tl_worker_id = w,
         tl_expires_at = saturating_add now (max duration 1)\<rparr>) s = (q, s1)" by fastforce
    with False Some assms show ?thesis
      using failed recorded by (cases q) (auto simp: claim_next_def locked_def act_defs)
  qed
qed

section \<open>Submission\<close>

text \<open>The identifier the next submission would generate.\<close>

definition next_task_id :: "ledger \<Rightarrow> task_id" where
  "next_task_id s = fst (TaskId_new (snd (now_ms (lf_host (lg_file s)))))"

definition new_task :: "string \<Rightarrow> json \<Rightarrow> ledger \<Rightarrow> task_record" where
  "new_task key payload s =
     (let now = fst (now_ms (lf_host (lg_file s)))
      in \<lparr>tk_id = next_task_id s, tk_idempotency_key = key, tk_payload = payload,
          tk_status = Task_Pending, tk_attempt = 0, tk_lease = None, tk_result = None,
          tk_error = None, tk_delivery = Not_Ready, tk_created_at = now, tk_updated_at = now\<rparr>)"

lemma fresh_new_task [simp]: "fresh_task (new_task key payload s)"
  by (simp add: fresh_task_def new_task_def task_ok_def Let_def)

lemma new_task_fields [simp]:
  "tk_id (new_task key payload s) = next_task_id s"
  "tk_idempotency_key (new_task key payload s) = key"
  "tk_payload (new_task key payload s) = payload"
  "tk_status (new_task key payload s) = Task_Pending"
  by (simp_all add: new_task_def Let_def)

lemma submit_cases:
  assumes "submit encode key payload s = (r, s')"
  obtains (refused) "lg_poisoned s" "r = Inl Ledger_Poisoned" "s' = s"
  | (known) t where "Option.bind (bt_get (lg_idempotency s) key) (bt_get (lg_tasks s)) = Some t"
      "r = Inr \<lparr>sub_task = t, sub_created = False\<rparr>" "s' = s"
  | (failed) s1 x where "Option.bind (bt_get (lg_idempotency s) key) (bt_get (lg_tasks s)) = None"
      "same_core s s1" "lf_bytes (lg_file s1) = lf_bytes (lg_file s)" "r = Inl x"
      "append_locked encode (Submitted (new_task key payload s)) s1 = (Inl x, s')"
  | (recorded) s1 where "Option.bind (bt_get (lg_idempotency s) key) (bt_get (lg_tasks s)) = None"
      "same_core s s1" "lf_bytes (lg_file s1) = lf_bytes (lg_file s)"
      "r = Inr \<lparr>sub_task = new_task key payload s, sub_created = True\<rparr>"
      "append_locked encode (Submitted (new_task key payload s)) s1 = (Inr (), s')"
proof (cases "lg_poisoned s")
  case True
  with assms show ?thesis by (intro refused) (auto simp: submit_def locked_def)
next
  case False
  show ?thesis
  proof (cases "Option.bind (bt_get (lg_idempotency s) key) (bt_get (lg_tasks s))")
    case (Some t)
    with False assms show ?thesis by (intro known) (auto simp: submit_def locked_def)
  next
    case None
    obtain now h1 where n: "now_ms (lf_host (lg_file s)) = (now, h1)" by fastforce
    obtain i h2 where t: "TaskId_new h1 = (i, h2)" by fastforce
    let ?s1 = "s\<lparr>lg_file := (lg_file s)\<lparr>lf_host := h2\<rparr>\<rparr>"
    obtain q s2 where q: "append_locked encode (Submitted (new_task key payload s)) ?s1 = (q, s2)"
      by fastforce
    have new: "new_task key payload s = \<lparr>tk_id = i, tk_idempotency_key = key, tk_payload = payload,
        tk_status = Task_Pending, tk_attempt = 0, tk_lease = None, tk_result = None, tk_error = None,
        tk_delivery = Not_Ready, tk_created_at = now, tk_updated_at = now\<rparr>"
      by (simp add: new_task_def next_task_id_def n t)
    have "submit encode key payload s = (case q of Inl x \<Rightarrow> (Inl x, s2)
        | Inr _ \<Rightarrow> (Inr \<lparr>sub_task = new_task key payload s, sub_created = True\<rparr>, s2))"
      using False None n t q
      by (simp add: submit_def locked_def ledger_host_def act_defs new Let_def split: sum.splits)
    with assms q None show ?thesis
      using failed [of ?s1] recorded [of ?s1] by (cases q) (auto simp: same_core_def)
  qed
qed

text \<open>A generated identifier that is new: generated identifiers are unique within a process; across
  processes they differ by clock and process id, which the ledger relies on without checking.\<close>

definition submits_fresh :: "ledger \<Rightarrow> bool" where
  "submits_fresh s \<longleftrightarrow> bt_get (lg_tasks s) (next_task_id s) = None"

lemma index_lookup:
  "index_ok tasks index \<Longrightarrow>
   Option.bind (bt_get index key) (bt_get tasks) = None \<longleftrightarrow>
     (\<forall>i t. bt_get tasks i = Some t \<longrightarrow> tk_idempotency_key t \<noteq> key)"
proof -
  assume ok: "index_ok tasks index"
  show ?thesis
  proof (cases "bt_get index key")
    case None
    with ok show ?thesis unfolding index_ok_def by (metis bind.bind_lzero option.distinct(1))
  next
    case (Some i)
    with ok have "\<exists>t. bt_get tasks i = Some t \<and> tk_idempotency_key t = key"
      by (simp add: index_ok_def)
    with Some show ?thesis by auto
  qed
qed

lemma submit_steps:
  assumes "submit encode key payload s = (r, s')" and "ledger_ok s" and "submits_fresh s"
  shows "ledger_steps s s'"
  using assms(1)
proof (cases rule: submit_cases)
  case (failed s1 x)
  have "allowed (lg_tasks s1) (Submitted (new_task key payload s))"
    using failed(1,2) assms(2,3) index_lookup [of "lg_tasks s" "lg_idempotency s" key]
    by (simp add: allowed_def same_core_def ledger_ok_def submits_fresh_def)
  with failed(5) have "ledger_steps s1 s'" by (rule append_locked_steps)
  then show ?thesis using failed(2) by (blast intro: ledger_steps_trans ledger_steps.idle)
next
  case (recorded s1)
  have "allowed (lg_tasks s1) (Submitted (new_task key payload s))"
    using recorded(1,2) assms(2,3) index_lookup [of "lg_tasks s" "lg_idempotency s" key]
    by (simp add: allowed_def same_core_def ledger_ok_def submits_fresh_def)
  with recorded(5) have "ledger_steps s1 s'" by (rule append_locked_steps)
  then show ?thesis using recorded(2) by (blast intro: ledger_steps_trans ledger_steps.idle)
qed (auto intro: ledger_steps.idle)

lemma claim_next_steps:
  assumes "claim_next encode w now duration s = (r, s')" and "ledger_ok s"
  shows "ledger_steps s s'"
proof -
  have "allowed (lg_tasks s) (Claimed (tk_id t) l)" if "next_pending (lg_tasks s) = Some t" for t l
    using next_pendingD [OF _ that] assms(2) by (auto simp: allowed_def ledger_ok_def)
  with assms(1) show ?thesis
    by (cases rule: claim_next_cases) (auto intro: ledger_steps.idle append_locked_steps)
qed

section \<open>Recovery of expired leases\<close>

lemma recorded_submitted:
  "recorded (Submitted u) at s s' \<Longrightarrow> lg_tasks s' = bt_insert (tk_id u) u (lg_tasks s)"
  by (simp add: recorded_def)

lemma recorded_this:
  "recorded e at s s' \<Longrightarrow> bt_get (lg_tasks s) (event_task e) = Some t \<Longrightarrow> \<nexists>u. e = Submitted u \<Longrightarrow>
   lg_tasks s' = bt_insert (event_task e) (event_result t e at) (lg_tasks s)"
  by (cases e) (auto simp: recorded_def update_task_def)

lemma recorded_other:
  assumes "recorded e at s s'" and "allowed (lg_tasks s) e" and "j \<noteq> event_task e"
  shows "bt_get (lg_tasks s') j = bt_get (lg_tasks s) j"
proof (cases "\<exists>u. e = Submitted u")
  case True
  with assms show ?thesis by (auto simp: recorded_submitted)
next
  case False
  then obtain t where "bt_get (lg_tasks s) (event_task e) = Some t"
    using assms(2) by (cases e) (auto simp: allowed_def)
  with recorded_this [OF assms(1) this] False assms(3) show ?thesis by simp
qed

abbreviation expiry :: string where
  "expiry \<equiv> ''worker lease expired; completion cannot be determined''"

lemma mark_unknown_run:
  assumes "mark_unknown encode ids acc s = (r, s')" and "distinct ids"
    and "\<forall>i \<in> set ids. \<exists>t. bt_get (lg_tasks s) i = Some t \<and> tk_status t = Task_Running"
  shows "ledger_steps s s'"
    and "\<And>j. j \<notin> set ids \<Longrightarrow> bt_get (lg_tasks s') j = bt_get (lg_tasks s) j"
    and "\<And>ts. r = Inr ts \<Longrightarrow> (\<exists>us. ts = acc @ us \<and> map (bt_get (lg_tasks s')) ids = map Some us \<and>
      (\<forall>u \<in> set us. tk_status u = Task_Unknown \<and> tk_error u = Some expiry))"
proof -
  have "ledger_steps s s' \<and> (\<forall>j. j \<notin> set ids \<longrightarrow> bt_get (lg_tasks s') j = bt_get (lg_tasks s) j) \<and>
    (\<forall>ts. r = Inr ts \<longrightarrow> (\<exists>us. ts = acc @ us \<and> map (bt_get (lg_tasks s')) ids = map Some us \<and>
       (\<forall>u \<in> set us. tk_status u = Task_Unknown \<and> tk_error u = Some expiry)))"
    using assms
  proof (induction ids arbitrary: acc s)
    case Nil
    then show ?case by (auto simp: ok_def intro: ledger_steps.idle)
  next
    case (Cons i ids)
    let ?e = "MarkedUnknown i expiry"
    obtain t where t: "bt_get (lg_tasks s) i = Some t" "tk_status t = Task_Running"
      using Cons.prems(3) by auto
    then have allowed: "allowed (lg_tasks s) ?e" by (simp add: allowed_def)
    obtain q s1 where q: "append_locked encode ?e s = (q, s1)" by fastforce
    then have step: "ledger_steps s s1" using allowed by (rule append_locked_steps)
    from q show ?case
    proof (cases rule: append_locked_cases)
      case (failed x)
      with q Cons.prems(1) have "r = Inl x" "s' = s1" by (auto simp: act_defs)
      with step failed show ?thesis by (simp add: same_core_def)
    next
      case (recorded at)
      from recorded_this [OF recorded(2), of t] t(1)
      have marked: "bt_get (lg_tasks s1) i = Some (terminate_task Task_Unknown (Some expiry) at t)"
        by simp
      have other: "bt_get (lg_tasks s1) j = bt_get (lg_tasks s) j" if "j \<noteq> i" for j
        using recorded_other [OF recorded(2) allowed] that by simp
      let ?u = "terminate_task Task_Unknown (Some expiry) at t"
      have rest: "mark_unknown encode ids (acc @ [?u]) s1 = (r, s')"
        using q recorded(1) marked Cons.prems(1) by (simp add: act_defs task_now_def)
      have "\<forall>j \<in> set ids. \<exists>t. bt_get (lg_tasks s1) j = Some t \<and> tk_status t = Task_Running"
      proof
        fix j assume "j \<in> set ids"
        then have "j \<noteq> i" "j \<in> set (i # ids)" using Cons.prems(2) by auto
        then show "\<exists>t. bt_get (lg_tasks s1) j = Some t \<and> tk_status t = Task_Running"
          using Cons.prems(3) other [of j] by auto
      qed
      from Cons.IH [OF rest _ this] Cons.prems(2)
      have IH: "ledger_steps s1 s'" "\<forall>j. j \<notin> set ids \<longrightarrow> bt_get (lg_tasks s') j = bt_get (lg_tasks s1) j"
        "\<forall>ts. r = Inr ts \<longrightarrow> (\<exists>us. ts = (acc @ [?u]) @ us \<and> map (bt_get (lg_tasks s')) ids = map Some us \<and>
           (\<forall>u \<in> set us. tk_status u = Task_Unknown \<and> tk_error u = Some expiry))" by simp_all
      have "bt_get (lg_tasks s') i = Some ?u"
        using IH(2) Cons.prems(2) \<open>bt_get (lg_tasks s1) i = Some ?u\<close> by simp
      moreover have "tk_status ?u = Task_Unknown \<and> tk_error ?u = Some expiry"
        by (simp add: terminate_task_def)
      ultimately have "\<exists>us. ts = acc @ us \<and> map (bt_get (lg_tasks s')) (i # ids) = map Some us \<and>
          (\<forall>u \<in> set us. tk_status u = Task_Unknown \<and> tk_error u = Some expiry)" if "r = Inr ts" for ts
        using IH(3) [rule_format, OF that]
        by (elim exE conjE) (rule_tac x = "?u # us" in exI, simp)
      with ledger_steps_trans [OF IH(1) step] IH(2) other show ?thesis by simp
    qed
  qed
  then show "ledger_steps s s'"
    and "\<And>j. j \<notin> set ids \<Longrightarrow> bt_get (lg_tasks s') j = bt_get (lg_tasks s) j"
    and "\<And>ts. r = Inr ts \<Longrightarrow> (\<exists>us. ts = acc @ us \<and> map (bt_get (lg_tasks s')) ids = map Some us \<and>
      (\<forall>u \<in> set us. tk_status u = Task_Unknown \<and> tk_error u = Some expiry))" by blast+
qed

text \<open>The identifiers of the expired tasks.\<close>

lemma expired_ids:
  assumes "tasks_ok tasks"
  shows "i \<in> set (map tk_id (filter (expired now) (vals tasks))) \<longleftrightarrow>
      (\<exists>t. bt_get tasks i = Some t \<and> expired now t)"
    and "distinct (map tk_id (filter (expired now) (vals tasks)))"
proof -
  have bt: "bt_ok tasks" and ids: "\<And>i u. bt_get tasks i = Some u \<Longrightarrow> tk_id u = i"
    using assms by (simp_all add: tasks_ok_def)
  show "i \<in> set (map tk_id (filter (expired now) (vals tasks))) \<longleftrightarrow>
      (\<exists>t. bt_get tasks i = Some t \<and> expired now t)"
    using ids by (fastforce simp: in_vals_get [OF bt])
  have "map tk_id (vals tasks) = keys tasks"
    using ids by (auto simp: vals_def keys_def bt_get_eq_Some [OF bt])
  then show "distinct (map tk_id (filter (expired now) (vals tasks)))"
    using bt_ok_distinct [OF bt] by (metis distinct_map_filter)
qed

lemma expired_running:
  assumes "tasks_ok tasks"
  shows "\<forall>i \<in> set (map tk_id (filter (expired now) (vals tasks))).
    \<exists>t. bt_get tasks i = Some t \<and> tk_status t = Task_Running"
  unfolding expired_ids(1) [OF assms] Ball_def by (auto simp: expired_def)

lemma recover_expired_steps:
  assumes "recover_expired encode now s = (r, s')" and "ledger_ok s"
  shows "ledger_steps s s'"
proof (cases "lg_poisoned s")
  case True
  with assms(1) show ?thesis by (auto simp: recover_expired_def locked_def intro: ledger_steps.idle)
next
  case False
  have ok: "tasks_ok (lg_tasks s)" using assms(2) by (simp add: ledger_ok_def)
  have "mark_unknown encode (map tk_id (filter (expired now) (vals (lg_tasks s)))) [] s = (r, s')"
    using assms(1) False by (simp add: recover_expired_def locked_def)
  then show ?thesis
    by (rule mark_unknown_run(1) [OF _ expired_ids(2) [OF ok] expired_running [OF ok]])
qed

section \<open>Runs\<close>

datatype ledger_op =
    Op_submit string json
  | Op_claim string u64 u64
  | Op_heartbeat task_id lease_token u64 u64
  | Op_succeed task_id lease_token u64 json
  | Op_fail task_id lease_token u64 string
  | Op_cancel task_id string
  | Op_recover u64
  | Op_acknowledge task_id

definition error_of :: "'e + 'a \<Rightarrow> 'e option" where
  "error_of r = (case r of Inl x \<Rightarrow> Some x | Inr _ \<Rightarrow> None)"

text \<open>An operation, its value forgotten: the error, if any, and the ledger after it.\<close>

fun run_op ::
  "(ledger_envelope \<Rightarrow> string + string) \<Rightarrow> ledger_op \<Rightarrow> ledger \<Rightarrow> ledger_error option \<times> ledger" where
  "run_op encode (Op_submit key payload) s = map_prod error_of id (submit encode key payload s)"
| "run_op encode (Op_claim w now duration) s = map_prod error_of id (claim_next encode w now duration s)"
| "run_op encode (Op_heartbeat i token now e) s = map_prod error_of id (heartbeat encode i token now e s)"
| "run_op encode (Op_succeed i token now v) s = map_prod error_of id (succeed encode i token now v s)"
| "run_op encode (Op_fail i token now x) s = map_prod error_of id (fail_task encode i token now x s)"
| "run_op encode (Op_cancel i reason) s = map_prod error_of id (cancel encode i reason s)"
| "run_op encode (Op_recover now) s = map_prod error_of id (recover_expired encode now s)"
| "run_op encode (Op_acknowledge i) s = map_prod error_of id (acknowledge_delivery encode i s)"

fun run_ops ::
  "(ledger_envelope \<Rightarrow> string + string) \<Rightarrow> ledger_op list \<Rightarrow> ledger \<Rightarrow> ledger" where
  "run_ops encode [] s = s"
| "run_ops encode (op # ops) s = run_ops encode ops (snd (run_op encode op s))"

definition fresh_op :: "ledger_op \<Rightarrow> ledger \<Rightarrow> bool" where
  "fresh_op op s \<longleftrightarrow> (case op of Op_submit key payload \<Rightarrow> submits_fresh s | _ \<Rightarrow> True)"

fun fresh_ops :: "(ledger_envelope \<Rightarrow> string + string) \<Rightarrow> ledger_op list \<Rightarrow> ledger \<Rightarrow> bool" where
  "fresh_ops encode [] s \<longleftrightarrow> True"
| "fresh_ops encode (op # ops) s \<longleftrightarrow> fresh_op op s \<and> fresh_ops encode ops (snd (run_op encode op s))"

lemma outcome_iff: "map_prod error_of id p = (x, s') \<longleftrightarrow> (\<exists>r. p = (r, s') \<and> x = error_of r)"
  by (cases p) auto

lemma run_op_steps:
  assumes "run_op encode op s = (x, s')" and "ledger_ok s" and "fresh_op op s"
  shows "ledger_steps s s'"
proof (cases op)
  case (Op_submit key payload)
  with assms show ?thesis by (auto simp: fresh_op_def outcome_iff intro: submit_steps)
next
  case (Op_claim w now duration)
  with assms show ?thesis by (auto simp: outcome_iff intro: claim_next_steps)
next
  case (Op_heartbeat i token now e)
  with assms show ?thesis by (auto simp: outcome_iff intro: heartbeat_steps)
next
  case (Op_succeed i token now v)
  with assms show ?thesis by (auto simp: succeed_def outcome_iff intro: finish_steps)
next
  case (Op_fail i token now y)
  with assms show ?thesis by (auto simp: fail_task_def outcome_iff intro: finish_steps)
next
  case (Op_cancel i reason)
  with assms show ?thesis by (auto simp: outcome_iff intro: cancel_steps)
next
  case (Op_recover now)
  with assms show ?thesis by (auto simp: outcome_iff intro: recover_expired_steps)
next
  case (Op_acknowledge i)
  with assms show ?thesis by (auto simp: outcome_iff intro: acknowledge_steps)
qed

lemma run_ops_steps: "ledger_ok s \<Longrightarrow> fresh_ops encode ops s \<Longrightarrow> ledger_steps s (run_ops encode ops s)"
proof (induction ops arbitrary: s)
  case Nil
  then show ?case by (auto intro: ledger_steps.idle)
next
  case (Cons op ops)
  then have step: "ledger_steps s (snd (run_op encode op s))"
    by (intro run_op_steps [of encode op s "fst (run_op encode op s)"]) auto
  with Cons have "ledger_steps (snd (run_op encode op s)) (run_ops encode (op # ops) s)"
    using ledger_steps_ok by auto
  then show ?case using step by (rule ledger_steps_trans)
qed

lemma ledger_steps_poisoned: "ledger_steps s s' \<Longrightarrow> lg_poisoned s' = lg_poisoned s"
  by (induction rule: ledger_steps.induct) (simp_all add: same_core_def recorded_def)

section \<open>Properties of runs\<close>

text \<open>C10 The contract of the ledger. Whatever operations run, in whatever order and whatever I/O
  fails, the ledger stays well formed: a task's attempt, lease, result, error and delivery agree
  with its status, so it was claimed at most once, and the idempotency index maps each key to the
  one task that has it. No task is lost and each only moves forward: identity, key and payload
  stay, its status and delivery never go back, and the outcome of a finished task never changes.\<close>

theorem ledger_contract:
  assumes "ledger_ok s" and "fresh_ops encode ops s"
  shows "ledger_ok (run_ops encode ops s) \<and>
    tasks_evolve (lg_tasks s) (lg_tasks (run_ops encode ops s))"
  by (rule ledger_steps_ok [OF run_ops_steps [OF assms] assms(1)])

text \<open>C11 Leases fence results: a worker finishes a task only while it holds the lease of the current
  claim (same worker, same attempt, not expired), and then the task has the reported outcome; any
  other report, and one that could not be recorded, is an error that changes no task.\<close>

theorem lease_fences_results:
  assumes "finish encode i token now e s = (r, s')"
    and "e = Ledger_Succeeded i v \<or> e = Ledger_Failed i m"
  shows "(\<forall>t'. r = Inr t' \<longrightarrow>
      (\<exists>t. bt_get (lg_tasks s) i = Some t \<and> holds_lease t token now) \<and>
      bt_get (lg_tasks s') i = Some t' \<and> tk_lease t' = None \<and> tk_delivery t' = Delivery_Pending \<and>
      (case e of
         Ledger_Succeeded _ _ \<Rightarrow> tk_status t' = Task_Succeeded \<and> tk_result t' = Some v \<and> tk_error t' = None
       | _ \<Rightarrow> tk_status t' = Task_Failed \<and> tk_error t' = Some m) \<and>
      (\<forall>j. j \<noteq> i \<longrightarrow> bt_get (lg_tasks s') j = bt_get (lg_tasks s) j)) \<and>
    (isl r \<longrightarrow> lg_tasks s' = lg_tasks s) \<and>
    ((\<nexists>t. bt_get (lg_tasks s) i = Some t \<and> holds_lease t token now) \<longrightarrow> isl r \<and> s' = s)"
proof -
  have guard: "lease_guard token now t = None \<longleftrightarrow> holds_lease t token now" for t
    by (auto simp: lease_guard_def holds_lease_iff split: sum.splits)
  show ?thesis
    using assms(1) unfolding finish_guarded
  proof (cases rule: guarded_cases)
    case (failed t x)
    then show ?thesis using guard by (auto elim!: append_locked_cases simp: same_core_def)
  next
    case (recorded t)
    from recorded(3) obtain at where at: "recorded e at s s'"
      by (rule append_locked_cases) auto
    have task: "event_task e = i" and new: "\<nexists>u. e = Submitted u" using assms(2) by auto
    have "lg_tasks s' = bt_insert i (event_result t e at) (lg_tasks s)"
      using recorded_this [OF at _ new, of t] task recorded(1) by simp
    with recorded(1,2,4) guard assms(2) show ?thesis
      by (auto simp: terminate_task_def)
  qed (auto simp: guard)
qed

text \<open>A finished task stays finished: once a task succeeded, failed, was cancelled or was marked
  unknown, every later report, heartbeat or claim token for it is refused with an invalid
  transition and changes nothing, whatever ran in between. A worker that lost its lease cannot
  overwrite the outcome.\<close>

theorem finished_tasks_stay:
  assumes "ledger_ok s" and "fresh_ops encode ops s" and "\<not> lg_poisoned s"
    and "bt_get (lg_tasks s) i = Some t" and "is_terminal (tk_status t)"
  shows "let s' = run_ops encode ops s; refusal = (\<lambda>what. Inl (InvalidTransition i (tk_status t) what))
    in succeed encode i token now v s' = (refusal ''lease operation'', s') \<and>
       fail_task encode i token now m s' = (refusal ''lease operation'', s') \<and>
       heartbeat encode i token now expires_at s' = (refusal ''lease operation'', s') \<and>
       cancel encode i m s' = (refusal ''cancel'', s') \<and>
       (\<exists>t'. get_task i s' = (Inr (Some t'), s') \<and> tk_result t' = tk_result t \<and> tk_error t' = tk_error t)"
proof -
  let ?s = "run_ops encode ops s"
  note steps = run_ops_steps [OF assms(1,2)]
  from ledger_steps_ok [OF steps assms(1)] assms(4) obtain t' where
    t': "bt_get (lg_tasks ?s) i = Some t'" "task_evolves t t'" "tk_id t' = i"
    by (fastforce simp: tasks_evolve_def ledger_ok_def tasks_ok_def)
  have live: "\<not> lg_poisoned ?s" using ledger_steps_poisoned [OF steps] assms(3) by simp
  have same: "tk_status t' = tk_status t" "tk_result t' = tk_result t" "tk_error t' = tk_error t"
    using t'(2) assms(5) by (simp_all add: task_evolves_def del: is_terminal.simps)
  then have "tk_status t' \<noteq> Task_Running" using assms(5) by auto
  with live t' same assms(5) show ?thesis
    by (simp add: Let_def succeed_def fail_task_def finish_def heartbeat_def cancel_def get_task_def
        locked_def require_task_def require_lease_def invalid_transition_def act_defs
        del: is_terminal.simps)
qed

text \<open>Submission is idempotent: after a successful submission every later submission of the same
  key, whatever ran in between and whatever payload it carries, returns that task with its original
  payload, creates nothing and changes nothing.\<close>

theorem submit_idempotent:
  assumes "ledger_ok s" and "submits_fresh s" and "submit encode key payload s = (Inr sub, s1)"
    and "fresh_ops encode ops s1"
  shows "\<exists>t. submit encode key other (run_ops encode ops s1) =
      (Inr \<lparr>sub_task = t, sub_created = False\<rparr>, run_ops encode ops s1) \<and>
    tk_id t = tk_id (sub_task sub) \<and> tk_payload t = tk_payload (sub_task sub)"
proof -
  let ?s = "run_ops encode ops s1"
  have step1: "ledger_steps s s1" using assms(1-3) by (blast intro: submit_steps)
  then have ok1: "ledger_ok s1" using ledger_steps_ok assms(1) by blast
  have present: "\<not> lg_poisoned s \<and> (\<exists>i. bt_get (lg_tasks s1) i = Some (sub_task sub) \<and>
      tk_idempotency_key (sub_task sub) = key)"
    using assms(3)
  proof (cases rule: submit_cases)
    case (known t)
    then obtain i where "bt_get (lg_idempotency s) key = Some i" "bt_get (lg_tasks s) i = Some t"
      by (auto split: bind_splits)
    moreover then have "tk_idempotency_key t = key"
      using assms(1) by (auto simp: ledger_ok_def index_ok_def)
    moreover have "\<not> lg_poisoned s"
      using assms(3) by (auto simp: submit_def locked_def split: if_splits)
    ultimately show ?thesis using known by auto
  next
    case (recorded s0)
    from recorded(5) obtain at where "recorded (Submitted (new_task key payload s)) at s0 s1"
      by (rule append_locked_cases) auto
    then have "lg_tasks s1 = bt_insert (next_task_id s) (new_task key payload s) (lg_tasks s0)"
      using recorded_submitted by fastforce
    moreover have "\<not> lg_poisoned s"
      using assms(3) by (auto simp: submit_def locked_def split: if_splits)
    ultimately show ?thesis using recorded(4) by auto
  qed auto
  note steps = run_ops_steps [OF ok1 assms(4)]
  from present ledger_steps_ok [OF steps ok1] obtain i t' where
    t': "bt_get (lg_tasks ?s) i = Some t'" "task_evolves (sub_task sub) t'"
      "tk_idempotency_key t' = key" "ledger_ok ?s"
    by (fastforce simp: tasks_evolve_def task_evolves_def)
  then have "bt_get (lg_idempotency ?s) key = Some i"
    by (auto simp: ledger_ok_def index_ok_def)
  moreover have "\<not> lg_poisoned ?s"
    using present ledger_steps_poisoned [OF steps] ledger_steps_poisoned [OF step1] by simp
  ultimately show ?thesis
    using t' by (intro exI [of _ t']) (simp add: submit_def locked_def task_evolves_def)
qed

text \<open>Claims are in order of age: a claim takes the pending task that was created first (the least
  identifier among equals), makes it running under a lease of the caller that lasts at least one
  millisecond unless time is at its end, and returns it; the token of that lease is accepted until
  it expires. Nothing is claimed only if no task is pending.\<close>

theorem claim_takes_oldest:
  assumes "claim_next encode w now duration s = (Inr claim, s')" and "ledger_ok s"
  shows "case claim of
      None \<Rightarrow> s' = s \<and> (\<forall>i t. bt_get (lg_tasks s) i = Some t \<longrightarrow> tk_status t \<noteq> Task_Pending)
    | Some t' \<Rightarrow>
        (\<exists>t at. bt_get (lg_tasks s) (tk_id t') = Some t \<and> tk_status t = Task_Pending \<and>
           (\<forall>i u. bt_get (lg_tasks s) i = Some u \<and> tk_status u = Task_Pending \<longrightarrow>
              tk_created_at t < tk_created_at u \<or>
              tk_created_at t = tk_created_at u \<and> tk_id t \<le> tk_id u) \<and>
           t' = t\<lparr>tk_status := Task_Running, tk_attempt := 1, tk_lease := Some \<lparr>tl_worker_id = w,
             tl_expires_at = saturating_add now (max duration 1)\<rparr>, tk_updated_at := at\<rparr>) \<and>
        lg_tasks s' = bt_insert (tk_id t') t' (lg_tasks s) \<and>
        (\<forall>later < saturating_add now (max duration 1).
           holds_lease t' \<lparr>lt_worker_id = w, lt_attempt = 1\<rparr> later)"
  using assms(1)
proof (cases rule: claim_next_cases)
  case none
  have "bt_ok (lg_tasks s)" using assms(2) by (simp add: ledger_ok_def tasks_ok_def)
  moreover have "filter (\<lambda>t. tk_status t = Task_Pending) (vals (lg_tasks s)) = []"
    using none(2) by (simp add: next_pending_def)
  ultimately have "tk_status t \<noteq> Task_Pending" if "bt_get (lg_tasks s) i = Some t" for i t
    using that by (auto simp: filter_empty_conv in_vals_get)
  with none show ?thesis by auto
next
  case (recorded t)
  let ?l = "\<lparr>tl_worker_id = w, tl_expires_at = saturating_add now (max duration 1)\<rparr>"
  have ok: "tasks_ok (lg_tasks s)" using assms(2) by (simp add: ledger_ok_def)
  note t = next_pendingD [OF ok recorded(1)]
  have attempt: "tk_attempt t = 0" using ok t(1,2) by (fastforce simp: tasks_ok_def task_ok_def)
  from recorded(3) obtain at where at: "recorded (Claimed (tk_id t) ?l) at s s'"
    by (rule append_locked_cases) auto
  let ?t' = "t\<lparr>tk_status := Task_Running, tk_attempt := 1, tk_lease := Some ?l, tk_updated_at := at\<rparr>"
  have tasks: "lg_tasks s' = bt_insert (tk_id t) ?t' (lg_tasks s)"
    using recorded_this [OF at, of t] t(1) attempt by simp
  then have claim: "claim = Some ?t'" using recorded(2) by simp
  have "holds_lease ?t' \<lparr>lt_worker_id = w, lt_attempt = 1\<rparr> later"
    if "later < saturating_add now (max duration 1)" for later
    using that by (simp add: holds_lease_def lease_token_of_def)
  with t tasks claim show ?thesis by auto
qed auto

text \<open>Recovery of expired leases: it returns exactly the tasks that were running under a lease that
  has expired, each now unknown with the reason recorded and its delivery pending; no other task
  changes and afterwards no lease that has expired is left. Nothing goes back to pending.\<close>

theorem recover_expired_exact:
  assumes "recover_expired encode now s = (Inr ts, s')" and "ledger_ok s"
  shows "(\<forall>t'. t' \<in> set ts \<longleftrightarrow>
      (\<exists>t. bt_get (lg_tasks s) (tk_id t') = Some t \<and> expired now t) \<and>
      bt_get (lg_tasks s') (tk_id t') = Some t') \<and>
    (\<forall>t' \<in> set ts. tk_status t' = Task_Unknown \<and>
       tk_error t' = Some ''worker lease expired; completion cannot be determined'' \<and>
       tk_lease t' = None \<and> tk_delivery t' \<noteq> Not_Ready) \<and>
    (\<forall>i. (\<forall>t. bt_get (lg_tasks s) i = Some t \<longrightarrow> \<not> expired now t) \<longrightarrow>
       bt_get (lg_tasks s') i = bt_get (lg_tasks s) i) \<and>
    (\<forall>i t. bt_get (lg_tasks s') i = Some t \<longrightarrow> \<not> expired now t)"
proof -
  have ok: "tasks_ok (lg_tasks s)" using assms(2) by (simp add: ledger_ok_def)
  let ?ids = "map tk_id (filter (expired now) (vals (lg_tasks s)))"
  note ids = expired_ids [OF ok, where now = now]
  have run: "mark_unknown encode ?ids [] s = (Inr ts, s')"
    using assms(1) by (auto simp: recover_expired_def locked_def split: if_splits)
  note facts = mark_unknown_run [OF run ids(2) expired_running [OF ok]]
  have ok': "tasks_ok (lg_tasks s')"
    using ledger_steps_ok [OF facts(1) assms(2)] by (simp add: ledger_ok_def)
  obtain us where us: "ts = us" "map (bt_get (lg_tasks s')) ?ids = map Some us"
    "\<forall>u \<in> set us. tk_status u = Task_Unknown \<and> tk_error u = Some expiry"
    using facts(3) [OF refl] by auto
  have members: "u \<in> set ts \<longleftrightarrow> (\<exists>i \<in> set ?ids. bt_get (lg_tasks s') i = Some u)" for u
  proof -
    have "Some ` set us = bt_get (lg_tasks s') ` set ?ids"
      using arg_cong [OF us(2), of set] by (simp only: set_map)
    moreover have "u \<in> set ts \<longleftrightarrow> Some u \<in> Some ` set us" using us(1) by auto
    ultimately show ?thesis by (metis (no_types, lifting) image_iff)
  qed
  have id: "tk_id u = i" if "bt_get (lg_tasks s') i = Some u" for i u
    using ok' that by (simp add: tasks_ok_def)
  have 1: "\<forall>t'. t' \<in> set ts \<longleftrightarrow>
      (\<exists>t. bt_get (lg_tasks s) (tk_id t') = Some t \<and> expired now t) \<and>
      bt_get (lg_tasks s') (tk_id t') = Some t'"
  proof
    fix u
    have "u \<in> set ts \<longleftrightarrow> tk_id u \<in> set ?ids \<and> bt_get (lg_tasks s') (tk_id u) = Some u"
      unfolding members using id by blast
    then show "u \<in> set ts \<longleftrightarrow> (\<exists>t. bt_get (lg_tasks s) (tk_id u) = Some t \<and> expired now t) \<and>
        bt_get (lg_tasks s') (tk_id u) = Some u"
      unfolding ids(1) .
  qed
  have 2: "tk_status t' = Task_Unknown \<and> tk_error t' = Some expiry \<and> tk_lease t' = None \<and>
      tk_delivery t' \<noteq> Not_Ready" if "t' \<in> set ts" for t'
  proof -
    have "task_ok t'" using 1 that ok' by (auto simp: tasks_ok_def)
    then show ?thesis using us(1,3) that by (auto simp: task_ok_def)
  qed
  have 3: "bt_get (lg_tasks s') i = bt_get (lg_tasks s) i"
    if "\<forall>t. bt_get (lg_tasks s) i = Some t \<longrightarrow> \<not> expired now t" for i
    using facts(2) [of i] ids(1) [of i] that by blast
  have 4: "\<not> expired now t" if "bt_get (lg_tasks s') i = Some t" for i t
  proof (cases "\<exists>u. bt_get (lg_tasks s) i = Some u \<and> expired now u")
    case True
    then have "t \<in> set ts" using members ids(1) that by blast
    then show ?thesis using 2 by (simp add: expired_def)
  next
    case False
    then show ?thesis using 3 [of i] that by auto
  qed
  from 1 2 3 4 show ?thesis by blast
qed

section \<open>Durability\<close>

text \<open>The log holds exactly the acknowledged envelopes.\<close>

definition synced :: "(ledger_envelope \<Rightarrow> string + string) \<Rightarrow> ledger \<Rightarrow> bool" where
  "synced encode s \<longleftrightarrow> lf_bytes (lg_file s) = concat (map (line_of encode) (lg_history s))"

text \<open>An append keeps that, or fails on I/O; an event that is allowed applies.\<close>

lemma append_locked_synced:
  assumes "append_locked encode e s = (r, s')" and "synced encode s" and "allowed (lg_tasks s) e"
    and "ledger_ok s"
  shows "synced encode s' \<or> (\<exists>m. r = Inl (Ledger_Io m))"
proof -
  obtain now h where n: "now_ms (lf_host (lg_file s)) = (now, h)" by fastforce
  let ?s = "s\<lparr>lg_file := (lg_file s)\<lparr>lf_host := h\<rparr>\<rparr>"
  let ?v = "\<lparr>le_sequence = lg_next_sequence s, le_at_unix_ms = now, le_event = e\<rparr>"
  show ?thesis
  proof (cases "encode ?v")
    case (Inl m)
    with assms(1,2) n show ?thesis
      by (auto simp: append_locked_def ledger_host_def act_defs synced_def)
  next
    case (Inr b)
    obtain q f where w: "append_line b (lg_file ?s) = (q, f)" by fastforce
    show ?thesis
    proof (cases q)
      case (Inl m)
      with assms(1) n \<open>encode ?v = Inr b\<close> w show ?thesis
        by (auto simp: append_locked_def ledger_host_def act_defs)
    next
      case (Inr u)
      with w have "lf_bytes f = lf_bytes (lg_file s) @ b @ [newline]"
        by (auto dest: append_line_appended)
      moreover obtain tasks' where "apply_event (lg_tasks s) e now = Inr tasks'"
        using allowed_step [OF _ _ assms(3)] assms(4) by (metis ledger_ok_def)
      ultimately show ?thesis
        using assms(1,2) n \<open>encode ?v = Inr b\<close> w Inr
        by (auto simp: append_locked_def ledger_host_def act_defs synced_def line_of_def)
    qed
  qed
qed

lemma guarded_synced:
  assumes "guarded_update encode i guard e s = (r, s')" and "event_task e = i"
    and "\<And>t. bt_get (lg_tasks s) i = Some t \<Longrightarrow> guard t = None \<Longrightarrow> allowed_on t e"
    and "synced encode s" and "ledger_ok s"
  shows "synced encode s' \<or> (\<exists>m. r = Inl (Ledger_Io m))"
proof -
  have "allowed (lg_tasks s) e" if "bt_get (lg_tasks s) i = Some t" "guard t = None" for t
    using that assms(2) assms(3) [OF that] by (cases e) (auto simp: allowed_def)
  note step = append_locked_synced [OF _ assms(4) this assms(5)]
  from assms(1) show ?thesis
  proof (cases rule: guarded_cases)
    case (failed t x)
    with step [OF failed(3,1,2)] show ?thesis by auto
  next
    case (recorded t)
    with step [OF recorded(3,1,2)] show ?thesis by auto
  qed (use assms(4) in auto)
qed

lemma mark_unknown_synced:
  assumes "mark_unknown encode ids acc s = (r, s')" and "distinct ids"
    and "\<forall>i \<in> set ids. \<exists>t. bt_get (lg_tasks s) i = Some t \<and> tk_status t = Task_Running"
    and "synced encode s" and "ledger_ok s"
  shows "synced encode s' \<or> (\<exists>m. r = Inl (Ledger_Io m))"
  using assms
proof (induction ids arbitrary: acc s)
  case Nil
  then show ?case by (simp add: ok_def)
next
  case (Cons i ids)
  let ?e = "MarkedUnknown i expiry"
  have allowed: "allowed (lg_tasks s) ?e" using Cons.prems(3) by (auto simp: allowed_def)
  obtain q s1 where q: "append_locked encode ?e s = (q, s1)" by fastforce
  note synced = append_locked_synced [OF q Cons.prems(4) allowed Cons.prems(5)]
  note ok = ledger_steps_ok [OF append_locked_steps [OF q allowed] Cons.prems(5)]
  from q show ?case
  proof (cases rule: append_locked_cases)
    case (failed x)
    with q Cons.prems(1) synced show ?thesis by (auto simp: act_defs)
  next
    case (recorded at)
    obtain acc' where rest: "mark_unknown encode ids acc' s1 = (r, s')"
      using q recorded(1) Cons.prems(1) by (auto simp: act_defs task_now_def)
    have "\<forall>j \<in> set ids. \<exists>t. bt_get (lg_tasks s1) j = Some t \<and> tk_status t = Task_Running"
      using Cons.prems(2,3) recorded_other [OF recorded(2) allowed] by fastforce
    with Cons.IH [OF rest] Cons.prems(2) synced recorded(1) ok show ?thesis by auto
  qed
qed

lemma submit_synced:
  assumes "submit encode key payload s = (r, s')" and "submits_fresh s"
    and "synced encode s" and "ledger_ok s"
  shows "synced encode s' \<or> (\<exists>m. r = Inl (Ledger_Io m))"
proof -
  have "synced encode s' \<or> (\<exists>m. q = Inl (Ledger_Io m))"
    if "Option.bind (bt_get (lg_idempotency s) key) (bt_get (lg_tasks s)) = None" "same_core s s1"
      "lf_bytes (lg_file s1) = lf_bytes (lg_file s)"
      "append_locked encode (Submitted (new_task key payload s)) s1 = (q, s')" for q s1
  proof (rule append_locked_synced [OF that(4)])
    show "synced encode s1" using assms(3) that(2,3) by (simp add: synced_def same_core_def)
    show "ledger_ok s1" using assms(4) that(2) by (simp add: ledger_ok_def same_core_def)
    show "allowed (lg_tasks s1) (Submitted (new_task key payload s))"
      using that(1,2) assms(2,4) index_lookup [of "lg_tasks s" "lg_idempotency s" key]
      by (simp add: allowed_def same_core_def ledger_ok_def submits_fresh_def)
  qed
  note step = this
  from assms(1) show ?thesis
  proof (cases rule: submit_cases)
    case (failed s1 x)
    with step [OF failed(1,2,3,5)] show ?thesis by auto
  next
    case (recorded s1)
    with step [OF recorded(1,2,3,5)] show ?thesis by auto
  qed (use assms(3) in auto)
qed

lemma claim_next_synced:
  assumes "claim_next encode w now duration s = (r, s')" and "synced encode s" and "ledger_ok s"
  shows "synced encode s' \<or> (\<exists>m. r = Inl (Ledger_Io m))"
proof -
  have allowed: "allowed (lg_tasks s) (Claimed (tk_id t) l)" if "next_pending (lg_tasks s) = Some t" for t l
    using next_pendingD [OF _ that] assms(3) by (auto simp: allowed_def ledger_ok_def)
  note step = append_locked_synced [OF _ assms(2) allowed assms(3)]
  from assms(1) show ?thesis
  proof (cases rule: claim_next_cases)
    case (failed t x)
    with step [OF failed(3,1)] show ?thesis by auto
  next
    case (recorded t)
    with step [OF recorded(3,1)] show ?thesis by auto
  qed (use assms(2) in auto)
qed

lemma recover_expired_synced:
  assumes "recover_expired encode now s = (r, s')" and "synced encode s" and "ledger_ok s"
  shows "synced encode s' \<or> (\<exists>m. r = Inl (Ledger_Io m))"
proof (cases "lg_poisoned s")
  case True
  with assms show ?thesis by (auto simp: recover_expired_def locked_def)
next
  case False
  have ok: "tasks_ok (lg_tasks s)" using assms(3) by (simp add: ledger_ok_def)
  have "mark_unknown encode (map tk_id (filter (expired now) (vals (lg_tasks s)))) [] s = (r, s')"
    using assms(1) False by (simp add: recover_expired_def locked_def)
  then show ?thesis
    by (rule mark_unknown_synced [OF _ expired_ids(2) [OF ok] expired_running [OF ok] assms(2,3)])
qed

lemma run_op_synced:
  assumes "run_op encode op s = (x, s')" and "ledger_ok s" and "fresh_op op s" and "synced encode s"
  shows "synced encode s' \<or> (\<exists>m. x = Some (Ledger_Io m))"
proof (cases op)
  case (Op_submit key payload)
  with assms submit_synced show ?thesis by (fastforce simp: fresh_op_def outcome_iff error_of_def)
next
  case (Op_claim w now duration)
  with assms claim_next_synced show ?thesis by (fastforce simp: outcome_iff error_of_def)
next
  case (Op_heartbeat i token now e)
  then obtain r where r: "heartbeat encode i token now e s = (r, s')" "x = error_of r"
    using assms(1) by (auto simp: outcome_iff)
  have "synced encode s' \<or> (\<exists>m. r = Inl (Ledger_Io m))"
    by (rule guarded_synced [OF r(1) [unfolded heartbeat_guarded]])
      (use assms in \<open>auto simp: require_lease_Inr split: sum.splits if_splits\<close>)
  with r(2) show ?thesis by (auto simp: error_of_def)
next
  case (Op_succeed i token now v)
  then obtain r where r: "finish encode i token now (Ledger_Succeeded i v) s = (r, s')" "x = error_of r"
    using assms(1) by (auto simp: outcome_iff succeed_def)
  have "synced encode s' \<or> (\<exists>m. r = Inl (Ledger_Io m))"
    by (rule guarded_synced [OF r(1) [unfolded finish_guarded]])
      (use assms in \<open>auto simp: lease_guard_def require_lease_Inr split: sum.splits\<close>)
  with r(2) show ?thesis by (auto simp: error_of_def)
next
  case (Op_fail i token now m)
  then obtain r where r: "finish encode i token now (Ledger_Failed i m) s = (r, s')" "x = error_of r"
    using assms(1) by (auto simp: outcome_iff fail_task_def)
  have "synced encode s' \<or> (\<exists>m. r = Inl (Ledger_Io m))"
    by (rule guarded_synced [OF r(1) [unfolded finish_guarded]])
      (use assms in \<open>auto simp: lease_guard_def require_lease_Inr split: sum.splits\<close>)
  with r(2) show ?thesis by (auto simp: error_of_def)
next
  case (Op_cancel i reason)
  then obtain r where r: "cancel encode i reason s = (r, s')" "x = error_of r"
    using assms(1) by (auto simp: outcome_iff)
  have "synced encode s' \<or> (\<exists>m. r = Inl (Ledger_Io m))"
    by (rule guarded_synced [OF r(1) [unfolded cancel_guarded]])
      (use assms in \<open>auto split: if_splits\<close>)
  with r(2) show ?thesis by (auto simp: error_of_def)
next
  case (Op_recover now)
  with assms recover_expired_synced show ?thesis by (fastforce simp: outcome_iff error_of_def)
next
  case (Op_acknowledge i)
  then obtain r where r: "acknowledge_delivery encode i s = (r, s')" "x = error_of r"
    using assms(1) by (auto simp: outcome_iff)
  have "synced encode s' \<or> (\<exists>m. r = Inl (Ledger_Io m))"
    by (rule guarded_synced [OF r(1) [unfolded acknowledge_guarded]])
      (use assms in \<open>auto split: if_splits\<close>)
  with r(2) show ?thesis by (auto simp: error_of_def)
qed

end
