(* ===== verification/LedgerDurability.thy ===== *)
theory LedgerDurability
  imports LedgerProperties
begin

text \<open>
  The ledger over restarts: a ledger that was opened on an empty file and operated on, with any
  number of restarts in between, is found again exactly when it is reopened, as long as no write
  failed; and what happens after one did.
\<close>

section \<open>Reopening\<close>

lemma ledger_open_records:
  assumes "ledger_open decode path d = (r, d')"
    and "contents d path = concat (map (line_of encode) vs)"
    and "text_codec encode decode (set vs)"
    and "replay apply_envelope vs ([], 0, []) = Inr (tasks, next_sequence, history)"
  shows "(\<exists>m. r = Inl (Ledger_Io m)) \<or>
    (\<exists>h. r = Inr \<lparr>lg_poisoned = False, lg_file = \<lparr>lf_bytes = contents d path, lf_host = h\<rparr>,
       lg_next_sequence = next_sequence, lg_tasks = tasks,
       lg_idempotency = idempotency_index tasks, lg_history = history\<rparr>)"
proof -
  obtain r1 d1 where o1: "open_log path d = (r1, d1)" by fastforce
  note c1 = open_log_result [OF o1]
  show ?thesis
  proof (cases r1)
    case (Inl x)
    with assms(1) o1 c1(2) show ?thesis by (auto simp: ledger_open_def act_defs)
  next
    case (Inr u1)
    let ?lines = "map (line_of encode) vs"
    have lines: "split_lines (contents d1 path) = ?lines"
      using split_lines_text [OF assms(3), of "[]"] assms(2) c1(1) by simp
    obtain r2 d2 where o2: "replay_lines decode apply_envelope 0 ?lines ([], 0, []) d1 = (r2, d2)"
      by fastforce
    note c2 = replay_lines_records [OF assms(3,4) o2]
    show ?thesis
    proof (cases r2)
      case (Inl x)
      with c2(1) obtain m where "x = Inl (Store_Io m)" by auto
      with assms(1) o1 Inr lines o2 Inl show ?thesis by (auto simp: ledger_open_def act_defs)
    next
      case (Inr v2)
      with c2(1) have v2: "r2 = Inr (tasks, next_sequence, history)" by auto
      obtain r3 d3 where o3: "open_log path d2 = (r3, d3)" by fastforce
      note c3 = open_log_result [OF o3]
      have "contents d3 path = contents d path" using c1(1) c2(2) c3(1) by simp
      then show ?thesis
        using assms(1) o1 \<open>r1 = Inr u1\<close> lines o2 v2 o3 c3(2)
        by (auto simp: ledger_open_def act_defs)
    qed
  qed
qed

text \<open>The index that opening rebuilds is the one the operations keep.\<close>

lemma option_eqI: "(\<And>i. a = Some i \<longleftrightarrow> b = Some i) \<Longrightarrow> a = b"
  by (cases a; cases b) auto

lemma bt_get_from_distinct:
  assumes "distinct (map fst kvs)"
  shows "bt_get (bt_from kvs) k = bt_get kvs k"
proof (rule option_eqI)
  have "distinct (map fst (rev kvs))" using assms by (simp add: rev_map [symmetric])
  then show "bt_get (bt_from kvs) k = Some i \<longleftrightarrow> bt_get kvs k = Some i" for i
    using assms by (simp add: bt_get_from)
qed

lemma idempotency_index_ok:
  assumes "tasks_ok tasks" and "index_ok tasks index"
  shows "idempotency_index tasks = index"
proof (rule bt_ok_ext)
  show "bt_ok (idempotency_index tasks)" by (simp add: idempotency_index_def bt_ok_from)
  show "bt_ok index" using assms(2) by (simp add: index_ok_def)
  fix k
  have bt: "bt_ok tasks" and id: "\<And>i t. bt_get tasks i = Some t \<Longrightarrow> tk_id t = i"
    using assms(1) by (auto simp: tasks_ok_def)
  have key: "bt_get index k = Some i \<longleftrightarrow> (\<exists>t. bt_get tasks i = Some t \<and> tk_idempotency_key t = k)" for k i
    using assms(2) by (simp add: index_ok_def)
  let ?kvs = "map (\<lambda>t. (tk_idempotency_key t, tk_id t)) (vals tasks)"
  have member: "(k, i) \<in> set ?kvs \<longleftrightarrow> bt_get index k = Some i" for k i
    using id by (fastforce simp: key in_vals_get [OF bt])
  have "distinct (vals tasks)"
  proof -
    have "map tk_id (vals tasks) = keys tasks"
      using id by (auto simp: vals_def keys_def bt_get_eq_Some [OF bt])
    then show ?thesis using bt_ok_distinct [OF bt] by (metis distinct_map)
  qed
  moreover have "inj_on tk_idempotency_key (set (vals tasks))"
  proof (rule inj_onI)
    fix t u
    assume "t \<in> set (vals tasks)" "u \<in> set (vals tasks)" "tk_idempotency_key t = tk_idempotency_key u"
    then show "t = u"
      using key by (auto simp: in_vals_get [OF bt]) (metis option.inject)
  qed
  ultimately have distinct: "distinct (map fst ?kvs)"
    by (simp add: distinct_map comp_def)
  show "bt_get (idempotency_index tasks) k = bt_get index k"
    unfolding idempotency_index_def bt_get_from_distinct [OF distinct]
  proof (rule option_eqI)
    show "bt_get ?kvs k = Some i \<longleftrightarrow> bt_get index k = Some i" for i
      using member [of k i] map_of_eq_Some_iff [OF distinct, of k i] by blast
  qed
qed

section \<open>Ledgers in use\<close>

text \<open>A ledger in use, and the envelopes that were ever acknowledged to its users: it was opened
  on an empty file, operated on without an I/O failure, and reopened on the bytes it had left.\<close>

inductive ledger_in_use ::
  "(ledger_envelope \<Rightarrow> string + string) \<Rightarrow> (string \<Rightarrow> ledger_envelope decoded) \<Rightarrow> string \<Rightarrow>
   ledger \<Rightarrow> ledger_envelope list \<Rightarrow> bool"
  for encode decode path where
  created: "contents d path = [] \<Longrightarrow> ledger_open decode path d = (Inr s, d') \<Longrightarrow>
    ledger_in_use encode decode path s []"
| operated: "ledger_in_use encode decode path s vs \<Longrightarrow> fresh_op op s \<Longrightarrow>
    run_op encode op s = (x, s') \<Longrightarrow> \<nexists>m. x = Some (Ledger_Io m) \<Longrightarrow>
    ledger_in_use encode decode path s' (vs @ drop (length (lg_history s)) (lg_history s'))"
| reopened: "ledger_in_use encode decode path s vs \<Longrightarrow> contents d path = lf_bytes (lg_file s) \<Longrightarrow>
    ledger_open decode path d = (Inr s', d') \<Longrightarrow> ledger_in_use encode decode path s' vs"

definition ledger_good :: "(ledger_envelope \<Rightarrow> string + string) \<Rightarrow> ledger_envelope list \<Rightarrow> ledger \<Rightarrow> bool" where
  "ledger_good encode vs s \<longleftrightarrow>
     ledger_ok s \<and> history_ok s \<and> synced encode s \<and> lg_history s = vs \<and> \<not> lg_poisoned s"

lemma reopen_good:
  assumes "ledger_good encode vs s" and "text_codec encode decode (set vs)"
    and "contents d path = lf_bytes (lg_file s)" and "ledger_open decode path d = (r, d')"
  shows "(\<exists>m. r = Inl (Ledger_Io m)) \<or>
    (\<exists>s'. r = Inr s' \<and> same_core s s' \<and> lf_bytes (lg_file s') = lf_bytes (lg_file s))"
proof -
  have ok: "ledger_ok s" "lg_history s = vs" "\<not> lg_poisoned s"
    and bytes: "contents d path = concat (map (line_of encode) vs)"
    and rep: "replay apply_envelope vs ([], 0, []) = Inr (lg_tasks s, lg_next_sequence s, vs)"
    using assms(1,3) by (auto simp: ledger_good_def synced_def history_ok_def)
  have "idempotency_index (lg_tasks s) = lg_idempotency s"
    using ok(1) by (intro idempotency_index_ok) (simp_all add: ledger_ok_def)
  with ledger_open_records [OF assms(4) bytes assms(2) rep] ok assms(3) show ?thesis
    by (auto simp: same_core_def)
qed

lemma same_core_good:
  "ledger_good encode vs s \<Longrightarrow> same_core s s' \<Longrightarrow> lf_bytes (lg_file s') = lf_bytes (lg_file s) \<Longrightarrow>
   ledger_good encode vs s'"
  by (auto simp: ledger_good_def same_core_def ledger_ok_def history_ok_def synced_def)

lemma ledger_steps_extends: "ledger_steps s s' \<Longrightarrow> \<exists>vs. lg_history s' = lg_history s @ vs"
  by (induction rule: ledger_steps.induct) (auto simp: same_core_def recorded_def)

lemma ledger_in_use_good:
  "ledger_in_use encode decode path s vs \<Longrightarrow> text_codec encode decode (set vs) \<Longrightarrow>
   length vs < 2 ^ 64 \<Longrightarrow> ledger_good encode vs s"
proof (induction rule: ledger_in_use.induct)
  case (created d s d')
  have "text_codec encode decode (set [])" by (simp add: text_codec_def)
  from ledger_open_records [OF created.hyps(2) _ this] created.hyps(1) show ?case
    by (auto simp: ledger_good_def ledger_ok_def tasks_ok_def index_ok_def history_ok_def synced_def
        idempotency_index_def bt_from_def)
next
  case (operated s vs op x s')
  let ?vs = "vs @ drop (length (lg_history s)) (lg_history s')"
  have codec: "text_codec encode decode (set vs)"
    using operated.prems(1) by (rule text_codec_subset) auto
  have good: "ledger_good encode vs s"
    using operated.IH [OF codec] operated.prems(2) by simp
  have steps: "ledger_steps s s'"
    using good operated.hyps by (intro run_op_steps [OF operated.hyps(3)]) (simp_all add: ledger_good_def)
  have history: "lg_history s' = ?vs"
    using ledger_steps_extends [OF steps] good by (auto simp: ledger_good_def)
  have "synced encode s'"
    using run_op_synced [OF operated.hyps(3)] good operated.hyps(2,4) by (auto simp: ledger_good_def)
  moreover have "ledger_ok s'" using ledger_steps_ok [OF steps] good by (simp add: ledger_good_def)
  moreover have "history_ok s'"
    using ledger_steps_history [OF steps] good history operated.prems(2) by (simp add: ledger_good_def)
  moreover have "\<not> lg_poisoned s'"
    using ledger_steps_poisoned [OF steps] good by (simp add: ledger_good_def)
  ultimately show ?case using history by (simp add: ledger_good_def)
next
  case (reopened s vs d s' d')
  then have "ledger_good encode vs s" by simp
  with reopen_good [OF this reopened.prems(1) reopened.hyps(2,3)] show ?case
    by (auto intro: same_core_good)
qed

text \<open>C12 The ledger survives restarts: for a ledger created on an empty file, operated on in any way
  without an I/O failure and restarted any number of times, reopening the log never reports
  corruption and gives back exactly the tasks, the idempotency index and the sequence counter it
  had, whose log holds every acknowledged event in order.\<close>

theorem ledger_survives_restart:
  assumes "ledger_in_use encode decode path s vs" and "text_codec encode decode (set vs)"
    and "length vs < 2 ^ 64"
    and "contents d path = lf_bytes (lg_file s)" and "ledger_open decode path d = (r, d')"
  shows "(\<exists>m. r = Inl (Ledger_Io m)) \<or>
    (\<exists>s'. r = Inr s' \<and> lg_tasks s' = lg_tasks s \<and> lg_idempotency s' = lg_idempotency s \<and>
       lg_next_sequence s' = lg_next_sequence s \<and> lg_history s' = vs \<and>
       lf_bytes (lg_file s') = concat (map (line_of encode) vs))"
proof -
  have good: "ledger_good encode vs s" using assms(1-3) by (rule ledger_in_use_good)
  then have "lg_history s = vs" "lf_bytes (lg_file s) = concat (map (line_of encode) vs)"
    by (simp_all add: ledger_good_def synced_def)
  with reopen_good [OF good assms(2,4,5)] show ?thesis by (auto simp: same_core_def)
qed

section \<open>A sample ledger\<close>

definition sample_task_event :: ledger_event where
  "sample_task_event = Submitted \<lparr>tk_id = ''task_thread_0_0_7'', tk_idempotency_key = ''k'',
     tk_payload = JBool True, tk_status = Task_Pending, tk_attempt = 0, tk_lease = None,
     tk_result = None, tk_error = None, tk_delivery = Not_Ready, tk_created_at = 0, tk_updated_at = 0\<rparr>"

definition sample_ledger_encode :: "ledger_envelope \<Rightarrow> string + string" where
  "sample_ledger_encode v =
     Inr (case le_event v of Submitted t \<Rightarrow> ''{0}'' | Claimed i l \<Rightarrow> ''{1}'' | _ \<Rightarrow> ''{2}'')"

definition sample_ledger_decode :: "string \<Rightarrow> ledger_envelope decoded" where
  "sample_ledger_decode l =
     (if l = ''{0}'' then Decoded \<lparr>le_sequence = 0, le_at_unix_ms = 0, le_event = sample_task_event\<rparr>
      else Undecodable False ''expected value'')"

definition sample_ledger :: "(nat \<Rightarrow> io_outcome) \<Rightarrow> ledger" where
  "sample_ledger io = \<lparr>lg_poisoned = False,
     lg_file = \<lparr>lf_bytes = [], lf_host = (sample_host io)\<lparr>h_operations := 3\<rparr>\<rparr>,
     lg_next_sequence = 0, lg_tasks = [], lg_idempotency = [], lg_history = []\<rparr>"

abbreviation sample_working :: ledger where
  "sample_working \<equiv> sample_ledger (\<lambda>_. Io_ok)"

abbreviation sample_token :: lease_token where
  "sample_token \<equiv> \<lparr>lt_worker_id = ''w'', lt_attempt = 1\<rparr>"

lemmas sample_ledger_defs =
  submit_def claim_next_def heartbeat_def succeed_def fail_task_def finish_def cancel_def
  recover_expired_def acknowledge_delivery_def locked_def require_task_def require_lease_def
  next_pending_def append_locked_def append_line_def write_all_def sync_file_def io_step_def
  ledger_host_def act_defs task_now_def update_task_def terminate_task_def invalid_transition_def
  expired_def TaskId_new_def ThreadId_new_def generated_id_def id_text_def now_ms_def now_nanos_def
  as_millis_def hex_def show_base_small sample_host_def sample_ledger_def error_of_def fresh_op_def
  submits_fresh_def next_task_id_def saturating_add_def sample_ledger_encode_def Let_def

lemma sample_ledger_ok [simp]: "ledger_ok (sample_ledger io)"
  by (simp add: ledger_ok_def tasks_ok_def index_ok_def sample_ledger_def)

definition sample_ops :: "ledger_op list" where
  "sample_ops = [Op_submit ''k'' (JBool True), Op_claim ''w'' 5 10]"

lemma sample_fresh: "fresh_ops sample_ledger_encode sample_ops sample_working"
  by (simp add: sample_ops_def sample_ledger_defs)

lemma sample_claimed:
  "map (\<lambda>(i, t). (i, tk_status t, tk_attempt t)) (lg_tasks (run_ops sample_ledger_encode sample_ops sample_working)) =
     [(''task_thread_0_0_7'', Task_Running, 1)]"
  by (simp add: sample_ops_def vals_def sample_ledger_defs)

abbreviation sample_running :: ledger where
  "sample_running \<equiv> run_ops sample_ledger_encode sample_ops sample_working"

abbreviation sample_id :: task_id where
  "sample_id \<equiv> ''task_thread_0_0_7''"

theorem ledger_contract_witness:
  "ledger_ok sample_running \<and> tasks_evolve (lg_tasks sample_working) (lg_tasks sample_running) \<and>
   lg_tasks sample_running \<noteq> []"
  using ledger_contract [OF sample_ledger_ok sample_fresh] sample_claimed by auto

lemma sample_running_ok: "ledger_ok sample_running"
  by (rule conjunct1 [OF ledger_steps_ok [OF run_ops_steps [OF sample_ledger_ok sample_fresh] sample_ledger_ok]])

lemma sample_finish:
  "\<exists>t' s'. finish sample_ledger_encode sample_id sample_token 6 (Ledger_Succeeded sample_id JNull)
     sample_running = (Inr t', s')"
  by (simp add: sample_ops_def vals_def sample_ledger_defs)

theorem lease_fences_results_witness:
  "\<exists>t' s'. finish sample_ledger_encode sample_id sample_token 6 (Ledger_Succeeded sample_id JNull)
     sample_running = (Inr t', s') \<and> tk_status t' = Task_Succeeded \<and> tk_result t' = Some JNull \<and>
     (\<exists>t. bt_get (lg_tasks sample_running) sample_id = Some t \<and> holds_lease t sample_token 6)"
proof -
  obtain t' s' where run: "finish sample_ledger_encode sample_id sample_token 6
      (Ledger_Succeeded sample_id JNull) sample_running = (Inr t', s')"
    using sample_finish by blast
  from lease_fences_results [OF run, of JNull "[]"] show ?thesis
    using run by (intro exI [of _ t'] exI [of _ s']) simp
qed

definition sample_cancelled :: ledger where
  "sample_cancelled = run_ops sample_ledger_encode (sample_ops @ [Op_cancel sample_id ''stop'']) sample_working"

lemma sample_cancelled_ok: "ledger_ok sample_cancelled"
proof -
  have "fresh_ops sample_ledger_encode (sample_ops @ [Op_cancel sample_id ''stop'']) sample_working"
    by (simp add: sample_ops_def sample_ledger_defs)
  from ledger_steps_ok [OF run_ops_steps [OF sample_ledger_ok this]] show ?thesis
    by (simp add: sample_cancelled_def)
qed

lemma sample_cancelled_task:
  "\<exists>t. bt_get (lg_tasks sample_cancelled) sample_id = Some t \<and> tk_status t = Task_Cancelled"
  "\<not> lg_poisoned sample_cancelled"
  by (simp_all add: sample_cancelled_def sample_ops_def vals_def sample_ledger_defs)

theorem finished_tasks_stay_witness:
  "let s' = run_ops sample_ledger_encode [Op_recover 99] sample_cancelled
   in succeed sample_ledger_encode sample_id sample_token 100 JNull s' =
        (Inl (InvalidTransition sample_id Task_Cancelled ''lease operation''), s')"
proof -
  obtain t where t: "bt_get (lg_tasks sample_cancelled) sample_id = Some t" "tk_status t = Task_Cancelled"
    using sample_cancelled_task(1) by blast
  have "fresh_ops sample_ledger_encode [Op_recover 99] sample_cancelled" by (simp add: fresh_op_def)
  from finished_tasks_stay [OF sample_cancelled_ok this sample_cancelled_task(2) t(1)] t(2) show ?thesis
    by (simp add: Let_def)
qed

lemma sample_submit:
  "\<exists>sub s1. submit sample_ledger_encode ''k'' (JBool True) sample_working = (Inr sub, s1) \<and>
     tk_payload (sub_task sub) = JBool True"
  "submits_fresh sample_working"
  by (simp_all add: sample_ledger_defs)

theorem submit_idempotent_witness:
  "\<exists>sub s1 t. submit sample_ledger_encode ''k'' (JBool True) sample_working = (Inr sub, s1) \<and>
     submit sample_ledger_encode ''k'' (JBool False) (run_ops sample_ledger_encode [Op_claim ''w'' 5 10] s1) =
       (Inr \<lparr>sub_task = t, sub_created = False\<rparr>, run_ops sample_ledger_encode [Op_claim ''w'' 5 10] s1) \<and>
     tk_payload t = JBool True"
proof -
  obtain sub s1 where run: "submit sample_ledger_encode ''k'' (JBool True) sample_working = (Inr sub, s1)"
    "tk_payload (sub_task sub) = JBool True"
    using sample_submit(1) by blast
  have "fresh_ops sample_ledger_encode [Op_claim ''w'' 5 10] s1" by (simp add: fresh_op_def)
  from submit_idempotent [OF sample_ledger_ok sample_submit(2) run(1) this, of "JBool False"]
  obtain t where "submit sample_ledger_encode ''k'' (JBool False)
      (run_ops sample_ledger_encode [Op_claim ''w'' 5 10] s1) =
      (Inr \<lparr>sub_task = t, sub_created = False\<rparr>, run_ops sample_ledger_encode [Op_claim ''w'' 5 10] s1)"
    "tk_payload t = tk_payload (sub_task sub)" by blast
  with run show ?thesis by (intro exI [of _ sub] exI [of _ s1] exI [of _ t]) simp
qed

definition sample_submitted :: ledger where
  "sample_submitted = run_ops sample_ledger_encode [Op_submit ''k'' (JBool True)] sample_working"

lemma sample_submitted_ok: "ledger_ok sample_submitted"
proof -
  have "fresh_ops sample_ledger_encode [Op_submit ''k'' (JBool True)] sample_working"
    by (simp add: sample_ledger_defs)
  from ledger_steps_ok [OF run_ops_steps [OF sample_ledger_ok this]] show ?thesis
    by (simp add: sample_submitted_def)
qed

lemma sample_claim:
  "\<exists>t s'. claim_next sample_ledger_encode ''w'' 5 10 sample_submitted = (Inr (Some t), s')"
  by (simp add: sample_submitted_def vals_def sample_ledger_defs)

theorem claim_takes_oldest_witness:
  "\<exists>t s'. claim_next sample_ledger_encode ''w'' 5 10 sample_submitted = (Inr (Some t), s') \<and>
     holds_lease t sample_token 14"
proof -
  obtain t s' where run: "claim_next sample_ledger_encode ''w'' 5 10 sample_submitted = (Inr (Some t), s')"
    using sample_claim by blast
  have "(14::u64) < saturating_add 5 (max 10 1)" by (simp add: saturating_add_def)
  with claim_takes_oldest [OF run sample_submitted_ok] run show ?thesis by auto
qed

lemma sample_recover:
  "\<exists>t s'. recover_expired sample_ledger_encode 15 sample_running = (Inr [t], s')"
  by (simp add: sample_ops_def vals_def sample_ledger_defs)

theorem recover_expired_exact_witness:
  "\<exists>t s'. recover_expired sample_ledger_encode 15 sample_running = (Inr [t], s') \<and>
     tk_status t = Task_Unknown \<and> bt_get (lg_tasks s') (tk_id t) = Some t"
proof -
  obtain t s' where run: "recover_expired sample_ledger_encode 15 sample_running = (Inr [t], s')"
    using sample_recover by blast
  from recover_expired_exact [OF run sample_running_ok] run show ?thesis by auto
qed

text \<open>Restart: the log of one submission, on a disk that holds it.\<close>

definition sample_disk :: "string \<Rightarrow> disk" where
  "sample_disk bytes = \<lparr>d_files = [(''ledger'', bytes)], d_host = sample_host (\<lambda>_. Io_ok)\<rparr>"

lemma sample_open:
  "\<exists>d'. ledger_open sample_ledger_decode ''ledger'' (sample_disk []) = (Inr sample_working, d')"
  by (simp add: ledger_open_def open_log_def disk_io_def act_defs io_step_def sample_disk_def
      file_bytes_def sample_host_def sample_ledger_def idempotency_index_def bt_from_def)

lemma sample_submitted_history:
  "lg_history sample_submitted = [\<lparr>le_sequence = 0, le_at_unix_ms = 0, le_event = sample_task_event\<rparr>]"
  "fst (run_op sample_ledger_encode (Op_submit ''k'' (JBool True)) sample_working) = None"
  by (simp_all add: sample_submitted_def sample_task_event_def sample_ledger_defs)

lemma sample_in_use:
  "ledger_in_use sample_ledger_encode sample_ledger_decode ''ledger'' sample_submitted
     [\<lparr>le_sequence = 0, le_at_unix_ms = 0, le_event = sample_task_event\<rparr>]"
proof -
  obtain d' where "ledger_open sample_ledger_decode ''ledger'' (sample_disk []) = (Inr sample_working, d')"
    using sample_open by blast
  then have "ledger_in_use sample_ledger_encode sample_ledger_decode ''ledger'' sample_working []"
    by (intro created [of "sample_disk []"]) (simp add: sample_disk_def file_bytes_def)
  moreover have "fresh_op (Op_submit ''k'' (JBool True)) sample_working"
    by (simp add: sample_ledger_defs)
  moreover have "run_op sample_ledger_encode (Op_submit ''k'' (JBool True)) sample_working =
      (None, sample_submitted)"
    using sample_submitted_history(2) by (simp add: sample_submitted_def prod_eq_iff)
  ultimately have "ledger_in_use sample_ledger_encode sample_ledger_decode ''ledger'' sample_submitted
      ([] @ drop (length (lg_history sample_working)) (lg_history sample_submitted))"
    by (rule operated) simp
  then show ?thesis by (simp add: sample_submitted_history sample_ledger_def)
qed

lemma sample_ledger_codec:
  "text_codec sample_ledger_encode sample_ledger_decode
     (set [\<lparr>le_sequence = 0, le_at_unix_ms = 0, le_event = sample_task_event\<rparr>])"
  by (simp add: text_codec_def sample_ledger_encode_def sample_ledger_decode_def sample_task_event_def
      valid_utf8_def utf8_first_def byte_def)

lemma sample_reopen:
  "\<exists>s' d'. ledger_open sample_ledger_decode ''ledger''
     (sample_disk (lf_bytes (lg_file sample_submitted))) = (Inr s', d')"
  by (simp add: sample_submitted_def sample_ledger_defs ledger_open_def open_log_def disk_io_def
      sample_disk_def file_bytes_def replay_line_def sample_ledger_decode_def sample_task_event_def
      apply_envelope_def valid_utf8_def utf8_first_def byte_def strip_eol_def terminated_def blank_def
      trim_def trim_end_def ws1_def ws2_def ws3_def)

theorem ledger_survives_restart_witness:
  "\<exists>s' d'. ledger_open sample_ledger_decode ''ledger''
     (sample_disk (lf_bytes (lg_file sample_submitted))) = (Inr s', d') \<and>
   lg_tasks s' = lg_tasks sample_submitted"
proof -
  obtain s' d' where run: "ledger_open sample_ledger_decode ''ledger''
      (sample_disk (lf_bytes (lg_file sample_submitted))) = (Inr s', d')"
    using sample_reopen by blast
  from ledger_survives_restart [OF sample_in_use sample_ledger_codec _ _ run] run show ?thesis
    by (auto simp: sample_disk_def file_bytes_def)
qed

section \<open>After a failed write\<close>


end
