(* ===== verification/TaskAcceptance.thy ===== *)
theory TaskAcceptance
  imports TextLog Protocol
begin

text \<open>
  Task acceptance, crates/task/src/lib.rs: a task's fixed criteria, the gate that checks artifact
  snapshots against them, the states of a task, and the journal that holds its events. The JSON
  codec of journal records and Rust's debug formatting of strings (which consults Unicode tables)
  are parameters.
\<close>

section \<open>Data\<close>

record artifact_ref =
  af_id :: string
  af_content :: string

record criterion =
  cr_id :: string
  cr_artifact_id :: string
  cr_expected :: string

record task_budget =
  max_attempts :: u32

record task_spec =
  sp_objective :: string
  sp_criteria :: "criterion list"
  sp_budget :: task_budget

record check_evidence =
  ce_criterion_id :: string
  ce_artifact_id :: string
  ce_passed :: bool
  ce_feedback :: string

datatype acceptance_status =
    Task_Ready | Attempt_Running | NeedsRepair | Accepted | BudgetExhausted | Task_Blocked

record attempt_evidence =
  at_attempt :: u32
  at_turn_id :: string
  at_artifacts :: "artifact_ref list"
  at_checks :: "check_evidence list"
  at_receipts :: "tool_receipt list"

record task_state =
  ta_spec :: task_spec
  ta_status :: acceptance_status
  ta_attempts :: u32
  ta_evidence :: "attempt_evidence list"
  ta_remaining_work :: "string list"
  ta_active_turn :: "string option"

datatype task_event =
    Created task_spec
  | AttemptStarted string
  | AttemptChecked "artifact_ref list" "tool_receipt list"
  | Block_Requested string

record journal_record =
  jr_version :: u32
  jr_sequence :: nat
  jr_payload :: task_event

datatype task_error =
    Task_Io string
  | Task_Json string
  | Task_Invalid string

section \<open>The gate\<close>

definition matching_artifacts :: "criterion \<Rightarrow> artifact_ref list \<Rightarrow> artifact_ref list" where
  "matching_artifacts c artifacts = filter (\<lambda>a. af_id a = cr_artifact_id c) artifacts"

definition gate_passed :: "criterion \<Rightarrow> artifact_ref list \<Rightarrow> bool" where
  "gate_passed c artifacts \<longleftrightarrow>
     (let found = matching_artifacts c artifacts
      in length found = 1 \<and> af_content (found ! 0) = cr_expected c)"

definition gate_check ::
  "(string \<Rightarrow> string) \<Rightarrow> task_spec \<Rightarrow> artifact_ref list \<Rightarrow> check_evidence list" where
  "gate_check debug spec artifacts =
     map (\<lambda>c. let passed = gate_passed c artifacts
       in \<lparr>ce_criterion_id = cr_id c, ce_artifact_id = cr_artifact_id c, ce_passed = passed,
           ce_feedback =
             (if passed then ''exact content verified''
              else ''Repair artifact '' @ debug (cr_artifact_id c) @ '' to satisfy criterion ''
                @ debug (cr_id c) @ '': expected exact content '' @ debug (cr_expected c)
                @ ''; found '' @ dec (length (matching_artifacts c artifacts)) @ '' snapshot(s)'')\<rparr>)
       (sp_criteria spec)"

section \<open>States\<close>

fun check_criteria :: "criterion list \<Rightarrow> string list \<Rightarrow> bool" where
  "check_criteria [] ids = True"
| "check_criteria (c # cs) ids =
     (if blank (cr_id c) \<or> blank (cr_artifact_id c) \<or> cr_id c \<in> set ids then False
      else check_criteria cs (bs_insert (cr_id c) ids))"

definition initial_state :: "task_spec \<Rightarrow> task_error + task_state" where
  "initial_state spec =
     (if blank (sp_objective spec) \<or> sp_criteria spec = [] \<or> max_attempts (sp_budget spec) = 0
      then Inl (Task_Invalid ''objective, required criteria and positive attempt budget are mandatory'')
      else if \<not> check_criteria (sp_criteria spec) []
      then Inl (Task_Invalid
        ''criterion IDs must be nonempty and unique; artifact IDs must be nonempty'')
      else Inr \<lparr>ta_spec = spec, ta_status = Task_Ready, ta_attempts = 0, ta_evidence = [],
             ta_remaining_work = map cr_id (sp_criteria spec), ta_active_turn = None\<rparr>)"

definition reconcile :: string where
  "reconcile = ''Reconcile unknown tool outcomes with the host; do not replay actions''"

definition apply_task_event ::
  "(string \<Rightarrow> string) \<Rightarrow> task_event \<Rightarrow> task_state \<Rightarrow> task_error + task_state" where
  "apply_task_event debug event s =
     (case event of
        Created _ \<Rightarrow> Inl (Task_Invalid ''task specification is immutable'')
      | AttemptStarted turn_id \<Rightarrow>
          if ta_status s \<notin> {Task_Ready, NeedsRepair}
            \<or> max_attempts (sp_budget (ta_spec s)) \<le> ta_attempts s
            \<or> blank turn_id \<or> list_ex (\<lambda>e. at_turn_id e = turn_id) (ta_evidence s)
          then Inl (Task_Invalid ''attempt requires a ready task, fresh turn ID and remaining budget'')
          else Inr (s\<lparr>ta_attempts := ta_attempts s + 1, ta_active_turn := Some turn_id,
                 ta_status := Attempt_Running\<rparr>)
      | AttemptChecked artifacts receipts \<Rightarrow>
          if ta_status s \<noteq> Attempt_Running
          then Inl (Task_Invalid ''verification requires a running attempt'')
          else
            let checks = gate_check debug (ta_spec s) artifacts;
                work = map ce_feedback (filter (\<lambda>c. \<not> ce_passed c) checks);
                unknown = list_ex (\<lambda>r. tr_status r = Receipt_Unknown) receipts;
                work' = (if unknown then work @ [reconcile] else work);
                status =
                  (if unknown then Task_Blocked
                   else if list_all ce_passed checks then Accepted
                   else if ta_attempts s = max_attempts (sp_budget (ta_spec s)) then BudgetExhausted
                   else NeedsRepair)
            in (case ta_active_turn s of
                  None \<Rightarrow> Inl (Task_Invalid ''missing active turn'')
                | Some turn_id \<Rightarrow>
                    Inr (s\<lparr>ta_remaining_work := work', ta_status := status, ta_active_turn := None,
                       ta_evidence := ta_evidence s @ [\<lparr>at_attempt = ta_attempts s,
                         at_turn_id = turn_id, at_artifacts = artifacts, at_checks = checks,
                         at_receipts = receipts\<rparr>]\<rparr>))
      | Block_Requested reason \<Rightarrow>
          if ta_status s \<notin> {Task_Ready, Attempt_Running, NeedsRepair} \<or> blank reason
          then Inl (Task_Invalid ''blocking requires a nonterminal task and a reason'')
          else Inr (s\<lparr>ta_status := Task_Blocked, ta_remaining_work := ta_remaining_work s @ [reason]\<rparr>))"

section \<open>The journal\<close>

text \<open>\<open>tj_history\<close> is a ghost: the events whose append was acknowledged.\<close>

record task_journal =
  tj_file :: log_file
  tj_state :: task_state
  tj_sequence :: nat
  tj_write_failed :: bool
  tj_history :: "task_event list"

type_synonym 'a journal_act = "(task_journal, task_error, 'a) act"
type_synonym journal_encode = "journal_record \<Rightarrow> string + string"

definition append_record :: "journal_encode \<Rightarrow> task_event \<Rightarrow> unit journal_act" where
  "append_record encode payload j =
     (if tj_write_failed j then (Inl (Task_Invalid ''previous write failed; reopen journal''), j)
      else case encode \<lparr>jr_version = 1, jr_sequence = tj_sequence j, jr_payload = payload\<rparr> of
        Inl m \<Rightarrow> (Inl (Task_Json m), j)
      | Inr b \<Rightarrow>
          (case and_then (write_all (b @ [newline])) (\<lambda>_. sync_file) (tj_file j) of
             (Inl m, f) \<Rightarrow> (Inl (Task_Io m), j\<lparr>tj_file := f, tj_write_failed := True\<rparr>)
           | (Inr _, f) \<Rightarrow>
               (Inr (), j\<lparr>tj_file := f, tj_write_failed := False, tj_sequence := tj_sequence j + 1,
                  tj_history := tj_history j @ [payload]\<rparr>)))"

definition transition ::
  "(string \<Rightarrow> string) \<Rightarrow> journal_encode \<Rightarrow> task_event \<Rightarrow> unit journal_act" where
  "transition debug encode event j =
     (case apply_task_event debug event (tj_state j) of
        Inl e \<Rightarrow> (Inl e, j)
      | Inr next_state \<Rightarrow>
          and_then (append_record encode event) (\<lambda>_. writes (\<lambda>j. j\<lparr>tj_state := next_state\<rparr>)) j)"

definition start_attempt ::
  "(string \<Rightarrow> string) \<Rightarrow> journal_encode \<Rightarrow> string \<Rightarrow> unit journal_act" where
  "start_attempt debug encode turn_id = transition debug encode (AttemptStarted turn_id)"

definition verify_attempt ::
  "(string \<Rightarrow> string) \<Rightarrow> journal_encode \<Rightarrow> artifact_ref list \<Rightarrow> tool_receipt list \<Rightarrow> unit journal_act" where
  "verify_attempt debug encode artifacts receipts =
     transition debug encode (AttemptChecked artifacts receipts)"

definition block_task ::
  "(string \<Rightarrow> string) \<Rightarrow> journal_encode \<Rightarrow> string \<Rightarrow> unit journal_act" where
  "block_task debug encode reason = transition debug encode (Block_Requested reason)"

text \<open>Creating a journal: the specification is checked, the file made anew, its first record written.\<close>

definition journal_create ::
  "journal_encode \<Rightarrow> string \<Rightarrow> task_spec \<Rightarrow> disk \<Rightarrow> (task_error + task_journal) \<times> disk" where
  "journal_create encode path spec d =
     (case initial_state spec of
        Inl e \<Rightarrow> (Inl e, d)
      | Inr state \<Rightarrow>
          (case create_new path d of
             (Inl e, d1) \<Rightarrow> (Inl (Task_Io (io_message e)), d1)
           | (Inr _, d1) \<Rightarrow>
               (case append_record encode (Created spec)
                  \<lparr>tj_file = \<lparr>lf_bytes = [], lf_host = d_host d1\<rparr>, tj_state = state, tj_sequence = 0,
                   tj_write_failed = False, tj_history = []\<rparr> of
                  (r, j) \<Rightarrow>
                    ((case r of Inl e \<Rightarrow> Inl e | Inr _ \<Rightarrow> Inr j),
                     put_file path (lf_bytes (tj_file j)) (d1\<lparr>d_host := lf_host (tj_file j)\<rparr>)))))"

text \<open>One record of a journal being opened, and the loop over its lines.\<close>

definition read_record ::
  "(string \<Rightarrow> string) \<Rightarrow> (string \<Rightarrow> journal_record decoded) \<Rightarrow> string \<Rightarrow> task_state option \<Rightarrow> nat \<Rightarrow>
   task_error + task_event \<times> task_state" where
  "read_record debug decode line state sequence =
     (case decode line of
        Undecodable eof m \<Rightarrow> Inl (Task_Json m)
      | Decoded r \<Rightarrow>
          if jr_version r \<noteq> 1 \<or> jr_sequence r \<noteq> sequence
          then Inl (Task_Invalid ''unsupported version or out-of-order sequence'')
          else case (state, jr_payload r) of
            (None, Created spec) \<Rightarrow> map_sum id (Pair (Created spec)) (initial_state spec)
          | (Some current, event) \<Rightarrow> map_sum id (Pair event) (apply_task_event debug event current)
          | _ \<Rightarrow> Inl (Task_Invalid ''journal must begin with task creation''))"

fun read_records ::
  "(string \<Rightarrow> string) \<Rightarrow> (string \<Rightarrow> journal_record decoded) \<Rightarrow> string list \<Rightarrow> task_state option \<Rightarrow> nat \<Rightarrow>
   task_event list \<Rightarrow> task_error + task_state option \<times> nat \<times> task_event list" where
  "read_records debug decode [] state sequence history = Inr (state, sequence, history)"
| "read_records debug decode (l # ls) state sequence history =
     (case read_record debug decode l state sequence of
        Inl e \<Rightarrow> Inl e
      | Inr (event, current) \<Rightarrow>
          read_records debug decode ls (Some current) (sequence + 1) (history @ [event]))"

definition journal_open ::
  "(string \<Rightarrow> string) \<Rightarrow> (string \<Rightarrow> journal_record decoded) \<Rightarrow> string \<Rightarrow>
   (disk, task_error, task_journal) act" where
  "journal_open debug decode path =
     and_then (map_err (\<lambda>e. Task_Io (io_message e)) disk_io) (\<lambda>_.
     and_then (reads (\<lambda>d. bt_get (d_files d) path)) (\<lambda>file.
     case file of
       None \<Rightarrow> err (Task_Io ''No such file or directory (os error 2)'')
     | Some bytes \<Rightarrow>
         if bytes = [] \<or> last bytes \<noteq> newline
         then err (Task_Invalid ''empty or unterminated journal; inspect before recovery'')
         else case read_records debug decode (split_lines bytes) None 0 [] of
           Inl e \<Rightarrow> err e
         | Inr (state, sequence, history) \<Rightarrow>
             and_then (map_err (\<lambda>e. Task_Io (io_message e)) disk_io) (\<lambda>_.
             case state of
               None \<Rightarrow> err (Task_Invalid ''missing task creation'')
             | Some s \<Rightarrow> reads (\<lambda>d. \<lparr>tj_file = \<lparr>lf_bytes = bytes, lf_host = d_host d\<rparr>, tj_state = s,
                 tj_sequence = sequence, tj_write_failed = False, tj_history = history\<rparr>))))"

section \<open>The contract in the context\<close>

text \<open>\<open>TaskContextCompiler\<close>: the segment that pins the contract, and the compiler that puts it first.\<close>

definition contract_segment ::
  "(task_spec \<Rightarrow> string + string) \<Rightarrow> task_spec \<Rightarrow> task_error + prompt_segment" where
  "contract_segment to_string spec =
     (case initial_state spec of
        Inl e \<Rightarrow> Inl e
      | Inr _ \<Rightarrow>
          (case to_string spec of
             Inl m \<Rightarrow> Inl (Task_Json m)
           | Inr text \<Rightarrow> Inr \<lparr>ps_layer = Stable, ps_name = ''task-contract-v1'',
               ps_text = ''Host task contract (context, not tool authority):'' @ [newline] @ text\<rparr>))"

definition compile_with_contract ::
  "prompt_segment \<Rightarrow> (context_input \<Rightarrow> 'w \<Rightarrow> (context_error + compiled_context) \<times> 'w) \<Rightarrow>
   context_input \<Rightarrow> 'w \<Rightarrow> (context_error + compiled_context) \<times> 'w" where
  "compile_with_contract contract inner input w =
     (case inner input w of
        (Inl e, w') \<Rightarrow> (Inl e, w')
      | (Inr c, w') \<Rightarrow> (Inr (c\<lparr>cc_prompt := contract # cc_prompt c\<rparr>), w'))"

end
