(* ===== verification/AcceptanceProperties.thy ===== *)
theory AcceptanceProperties
  imports TaskAcceptance
begin

text \<open>
  The properties of task acceptance: what the states of a task promise, the bound on its events,
  and what reopening a journal finds after any failure.
\<close>

section \<open>The invariant of a task\<close>

definition accepted_evidence :: "attempt_evidence \<Rightarrow> bool" where
  "accepted_evidence e \<longleftrightarrow>
     list_all ce_passed (at_checks e) \<and> (\<forall>r \<in> set (at_receipts e). tr_status r \<noteq> Receipt_Unknown)"

definition evidence_ok :: "(string \<Rightarrow> string) \<Rightarrow> task_state \<Rightarrow> bool" where
  "evidence_ok debug s \<longleftrightarrow>
     (\<forall>e \<in> set (ta_evidence s). at_checks e = gate_check debug (ta_spec s) (at_artifacts e)) \<and>
     distinct (map at_turn_id (ta_evidence s)) \<and>
     (\<forall>e \<in> set (butlast (ta_evidence s)). \<not> accepted_evidence e)"

definition attempts_ok :: "task_state \<Rightarrow> bool" where
  "attempts_ok s \<longleftrightarrow>
     ta_attempts s \<le> max_attempts (sp_budget (ta_spec s)) \<and>
     (case ta_status s of
        Attempt_Running \<Rightarrow> length (ta_evidence s) + 1 = unat (ta_attempts s) \<and>
          (\<exists>t. ta_active_turn s = Some t \<and> t \<notin> at_turn_id ` set (ta_evidence s))
      | Task_Blocked \<Rightarrow> length (ta_evidence s) \<le> unat (ta_attempts s)
      | BudgetExhausted \<Rightarrow> length (ta_evidence s) = unat (ta_attempts s) \<and>
          ta_attempts s = max_attempts (sp_budget (ta_spec s))
      | NeedsRepair \<Rightarrow> length (ta_evidence s) = unat (ta_attempts s) \<and>
          ta_attempts s < max_attempts (sp_budget (ta_spec s))
      | _ \<Rightarrow> length (ta_evidence s) = unat (ta_attempts s))"

definition verdict_ok :: "task_state \<Rightarrow> bool" where
  "verdict_ok s \<longleftrightarrow>
     (case ta_status s of
        Accepted \<Rightarrow> ta_evidence s \<noteq> [] \<and> accepted_evidence (last (ta_evidence s))
      | Task_Blocked \<Rightarrow> True
      | _ \<Rightarrow> (\<forall>e \<in> set (ta_evidence s). \<not> accepted_evidence e))"

definition acceptance_ok :: "(string \<Rightarrow> string) \<Rightarrow> task_state \<Rightarrow> bool" where
  "acceptance_ok debug s \<longleftrightarrow>
     (\<exists>s0. initial_state (ta_spec s) = Inr s0) \<and> evidence_ok debug s \<and> attempts_ok s \<and> verdict_ok s"

lemma initial_state_ok:
  assumes "initial_state spec = Inr s"
  shows "acceptance_ok debug s" and "ta_spec s = spec" and "ta_status s = Task_Ready"
    and "ta_attempts s = 0" and "ta_evidence s = []"
  using assms
  by (auto simp: initial_state_def acceptance_ok_def evidence_ok_def attempts_ok_def verdict_ok_def
      split: if_splits)

lemma apply_task_event_spec:
  "apply_task_event debug e s = Inr s' \<Longrightarrow> ta_spec s' = ta_spec s"
  by (cases e) (auto simp: apply_task_event_def Let_def split: if_splits option.splits)

lemma unat_next_attempt:
  fixes a m :: u32
  assumes "a < m"
  shows "unat (a + 1) = unat a + 1"
proof -
  have "unat a < unat m" using assms by (simp add: word_less_nat_alt)
  moreover have "unat m < 2 ^ 32" using unsigned_less [of m] by simp
  ultimately show ?thesis by (simp add: unat_word_ariths)
qed

lemma start_keeps:
  assumes "acceptance_ok debug s" and "apply_task_event debug (AttemptStarted t) s = Inr s'"
  shows "acceptance_ok debug s'"
proof -
  from assms(2) have s': "s' = s\<lparr>ta_attempts := ta_attempts s + 1, ta_active_turn := Some t,
      ta_status := Attempt_Running\<rparr>"
    and st: "ta_status s \<in> {Task_Ready, NeedsRepair}"
    and less: "ta_attempts s < max_attempts (sp_budget (ta_spec s))"
    and new: "t \<notin> at_turn_id ` set (ta_evidence s)"
    by (auto simp: apply_task_event_def list_ex_iff split: if_splits)
  have "length (ta_evidence s) = unat (ta_attempts s)"
    using assms(1) st by (auto simp: acceptance_ok_def attempts_ok_def)
  then have "attempts_ok s'"
    using less new unat_next_attempt [OF less] by (simp add: s' attempts_ok_def inc_le)
  moreover have "verdict_ok s'"
    using assms(1) st by (auto simp: s' acceptance_ok_def verdict_ok_def)
  ultimately show ?thesis using assms(1) by (simp add: s' acceptance_ok_def evidence_ok_def)
qed

lemma check_keeps:
  assumes "acceptance_ok debug s" and "apply_task_event debug (AttemptChecked artifacts receipts) s = Inr s'"
  shows "acceptance_ok debug s'"
proof -
  let ?checks = "gate_check debug (ta_spec s) artifacts"
  let ?unknown = "list_ex (\<lambda>r. tr_status r = Receipt_Unknown) receipts"
  from assms(2) obtain t where st: "ta_status s = Attempt_Running" and t: "ta_active_turn s = Some t"
    by (auto simp: apply_task_event_def Let_def split: if_splits option.splits)
  define e where "e = \<lparr>at_attempt = ta_attempts s, at_turn_id = t, at_artifacts = artifacts,
      at_checks = ?checks, at_receipts = receipts\<rparr>"
  have s': "ta_spec s' = ta_spec s" "ta_attempts s' = ta_attempts s" "ta_evidence s' = ta_evidence s @ [e]"
    "ta_status s' = (if ?unknown then Task_Blocked else if list_all ce_passed ?checks then Accepted
       else if ta_attempts s = max_attempts (sp_budget (ta_spec s)) then BudgetExhausted else NeedsRepair)"
    using assms(2) st t by (auto simp: apply_task_event_def Let_def e_def)
  have accepted: "accepted_evidence e \<longleftrightarrow> list_all ce_passed ?checks \<and> \<not> ?unknown"
    by (auto simp: accepted_evidence_def e_def list_ex_iff)
  have old: "\<forall>e \<in> set (ta_evidence s). \<not> accepted_evidence e"
    using assms(1) st by (simp add: acceptance_ok_def verdict_ok_def)
  have count: "length (ta_evidence s) + 1 = unat (ta_attempts s)"
    and new: "t \<notin> at_turn_id ` set (ta_evidence s)"
    and budget: "ta_attempts s \<le> max_attempts (sp_budget (ta_spec s))"
    using assms(1) st t by (auto simp: acceptance_ok_def attempts_ok_def)
  have "evidence_ok debug s'"
    using assms(1) new old by (auto simp: acceptance_ok_def evidence_ok_def s' e_def)
  moreover have "attempts_ok s'"
    using count budget by (auto simp: attempts_ok_def s' order.strict_iff_order)
  moreover have "verdict_ok s'"
    using accepted old by (simp add: verdict_ok_def s')
  ultimately show ?thesis using assms(1) s'(1) by (simp add: acceptance_ok_def)
qed

lemma block_keeps:
  assumes "acceptance_ok debug s" and "apply_task_event debug (Block_Requested reason) s = Inr s'"
  shows "acceptance_ok debug s'"
proof -
  from assms(2) have "s' = s\<lparr>ta_status := Task_Blocked, ta_remaining_work := ta_remaining_work s @ [reason]\<rparr>"
    and "ta_status s \<in> {Task_Ready, Attempt_Running, NeedsRepair}"
    by (auto simp: apply_task_event_def split: if_splits)
  with assms(1) show ?thesis
    by (auto simp: acceptance_ok_def attempts_ok_def verdict_ok_def evidence_ok_def)
qed

text \<open>How many events a task can still take.\<close>

definition event_allowance :: "task_state \<Rightarrow> nat" where
  "event_allowance s =
     (let left = unat (max_attempts (sp_budget (ta_spec s))) - unat (ta_attempts s)
      in case ta_status s of
           Task_Ready \<Rightarrow> 2 * left + 1
         | NeedsRepair \<Rightarrow> 2 * left + 1
         | Attempt_Running \<Rightarrow> 2 * left + 2
         | _ \<Rightarrow> 0)"

lemma event_takes:
  assumes "acceptance_ok debug s" and "apply_task_event debug e s = Inr s'"
  shows "event_allowance s' < event_allowance s"
proof (cases e)
  case (Created spec)
  with assms(2) show ?thesis by (simp add: apply_task_event_def)
next
  case (AttemptStarted t)
  with assms(2) have s': "s' = s\<lparr>ta_attempts := ta_attempts s + 1, ta_active_turn := Some t,
      ta_status := Attempt_Running\<rparr>"
    and st: "ta_status s \<in> {Task_Ready, NeedsRepair}"
    and less: "ta_attempts s < max_attempts (sp_budget (ta_spec s))"
    by (auto simp: apply_task_event_def split: if_splits)
  have "unat (ta_attempts s) < unat (max_attempts (sp_budget (ta_spec s)))"
    using less by (simp add: word_less_nat_alt)
  with st show ?thesis by (auto simp: s' event_allowance_def Let_def unat_next_attempt [OF less])
next
  case (AttemptChecked artifacts receipts)
  with assms(2) show ?thesis
    by (auto simp: apply_task_event_def event_allowance_def Let_def split: if_splits option.splits)
next
  case (Block_Requested reason)
  with assms(2) show ?thesis
    by (auto simp: apply_task_event_def event_allowance_def Let_def split: if_splits)
qed

interpretation task_events: bounded_events "apply_task_event debug" "acceptance_ok debug" event_allowance
  for debug
proof unfold_locales
  show "acceptance_ok debug s \<Longrightarrow> apply_task_event debug e s = Inr s' \<Longrightarrow> acceptance_ok debug s'" for e s s'
    by (cases e) (auto intro: start_keeps check_keeps block_keeps, simp add: apply_task_event_def)
  show "acceptance_ok debug s \<Longrightarrow> apply_task_event debug e s = Inr s' \<Longrightarrow>
      event_allowance s' < event_allowance s" for e s s'
    by (rule event_takes)
qed

section \<open>The journal\<close>

text \<open>The records of the acknowledged events, and the bytes they make.\<close>

definition journal_record_of :: "nat \<Rightarrow> task_event \<Rightarrow> journal_record" where
  "journal_record_of n e = \<lparr>jr_version = 1, jr_sequence = n, jr_payload = e\<rparr>"

fun journal_records :: "nat \<Rightarrow> task_event list \<Rightarrow> journal_record list" where
  "journal_records n [] = []"
| "journal_records n (e # es) = journal_record_of n e # journal_records (n + 1) es"

definition journal_lines :: "journal_encode \<Rightarrow> task_event list \<Rightarrow> string" where
  "journal_lines encode es = concat (map (line_of encode) (journal_records 0 es))"

lemma journal_records_append:
  "journal_records n (es @ fs) = journal_records n es @ journal_records (n + length es) fs"
  by (induction es arbitrary: n) simp_all

definition encodes :: "journal_encode \<Rightarrow> journal_record set" where
  "encodes encode = {r. \<exists>b. encode r = Inr b}"

text \<open>A journal that is in order: its state is the replay of its acknowledged events, and its file
  holds their records; after a failed write, also a part of the record that failed.\<close>

definition replays_to :: "(string \<Rightarrow> string) \<Rightarrow> task_event list \<Rightarrow> task_state \<Rightarrow> bool" where
  "replays_to debug es s \<longleftrightarrow>
     (\<exists>spec s0 fs. es = Created spec # fs \<and> initial_state spec = Inr s0 \<and>
        replay (apply_task_event debug) fs s0 = Inr s)"

definition journal_good :: "(string \<Rightarrow> string) \<Rightarrow> journal_encode \<Rightarrow> task_journal \<Rightarrow> bool" where
  "journal_good debug encode j \<longleftrightarrow>
     replays_to debug (tj_history j) (tj_state j) \<and> tj_sequence j = length (tj_history j) \<and>
     set (journal_records 0 (tj_history j)) \<subseteq> encodes encode \<and>
     (if tj_write_failed j
      then \<exists>e s b p q. apply_task_event debug e (tj_state j) = Inr s \<and>
        encode (journal_record_of (tj_sequence j) e) = Inr b \<and> b @ [newline] = p @ q \<and>
        lf_bytes (tj_file j) = journal_lines encode (tj_history j) @ p
      else lf_bytes (tj_file j) = journal_lines encode (tj_history j))"

lemma replays_to_snoc:
  "replays_to debug es s \<Longrightarrow> apply_task_event debug e s = Inr s' \<Longrightarrow> replays_to debug (es @ [e]) s'"
  by (fastforce simp: replays_to_def replay_append)

lemma replays_to_ok:
  assumes "replays_to debug es s"
  shows "acceptance_ok debug s" and "length es + event_allowance s \<le>
    2 * unat (max_attempts (sp_budget (ta_spec s))) + 2"
proof -
  obtain spec s0 fs where fs: "es = Created spec # fs" "initial_state spec = Inr s0"
    "replay (apply_task_event debug) fs s0 = Inr s"
    using assms by (auto simp: replays_to_def)
  note s0 = initial_state_ok [OF fs(2)]
  show "acceptance_ok debug s" using task_events.replay_invar [OF s0(1) fs(3)] .
  have spec: "replay (apply_task_event debug) fs u = Inr s \<Longrightarrow> ta_spec s = ta_spec u" for u
    by (induction fs arbitrary: u) (auto split: sum.splits dest: apply_task_event_spec)
  have "length fs + event_allowance s \<le> event_allowance s0"
    by (rule task_events.replay_bounded [OF s0(1) fs(3)])
  then show "length es + event_allowance s \<le> 2 * unat (max_attempts (sp_budget (ta_spec s))) + 2"
    using s0(3,4) spec [OF fs(3)] by (simp add: fs(1) event_allowance_def)
qed

text \<open>What an append does to the file.\<close>

lemma append_record_cases:
  assumes "append_record encode e j = (r, j')"
  obtains (refused) "tj_write_failed j" "r = Inl (Task_Invalid ''previous write failed; reopen journal'')"
      "j' = j"
  | (unencoded) m where "\<not> tj_write_failed j" "encode (journal_record_of (tj_sequence j) e) = Inl m"
      "r = Inl (Task_Json m)" "j' = j"
  | (failed) b p q m f where "\<not> tj_write_failed j" "encode (journal_record_of (tj_sequence j) e) = Inr b"
      "b @ [newline] = p @ q" "lf_bytes f = lf_bytes (tj_file j) @ p" "r = Inl (Task_Io m)"
      "j' = j\<lparr>tj_file := f, tj_write_failed := True\<rparr>"
  | (recorded) b f where "\<not> tj_write_failed j" "encode (journal_record_of (tj_sequence j) e) = Inr b"
      "lf_bytes f = lf_bytes (tj_file j) @ b @ [newline]" "r = Inr ()"
      "j' = j\<lparr>tj_file := f, tj_write_failed := False, tj_sequence := tj_sequence j + 1,
         tj_history := tj_history j @ [e]\<rparr>"
proof (cases "tj_write_failed j")
  case True
  with assms show ?thesis by (intro refused) (auto simp: append_record_def)
next
  case False
  show ?thesis
  proof (cases "encode (journal_record_of (tj_sequence j) e)")
    case (Inl m)
    with False assms show ?thesis
      by (intro unencoded) (auto simp: append_record_def journal_record_of_def)
  next
    case (Inr b)
    obtain r1 f1 where 1: "write_all (b @ [newline]) (tj_file j) = (r1, f1)" by fastforce
    show ?thesis
    proof (cases r1)
      case (Inl m)
      with 1 write_all_result(2) obtain n
        where "lf_bytes f1 = lf_bytes (tj_file j) @ take n (b @ [newline])" by blast
      with False \<open>encode _ = Inr b\<close> 1 Inl assms show ?thesis
        by (intro failed [of b "take n (b @ [newline])" "drop n (b @ [newline])" f1 m])
          (auto simp: append_record_def journal_record_of_def and_then_def simp del: take_append drop_append)
    next
      case (Inr u)
      with 1 have f1: "lf_bytes f1 = lf_bytes (tj_file j) @ b @ [newline]"
        by (auto dest: write_all_result(1))
      obtain r2 f2 where 2: "sync_file f1 = (r2, f2)" by fastforce
      then have f2: "lf_bytes f2 = lf_bytes f1" by (rule sync_file_bytes)
      show ?thesis
      proof (cases r2)
        case (Inl m)
        with False \<open>encode _ = Inr b\<close> 1 Inr f1 f2 2 assms show ?thesis
          by (intro failed [of b "b @ [newline]" "[]" f2 m])
            (auto simp: append_record_def journal_record_of_def and_then_def)
      next
        case (Inr v)
        with False \<open>encode _ = Inr b\<close> 1 \<open>r1 = Inr u\<close> f1 f2 2 assms show ?thesis
          by (intro recorded [of b f2]) (auto simp: append_record_def journal_record_of_def and_then_def)
      qed
    qed
  qed
qed

lemma transition_good:
  assumes "transition debug encode e j = (r, j')" and "journal_good debug encode j"
  shows "journal_good debug encode j'"
proof (cases "apply_task_event debug e (tj_state j)")
  case (Inl x)
  with assms show ?thesis by (simp add: transition_def)
next
  case (Inr s)
  obtain q j1 where q: "append_record encode e j = (q, j1)" by fastforce
  have j': "j' = (case q of Inl _ \<Rightarrow> j1 | Inr _ \<Rightarrow> j1\<lparr>tj_state := s\<rparr>)"
    using assms(1) Inr q by (auto simp: transition_def act_defs split: sum.splits)
  from q show ?thesis
  proof (cases rule: append_record_cases)
    case (failed b p z m f)
    with Inr assms(2) show ?thesis
      by (auto simp: j' journal_good_def)
  next
    case (recorded b f)
    have "replays_to debug (tj_history j @ [e]) s"
      using assms(2) Inr by (auto simp: journal_good_def intro: replays_to_snoc)
    with recorded assms(2) show ?thesis
      by (auto simp: j' journal_good_def journal_records_append journal_lines_def line_of_def encodes_def)
  qed (use assms(2) j' in auto)
qed

section \<open>Reopening a journal\<close>

lemma read_record_line:
  assumes "codec_ok encode decode (encodes encode)" and "journal_record_of n e \<in> encodes encode"
  shows "read_record debug decode (line_of encode (journal_record_of n e)) state n =
    (case (state, e) of
       (None, Created spec) \<Rightarrow> map_sum id (Pair (Created spec)) (initial_state spec)
     | (Some current, event) \<Rightarrow> map_sum id (Pair event) (apply_task_event debug event current)
     | _ \<Rightarrow> Inl (Task_Invalid ''journal must begin with task creation''))"
proof -
  obtain b where "encode (journal_record_of n e) = Inr b"
    "decode (b @ [newline]) = Decoded (journal_record_of n e)"
    using assms by (rule codec_okE)
  then show ?thesis by (simp add: read_record_def line_of_def journal_record_of_def)
qed

lemma read_records_replay:
  assumes "codec_ok encode decode (encodes encode)" and "set (journal_records n es) \<subseteq> encodes encode"
    and "replay (apply_task_event debug) es s = Inr s'"
  shows "read_records debug decode (map (line_of encode) (journal_records n es)) (Some s) n h =
    Inr (Some s', n + length es, h @ es)"
  using assms(2,3)
proof (induction es arbitrary: n s h)
  case Nil
  then show ?case by simp
next
  case (Cons e es)
  then obtain u where u: "apply_task_event debug e s = Inr u"
    "replay (apply_task_event debug) es u = Inr s'"
    by (auto split: sum.splits)
  have "journal_record_of n e \<in> encodes encode" using Cons.prems(1) by simp
  note line = read_record_line [OF assms(1) this, of debug "Some s"]
  have "set (journal_records (n + 1) es) \<subseteq> encodes encode" using Cons.prems(1) by simp
  with Cons.IH [OF this u(2), of "h @ [e]"] u(1) line show ?case by simp
qed

lemma journal_lines_open:
  assumes "codec_ok encode decode (encodes encode)" and "set (journal_records 0 es) \<subseteq> encodes encode"
    and "replays_to debug es s"
  shows "read_records debug decode (split_lines (journal_lines encode es)) None 0 [] =
      Inr (Some s, length es, es)"
    and "journal_lines encode es \<noteq> []" and "last (journal_lines encode es) = newline"
proof -
  obtain spec s0 fs where es: "es = Created spec # fs" "initial_state spec = Inr s0"
    "replay (apply_task_event debug) fs s0 = Inr s"
    using assms(3) by (auto simp: replays_to_def)
  have "codec_ok encode decode (set (journal_records 0 es))"
    using assms(1,2) by (rule codec_ok_subset)
  from split_lines_records [OF this, of "[]"]
  have lines: "split_lines (journal_lines encode es) = map (line_of encode) (journal_records 0 es)"
    by (simp add: journal_lines_def)
  have "journal_record_of 0 (Created spec) \<in> encodes encode" using assms(2) es(1) by simp
  note first = read_record_line [OF assms(1) this, of debug None]
  have "set (journal_records 1 fs) \<subseteq> encodes encode" using assms(2) es(1) by simp
  from read_records_replay [OF assms(1) this es(3), of "[Created spec]"]
  show "read_records debug decode (split_lines (journal_lines encode es)) None 0 [] =
      Inr (Some s, length es, es)"
    unfolding lines using es(1,2) first by simp
  have last_line: "\<exists>b. line_of encode r = b @ [newline]" if "r \<in> encodes encode" for r
    using that by (auto simp: encodes_def line_of_def)
  have "es \<noteq> []" using es(1) by simp
  then obtain gs e where snoc: "es = gs @ [e]" by (metis rev_exhaust)
  then have "journal_record_of (length gs) e \<in> encodes encode"
    using assms(2) by (simp add: journal_records_append)
  from last_line [OF this] obtain b where
    "journal_lines encode es = journal_lines encode gs @ b @ [newline]"
    by (auto simp: journal_lines_def snoc journal_records_append)
  then show "journal_lines encode es \<noteq> []" and "last (journal_lines encode es) = newline" by simp_all
qed

lemma journal_open_bytes:
  assumes "journal_open debug decode path d = (r, d')" and "bt_get (d_files d) path = Some bytes"
  shows "(\<exists>m. r = Inl (Task_Io m)) \<or>
    (if bytes = [] \<or> last bytes \<noteq> newline
     then r = Inl (Task_Invalid ''empty or unterminated journal; inspect before recovery'')
     else case read_records debug decode (split_lines bytes) None 0 [] of
       Inl e \<Rightarrow> r = Inl e
     | Inr (None, n, h) \<Rightarrow> r = Inl (Task_Invalid ''missing task creation'')
     | Inr (Some s, n, h) \<Rightarrow> (\<exists>host. r = Inr \<lparr>tj_file = \<lparr>lf_bytes = bytes, lf_host = host\<rparr>,
         tj_state = s, tj_sequence = n, tj_write_failed = False, tj_history = h\<rparr>))"
proof -
  obtain q d1 where q: "disk_io d = (q, d1)" by fastforce
  then have files: "d_files d1 = d_files d" and io: "\<And>x. q = Inl x \<Longrightarrow> \<exists>m. x = Store_Io m"
    by (auto simp: disk_io_def split: prod.splits io_outcome.splits)
  obtain q2 d2 where q2: "disk_io d1 = (q2, d2)" by fastforce
  then have io2: "\<And>x. q2 = Inl x \<Longrightarrow> \<exists>m. x = Store_Io m"
    by (auto simp: disk_io_def split: prod.splits io_outcome.splits)
  show ?thesis
  proof (cases q)
    case (Inl x)
    with assms q io show ?thesis by (auto simp: journal_open_def act_defs)
  next
    case (Inr u)
    with assms q files q2 io2 show ?thesis
      by (cases q2) (auto simp: journal_open_def act_defs split: sum.splits option.splits)
  qed
qed

text \<open>Reopening a journal in order.\<close>

lemma reopen_journal:
  assumes "journal_good debug encode j" and "codec_ok encode decode (encodes encode)"
    and "bt_get (d_files d) path = Some (lf_bytes (tj_file j))"
    and "journal_open debug decode path d = (r, d')"
  obtains (io) m where "r = Inl (Task_Io m)"
  | (torn) "tj_write_failed j"
      "r = Inl (Task_Invalid ''empty or unterminated journal; inspect before recovery'')"
  | (same) j' where "r = Inr j'" "tj_state j' = tj_state j" "tj_history j' = tj_history j"
      "journal_good debug encode j'" "\<not> tj_write_failed j'"
  | (one_more) j' e where "tj_write_failed j" "r = Inr j'" "\<not> tj_write_failed j'"
      "apply_task_event debug e (tj_state j) = Inr (tj_state j')" "tj_history j' = tj_history j @ [e]"
      "journal_good debug encode j'"
proof -
  let ?bytes = "lf_bytes (tj_file j)" and ?h = "tj_history j"
  have rep: "replays_to debug ?h (tj_state j)" and enc: "set (journal_records 0 ?h) \<subseteq> encodes encode"
    and seq: "tj_sequence j = length ?h"
    using assms(1) by (auto simp: journal_good_def)
  note opened = journal_open_bytes [OF assms(4,3)]
  have good: "(\<exists>m. r = Inl (Task_Io m)) \<or> (\<exists>j'. r = Inr j' \<and> tj_state j' = s \<and> tj_history j' = es \<and>
      journal_good debug encode j' \<and> \<not> tj_write_failed j')"
    if "?bytes = journal_lines encode es" "replays_to debug es s" "set (journal_records 0 es) \<subseteq> encodes encode"
    for es s
  proof -
    have "(\<exists>m. r = Inl (Task_Io m)) \<or> (\<exists>host. r = Inr \<lparr>tj_file = \<lparr>lf_bytes = ?bytes, lf_host = host\<rparr>,
        tj_state = s, tj_sequence = length es, tj_write_failed = False, tj_history = es\<rparr>)"
      using opened journal_lines_open [OF assms(2) that(3,2)] that(1) by simp
    then show ?thesis
    proof (elim disjE exE)
      fix host
      let ?j = "\<lparr>tj_file = \<lparr>lf_bytes = ?bytes, lf_host = host\<rparr>, tj_state = s,
        tj_sequence = length es, tj_write_failed = False, tj_history = es\<rparr>"
      assume "r = Inr ?j"
      moreover have "journal_good debug encode ?j" using that by (simp add: journal_good_def)
      ultimately show ?thesis by (intro disjI2 exI [of _ ?j]) simp
    qed blast
  qed
  consider "?bytes = journal_lines encode ?h"
    | e s b p q where "tj_write_failed j" "apply_task_event debug e (tj_state j) = Inr s"
      "encode (journal_record_of (tj_sequence j) e) = Inr b" "b @ [newline] = p @ q"
      "?bytes = journal_lines encode ?h @ p" "p \<noteq> []"
    using assms(1) by (fastforce simp: journal_good_def split: if_splits)
  then show ?thesis
  proof cases
    case 1
    from good [OF 1 rep enc] show ?thesis using io same by blast
  next
    case (2 e s b p q)
    show ?thesis
    proof (cases "q = []")
      case True
      with 2 seq have "?bytes = journal_lines encode (?h @ [e])"
        by (simp add: journal_lines_def journal_records_append line_of_def)
      moreover have "set (journal_records 0 (?h @ [e])) \<subseteq> encodes encode"
        using enc 2(3) seq by (auto simp: journal_records_append encodes_def)
      ultimately show ?thesis
        using good replays_to_snoc [OF rep 2(2)] io one_more 2(1,2) by metis
    next
      case False
      have "journal_record_of (tj_sequence j) e \<in> encodes encode" using 2(3) by (auto simp: encodes_def)
      with assms(2) 2(3) have "newline \<notin> set b" by (auto elim!: codec_okE)
      moreover obtain z where "b = p @ z"
        using 2(4) False by (metis append_butlast_last_id butlast_append butlast_snoc)
      ultimately have "last p \<noteq> newline" using 2(6) by (metis UnCI last_in_set set_append)
      then have "last ?bytes \<noteq> newline" using 2(5,6) by simp
      with opened show ?thesis using io torn 2(1) by auto
    qed
  qed
qed

text \<open>A journal in use: created, operated on (successfully or not), reopened.\<close>

inductive journal_in_use ::
  "(string \<Rightarrow> string) \<Rightarrow> journal_encode \<Rightarrow> (string \<Rightarrow> journal_record decoded) \<Rightarrow> string \<Rightarrow> task_journal \<Rightarrow> bool"
  for debug encode decode path where
  created: "journal_create encode path spec d = (Inr j, d') \<Longrightarrow> journal_in_use debug encode decode path j"
| operated: "journal_in_use debug encode decode path j \<Longrightarrow> transition debug encode e j = (r, j') \<Longrightarrow>
    journal_in_use debug encode decode path j'"
| reopened: "journal_in_use debug encode decode path j \<Longrightarrow>
    bt_get (d_files d) path = Some (lf_bytes (tj_file j)) \<Longrightarrow>
    journal_open debug decode path d = (Inr j', d') \<Longrightarrow> journal_in_use debug encode decode path j'"

lemma journal_create_good:
  assumes "journal_create encode path spec d = (Inr j, d')"
  shows "journal_good debug encode j"
proof -
  obtain s where s: "initial_state spec = Inr s"
    using assms by (auto simp: journal_create_def split: sum.splits)
  obtain u d1 where c: "create_new path d = (Inr u, d1)"
    using assms s by (auto simp: journal_create_def split: sum.splits prod.splits)
  let ?j = "\<lparr>tj_file = \<lparr>lf_bytes = [], lf_host = d_host d1\<rparr>, tj_state = s, tj_sequence = 0,
    tj_write_failed = False, tj_history = []\<rparr>"
  obtain v where "append_record encode (Created spec) ?j = (Inr v, j)"
    using assms s c by (auto simp: journal_create_def split: sum.splits prod.splits)
  then show ?thesis
    by (cases rule: append_record_cases)
      (use s in \<open>auto simp: journal_good_def replays_to_def journal_lines_def line_of_def encodes_def\<close>)
qed

lemma journal_in_use_good:
  "journal_in_use debug encode decode path j \<Longrightarrow> codec_ok encode decode (encodes encode) \<Longrightarrow>
   journal_good debug encode j"
proof (induction rule: journal_in_use.induct)
  case (created spec d j d')
  then show ?case by (blast intro: journal_create_good)
next
  case (operated j e r j')
  then show ?case by (blast intro: transition_good)
next
  case (reopened j d j' d')
  then have "journal_good debug encode j" by simp
  from reopen_journal [OF this reopened.prems reopened.hyps(2,3)] show ?case by auto
qed

section \<open>Properties\<close>

text \<open>C14 A task is accepted only on evidence. In any journal in use, whatever failed: an accepted
  task's last attempt has, for every criterion, exactly one snapshot of the artifact and exactly
  the expected content, and no receipt with an unknown outcome, and no attempt before it met that;
  there are never more attempts than the budget, each verification is a separate attempt with its
  own turn, and a task is out of budget only when every attempt was used and none was accepted.\<close>

theorem accepted_on_evidence:
  assumes "journal_in_use debug encode decode path j" and "codec_ok encode decode (encodes encode)"
  shows "let s = tj_state j; spec = ta_spec s; budget = max_attempts (sp_budget spec) in
    (ta_status s = Accepted \<longrightarrow>
       (\<exists>es e. ta_evidence s = es @ [e] \<and>
          (\<forall>c \<in> set (sp_criteria spec).
             map af_content (filter (\<lambda>a. af_id a = cr_artifact_id c) (at_artifacts e)) = [cr_expected c]) \<and>
          (\<forall>r \<in> set (at_receipts e). tr_status r \<noteq> Receipt_Unknown) \<and>
          (\<forall>e' \<in> set es. \<not> accepted_evidence e'))) \<and>
    length (ta_evidence s) \<le> unat (ta_attempts s) \<and> ta_attempts s \<le> budget \<and>
    distinct (map at_turn_id (ta_evidence s)) \<and>
    (ta_status s = BudgetExhausted \<longrightarrow> length (ta_evidence s) = unat budget \<and>
       (\<forall>e \<in> set (ta_evidence s). \<not> accepted_evidence e))"
proof -
  let ?s = "tj_state j"
  have ok: "acceptance_ok debug ?s"
    using journal_in_use_good [OF assms] replays_to_ok(1) by (auto simp: journal_good_def)
  have passed: "gate_passed c artifacts \<longleftrightarrow>
      map af_content (filter (\<lambda>a. af_id a = cr_artifact_id c) artifacts) = [cr_expected c]" for c artifacts
    by (cases "filter (\<lambda>a. af_id a = cr_artifact_id c) artifacts")
      (auto simp: gate_passed_def matching_artifacts_def Let_def)
  have accepted: "\<exists>es e. ta_evidence ?s = es @ [e] \<and>
      (\<forall>c \<in> set (sp_criteria (ta_spec ?s)).
         map af_content (filter (\<lambda>a. af_id a = cr_artifact_id c) (at_artifacts e)) = [cr_expected c]) \<and>
      (\<forall>r \<in> set (at_receipts e). tr_status r \<noteq> Receipt_Unknown) \<and> (\<forall>e' \<in> set es. \<not> accepted_evidence e')"
    if "ta_status ?s = Accepted"
  proof -
    have "ta_evidence ?s \<noteq> []" "accepted_evidence (last (ta_evidence ?s))"
      using ok that by (simp_all add: acceptance_ok_def verdict_ok_def)
    then obtain es e where es: "ta_evidence ?s = es @ [e]" "accepted_evidence e"
      by (metis append_butlast_last_id)
    moreover have "at_checks e = gate_check debug (ta_spec ?s) (at_artifacts e)"
      and "\<forall>e' \<in> set es. \<not> accepted_evidence e'"
      using ok es(1) by (auto simp: acceptance_ok_def evidence_ok_def)
    ultimately show ?thesis
      by (intro exI [of _ es] exI [of _ e])
        (auto simp: accepted_evidence_def gate_check_def list_all_iff Let_def passed)
  qed
  have "length (ta_evidence ?s) \<le> unat (ta_attempts ?s)"
    using ok by (auto simp: acceptance_ok_def attempts_ok_def split: acceptance_status.splits)
  moreover have "ta_attempts ?s \<le> max_attempts (sp_budget (ta_spec ?s))"
    using ok by (simp add: acceptance_ok_def attempts_ok_def)
  moreover have "distinct (map at_turn_id (ta_evidence ?s))"
    using ok by (simp add: acceptance_ok_def evidence_ok_def)
  moreover have "length (ta_evidence ?s) = unat (max_attempts (sp_budget (ta_spec ?s))) \<and>
      (\<forall>e \<in> set (ta_evidence ?s). \<not> accepted_evidence e)" if "ta_status ?s = BudgetExhausted"
    using ok that by (auto simp: acceptance_ok_def attempts_ok_def verdict_ok_def)
  ultimately show ?thesis using accepted by (simp add: Let_def)
qed

text \<open>A task ends: a journal never acknowledges more than \<open>2 * max_attempts + 2\<close> events, and once
  the task is accepted, out of budget or blocked every further event is refused and changes
  nothing.\<close>

theorem task_events_bounded:
  assumes "journal_in_use debug encode decode path j" and "codec_ok encode decode (encodes encode)"
  shows "length (tj_history j) \<le> 2 * unat (max_attempts (sp_budget (ta_spec (tj_state j)))) + 2 \<and>
    (ta_status (tj_state j) \<in> {Accepted, BudgetExhausted, Task_Blocked} \<longrightarrow>
       (\<forall>e. \<exists>x. transition debug encode e j = (Inl x, j)))"
proof -
  have rep: "replays_to debug (tj_history j) (tj_state j)"
    using journal_in_use_good [OF assms] by (simp add: journal_good_def)
  have "\<exists>x. transition debug encode e j = (Inl x, j)"
    if "ta_status (tj_state j) \<in> {Accepted, BudgetExhausted, Task_Blocked}" for e
  proof -
    have "event_allowance (tj_state j) = 0" using that by (auto simp: event_allowance_def Let_def)
    with task_events.exhausted [OF replays_to_ok(1) [OF rep]] obtain x where
      "apply_task_event debug e (tj_state j) = Inl x" by blast
    then show ?thesis by (simp add: transition_def)
  qed
  with replays_to_ok(2) [OF rep] show ?thesis by auto
qed

text \<open>A journal loses no acknowledged event. Reopening it, after any operations and any I/O
  failure, fails on I/O, refuses an unterminated tail that a failed write left, or finds exactly
  the state its users saw, or that state and the one event whose write was reported as failed. The
  live state never runs ahead of the file: after a failed write every change is refused.\<close>

theorem journal_reopens:
  assumes "journal_in_use debug encode decode path j" and "codec_ok encode decode (encodes encode)"
    and "bt_get (d_files d) path = Some (lf_bytes (tj_file j))"
    and "journal_open debug decode path d = (r, d')"
  shows "((\<exists>m. r = Inl (Task_Io m)) \<or>
      tj_write_failed j \<and>
        r = Inl (Task_Invalid ''empty or unterminated journal; inspect before recovery'') \<or>
      (\<exists>j'. r = Inr j' \<and> tj_state j' = tj_state j \<and> tj_history j' = tj_history j) \<or>
      tj_write_failed j \<and>
        (\<exists>j' e. r = Inr j' \<and> apply_task_event debug e (tj_state j) = Inr (tj_state j') \<and>
           tj_history j' = tj_history j @ [e])) \<and>
    (tj_write_failed j \<longrightarrow> (\<forall>e. \<exists>x. transition debug encode e j = (Inl x, j)))"
proof -
  have good: "journal_good debug encode j" using assms(1,2) by (rule journal_in_use_good)
  have "\<exists>x. transition debug encode e j = (Inl x, j)" if "tj_write_failed j" for e
    using that by (cases "apply_task_event debug e (tj_state j)")
      (auto simp: transition_def append_record_def act_defs)
  moreover from reopen_journal [OF good assms(2-4)]
  have "(\<exists>m. r = Inl (Task_Io m)) \<or>
      tj_write_failed j \<and>
        r = Inl (Task_Invalid ''empty or unterminated journal; inspect before recovery'') \<or>
      (\<exists>j'. r = Inr j' \<and> tj_state j' = tj_state j \<and> tj_history j' = tj_history j) \<or>
      tj_write_failed j \<and>
        (\<exists>j' e. r = Inr j' \<and> apply_task_event debug e (tj_state j) = Inr (tj_state j') \<and>
           tj_history j' = tj_history j @ [e])"
    by cases blast+
  ultimately show ?thesis by blast
qed

section \<open>A sample task\<close>

definition sample_spec :: task_spec where
  "sample_spec = \<lparr>sp_objective = ''o'',
     sp_criteria = [\<lparr>cr_id = ''c'', cr_artifact_id = ''a'', cr_expected = ''x''\<rparr>],
     sp_budget = \<lparr>max_attempts = 2\<rparr>\<rparr>"

definition sample_check :: task_event where
  "sample_check = AttemptChecked [\<lparr>af_id = ''a'', af_content = ''x''\<rparr>] []"

definition sample_journal_encode :: journal_encode where
  "sample_journal_encode r =
     (if r = journal_record_of 0 (Created sample_spec) then Inr ''{0}''
      else if r = journal_record_of 1 (AttemptStarted ''t'') then Inr ''{1}''
      else if r = journal_record_of 2 sample_check then Inr ''{2}''
      else Inl ''unsupported'')"

definition sample_journal_decode :: "string \<Rightarrow> journal_record decoded" where
  "sample_journal_decode l =
     (let s = (if terminated l then butlast l else l)
      in if s = ''{0}'' then Decoded (journal_record_of 0 (Created sample_spec))
         else if s = ''{1}'' then Decoded (journal_record_of 1 (AttemptStarted ''t''))
         else if s = ''{2}'' then Decoded (journal_record_of 2 sample_check)
         else Undecodable True ''EOF'')"

lemma sample_prefixes:
  assumes "''{'' @ [c] @ ''}'' = p @ q" and "p \<noteq> []" and "q \<noteq> []" and "c \<noteq> newline"
  shows "\<exists>m. sample_journal_decode p = Undecodable True m"
proof -
  from assms consider "p = ''{''" | "p = ''{'' @ [c]"
    by (cases p; cases "tl p"; cases "tl (tl p)") (auto simp: append_eq_Cons_conv)
  then show ?thesis using assms(4) by cases (simp_all add: sample_journal_decode_def terminated_def)
qed

lemma sample_journal_codec:
  "codec_ok sample_journal_encode sample_journal_decode (encodes sample_journal_encode)"
proof -
  have "\<exists>b. sample_journal_encode r = Inr b \<and> b \<noteq> [] \<and> newline \<notin> set b \<and>
      \<not> is_ascii_whitespace (hd b) \<and> sample_journal_decode b = Decoded r \<and>
      sample_journal_decode (b @ [newline]) = Decoded r \<and>
      (\<forall>p q. b = p @ q \<longrightarrow> p \<noteq> [] \<longrightarrow> q \<noteq> [] \<longrightarrow> (\<exists>m. sample_journal_decode p = Undecodable True m))"
    if "sample_journal_encode r = Inr b" for r b
  proof -
    have "b \<in> {''{0}'', ''{1}'', ''{2}''}"
      using that by (auto simp: sample_journal_encode_def split: if_splits)
    then have "\<exists>c. b = ''{'' @ [c] @ ''}'' \<and> c \<in> {CHR ''0'', CHR ''1'', CHR ''2''}" by auto
    then obtain c where c: "b = ''{'' @ [c] @ ''}''" "c \<in> {CHR ''0'', CHR ''1'', CHR ''2''}" by blast
    have "sample_journal_decode b = Decoded r" "sample_journal_decode (b @ [newline]) = Decoded r"
      using that c by (auto simp: sample_journal_encode_def sample_journal_decode_def terminated_def
          split: if_splits)
    moreover have "\<exists>m. sample_journal_decode p = Undecodable True m"
      if "b = p @ q" "p \<noteq> []" "q \<noteq> []" for p q
      using sample_prefixes [of c p q] that c by auto
    ultimately show ?thesis using that c by (auto simp: byte_def)
  qed
  then show ?thesis by (auto simp: codec_ok_def encodes_def)
qed

definition sample_create :: "(nat \<Rightarrow> io_outcome) \<Rightarrow> (task_error + task_journal) \<times> disk" where
  "sample_create io =
     journal_create sample_journal_encode ''task'' sample_spec \<lparr>d_files = [], d_host = sample_host io\<rparr>"

definition sample_steps :: "(nat \<Rightarrow> io_outcome) \<Rightarrow> task_journal" where
  "sample_steps io =
     (case fst (sample_create io) of
        Inr j \<Rightarrow>
          snd (verify_attempt id sample_journal_encode [\<lparr>af_id = ''a'', af_content = ''x''\<rparr>] []
            (snd (start_attempt id sample_journal_encode ''t'' j))))"

lemmas sample_journal_defs = sample_steps_def sample_create_def journal_create_def initial_state_def
  sample_spec_def create_new_def disk_io_def io_step_def sample_host_def act_defs append_record_def
  write_all_def sync_file_def sample_journal_encode_def journal_record_of_def put_file_def
  verify_attempt_def start_attempt_def transition_def apply_task_event_def sample_check_def
  gate_check_def gate_passed_def matching_artifacts_def blank_def trim_def trim_end_def ws1_def ws2_def
  ws3_def byte_def Let_def

lemma sample_created:
  assumes "\<And>n. n < 3 \<Longrightarrow> io n = Io_ok"
  shows "\<exists>j d'. sample_create io = (Inr j, d')"
proof -
  have "io 0 = Io_ok" "io (Suc 0) = Io_ok" "io (Suc (Suc 0)) = Io_ok" using assms by simp_all
  then show ?thesis by (simp add: sample_journal_defs)
qed

lemma sample_steps_in_use:
  assumes "\<And>n. n < 3 \<Longrightarrow> io n = Io_ok"
  shows "journal_in_use id sample_journal_encode sample_journal_decode ''task'' (sample_steps io)"
proof -
  obtain j d' where j: "sample_create io = (Inr j, d')" using sample_created assms by blast
  then have "journal_in_use id sample_journal_encode sample_journal_decode ''task'' j"
    unfolding sample_create_def by (rule journal_in_use.created)
  then have "journal_in_use id sample_journal_encode sample_journal_decode ''task''
      (snd (transition id sample_journal_encode e (snd (transition id sample_journal_encode e' j))))" for e e'
    by (metis journal_in_use.operated prod.collapse)
  then show ?thesis by (simp add: sample_steps_def j verify_attempt_def start_attempt_def)
qed

lemma sample_accepted:
  "ta_status (tj_state (sample_steps (\<lambda>_. Io_ok))) = Accepted"
  by (simp add: sample_journal_defs)

theorem accepted_on_evidence_witness:
  "journal_in_use id sample_journal_encode sample_journal_decode ''task'' (sample_steps (\<lambda>_. Io_ok)) \<and>
   (\<exists>es e. ta_evidence (tj_state (sample_steps (\<lambda>_. Io_ok))) = es @ [e])"
proof -
  have use: "journal_in_use id sample_journal_encode sample_journal_decode ''task'' (sample_steps (\<lambda>_. Io_ok))"
    by (rule sample_steps_in_use) simp_all
  from accepted_on_evidence [OF use sample_journal_codec] sample_accepted use show ?thesis
    by (auto simp: Let_def)
qed

theorem task_events_bounded_witness:
  "\<exists>x. transition id sample_journal_encode (AttemptStarted ''u'') (sample_steps (\<lambda>_. Io_ok)) =
     (Inl x, sample_steps (\<lambda>_. Io_ok))"
proof -
  have use: "journal_in_use id sample_journal_encode sample_journal_decode ''task'' (sample_steps (\<lambda>_. Io_ok))"
    by (rule sample_steps_in_use) simp_all
  from task_events_bounded [OF use sample_journal_codec] sample_accepted show ?thesis by auto
qed

text \<open>The disk is full when the second event is written.\<close>

definition sample_full :: "nat \<Rightarrow> io_outcome" where
  "sample_full n = (if n = 3 then Io_error ''No space left'' 1 else Io_ok)"

definition sample_torn_disk :: disk where
  "sample_torn_disk = \<lparr>d_files = [(''task'', lf_bytes (tj_file (sample_steps sample_full)))],
     d_host = sample_host (\<lambda>_. Io_ok)\<rparr>"

lemma sample_torn:
  "tj_write_failed (sample_steps sample_full)"
  "fst (journal_open id sample_journal_decode ''task'' sample_torn_disk) =
     Inl (Task_Invalid ''empty or unterminated journal; inspect before recovery'')"
  by (simp_all add: sample_torn_disk_def sample_full_def journal_open_def sample_journal_defs)

theorem journal_reopens_witness:
  "tj_write_failed (sample_steps sample_full) \<and>
   (\<forall>e. \<exists>x. transition id sample_journal_encode e (sample_steps sample_full) =
      (Inl x, sample_steps sample_full))"
proof -
  have use: "journal_in_use id sample_journal_encode sample_journal_decode ''task'' (sample_steps sample_full)"
    by (rule sample_steps_in_use) (simp_all add: sample_full_def)
  obtain r d' where run: "journal_open id sample_journal_decode ''task'' sample_torn_disk = (r, d')"
    by fastforce
  have "bt_get (d_files sample_torn_disk) ''task'' = Some (lf_bytes (tj_file (sample_steps sample_full)))"
    by (simp add: sample_torn_disk_def)
  from journal_reopens [OF use sample_journal_codec this run] sample_torn(1) show ?thesis by blast
qed

end
