(* ===== verification/Paths.thy ===== *)
theory Paths
  imports Prelude "HOL-Library.Sublist"
begin

text \<open>
  File system paths and the queries the sources make of a file system. A \<open>Path\<close> that the sources
  build or compare is its list of components, absolute; the file system itself is a parameter: what
  a path resolves to, what is there and what it reads.
\<close>

section \<open>Paths\<close>

type_synonym path = "string list"

abbreviation slash :: char where
  "slash \<equiv> CHR ''/''"

fun split_on :: "char \<Rightarrow> string \<Rightarrow> string list" where
  "split_on c [] = [[]]"
| "split_on c (x # s) =
     (if x = c then [] # split_on c s
      else case split_on c s of [] \<Rightarrow> [[x]] | p # ps \<Rightarrow> (x # p) # ps)"

text \<open>\<open>components()\<close> drops empty components and \<open>.\<close> ones.\<close>

definition path_components :: "string \<Rightarrow> path" where
  "path_components s = filter (\<lambda>p. p \<noteq> [] \<and> p \<noteq> ''.'') (split_on slash s)"

text \<open>\<open>directory.join(name)\<close>: an absolute name replaces the directory.\<close>

definition path_join :: "path \<Rightarrow> string \<Rightarrow> path" where
  "path_join dir name =
     (if name \<noteq> [] \<and> hd name = slash then path_components name else dir @ path_components name)"

definition path_display :: "path \<Rightarrow> string" where
  "path_display p = slash # join [slash] p"

definition path_relative :: "path \<Rightarrow> string" where
  "path_relative p = join [slash] p"

definition path_starts_with :: "path \<Rightarrow> path \<Rightarrow> bool" where
  "path_starts_with p root \<longleftrightarrow> take (length root) p = root"

lemma path_starts_with_prefix: "path_starts_with p root \<longleftrightarrow> prefix root p"
  unfolding path_starts_with_def by (metis append_eq_conv_conj prefix_def take_is_prefix)

definition path_parent :: "path \<Rightarrow> path option" where
  "path_parent p = (if p = [] then None else Some (butlast p))"

section \<open>The file system\<close>

record filesystem =
  fs_canonicalize :: "path \<Rightarrow> string + path" \<comment> \<open>the error's text, or the real path\<close>
  fs_is_dir :: "path \<Rightarrow> bool"
  fs_is_file :: "path \<Rightarrow> bool"
  fs_read :: "path \<Rightarrow> string + string" \<comment> \<open>\<open>read_to_string\<close>\<close>

end
