(* ===== verification/Context.thy ===== *)
theory Context
  imports Protocol Paths
begin

text \<open>
  Context compilation, crates/harness-core/src/context.rs: the layered compiler with its character
  budget, and the loader of rule files from the project root down to the current directory. The
  JSON rendering of transcript messages and the file system are parameters.
\<close>

section \<open>The layered compiler\<close>

record layered_compiler =
  lc_segments :: "prompt_segment list"
  lc_max_characters :: "nat option"

definition layered_new :: layered_compiler where
  "layered_new = \<lparr>lc_segments = [], lc_max_characters = None\<rparr>"

definition with_segment :: "layered_compiler \<Rightarrow> prompt_segment \<Rightarrow> layered_compiler" where
  "with_segment c segment = c\<lparr>lc_segments := lc_segments c @ [segment]\<rparr>"

definition with_segments :: "layered_compiler \<Rightarrow> prompt_segment list \<Rightarrow> layered_compiler" where
  "with_segments c segments = c\<lparr>lc_segments := lc_segments c @ segments\<rparr>"

definition with_max_characters :: "layered_compiler \<Rightarrow> nat \<Rightarrow> layered_compiler" where
  "with_max_characters c maximum = c\<lparr>lc_max_characters := Some maximum\<rparr>"

definition context_size ::
  "(transcript_message \<Rightarrow> string + string) \<Rightarrow> prompt_segment list \<Rightarrow> transcript_message list \<Rightarrow> nat" where
  "context_size to_string segments transcript =
     (\<Sum>s \<leftarrow> segments. length (ps_text s))
     + (\<Sum>m \<leftarrow> transcript. case to_string m of Inr text \<Rightarrow> length text | Inl _ \<Rightarrow> 0)"

definition layered_compile ::
  "(transcript_message \<Rightarrow> string + string) \<Rightarrow> layered_compiler \<Rightarrow> context_input \<Rightarrow>
   context_error + compiled_context" where
  "layered_compile to_string c input =
     (let actual = context_size to_string (lc_segments c) (ci_transcript input)
      in case lc_max_characters c of
           Some maximum \<Rightarrow>
             if maximum < actual then Inl (TooLarge actual maximum)
             else Inr \<lparr>cc_prompt = lc_segments c, cc_messages = ci_transcript input\<rparr>
         | None \<Rightarrow> Inr \<lparr>cc_prompt = lc_segments c, cc_messages = ci_transcript input\<rparr>)"

section \<open>Rule files\<close>

record rule_loader =
  rl_file_names :: "string list"

definition default_loader :: rule_loader where
  "default_loader = \<lparr>rl_file_names = [''AGENTS.override.md'', ''AGENTS.md'']\<rparr>"

definition canonical_directory :: "filesystem \<Rightarrow> path \<Rightarrow> context_error + path" where
  "canonical_directory fs p =
     (case fs_canonicalize fs p of
        Inl e \<Rightarrow> Inl (Path_Error (path_display p @ '': '' @ e))
      | Inr canonical \<Rightarrow>
          if fs_is_dir fs canonical then Inr canonical
          else Inl (Path_Error (''`'' @ path_display canonical @ ''` is not a directory'')))"

text \<open>The loop that climbs from the current directory to the root.\<close>

function climb :: "path \<Rightarrow> path \<Rightarrow> context_error + path list" where
  "climb root cursor =
     (if cursor = root then Inr [cursor]
      else case path_parent cursor of
        None \<Rightarrow> Inl (Path_Error ''project root was not found while walking parents'')
      | Some parent \<Rightarrow>
          (case climb root parent of Inl e \<Rightarrow> Inl e | Inr dirs \<Rightarrow> Inr (cursor # dirs)))"
  by pat_completeness auto

termination
  by (relation "measure (\<lambda>(root, cursor). length cursor)")
    (auto simp: path_parent_def split: if_splits)

declare climb.simps [simp del]

definition rule_file :: "filesystem \<Rightarrow> rule_loader \<Rightarrow> path \<Rightarrow> path option" where
  "rule_file fs loader directory =
     find (fs_is_file fs) (map (path_join directory) (rl_file_names loader))"

text \<open>One directory: no rule file, an error, or a segment.\<close>

definition load_rule ::
  "filesystem \<Rightarrow> rule_loader \<Rightarrow> path \<Rightarrow> path \<Rightarrow> context_error + prompt_segment option" where
  "load_rule fs loader root directory =
     (case rule_file fs loader directory of
        None \<Rightarrow> Inr None
      | Some p \<Rightarrow>
          (case fs_canonicalize fs p of
             Inl e \<Rightarrow> Inl (Path_Error (path_display p @ '': '' @ e))
           | Inr canonical \<Rightarrow>
               if \<not> path_starts_with canonical root
               then Inl (Path_Error (''rule file `'' @ path_display p @ ''` resolves outside project root''))
               else case fs_read fs canonical of
                 Inl e \<Rightarrow> Inl (Read_Error (path_display canonical @ '': '' @ e))
               | Inr text \<Rightarrow>
                   Inr (Some \<lparr>ps_layer = Rules,
                     ps_name = path_relative (drop (length root) canonical), ps_text = text\<rparr>)))"

fun load_rules ::
  "filesystem \<Rightarrow> rule_loader \<Rightarrow> path \<Rightarrow> path list \<Rightarrow> context_error + prompt_segment list" where
  "load_rules fs loader root [] = Inr []"
| "load_rules fs loader root (d # ds) =
     (case load_rule fs loader root d of
        Inl e \<Rightarrow> Inl e
      | Inr found \<Rightarrow>
          (case load_rules fs loader root ds of
             Inl e \<Rightarrow> Inl e
           | Inr segments \<Rightarrow>
               Inr (case found of None \<Rightarrow> segments | Some segment \<Rightarrow> segment # segments)))"

definition rule_loader_load ::
  "filesystem \<Rightarrow> rule_loader \<Rightarrow> path \<Rightarrow> path \<Rightarrow> context_error + prompt_segment list" where
  "rule_loader_load fs loader project_root current_directory =
     (case canonical_directory fs project_root of
        Inl e \<Rightarrow> Inl e
      | Inr root \<Rightarrow>
          (case canonical_directory fs current_directory of
             Inl e \<Rightarrow> Inl e
           | Inr current \<Rightarrow>
               if \<not> path_starts_with current root
               then Inl (Path_Error (''current directory `'' @ path_display current
                 @ ''` is outside project root `'' @ path_display root @ ''`''))
               else case climb root current of
                 Inl e \<Rightarrow> Inl e
               | Inr directories \<Rightarrow> load_rules fs loader root (rev directories)))"

section \<open>Properties of the rule loader\<close>

text \<open>The climb visits every directory between the two, so its error cannot occur.\<close>

lemma climb_prefix: "climb root (root @ ds) = Inr (map (\<lambda>n. root @ take n ds) (rev [0..<Suc (length ds)]))"
proof (induction ds rule: rev_induct)
  case Nil
  then show ?case by (simp add: climb.simps)
next
  case (snoc d ds)
  have "root @ ds @ [d] \<noteq> root" by simp
  moreover have "path_parent (root @ ds @ [d]) = Some (root @ ds)"
    by (simp add: path_parent_def butlast_append)
  ultimately have "climb root (root @ ds @ [d]) =
      (case climb root (root @ ds) of Inl e \<Rightarrow> Inl e | Inr dirs \<Rightarrow> Inr ((root @ ds @ [d]) # dirs))"
    by (subst climb.simps) simp
  then show ?case by (simp add: snoc.IH)
qed

lemma load_rules_map:
  "load_rules fs loader root ds = Inr segments \<Longrightarrow>
   \<exists>founds. map (load_rule fs loader root) ds = map Inr founds \<and>
     segments = List.map_filter (\<lambda>x. x) founds"
proof (induction ds arbitrary: segments)
  case Nil
  then show ?case by (simp add: map_filter_simps)
next
  case (Cons d ds)
  then obtain found rest where f: "load_rule fs loader root d = Inr found"
    and r: "load_rules fs loader root ds = Inr rest"
    and s: "segments = (case found of None \<Rightarrow> rest | Some x \<Rightarrow> x # rest)"
    by (auto split: sum.splits)
  from Cons.IH [OF r] obtain founds where
    "map (load_rule fs loader root) ds = map Inr founds" "rest = List.map_filter (\<lambda>x. x) founds" by blast
  with f s show ?case
    by (intro exI [of _ "found # founds"]) (auto simp: map_filter_simps split: option.splits)
qed

lemma find_first:
  "find P xs = Some x \<Longrightarrow> \<exists>ys zs. xs = ys @ x # zs \<and> P x \<and> (\<forall>y \<in> set ys. \<not> P y)"
proof (induction xs)
  case (Cons y xs)
  then show ?case
    by (cases "P y") (force intro: exI [of _ "[]"] exI [of _ "y # _"])+
qed simp

text \<open>What one directory contributes.\<close>

definition rule_of ::
  "filesystem \<Rightarrow> rule_loader \<Rightarrow> path \<Rightarrow> path \<Rightarrow> prompt_segment option \<Rightarrow> bool" where
  "rule_of fs loader root dir found \<longleftrightarrow>
     (case found of
        None \<Rightarrow> \<forall>name \<in> set (rl_file_names loader). \<not> fs_is_file fs (path_join dir name)
      | Some segment \<Rightarrow>
          \<exists>before name after rest.
            rl_file_names loader = before @ name # after \<and> fs_is_file fs (path_join dir name) \<and>
            (\<forall>name' \<in> set before. \<not> fs_is_file fs (path_join dir name')) \<and>
            fs_canonicalize fs (path_join dir name) = Inr (root @ rest) \<and>
            fs_read fs (root @ rest) = Inr (ps_text segment) \<and>
            ps_layer segment = Rules \<and> ps_name segment = path_relative rest)"

lemma load_rule_of:
  assumes "load_rule fs loader root dir = Inr found"
  shows "rule_of fs loader root dir found"
proof (cases "rule_file fs loader dir")
  case None
  with assms have "found = None" by (simp add: load_rule_def)
  with None show ?thesis by (auto simp: rule_of_def rule_file_def find_None_iff)
next
  case (Some p)
  from find_first [OF Some [unfolded rule_file_def]]
  obtain ys zs where split: "map (path_join dir) (rl_file_names loader) = ys @ p # zs"
    and p: "fs_is_file fs p" "\<forall>y \<in> set ys. \<not> fs_is_file fs y"
    by (elim exE conjE)
  from split [unfolded map_eq_append_conv] obtain before others
    where "rl_file_names loader = before @ others \<and> ys = map (path_join dir) before \<and>
      p # zs = map (path_join dir) others" by (elim exE)
  then have ys: "ys = map (path_join dir) before" and "p # zs = map (path_join dir) others"
    and "rl_file_names loader = before @ others" by simp_all
  then obtain name after where names: "rl_file_names loader = before @ name # after" "p = path_join dir name"
    by (cases others) simp_all
  from assms Some obtain canonical body where c: "fs_canonicalize fs p = Inr canonical"
    "path_starts_with canonical root" "fs_read fs canonical = Inr body"
    "found = Some \<lparr>ps_layer = Rules, ps_name = path_relative (drop (length root) canonical), ps_text = body\<rparr>"
    by (auto simp: load_rule_def split: sum.splits if_splits)
  then obtain rest where rest: "canonical = root @ rest" by (auto simp: path_starts_with_prefix prefix_def)
  show ?thesis
    unfolding rule_of_def c(4) option.case
    by (intro exI [of _ before] exI [of _ name] exI [of _ after] exI [of _ rest])
      (use names ys p c rest in auto)
qed

text \<open>No error of a load says that the climb missed the root.\<close>

abbreviation root_missed :: context_error where
  "root_missed \<equiv> Path_Error ''project root was not found while walking parents''"

lemma load_rules_error: "load_rules fs loader root dirs = Inl x \<Longrightarrow> x \<noteq> root_missed"
  by (induction dirs) (auto simp: load_rule_def path_display_def split: sum.splits option.splits if_splits)

lemma canonical_directory_error: "canonical_directory fs p = Inl x \<Longrightarrow> x \<noteq> root_missed"
  by (auto simp: canonical_directory_def path_display_def split: sum.splits if_splits)

lemma rule_loader_error:
  assumes "rule_loader_load fs loader project_root current_directory = Inl e"
  shows "e \<noteq> root_missed"
proof -
  consider x where "canonical_directory fs project_root = Inl x"
    | root x where "canonical_directory fs project_root = Inr root" "canonical_directory fs current_directory = Inl x"
    | root current where "canonical_directory fs project_root = Inr root"
        "canonical_directory fs current_directory = Inr current"
    by (meson sum.exhaust)
  then show ?thesis
  proof cases
    case (3 root current)
    show ?thesis
    proof (cases "path_starts_with current root")
      case True
      then obtain ds where "current = root @ ds" by (auto simp: path_starts_with_prefix prefix_def)
      with 3 assms True load_rules_error show ?thesis by (auto simp: rule_loader_load_def climb_prefix)
    qed (use 3 assms in \<open>auto simp: rule_loader_load_def\<close>)
  qed (use assms canonical_directory_error in \<open>auto simp: rule_loader_load_def\<close>)
qed

text \<open>Directory by directory.\<close>

lemma load_rules_listed:
  assumes "load_rules fs loader root (map (\<lambda>n. root @ take n ds) [0..<Suc (length ds)]) = Inr segments"
  obtains founds where "list_all2 (\<lambda>n. rule_of fs loader root (root @ take n ds)) [0..<Suc (length ds)] founds"
    and "segments = List.map_filter (\<lambda>x. x) founds"
proof -
  obtain founds where founds: "map (load_rule fs loader root) (map (\<lambda>n. root @ take n ds) [0..<Suc (length ds)]) =
      map Inr founds" and segments: "segments = List.map_filter (\<lambda>x. x) founds"
    using load_rules_map [OF assms] by blast
  have len: "length founds = Suc (length ds)" using arg_cong [OF founds, of length] by simp
  have "rule_of fs loader root (root @ take n ds) (founds ! n)" if n: "n < Suc (length ds)" for n
  proof -
    have "load_rule fs loader root (root @ take n ds) = Inr (founds ! n)"
      using arg_cong [OF founds, of "\<lambda>xs. xs ! n"] n len by (simp del: upt_Suc)
    then show ?thesis by (rule load_rule_of)
  qed
  then have "list_all2 (\<lambda>n. rule_of fs loader root (root @ take n ds)) [0..<Suc (length ds)] founds"
    using len by (intro list_all2_all_nthI) (simp_all del: upt_Suc)
  then show thesis using segments by (rule that)
qed

text \<open>C15 Rules are confined and ordered: loading reads one rule file per directory at most, from the
  project root down to the current directory in that order; within a directory the first file name
  of the list that exists shadows the others; and every text that is loaded comes from a real path
  inside the project root, whatever links the file system has. If the current directory is not
  inside the root nothing is read, and the walk up to the root never misses it.\<close>

theorem rules_confined:
  assumes "rule_loader_load fs loader project_root current_directory = r"
  shows "case r of
      Inl e \<Rightarrow> e \<noteq> Path_Error ''project root was not found while walking parents''
    | Inr segments \<Rightarrow>
        \<exists>root ds founds.
          fs_canonicalize fs project_root = Inr root \<and>
          fs_canonicalize fs current_directory = Inr (root @ ds) \<and>
          list_all2 (\<lambda>n. rule_of fs loader root (root @ take n ds)) [0..<Suc (length ds)] founds \<and>
          segments = List.map_filter (\<lambda>x. x) founds"
proof (cases r)
  case (Inl e)
  with assms rule_loader_error show ?thesis by auto
next
  case (Inr segments)
  with assms obtain root current dirs where root: "canonical_directory fs project_root = Inr root"
    and current: "canonical_directory fs current_directory = Inr current"
    and inside: "path_starts_with current root" and dirs: "climb root current = Inr dirs"
    and load: "load_rules fs loader root (rev dirs) = Inr segments"
    by (auto simp: rule_loader_load_def split: sum.splits if_splits)
  from inside obtain ds where ds: "current = root @ ds" by (auto simp: path_starts_with_prefix prefix_def)
  have "rev dirs = map (\<lambda>n. root @ take n ds) [0..<Suc (length ds)]"
    using dirs climb_prefix [of root ds] by (auto simp: ds rev_map)
  then obtain founds where
    "list_all2 (\<lambda>n. rule_of fs loader root (root @ take n ds)) [0..<Suc (length ds)] founds"
    "segments = List.map_filter (\<lambda>x. x) founds"
    using load load_rules_listed by metis
  moreover have "fs_canonicalize fs project_root = Inr root"
    "fs_canonicalize fs current_directory = Inr (root @ ds)"
    using root current ds by (auto simp: canonical_directory_def split: sum.splits if_splits)
  ultimately show ?thesis using Inr by auto
qed

definition sample_fs :: filesystem where
  "sample_fs = \<lparr>fs_canonicalize = Inr, fs_is_dir = (\<lambda>p. p \<in> {[''p''], [''p'', ''src'']}),
     fs_is_file = (\<lambda>p. p \<in> {[''p'', ''AGENTS.md''], [''p'', ''src'', ''AGENTS.md''],
       [''p'', ''src'', ''AGENTS.override.md'']}),
     fs_read = (\<lambda>p. Inr (path_display p))\<rparr>"

lemma sample_rules:
  "rule_loader_load sample_fs default_loader [''p''] [''p'', ''src''] =
     Inr [\<lparr>ps_layer = Rules, ps_name = ''AGENTS.md'', ps_text = ''/p/AGENTS.md''\<rparr>,
       \<lparr>ps_layer = Rules, ps_name = ''src/AGENTS.override.md'', ps_text = ''/p/src/AGENTS.override.md''\<rparr>]"
  by (simp add: rule_loader_load_def canonical_directory_def sample_fs_def default_loader_def
      path_starts_with_def climb.simps path_parent_def load_rule_def rule_file_def path_join_def
      path_components_def path_relative_def path_display_def)

theorem rules_confined_witness:
  "\<exists>root ds founds. fs_canonicalize sample_fs [''p''] = Inr root \<and>
     fs_canonicalize sample_fs [''p'', ''src''] = Inr (root @ ds) \<and>
     list_all2 (\<lambda>n. rule_of sample_fs default_loader root (root @ take n ds)) [0..<Suc (length ds)] founds \<and>
     length (List.map_filter (\<lambda>x. x) founds) = 2"
  using rules_confined [OF sample_rules] by (fastforce dest: arg_cong [where f = length])

end
