(* ===== verification/FsContext.thy ===== *)
theory FsContext
  imports TextLog Context
begin

text \<open>
  The file system context, crates/context-fs/src/lib.rs: the catalog of skills found under the skill
  roots, the prompt compiled from rules and skills, and the window over the transcript that keeps
  an assistant message together with the receipts of its calls. The file system and the debug
  rendering of messages are parameters.
\<close>

section \<open>Skills\<close>

record skill_info =
  sk_name :: string
  sk_summary :: string
  sk_path :: path

datatype fs_context_error =
    Fs_Io string
  | UnknownSkill string

fun fs_context_error_text :: "fs_context_error \<Rightarrow> string" where
  [display]: "fs_context_error_text (Fs_Io e) = ''filesystem context I/O error: '' @ e"
| "fs_context_error_text (UnknownSkill s) = ''selected skill `'' @ s @ ''` was not found''"

text \<open>What the catalog asks of the directories: whether a root is there, and its entries, each of which
  may fail to be read.\<close>

record directories =
  dr_exists :: "path \<Rightarrow> bool"
  dr_entries :: "path \<Rightarrow> string + (string + path) list"

definition lines_of :: "string \<Rightarrow> string list" where
  "lines_of txt = map strip_eol (split_lines txt)"

definition trim_quotes :: "string \<Rightarrow> string" where
  "trim_quotes s =
     (let quote = (\<lambda>c. c = CHR 0x27 \<or> c = CHR 0x22) in rev (dropWhile quote (rev (dropWhile quote s))))"

abbreviation fence :: string where
  "fence \<equiv> ''---''"

fun frontmatter_search :: "string \<Rightarrow> string list \<Rightarrow> string option" where
  "frontmatter_search key [] = None"
| "frontmatter_search key (l # ls) =
     (if trim l = fence then None
      else case strip_prefix (key @ '':'') (trim l) of
        Some v \<Rightarrow> Some (trim_quotes (trim v))
      | None \<Rightarrow> frontmatter_search key ls)"

definition frontmatter_value :: "string \<Rightarrow> string \<Rightarrow> string option" where
  "frontmatter_value txt key =
     (case lines_of txt of
        [] \<Rightarrow> None
      | l # ls \<Rightarrow> if trim l \<noteq> fence then None else frontmatter_search key ls)"

definition skip_frontmatter :: "string list \<Rightarrow> string list" where
  "skip_frontmatter ls =
     (case ls of
        [] \<Rightarrow> []
      | l # ls' \<Rightarrow> if trim l = fence then drop 1 (dropWhile (\<lambda>l. trim l \<noteq> fence) ls') else ls)"

definition first_prose_line :: "string \<Rightarrow> string option" where
  "first_prose_line txt =
     find (\<lambda>l. l \<noteq> [] \<and> hd l \<noteq> CHR ''#'') (map trim (skip_frontmatter (lines_of txt)))"

text \<open>\<open>Path::extension\<close> and \<open>file_stem\<close>: after and before the last dot, unless that is the first
  character or the name is \<open>..\<close>.\<close>

definition split_extension :: "string \<Rightarrow> string \<times> string option" where
  "split_extension name =
     (let after = takeWhile (\<lambda>c. c \<noteq> CHR ''.'') (rev name);
          before = drop (Suc (length after)) (rev name)
      in if name = ''..'' \<or> CHR ''.'' \<notin> set name \<or> before = [] then (name, None)
         else (rev before, Some (rev after)))"

definition file_name :: "path \<Rightarrow> string option" where
  "file_name p = (if p = [] \<or> last p = ''..'' then None else Some (last p))"

definition utf8_str :: "string option \<Rightarrow> string option" where
  "utf8_str s = (case s of Some x \<Rightarrow> if valid_utf8 x then Some x else None | None \<Rightarrow> None)"

definition path_extension :: "path \<Rightarrow> string option" where
  "path_extension p = (case file_name p of None \<Rightarrow> None | Some n \<Rightarrow> snd (split_extension n))"

definition path_stem :: "path \<Rightarrow> string option" where
  "path_stem p = (case file_name p of None \<Rightarrow> None | Some n \<Rightarrow> Some (fst (split_extension n)))"

definition or_else :: "'a option \<Rightarrow> 'a option \<Rightarrow> 'a option" where
  "or_else a b = (case a of Some x \<Rightarrow> Some x | None \<Rightarrow> b)"

definition skill_fallback :: "path \<Rightarrow> string" where
  "skill_fallback p =
     (case utf8_str (or_else (case path_parent p of None \<Rightarrow> None | Some d \<Rightarrow> file_name d) (path_stem p)) of
        Some n \<Rightarrow> n
      | None \<Rightarrow> ''skill'')"

definition skill_of :: "path \<Rightarrow> string \<Rightarrow> skill_info" where
  "skill_of p txt =
     \<lparr>sk_name = (case frontmatter_value txt ''name'' of Some n \<Rightarrow> n | None \<Rightarrow> skill_fallback p),
      sk_summary = (case or_else (frontmatter_value txt ''description'') (first_prose_line txt) of
        Some s \<Rightarrow> s | None \<Rightarrow> ''No description provided''),
      sk_path = p\<rparr>"

text \<open>The file an entry of a root stands for, if it is a skill.\<close>

definition skill_path_of :: "filesystem \<Rightarrow> path \<Rightarrow> path option" where
  "skill_path_of fs entry =
     (case (if fs_is_dir fs entry then Some (path_join entry ''SKILL.md'')
            else if utf8_str (path_extension entry) = Some ''md'' then Some entry else None) of
        None \<Rightarrow> None
      | Some p \<Rightarrow> if fs_is_file fs p then Some p else None)"

fun scan_entries ::
  "filesystem \<Rightarrow> (string + path) list \<Rightarrow> fs_context_error + skill_info list" where
  "scan_entries fs [] = Inr []"
| "scan_entries fs (Inl e # entries) = Inl (Fs_Io e)"
| "scan_entries fs (Inr entry # entries) =
     (case skill_path_of fs entry of
        None \<Rightarrow> scan_entries fs entries
      | Some p \<Rightarrow>
          (case fs_read fs p of
             Inl e \<Rightarrow> Inl (Fs_Io (path_display p @ '': '' @ e))
           | Inr txt \<Rightarrow>
               (case scan_entries fs entries of
                  Inl x \<Rightarrow> Inl x
                | Inr skills \<Rightarrow> Inr (skill_of p txt # skills))))"

fun scan_roots ::
  "filesystem \<Rightarrow> directories \<Rightarrow> path list \<Rightarrow> fs_context_error + skill_info list" where
  "scan_roots fs dirs [] = Inr []"
| "scan_roots fs dirs (root # roots) =
     (if \<not> dr_exists dirs root then scan_roots fs dirs roots
      else case dr_entries dirs root of
        Inl e \<Rightarrow> Inl (Fs_Io (path_display root @ '': '' @ e))
      | Inr entries \<Rightarrow>
          (case scan_entries fs entries of
             Inl x \<Rightarrow> Inl x
           | Inr found \<Rightarrow>
               (case scan_roots fs dirs roots of
                  Inl x \<Rightarrow> Inl x
                | Inr rest \<Rightarrow> Inr (found @ rest))))"

text \<open>\<open>dedup_by\<close> drops each element that equals the last one kept.\<close>

fun dedup_by :: "('a \<Rightarrow> 'b) \<Rightarrow> 'a list \<Rightarrow> 'a list" where
  "dedup_by f [] = []"
| "dedup_by f [x] = [x]"
| "dedup_by f (x # y # xs) = (if f x = f y then dedup_by f (x # xs) else x # dedup_by f (y # xs))"

definition skill_scan :: "filesystem \<Rightarrow> directories \<Rightarrow> path list \<Rightarrow> fs_context_error + skill_info list" where
  "skill_scan fs dirs roots =
     (case scan_roots fs dirs roots of
        Inl x \<Rightarrow> Inl x
      | Inr skills \<Rightarrow> Inr (dedup_by sk_name (sort_key sk_name skills)))"

section \<open>The prompt\<close>

record fs_config =
  fc_project_root :: path
  fc_current_directory :: path
  fc_skill_roots :: "path list"
  fc_selected_skills :: "string list" \<comment> \<open>a \<open>BTreeSet\<close>\<close>
  fc_stable :: "prompt_segment list"
  fc_volatile :: "prompt_segment list"
  fc_max_groups :: "nat option"
  fc_max_characters :: "nat option"

definition fs_config_new :: "path \<Rightarrow> path \<Rightarrow> fs_config" where
  "fs_config_new project_root current_directory =
     \<lparr>fc_project_root = project_root, fc_current_directory = current_directory, fc_skill_roots = [],
      fc_selected_skills = [], fc_stable = [], fc_volatile = [], fc_max_groups = None,
      fc_max_characters = None\<rparr>"

definition skill_index :: "skill_info list \<Rightarrow> prompt_segment list" where
  "skill_index skills =
     (if skills = [] then []
      else [\<lparr>ps_layer = Skills, ps_name = ''skill-index'',
         ps_text = ''Available skills:'' @ [newline]
           @ join [newline] (map (\<lambda>s. ''- '' @ sk_name s @ '': '' @ sk_summary s) skills)\<rparr>])"

fun selected_segments ::
  "filesystem \<Rightarrow> skill_info list \<Rightarrow> string list \<Rightarrow> fs_context_error + prompt_segment list" where
  "selected_segments fs skills [] = Inr []"
| "selected_segments fs skills (name # names) =
     (case find (\<lambda>s. sk_name s = name) skills of
        None \<Rightarrow> Inl (UnknownSkill name)
      | Some skill \<Rightarrow>
          (case fs_read fs (sk_path skill) of
             Inl e \<Rightarrow> Inl (Fs_Io (path_display (sk_path skill) @ '': '' @ e))
           | Inr content \<Rightarrow>
               (case selected_segments fs skills names of
                  Inl x \<Rightarrow> Inl x
                | Inr segments \<Rightarrow>
                    Inr (\<lparr>ps_layer = Skills, ps_name = ''skill:'' @ sk_name skill, ps_text = content\<rparr>
                      # segments))))"

definition compile_prompt ::
  "filesystem \<Rightarrow> directories \<Rightarrow> rule_loader \<Rightarrow> fs_config \<Rightarrow> fs_context_error + prompt_segment list" where
  "compile_prompt fs dirs loader config =
     (case rule_loader_load fs loader (fc_project_root config) (fc_current_directory config) of
        Inl e \<Rightarrow> Inl (Fs_Io (context_error_text e))
      | Inr rules \<Rightarrow>
          (case skill_scan fs dirs (fc_skill_roots config) of
             Inl x \<Rightarrow> Inl x
           | Inr skills \<Rightarrow>
               (case selected_segments fs skills (fc_selected_skills config) of
                  Inl x \<Rightarrow> Inl x
                | Inr selected \<Rightarrow>
                    Inr (fc_stable config @ rules @ skill_index skills @ selected @ fc_volatile config))))"

section \<open>The transcript window\<close>

fun expected_receipts :: "transcript_message \<Rightarrow> nat" where
  "expected_receipts (Assistant _ calls) = length calls"
| "expected_receipts _ = 0"

fun is_receipt :: "transcript_message \<Rightarrow> bool" where
  "is_receipt (Tool_Result _) = True"
| "is_receipt _ = False"

text \<open>The inner loop: receipts are taken while the group has room for them.\<close>

fun take_receipts ::
  "nat \<Rightarrow> transcript_message list \<Rightarrow> transcript_message list \<times> transcript_message list" where
  "take_receipts room [] = ([], [])"
| "take_receipts room (m # ms) =
     (if 0 < room \<and> is_receipt m
      then let (receipts, rest) = take_receipts (room - 1) ms in (m # receipts, rest)
      else ([], m # ms))"

lemma take_receipts_split: "fst (take_receipts n ms) @ snd (take_receipts n ms) = ms"
  by (induction n ms rule: take_receipts.induct) (auto simp: Let_def split: prod.splits)

lemma length_take_receipts: "length (snd (take_receipts n ms)) \<le> length ms"
  using arg_cong [OF take_receipts_split [of n ms], of length] by simp

function transcript_groups :: "transcript_message list \<Rightarrow> transcript_message list list" where
  "transcript_groups [] = []"
| "transcript_groups (m # ms) =
     (case take_receipts (expected_receipts m) ms of
        (receipts, rest) \<Rightarrow> (m # receipts) # transcript_groups rest)"
  by pat_completeness auto

termination
proof (relation "measure length")
  fix m :: transcript_message and ms receipts rest
  assume "(receipts, rest) = take_receipts (expected_receipts m) ms"
  then have "rest = snd (take_receipts (expected_receipts m) ms)" by (metis snd_conv)
  then show "(rest, m # ms) \<in> measure length" using length_take_receipts by (simp add: le_imp_less_Suc)
qed simp

definition compact_transcript ::
  "transcript_message list \<Rightarrow> nat \<Rightarrow> transcript_message list \<times> nat" where
  "compact_transcript messages maximum_groups =
     (let groups = transcript_groups messages; omitted = length groups - maximum_groups
      in (concat (drop omitted groups), omitted))"

section \<open>Compilation\<close>

definition omission_notice :: "nat \<Rightarrow> prompt_segment list" where
  "omission_notice omitted =
     (if 0 < omitted
      then [\<lparr>ps_layer = Compaction, ps_name = ''deterministic-transcript-window'',
        ps_text = dec omitted @ '' earlier complete transcript group(s) were omitted by the ''
          @ ''deterministic context window. No semantic summary was invented.''\<rparr>]
      else [])"

abbreviation usize_max :: nat where
  "usize_max \<equiv> 2 ^ 64 - 1"

definition rendered_size ::
  "(transcript_message \<Rightarrow> string) \<Rightarrow> prompt_segment list \<Rightarrow> transcript_message list \<Rightarrow> nat" where
  "rendered_size debug prompt messages =
     (\<Sum>s \<leftarrow> prompt. length (ps_text s)) + (\<Sum>m \<leftarrow> messages. length (debug m))"

definition fs_compile ::
  "filesystem \<Rightarrow> directories \<Rightarrow> (transcript_message \<Rightarrow> string) \<Rightarrow> rule_loader \<Rightarrow> fs_config \<Rightarrow>
   context_input \<Rightarrow> context_error + compiled_context" where
  "fs_compile fs dirs debug loader config input =
     (case compile_prompt fs dirs loader config of
        Inl e \<Rightarrow> Inl (Read_Error (fs_context_error_text e))
      | Inr segments \<Rightarrow>
          (case compact_transcript (ci_transcript input)
             (case fc_max_groups config of Some n \<Rightarrow> n | None \<Rightarrow> usize_max) of
             (messages, omitted) \<Rightarrow>
               let prompt = segments @ omission_notice omitted;
                   actual = rendered_size debug prompt messages
               in case fc_max_characters config of
                    Some maximum \<Rightarrow>
                      if maximum < actual then Inl (TooLarge actual maximum)
                      else Inr \<lparr>cc_prompt = prompt, cc_messages = messages\<rparr>
                  | None \<Rightarrow> Inr \<lparr>cc_prompt = prompt, cc_messages = messages\<rparr>))"

section \<open>The window keeps groups whole\<close>

text \<open>A transcript in which receipts come right after the assistant message that made their calls, no
  more than it made: what the runtime builds from its events.\<close>

fun receipts_placed :: "nat \<Rightarrow> transcript_message list \<Rightarrow> bool" where
  "receipts_placed due [] = True"
| "receipts_placed due (m # ms) =
     (if is_receipt m then 0 < due \<and> receipts_placed (due - 1) ms
      else receipts_placed (expected_receipts m) ms)"

text \<open>Group by group: what follows a group starts afresh.\<close>

lemma take_receipts_result:
  "take_receipts n ms = (receipts, rest) \<Longrightarrow>
   ms = receipts @ rest \<and> length receipts \<le> n \<and> (\<forall>m \<in> set receipts. is_receipt m) \<and>
   (rest = [] \<or> \<not> is_receipt (hd rest) \<or> length receipts = n)"
  by (induction n ms arbitrary: receipts rest rule: take_receipts.induct)
    (auto simp: Let_def split: prod.splits if_splits)

lemma take_receipts_append:
  assumes "length receipts \<le> n" and "\<forall>m \<in> set receipts. is_receipt m"
    and "rest = [] \<or> \<not> is_receipt (hd rest) \<or> length receipts = n"
  shows "take_receipts n (receipts @ rest) = (receipts, rest)"
  using assms
proof (induction receipts arbitrary: n)
  case Nil
  then show ?case by (cases rest) auto
next
  case (Cons r receipts)
  then show ?case by (cases n) (auto simp: Let_def)
qed

lemma concat_groups: "concat (transcript_groups ms) = ms"
proof (induction ms rule: transcript_groups.induct)
  case (2 m ms)
  then show ?case using take_receipts_split [of "expected_receipts m" ms]
    by (cases "take_receipts (expected_receipts m) ms") simp
qed simp

lemma groups_drop: "transcript_groups (concat (drop k (transcript_groups ms))) = drop k (transcript_groups ms)"
proof (induction ms arbitrary: k rule: transcript_groups.induct)
  case (2 m ms)
  obtain receipts rest where t: "take_receipts (expected_receipts m) ms = (receipts, rest)" by (meson surj_pair)
  show ?case
  proof (cases k)
    case 0
    then show ?thesis by (simp only: drop0 concat_groups)
  next
    case (Suc k')
    with 2 [OF t [symmetric], of k'] show ?thesis by (simp add: t)
  qed
qed simp

lemma groups_take: "transcript_groups (concat (take k (transcript_groups ms))) = take k (transcript_groups ms)"
proof (induction ms arbitrary: k rule: transcript_groups.induct)
  case (2 m ms)
  obtain receipts rest where t: "take_receipts (expected_receipts m) ms = (receipts, rest)" by (meson surj_pair)
  show ?case
  proof (cases k)
    case (Suc k')
    let ?more = "concat (take k' (transcript_groups rest))"
    have "rest = ?more @ concat (drop k' (transcript_groups rest))"
      by (metis append_take_drop_id concat_append concat_groups)
    then have "?more = [] \<or> hd ?more = hd rest \<and> rest \<noteq> []" by (metis append_is_Nil_conv hd_append2)
    then have "take_receipts (expected_receipts m) (receipts @ ?more) = (receipts, ?more)"
      using take_receipts_result [OF t] by (intro take_receipts_append) auto
    with 2 [OF t [symmetric], of k'] Suc show ?thesis by (simp add: t)
  qed simp
qed simp

lemma receipts_placed_after:
  assumes "receipts_placed n (receipts @ rest)" and "\<forall>m \<in> set receipts. is_receipt m"
    and "rest = [] \<or> \<not> is_receipt (hd rest) \<or> length receipts = n"
  shows "receipts_placed 0 rest"
  using assms
proof (induction receipts arbitrary: n)
  case Nil
  then show ?case by (cases rest) auto
next
  case (Cons r receipts)
  then show ?case by (cases n) auto
qed

lemma receipts_placed_drop:
  "receipts_placed 0 ms \<Longrightarrow> receipts_placed 0 (concat (drop k (transcript_groups ms)))"
proof (induction ms arbitrary: k rule: transcript_groups.induct)
  case (2 m ms)
  obtain receipts rest where t: "take_receipts (expected_receipts m) ms = (receipts, rest)" by (meson surj_pair)
  note r = take_receipts_result [OF t]
  show ?case
  proof (cases k)
    case 0
    then show ?thesis using 2(2) by (simp only: drop0 concat_groups)
  next
    case (Suc k')
    have "receipts_placed (expected_receipts m) (receipts @ rest)"
      using 2(2) r by (auto split: if_splits)
    then have "receipts_placed 0 rest" using r by (blast intro: receipts_placed_after)
    with 2(1) [OF t [symmetric]] Suc show ?thesis by (simp add: t)
  qed
qed simp

lemma groups_length: "length (transcript_groups ms) \<le> length ms"
proof (induction ms rule: transcript_groups.induct)
  case (2 m ms)
  obtain receipts rest where t: "take_receipts (expected_receipts m) ms = (receipts, rest)" by (meson surj_pair)
  have "length rest \<le> length ms" using take_receipts_result [OF t] by simp
  with 2 [OF t [symmetric]] show ?case by (simp add: t)
qed simp

lemma fs_compile_result:
  assumes "fs_compile fs dirs debug loader config input = Inr c"
  obtains segments messages omitted where "compile_prompt fs dirs loader config = Inr segments"
    "compact_transcript (ci_transcript input)
       (case fc_max_groups config of Some n \<Rightarrow> n | None \<Rightarrow> usize_max) = (messages, omitted)"
    "cc_prompt c = segments @ omission_notice omitted" "cc_messages c = messages"
    "\<forall>maximum. fc_max_characters config = Some maximum \<longrightarrow>
       rendered_size debug (cc_prompt c) (cc_messages c) \<le> maximum"
proof -
  obtain messages omitted where m: "compact_transcript (ci_transcript input)
       (case fc_max_groups config of Some n \<Rightarrow> n | None \<Rightarrow> usize_max) = (messages, omitted)" by (meson surj_pair)
  from assms obtain segments where s: "compile_prompt fs dirs loader config = Inr segments"
    by (auto simp: fs_compile_def split: sum.splits)
  show ?thesis
    by (rule that [OF s m]) (use assms s m in \<open>auto simp: fs_compile_def Let_def split: option.splits if_splits\<close>)
qed

text \<open>C18 The context window: a compiled context keeps a final part of the transcript, of at most the
  configured number of groups, and never separates an assistant message from the receipts of its
  calls; when anything was left out the last prompt segment says so; with no limit nothing is left
  out; and the prompt and the messages together fit the character budget.\<close>

theorem fs_context_window:
  assumes "fs_compile fs dirs debug loader config input = Inr c"
  shows "\<exists>earlier. ci_transcript input = earlier @ cc_messages c \<and>
      (receipts_placed 0 (ci_transcript input) \<longrightarrow> receipts_placed 0 (cc_messages c)) \<and>
      transcript_groups (ci_transcript input) = transcript_groups earlier @ transcript_groups (cc_messages c) \<and>
      (earlier \<noteq> [] \<longrightarrow>
         omission_notice (length (transcript_groups earlier)) = [last (cc_prompt c)]) \<and>
      (\<forall>n. fc_max_groups config = Some n \<longrightarrow>
         length (transcript_groups (cc_messages c)) =
           min n (length (transcript_groups (ci_transcript input)))) \<and>
      (fc_max_groups config = None \<and> length (ci_transcript input) < 2 ^ 64 \<longrightarrow> earlier = []) \<and>
      (\<forall>maximum. fc_max_characters config = Some maximum \<longrightarrow>
         rendered_size debug (cc_prompt c) (cc_messages c) \<le> maximum)"
  using assms
proof (rule fs_compile_result)
  fix segments messages omitted
  let ?limit = "case fc_max_groups config of Some n \<Rightarrow> n | None \<Rightarrow> usize_max"
  let ?groups = "transcript_groups (ci_transcript input)"
  let ?earlier = "concat (take omitted ?groups)"
  assume "compact_transcript (ci_transcript input) ?limit = (messages, omitted)"
    and prompt: "cc_prompt c = segments @ omission_notice omitted" and "cc_messages c = messages"
    and budget: "\<forall>maximum. fc_max_characters config = Some maximum \<longrightarrow>
      rendered_size debug (cc_prompt c) (cc_messages c) \<le> maximum"
  then have omitted: "omitted = length ?groups - ?limit"
    and messages: "cc_messages c = concat (drop omitted ?groups)"
    by (auto simp: compact_transcript_def Let_def)
  have split: "ci_transcript input = ?earlier @ cc_messages c"
    by (metis messages append_take_drop_id concat_append concat_groups)
  have groups: "transcript_groups ?earlier = take omitted ?groups"
    "transcript_groups (cc_messages c) = drop omitted ?groups"
    unfolding messages by (rule groups_take groups_drop)+
  have "omitted \<le> length ?groups" using omitted by simp
  then have notice: "omission_notice (length (transcript_groups ?earlier)) = [last (cc_prompt c)]"
    if "?earlier \<noteq> []"
  proof -
    have "0 < omitted" using that by (cases omitted) simp_all
    moreover have "length (transcript_groups ?earlier) = omitted"
      unfolding groups(1) using \<open>omitted \<le> length ?groups\<close> by simp
    ultimately show ?thesis by (simp add: prompt omission_notice_def)
  qed
  have all: "?earlier = []" if "fc_max_groups config = None" "length (ci_transcript input) < 2 ^ 64"
    using that omitted groups_length [of "ci_transcript input"] by simp
  show ?thesis
    by (intro exI [of _ ?earlier] conjI impI allI)
      (use split groups notice all budget omitted messages receipts_placed_drop in \<open>auto\<close>)
qed

section \<open>The catalog\<close>

lemma dedup_sorted:
  assumes "sorted (map f xs)"
  shows "sorted_wrt (<) (map f (dedup_by f xs))" and "f ` set (dedup_by f xs) = f ` set xs"
    and "\<forall>x \<in> set (dedup_by f xs). find (\<lambda>y. f y = f x) xs = Some x" and "set (dedup_by f xs) \<subseteq> set xs"
proof -
  have "sorted_wrt (<) (map f (dedup_by f xs)) \<and> f ` set (dedup_by f xs) = f ` set xs \<and>
      (\<forall>x \<in> set (dedup_by f xs). find (\<lambda>y. f y = f x) xs = Some x) \<and> set (dedup_by f xs) \<subseteq> set xs"
    using assms
  proof (induction f xs rule: dedup_by.induct)
    case (3 f x y xs)
    show ?case
    proof (cases "f x = f y")
      case True
      with 3 show ?thesis by (auto split: if_splits)
    next
      case False
      have "sorted (map f (y # xs))" using 3(3) by simp
      note IH = 3(2) [OF False this]
      have less: "f x < f z" if "z \<in> set (y # xs)" for z using that 3(3) False by (force simp: less_le)
      then have "f x \<noteq> f z" if "z \<in> set (dedup_by f (y # xs))" for z using IH that by fastforce
      with IH False less show ?thesis by auto
    qed
  qed simp_all
  then show "sorted_wrt (<) (map f (dedup_by f xs))" and "f ` set (dedup_by f xs) = f ` set xs"
    and "\<forall>x \<in> set (dedup_by f xs). find (\<lambda>y. f y = f x) xs = Some x" and "set (dedup_by f xs) \<subseteq> set xs"
    by simp_all
qed

text \<open>Sorting is stable.\<close>

lemma find_filter: "find P xs = (case filter P xs of [] \<Rightarrow> None | x # _ \<Rightarrow> Some x)"
  by (induction xs) auto

lemma find_sort_key: "find (\<lambda>y. f y = k) (sort_key f xs) = find (\<lambda>y. f y = k) xs"
  by (simp add: find_filter sort_key_stable)

definition skill_read :: "filesystem \<Rightarrow> skill_info \<Rightarrow> bool" where
  "skill_read fs s \<longleftrightarrow>
     (\<exists>txt. fs_is_file fs (sk_path s) \<and> fs_read fs (sk_path s) = Inr txt \<and> s = skill_of (sk_path s) txt)"

lemma skill_of_path [simp]: "sk_path (skill_of p txt) = p"
  by (simp add: skill_of_def)

lemma skill_path_of_file: "skill_path_of fs entry = Some p \<Longrightarrow> fs_is_file fs p"
  by (auto simp: skill_path_of_def split: option.splits if_splits)

lemma scan_entries_read: "scan_entries fs entries = Inr found \<Longrightarrow> \<forall>s \<in> set found. skill_read fs s"
proof (induction fs entries arbitrary: found rule: scan_entries.induct)
  case (3 fs entry entries)
  show ?case
  proof (cases "skill_path_of fs entry")
    case None
    with 3 show ?thesis by simp
  next
    case (Some p)
    with 3(3) obtain body rest where "fs_read fs p = Inr body" "scan_entries fs entries = Inr rest"
      "found = skill_of p body # rest" by (auto split: sum.splits)
    with 3(2) [OF Some] skill_path_of_file [OF Some] show ?thesis by (auto simp: skill_read_def)
  qed
qed simp_all

lemma scan_roots_read: "scan_roots fs dirs roots = Inr found \<Longrightarrow> \<forall>s \<in> set found. skill_read fs s"
proof (induction roots arbitrary: found)
  case (Cons root roots)
  then show ?case by (auto split: sum.splits if_splits dest!: scan_entries_read)
qed simp

text \<open>The skill catalog: a scan that succeeds lists each name once, in order; every skill on the list
  was read from a regular file; and of several files with the same name the one met first, in the
  order of the roots and their entries, is the one listed.\<close>

theorem skill_catalog:
  assumes "skill_scan fs dirs roots = Inr skills"
  shows "sorted_wrt (<) (map sk_name skills) \<and>
    (\<exists>found. scan_roots fs dirs roots = Inr found \<and> sk_name ` set skills = sk_name ` set found \<and>
       (\<forall>s \<in> set skills. find (\<lambda>x. sk_name x = sk_name s) found = Some s \<and> skill_read fs s))"
proof -
  obtain found where found: "scan_roots fs dirs roots = Inr found"
    and skills: "skills = dedup_by sk_name (sort_key sk_name found)"
    using assms by (auto simp: skill_scan_def split: sum.splits)
  note d = dedup_sorted [OF sorted_sort_key [of sk_name found], folded skills]
  have "find (\<lambda>x. sk_name x = sk_name s) found = Some s \<and> skill_read fs s" if "s \<in> set skills" for s
    using d(3,4) that scan_roots_read [OF found] by (auto simp: find_sort_key)
  with d(1,2) found show ?thesis by simp
qed

section \<open>A sample project\<close>

text \<open>Two skills with the same name under one root, a plain file that is none, and a transcript with one
  answered call.\<close>

definition sample_project :: filesystem where
  "sample_project = \<lparr>fs_canonicalize = Inr, fs_is_dir = (\<lambda>p. p \<in> {[''p''], [''s'', ''b'']}),
     fs_is_file = (\<lambda>p. p \<in> {[''p'', ''AGENTS.md''], [''s'', ''a.md''], [''s'', ''b'', ''SKILL.md'']}),
     fs_read = (\<lambda>p. Inr (if p = [''s'', ''a.md'']
       then ''---'' @ [newline] @ ''name: lint'' @ [newline] @ ''---'' @ [newline] @ ''# t'' @ [newline] @ ''Checks''
       else if p = [''s'', ''b'', ''SKILL.md''] then ''---'' @ [newline] @ ''name: lint'' @ [newline] @ ''---''
       else ''rule''))\<rparr>"

definition sample_roots :: directories where
  "sample_roots = \<lparr>dr_exists = (\<lambda>p. p = [''s'']),
     dr_entries = (\<lambda>p. Inr [Inr [''s'', ''a.md''], Inr [''s'', ''x.txt''], Inr [''s'', ''b'']])\<rparr>"

definition sample_config :: fs_config where
  "sample_config = (fs_config_new [''p''] [''p''])
     \<lparr>fc_skill_roots := [[''s''], [''t'']], fc_selected_skills := [''lint''], fc_max_groups := Some 2,
      fc_max_characters := Some 400\<rparr>"

lemma sample_scan:
  "skill_scan sample_project sample_roots [[''s''], [''t'']] =
     Inr [\<lparr>sk_name = ''lint'', sk_summary = ''Checks'', sk_path = [''s'', ''a.md'']\<rparr>]"
  by code_simp

theorem skill_catalog_witness:
  "\<exists>found. scan_roots sample_project sample_roots [[''s''], [''t'']] = Inr found \<and>
     sk_name ` set found = {''lint''} \<and>
     find (\<lambda>x. sk_name x = ''lint'') found =
       Some \<lparr>sk_name = ''lint'', sk_summary = ''Checks'', sk_path = [''s'', ''a.md'']\<rparr>"
  using skill_catalog [OF sample_scan] by (auto simp del: scan_roots.simps)

definition sample_transcript :: "transcript_message list" where
  "sample_transcript = [User ''a'', Assistant [] [\<lparr>tc_id = ''c'', tc_name = ''n'', tc_arguments = JNull\<rparr>],
     Tool_Result \<lparr>tr_call_id = ''c'', tr_tool_name = ''n'', tr_status = Receipt_Failed, tr_action = None,
       tr_output = None, tr_error = None\<rparr>, User ''b'']"

definition sample_compiled_context :: "context_error + compiled_context" where
  "sample_compiled_context = fs_compile sample_project sample_roots (\<lambda>_. ''m'') default_loader sample_config
     \<lparr>ci_thread_id = ''t'', ci_turn_id = ''u'', ci_transcript = sample_transcript\<rparr>"

lemma sample_window: "case sample_compiled_context of Inr c \<Rightarrow> cc_messages c = drop 1 sample_transcript | _ \<Rightarrow> False"
  by code_simp

theorem fs_context_window_witness:
  "\<exists>c. fs_compile sample_project sample_roots (\<lambda>_. ''m'') default_loader sample_config
     \<lparr>ci_thread_id = ''t'', ci_turn_id = ''u'', ci_transcript = sample_transcript\<rparr> = Inr c \<and>
     receipts_placed 0 (cc_messages c) \<and> length (transcript_groups (cc_messages c)) = 2 \<and>
     rendered_size (\<lambda>_. ''m'') (cc_prompt c) (cc_messages c) \<le> 400"
proof -
  obtain c where run: "fs_compile sample_project sample_roots (\<lambda>_. ''m'') default_loader sample_config
     \<lparr>ci_thread_id = ''t'', ci_turn_id = ''u'', ci_transcript = sample_transcript\<rparr> = Inr c"
    using sample_window unfolding sample_compiled_context_def by (auto split: sum.splits)
  from fs_context_window [OF run] run show ?thesis
    by (auto simp: sample_transcript_def sample_config_def)
qed

end
