(* ===== verification/OutputArchive.thy ===== *)
theory OutputArchive
  imports TextLog Registry Paths
begin

text \<open>
  The archive of large tool outputs, crates/context-fs/src/output.rs: snapshots retained once per
  thread and call, read back in pages, the compiler that replaces large outputs of the transcript
  by a reference, and the tool that reads the pages. The archive directory is owned by the process,
  as the source requires, so its entries are a map that only these operations change; each
  operation on it may fail.
\<close>

section \<open>The directory\<close>

datatype node = Dir_Node | File_Node string | Other_Node

record vault =
  va_nodes :: "(path \<times> node) list"
  va_host :: host

abbreviation node_at :: "vault \<Rightarrow> path \<Rightarrow> node option" where
  "node_at s p \<equiv> bt_get (va_nodes s) p"

definition put_node :: "path \<Rightarrow> node \<Rightarrow> vault \<Rightarrow> vault" where
  "put_node p n s = s\<lparr>va_nodes := bt_insert p n (va_nodes s)\<rparr>"

text \<open>An error of the operating system: its kind where the source looks at it, and its text.\<close>

datatype os_error = Already_Exists | Os_Error string

fun os_error_text :: "os_error \<Rightarrow> string" where
  [display]: "os_error_text Already_Exists = ''File exists (os error 17)''"
| "os_error_text (Os_Error m) = m"

abbreviation not_found :: os_error where
  "not_found \<equiv> Os_Error ''No such file or directory (os error 2)''"

text \<open>An operation that leaves the directory alone.\<close>

definition vault_io :: "(vault, os_error, unit) act" where
  "vault_io s =
     (case io_step (va_host s) of
        (Io_ok, h) \<Rightarrow> (Inr (), s\<lparr>va_host := h\<rparr>)
      | (Io_error e n, h) \<Rightarrow> (Inl (Os_Error e), s\<lparr>va_host := h\<rparr>))"

definition vault_create_dir :: "path \<Rightarrow> (vault, os_error, unit) act" where
  "vault_create_dir p =
     and_then vault_io (\<lambda>_ s.
       if node_at s p \<noteq> None then (Inl Already_Exists, s) else (Inr (), put_node p Dir_Node s))"

definition vault_metadata :: "path \<Rightarrow> (vault, os_error, node) act" where
  "vault_metadata p =
     and_then vault_io (\<lambda>_ s. case node_at s p of None \<Rightarrow> (Inl not_found, s) | Some n \<Rightarrow> (Inr n, s))"

text \<open>\<open>File::open\<close> and the bytes the open file has.\<close>

definition vault_open :: "path \<Rightarrow> (vault, os_error, string) act" where
  "vault_open p =
     and_then vault_io (\<lambda>_ s. case node_at s p of
       Some (File_Node bytes) \<Rightarrow> (Inr bytes, s)
     | Some _ \<Rightarrow> (Inr [], s)
     | None \<Rightarrow> (Inl not_found, s))"

definition vault_create_new :: "path \<Rightarrow> (vault, os_error, unit) act" where
  "vault_create_new p =
     and_then vault_io (\<lambda>_ s.
       if node_at s p \<noteq> None then (Inl Already_Exists, s) else (Inr (), put_node p (File_Node []) s))"

definition vault_write :: "path \<Rightarrow> string \<Rightarrow> (vault, os_error, unit) act" where
  "vault_write p bytes s =
     (case io_step (va_host s) of
        (Io_ok, h) \<Rightarrow> (Inr (), put_node p (File_Node bytes) (s\<lparr>va_host := h\<rparr>))
      | (Io_error e n, h) \<Rightarrow>
          (Inl (Os_Error e), put_node p (File_Node (take n bytes)) (s\<lparr>va_host := h\<rparr>)))"

text \<open>The link is a second name of the same file, which nobody writes to afterwards.\<close>

definition vault_hard_link :: "path \<Rightarrow> path \<Rightarrow> (vault, os_error, unit) act" where
  "vault_hard_link original link =
     and_then vault_io (\<lambda>_ s. case node_at s original of
       None \<Rightarrow> (Inl not_found, s)
     | Some n \<Rightarrow>
         if node_at s link \<noteq> None then (Inl Already_Exists, s) else (Inr (), put_node link n s))"

definition vault_remove_file :: "path \<Rightarrow> (vault, os_error, unit) act" where
  "vault_remove_file p =
     and_then vault_io (\<lambda>_. writes (\<lambda>s. s\<lparr>va_nodes := bt_remove p (va_nodes s)\<rparr>))"

definition vault_EventId :: "(vault, 'e, event_id) act" where
  "vault_EventId s = (case EventId_new (va_host s) of (i, h) \<Rightarrow> (Inr i, s\<lparr>va_host := h\<rparr>))"

text \<open>\<open>map_err(read_error)\<close>\<close>

definition reading :: "(vault, os_error, 'a) act \<Rightarrow> (vault, context_error, 'a) act" where
  "reading m = map_err (\<lambda>e. Read_Error (os_error_text e)) m"

text \<open>\<open>File::open(directory).and_then(|file| file.sync_all())\<close>\<close>

definition sync_directory :: "(vault, context_error, unit) act" where
  "sync_directory = reading (and_then vault_io (\<lambda>_. vault_io))"

section \<open>Snapshots\<close>

record output_archive =
  av_root :: path
  av_max_output_bytes :: nat
  av_poisoned :: bool

text \<open>The root directory is created if need be; later it is taken to be there.\<close>

definition archive_new :: "filesystem \<Rightarrow> path \<Rightarrow> nat \<Rightarrow> (vault, context_error, output_archive) act" where
  "archive_new fs root max_output_bytes =
     (if max_output_bytes = 0 then err (Read_Error ''archive output limit must be positive'')
      else and_then (reading vault_io) (\<lambda>_.
        case fs_canonicalize fs root of
          Inl e \<Rightarrow> err (Read_Error e)
        | Inr root' \<Rightarrow>
            ok \<lparr>av_root = root', av_max_output_bytes = max_output_bytes, av_poisoned = False\<rparr>))"

definition hex_byte :: "char \<Rightarrow> string" where
  "hex_byte c = [digit (byte c div 16), digit (byte c mod 16)]"

definition component :: "string \<Rightarrow> context_error + string" where
  "component i =
     (if i = [] \<or> 96 < length i then Inl (Read_Error ''archive IDs must contain 1..=96 UTF-8 bytes'')
      else Inr (concat (map hex_byte i)))"

definition archive_paths :: "output_archive \<Rightarrow> thread_id \<Rightarrow> string \<Rightarrow> context_error + path \<times> path" where
  "archive_paths a thread call =
     (case component thread of
        Inl e \<Rightarrow> Inl e
      | Inr t \<Rightarrow>
          (case component call of
             Inl e \<Rightarrow> Inl e
           | Inr c \<Rightarrow> Inr (av_root a @ [t], av_root a @ [t, c @ ''.json''])))"

definition check_directory :: "path \<Rightarrow> (vault, context_error, unit) act" where
  "check_directory directory =
     and_then (reading (vault_metadata directory)) (\<lambda>n.
       if n \<noteq> Dir_Node then err (Read_Error ''archive thread directory must not be a symlink'') else ok ())"

definition open_snapshot :: "output_archive \<Rightarrow> thread_id \<Rightarrow> string \<Rightarrow> (vault, context_error, string) act" where
  "open_snapshot a thread call =
     (case archive_paths a thread call of
        Inl e \<Rightarrow> err e
      | Inr (directory, path) \<Rightarrow>
          and_then (check_directory directory) (\<lambda>_.
          and_then (reading (vault_metadata path)) (\<lambda>metadata.
            case metadata of
              File_Node bytes \<Rightarrow>
                if av_max_output_bytes a < length bytes
                then err (Read_Error ''archive snapshot is not a bounded regular file'')
                else reading (vault_open path)
            | _ \<Rightarrow> err (Read_Error ''archive snapshot is not a bounded regular file''))))"

text \<open>The snapshot that is there already must be the same.\<close>

definition confirm_snapshot ::
  "output_archive \<Rightarrow> thread_id \<Rightarrow> string \<Rightarrow> string \<Rightarrow> (vault, context_error, unit) act" where
  "confirm_snapshot a thread call bytes =
     and_then (open_snapshot a thread call) (\<lambda>content.
     and_then (reading vault_io) (\<lambda>_.
       if take (av_max_output_bytes a + 1) content \<noteq> bytes
       then err (Read_Error ''archive snapshot conflict; refusing overwrite'')
       else and_then (open_snapshot a thread call) (\<lambda>_. reading vault_io)))"

definition pending_path :: "path \<Rightarrow> event_id \<Rightarrow> path" where
  "pending_path directory i = directory @ [''.pending-'' @ i]"

text \<open>A complete, synced file is published under its name by a hard link, then the temporary name is
  removed, whether that worked or not.\<close>

definition publish_snapshot :: "path \<Rightarrow> path \<Rightarrow> string \<Rightarrow> (vault, context_error, unit) act" where
  "publish_snapshot directory path bytes =
     and_then vault_EventId (\<lambda>i.
       let pending = pending_path directory i
       in and_then (reading (vault_create_new pending)) (\<lambda>_.
          attempt (and_then (reading (vault_write pending bytes)) (\<lambda>_.
                   and_then (reading vault_io) (\<lambda>_. reading (vault_hard_link pending path)))) (\<lambda>result.
          attempt (vault_remove_file pending) (\<lambda>cleanup.
            case result of
              Inl e \<Rightarrow> err e
            | Inr _ \<Rightarrow>
                (case cleanup of Inl e \<Rightarrow> err (Read_Error (os_error_text e)) | Inr _ \<Rightarrow> ok ())))))"

definition ensure_directory :: "path \<Rightarrow> (vault, context_error, unit) act" where
  "ensure_directory directory =
     attempt (vault_create_dir directory) (\<lambda>created.
       case created of
         Inr _ \<Rightarrow> sync_directory
       | Inl Already_Exists \<Rightarrow> ok ()
       | Inl e \<Rightarrow> err (Read_Error (os_error_text e)))"

definition retain ::
  "output_archive \<Rightarrow> thread_id \<Rightarrow> string \<Rightarrow> string \<Rightarrow> (vault, context_error, unit) act" where
  "retain a thread call bytes =
     (if av_max_output_bytes a < length bytes then err (Read_Error ''tool output exceeds archive limit'')
      else if av_poisoned a then err (Read_Error ''poisoned lock: another task failed inside'')
      else case archive_paths a thread call of
        Inl e \<Rightarrow> err e
      | Inr (directory, path) \<Rightarrow>
          and_then (ensure_directory directory) (\<lambda>_.
          and_then (check_directory directory) (\<lambda>_.
          and_then
            (attempt (vault_metadata path) (\<lambda>metadata.
               case metadata of
                 Inr _ \<Rightarrow> confirm_snapshot a thread call bytes
               | Inl _ \<Rightarrow> publish_snapshot directory path bytes)) (\<lambda>_.
          sync_directory))))"

section \<open>Pages\<close>

text \<open>\<open>std::str::from_utf8\<close>: the bytes are a string, or end within a character that starts at an
  index, or are malformed from an index on. \<open>pos\<close> is the index of the next byte, \<open>start\<close> that of
  the character it belongs to.\<close>

datatype utf8_result = Utf8_Ok | Utf8_Incomplete nat | Utf8_Invalid nat nat

fun utf8_check :: "utf8_state \<Rightarrow> nat \<Rightarrow> nat \<Rightarrow> string \<Rightarrow> utf8_result" where
  "utf8_check q start pos [] = (if q = Char_Start then Utf8_Ok else Utf8_Incomplete start)"
| "utf8_check q start pos (c # s) =
     (let q' = utf8_step q (byte c); start' = (if q = Char_Start then pos else start)
      in if q' = Malformed then Utf8_Invalid start' (max 1 (pos - start'))
         else utf8_check q' start' (pos + 1) s)"

abbreviation from_utf8 :: "string \<Rightarrow> utf8_result" where
  "from_utf8 bytes \<equiv> utf8_check Char_Start 0 0 bytes"

fun utf8_error_text :: "utf8_result \<Rightarrow> string" where
  "utf8_error_text Utf8_Ok = []"
| "utf8_error_text (Utf8_Incomplete start) = ''incomplete utf-8 byte sequence from index '' @ dec start"
| "utf8_error_text (Utf8_Invalid start n) =
     ''invalid utf-8 sequence of '' @ dec n @ '' bytes from index '' @ dec start"

definition page_json :: "string \<Rightarrow> string \<Rightarrow> nat \<Rightarrow> nat \<Rightarrow> json" where
  "page_json call body next_offset size_of_all =
     jobject [(''call_id'', JString call), (''text'', JString body), (''next_offset'', JUint (of_nat next_offset)),
       (''total_bytes'', JUint (of_nat size_of_all)), (''eof'', JBool (next_offset = size_of_all))]"

definition read_page ::
  "output_archive \<Rightarrow> thread_id \<Rightarrow> string \<Rightarrow> u64 \<Rightarrow> nat \<Rightarrow> (vault, context_error, json) act" where
  "read_page a thread call offset limit =
     (if \<not> (4 \<le> limit \<and> limit \<le> 4096) then err (Read_Error ''page limit must be 4..=4096 bytes'')
      else and_then (open_snapshot a thread call) (\<lambda>content.
        and_then (reading vault_io) (\<lambda>_.
          if length content < unat offset then err (Read_Error ''page offset exceeds snapshot length'')
          else and_then (reading vault_io) (\<lambda>_.
            and_then (reading vault_io) (\<lambda>_.
              let bytes = take limit (drop (unat offset) content);
                  page = (\<lambda>valid. ok (page_json call (take valid bytes) (unat offset + valid) (length content)))
              in case from_utf8 bytes of
                   Utf8_Ok \<Rightarrow> page (length bytes)
                 | Utf8_Incomplete valid \<Rightarrow>
                     if unat offset + length bytes < length content then page valid
                     else err (Read_Error (utf8_error_text (Utf8_Incomplete valid)))
                 | e \<Rightarrow> err (Read_Error (utf8_error_text e)))))))"

section \<open>Externalised outputs\<close>

definition output_reference :: "call_id \<Rightarrow> nat \<Rightarrow> json" where
  "output_reference call size_of_all =
     jobject [(''externalized_output'', jobject [(''version'', JUint 1), (''call_id'', JString call),
       (''total_bytes'', JUint (of_nat size_of_all)), (''format'', JString ''json''),
       (''read_tool'', JString ''read_output''),
       (''note'', JString ''Reading requires host registration and policy authorization'')])]"

definition externalize_receipt ::
  "output_archive \<Rightarrow> nat \<Rightarrow> (json \<Rightarrow> string + string) \<Rightarrow> thread_id \<Rightarrow> tool_receipt \<Rightarrow>
   (vault, context_error, tool_receipt) act" where
  "externalize_receipt a inline_bytes to_vec thread receipt =
     (if tr_tool_name receipt = ''read_output'' then ok receipt
      else case tr_output receipt of
        None \<Rightarrow> ok receipt
      | Some output \<Rightarrow>
          (case to_vec output of
             Inl e \<Rightarrow> err (Read_Error e)
           | Inr bytes \<Rightarrow>
               if inline_bytes < length bytes
               then and_then (retain a thread (tr_call_id receipt) bytes) (\<lambda>_.
                 ok (receipt\<lparr>tr_output := Some (output_reference (tr_call_id receipt) (length bytes))\<rparr>))
               else ok receipt))"

fun externalize ::
  "output_archive \<Rightarrow> nat \<Rightarrow> (json \<Rightarrow> string + string) \<Rightarrow> thread_id \<Rightarrow> transcript_message list \<Rightarrow>
   (vault, context_error, transcript_message list) act" where
  "externalize a inline_bytes to_vec thread [] = ok []"
| "externalize a inline_bytes to_vec thread (m # ms) =
     and_then
       (case m of
          Tool_Result receipt \<Rightarrow>
            and_then (externalize_receipt a inline_bytes to_vec thread receipt) (\<lambda>r. ok (Tool_Result r))
        | _ \<Rightarrow> ok m) (\<lambda>m'.
     and_then (externalize a inline_bytes to_vec thread ms) (\<lambda>ms'. ok (m' # ms')))"

definition external_compile ::
  "output_archive \<Rightarrow> nat \<Rightarrow> (json \<Rightarrow> string + string) \<Rightarrow>
   (context_input \<Rightarrow> context_error + compiled_context) \<Rightarrow> context_input \<Rightarrow>
   (vault, context_error, compiled_context) act" where
  "external_compile a inline_bytes to_vec inner input =
     and_then (externalize a inline_bytes to_vec (ci_thread_id input) (ci_transcript input)) (\<lambda>messages.
       case inner (input\<lparr>ci_transcript := messages\<rparr>) of Inl e \<Rightarrow> err e | Inr c \<Rightarrow> ok c)"

section \<open>The reading tool\<close>

definition read_output_definition :: tool_definition where
  "read_output_definition =
     \<lparr>td_name = ''read_output'',
      td_description = ''Read a UTF-8 page of archived JSON tool output in this thread'',
      td_input_schema = jobject [(''type'', JString ''object''),
        (''properties'', jobject [(''call_id'', jobject [(''type'', JString ''string'')]),
          (''offset'', jobject [(''type'', JString ''integer''), (''minimum'', JUint 0)]),
          (''limit'', jobject [(''type'', JString ''integer''), (''minimum'', JUint 4), (''maximum'', JUint 4096)])]),
        (''required'', JArray [JString ''call_id'']), (''additionalProperties'', JBool False)]\<rparr>"

text \<open>\<open>map_or(Some(default), Value::as_u64)\<close>\<close>

definition number_or :: "u64 \<Rightarrow> json option \<Rightarrow> u64 option" where
  "number_or preset v = (case v of None \<Rightarrow> Some preset | Some x \<Rightarrow> as_u64 x)"

definition read_output_prepare ::
  "tool_call \<Rightarrow> tool_execution_context \<Rightarrow> tool_error + prepared_tool_call" where
  "read_output_prepare call context =
     (case as_object (tc_arguments call) of
        None \<Rightarrow> Inl (InvalidArguments ''expected object'')
      | Some args \<Rightarrow>
          if \<exists>k \<in> set (keys args). k \<notin> {''call_id'', ''offset'', ''limit''}
          then Inl (InvalidArguments ''unknown page argument'')
          else case Option.bind (bt_get args ''call_id'') as_str of
            None \<Rightarrow> Inl (InvalidArguments ''call_id is required'')
          | Some i \<Rightarrow>
              (case component i of
                 Inl e \<Rightarrow> Inl (InvalidArguments (context_error_text e))
               | Inr _ \<Rightarrow>
                   (case number_or 0 (bt_get args ''offset'') of
                      None \<Rightarrow> Inl (InvalidArguments ''offset must be an unsigned integer'')
                    | Some offset \<Rightarrow>
                        (case Option.bind (number_or 2048 (bt_get args ''limit''))
                            (\<lambda>n. if 4 \<le> n \<and> n \<le> 4096 then Some n else None) of
                           None \<Rightarrow> Inl (InvalidArguments ''limit must be 4..=4096'')
                         | Some limit \<Rightarrow>
                             Inr \<lparr>pc_call_id = tc_id call,
                               pc_action = in_scope
                                 (CanonicalAction_new ''read_output''
                                    (jobject [(''call_id'', JString i), (''offset'', JUint offset), (''limit'', JUint limit)])
                                    ReadOnly Retry_Safe)
                                 (tx_thread_id context)\<rparr>))))"

definition read_output_execute ::
  "output_archive \<Rightarrow> bool \<Rightarrow> prepared_tool_call \<Rightarrow> tool_execution_context \<Rightarrow> (vault, tool_error, json) act" where
  "read_output_execute a cancelled prepared context =
     (if cancelled then err Tool_Cancelled
      else if ca_scope (pc_action prepared) \<noteq> Some (tx_thread_id context)
          \<or> ca_tool_name (pc_action prepared) \<noteq> ''read_output''
        then err (Execution ''prepared output scope mismatch'')
      else case jfield as_str (ca_arguments (pc_action prepared)) ''call_id'' of
        None \<Rightarrow> err (Execution ''missing prepared call_id'')
      | Some i \<Rightarrow>
          (case jfield as_u64 (ca_arguments (pc_action prepared)) ''offset'' of
             None \<Rightarrow> err (Execution ''missing prepared offset'')
           | Some offset \<Rightarrow>
               (case jfield as_u64 (ca_arguments (pc_action prepared)) ''limit'' of
                  None \<Rightarrow> err (Execution ''missing prepared limit'')
                | Some limit \<Rightarrow>
                    map_err (\<lambda>e. Execution (context_error_text e))
                      (read_page a (tx_thread_id context) i offset (unat limit)))))"

definition ReadOutputTool :: "output_archive \<Rightarrow> (vault \<Rightarrow> bool) \<Rightarrow> vault tool" where
  "ReadOutputTool a cancelled =
     \<lparr>t_definition = read_output_definition,
      t_prepare = (\<lambda>call context s. (read_output_prepare call context, s)),
      t_execute = (\<lambda>prepared context s. read_output_execute a (cancelled s) prepared context s)\<rparr>"

end
