(* ===== verification/ArchiveProperties.thy ===== *)
theory ArchiveProperties
  imports OutputArchive
begin

text \<open>
  The properties of the output archive: what a client of the archive may rely on, that the archive
  keeps it whatever I/O fails, that pages give a snapshot back, and that no output that was replaced
  in a transcript is lost.
\<close>

section \<open>Names\<close>

lemma nibble: "byte c div 16 < 16"
proof -
  have "byte c < 256" by (simp add: byte_def)
  then show ?thesis by simp
qed

lemma hex_byte_inject: "hex_byte c = hex_byte d \<longleftrightarrow> c = d"
proof
  have small: "byte x div 16 < 16" "byte x mod 16 < 16" for x :: char
    by (rule nibble) simp
  assume "hex_byte c = hex_byte d"
  then have "digit_value (digit (byte c div 16)) = digit_value (digit (byte d div 16))"
    "digit_value (digit (byte c mod 16)) = digit_value (digit (byte d mod 16))"
    by (simp_all add: hex_byte_def)
  then have "byte c = byte d"
    unfolding digit_value_digit [OF small(1)] digit_value_digit [OF small(2)] by (metis div_mult_mod_eq)
  then show "c = d" by (simp add: byte_def)
qed simp

lemma hex_bytes_inject: "concat (map hex_byte xs) = concat (map hex_byte ys) \<Longrightarrow> xs = ys"
proof (induction xs arbitrary: ys)
  case Nil
  then show ?case by (cases ys) (simp_all add: hex_byte_def)
next
  case (Cons x xs)
  then obtain y ys' where ys: "ys = y # ys'" by (cases ys) (simp_all add: hex_byte_def)
  have "length (hex_byte x) = length (hex_byte y)" by (simp add: hex_byte_def)
  with Cons.prems have "hex_byte x = hex_byte y" "concat (map hex_byte xs) = concat (map hex_byte ys')"
    by (auto simp: ys append_eq_append_conv)
  with Cons.IH [of ys'] show ?case by (simp add: ys hex_byte_inject)
qed

lemma component_inject: "component i = Inr x \<Longrightarrow> component j = Inr x \<Longrightarrow> i = j"
  by (auto simp: component_def split: if_splits intro: hex_bytes_inject)

lemma archive_paths_inject:
  "archive_paths a t i = Inr (d, p) \<Longrightarrow> archive_paths a t' i' = Inr (d', p) \<Longrightarrow> t' = t \<and> i' = i"
  by (auto simp: archive_paths_def split: sum.splits dest: component_inject)

text \<open>Temporary names start with a dot; the names of snapshots are hexadecimal.\<close>

definition is_pending :: "path \<Rightarrow> bool" where
  "is_pending p \<longleftrightarrow> p \<noteq> [] \<and> last p \<noteq> [] \<and> hd (last p) = CHR ''.''"

lemma component_first: "component i = Inr x \<Longrightarrow> x \<noteq> [] \<and> hd x \<noteq> CHR ''.''"
proof -
  assume c: "component i = Inr x"
  then obtain y ys where i: "i = y # ys" by (cases i) (simp_all add: component_def)
  have "digit n \<noteq> CHR ''.''" if "n < 16" for n
    using digit_value_digit [OF that] by (auto simp: digit_value_def byte_def split: if_splits)
  from this [OF nibble] show ?thesis using c by (auto simp: component_def i hex_byte_def split: if_splits)
qed

lemma archive_paths_names:
  assumes "archive_paths a t i = Inr (d, p)"
  shows "\<not> is_pending p" and "\<not> is_pending d" and "length d = Suc (length (av_root a))"
    and "length p = Suc (Suc (length (av_root a)))"
  using assms by (auto simp: archive_paths_def is_pending_def split: sum.splits dest: component_first)

lemma is_pending_path [simp]: "is_pending (pending_path d i)"
  by (simp add: is_pending_def pending_path_def)

section \<open>What the operations keep\<close>

definition on_nodes :: "((path \<times> node) list \<Rightarrow> bool) \<Rightarrow> vault \<Rightarrow> bool" where
  "on_nodes G s \<longleftrightarrow> G (va_nodes s)"

lemma nodes_put [simp]: "va_nodes (put_node p n s) = bt_insert p n (va_nodes s)"
  by (simp add: put_node_def)

lemma triple_vault_io [wp]: "triple (on_nodes G) vault_io (\<lambda>_. on_nodes G) (\<lambda>_. on_nodes G)"
  by (rule tripleI) (auto simp: vault_io_def on_nodes_def split: prod.splits io_outcome.splits)

lemma triple_after_io:
  assumes "\<And>s r s'. on_nodes G s \<Longrightarrow> m s = (r, s') \<Longrightarrow>
      (case r of Inl e \<Rightarrow> E e s' | Inr v \<Rightarrow> Q v s')" and "\<And>e s. on_nodes G s \<Longrightarrow> E e s"
  shows "triple (on_nodes G) (and_then vault_io (\<lambda>_. m)) Q E"
proof (rule triple_and_then)
  show "triple (on_nodes G) vault_io (\<lambda>_. on_nodes G) E"
    by (rule triple_weaken [OF triple_vault_io [of G]]) (simp_all add: assms(2))
  show "triple (on_nodes G) m Q E" for u
    by (rule tripleI) (auto dest: assms(1))
qed

lemma triple_reading:
  assumes "triple P m Q (\<lambda>_. R)"
  shows "triple P (reading m) Q (\<lambda>_. R)"
  unfolding reading_def map_err_def
  by (rule tripleI) (auto simp: act_defs dest: triple_value [OF assms] triple_error [OF assms]
      split: prod.splits sum.splits)

lemma triple_sync_directory [wp]: "triple (on_nodes G) sync_directory (\<lambda>_. on_nodes G) (\<lambda>_. on_nodes G)"
  unfolding sync_directory_def by (intro triple_reading triple_and_then [OF triple_vault_io triple_vault_io])

lemma triple_vault_metadata:
  "triple (on_nodes G) (vault_metadata p)
     (\<lambda>n. on_nodes (\<lambda>N. G N \<and> bt_get N p = Some n)) (\<lambda>_. on_nodes G)"
  unfolding vault_metadata_def
  by (rule triple_after_io) (auto simp: on_nodes_def split: option.splits)

lemma triple_vault_open:
  "triple (on_nodes (\<lambda>N. G N \<and> bt_get N p = Some (File_Node c))) (vault_open p)
     (\<lambda>b. on_nodes (\<lambda>N. G N \<and> bt_get N p = Some (File_Node c) \<and> b = c)) (\<lambda>_. on_nodes G)"
  unfolding vault_open_def
  by (rule triple_after_io) (auto simp: on_nodes_def)

lemma triple_check_directory [wp]:
  "triple (on_nodes G) (check_directory d) (\<lambda>_. on_nodes G) (\<lambda>_. on_nodes G)"
  unfolding check_directory_def
proof (rule triple_and_then [OF triple_reading [OF triple_vault_metadata]])
  show "triple (on_nodes (\<lambda>N. G N \<and> bt_get N d = Some n))
      (if n \<noteq> Dir_Node then err (Read_Error ''archive thread directory must not be a symlink'') else ok ())
      (\<lambda>_. on_nodes G) (\<lambda>_. on_nodes G)" for n
    by (cases n) (auto intro!: triple_errI triple_okI simp: on_nodes_def)
qed

lemma triple_open_snapshot:
  assumes "archive_paths a t i = Inr (d, p)"
  shows "triple (on_nodes G) (open_snapshot a t i)
     (\<lambda>c. on_nodes (\<lambda>N. G N \<and> bt_get N p = Some (File_Node c) \<and> length c \<le> av_max_output_bytes a))
     (\<lambda>_. on_nodes G)"
  unfolding open_snapshot_def assms sum.case prod.case
proof (rule triple_and_then [OF triple_check_directory], rule triple_and_then [OF triple_reading [OF triple_vault_metadata]])
  fix u n
  show "triple (on_nodes (\<lambda>N. G N \<and> bt_get N p = Some n))
      (case n of
         File_Node bytes \<Rightarrow>
           if av_max_output_bytes a < length bytes
           then err (Read_Error ''archive snapshot is not a bounded regular file'')
           else reading (vault_open p)
       | _ \<Rightarrow> err (Read_Error ''archive snapshot is not a bounded regular file''))
      (\<lambda>c. on_nodes (\<lambda>N. G N \<and> bt_get N p = Some (File_Node c) \<and> length c \<le> av_max_output_bytes a))
      (\<lambda>_. on_nodes G)"
  proof (cases n)
    case (File_Node c)
    show ?thesis
    proof (cases "av_max_output_bytes a < length c")
      case True
      then show ?thesis by (simp add: File_Node) (auto intro!: triple_errI simp: on_nodes_def)
    next
      case False
      then show ?thesis
        unfolding File_Node node.case if_not_P [OF False]
        by (intro triple_weaken [OF triple_reading [OF triple_vault_open]]) (auto simp: on_nodes_def)
    qed
  qed (auto intro!: triple_errI simp: on_nodes_def)
qed

lemma triple_confirm_snapshot:
  assumes "archive_paths a t i = Inr (d, p)" and "length bytes \<le> av_max_output_bytes a"
  shows "triple (on_nodes G) (confirm_snapshot a t i bytes)
     (\<lambda>_. on_nodes (\<lambda>N. G N \<and> bt_get N p = Some (File_Node bytes))) (\<lambda>_. on_nodes G)"
  unfolding confirm_snapshot_def
proof (rule triple_and_then [OF triple_open_snapshot [OF assms(1)]])
  fix c
  let ?C = "\<lambda>N. G N \<and> bt_get N p = Some (File_Node c) \<and> length c \<le> av_max_output_bytes a"
  let ?B = "\<lambda>N. G N \<and> bt_get N p = Some (File_Node bytes)"
  have io: "triple (on_nodes ?C) (reading vault_io) (\<lambda>_. on_nodes ?C) (\<lambda>_. on_nodes G)"
    by (rule triple_weaken [OF triple_reading [OF triple_vault_io [of ?C]]]) (auto simp: on_nodes_def)
  have again: "triple (on_nodes ?B) (open_snapshot a t i) (\<lambda>_. on_nodes ?B) (\<lambda>_. on_nodes G)"
    by (rule triple_weaken [OF triple_open_snapshot [OF assms(1)], of _ ?B]) (auto simp: on_nodes_def)
  have sync: "triple (on_nodes ?B) (reading vault_io) (\<lambda>_. on_nodes ?B) (\<lambda>_. on_nodes G)"
    by (rule triple_weaken [OF triple_reading [OF triple_vault_io [of ?B]]]) (auto simp: on_nodes_def)
  have same: "triple (on_nodes ?C)
      (if take (av_max_output_bytes a + 1) c \<noteq> bytes
       then err (Read_Error ''archive snapshot conflict; refusing overwrite'')
       else and_then (open_snapshot a t i) (\<lambda>_. reading vault_io)) (\<lambda>_. on_nodes ?B) (\<lambda>_. on_nodes G)"
  proof (cases "take (av_max_output_bytes a + 1) c = bytes")
    case True
    have "triple (on_nodes ?C) (and_then (open_snapshot a t i) (\<lambda>_. reading vault_io))
        (\<lambda>_. on_nodes ?B) (\<lambda>_. on_nodes G)"
      by (rule triple_pre [OF triple_and_then [OF again sync]]) (use True in \<open>auto simp: on_nodes_def\<close>)
    with True show ?thesis by simp
  next
    case False
    then show ?thesis by (auto intro!: triple_errI simp: on_nodes_def)
  qed
  show "triple (on_nodes ?C)
      (and_then (reading vault_io) (\<lambda>_.
         if take (av_max_output_bytes a + 1) c \<noteq> bytes
         then err (Read_Error ''archive snapshot conflict; refusing overwrite'')
         else and_then (open_snapshot a t i) (\<lambda>_. reading vault_io))) (\<lambda>_. on_nodes ?B) (\<lambda>_. on_nodes G)"
    by (rule triple_and_then [OF io same])
qed

section \<open>Retaining\<close>

text \<open>What retaining \<open>bytes\<close> may have done to the entries \<open>N\<close>, at any time.\<close>

definition kept :: "path \<Rightarrow> path \<Rightarrow> string \<Rightarrow> (path \<times> node) list \<Rightarrow> (path \<times> node) list \<Rightarrow> bool" where
  "kept d p bytes N M \<longleftrightarrow>
     (\<forall>q. \<not> is_pending q \<longrightarrow> bt_get M q = bt_get N q \<or>
        bt_get N q = None \<and>
          (q = d \<and> bt_get M q = Some Dir_Node \<or> q = p \<and> bt_get M q = Some (File_Node bytes)))"

lemma kept_refl: "kept d p bytes N N"
  by (simp add: kept_def)

lemma kept_pending: "is_pending q \<Longrightarrow> kept d p bytes N (bt_insert q n M) = kept d p bytes N M"
  "is_pending q \<Longrightarrow> kept d p bytes N (bt_remove q M) = kept d p bytes N M"
  by (auto simp: kept_def)

lemma kept_directory: "kept d p bytes N M \<Longrightarrow> bt_get M d = None \<Longrightarrow> kept d p bytes N (bt_insert d Dir_Node M)"
  by (auto simp: kept_def)

lemma kept_snapshot:
  "kept d p bytes N M \<Longrightarrow> bt_get M p = None \<Longrightarrow> kept d p bytes N (bt_insert p (File_Node bytes) M)"
  by (auto simp: kept_def)

lemma triple_ensure_directory:
  "triple (on_nodes (kept d p bytes N)) (ensure_directory d)
     (\<lambda>_. on_nodes (kept d p bytes N)) (\<lambda>_. on_nodes (kept d p bytes N))"
  unfolding ensure_directory_def
proof (rule triple_attempt [where R = "\<lambda>_. on_nodes (kept d p bytes N)"])
  show "triple (on_nodes (kept d p bytes N)) (vault_create_dir d)
      (\<lambda>_. on_nodes (kept d p bytes N)) (\<lambda>_. on_nodes (kept d p bytes N))"
    unfolding vault_create_dir_def
    by (rule triple_after_io) (auto simp: on_nodes_def kept_directory split: if_splits)
  show "triple (on_nodes (kept d p bytes N))
      (case created of
         Inl Already_Exists \<Rightarrow> ok ()
       | Inl e \<Rightarrow> err (Read_Error (os_error_text e))
       | Inr _ \<Rightarrow> sync_directory)
      (\<lambda>_. on_nodes (kept d p bytes N)) (\<lambda>_. on_nodes (kept d p bytes N))" for created :: "os_error + unit"
    by (auto intro!: triple_okI triple_errI triple_sync_directory split: sum.splits os_error.splits)
qed

lemma triple_vault_EventId: "triple (on_nodes G) vault_EventId (\<lambda>_. on_nodes G) E"
  by (rule tripleI) (auto simp: vault_EventId_def on_nodes_def split: prod.splits)

lemma triple_publish_snapshot:
  assumes "\<not> is_pending p"
  shows "triple (on_nodes (kept d p bytes N)) (publish_snapshot d p bytes)
     (\<lambda>_. on_nodes (\<lambda>M. kept d p bytes N M \<and> bt_get M p = Some (File_Node bytes)))
     (\<lambda>_. on_nodes (kept d p bytes N))"
  unfolding publish_snapshot_def Let_def
proof (rule triple_and_then [OF triple_vault_EventId])
  fix i
  let ?q = "pending_path d i"
  let ?K = "on_nodes (kept d p bytes N)"
  let ?P = "\<lambda>c. on_nodes (\<lambda>M. kept d p bytes N M \<and> bt_get M ?q = Some (File_Node c))"
  let ?D = "on_nodes (\<lambda>M. kept d p bytes N M \<and> bt_get M p = Some (File_Node bytes))"
  have q: "?q \<noteq> p" using assms is_pending_path by metis
  have create: "triple ?K (vault_create_new ?q) (\<lambda>_. ?K) (\<lambda>_. ?K)"
    unfolding vault_create_new_def
    by (rule triple_after_io) (auto simp: on_nodes_def kept_pending split: if_splits)
  have "triple ?K (vault_write ?q bytes) (\<lambda>_. ?P bytes) (\<lambda>_. ?K)"
    by (rule tripleI)
      (auto simp: vault_write_def on_nodes_def kept_pending
        split: prod.splits io_outcome.splits)
  then have written: "triple ?K (reading (vault_write ?q bytes)) (\<lambda>_. ?P bytes) (\<lambda>_. ?K)"
    by (rule triple_reading)
  have synced: "triple (?P bytes) (reading vault_io) (\<lambda>_. ?P bytes) (\<lambda>_. ?K)"
    by (rule triple_weaken [OF triple_reading [OF triple_vault_io
        [of "\<lambda>M. kept d p bytes N M \<and> bt_get M ?q = Some (File_Node bytes)"]]]) (auto simp: on_nodes_def)
  have "triple (?P bytes) (vault_hard_link ?q p) (\<lambda>_. ?D) (\<lambda>_. ?K)"
    unfolding vault_hard_link_def
    by (rule triple_after_io) (auto simp: on_nodes_def kept_snapshot split: if_splits)
  then have linked: "triple (?P bytes) (reading (vault_hard_link ?q p)) (\<lambda>_. ?D) (\<lambda>_. ?K)"
    by (rule triple_reading)
  have body: "triple ?K (and_then (reading (vault_write ?q bytes)) (\<lambda>_.
        and_then (reading vault_io) (\<lambda>_. reading (vault_hard_link ?q p)))) (\<lambda>_. ?D) (\<lambda>_. ?K)"
    by (intro triple_and_then [OF written] triple_and_then [OF synced linked])
  let ?R = "\<lambda>result. case result of Inl _ \<Rightarrow> ?K | Inr _ \<Rightarrow> ?D"
  have remove: "triple (?R result) (vault_remove_file ?q) (\<lambda>_. ?R result) (\<lambda>_. ?R result)"
    for result :: "context_error + unit"
    unfolding vault_remove_file_def
    by (cases result; simp; rule triple_after_io)
      (use q in \<open>auto simp: writes_def on_nodes_def kept_pending\<close>)
  have finish: "triple (?R result) (case result of
        Inl e \<Rightarrow> err e
      | Inr _ \<Rightarrow> (case cleanup of Inl e \<Rightarrow> err (Read_Error (os_error_text e)) | Inr _ \<Rightarrow> ok ()))
      (\<lambda>_. ?D) (\<lambda>_. ?K)" for result :: "context_error + unit" and cleanup :: "os_error + unit"
    by (cases result; cases cleanup) (auto intro!: triple_okI triple_errI simp: on_nodes_def)
  show "triple ?K
      (and_then (reading (vault_create_new ?q)) (\<lambda>_.
         attempt (and_then (reading (vault_write ?q bytes)) (\<lambda>_.
           and_then (reading vault_io) (\<lambda>_. reading (vault_hard_link ?q p)))) (\<lambda>result.
         attempt (vault_remove_file ?q) (\<lambda>cleanup.
           case result of
             Inl e \<Rightarrow> err e
           | Inr _ \<Rightarrow> (case cleanup of Inl e \<Rightarrow> err (Read_Error (os_error_text e)) | Inr _ \<Rightarrow> ok ())))))
      (\<lambda>_. ?D) (\<lambda>_. ?K)"
  proof (rule triple_and_then [OF triple_reading [OF create]], rule triple_attempt [where R = ?R])
    fix result :: "context_error + unit"
    show "triple (?R result) (attempt (vault_remove_file ?q) (\<lambda>cleanup.
        case result of
          Inl e \<Rightarrow> err e
        | Inr _ \<Rightarrow> (case cleanup of Inl e \<Rightarrow> err (Read_Error (os_error_text e)) | Inr _ \<Rightarrow> ok ())))
        (\<lambda>_. ?D) (\<lambda>_. ?K)"
      by (rule triple_attempt [where R = "\<lambda>_. ?R result", OF remove finish])
  qed (use body in simp)
qed

lemma triple_retain:
  assumes "archive_paths a t i = Inr (d, p)"
  shows "triple (on_nodes (kept d p bytes N)) (retain a t i bytes)
     (\<lambda>_. on_nodes (\<lambda>M. kept d p bytes N M \<and> bt_get M p = Some (File_Node bytes)))
     (\<lambda>_. on_nodes (kept d p bytes N))"
proof (cases "av_max_output_bytes a < length bytes \<or> av_poisoned a")
  case True
  then show ?thesis by (auto simp: retain_def intro: triple_err)
next
  case False
  let ?K = "on_nodes (kept d p bytes N)"
  let ?G = "\<lambda>M. kept d p bytes N M \<and> bt_get M p = Some (File_Node bytes)"
  note p = archive_paths_names(1) [OF assms]
  have either: "triple ?K (attempt (vault_metadata p) (\<lambda>metadata.
      case metadata of
        Inr _ \<Rightarrow> confirm_snapshot a t i bytes
      | Inl _ \<Rightarrow> publish_snapshot d p bytes)) (\<lambda>_. on_nodes ?G) (\<lambda>_. ?K)"
  proof (rule triple_attempt [where R = "\<lambda>_. ?K"])
    show "triple ?K (vault_metadata p) (\<lambda>_. ?K) (\<lambda>_. ?K)"
      by (rule triple_weaken [OF triple_vault_metadata [of "kept d p bytes N"]]) (auto simp: on_nodes_def)
    show "triple ?K (case metadata of
        Inr _ \<Rightarrow> confirm_snapshot a t i bytes | Inl _ \<Rightarrow> publish_snapshot d p bytes)
        (\<lambda>_. on_nodes ?G) (\<lambda>_. ?K)" for metadata :: "os_error + node"
      using triple_confirm_snapshot [OF assms] triple_publish_snapshot [OF p] False
      by (cases metadata) auto
  qed
  have "triple (on_nodes ?G) sync_directory (\<lambda>_. on_nodes ?G) (\<lambda>_. ?K)"
    by (rule triple_weaken [OF triple_sync_directory [of ?G]]) (auto simp: on_nodes_def)
  then have "triple ?K (and_then (ensure_directory d) (\<lambda>_. and_then (check_directory d) (\<lambda>_.
      and_then (attempt (vault_metadata p) (\<lambda>metadata.
        case metadata of
          Inr _ \<Rightarrow> confirm_snapshot a t i bytes
        | Inl _ \<Rightarrow> publish_snapshot d p bytes)) (\<lambda>_. sync_directory))))
      (\<lambda>_. on_nodes ?G) (\<lambda>_. ?K)"
    by (intro triple_and_then [OF triple_ensure_directory] triple_and_then [OF triple_check_directory]
        triple_and_then [OF either])
  with False show ?thesis by (simp add: retain_def assms)
qed

section \<open>The contract of a store of snapshots\<close>

text \<open>What the compiler that replaces outputs relies on: a snapshot, once there, stays as it is; only
  the snapshot that is being retained can appear, whole; and success means that it is there.\<close>

locale snapshot_store =
  fixes retain_snapshot :: "'t \<Rightarrow> 'c \<Rightarrow> string \<Rightarrow> 's \<Rightarrow> (context_error + unit) \<times> 's"
    and snap :: "'s \<Rightarrow> 't \<Rightarrow> 'c \<Rightarrow> string option"
  assumes retained: "retain_snapshot t i b s = (Inr u, s') \<Longrightarrow> snap s' t i = Some b"
    and immutable: "retain_snapshot t i b s = (r, s') \<Longrightarrow> snap s t' i' = Some c \<Longrightarrow> snap s' t' i' = Some c"
    and others: "retain_snapshot t i b s = (r, s') \<Longrightarrow> (t', i') \<noteq> (t, i) \<Longrightarrow> snap s' t' i' = snap s t' i'"
    and complete: "retain_snapshot t i b s = (r, s') \<Longrightarrow> snap s' t i = snap s t i \<or> snap s' t i = Some b"
begin

fun retain_all :: "('t \<times> 'c \<times> string) list \<Rightarrow> 's \<Rightarrow> (context_error + unit) \<times> 's" where
  "retain_all [] s = (Inr (), s)"
| "retain_all ((t, i, b) # rest) s =
     (case retain_snapshot t i b s of (Inl e, s') \<Rightarrow> (Inl e, s') | (Inr u, s') \<Rightarrow> retain_all rest s')"

lemma retain_all_immutable: "retain_all rs s = (r, s') \<Longrightarrow> snap s t i = Some c \<Longrightarrow> snap s' t i = Some c"
proof (induction rs s rule: retain_all.induct)
  case (2 t' i' b rest s)
  obtain q s1 where q: "retain_snapshot t' i' b s = (q, s1)" by (meson surj_pair)
  note stays = immutable [OF q 2(3)]
  show ?case
  proof (cases q)
    case (Inl e)
    with 2(2) q stays show ?thesis by simp
  next
    case (Inr u)
    with 2(2) q 2(1) [OF q [symmetric] Inr _ stays] show ?thesis by simp
  qed
qed simp

lemma retain_all_retained: "retain_all rs s = (Inr u, s') \<Longrightarrow> (t, i, b) \<in> set rs \<Longrightarrow> snap s' t i = Some b"
proof (induction rs arbitrary: s)
  case (Cons x rs)
  obtain t' i' b' where x: "x = (t', i', b')" by (cases x) auto
  from Cons.prems(1) obtain v s1 where run: "retain_snapshot t' i' b' s = (Inr v, s1)" "retain_all rs s1 = (Inr u, s')"
    by (auto simp: x split: prod.splits sum.splits)
  show ?case
  proof (cases "(t, i, b) = x")
    case True
    then have "snap s1 t i = Some b" using retained [OF run(1)] by (simp add: x)
    then show ?thesis by (rule retain_all_immutable [OF run(2)])
  next
    case False
    then show ?thesis using Cons.IH [OF run(2)] Cons.prems(2) by simp
  qed
qed simp

end

definition snapshot_of :: "output_archive \<Rightarrow> vault \<Rightarrow> thread_id \<Rightarrow> string \<Rightarrow> string option" where
  "snapshot_of a s t i =
     (case archive_paths a t i of
        Inl _ \<Rightarrow> None
      | Inr (d, p) \<Rightarrow> (case node_at s p of Some (File_Node c) \<Rightarrow> Some c | _ \<Rightarrow> None))"

lemma retain_nodes:
  assumes "retain a t i bytes s = (r, s')" and "archive_paths a t i = Inr (d, p)"
  shows "kept d p bytes (va_nodes s) (va_nodes s')" and "r = Inr u \<Longrightarrow> node_at s' p = Some (File_Node bytes)"
proof -
  have s: "on_nodes (kept d p bytes (va_nodes s)) s" by (simp add: on_nodes_def kept_refl)
  show "kept d p bytes (va_nodes s) (va_nodes s')" and "r = Inr u \<Longrightarrow> node_at s' p = Some (File_Node bytes)"
    using triple_value [OF triple_retain [OF assms(2)] s] triple_error [OF triple_retain [OF assms(2)] s] assms(1)
    by (cases r; force simp: on_nodes_def)+
qed

lemma retain_unnamed:
  "retain a t i bytes s = (r, s') \<Longrightarrow> archive_paths a t i = Inl e \<Longrightarrow> s' = s \<and> (\<exists>x. r = Inl x)"
  by (auto simp: retain_def err_def split: if_splits)

lemma retain_snapshots:
  assumes "retain a t i bytes s = (r, s')"
  shows "snapshot_of a s' t' i' = snapshot_of a s t' i' \<or>
      (t', i') = (t, i) \<and> snapshot_of a s t i = None \<and> snapshot_of a s' t i = Some bytes"
proof (cases "archive_paths a t i")
  case (Inl e)
  then show ?thesis using retain_unnamed [OF assms] by simp
next
  case (Inr dp)
  obtain d p where "dp = (d, p)" by (cases dp)
  with Inr have dp: "archive_paths a t i = Inr (d, p)" by simp
  note k = retain_nodes(1) [OF assms dp]
  show ?thesis
  proof (cases "archive_paths a t' i'")
    case (Inl e)
    then show ?thesis by (simp add: snapshot_of_def)
  next
    case (Inr dp')
    obtain d' p' where "dp' = (d', p')" by (cases dp')
    with Inr have dp': "archive_paths a t' i' = Inr (d', p')" by simp
    have "\<not> is_pending p'" and "p' \<noteq> d"
      using archive_paths_names [OF dp'] archive_paths_names [OF dp] by auto
    then have "node_at s' p' = node_at s p' \<or>
        node_at s p' = None \<and> p' = p \<and> node_at s' p' = Some (File_Node bytes)"
      using k by (auto simp: kept_def)
    moreover have "t' = t \<and> i' = i" if "p' = p"
      using archive_paths_inject [OF dp dp' [unfolded that]] by simp
    ultimately show ?thesis using dp dp' by (auto simp: snapshot_of_def)
  qed
qed

lemma retain_success: "retain a t i bytes s = (Inr u, s') \<Longrightarrow> snapshot_of a s' t i = Some bytes"
  by (cases "archive_paths a t i") (auto simp: snapshot_of_def dest: retain_unnamed retain_nodes(2))

interpretation archive: snapshot_store "retain a" "snapshot_of a" for a
proof unfold_locales
  fix t i b s r s' t' i' c and u :: unit
  assume run: "retain a t i b s = (r, s')"
  show "snapshot_of a s t' i' = Some c \<Longrightarrow> snapshot_of a s' t' i' = Some c"
    using retain_snapshots [OF run, of t' i'] by auto
  show "(t', i') \<noteq> (t, i) \<Longrightarrow> snapshot_of a s' t' i' = snapshot_of a s t' i'"
    using retain_snapshots [OF run, of t' i'] by auto
  show "snapshot_of a s' t i = snapshot_of a s t i \<or> snapshot_of a s' t i = Some b"
    using retain_snapshots [OF run, of t i] by auto
qed (rule retain_success)

text \<open>C19 Snapshots are immutable and whole: whatever I/O fails while an output is retained, no snapshot
  that was there changes, no snapshot of another call appears or changes (the names of two calls
  never collide), the snapshot of this call is absent or complete and never partial, and success
  means that the archive holds exactly the bytes that were given.\<close>

theorem snapshots_immutable:
  assumes "retain a t i bytes s = (r, s')"
  shows "(\<forall>t' i' c. snapshot_of a s t' i' = Some c \<longrightarrow> snapshot_of a s' t' i' = Some c) \<and>
    (\<forall>t' i'. (t', i') \<noteq> (t, i) \<longrightarrow> snapshot_of a s' t' i' = snapshot_of a s t' i') \<and>
    (snapshot_of a s' t i = snapshot_of a s t i \<or> snapshot_of a s' t i = Some bytes) \<and>
    (r = Inr () \<longrightarrow> snapshot_of a s' t i = Some bytes)"
proof -
  have "snapshot_of a s' t i = Some bytes" if "r = Inr ()"
    using assms unfolding that by (rule archive.retained)
  then show ?thesis
    using archive.immutable [OF assms] archive.others [OF assms] archive.complete [OF assms] by simp
qed

section \<open>No output is lost\<close>

text \<open>What may stand for a message of the transcript when the archive is \<open>s\<close>.\<close>

definition stands_for ::
  "output_archive \<Rightarrow> nat \<Rightarrow> (json \<Rightarrow> string + string) \<Rightarrow> thread_id \<Rightarrow> vault \<Rightarrow>
   transcript_message \<Rightarrow> transcript_message \<Rightarrow> bool" where
  "stands_for a inline_bytes to_vec t s m m' \<longleftrightarrow>
     (case m of
        Tool_Result r \<Rightarrow>
          (if tr_tool_name r = ''read_output'' then m' = m
           else case tr_output r of
             None \<Rightarrow> m' = m
           | Some v \<Rightarrow> \<exists>bytes. to_vec v = Inr bytes \<and>
               (if inline_bytes < length bytes
                then m' = Tool_Result (r\<lparr>tr_output := Some (output_reference (tr_call_id r) (length bytes))\<rparr>) \<and>
                  snapshot_of a s t (tr_call_id r) = Some bytes
                else m' = m))
      | _ \<Rightarrow> m' = m)"

lemma externalize_receipt_result:
  assumes "externalize_receipt a n to_vec t r s = (q, s')"
  shows "\<forall>t' i c. snapshot_of a s t' i = Some c \<longrightarrow> snapshot_of a s' t' i = Some c"
    and "\<forall>r'. q = Inr r' \<longrightarrow> stands_for a n to_vec t s' (Tool_Result r) (Tool_Result r')"
proof -
  have "(\<forall>t' i c. snapshot_of a s t' i = Some c \<longrightarrow> snapshot_of a s' t' i = Some c) \<and>
      (\<forall>r'. q = Inr r' \<longrightarrow> stands_for a n to_vec t s' (Tool_Result r) (Tool_Result r'))"
  proof (cases "\<exists>v bytes. tr_tool_name r \<noteq> ''read_output'' \<and> tr_output r = Some v \<and>
      to_vec v = Inr bytes \<and> n < length bytes")
    case False
    then show ?thesis using assms
      by (auto simp: externalize_receipt_def stands_for_def act_defs split: option.splits sum.splits if_splits)
  next
    case True
    then obtain v bytes where big: "tr_tool_name r \<noteq> ''read_output''" "tr_output r = Some v"
      "to_vec v = Inr bytes" "n < length bytes" by blast
    obtain x s1 where x: "retain a t (tr_call_id r) bytes s = (x, s1)" by (meson surj_pair)
    have "s' = s1" using assms big x by (auto simp: externalize_receipt_def act_defs split: sum.splits)
    then show ?thesis
      using assms big x archive.immutable [OF x] archive.retained [of a t "tr_call_id r" bytes s "()" s1]
      by (cases x) (auto simp: externalize_receipt_def stands_for_def act_defs)
  qed
  then show "\<forall>t' i c. snapshot_of a s t' i = Some c \<longrightarrow> snapshot_of a s' t' i = Some c"
    and "\<forall>r'. q = Inr r' \<longrightarrow> stands_for a n to_vec t s' (Tool_Result r) (Tool_Result r')" by simp_all
qed

lemma stands_for_later:
  "stands_for a n to_vec t s m m' \<Longrightarrow>
   \<forall>t' i c. snapshot_of a s t' i = Some c \<longrightarrow> snapshot_of a s' t' i = Some c \<Longrightarrow>
   stands_for a n to_vec t s' m m'"
  by (auto simp: stands_for_def split: transcript_message.splits option.splits if_splits)

lemma externalize_result:
  assumes "externalize a n to_vec t ms s = (q, s')"
  shows "(\<forall>t' i c. snapshot_of a s t' i = Some c \<longrightarrow> snapshot_of a s' t' i = Some c) \<and>
    (\<forall>ms'. q = Inr ms' \<longrightarrow> list_all2 (stands_for a n to_vec t s') ms ms')"
  using assms
proof (induction ms arbitrary: q s s')
  case Nil
  then show ?case by (auto simp: act_defs)
next
  case (Cons m ms)
  obtain x s1 where x: "(case m of
      Tool_Result receipt \<Rightarrow> and_then (externalize_receipt a n to_vec t receipt) (\<lambda>r. ok (Tool_Result r))
    | _ \<Rightarrow> ok m) s = (x, s1)" by (meson surj_pair)
  have first: "(\<forall>t' i c. snapshot_of a s t' i = Some c \<longrightarrow> snapshot_of a s1 t' i = Some c) \<and>
      (\<forall>m'. x = Inr m' \<longrightarrow> stands_for a n to_vec t s1 m m')"
  proof (cases m)
    case (Tool_Result r)
    obtain y s2 where y: "externalize_receipt a n to_vec t r s = (y, s2)" by (meson surj_pair)
    with x Tool_Result externalize_receipt_result [OF y] show ?thesis
      by (cases y) (auto simp: act_defs)
  qed (use x in \<open>auto simp: act_defs stands_for_def\<close>)
  show ?case
  proof (cases x)
    case (Inl e)
    with Cons.prems x first show ?thesis by (auto simp: act_defs)
  next
    case (Inr m')
    obtain y s2 where y: "externalize a n to_vec t ms s1 = (y, s2)" by (meson surj_pair)
    have s': "s' = s2" "q = (case y of Inl e \<Rightarrow> Inl e | Inr ms' \<Rightarrow> Inr (m' # ms'))"
      using Cons.prems x Inr y by (auto simp: act_defs split: sum.splits)
    from Cons.IH [OF y] first Inr s' show ?thesis
      by (auto split: sum.splits intro: stands_for_later)
  qed
qed

text \<open>C21 No output is lost: when a compilation succeeds, the inner compiler saw a transcript of the same
  messages in the same order in which only large outputs differ, each replaced by a reference to a
  snapshot that the archive then holds with exactly the output's bytes; pages that were read back
  are never replaced; and no snapshot of an earlier compilation is lost, even when this one fails.\<close>

theorem outputs_never_lost:
  assumes "external_compile a inline_bytes to_vec inner input s = (r, s')"
  shows "(\<forall>t i c. snapshot_of a s t i = Some c \<longrightarrow> snapshot_of a s' t i = Some c) \<and>
    (\<forall>compiled. r = Inr compiled \<longrightarrow>
       (\<exists>messages. inner (input\<lparr>ci_transcript := messages\<rparr>) = Inr compiled \<and>
          list_all2 (stands_for a inline_bytes to_vec (ci_thread_id input) s') (ci_transcript input) messages))"
proof -
  obtain q s1 where q: "externalize a inline_bytes to_vec (ci_thread_id input) (ci_transcript input) s = (q, s1)"
    by (meson surj_pair)
  note kept = externalize_result [OF q]
  show ?thesis
  proof (cases q)
    case (Inl e)
    with assms q have "s' = s1" "r = Inl e" by (simp_all add: external_compile_def act_defs)
    with kept show ?thesis by simp
  next
    case (Inr messages)
    with assms q have "s' = s1" "r = inner (input\<lparr>ci_transcript := messages\<rparr>)"
      by (auto simp: external_compile_def act_defs split: sum.splits)
    with kept Inr show ?thesis by auto
  qed
qed

end
