(* ===== verification/ArchivePages.thy ===== *)
theory ArchivePages
  imports ArchiveProperties
begin

text \<open>
  Reading a snapshot back in pages: no page splits a character, every page makes progress and
  together they are the snapshot. Then the tool that reads pages, and samples of the archive.
\<close>

section \<open>Checking for UTF-8\<close>

abbreviation utf8_run :: "utf8_state \<Rightarrow> string \<Rightarrow> utf8_state" where
  "utf8_run q s \<equiv> foldl (\<lambda>q c. utf8_step q (byte c)) q s"

lemma utf8_malformed [simp]: "utf8_run Malformed s = Malformed"
  by (induction s) simp_all

lemma utf8_first_due: "utf8_first b \<noteq> After_E0 \<Longrightarrow> utf8_first b \<noteq> After_ED \<Longrightarrow> utf8_first b \<noteq> After_F0 \<Longrightarrow>
    utf8_first b \<noteq> After_F4 \<Longrightarrow> utf8_first b \<noteq> Due1 \<Longrightarrow> utf8_first b \<noteq> Due2 \<Longrightarrow> utf8_first b \<noteq> Due3 \<Longrightarrow>
    utf8_first b \<noteq> Malformed \<Longrightarrow> utf8_first b = Char_Start"
  by (cases "utf8_first b") simp_all

text \<open>How many bytes of a character may have been read in a state.\<close>

fun utf8_read :: "utf8_state \<Rightarrow> nat" where
  "utf8_read Char_Start = 0"
| "utf8_read Due1 = 3"
| "utf8_read Due2 = 2"
| "utf8_read _ = 1"

lemma utf8_read_step: "utf8_step q b \<noteq> Malformed \<Longrightarrow> utf8_step q b \<noteq> Char_Start \<Longrightarrow>
    q = Char_Start \<or> Suc (utf8_read q) \<le> utf8_read (utf8_step q b)"
  by (cases q) (auto split: if_splits)

lemma utf8_read_first: "utf8_step Char_Start b \<noteq> Malformed \<Longrightarrow> utf8_step Char_Start b \<noteq> Char_Start \<Longrightarrow>
    1 \<le> utf8_read (utf8_step Char_Start b)"
  by (cases "utf8_first b") simp_all

text \<open>A text that is not malformed is a string, or ends within its last character, of which at most
  three bytes are there.\<close>

lemma utf8_check_result:
  assumes "utf8_run q s \<noteq> Malformed" and "q \<noteq> Char_Start \<longrightarrow> start < pos \<and> pos - start \<le> utf8_read q"
  shows "if utf8_run q s = Char_Start then utf8_check q start pos s = Utf8_Ok
    else \<exists>i. utf8_check q start pos s = Utf8_Incomplete i \<and> pos + length s \<le> i + 3 \<and> i < pos + length s \<and>
      (if i < pos then i = start else utf8_run q (take (i - pos) s) = Char_Start)"
  using assms
proof (induction q start pos s rule: utf8_check.induct)
  case (1 q start pos)
  have "utf8_read q \<le> 3" by (cases q) simp_all
  with 1 show ?case by auto
next
  case (2 q start pos c s)
  let ?q = "utf8_step q (byte c)"
  let ?start = "if q = Char_Start then pos else start"
  have run: "utf8_run ?q s \<noteq> Malformed" using 2(2) by simp
  then have q: "?q \<noteq> Malformed" by auto
  have inv: "?q \<noteq> Char_Start \<longrightarrow> ?start < pos + 1 \<and> pos + 1 - ?start \<le> utf8_read ?q"
    using utf8_read_step [OF q] utf8_read_first [of "byte c"] q 2(3) by (cases "q = Char_Start") auto
  have check: "utf8_check q start pos (c # s) = utf8_check ?q ?start (pos + 1) s"
    using q by (simp add: Let_def)
  from 2(1) [OF refl refl q run inv]
  have IH: "if utf8_run ?q s = Char_Start then utf8_check ?q ?start (pos + 1) s = Utf8_Ok
      else \<exists>i. utf8_check ?q ?start (pos + 1) s = Utf8_Incomplete i \<and> pos + 1 + length s \<le> i + 3 \<and>
        i < pos + 1 + length s \<and>
        (if i < pos + 1 then i = ?start else utf8_run ?q (take (i - (pos + 1)) s) = Char_Start)" .
  show ?case
  proof (cases "utf8_run ?q s = Char_Start")
    case True
    with IH check show ?thesis by simp
  next
    case False
    with IH obtain i where i: "utf8_check ?q ?start (pos + 1) s = Utf8_Incomplete i"
      "pos + 1 + length s \<le> i + 3" "i < pos + 1 + length s"
      "if i < pos + 1 then i = ?start else utf8_run ?q (take (i - (pos + 1)) s) = Char_Start" by auto
    have "if i < pos then i = start else utf8_run q (take (i - pos) (c # s)) = Char_Start"
    proof (cases "i < pos + 1")
      case True
      with i(4) 2(3) show ?thesis by (cases "q = Char_Start") auto
    next
      case False
      then obtain k where "i = pos + 1 + k" by (metis le_iff_add linorder_not_le)
      with i(4) show ?thesis by simp
    qed
    with False check i show ?thesis by auto
  qed
qed

lemma from_utf8_prefix:
  assumes "utf8_run Char_Start (s @ later) = Char_Start"
  shows "from_utf8 s = Utf8_Ok \<and> valid_utf8 s \<or>
    (\<exists>i. from_utf8 s = Utf8_Incomplete i \<and> length s \<le> i + 3 \<and> i < length s \<and> valid_utf8 (take i s) \<and> later \<noteq> [])"
proof -
  have "utf8_run Char_Start s \<noteq> Malformed" using assms by auto
  from utf8_check_result [OF this, of 0 0] assms show ?thesis
    by (cases "later = []") (auto simp: valid_utf8_def split: if_splits)
qed

lemma valid_utf8_append: "valid_utf8 s \<Longrightarrow> valid_utf8 (s @ t) \<longleftrightarrow> valid_utf8 t"
  by (simp add: valid_utf8_def)

section \<open>Pages\<close>

text \<open>What one page of a snapshot may hold.\<close>

definition page_of :: "string \<Rightarrow> nat \<Rightarrow> nat \<Rightarrow> string \<Rightarrow> bool" where
  "page_of content offset limit body \<longleftrightarrow>
     (\<exists>rest. drop offset content = body @ rest) \<and> length body \<le> limit \<and> valid_utf8 body \<and>
     (offset < length content \<longrightarrow> body \<noteq> [])"

text \<open>An archive that is there and whose I/O works.\<close>

definition archive_works :: "output_archive \<Rightarrow> thread_id \<Rightarrow> vault \<Rightarrow> bool" where
  "archive_works a t s \<longleftrightarrow>
     (\<forall>n. h_io (va_host s) n = Io_ok) \<and>
     (\<forall>c. component t = Inr c \<longrightarrow> node_at s (av_root a @ [c]) = Some Dir_Node)"

definition same_archive :: "output_archive \<Rightarrow> thread_id \<Rightarrow> vault \<Rightarrow> vault \<Rightarrow> bool" where
  "same_archive a t s s' \<longleftrightarrow> va_nodes s' = va_nodes s \<and> (archive_works a t s \<longrightarrow> archive_works a t s')"

lemma same_archive_trans: "same_archive a t s1 s2 \<Longrightarrow> same_archive a t s2 s3 \<Longrightarrow> same_archive a t s1 s3"
  by (simp add: same_archive_def)

lemma same_archive_snapshot: "same_archive a t s s' \<Longrightarrow> snapshot_of a s' t' i = snapshot_of a s t' i"
  by (simp add: same_archive_def snapshot_of_def split: sum.split prod.split)

lemma reading_io_works:
  assumes "archive_works a t s"
  shows "\<exists>s'. reading vault_io s = (Inr (), s') \<and> same_archive a t s s'"
  using assms by (auto simp: reading_def vault_io_def io_step_def act_defs archive_works_def same_archive_def)

lemma open_snapshot_works:
  assumes "archive_works a t s" and "snapshot_of a s t i = Some c" and "length c \<le> av_max_output_bytes a"
  shows "\<exists>s'. open_snapshot a t i s = (Inr c, s') \<and> same_archive a t s s'"
proof -
  obtain d p where p: "archive_paths a t i = Inr (d, p)" "node_at s p = Some (File_Node c)"
    using assms(2) by (auto simp: snapshot_of_def split: sum.splits option.splits node.splits)
  have d: "node_at s d = Some Dir_Node"
    using p(1) assms(1) by (auto simp: archive_paths_def archive_works_def split: sum.splits)
  show ?thesis
    using assms p d
    by (auto simp: open_snapshot_def check_directory_def reading_def vault_metadata_def vault_open_def
        vault_io_def io_step_def act_defs archive_works_def same_archive_def)
qed

lemma read_page_works:
  assumes "archive_works a t s" and "snapshot_of a s t i = Some c" and "length c \<le> av_max_output_bytes a"
    and "valid_utf8 c" and "unat offset \<le> length c" and "valid_utf8 (take (unat offset) c)"
    and "4 \<le> limit" and "limit \<le> 4096"
  shows "\<exists>body s'. read_page a t i offset limit s =
      (Inr (page_json i body (unat offset + length body) (length c)), s') \<and>
      page_of c (unat offset) limit body \<and> same_archive a t s s'"
proof -
  let ?rest = "drop (unat offset) c"
  define bytes where "bytes = take limit ?rest"
  obtain s1 where s1: "open_snapshot a t i s = (Inr c, s1)" "same_archive a t s s1"
    using open_snapshot_works [OF assms(1-3)] by blast
  then have "archive_works a t s1" using assms(1) by (simp add: same_archive_def)
  then obtain s2 where s2: "reading vault_io s1 = (Inr (), s2)" "same_archive a t s1 s2"
    using reading_io_works by blast
  then have "archive_works a t s2" using \<open>archive_works a t s1\<close> by (simp add: same_archive_def)
  then obtain s3 where s3: "reading vault_io s2 = (Inr (), s3)" "same_archive a t s2 s3"
    using reading_io_works by blast
  then have "archive_works a t s3" using \<open>archive_works a t s2\<close> by (simp add: same_archive_def)
  then obtain s4 where s4: "reading vault_io s3 = (Inr (), s4)" "same_archive a t s3 s4"
    using reading_io_works by blast
  have same: "same_archive a t s s4"
    using s1(2) s2(2) s3(2) s4(2) by (blast intro: same_archive_trans)
  have "valid_utf8 ?rest" by (metis append_take_drop_id assms(4,6) valid_utf8_append)
  then have rest: "utf8_run Char_Start (bytes @ drop limit ?rest) = Char_Start"
    by (simp only: bytes_def append_take_drop_id valid_utf8_def)
  have run: "read_page a t i offset limit s =
      (case from_utf8 bytes of
         Utf8_Ok \<Rightarrow> (Inr (page_json i bytes (unat offset + length bytes) (length c)), s4)
       | Utf8_Incomplete valid \<Rightarrow>
           (if unat offset + length bytes < length c
            then (Inr (page_json i (take valid bytes) (unat offset + valid) (length c)), s4)
            else (Inl (Read_Error (utf8_error_text (Utf8_Incomplete valid))), s4))
       | e \<Rightarrow> (Inl (Read_Error (utf8_error_text e)), s4))"
    using assms(5,7,8) s1 s2 s3 s4
    by (auto simp: read_page_def act_defs Let_def bytes_def [symmetric] split: utf8_result.splits)
  from from_utf8_prefix [OF rest] show ?thesis
  proof (elim disjE exE conjE)
    assume whole: "from_utf8 bytes = Utf8_Ok" "valid_utf8 bytes"
    have "?rest = bytes @ drop limit ?rest" by (simp only: bytes_def append_take_drop_id)
    moreover have "length bytes \<le> limit" "unat offset < length c \<longrightarrow> bytes \<noteq> []"
      using assms(7) by (auto simp: bytes_def)
    ultimately have "page_of c (unat offset) limit bytes"
      using whole(2) unfolding page_of_def by blast
    with run whole(1) same show ?thesis by auto
  next
    fix valid
    assume part: "from_utf8 bytes = Utf8_Incomplete valid" "length bytes \<le> valid + 3"
      "valid < length bytes" "valid_utf8 (take valid bytes)" "drop limit ?rest \<noteq> []"
    then have inside: "unat offset + length bytes < length c" and "length bytes = limit" by (auto simp: bytes_def)
    have "valid \<le> limit" using part(3) by (simp add: bytes_def)
    then have "take valid bytes = take valid ?rest" by (simp add: bytes_def min_absorb1)
    then have "?rest = take valid bytes @ drop valid ?rest" by (simp only: append_take_drop_id)
    then have "page_of c (unat offset) limit (take valid bytes)"
      using part assms(7) \<open>length bytes = limit\<close> unfolding page_of_def by auto
    moreover have "length (take valid bytes) = valid" using part(3) by simp
    ultimately show ?thesis
      using run part(1) inside same by (intro exI [of _ "take valid bytes"] exI [of _ s4]) simp
  qed
qed

text \<open>A reader that follows the offsets it is given, one limit per page.\<close>

fun read_pages ::
  "output_archive \<Rightarrow> thread_id \<Rightarrow> string \<Rightarrow> u64 \<Rightarrow> nat list \<Rightarrow> (vault, context_error, string \<times> bool) act" where
  "read_pages a t i offset [] = ok ([], False)"
| "read_pages a t i offset (limit # limits) =
     and_then (read_page a t i offset limit) (\<lambda>page.
       case (jfield as_str page ''text'', jfield as_u64 page ''next_offset'', jfield as_bool page ''eof'') of
         (Some body, Some next_offset, Some eof) \<Rightarrow>
           if eof then ok (body, True)
           else and_then (read_pages a t i next_offset limits) (\<lambda>(rest, eof). ok (body @ rest, eof))
       | _ \<Rightarrow> err (Read_Error []))"

lemma page_json_fields:
  "jfield as_str (page_json i body n m) ''text'' = Some body"
  "jfield as_u64 (page_json i body n m) ''next_offset'' = Some (of_nat n)"
  "jfield as_bool (page_json i body n m) ''eof'' = Some (n = m)"
  by (simp_all add: page_json_def jfield_def)

lemma read_pages_works:
  assumes "archive_works a t s" and "snapshot_of a s t i = Some c" and "length c \<le> av_max_output_bytes a"
    and "length c < 2 ^ 64" and "valid_utf8 c" and "unat offset \<le> length c"
    and "valid_utf8 (take (unat offset) c)" and "\<forall>limit \<in> set limits. 4 \<le> limit \<and> limit \<le> 4096"
  shows "\<exists>body eof s'. read_pages a t i offset limits s = (Inr (body, eof), s') \<and>
    (\<exists>rest. drop (unat offset) c = body @ rest \<and> (eof \<longrightarrow> rest = [])) \<and> valid_utf8 body \<and>
    (limits \<noteq> [] \<and> length c - unat offset \<le> length limits \<longrightarrow> eof)"
  using assms
proof (induction limits arbitrary: offset s)
  case Nil
  then show ?case by (auto simp: act_defs valid_utf8_def intro: exI [of _ False])
next
  case (Cons limit limits)
  have limit: "4 \<le> limit" "limit \<le> 4096" using Cons.prems(8) by simp_all
  obtain body s1 where page: "read_page a t i offset limit s =
      (Inr (page_json i body (unat offset + length body) (length c)), s1)"
    "page_of c (unat offset) limit body" "same_archive a t s s1"
    using read_page_works [OF Cons.prems(1-3,5-7) limit] by (elim exE conjE)
  then obtain rest where rest: "drop (unat offset) c = body @ rest" and valid: "valid_utf8 body"
    and progress: "unat offset < length c \<longrightarrow> body \<noteq> []" by (auto simp: page_of_def)
  have c: "c = take (unat offset) c @ body @ rest" by (metis append_take_drop_id rest)
  have len: "unat offset + length body \<le> length c"
    using arg_cong [OF c, of length] Cons.prems(6) by simp
  show ?case
  proof (cases "unat offset + length body = length c")
    case True
    then have "length rest = 0" using arg_cong [OF rest, of length] unfolding length_drop length_append by arith
    then have "rest = []" by simp
    with True page(1) rest valid show ?thesis
      by (auto simp: act_defs page_json_fields)
  next
    case False
    let ?next = "of_nat (unat offset + length body) :: u64"
    have "unat offset + length body < 2 ^ 64" using len Cons.prems(4) by simp
    then have next_offset: "unat ?next = unat offset + length body"
      by (simp add: unat_of_nat take_bit_nat_eq_self del: of_nat_add)
    have "take (unat ?next) c = take (unat offset) c @ body"
      unfolding next_offset by (metis append_eq_conv_conj length_append take_add rest)
    then have "valid_utf8 (take (unat ?next) c)"
      using valid Cons.prems(7) by (simp add: valid_utf8_append)
    moreover have "archive_works a t s1" "snapshot_of a s1 t i = Some c"
      using page(3) Cons.prems(1,2) by (simp_all add: same_archive_snapshot) (simp add: same_archive_def)
    moreover have "unat ?next \<le> length c" using len next_offset by simp
    moreover have "\<forall>limit \<in> set limits. 4 \<le> limit \<and> limit \<le> 4096" using Cons.prems(8) by simp
    ultimately obtain body' eof s2 where more: "read_pages a t i ?next limits s1 = (Inr (body', eof), s2)"
      "\<exists>rest'. drop (unat ?next) c = body' @ rest' \<and> (eof \<longrightarrow> rest' = [])" "valid_utf8 body'"
      "limits \<noteq> [] \<and> length c - unat ?next \<le> length limits \<longrightarrow> eof"
      using Cons.IH [of s1 ?next] Cons.prems(3-5) by blast
    obtain rest' where rest': "drop (unat ?next) c = body' @ rest'" "eof \<longrightarrow> rest' = []"
      using more(2) by blast
    have "drop (unat offset) c = (body @ body') @ rest'"
      using rest' rest unfolding next_offset by (metis append_assoc append_eq_conv_conj drop_drop add.commute)
    moreover have "valid_utf8 (body @ body')" using valid more(3) by (simp add: valid_utf8_append)
    moreover have "length c - unat offset \<le> length (limit # limits) \<longrightarrow> eof"
    proof
      assume enough: "length c - unat offset \<le> length (limit # limits)"
      have "unat offset + length body < length c" using False len by simp
      moreover from this have "0 < length body" using progress by auto
      ultimately have "0 < length limits" "length c - (unat offset + length body) \<le> length limits"
        using enough unfolding list.size by arith+
      then show eof using more(4) unfolding next_offset by simp
    qed
    moreover have "read_pages a t i offset (limit # limits) s = (Inr (body @ body', eof), s2)"
      using page(1) more(1) False by (simp add: act_defs page_json_fields)
    ultimately show ?thesis using rest'(2) by blast
  qed
qed

text \<open>C20 Pages give the snapshot back: when the archive's I/O works, reading a snapshot from its start
  and following the offsets, with any limits between 4 and 4096 bytes, always succeeds, never splits
  a character, loses or repeats nothing, and reaches the end after at most one page per byte.\<close>

theorem pages_reconstruct:
  assumes "archive_works a t s" and "snapshot_of a s t i = Some c" and "length c \<le> av_max_output_bytes a"
    and "length c < 2 ^ 64" and "valid_utf8 c" and "\<forall>limit \<in> set limits. 4 \<le> limit \<and> limit \<le> 4096"
  shows "\<exists>body eof s'. read_pages a t i 0 limits s = (Inr (body, eof), s') \<and> prefix body c \<and> valid_utf8 body \<and>
    (eof \<longrightarrow> body = c) \<and> (limits \<noteq> [] \<and> length c \<le> length limits \<longrightarrow> eof)"
  using read_pages_works [OF assms(1-5), of 0 limits] assms(6) by (fastforce simp: valid_utf8_def prefix_def)

section \<open>The reading tool\<close>

text \<open>C22 A prepared read is well typed and confined: preparing gives a read-only, retryable action whose
  arguments have every default written out and are in range, executing it reads exactly the page they
  name, never fails for a missing argument, and is refused in every other thread.\<close>

theorem read_output_well_typed:
  assumes "read_output_prepare call context = Inr p"
  shows "\<exists>i offset limit. 4 \<le> limit \<and> limit \<le> 4096 \<and> 1 \<le> length i \<and> length i \<le> 96 \<and>
      ca_effect (pc_action p) = ReadOnly \<and> ca_retry_safety (pc_action p) = Retry_Safe \<and>
      ca_arguments (pc_action p) =
        jobject [(''call_id'', JString i), (''offset'', JUint offset), (''limit'', JUint limit)] \<and>
      (\<forall>context'. tx_thread_id context' = tx_thread_id context \<longrightarrow>
         read_output_execute a False p context' s =
           map_err (\<lambda>e. Execution (context_error_text e))
             (read_page a (tx_thread_id context) i offset (unat limit)) s) \<and>
      (\<forall>context'. tx_thread_id context' \<noteq> tx_thread_id context \<longrightarrow>
         read_output_execute a False p context' s = (Inl (Execution ''prepared output scope mismatch''), s))"
proof -
  from assms obtain args i offset limit where i: "bt_get args ''call_id'' = Some (JString i)"
    and c: "\<exists>x. component i = Inr x" and limit: "4 \<le> limit" "limit \<le> 4096"
    and p: "p = \<lparr>pc_call_id = tc_id call, pc_action = in_scope
        (CanonicalAction_new ''read_output''
           (jobject [(''call_id'', JString i), (''offset'', JUint offset), (''limit'', JUint limit)])
           ReadOnly Retry_Safe) (tx_thread_id context)\<rparr>"
    by (auto simp: read_output_prepare_def bind_eq_Some_conv split: option.splits sum.splits if_splits)
  have "1 \<le> length i" "length i \<le> 96" using c by (auto simp: component_def Suc_le_eq split: if_splits)
  with limit show ?thesis
    by (intro exI [of _ i] exI [of _ offset] exI [of _ limit])
      (auto simp: p in_scope_def CanonicalAction_new_def read_output_execute_def jfield_def err_def)
qed

section \<open>A sample archive\<close>

definition sample_archive :: output_archive where
  "sample_archive = \<lparr>av_root = [''v''], av_max_output_bytes = 64, av_poisoned = False\<rparr>"

definition sample_vault :: "(nat \<Rightarrow> io_outcome) \<Rightarrow> vault" where
  "sample_vault io = \<lparr>va_nodes = [],
     va_host = \<lparr>h_pid = 7, h_next_id = 0, h_clock = (\<lambda>_. 0), h_readings = 0, h_io = io, h_operations = 0\<rparr>\<rparr>"

abbreviation sample_output :: string where
  "sample_output \<equiv> [CHR ''a'', CHR 0xE2, CHR 0x82, CHR 0xAC, CHR 0xE2, CHR 0x82, CHR 0xAC, CHR ''z'']"

definition sample_full :: vault where
  "sample_full = snd (retain sample_archive ''t'' ''c'' sample_output (sample_vault (\<lambda>_. Io_ok)))"

definition sample_retained :: "(nat \<Rightarrow> io_outcome) \<Rightarrow> context_error + unit" where
  "sample_retained io = fst (retain sample_archive ''t'' ''c'' sample_output (sample_vault io))"

lemma sample_retain_works: "sample_retained (\<lambda>_. Io_ok) = Inr ()"
  by code_simp

theorem snapshots_immutable_witness:
  "snapshot_of sample_archive sample_full ''t'' ''c'' = Some sample_output \<and>
   snapshot_of sample_archive sample_full ''t'' ''d'' = snapshot_of sample_archive (sample_vault (\<lambda>_. Io_ok)) ''t'' ''d''"
proof -
  have "retain sample_archive ''t'' ''c'' sample_output (sample_vault (\<lambda>_. Io_ok)) = (Inr (), sample_full)"
    using sample_retain_works by (simp add: sample_retained_def sample_full_def prod_eq_iff)
  from snapshots_immutable [OF this] show ?thesis by simp
qed

definition sample_stored :: vault where
  "sample_stored = (sample_vault (\<lambda>_. Io_ok))
     \<lparr>va_nodes := [([''v'', ''74''], Dir_Node), ([''v'', ''74'', ''63.json''], File_Node sample_output)]\<rparr>"

lemma sample_stored_works:
  "archive_works sample_archive ''t'' sample_stored"
  "snapshot_of sample_archive sample_stored ''t'' ''c'' = Some sample_output"
  by (simp_all add: archive_works_def snapshot_of_def archive_paths_def component_def hex_byte_def byte_def
      sample_stored_def sample_archive_def sample_vault_def)

theorem pages_reconstruct_witness:
  "\<exists>body s'. read_pages sample_archive ''t'' ''c'' 0 (replicate 8 4) sample_stored = (Inr (body, True), s') \<and>
     body = sample_output"
proof -
  have "length sample_output \<le> av_max_output_bytes sample_archive" "length sample_output < 2 ^ 64"
    "valid_utf8 sample_output" "\<forall>limit \<in> set (replicate 8 4). 4 \<le> limit \<and> limit \<le> (4096 :: nat)"
    by (simp_all add: sample_archive_def valid_utf8_def utf8_first_def byte_def)
  from pages_reconstruct [OF sample_stored_works this] show ?thesis by auto
qed

definition sample_receipt :: tool_receipt where
  "sample_receipt = \<lparr>tr_call_id = ''c'', tr_tool_name = ''n'', tr_status = Receipt_Succeeded, tr_action = None,
     tr_output = Some (JString ''x''), tr_error = None\<rparr>"

definition sample_input :: context_input where
  "sample_input = \<lparr>ci_thread_id = ''t'', ci_turn_id = ''u'', ci_transcript = [User ''q'', Tool_Result sample_receipt]\<rparr>"

definition sample_externalized :: "(context_error + compiled_context) \<times> vault" where
  "sample_externalized = external_compile sample_archive 4 (\<lambda>_. Inr sample_output)
     (\<lambda>input. Inr \<lparr>cc_prompt = [], cc_messages = ci_transcript input\<rparr>) sample_input (sample_vault (\<lambda>_. Io_ok))"

lemma sample_externalized_ok: "case fst sample_externalized of Inr _ \<Rightarrow> True | Inl _ \<Rightarrow> False"
  by code_simp

theorem outputs_never_lost_witness:
  "\<exists>compiled s'. sample_externalized = (Inr compiled, s') \<and>
     cc_messages compiled = [User ''q'',
       Tool_Result (sample_receipt\<lparr>tr_output := Some (output_reference ''c'' (length sample_output))\<rparr>)] \<and>
     snapshot_of sample_archive s' ''t'' ''c'' = Some sample_output"
proof -
  obtain r s' where pair: "sample_externalized = (r, s')" by (meson surj_pair)
  have "case r of Inr _ \<Rightarrow> True | Inl _ \<Rightarrow> False"
    using sample_externalized_ok unfolding pair by simp
  with pair obtain compiled where run: "sample_externalized = (Inr compiled, s')" by (cases r) simp_all
  from outputs_never_lost [OF run [unfolded sample_externalized_def]] run show ?thesis
    by (intro exI [of _ compiled] exI [of _ s'])
      (auto simp: sample_input_def list_all2_Cons1 stands_for_def sample_receipt_def)
qed

definition sample_read_call :: tool_call where
  "sample_read_call = \<lparr>tc_id = ''r'', tc_name = ''read_output'',
     tc_arguments = jobject [(''call_id'', JString ''c''), (''limit'', JUint 8)]\<rparr>"

definition sample_read_context :: tool_execution_context where
  "sample_read_context = \<lparr>tx_thread_id = ''t'', tx_turn_id = ''u'', tx_workspace = None, tx_metadata = []\<rparr>"

lemma sample_prepared:
  "case read_output_prepare sample_read_call sample_read_context of Inr p \<Rightarrow> True | Inl _ \<Rightarrow> False"
  by code_simp

theorem read_output_well_typed_witness:
  "\<exists>p. read_output_prepare sample_read_call sample_read_context = Inr p \<and>
     ca_effect (pc_action p) = ReadOnly \<and>
     read_output_execute sample_archive False p (sample_read_context\<lparr>tx_thread_id := ''other''\<rparr>) sample_full =
       (Inl (Execution ''prepared output scope mismatch''), sample_full)"
proof -
  obtain p where run: "read_output_prepare sample_read_call sample_read_context = Inr p"
    using sample_prepared by (auto split: sum.splits)
  from read_output_well_typed [OF run, of sample_archive sample_full] run show ?thesis
    by (auto simp: sample_read_context_def)
qed

end
