(* ===== verification/StreamDecoder.thy ===== *)
theory StreamDecoder
  imports TextLog Json
begin

text \<open>
  The decoder of streamed responses, crates/provider-openai/src/stream.rs: server-sent events are
  collected byte by byte into lines, lines into events, events into one complete response; only text
  is passed on before the end. Parsing and printing JSON text are parameters.
\<close>

section \<open>State\<close>

datatype transport_error =
    Transport_Io string
  | Transport_Protocol string
  | Transport_Http nat string \<comment> \<open>status, body\<close>

fun transport_error_text :: "transport_error \<Rightarrow> string" where
  [display]: "transport_error_text (Transport_Io e) = ''HTTP transport I/O error: '' @ e"
| "transport_error_text (Transport_Protocol e) = ''HTTP transport protocol error: '' @ e"
| "transport_error_text (Transport_Http status body) =
     ''HTTP endpoint returned status '' @ dec status @ '': '' @ body"

definition max_frame :: nat where
  "max_frame = 1048576"

record stream_call =
  sc_id :: string
  sc_name :: string
  sc_arguments :: string

definition stream_call_default :: stream_call where
  "stream_call_default = \<lparr>sc_id = [], sc_name = [], sc_arguments = []\<rparr>"

text \<open>\<open>de_texts\<close> is what the text callback was given so far, in order.\<close>

record decoder =
  de_pending :: string
  de_data :: string
  de_content :: string
  de_calls :: "(nat \<times> stream_call) list"
  de_finish_reason :: "string option"
  de_usage :: json
  de_done :: bool
  de_texts :: "string list"

definition decoder_new :: decoder where
  "decoder_new = \<lparr>de_pending = [], de_data = [], de_content = [], de_calls = [], de_finish_reason = None,
     de_usage = JNull, de_done = False, de_texts = []\<rparr>"

type_synonym 'a decoding = "(decoder, transport_error, 'a) act"

abbreviation protocol_error :: "string \<Rightarrow> 'a decoding" where
  "protocol_error m \<equiv> err (Transport_Protocol m)"

record json_text =
  jt_parse :: "string \<Rightarrow> string + json"
  jt_print :: "json \<Rightarrow> string"

section \<open>One frame\<close>

text \<open>\<open>value.as_str().ok_or_else(..)\<close>\<close>

definition expect_str :: "string \<Rightarrow> json \<Rightarrow> string decoding" where
  "expect_str m v = (case as_str v of Some s \<Rightarrow> ok s | None \<Rightarrow> protocol_error m)"

text \<open>\<open>if let Some(v) = value.get(key).filter(|v| !v.is_null())\<close>\<close>

definition if_present :: "json \<Rightarrow> string \<Rightarrow> (json \<Rightarrow> unit decoding) \<Rightarrow> unit decoding" where
  "if_present v k f = (case jpresent v k of Some x \<Rightarrow> f x | None \<Rightarrow> ok ())"

definition update_call :: "nat \<Rightarrow> (stream_call \<Rightarrow> stream_call) \<Rightarrow> unit decoding" where
  "update_call index f =
     writes (\<lambda>d. d\<lparr>de_calls := bt_insert index
       (f (case bt_get (de_calls d) index of Some c \<Rightarrow> c | None \<Rightarrow> stream_call_default)) (de_calls d)\<rparr>)"

definition call_fragment :: "json \<Rightarrow> unit decoding" where
  "call_fragment call =
     (case Option.bind (jfield as_u64 call ''index'') (\<lambda>n. if n < 128 then Some n else None) of
        None \<Rightarrow> protocol_error ''stream tool index must be below 128''
      | Some n \<Rightarrow>
          let index = unat n in
          and_then (update_call index (\<lambda>c. c)) (\<lambda>_.
          and_then (if_present call ''id'' (\<lambda>v.
            and_then (expect_str ''invalid stream call id'' v) (\<lambda>s.
            update_call index (\<lambda>c. c\<lparr>sc_id := sc_id c @ s\<rparr>)))) (\<lambda>_.
          and_then (if_present call ''type'' (\<lambda>kind.
            if kind \<noteq> JString ''function'' then protocol_error ''unsupported streamed tool type''
            else ok ())) (\<lambda>_.
          case jget call ''function'' of
            None \<Rightarrow> ok ()
          | Some function \<Rightarrow>
              and_then (if_present function ''name'' (\<lambda>v.
                and_then (expect_str ''invalid streamed function name'' v) (\<lambda>s.
                update_call index (\<lambda>c. c\<lparr>sc_name := sc_name c @ s\<rparr>)))) (\<lambda>_.
              if_present function ''arguments'' (\<lambda>v.
                and_then (expect_str ''invalid streamed arguments fragment'' v) (\<lambda>s.
                update_call index (\<lambda>c. c\<lparr>sc_arguments := sc_arguments c @ s\<rparr>))))))))"

text \<open>The text callback; \<open>finish\<close> passes one that drops the text.\<close>

definition add_text :: "bool \<Rightarrow> string \<Rightarrow> unit decoding" where
  "add_text listening s =
     writes (\<lambda>d. if s = [] then d
       else d\<lparr>de_content := de_content d @ s, de_texts := de_texts d @ (if listening then [s] else [])\<rparr>)"

definition frame_delta :: "bool \<Rightarrow> json \<Rightarrow> unit decoding" where
  "frame_delta listening delta =
     and_then (if_present delta ''content'' (\<lambda>v.
       and_then (expect_str ''stream text delta must be a string'' v) (add_text listening))) (\<lambda>_.
     if jget delta ''function_call'' \<noteq> None then protocol_error ''legacy streamed function_call is unsupported''
     else case jget delta ''tool_calls'' of
       None \<Rightarrow> ok ()
     | Some calls \<Rightarrow>
         (case as_array calls of
            None \<Rightarrow> protocol_error ''stream tool_calls must be an array''
          | Some cs \<Rightarrow> for_each cs call_fragment))"

definition frame_choice :: "bool \<Rightarrow> json \<Rightarrow> unit decoding" where
  "frame_choice listening choice =
     (if jfield as_u64 choice ''index'' \<noteq> Some 0 then protocol_error ''unexpected stream choice index''
      else and_then (reads de_finish_reason) (\<lambda>reason.
        if reason \<noteq> None then protocol_error ''choice data followed its finish reason''
        else and_then (case jget choice ''delta'' of None \<Rightarrow> ok () | Some delta \<Rightarrow> frame_delta listening delta) (\<lambda>_.
          if_present choice ''finish_reason'' (\<lambda>v.
            and_then (expect_str ''invalid stream finish reason'' v) (\<lambda>s.
            writes (\<lambda>d. d\<lparr>de_finish_reason := Some s\<rparr>))))))"

definition decode_frame :: "json_text \<Rightarrow> bool \<Rightarrow> json \<Rightarrow> unit decoding" where
  "decode_frame jt listening frame =
     (case jget frame ''error'' of
        Some e \<Rightarrow> protocol_error (''provider stream error: '' @ jt_print jt e)
      | None \<Rightarrow>
          and_then (if_present frame ''usage'' (\<lambda>usage. writes (\<lambda>d. d\<lparr>de_usage := usage\<rparr>))) (\<lambda>_.
          case jfield as_array frame ''choices'' of
            None \<Rightarrow> protocol_error ''stream frame has no choices''
          | Some choices \<Rightarrow>
              if 1 < length choices then protocol_error ''multiple streaming choices are unsupported''
              else for_each choices (frame_choice listening)))"

section \<open>Lines and events\<close>

definition dispatch :: "json_text \<Rightarrow> bool \<Rightarrow> unit decoding" where
  "dispatch jt listening =
     and_then (reads de_data) (\<lambda>data.
       if data = [] then ok ()
       else and_then (writes (\<lambda>d. d\<lparr>de_data := []\<rparr>)) (\<lambda>_.
         if trim data = ''[DONE]''
         then and_then (reads de_finish_reason) (\<lambda>reason.
           if reason = None then protocol_error ''stream ended without a finish reason''
           else writes (\<lambda>d. d\<lparr>de_done := True\<rparr>))
         else case jt_parse jt data of
           Inl e \<Rightarrow> protocol_error (''invalid stream JSON: '' @ e)
         | Inr frame \<Rightarrow> decode_frame jt listening frame))"

definition decode_line :: "json_text \<Rightarrow> bool \<Rightarrow> string \<Rightarrow> unit decoding" where
  "decode_line jt listening line =
     (if line = [] then dispatch jt listening
      else case strip_prefix ''data:'' line of
        None \<Rightarrow> ok ()
      | Some data \<Rightarrow>
          and_then (reads de_done) (\<lambda>over.
            if over then protocol_error ''stream data followed [DONE]''
            else and_then (writes (\<lambda>d. d\<lparr>de_data := de_data d
                @ (case strip_prefix '' '' data of Some rest \<Rightarrow> rest | None \<Rightarrow> data) @ [newline]\<rparr>)) (\<lambda>_.
              and_then (reads de_data) (\<lambda>collected.
                if max_frame < length collected then protocol_error ''stream event exceeds 1 MiB''
                else ok ()))))"

definition trim_returns :: "string \<Rightarrow> string" where
  "trim_returns line = rev (dropWhile (\<lambda>c. c = carriage_return) (rev line))"

definition push_byte :: "json_text \<Rightarrow> char \<Rightarrow> unit decoding" where
  "push_byte jt c =
     (if c = newline
      then and_then (reads de_pending) (\<lambda>line.
        and_then (writes (\<lambda>d. d\<lparr>de_pending := []\<rparr>)) (\<lambda>_.
        if \<not> valid_utf8 line then protocol_error ''stream contains invalid UTF-8''
        else decode_line jt True (trim_returns line)))
      else and_then (writes (\<lambda>d. d\<lparr>de_pending := de_pending d @ [c]\<rparr>)) (\<lambda>_.
        and_then (reads de_pending) (\<lambda>line.
        if max_frame < length line then protocol_error ''stream line exceeds 1 MiB'' else ok ())))"

definition decoder_push :: "json_text \<Rightarrow> string \<Rightarrow> unit decoding" where
  "decoder_push jt bytes = for_each bytes (push_byte jt)"

section \<open>The end of the stream\<close>

definition call_json :: "stream_call \<Rightarrow> json" where
  "call_json c = jobject [(''id'', JString (sc_id c)), (''type'', JString ''function''),
     (''function'', jobject [(''name'', JString (sc_name c)), (''arguments'', JString (sc_arguments c))])]"

fun finished_calls :: "nat \<Rightarrow> (nat \<times> stream_call) list \<Rightarrow> transport_error + json list" where
  "finished_calls expected [] = Inr []"
| "finished_calls expected ((index, c) # calls) =
     (if index \<noteq> expected \<or> sc_id c = [] \<or> sc_name c = [] \<or> sc_arguments c = []
      then Inl (Transport_Protocol ''incomplete streamed tool call'')
      else case finished_calls (expected + 1) calls of
        Inl e \<Rightarrow> Inl e
      | Inr rest \<Rightarrow> Inr (call_json c # rest))"

definition response_json :: "string \<Rightarrow> json list \<Rightarrow> string option \<Rightarrow> json \<Rightarrow> json" where
  "response_json content calls reason usage =
     jobject [(''choices'', JArray [jobject
         [(''message'', jobject [(''content'', JString content), (''tool_calls'', JArray calls)]),
          (''finish_reason'', (case reason of Some s \<Rightarrow> JString s | None \<Rightarrow> JNull))]]),
       (''usage'', usage)]"

definition decoder_finish :: "json_text \<Rightarrow> json decoding" where
  "decoder_finish jt =
     and_then (reads de_pending) (\<lambda>pending.
     and_then
       (if pending = [] then ok ()
        else and_then (writes (\<lambda>d. d\<lparr>de_pending := []\<rparr>)) (\<lambda>_.
          if \<not> valid_utf8 pending then protocol_error ''truncated UTF-8 stream''
          else decode_line jt False (trim_returns pending))) (\<lambda>_.
     and_then (dispatch jt False) (\<lambda>_ d.
       if \<not> de_done d then (Inl (Transport_Protocol ''incomplete stream: missing [DONE]''), d)
       else case finished_calls 0 (de_calls d) of
         Inl e \<Rightarrow> (Inl e, d)
       | Inr calls \<Rightarrow> (Inr (response_json (de_content d) calls (de_finish_reason d) (de_usage d)), d))))"

end
