(* ===== verification/Provider.thy ===== *)
theory Provider
  imports StreamDecoder Protocol
begin

text \<open>
  The OpenAI-compatible adapter, crates/provider-openai/src/lib.rs: the request body built from a model
  request, the request budget, the headers, and the response read back. JSON text, the token counter
  and the transport are parameters.
\<close>

section \<open>Data\<close>

record http_request =
  hq_url :: string
  hq_headers :: "(string \<times> string) list"
  hq_body :: json
  hq_timeout_seconds :: u64

record http_response =
  hs_status :: nat
  hs_body :: json

record openai_config =
  oc_endpoint :: string
  oc_model :: string
  oc_api_key :: "string option"
  oc_organization :: "string option"
  oc_timeout_seconds :: u64
  oc_extra_body :: "(string \<times> json) list"

definition openai_config_new :: "string \<Rightarrow> string \<Rightarrow> openai_config" where
  "openai_config_new endpoint model =
     \<lparr>oc_endpoint = endpoint, oc_model = model, oc_api_key = None, oc_organization = None,
      oc_timeout_seconds = 120, oc_extra_body = []\<rparr>"

record request_budget =
  rb_context_window_tokens :: u64
  rb_reserved_output_tokens :: u64

type_synonym token_counter = "json \<Rightarrow> model_error + u64"

record adapter =
  oa_streaming :: bool
  oa_config :: openai_config
  oa_request_budget :: "(request_budget \<times> token_counter) option"

definition adapter_new :: "openai_config \<Rightarrow> adapter" where
  "adapter_new config = \<lparr>oa_streaming = False, oa_config = config, oa_request_budget = None\<rparr>"

definition with_streaming :: "adapter \<Rightarrow> bool \<Rightarrow> adapter" where
  "with_streaming a enabled = a\<lparr>oa_streaming := enabled\<rparr>"

definition model_failure :: "string \<Rightarrow> bool \<Rightarrow> model_error" where
  "model_failure m retryable = \<lparr>me_message = m, me_retryable = retryable\<rparr>"

definition with_request_budget :: "adapter \<Rightarrow> request_budget \<Rightarrow> token_counter \<Rightarrow> model_error + adapter" where
  "with_request_budget a budget counter =
     (if rb_reserved_output_tokens budget = 0
        \<or> rb_context_window_tokens budget \<le> rb_reserved_output_tokens budget
      then Inl (model_failure ''request budget needs positive input capacity and output reservation'' False)
      else Inr (a\<lparr>oa_request_budget := Some (budget, counter)\<rparr>))"

section \<open>The request\<close>

text \<open>\<open>serde_json::to_string\<close> of a receipt and of a value.\<close>

record request_text =
  qt_receipt :: "tool_receipt \<Rightarrow> string + string"
  qt_value :: "json \<Rightarrow> string + string"

definition segment_message :: "prompt_segment \<Rightarrow> json" where
  "segment_message s = jobject [(''role'', JString ''system''),
     (''content'', JString (''['' @ ps_name s @ '']'' @ [newline] @ ps_text s))]"

definition request_call :: "request_text \<Rightarrow> tool_call \<Rightarrow> json" where
  "request_call qt call = jobject [(''id'', JString (tc_id call)), (''type'', JString ''function''),
     (''function'', jobject [(''name'', JString (tc_name call)),
        (''arguments'', JString (case qt_value qt (tc_arguments call) of Inr s \<Rightarrow> s | Inl _ \<Rightarrow> ''{}''))])]"

definition assistant_message :: "request_text \<Rightarrow> string \<Rightarrow> tool_call list \<Rightarrow> json" where
  "assistant_message qt content calls =
     jobject ([(''role'', JString ''assistant''), (''content'', JString content)]
       @ (if calls = [] then [] else [(''tool_calls'', JArray (map (request_call qt) calls))]))"

fun transcript_json :: "request_text \<Rightarrow> transcript_message \<Rightarrow> model_error + json" where
  "transcript_json qt (User content) =
     Inr (jobject [(''role'', JString ''user''), (''content'', JString content)])"
| "transcript_json qt (Assistant content calls) = Inr (assistant_message qt content calls)"
| "transcript_json qt (Tool_Result receipt) =
     (case qt_receipt qt receipt of
        Inl e \<Rightarrow> Inl (model_failure e False)
      | Inr content \<Rightarrow>
          Inr (jobject [(''role'', JString ''tool''), (''tool_call_id'', JString (tr_call_id receipt)),
            (''content'', JString content)]))"

fun transcript_messages :: "request_text \<Rightarrow> transcript_message list \<Rightarrow> model_error + json list" where
  "transcript_messages qt [] = Inr []"
| "transcript_messages qt (m # ms) =
     (case transcript_json qt m of
        Inl e \<Rightarrow> Inl e
      | Inr v \<Rightarrow> (case transcript_messages qt ms of Inl e \<Rightarrow> Inl e | Inr vs \<Rightarrow> Inr (v # vs)))"

definition tool_schema :: "tool_definition \<Rightarrow> json" where
  "tool_schema tool = jobject [(''type'', JString ''function''),
     (''function'', jobject [(''name'', JString (td_name tool)), (''description'', JString (td_description tool)),
        (''parameters'', td_input_schema tool)])]"

definition request_body :: "request_text \<Rightarrow> adapter \<Rightarrow> model_request \<Rightarrow> model_error + (string \<times> json) list" where
  "request_body qt a request =
     (case transcript_messages qt (cc_messages (mr_context request)) of
        Inl e \<Rightarrow> Inl e
      | Inr transcript \<Rightarrow>
          let messages = map segment_message (cc_prompt (mr_context request)) @ transcript;
              tools = map tool_schema (mr_tools request);
              body = bt_remove ''function_call'' (bt_remove ''functions'' (bt_remove ''tools'' (oc_extra_body (oa_config a))));
              body = (if tools = [] then bt_remove ''tool_choice'' body else body);
              body = bt_insert ''messages'' (JArray messages)
                (bt_insert ''model'' (JString (oc_model (oa_config a))) body)
          in Inr (if tools = [] then body else bt_insert ''tools'' (JArray tools) body))"

definition set_stream :: "bool \<Rightarrow> (string \<times> json) list \<Rightarrow> (string \<times> json) list" where
  "set_stream streaming body =
     (let body = bt_remove ''stream_options'' (bt_remove ''stream'' body)
      in if streaming
         then bt_insert ''stream_options'' (jobject [(''include_usage'', JBool True)])
           (bt_insert ''stream'' (JBool True) body)
         else body)"

text \<open>The output cap of the body, made explicit, within the reservation.\<close>

definition cap_output :: "request_budget \<Rightarrow> (string \<times> json) list \<Rightarrow> model_error + (string \<times> json) list" where
  "cap_output budget body =
     (let modern = bt_get body ''max_completion_tokens''; legacy = bt_get body ''max_tokens''
      in if modern \<noteq> None \<and> legacy \<noteq> None
         then Inl (model_failure ''request budget rejects conflicting output token caps'' False)
         else case (case modern of Some v \<Rightarrow> Some v | None \<Rightarrow> legacy) of
           Some cap \<Rightarrow>
             (case as_u64 cap of
                Some v \<Rightarrow>
                  if 0 < v \<and> v \<le> rb_reserved_output_tokens budget then Inr body
                  else Inl (model_failure ''output token cap must be positive and within the reservation'' False)
              | None \<Rightarrow> Inl (model_failure ''output token cap must be positive and within the reservation'' False))
         | None \<Rightarrow> Inr (bt_insert ''max_completion_tokens'' (JUint (rb_reserved_output_tokens budget)) body))"

definition check_budget ::
  "(request_budget \<times> token_counter) option \<Rightarrow> (string \<times> json) list \<Rightarrow> model_error + (string \<times> json) list" where
  "check_budget request_budget body =
     (case request_budget of
        None \<Rightarrow> Inr body
      | Some (budget, counter) \<Rightarrow>
          (case cap_output budget body of
             Inl e \<Rightarrow> Inl e
           | Inr body' \<Rightarrow>
               (case counter (JObject body') of
                  Inl e \<Rightarrow> Inl (model_failure (me_message e) False)
                | Inr input \<Rightarrow>
                    let maximum = rb_context_window_tokens budget - rb_reserved_output_tokens budget
                    in if maximum < input
                       then Inl (model_failure (''final request exceeds input token budget ('' @ dec (unat input)
                         @ '' > '' @ dec (unat maximum) @ ''); compact context or reduce tool schemas'') False)
                       else Inr body')))"

definition request_headers :: "openai_config \<Rightarrow> (string \<times> string) list" where
  "request_headers config =
     (let headers = [(''Content-Type'', ''application/json'')];
          headers = (case oc_api_key config of
            Some key \<Rightarrow> bt_insert ''Authorization'' (''Bearer '' @ key) headers | None \<Rightarrow> headers)
      in case oc_organization config of
           Some organization \<Rightarrow> bt_insert ''OpenAI-Organization'' organization headers | None \<Rightarrow> headers)"

definition build_http_request :: "request_text \<Rightarrow> adapter \<Rightarrow> model_request \<Rightarrow> model_error + http_request" where
  "build_http_request qt a request =
     (case request_body qt a request of
        Inl e \<Rightarrow> Inl e
      | Inr body \<Rightarrow>
          (case check_budget (oa_request_budget a) (set_stream (oa_streaming a) body) of
             Inl e \<Rightarrow> Inl e
           | Inr body' \<Rightarrow>
               Inr \<lparr>hq_url = oc_endpoint (oa_config a), hq_headers = request_headers (oa_config a),
                 hq_body = JObject body', hq_timeout_seconds = oc_timeout_seconds (oa_config a)\<rparr>))"

section \<open>The response\<close>

fun parse_content :: "json option \<Rightarrow> string" where
  "parse_content (Some (JString content)) = content"
| "parse_content (Some (JArray parts)) =
     concat (List.map_filter (\<lambda>part. case jfield as_str part ''text'' of Some s \<Rightarrow> Some s | None \<Rightarrow> as_str part) parts)"
| "parse_content _ = []"

definition parse_call :: "json_text \<Rightarrow> json \<Rightarrow> model_error + tool_call" where
  "parse_call jt call =
     (case jfield as_str call ''id'' of
        None \<Rightarrow> Inl (model_failure ''tool call has no id'' False)
      | Some i \<Rightarrow>
          (case jget call ''function'' of
             None \<Rightarrow> Inl (model_failure ''tool call has no function'' False)
           | Some function \<Rightarrow>
               (case jfield as_str function ''name'' of
                  None \<Rightarrow> Inl (model_failure ''tool call has no function name'' False)
                | Some name \<Rightarrow>
                    (case (case jget function ''arguments'' of
                        Some (JString s) \<Rightarrow>
                          (case jt_parse jt s of
                             Inl e \<Rightarrow> Inl (model_failure (''tool call `'' @ i @ ''` has invalid JSON arguments: '' @ e) False)
                           | Inr v \<Rightarrow> Inr v)
                      | Some v \<Rightarrow> Inr v
                      | None \<Rightarrow> Inr JNull) of
                       Inl e \<Rightarrow> Inl e
                     | Inr arguments \<Rightarrow> Inr \<lparr>tc_id = i, tc_name = name, tc_arguments = arguments\<rparr>))))"

fun parse_calls :: "json_text \<Rightarrow> json list \<Rightarrow> model_error + tool_call list" where
  "parse_calls jt [] = Inr []"
| "parse_calls jt (v # vs) =
     (case parse_call jt v of
        Inl e \<Rightarrow> Inl e
      | Inr c \<Rightarrow> (case parse_calls jt vs of Inl e \<Rightarrow> Inl e | Inr cs \<Rightarrow> Inr (c # cs)))"

definition parse_stop_reason :: "string option \<Rightarrow> stop_reason" where
  "parse_stop_reason reason =
     (case reason of
        None \<Rightarrow> Other_Stop
      | Some s \<Rightarrow>
          if s = ''stop'' then EndTurn
          else if s = ''tool_calls'' \<or> s = ''function_call'' then ToolUse
          else if s = ''length'' then MaxTokens
          else Other_Stop)"

definition parse_usage :: "json \<Rightarrow> token_usage" where
  "parse_usage body =
     (let usage = (case jget body ''usage'' of Some v \<Rightarrow> v | None \<Rightarrow> JNull)
      in \<lparr>input_tokens = (case jfield as_u64 usage ''prompt_tokens'' of Some n \<Rightarrow> n | None \<Rightarrow> 0),
          output_tokens = (case jfield as_u64 usage ''completion_tokens'' of Some n \<Rightarrow> n | None \<Rightarrow> 0)\<rparr>)"

definition parse_response :: "json_text \<Rightarrow> json \<Rightarrow> model_error + model_response" where
  "parse_response jt body =
     (case jget body ''error'' of
        Some e \<Rightarrow> Inl (model_failure (''provider error: '' @ jt_print jt e) False)
      | None \<Rightarrow>
          (case jfield as_array body ''choices'' of
             Some (choice # _) \<Rightarrow>
               (case jget choice ''message'' of
                  None \<Rightarrow> Inl (model_failure ''choice has no message'' False)
                | Some message \<Rightarrow>
                    (case parse_calls jt (case jfield as_array message ''tool_calls'' of Some cs \<Rightarrow> cs | None \<Rightarrow> []) of
                       Inl e \<Rightarrow> Inl e
                     | Inr calls \<Rightarrow>
                         Inr \<lparr>mp_content = parse_content (jget message ''content''), mp_tool_calls = calls,
                           mp_stop_reason = parse_stop_reason (jfield as_str choice ''finish_reason''),
                           mp_usage = parse_usage body\<rparr>))
           | _ \<Rightarrow> Inl (model_failure ''response has no choices'' False)))"

end
