(* ===== verification/Completion.thy ===== *)
theory Completion
  imports Provider
begin

text \<open>
  One model request from start to end: the control of a request (crates/harness-core/src/control.rs,
  model.rs) and the two ways the adapter runs it, as a future of its own
  (crates/provider-openai/src/asynchronous.rs) and on a worker thread (worker.rs and
  \<open>complete_blocking\<close> of lib.rs). The transport, the clock and the moment of a cancellation are
  parameters: cancellation is what the n-th look at the flags sees.
\<close>

section \<open>Progress\<close>

record request_timings =
  rt_dns_ms :: "u64 option"
  rt_tcp_connect_ms :: "u64 option"
  rt_tls_ms :: "u64 option"
  rt_first_byte_ms :: "u64 option"
  rt_first_text_ms :: "u64 option"
  rt_total_ms :: u64

definition no_timings :: request_timings where
  "no_timings = \<lparr>rt_dns_ms = None, rt_tcp_connect_ms = None, rt_tls_ms = None, rt_first_byte_ms = None,
     rt_first_text_ms = None, rt_total_ms = 0\<rparr>"

datatype model_progress =
    Progress_Started
  | Text_Delta string
  | Progress_Finished request_timings string

record model_progress_event =
  pg_thread_id :: thread_id
  pg_turn_id :: turn_id
  pg_iteration :: nat
  pg_progress :: model_progress

text \<open>The world of one request: the events its observer was given, the flags, the clock in nanoseconds,
  and the local variables \<open>first_text\<close> and \<open>timings\<close>. \<open>cw_net\<close> is what the transport acts on.\<close>

record 'x call_world =
  cw_events :: "model_progress_event list"
  cw_cancelled :: "nat \<Rightarrow> bool"
  cw_looks :: nat
  cw_clock :: "nat \<Rightarrow> nat"
  cw_readings :: nat
  cw_first_text :: "u64 option"
  cw_timings :: request_timings
  cw_net :: 'x

text \<open>\<open>HttpControl::is_cancelled\<close> and \<open>Instant::now\<close>\<close>

definition look :: "('x call_world, 'e, bool) act" where
  "look w = (Inr (cw_cancelled w (cw_looks w)), w\<lparr>cw_looks := Suc (cw_looks w)\<rparr>)"

definition instant :: "('x call_world, 'e, nat) act" where
  "instant w = (Inr (cw_clock w (cw_readings w)), w\<lparr>cw_readings := Suc (cw_readings w)\<rparr>)"

definition http_check :: "('x call_world, transport_error, unit) act" where
  "http_check = and_then look (\<lambda>cancelled.
     if cancelled then err (Transport_Io ''request cancelled'') else ok ())"

text \<open>\<open>start.elapsed().as_millis() as u64\<close>\<close>

definition elapsed_ms :: "nat \<Rightarrow> ('x call_world, 'e, u64) act" where
  "elapsed_ms start = and_then instant (\<lambda>now. ok (of_nat (as_millis (now - start))))"

definition progress_event :: "model_request \<Rightarrow> model_progress \<Rightarrow> model_progress_event" where
  "progress_event request progress =
     \<lparr>pg_thread_id = mr_thread_id request, pg_turn_id = mr_turn_id request,
      pg_iteration = mr_iteration request, pg_progress = progress\<rparr>"

definition control_notify :: "bool \<Rightarrow> model_request \<Rightarrow> model_progress \<Rightarrow> ('x call_world, 'e, unit) act" where
  "control_notify observed request progress =
     (if observed then writes (\<lambda>w. w\<lparr>cw_events := cw_events w @ [progress_event request progress]\<rparr>)
      else ok ())"

text \<open>The text callback: \<open>get_or_insert\<close> keeps the first time. A callback returns nothing and cannot fail.\<close>

type_synonym 'x text_callback = "string \<Rightarrow> 'x call_world \<Rightarrow> 'x call_world"

definition on_text :: "bool \<Rightarrow> model_request \<Rightarrow> nat \<Rightarrow> 'x text_callback" where
  "on_text observed request start s w =
     (let ms = of_nat (as_millis (cw_clock w (cw_readings w) - start));
          w' = w\<lparr>cw_readings := Suc (cw_readings w),
            cw_first_text := (case cw_first_text w of None \<Rightarrow> Some ms | t \<Rightarrow> t)\<rparr>
      in if observed
         then w'\<lparr>cw_events := cw_events w' @ [progress_event request (Text_Delta s)]\<rparr> else w')"

definition finish_progress ::
  "bool \<Rightarrow> model_request \<Rightarrow> nat \<Rightarrow> request_timings \<Rightarrow> string \<Rightarrow> ('x call_world, 'e, unit) act" where
  "finish_progress observed request start timings result =
     and_then (elapsed_ms start) (\<lambda>ms.
     control_notify observed request (Progress_Finished (timings\<lparr>rt_total_ms := ms\<rparr>) result))"

definition outcome_text :: "bool \<Rightarrow> 'e + 'a \<Rightarrow> string" where
  "outcome_text cancelled result =
     (if cancelled then ''cancelled'' else case result of Inr _ \<Rightarrow> ''completed'' | Inl _ \<Rightarrow> ''failed'')"

section \<open>Transports\<close>

text \<open>\<open>post_json_controlled\<close>: the request and the text callback. The error \<open>None\<close> stands for a call that
  did not return: it panicked, or was out of the fuel its model was given.\<close>

type_synonym 'x post =
  "http_request \<Rightarrow> 'x text_callback \<Rightarrow>
   ('x call_world, transport_error option, http_response) act"

datatype 'x transport = Blocking "'x post" | Async "'x post"

definition wants_stream :: "http_request \<Rightarrow> bool" where
  "wants_stream q \<longleftrightarrow> jfield as_bool (hq_body q) ''stream'' = Some True"

text \<open>The default \<open>post_json_controlled\<close> of a transport that has only \<open>post_json\<close>.\<close>

definition legacy_post ::
  "(http_request \<Rightarrow> ('x call_world, transport_error option, http_response) act) \<Rightarrow> 'x post" where
  "legacy_post post_json q callback =
     and_then (map_err Some http_check) (\<lambda>_.
     if wants_stream q then err (Some (Transport_Protocol ''transport does not support streaming''))
     else and_then (post_json q) (\<lambda>response.
       and_then (map_err Some http_check) (\<lambda>_. ok response)))"

section \<open>The asynchronous path\<close>

definition transport_retryable :: "bool \<Rightarrow> transport_error \<Rightarrow> bool" where
  "transport_retryable cancelled e =
     (\<not> cancelled \<and>
      (case e of
         Transport_Io _ \<Rightarrow> True
       | Transport_Http status _ \<Rightarrow> status = 429 \<or> 500 \<le> status
       | Transport_Protocol _ \<Rightarrow> False))"

definition refuse_cancelled :: "('x call_world, model_error, unit) act" where
  "refuse_cancelled = map_err (\<lambda>e. model_failure (transport_error_text e) False) http_check"

abbreviation lift_result :: "'e + 'a \<Rightarrow> ('s, 'e, 'a) act" where
  "lift_result r \<equiv> (case r of Inl e \<Rightarrow> err e | Inr a \<Rightarrow> ok a)"

text \<open>The awaited part; \<open>None\<close> as an error: the transport did not return.\<close>

definition async_request ::
  "json_text \<Rightarrow> request_text \<Rightarrow> adapter \<Rightarrow> 'x post \<Rightarrow> bool \<Rightarrow> model_request \<Rightarrow> nat \<Rightarrow>
   ('x call_world, model_error option, model_response) act" where
  "async_request jt qt a post observed request start =
     and_then (map_err Some refuse_cancelled) (\<lambda>_.
     and_then (map_err Some (lift_result (build_http_request qt a request))) (\<lambda>q.
     and_then (attempt (post q (on_text observed request start)) (\<lambda>r. case r of
         Inl None \<Rightarrow> err None
       | Inl (Some e) \<Rightarrow>
           and_then look (\<lambda>cancelled.
             err (Some (model_failure (transport_error_text e) (transport_retryable cancelled e))))
       | Inr response \<Rightarrow> ok response)) (\<lambda>response.
     and_then (map_err Some refuse_cancelled) (\<lambda>_.
     map_err Some (lift_result (parse_response jt (hs_body response)))))))"

definition async_complete ::
  "json_text \<Rightarrow> request_text \<Rightarrow> adapter \<Rightarrow> 'x post \<Rightarrow> bool \<Rightarrow> model_request \<Rightarrow>
   ('x call_world, model_error option, model_response) act" where
  "async_complete jt qt a post observed request =
     and_then instant (\<lambda>start.
     and_then (control_notify observed request Progress_Started) (\<lambda>_.
     attempt (async_request jt qt a post observed request start) (\<lambda>result.
       if result = Inl None then err None
       else and_then (reads (\<lambda>w. (cw_timings w)\<lparr>rt_first_text_ms := cw_first_text w\<rparr>)) (\<lambda>timings.
         and_then look (\<lambda>cancelled.
         and_then (finish_progress observed request start timings (outcome_text cancelled result)) (\<lambda>_.
         lift_result result))))))"

text \<open>The future dropped while the transport is awaited, after \<open>partial\<close>, the part of the transport's work
  that was done: \<open>Progress::drop\<close> reports the end.\<close>

definition async_dropped ::
  "request_text \<Rightarrow> adapter \<Rightarrow> 'x post \<Rightarrow> bool \<Rightarrow> model_request \<Rightarrow> ('x call_world, 'e, unit) act" where
  "async_dropped qt a partial observed request =
     and_then instant (\<lambda>start.
     and_then (control_notify observed request Progress_Started) (\<lambda>_.
     attempt
       (and_then (map_err Some refuse_cancelled) (\<lambda>_.
        and_then (map_err Some (lift_result (build_http_request qt a request))) (\<lambda>q.
        map_err (map_option (\<lambda>e. model_failure (transport_error_text e) False))
          (partial q (on_text observed request start))))) (\<lambda>_.
     finish_progress observed request start no_timings ''cancelled'')))"

section \<open>The blocking path\<close>

definition complete_blocking ::
  "json_text \<Rightarrow> request_text \<Rightarrow> adapter \<Rightarrow> 'x transport \<Rightarrow> bool \<Rightarrow> model_request \<Rightarrow> nat \<Rightarrow>
   ('x call_world, model_error option, model_response) act" where
  "complete_blocking jt qt a transport observed request start =
     (case transport of
        Async _ \<Rightarrow> err (Some (model_failure ''async transport cannot run on blocking worker'' False))
      | Blocking post \<Rightarrow>
          and_then (map_err Some (lift_result (build_http_request qt a request))) (\<lambda>q.
          and_then (map_err (map_option (\<lambda>e. model_failure (transport_error_text e) True))
            (post q (on_text observed request start))) (\<lambda>response.
          map_err Some (lift_result (parse_response jt (hs_body response))))))"

text \<open>The worker thread; \<open>catch_unwind\<close> turns a panic into an error.\<close>

definition worker_thread ::
  "json_text \<Rightarrow> request_text \<Rightarrow> adapter \<Rightarrow> 'x transport \<Rightarrow> bool \<Rightarrow> model_request \<Rightarrow>
   ('x call_world, model_error, model_response) act" where
  "worker_thread jt qt a transport observed request =
     and_then instant (\<lambda>start.
     and_then (control_notify observed request Progress_Started) (\<lambda>_.
     attempt (complete_blocking jt qt a transport observed request start) (\<lambda>result.
       if result = Inl None then err (model_failure ''model request worker panicked'' False)
       else and_then (elapsed_ms start) (\<lambda>total_ms.
         and_then (reads (\<lambda>w. (cw_timings w)\<lparr>rt_first_text_ms := cw_first_text w, rt_total_ms := total_ms\<rparr>)) (\<lambda>timings.
         and_then look (\<lambda>cancelled.
         and_then (control_notify observed request
           (Progress_Finished timings (outcome_text cancelled result))) (\<lambda>_.
         case result of Inl e \<Rightarrow> err (the e) | Inr r \<Rightarrow> ok r)))))))"

text \<open>The slot the worker and the future share: the result, and the waker of the task that polled.\<close>

record result_slot =
  sl_result :: "(model_error + model_response) option"
  sl_waker :: "nat option"

definition slot_new :: result_slot where
  "slot_new = \<lparr>sl_result = None, sl_waker = None\<rparr>"

definition poll_request :: "nat \<Rightarrow> result_slot \<Rightarrow> (model_error + model_response) option \<times> result_slot" where
  "poll_request waker slot =
     (case sl_result slot of
        Some r \<Rightarrow> (Some r, slot\<lparr>sl_result := None\<rparr>)
      | None \<Rightarrow> (None, slot\<lparr>sl_waker := Some waker\<rparr>))"

text \<open>The end of the worker thread and the waker it wakes.\<close>

definition worker_done :: "model_error + model_response \<Rightarrow> result_slot \<Rightarrow> nat option \<times> result_slot" where
  "worker_done r slot = (sl_waker slot, slot\<lparr>sl_result := Some r, sl_waker := None\<rparr>)"

text \<open>\<open>worker::start\<close>: the slot of the future when the thread was not spawned.\<close>

definition spawn_failed :: "string \<Rightarrow> result_slot" where
  "spawn_failed e = slot_new\<lparr>sl_result := Some (Inl (model_failure e False))\<rparr>"

definition complete_controlled ::
  "json_text \<Rightarrow> request_text \<Rightarrow> adapter \<Rightarrow> 'x transport \<Rightarrow> bool \<Rightarrow> model_request \<Rightarrow>
   ('x call_world, model_error option, model_response) act" where
  "complete_controlled jt qt a transport observed request =
     (case transport of
        Blocking _ \<Rightarrow> map_err Some (worker_thread jt qt a transport observed request)
      | Async post \<Rightarrow> async_complete jt qt a post observed request)"

end
