(* ===== verification/RustText.thy ===== *)
theory RustText
  imports TextLog Paths
begin

text \<open>
  Operations of Rust strings that the provider and the executor use, on the UTF-8 bytes: characters,
  lossy decoding, searching and splitting.
\<close>

section \<open>Characters\<close>

text \<open>\<open>s.chars().take(n)\<close>: a character starts at a byte that is no continuation byte.\<close>

definition starts_char :: "char \<Rightarrow> bool" where
  "starts_char c \<longleftrightarrow> byte c < 0x80 \<or> 0xC0 \<le> byte c"

fun take_chars :: "nat \<Rightarrow> string \<Rightarrow> string" where
  "take_chars n [] = []"
| "take_chars n (c # s) =
     (if starts_char c then (case n of 0 \<Rightarrow> [] | Suc m \<Rightarrow> c # take_chars m s) else c # take_chars n s)"

text \<open>\<open>String::from_utf8_lossy\<close>: every maximal part that cannot be a character becomes U+FFFD.
  \<open>part\<close> holds the bytes of the character begun.\<close>

definition replacement :: string where
  "replacement = [CHR 0xEF, CHR 0xBF, CHR 0xBD]"

function utf8_lossy :: "utf8_state \<Rightarrow> string \<Rightarrow> string \<Rightarrow> string" where
  "utf8_lossy q part [] = (if q = Char_Start then [] else replacement)"
| "utf8_lossy q part (c # s) =
     (let q' = utf8_step q (byte c)
      in if q' = Char_Start then part @ [c] @ utf8_lossy Char_Start [] s
         else if q' \<noteq> Malformed then utf8_lossy q' (part @ [c]) s
         else if q = Char_Start then replacement @ utf8_lossy Char_Start [] s
         else replacement @ utf8_lossy Char_Start [] (c # s))"
  by pat_completeness auto
termination
  by (relation "measure (\<lambda>(q, part, s). 2 * length s + (if q = Char_Start then 0 else 1))") auto

abbreviation from_utf8_lossy :: "string \<Rightarrow> string" where
  "from_utf8_lossy s \<equiv> utf8_lossy Char_Start [] s"

text \<open>\<open>rsplit_once(sep)\<close>: around the last occurrence.\<close>

fun rsplit_once :: "string \<Rightarrow> string \<Rightarrow> (string \<times> string) option" where
  "rsplit_once sep [] = (if sep = [] then Some ([], []) else None)"
| "rsplit_once sep (c # s) =
     (case rsplit_once sep s of
        Some (before, after) \<Rightarrow> Some (c # before, after)
      | None \<Rightarrow> map_option (\<lambda>after. ([], after)) (strip_prefix sep (c # s)))"

text \<open>\<open>split_whitespace()\<close>; \<open>word\<close> is the word begun.\<close>

fun split_words :: "string \<Rightarrow> string \<Rightarrow> string list" where
  "split_words w [] = (if w = [] then [] else [w])"
| "split_words w (a # s) =
     (if ws1 a then (if w = [] then [] else [w]) @ split_words [] s
      else case s of
        b # s2 \<Rightarrow>
          if ws2 a b then (if w = [] then [] else [w]) @ split_words [] s2
          else (case s2 of
            c # s3 \<Rightarrow>
              if ws3 a b c then (if w = [] then [] else [w]) @ split_words [] s3
              else split_words (w @ [a]) s
          | [] \<Rightarrow> split_words (w @ [a]) s)
      | [] \<Rightarrow> split_words (w @ [a]) s)"

definition split_whitespace :: "string \<Rightarrow> string list" where
  "split_whitespace s = split_words [] s"

text \<open>\<open>parse::<u16>()\<close>\<close>

definition decimal_digit :: "char \<Rightarrow> nat option" where
  "decimal_digit c = (if 48 \<le> byte c \<and> byte c \<le> 57 then Some (byte c - 48) else None)"

fun parse_digits :: "nat \<Rightarrow> nat \<Rightarrow> string \<Rightarrow> nat option" where
  "parse_digits bound n [] = Some n"
| "parse_digits bound n (c # s) =
     (case decimal_digit c of
        None \<Rightarrow> None
      | Some d \<Rightarrow> if bound < 10 * n + d then None else parse_digits bound (10 * n + d) s)"

definition parse_u16 :: "string \<Rightarrow> nat option" where
  "parse_u16 s =
     (let digits = (case s of CHR ''+'' # t \<Rightarrow> t | _ \<Rightarrow> s)
      in if digits = [] then None else parse_digits 65535 0 digits)"

text \<open>\<open>is_char_boundary(i)\<close>\<close>

definition is_char_boundary :: "string \<Rightarrow> nat \<Rightarrow> bool" where
  "is_char_boundary s i \<longleftrightarrow> i = 0 \<or> i = length s \<or> (i < length s \<and> starts_char (s ! i))"

text \<open>The length of the first character.\<close>

definition first_char_length :: "string \<Rightarrow> nat" where
  "first_char_length s = 1 + length (takeWhile (\<lambda>c. \<not> starts_char c) (tl s))"

section \<open>Searching\<close>

text \<open>\<open>find(pattern)\<close> and \<open>contains(pattern)\<close>\<close>

fun find_text :: "string \<Rightarrow> string \<Rightarrow> nat option" where
  "find_text p [] = (if p = [] then Some 0 else None)"
| "find_text p (c # s) = (if starts_with (c # s) p then Some 0 else map_option Suc (find_text p s))"

definition contains_literal :: "string \<Rightarrow> string \<Rightarrow> bool" where
  "contains_literal s p \<longleftrightarrow> find_text p s \<noteq> None"

lemma starts_with_append: "starts_with s p \<longleftrightarrow> (\<exists>t. s = p @ t)"
  unfolding starts_with_def by (metis append_eq_conv_conj append_take_drop_id)

lemma find_text_Some:
  "find_text p s = Some i \<Longrightarrow> (\<exists>t. drop i s = p @ t) \<and> i \<le> length s \<and> (\<forall>j<i. \<not> starts_with (drop j s) p)"
proof (induction p s arbitrary: i rule: find_text.induct)
  case (2 p c s)
  show ?case
  proof (cases "starts_with (c # s) p")
    case True
    with 2 show ?thesis by (auto simp: starts_with_append)
  next
    case False
    with 2 obtain k where k: "i = Suc k" "find_text p s = Some k" by (auto split: option.splits)
    with 2 False show ?thesis by (auto simp: less_Suc_eq_0_disj)
  qed
qed (simp split: if_splits)

lemma find_text_None: "find_text p s = None \<longleftrightarrow> (\<forall>i\<le>length s. \<not> starts_with (drop i s) p)"
proof (induction p s rule: find_text.induct)
  case (2 p c s)
  show ?case
  proof
    assume a: "find_text p (c # s) = None"
    then have n: "\<not> starts_with (c # s) p" "find_text p s = None" by (auto split: if_splits)
    have "\<not> starts_with (drop i (c # s)) p" if "i \<le> length (c # s)" for i
      using n 2 that by (cases i) simp_all
    then show "\<forall>i\<le>length (c # s). \<not> starts_with (drop i (c # s)) p" by blast
  next
    assume a: "\<forall>i\<le>length (c # s). \<not> starts_with (drop i (c # s)) p"
    then have "\<not> starts_with (c # s) p" by force
    moreover have "\<forall>i\<le>length s. \<not> starts_with (drop i s) p" using a by force
    ultimately show "find_text p (c # s) = None" using 2 by simp
  qed
qed (auto simp: starts_with_def)

end
