(* ===== verification/Transports.thy ===== *)
theory Transports
  imports Completion RustText
begin

text \<open>
  The two HTTP transports of crates/provider-openai: the curl process (transport.rs) and the native
  client (native.rs). What the operating system and the client library do is a parameter: what each
  receive, wait and await yields. A loop has fuel; the loops end by their deadline, so enough fuel exists.
\<close>

section \<open>Text\<close>

definition replace_char :: "char \<Rightarrow> string \<Rightarrow> string \<Rightarrow> string" where
  "replace_char c r s = concat (map (\<lambda>x. if x = c then r else [x]) s)"

abbreviation backslash :: char where "backslash \<equiv> CHR 0x5C"
abbreviation quote :: char where "quote \<equiv> CHR 0x22"

definition curl_config_escape :: "string \<Rightarrow> string" where
  "curl_config_escape s =
     replace_char newline [backslash, CHR ''n'']
      (replace_char carriage_return [backslash, CHR ''r'']
        (replace_char quote [backslash, quote]
          (replace_char backslash [backslash, backslash] s)))"

section \<open>The curl process\<close>

text \<open>\<open>recv_timeout\<close> of the channel that the reader thread fills.\<close>

datatype received = Chunk string | Broken string | Nothing_Yet | Disconnected

text \<open>\<open>try_wait\<close>\<close>

datatype waited = Wait_Error string | Running | Exited bool string \<comment> \<open>success, its text\<close>

record curl_net =
  cn_marker_id :: string \<comment> \<open>\<open>TurnId::new()\<close> of the marker\<close>
  cn_spawn :: "string option" \<comment> \<open>the error, if the process was not spawned\<close>
  cn_receive :: "nat \<Rightarrow> received"
  cn_receives :: nat
  cn_wait :: "nat \<Rightarrow> waited"
  cn_waits :: nat
  cn_stderr :: "string option" \<comment> \<open>what the finished error thread collected\<close>
  cn_config :: "string option" \<comment> \<open>what was written to the process\<close>

type_synonym 'a curl = "(curl_net call_world, transport_error, 'a) act"

definition curl_receive :: "received curl" where
  "curl_receive w =
     (let n = cw_net w
      in (Inr (cn_receive n (cn_receives n)), w\<lparr>cw_net := n\<lparr>cn_receives := Suc (cn_receives n)\<rparr>\<rparr>))"

definition curl_try_wait :: "waited curl" where
  "curl_try_wait w =
     (let n = cw_net w
      in (Inr (cn_wait n (cn_waits n)), w\<lparr>cw_net := n\<lparr>cn_waits := Suc (cn_waits n)\<rparr>\<rparr>))"

definition max_body :: nat where
  "max_body = 8 * 1024 * 1024"

text \<open>\<open>name = "value"\<close>\<close>

definition directive :: "string \<Rightarrow> string \<Rightarrow> string" where
  "directive name v = name @ '' = '' @ [quote] @ v @ [quote, newline]"

definition has_line_break :: "string \<Rightarrow> bool" where
  "has_line_break s \<longleftrightarrow> carriage_return \<in> set s \<or> newline \<in> set s"

fun header_directives :: "(string \<times> string) list \<Rightarrow> transport_error + string" where
  "header_directives [] = Inr []"
| "header_directives ((name, v) # headers) =
     (if has_line_break name \<or> has_line_break v
      then Inl (Transport_Protocol ''HTTP headers cannot contain CR or LF'')
      else case header_directives headers of
        Inl e \<Rightarrow> Inl e
      | Inr rest \<Rightarrow> Inr (directive ''header'' (curl_config_escape (name @ '': '' @ v)) @ rest))"

definition curl_timeout :: "http_request \<Rightarrow> nat" where
  "curl_timeout q = unat (max (hq_timeout_seconds q) 1)"

definition curl_config :: "json_text \<Rightarrow> string \<Rightarrow> http_request \<Rightarrow> transport_error + string" where
  "curl_config jt marker q =
     (case header_directives (hq_headers q) of
        Inl e \<Rightarrow> Inl e
      | Inr headers \<Rightarrow>
          Inr (''silent'' @ [newline] @ ''show-error'' @ [newline] @ ''no-buffer'' @ [newline]
            @ directive ''request'' ''POST'' @ directive ''proto'' ''=http,https''
            @ directive ''url'' (curl_config_escape (hq_url q))
            @ directive ''max-time'' (dec (curl_timeout q))
            @ headers
            @ directive ''data-binary'' (curl_config_escape (jt_print jt (hq_body q)))
            @ directive ''write-out'' ([backslash, CHR ''n''] @ marker
                @ '' %{http_code} %{time_namelookup} %{time_connect} %{time_appconnect} %{time_starttransfer}''
                @ [backslash, CHR ''n''])))"

text \<open>\<open>control.check()?\<close> and the deadline, at the top of both loops.\<close>

definition check_deadline :: "nat \<Rightarrow> nat \<Rightarrow> unit curl" where
  "check_deadline start seconds =
     and_then http_check (\<lambda>_.
     and_then instant (\<lambda>now.
     if seconds * 1000000000 \<le> now - start then err (Transport_Io ''request deadline exceeded'') else ok ()))"

text \<open>\<open>decoder.push(&chunk, on_text)\<close>: the callback is given what the decoder passes on.\<close>

definition push_chunk ::
  "json_text \<Rightarrow> 'x text_callback \<Rightarrow> string \<Rightarrow> decoder \<Rightarrow> ('x call_world, transport_error, decoder) act" where
  "push_chunk jt callback chunk d =
     (case decoder_push jt chunk d of
        (r, d') \<Rightarrow>
          and_then (writes (fold callback (drop (length (de_texts d)) (de_texts d')))) (\<lambda>_.
          case r of Inl e \<Rightarrow> err e | Inr _ \<Rightarrow> ok d'))"

fun receive_loop ::
  "nat \<Rightarrow> json_text \<Rightarrow> bool \<Rightarrow> curl_net text_callback \<Rightarrow> nat \<Rightarrow> nat \<Rightarrow> string \<Rightarrow> decoder \<Rightarrow>
   (string \<times> decoder) option curl" where
  "receive_loop 0 jt streaming callback start seconds bytes d = ok None"
| "receive_loop (Suc fuel) jt streaming callback start seconds bytes d =
     and_then (check_deadline start seconds) (\<lambda>_.
     and_then curl_receive (\<lambda>got. case got of
       Chunk chunk \<Rightarrow>
         if max_body < length bytes + length chunk then err (Transport_Protocol ''response exceeds 8 MiB'')
         else and_then (if streaming then push_chunk jt callback chunk d else ok d)
           (receive_loop fuel jt streaming callback start seconds (bytes @ chunk))
     | Broken e \<Rightarrow> err (Transport_Io e)
     | Nothing_Yet \<Rightarrow> receive_loop fuel jt streaming callback start seconds bytes d
     | Disconnected \<Rightarrow> ok (Some (bytes, d))))"

fun wait_loop :: "nat \<Rightarrow> nat \<Rightarrow> nat \<Rightarrow> (bool \<times> string) option curl" where
  "wait_loop 0 start seconds = ok None"
| "wait_loop (Suc fuel) start seconds =
     and_then (check_deadline start seconds) (\<lambda>_.
     and_then curl_try_wait (\<lambda>status. case status of
       Wait_Error e \<Rightarrow> err (Transport_Io e)
     | Running \<Rightarrow> wait_loop fuel start seconds
     | Exited success text_of_status \<Rightarrow> ok (Some (success, text_of_status))))"

text \<open>Milliseconds of a time curl reports, \<open>parse::<f64>()\<close> and the rest: a parameter, as floating point is
  not modelled.\<close>

type_synonym parse_millis = "string \<Rightarrow> u64 option"

definition option_zip :: "'a option \<Rightarrow> 'b option \<Rightarrow> ('a \<times> 'b) option" where
  "option_zip x y = (case (x, y) of (Some a, Some b) \<Rightarrow> Some (a, b) | _ \<Rightarrow> None)"

definition saturating_sub :: "u64 \<Rightarrow> u64 \<Rightarrow> u64" where
  "saturating_sub a b = (if b \<le> a then a - b else 0)"

definition curl_timings :: "parse_millis \<Rightarrow> string list \<Rightarrow> request_timings \<Rightarrow> request_timings" where
  "curl_timings millis values t =
     (let positive = (\<lambda>v. Option.bind v (\<lambda>n. if 0 < n then Some n else None))
      in t\<lparr>rt_dns_ms := millis (values ! 1),
           rt_tcp_connect_ms := map_option (\<lambda>(a, b). saturating_sub a b) (option_zip (millis (values ! 2)) (millis (values ! 1))),
           rt_tls_ms := map_option (\<lambda>(a, b). saturating_sub a b)
             (option_zip (positive (millis (values ! 3))) (millis (values ! 2))),
           rt_first_byte_ms := positive (millis (values ! 4))\<rparr>)"

definition curl_marker :: "string \<Rightarrow> string" where
  "curl_marker turn = ''__NAUSICAA_'' @ turn @ ''__''"

text \<open>What is made of the output of a process that has exited.\<close>

definition curl_response ::
  "json_text \<Rightarrow> parse_millis \<Rightarrow> string \<Rightarrow> bool \<Rightarrow> string \<times> decoder \<Rightarrow> bool \<times> string \<Rightarrow> http_response curl" where
  "curl_response jt millis marker streaming received exit_status =
     (let (bytes, d) = received; (success, status_text) = exit_status in
      if \<not> valid_utf8 bytes then err (Transport_Protocol ''non-UTF-8 response'')
      else case rsplit_once (newline # marker @ '' '') bytes of
        None \<Rightarrow> err (Transport_Protocol ''missing curl metrics'')
      | Some (body, metrics) \<Rightarrow>
          let values = split_whitespace metrics in
          if length values \<noteq> 5 then err (Transport_Protocol ''invalid curl metrics'')
          else case parse_u16 (values ! 0) of
            None \<Rightarrow> err (Transport_Protocol ''invalid HTTP status'')
          | Some http_status \<Rightarrow>
              and_then (writes (\<lambda>w. w\<lparr>cw_timings := curl_timings millis values (cw_timings w)\<rparr>)) (\<lambda>_.
              and_then (reads (\<lambda>w. case cn_stderr (cw_net w) of Some e \<Rightarrow> e | None \<Rightarrow> [])) (\<lambda>stderr.
              if \<not> success then err (Transport_Io (''curl '' @ status_text @ '': '' @ trim (from_utf8_lossy stderr)))
              else if \<not> (200 \<le> http_status \<and> http_status < 300)
                then err (Transport_Http http_status (take_chars 4096 body))
              else and_then
                (if streaming
                 then (case decoder_finish jt d of (Inl e, _) \<Rightarrow> err e | (Inr v, _) \<Rightarrow> ok v)
                 else (case jt_parse jt body of Inl e \<Rightarrow> err (Transport_Protocol e) | Inr v \<Rightarrow> ok v)) (\<lambda>v.
                ok \<lparr>hs_status = http_status, hs_body = v\<rparr>))))"

text \<open>\<open>post_json_controlled\<close>. The result \<open>None\<close>: the fuel was used up.\<close>

definition curl_post_json_controlled ::
  "nat \<Rightarrow> json_text \<Rightarrow> parse_millis \<Rightarrow> http_request \<Rightarrow> curl_net text_callback \<Rightarrow> http_response option curl" where
  "curl_post_json_controlled fuel jt millis q callback =
     and_then http_check (\<lambda>_.
     if \<not> (starts_with (hq_url q) ''https://'' \<or> starts_with (hq_url q) ''http://'')
     then err (Transport_Protocol ''only http:// and https:// endpoints are supported'')
     else and_then (reads (\<lambda>w. curl_marker (cn_marker_id (cw_net w)))) (\<lambda>marker.
       case curl_config jt marker q of
         Inl e \<Rightarrow> err e
       | Inr config \<Rightarrow>
           and_then (reads (\<lambda>w. cn_spawn (cw_net w))) (\<lambda>spawn. case spawn of
             Some e \<Rightarrow> err (Transport_Io e)
           | None \<Rightarrow>
               and_then (writes (\<lambda>w. w\<lparr>cw_net := (cw_net w)\<lparr>cn_config := Some config\<rparr>\<rparr>)) (\<lambda>_.
               and_then instant (\<lambda>start.
               and_then (receive_loop fuel jt (wants_stream q) callback start (curl_timeout q) [] decoder_new) (\<lambda>got.
               case got of
                 None \<Rightarrow> ok None
               | Some received \<Rightarrow>
                   and_then (wait_loop fuel start (curl_timeout q)) (\<lambda>status. case status of
                     None \<Rightarrow> ok None
                   | Some exit_status \<Rightarrow>
                       and_then (curl_response jt millis marker (wants_stream q) received exit_status) (\<lambda>r.
                       ok (Some r)))))))))"

definition curl_transport :: "nat \<Rightarrow> json_text \<Rightarrow> parse_millis \<Rightarrow> curl_net post" where
  "curl_transport fuel jt millis q callback =
     attempt (curl_post_json_controlled fuel jt millis q callback) (\<lambda>r. case r of
       Inl e \<Rightarrow> err (Some e) | Inr None \<Rightarrow> err None | Inr (Some response) \<Rightarrow> ok response)"

end
