(* ===== verification/NativeTransport.thy ===== *)
theory NativeTransport
  imports Transports
begin

text \<open>
  The native transport, crates/provider-openai/src/native.rs. The HTTP client and the timers are a
  library: what an URL parses to, which headers it accepts, what each await yields and which branch
  of the \<open>select!\<close> loop is ready at each poll are parameters.
\<close>

datatype polled = Cancellation_Tick | Deadline_Passed | Operation_Ready

record url_parts =
  up_scheme :: string
  up_username :: string
  up_has_password :: bool

record native_net =
  nn_runtime :: bool \<comment> \<open>a Tokio runtime is there\<close>
  nn_instant_fits :: "nat \<Rightarrow> bool" \<comment> \<open>\<open>checked_add\<close> of so many seconds\<close>
  nn_parse_url :: "string \<Rightarrow> url_parts option"
  nn_header_name :: "string \<Rightarrow> string option" \<comment> \<open>the name as the client writes it\<close>
  nn_header_value :: "string \<Rightarrow> bool"
  nn_serialize :: "json \<Rightarrow> string + string"
  nn_head :: "string + nat \<times> u64 option" \<comment> \<open>the error, or the status and the announced length\<close>
  nn_chunk :: "nat \<Rightarrow> string + string option"
  nn_chunks :: nat
  nn_poll :: "nat \<Rightarrow> polled"
  nn_polls :: nat

text \<open>An error of \<open>send\<close> is \<open>Inr\<close>; \<open>Inl\<close> is an error with which the \<open>select!\<close> loop left it.\<close>

type_synonym 'a native = "(native_net call_world, transport_error + transport_error, 'a) act"

abbreviation send_error :: "transport_error \<Rightarrow> 'a native" where
  "send_error e \<equiv> err (Inr e)"

abbreviation send_protocol :: "string \<Rightarrow> 'a native" where
  "send_protocol m \<equiv> err (Inr (Transport_Protocol m))"

definition native_poll :: "polled native" where
  "native_poll w =
     (let n = cw_net w
      in (Inr (nn_poll n (nn_polls n)), w\<lparr>cw_net := n\<lparr>nn_polls := Suc (nn_polls n)\<rparr>\<rparr>))"

text \<open>The loop around an await of the operation; \<open>False\<close> when the fuel is used up.\<close>

fun native_await :: "nat \<Rightarrow> bool native" where
  "native_await 0 = ok False"
| "native_await (Suc fuel) =
     and_then native_poll (\<lambda>p. case p of
       Cancellation_Tick \<Rightarrow> and_then (map_err Inl http_check) (\<lambda>_. native_await fuel)
     | Deadline_Passed \<Rightarrow> err (Inl (Transport_Io ''request timed out''))
     | Operation_Ready \<Rightarrow> ok True)"

definition native_chunk :: "string option native" where
  "native_chunk w =
     (let n = cw_net w; w' = w\<lparr>cw_net := n\<lparr>nn_chunks := Suc (nn_chunks n)\<rparr>\<rparr>
      in case nn_chunk n (nn_chunks n) of
           Inl e \<Rightarrow> (Inl (Inr (Transport_Io e)), w')
         | Inr c \<Rightarrow> (Inr c, w'))"

fun native_headers ::
  "native_net \<Rightarrow> (string \<times> string) list \<Rightarrow> (string \<times> string) list \<Rightarrow> transport_error + (string \<times> string) list" where
  "native_headers n [] headers = Inr headers"
| "native_headers n ((name, v) # rest) headers =
     (case nn_header_name n name of
        None \<Rightarrow> Inl (Transport_Protocol ''invalid HTTP header name'')
      | Some name' \<Rightarrow>
          if \<not> nn_header_value n v then Inl (Transport_Protocol ''invalid HTTP header value'')
          else native_headers n rest (bt_insert name' v headers))"

fun native_body ::
  "nat \<Rightarrow> json_text \<Rightarrow> bool \<Rightarrow> native_net text_callback \<Rightarrow> nat \<Rightarrow> string \<Rightarrow> decoder \<Rightarrow>
   (string \<times> decoder) option native" where
  "native_body 0 jt decoding callback received body d = ok None"
| "native_body (Suc fuel) jt decoding callback received body d =
     and_then (native_await fuel) (\<lambda>ready.
     if \<not> ready then ok None
     else and_then native_chunk (\<lambda>got. case got of
       None \<Rightarrow> ok (Some (body, d))
     | Some chunk \<Rightarrow>
         and_then (map_err Inr http_check) (\<lambda>_.
         if max_body < received + length chunk then send_protocol ''HTTP response exceeds 8 MiB''
         else if decoding
           then and_then (map_err Inr (push_chunk jt callback chunk d))
             (native_body fuel jt decoding callback (received + length chunk) body)
           else native_body fuel jt decoding callback (received + length chunk) (body @ chunk) d)))"

text \<open>What is made of a response that was received.\<close>

definition native_response ::
  "json_text \<Rightarrow> bool \<Rightarrow> nat \<Rightarrow> nat \<Rightarrow> string \<times> decoder \<Rightarrow> http_response native" where
  "native_response jt streaming status start received =
     and_then (map_err Inr http_check) (\<lambda>_.
     and_then (elapsed_ms start) (\<lambda>ms.
     and_then (writes (\<lambda>w. w\<lparr>cw_timings := (cw_timings w)\<lparr>rt_total_ms := ms\<rparr>\<rparr>)) (\<lambda>_.
     if \<not> (200 \<le> status \<and> status < 300)
     then send_error (Transport_Http status (take_chars 4096 (from_utf8_lossy (fst received))))
     else and_then
       (if streaming
        then (case decoder_finish jt (snd received) of (Inl e, _) \<Rightarrow> send_error e | (Inr v, _) \<Rightarrow> ok v)
        else (case jt_parse jt (fst received) of Inl e \<Rightarrow> send_protocol e | Inr v \<Rightarrow> ok v)) (\<lambda>v.
       ok \<lparr>hs_status = status, hs_body = v\<rparr>))))"

text \<open>The request as the client takes it: its headers, or why it is refused.\<close>

definition native_request :: "native_net \<Rightarrow> http_request \<Rightarrow> transport_error + (string \<times> string) list" where
  "native_request net q =
     (case nn_parse_url net (hq_url q) of
        None \<Rightarrow> Inl (Transport_Protocol ''invalid HTTP endpoint'')
      | Some url \<Rightarrow>
          if up_scheme url \<notin> {''http'', ''https''} \<or> up_username url \<noteq> [] \<or> up_has_password url
          then Inl (Transport_Protocol ''endpoint must use HTTP(S) without URL credentials'')
          else (case native_headers net (hq_headers q) [] of
            Inl e \<Rightarrow> Inl e
          | Inr headers \<Rightarrow>
              (case nn_serialize net (hq_body q) of
                 Inl e \<Rightarrow> Inl (Transport_Protocol e)
               | Inr _ \<Rightarrow> Inr headers)))"

definition native_send ::
  "nat \<Rightarrow> json_text \<Rightarrow> http_request \<Rightarrow> native_net text_callback \<Rightarrow> http_response option native" where
  "native_send fuel jt q callback =
     and_then instant (\<lambda>start.
     and_then (reads cw_net) (\<lambda>net.
     case native_request net q of
       Inl e \<Rightarrow> send_error e
     | Inr headers \<Rightarrow>
         and_then (native_await fuel) (\<lambda>ready.
         if \<not> ready then ok None
         else case nn_head net of
           Inl e \<Rightarrow> send_error (Transport_Io e)
         | Inr (status, announced) \<Rightarrow>
             if (case announced of Some n \<Rightarrow> max_body < unat n | None \<Rightarrow> False)
             then send_protocol ''HTTP response exceeds 8 MiB''
             else and_then (native_body fuel jt (wants_stream q \<and> 200 \<le> status \<and> status < 300) callback 0 [] decoder_new) (\<lambda>got.
               case got of
                 None \<Rightarrow> ok None
               | Some received \<Rightarrow>
                   and_then (native_response jt (wants_stream q) status start received) (\<lambda>r. ok (Some r))))))"

definition native_post_json_controlled ::
  "nat \<Rightarrow> json_text \<Rightarrow> http_request \<Rightarrow> native_net text_callback \<Rightarrow>
   (native_net call_world, transport_error, http_response option) act" where
  "native_post_json_controlled fuel jt q callback =
     and_then http_check (\<lambda>_.
     and_then (reads cw_net) (\<lambda>net.
     if \<not> nn_runtime net
     then err (Transport_Protocol ''ReqwestTransport requires a Tokio runtime with I/O and time enabled'')
     else if \<not> nn_instant_fits net (curl_timeout q) then err (Transport_Protocol ''request timeout is too large'')
     else attempt (native_send fuel jt q callback) (\<lambda>result. case result of
         Inl (Inl e) \<Rightarrow> err e
       | Inl (Inr e) \<Rightarrow> and_then http_check (\<lambda>_. err e)
       | Inr None \<Rightarrow> ok None
       | Inr (Some response) \<Rightarrow> and_then http_check (\<lambda>_. ok (Some response)))))"

definition native_transport :: "nat \<Rightarrow> json_text \<Rightarrow> native_net post" where
  "native_transport fuel jt q callback =
     attempt (native_post_json_controlled fuel jt q callback) (\<lambda>r. case r of
       Inl e \<Rightarrow> err (Some e) | Inr None \<Rightarrow> err None | Inr (Some response) \<Rightarrow> ok response)"

end
