(* ===== verification/StreamProperties.thy ===== *)
theory StreamProperties
  imports StreamDecoder Paths
begin

text \<open>
  The properties of the stream decoder: the pieces the network delivers do not matter, what is held
  is bounded, and only a complete response, whose text was passed on in full, comes out.
\<close>

section \<open>The whole stream\<close>

text \<open>What a transport does with the decoder: push every chunk, then finish.\<close>

definition decode_stream :: "json_text \<Rightarrow> string list \<Rightarrow> transport_error + json \<times> string list" where
  "decode_stream jt chunks =
     (case and_then (for_each chunks (decoder_push jt)) (\<lambda>_. decoder_finish jt) decoder_new of
        (Inl e, _) \<Rightarrow> Inl e
      | (Inr v, d) \<Rightarrow> Inr (v, de_texts d))"

text \<open>The reference: the whole text, split at its line feeds; every line but the last is decoded, the
  last is left to the end.\<close>

definition reference_line :: "json_text \<Rightarrow> string \<Rightarrow> unit decoding" where
  "reference_line jt line =
     (if max_frame < length line then protocol_error ''stream line exceeds 1 MiB''
      else if \<not> valid_utf8 line then protocol_error ''stream contains invalid UTF-8''
      else decode_line jt True (trim_returns line))"

definition reference_stream :: "json_text \<Rightarrow> string \<Rightarrow> transport_error + json \<times> string list" where
  "reference_stream jt bytes =
     (let lines = split_on newline bytes in
      case and_then (for_each (butlast lines) (reference_line jt)) (\<lambda>_.
        if max_frame < length (last lines) then protocol_error ''stream line exceeds 1 MiB''
        else and_then (writes (\<lambda>d. d\<lparr>de_pending := last lines\<rparr>)) (\<lambda>_. decoder_finish jt)) decoder_new of
        (Inl e, _) \<Rightarrow> Inl e
      | (Inr v, d) \<Rightarrow> Inr (v, de_texts d))"

lemma split_on_Nil [simp]: "split_on c s \<noteq> []"
  by (cases s) (auto split: list.splits)

lemma split_on_absent: "c \<notin> set s \<Longrightarrow> split_on c s = [s]"
  by (induction s) auto

lemma split_on_append: "c \<notin> set l \<Longrightarrow> split_on c (l @ c # s) = l # split_on c s"
proof (induction l)
  case (Cons x l)
  then show ?case by (cases "split_on c s") auto
qed simp

text \<open>Nothing but a line feed touches more than the pending line.\<close>

lemma push_pending:
  assumes "newline \<notin> set l" and "length (de_pending d) \<le> max_frame"
  shows "decoder_push jt l d =
    (if length (de_pending d) + length l \<le> max_frame then (Inr (), d\<lparr>de_pending := de_pending d @ l\<rparr>)
     else (Inl (Transport_Protocol ''stream line exceeds 1 MiB''),
       d\<lparr>de_pending := de_pending d @ take (Suc max_frame - length (de_pending d)) l\<rparr>))"
  using assms
proof (induction l arbitrary: d)
  case Nil
  then show ?case by (simp add: decoder_push_def act_defs)
next
  case (Cons c l)
  have c: "c \<noteq> newline" "newline \<notin> set l" using Cons.prems(1) by auto
  show ?case
  proof (cases "length (de_pending d) = max_frame")
    case True
    then show ?thesis using c by (simp add: decoder_push_def push_byte_def act_defs)
  next
    case False
    let ?d = "d\<lparr>de_pending := de_pending d @ [c]\<rparr>"
    have "length (de_pending ?d) \<le> max_frame" using False Cons.prems(2) by simp
    note IH = Cons.IH [OF c(2) this]
    have "decoder_push jt (c # l) d = decoder_push jt l ?d"
      using c False Cons.prems(2) by (simp add: decoder_push_def push_byte_def act_defs)
    moreover have "Suc max_frame - length (de_pending d) = Suc (max_frame - length (de_pending d))"
      using Cons.prems(2) by simp
    ultimately show ?thesis using IH by simp
  qed
qed

lemma decoder_push_append: "decoder_push jt (xs @ ys) = and_then (decoder_push jt xs) (\<lambda>_. decoder_push jt ys)"
  by (simp add: decoder_push_def for_each_append)

lemma push_chunks: "for_each chunks (decoder_push jt) = decoder_push jt (concat chunks)"
  by (induction chunks) (simp_all add: decoder_push_append decoder_push_def [of jt "[]"])

text \<open>Two actions that do the same, up to the state an error leaves behind.\<close>

definition agrees :: "('s, 'e, 'a) act \<Rightarrow> ('s, 'e, 'a) act \<Rightarrow> 's \<Rightarrow> bool" where
  "agrees m n s \<longleftrightarrow>
     (case m s of (Inl e, _) \<Rightarrow> fst (n s) = Inl e | (Inr a, s') \<Rightarrow> n s = (Inr a, s'))"

lemma agrees_refl: "agrees m m s"
  by (simp add: agrees_def split: prod.split sum.split)

lemma agrees_and_then:
  assumes "agrees m n s" and "\<forall>a s'. m s = (Inr a, s') \<longrightarrow> agrees (k a) (h a) s'"
  shows "agrees (and_then m k) (and_then n h) s"
  using assms by (auto simp: agrees_def and_then_def split: prod.splits sum.splits)

lemma agrees_trans: "agrees m n s \<Longrightarrow> agrees n l s \<Longrightarrow> agrees m l s"
  by (auto simp: agrees_def split: prod.splits sum.splits)

lemma push_line:
  assumes "newline \<notin> set l" and "de_pending d = []"
  shows "agrees (decoder_push jt (l @ [newline])) (reference_line jt l) d"
proof -
  define e where "e = d"
  have d: "d = e\<lparr>de_pending := []\<rparr>" using assms(2) by (simp add: e_def)
  show ?thesis
    using push_pending [OF assms(1), of d jt] unfolding d
    by (auto simp: agrees_def decoder_push_append reference_line_def act_defs
        decoder_push_def [of jt "[newline]"] push_byte_def split: sum.splits prod.splits)
qed

section \<open>What decoding keeps\<close>

locale decoder_frame =
  fixes I :: "decoder \<Rightarrow> bool" and listening :: bool
  assumes keep_call: "I d \<Longrightarrow> n < 128 \<Longrightarrow> I (d\<lparr>de_calls := bt_insert n c (de_calls d)\<rparr>)"
    and keep_text: "I d \<Longrightarrow>
      I (d\<lparr>de_content := de_content d @ x, de_texts := de_texts d @ (if listening then [x] else [])\<rparr>)"
    and keep_reason: "I d \<Longrightarrow> I (d\<lparr>de_finish_reason := Some r\<rparr>)"
    and keep_usage: "I d \<Longrightarrow> I (d\<lparr>de_usage := v\<rparr>)"
begin

lemma frame_expect: "preserves I (expect_str m v)"
  unfolding expect_str_def by (intro frame)

lemma frame_present: "(\<And>x. preserves I (f x)) \<Longrightarrow> preserves I (if_present v k f)"
  unfolding if_present_def by (intro frame)

lemma frame_update_call: "n < 128 \<Longrightarrow> preserves I (update_call n f)"
  unfolding update_call_def by (intro preserves_writes keep_call)

lemma frame_call_fragment: "preserves I (call_fragment call)"
proof (cases "Option.bind (jfield as_u64 call ''index'') (\<lambda>n. if n < 128 then Some n else None)")
  case (Some n)
  then have "n < 128" by (auto simp: bind_eq_Some_conv split: if_splits)
  then have "unat n < 128" by (simp add: word_less_nat_alt)
  then show ?thesis
    unfolding call_fragment_def Some option.case Let_def
    by (intro frame frame_present frame_expect frame_update_call)
qed (auto simp: call_fragment_def intro: frame)

lemma frame_add_text: "preserves I (add_text listening x)"
  unfolding add_text_def using keep_text by (intro preserves_writes) auto

lemma frame_frame_delta: "preserves I (frame_delta listening delta)"
  unfolding frame_delta_def
  by (intro frame frame_present frame_expect frame_add_text preserves_for_each frame_call_fragment)

lemma frame_frame_choice: "preserves I (frame_choice listening choice)"
  unfolding frame_choice_def
  by (intro frame frame_present frame_expect frame_frame_delta preserves_writes keep_reason)

lemma frame_decode_frame: "preserves I (decode_frame jt listening v)"
  unfolding decode_frame_def
  by (intro frame frame_present preserves_writes keep_usage preserves_for_each frame_frame_choice)

end

interpretation pending: decoder_frame "\<lambda>d. de_pending d = l" listening for l listening
  by unfold_locales auto

lemma dispatch_pending: "preserves (\<lambda>d. de_pending d = l) (dispatch jt listening)"
  unfolding dispatch_def by (intro frame preserves_writes pending.frame_decode_frame) auto

lemma decode_line_pending: "preserves (\<lambda>d. de_pending d = l) (decode_line jt listening line)"
  unfolding decode_line_def by (intro frame preserves_writes dispatch_pending) auto

lemma reference_line_pending: "preserves (\<lambda>d. de_pending d = l) (reference_line jt line)"
  unfolding reference_line_def by (intro frame decode_line_pending)

text \<open>Pushing a text is decoding its lines.\<close>

lemma push_lines:
  assumes "de_pending d = []"
  shows "agrees (decoder_push jt bytes)
    (and_then (for_each (butlast (split_on newline bytes)) (reference_line jt)) (\<lambda>_.
       decoder_push jt (last (split_on newline bytes)))) d"
  using assms
proof (induction "length bytes" arbitrary: bytes d rule: less_induct)
  case less
  show ?case
  proof (cases "newline \<in> set bytes")
    case False
    then show ?thesis by (simp add: split_on_absent agrees_refl)
  next
    case True
    then obtain l rest where bytes: "bytes = l @ newline # rest" and l: "newline \<notin> set l"
      using split_list_first by metis
    have push: "decoder_push jt bytes = and_then (decoder_push jt (l @ [newline])) (\<lambda>_. decoder_push jt rest)"
      unfolding decoder_push_append [symmetric] by (simp add: bytes)
    have ref: "and_then (for_each (butlast (split_on newline bytes)) (reference_line jt)) (\<lambda>_.
        decoder_push jt (last (split_on newline bytes))) =
      and_then (reference_line jt l) (\<lambda>_.
        and_then (for_each (butlast (split_on newline rest)) (reference_line jt)) (\<lambda>_.
          decoder_push jt (last (split_on newline rest))))"
      by (simp add: bytes split_on_append [OF l] and_then_assoc)
    have later: "agrees (decoder_push jt rest)
        (and_then (for_each (butlast (split_on newline rest)) (reference_line jt)) (\<lambda>_.
          decoder_push jt (last (split_on newline rest)))) d'"
      if "decoder_push jt (l @ [newline]) d = (Inr u, d')" for u d'
    proof (rule less.hyps)
      show "length rest < length bytes" by (simp add: bytes)
      have "reference_line jt l d = (Inr u, d')"
        using push_line [OF l less.prems, of jt] that by (simp add: agrees_def)
      then show "de_pending d' = []"
        using reference_line_pending less.prems by (rule preservesD [rotated 2])
    qed
    show ?thesis
      unfolding push ref using push_line [OF l less.prems] later by (intro agrees_and_then) blast+
  qed
qed

lemma push_last:
  assumes "de_pending d = []" and "newline \<notin> set l"
  shows "agrees (decoder_push jt l)
    (if max_frame < length l then protocol_error ''stream line exceeds 1 MiB''
     else writes (\<lambda>d. d\<lparr>de_pending := l\<rparr>)) d"
  using push_pending [OF assms(2), of d jt] assms(1) by (auto simp: agrees_def act_defs)

lemma split_on_pieces: "l \<in> set (split_on c s) \<Longrightarrow> c \<notin> set l"
  by (induction s arbitrary: l) (fastforce split: if_splits list.splits)+

text \<open>C23 The network's pieces do not matter: decoding the chunks of a stream, however it was cut (in the
  middle of a line, a character or a JSON token), gives what decoding the whole text line by line
  gives: the same response and the same text previews, or the same error.\<close>

theorem chunking_irrelevant:
  "decode_stream jt chunks = reference_stream jt (concat chunks)"
proof -
  let ?bytes = "concat chunks"
  let ?lines = "split_on newline ?bytes"
  have start: "de_pending decoder_new = []" by (simp add: decoder_new_def)
  have "agrees (decoder_push jt (last ?lines))
      (if max_frame < length (last ?lines) then protocol_error ''stream line exceeds 1 MiB''
       else writes (\<lambda>d. d\<lparr>de_pending := last ?lines\<rparr>)) d'"
    if "for_each (butlast ?lines) (reference_line jt) decoder_new = (Inr u, d')" for u d'
  proof (rule push_last)
    show "newline \<notin> set (last ?lines)" by (rule split_on_pieces [of _ newline ?bytes]) simp
    have "preserves (\<lambda>d. de_pending d = []) (for_each (butlast ?lines) (reference_line jt))"
      by (intro preserves_for_each reference_line_pending)
    from preservesD [OF this start that] show "de_pending d' = []" .
  qed
  then have "agrees (decoder_push jt ?bytes)
      (and_then (for_each (butlast ?lines) (reference_line jt)) (\<lambda>_.
        if max_frame < length (last ?lines) then protocol_error ''stream line exceeds 1 MiB''
        else writes (\<lambda>d. d\<lparr>de_pending := last ?lines\<rparr>))) decoder_new"
    by (intro agrees_trans [OF push_lines [OF start]] agrees_and_then agrees_refl) blast
  then have "agrees (and_then (decoder_push jt ?bytes) (\<lambda>_. decoder_finish jt))
      (and_then (and_then (for_each (butlast ?lines) (reference_line jt)) (\<lambda>_.
        if max_frame < length (last ?lines) then protocol_error ''stream line exceeds 1 MiB''
        else writes (\<lambda>d. d\<lparr>de_pending := last ?lines\<rparr>))) (\<lambda>_. decoder_finish jt)) decoder_new"
    by (intro agrees_and_then) (simp_all add: agrees_refl)
  moreover have out: "and_then (if c then err e else m) k = (if c then err e else and_then m k)"
    for c e and m :: "unit decoding" and k :: "unit \<Rightarrow> json decoding" by simp
  ultimately show ?thesis
    unfolding decode_stream_def reference_stream_def push_chunks Let_def and_then_assoc out
    by (cases "max_frame < length (last ?lines)") (auto simp: agrees_def split: prod.splits sum.splits)
qed

section \<open>What the decoder holds\<close>

definition decoder_ok :: "decoder \<Rightarrow> bool" where
  "decoder_ok d \<longleftrightarrow>
     length (de_pending d) \<le> max_frame \<and> length (de_data d) \<le> max_frame \<and>
     bt_ok (de_calls d) \<and> (\<forall>n \<in> set (keys (de_calls d)). n < 128) \<and>
     (de_done d \<longrightarrow> de_data d = [] \<and> de_finish_reason d \<noteq> None) \<and> de_content d = concat (de_texts d)"

interpretation held: decoder_frame decoder_ok True
  by unfold_locales (auto simp: decoder_ok_def)

lemma decoder_ok_new: "decoder_ok decoder_new"
  by (simp add: decoder_ok_def decoder_new_def)

lemma dispatch_held: "preserves decoder_ok (dispatch jt True)"
proof -
  have "triple decoder_ok (dispatch jt True) (\<lambda>_. decoder_ok) (\<lambda>_. decoder_ok)"
  proof (rule tripleI)
    fix s :: decoder and r s'
    let ?s = "s\<lparr>de_data := []\<rparr>"
    assume ok: "decoder_ok s"
    then have cleared: "decoder_ok ?s" by (simp add: decoder_ok_def)
    have run: "decoder_ok s'" if "dispatch jt True s = (q, s')" for q
    proof (cases "de_data s = [] \<or> trim (de_data s) = ''[DONE]''")
      case True
      then show ?thesis using that ok cleared
        by (auto simp: dispatch_def act_defs decoder_ok_def split: if_splits)
    next
      case False
      show ?thesis
      proof (cases "jt_parse jt (de_data s)")
        case (Inl e)
        then show ?thesis using that False cleared by (auto simp: dispatch_def act_defs)
      next
        case (Inr frame)
        then have "decode_frame jt True frame ?s = (q, s')"
          using that False by (simp add: dispatch_def act_defs)
        then show ?thesis using cleared by (blast intro: preservesD [OF held.frame_decode_frame])
      qed
    qed
    show "decoder_ok s'" if "dispatch jt True s = (Inr r, s')" for r by (rule run [OF that])
    show "decoder_ok s'" if "dispatch jt True s = (Inl e, s')" for e by (rule run [OF that])
  qed
  then show ?thesis by (simp add: preserves_def)
qed

lemma decode_line_held: "triple decoder_ok (decode_line jt True line) (\<lambda>_. decoder_ok) (\<lambda>_ _. True)"
proof (cases "line = []")
  case True
  show ?thesis
    unfolding decode_line_def if_P [OF True]
    by (rule triple_weaken [OF dispatch_held [unfolded preserves_def]]) simp_all
next
  case False
  then show ?thesis
    by (intro tripleI)
      (auto simp: decode_line_def act_defs decoder_ok_def split: if_splits option.splits)
qed

lemma push_byte_held: "triple decoder_ok (push_byte jt c) (\<lambda>_. decoder_ok) (\<lambda>_ _. True)"
proof (cases "c = newline")
  case False
  then show ?thesis
    by (intro tripleI) (auto simp: push_byte_def act_defs decoder_ok_def split: if_splits)
next
  case True
  show ?thesis
  proof (rule tripleI)
    fix s :: decoder and u :: unit and s'
    assume ok: "decoder_ok s" and run: "push_byte jt c s = (Inr u, s')"
    have "decoder_ok (s\<lparr>de_pending := []\<rparr>)" using ok by (simp add: decoder_ok_def)
    moreover have "decode_line jt True (trim_returns (de_pending s)) (s\<lparr>de_pending := []\<rparr>) = (Inr u, s')"
      using run True by (simp add: push_byte_def act_defs split: if_splits)
    ultimately show "decoder_ok s'" by (rule triple_value [OF decode_line_held])
  qed simp
qed

lemma decoder_push_held: "triple decoder_ok (decoder_push jt bytes) (\<lambda>_. decoder_ok) (\<lambda>_ _. True)"
  unfolding decoder_push_def
proof (induction bytes)
  case Nil
  show ?case unfolding for_each.simps by (rule triple_okI)
next
  case (Cons c bytes)
  then show ?case using triple_and_then [OF push_byte_held] by simp
qed

lemma sorted_keys_bound: "bt_ok (m :: (nat \<times> 'v) list) \<Longrightarrow> \<forall>k \<in> set (keys m). k < n \<Longrightarrow> length m \<le> n"
proof -
  assume "bt_ok m" and bound: "\<forall>k \<in> set (keys m). k < n"
  have "length m = length (keys m)" by (simp add: keys_def)
  also have "\<dots> = card (set (keys m))" using bt_ok_distinct [OF \<open>bt_ok m\<close>] by (rule distinct_card [symmetric])
  also have "\<dots> \<le> card {..<n}" using bound by (intro card_mono) auto
  finally show ?thesis by simp
qed

text \<open>What is held of a stream is bounded whatever a server sends: after any chunks that were taken
  without an error the pending line and the pending event are at most 1 MiB each and there are at
  most 128 tool calls; and the text collected is exactly the text passed on.\<close>

theorem stream_bounded:
  assumes "for_each chunks (decoder_push jt) decoder_new = (Inr (), d)"
  shows "length (de_pending d) \<le> 1048576 \<and> length (de_data d) \<le> 1048576 \<and> length (de_calls d) \<le> 128 \<and>
    de_content d = concat (de_texts d)"
proof -
  have "decoder_ok d"
    using triple_value [OF decoder_push_held decoder_ok_new] assms by (simp add: push_chunks)
  then show ?thesis
    using sorted_keys_bound [of "de_calls d" 128] by (simp add: decoder_ok_def max_frame_def)
qed

section \<open>Only complete responses\<close>

lemma finished_calls_result:
  "finished_calls n calls = Inr cs \<Longrightarrow>
   cs = map (call_json \<circ> snd) calls \<and> map fst calls = [n..<n + length calls] \<and>
   (\<forall>c \<in> set (map snd calls). sc_id c \<noteq> [] \<and> sc_name c \<noteq> [] \<and> sc_arguments c \<noteq> [])"
proof (induction n calls arbitrary: cs rule: finished_calls.induct)
  case (2 n index c calls)
  then show ?case by (auto simp: upt_conv_Cons simp del: upt_Suc split: sum.splits if_splits)
qed simp

text \<open>The end of the stream adds no text: an event that is open then is the last, \<open>[DONE]\<close>.\<close>

interpretation held_over: decoder_frame "\<lambda>d. de_done d = b \<and> de_data d = x" listening for b x listening
  by unfold_locales auto

lemma dispatch_result:
  assumes "dispatch jt listening d = (Inr u, d')"
  shows "de_data d' = []" and "de_done d' \<Longrightarrow> de_done d \<longrightarrow> de_data d = [] \<Longrightarrow>
    d' = d\<lparr>de_data := [], de_done := True\<rparr> \<and> (de_done d \<or> de_finish_reason d \<noteq> None)"
proof -
  have "de_data d' = [] \<and> (de_done d' \<longrightarrow> (de_done d \<longrightarrow> de_data d = []) \<longrightarrow>
    d' = d\<lparr>de_data := [], de_done := True\<rparr> \<and> (de_done d \<or> de_finish_reason d \<noteq> None))"
  proof (cases "de_data d = [] \<or> trim (de_data d) = ''[DONE]''")
    case True
    then show ?thesis using assms by (auto simp: dispatch_def act_defs split: if_splits)
  next
    case False
    then obtain v where "decode_frame jt listening v (d\<lparr>de_data := []\<rparr>) = (Inr u, d')"
      using assms by (auto simp: dispatch_def act_defs split: sum.splits)
    from preservesD [OF held_over.frame_decode_frame [of "de_done d" "[]"] _ this] False
    show ?thesis by auto
  qed
  then show "de_data d' = []" and "de_done d' \<Longrightarrow> de_done d \<longrightarrow> de_data d = [] \<Longrightarrow>
    d' = d\<lparr>de_data := [], de_done := True\<rparr> \<and> (de_done d \<or> de_finish_reason d \<noteq> None)" by blast+
qed

lemma last_line_result:
  assumes "decode_line jt False l d = (Inr u, d1)" and "dispatch jt False d1 = (Inr w, d2)" and "de_done d2"
    and "de_done d \<longrightarrow> de_data d = []"
  shows "\<exists>b. d2 = d\<lparr>de_data := [], de_done := b\<rparr> \<and> (de_done d \<or> de_finish_reason d \<noteq> None)"
proof (cases "l = []")
  case True
  then have first: "dispatch jt False d = (Inr u, d1)" using assms(1) by (simp add: decode_line_def)
  have data: "de_data d1 = []" by (rule dispatch_result(1) [OF first])
  then have "d2 = d1" using assms(2) by (simp add: dispatch_def act_defs)
  with dispatch_result(2) [OF first] assms(3,4) show ?thesis by auto
next
  case False
  show ?thesis
  proof (cases "strip_prefix ''data:'' l")
    case None
    then have "d1 = d" using assms(1) False by (simp add: decode_line_def act_defs)
    with dispatch_result(2) [OF assms(2,3)] assms(4) show ?thesis by auto
  next
    case (Some x)
    then have "\<not> de_done d" "\<exists>y. d1 = d\<lparr>de_data := y\<rparr>"
      using assms(1) False by (auto simp: decode_line_def act_defs split: if_splits)
    then obtain y where "\<not> de_done d" "d1 = d\<lparr>de_data := y\<rparr>" by blast
    with dispatch_result(2) [OF assms(2,3)] show ?thesis by auto
  qed
qed

lemma finish_result:
  assumes "decoder_finish jt d = (Inr v, d')" and "de_done d \<longrightarrow> de_data d = [] \<and> de_finish_reason d \<noteq> None"
  shows "\<exists>calls reason. finished_calls 0 (de_calls d) = Inr calls \<and> de_finish_reason d = Some reason \<and>
    v = response_json (de_content d) calls (Some reason) (de_usage d) \<and> de_texts d' = de_texts d"
proof -
  have start: "de_done d \<longrightarrow> de_data d = []" using assms(2) by simp
  obtain d1 d2 where d2: "dispatch jt False d1 = (Inr (), d2)" "de_done d2"
    and pending: "de_pending d = [] \<and> d1 = d \<or> (\<exists>l. decode_line jt False l (d\<lparr>de_pending := []\<rparr>) = (Inr (), d1))"
    and fin: "\<exists>calls. finished_calls 0 (de_calls d2) = Inr calls \<and>
      v = response_json (de_content d2) calls (de_finish_reason d2) (de_usage d2)" "d' = d2"
    using assms(1) by (auto simp: decoder_finish_def act_defs split: prod.splits sum.splits if_splits)
  have "\<exists>p b. d2 = d\<lparr>de_pending := p, de_data := [], de_done := b\<rparr> \<and> (de_done d \<or> de_finish_reason d \<noteq> None)"
  proof (cases "de_pending d = [] \<and> d1 = d")
    case True
    with dispatch_result(2) [OF d2] start have "d2 = d\<lparr>de_data := [], de_done := True\<rparr>"
      "de_done d \<or> de_finish_reason d \<noteq> None" by simp_all
    then show ?thesis by (intro exI [of _ "de_pending d"] exI [of _ True]) simp
  next
    case False
    with pending obtain l where "decode_line jt False l (d\<lparr>de_pending := []\<rparr>) = (Inr (), d1)" by blast
    from last_line_result [OF this d2] start show ?thesis by auto
  qed
  then show ?thesis using fin assms(2) by auto
qed

lemma decoded_response:
  assumes "decode_stream jt chunks = Inr (v, texts)"
  shows "\<exists>calls reason usage. v = response_json (concat texts) (map call_json calls) (Some reason) usage \<and>
    length calls \<le> 128 \<and> (\<forall>c \<in> set calls. sc_id c \<noteq> [] \<and> sc_name c \<noteq> [] \<and> sc_arguments c \<noteq> [])"
proof -
  from assms obtain d d' where push: "decoder_push jt (concat chunks) decoder_new = (Inr (), d)"
    and fin: "decoder_finish jt d = (Inr v, d')" and texts: "texts = de_texts d'"
    by (auto simp: decode_stream_def push_chunks and_then_def split: prod.splits sum.splits)
  have ok: "decoder_ok d" by (rule triple_value [OF decoder_push_held decoder_ok_new push])
  then have "de_done d \<longrightarrow> de_data d = [] \<and> de_finish_reason d \<noteq> None" by (simp add: decoder_ok_def)
  from finish_result [OF fin this] obtain calls reason where calls: "finished_calls 0 (de_calls d) = Inr calls"
    and v: "v = response_json (de_content d) calls (Some reason) (de_usage d)" "de_texts d' = de_texts d"
    by (elim exE conjE)
  have "de_content d = concat texts" using ok v(2) texts by (simp add: decoder_ok_def)
  moreover have "length (de_calls d) \<le> 128" using ok by (intro sorted_keys_bound) (simp_all add: decoder_ok_def)
  ultimately show ?thesis
    using finished_calls_result [OF calls] v(1)
    by (intro exI [of _ "map snd (de_calls d)"] exI [of _ reason] exI [of _ "de_usage d"]) simp
qed

text \<open>Only complete responses come out: a stream that decodes was ended by \<open>[DONE]\<close> after a finish
  reason; its response holds the text that was passed on, all of it, and its tool calls are numbered
  from zero without a gap and each has an identifier, a name and arguments.\<close>

theorem only_complete_responses:
  assumes "decode_stream jt chunks = Inr (v, texts)"
  shows "\<exists>calls reason usage. v = response_json (concat texts) (map call_json calls) (Some reason) usage \<and>
    length calls \<le> 128 \<and> (\<forall>c \<in> set calls. sc_id c \<noteq> [] \<and> sc_name c \<noteq> [] \<and> sc_arguments c \<noteq> [])"
  by (rule decoded_response [OF assms])

section \<open>A sample stream\<close>

text \<open>Two frames, the text of the second split from its call, cut within a line.\<close>

definition sample_delta :: "(string \<times> json) list \<Rightarrow> json \<Rightarrow> json" where
  "sample_delta delta reason = jobject [(''choices'', JArray [jobject
     [(''index'', JUint 0), (''delta'', jobject delta), (''finish_reason'', reason)]])]"

definition sample_fragment :: json where
  "sample_fragment = jobject [(''index'', JUint 0), (''id'', JString ''c''),
     (''function'', jobject [(''name'', JString ''n''), (''arguments'', JString ''{}'')])]"

definition sample_json :: json_text where
  "sample_json = \<lparr>jt_parse = (\<lambda>s.
       if trim s = ''1'' then Inr (sample_delta [(''content'', JString ''hi'')] JNull)
       else if trim s = ''2'' then Inr (sample_delta
         [(''content'', JString ''!''), (''tool_calls'', JArray [sample_fragment])] (JString ''tool_calls''))
       else if s = ''{}'' then Inr (JObject [])
       else Inl ''expected value''), jt_print = (\<lambda>_. ''?'')\<rparr>"

definition sample_chunks :: "string list" where
  "sample_chunks = ['': hello'' @ [newline] @ ''da'', ''ta: 1'' @ [newline], [newline] @ ''data:2'' @ [newline, newline],
     ''data: [DONE]'' @ [newline, newline]]"

definition sample_response :: json where
  "sample_response = response_json ''hi!'' [call_json \<lparr>sc_id = ''c'', sc_name = ''n'', sc_arguments = ''{}''\<rparr>]
     (Some ''tool_calls'') JNull"

lemmas sample_stream_defs =
  sample_json_def sample_chunks_def sample_response_def sample_delta_def sample_fragment_def
  decoder_push_def push_byte_def decode_line_def dispatch_def decode_frame_def frame_choice_def
  frame_delta_def call_fragment_def add_text_def update_call_def if_present_def expect_str_def
  jfield_def jpresent_def decoder_new_def stream_call_default_def act_defs max_frame_def trim_returns_def
  strip_prefix_def trim_def trim_end_def valid_utf8_def utf8_first_def byte_def ws1_def ws2_def ws3_def
  response_json_def Let_def

definition sample_pushed :: "(transport_error + unit) \<times> decoder" where
  "sample_pushed = for_each sample_chunks (decoder_push sample_json) decoder_new"

lemma sample_pushed: "sample_pushed = (Inr (), \<lparr>de_pending = [], de_data = [], de_content = ''hi!'',
    de_calls = [(0, \<lparr>sc_id = ''c'', sc_name = ''n'', sc_arguments = ''{}''\<rparr>)],
    de_finish_reason = Some ''tool_calls'', de_usage = JNull, de_done = True, de_texts = [''hi'', ''!'']\<rparr>)"
  by (simp add: sample_pushed_def sample_stream_defs)

lemma sample_decoded: "decode_stream sample_json sample_chunks = Inr (sample_response, [''hi'', ''!''])"
  using sample_pushed
  by (simp add: sample_pushed_def decode_stream_def and_then_def)
    (simp add: decoder_finish_def dispatch_def act_defs sample_response_def)

theorem only_complete_responses_witness:
  "\<exists>calls reason usage. decode_stream sample_json sample_chunks =
       Inr (response_json ''hi!'' (map call_json calls) (Some reason) usage, [''hi'', ''!'']) \<and> length calls \<le> 128"
  using only_complete_responses [OF sample_decoded] sample_decoded by auto

theorem stream_bounded_witness:
  "\<exists>d. sample_pushed = (Inr (), d) \<and> length (de_calls d) \<le> 128"
proof -
  obtain d where run: "sample_pushed = (Inr (), d)" using sample_pushed by blast
  from stream_bounded [OF run [unfolded sample_pushed_def]] run show ?thesis by blast
qed

end
