(* ===== verification/ProviderProperties.thy ===== *)
theory ProviderProperties
  imports Provider StreamProperties
begin

text \<open>
  The properties of the adapter: what a request may carry, the budget it stays in, and the round
  trip of an answer through the transcript and through the stream.
\<close>

section \<open>The request\<close>

lemma cap_output_cases:
  assumes "cap_output budget body = Inr body'"
  shows "\<forall>k. k \<noteq> ''max_completion_tokens'' \<longrightarrow> bt_get body' k = bt_get body k"
    and "0 < rb_reserved_output_tokens budget \<Longrightarrow>
      \<exists>k\<in>{''max_completion_tokens'', ''max_tokens''}. \<exists>cap.
        bt_get body' k = Some (JUint cap) \<and> 0 < cap \<and> cap \<le> rb_reserved_output_tokens budget"
    and "bt_get body' ''max_completion_tokens'' = None \<or> bt_get body' ''max_tokens'' = None"
  using assms by (auto simp: cap_output_def Let_def split: option.splits if_splits)

lemma check_budget_cases:
  assumes "check_budget b body = Inr body'"
  obtains "b = None" "body' = body"
  | budget counter input where "b = Some (budget, counter)" "cap_output budget body = Inr body'"
      "counter (JObject body') = Inr input"
      "input \<le> rb_context_window_tokens budget - rb_reserved_output_tokens budget"
  using assms by (auto simp: check_budget_def Let_def not_less split: option.splits sum.splits if_splits prod.splits)

lemma set_stream_get:
  "bt_get (set_stream s body) k =
     (if k = ''stream'' then (if s then Some (JBool True) else None)
      else if k = ''stream_options'' then (if s then Some (jobject [(''include_usage'', JBool True)]) else None)
      else bt_get body k)"
  by (simp add: set_stream_def Let_def btree)

lemma request_body_get:
  assumes "request_body qt a request = Inr body"
  shows "bt_get body ''tools'' = (if mr_tools request = [] then None else Some (JArray (map tool_schema (mr_tools request))))"
    and "bt_get body ''functions'' = None" and "bt_get body ''function_call'' = None"
    and "mr_tools request = [] \<Longrightarrow> bt_get body ''tool_choice'' = None"
    and "bt_get body ''model'' = Some (JString (oc_model (oa_config a)))"
    and "\<exists>transcript. transcript_messages qt (cc_messages (mr_context request)) = Inr transcript \<and>
      bt_get body ''messages'' = Some (JArray (map segment_message (cc_prompt (mr_context request)) @ transcript))"
  using assms by (auto simp: request_body_def Let_def btree split: sum.splits if_splits)

lemma build_cases:
  assumes "build_http_request qt a request = Inr q"
  obtains body body' where "request_body qt a request = Inr body"
    "check_budget (oa_request_budget a) (set_stream (oa_streaming a) body) = Inr body'"
    "q = \<lparr>hq_url = oc_endpoint (oa_config a), hq_headers = request_headers (oa_config a),
       hq_body = JObject body', hq_timeout_seconds = oc_timeout_seconds (oa_config a)\<rparr>"
  using assms by (auto simp: build_http_request_def split: sum.splits)

lemma check_budget_get:
  assumes "check_budget b body = Inr body'" and "k \<noteq> ''max_completion_tokens''"
  shows "bt_get body' k = bt_get body k"
  using assms(1) by (cases rule: check_budget_cases) (use cap_output_cases(1) assms(2) in auto)

text \<open>C24 A request is confined: whatever extra fields the configuration brings, an accepted request offers
  exactly the tools of the model request, none of the legacy forms, streams as configured, names the
  configured model and carries the prompt segments, then the transcript.\<close>

theorem request_confined:
  assumes "build_http_request qt a request = Inr q"
  shows "jget (hq_body q) ''tools'' =
      (if mr_tools request = [] then None else Some (JArray (map tool_schema (mr_tools request)))) \<and>
    jget (hq_body q) ''functions'' = None \<and> jget (hq_body q) ''function_call'' = None \<and>
    (mr_tools request = [] \<longrightarrow> jget (hq_body q) ''tool_choice'' = None) \<and>
    (jfield as_bool (hq_body q) ''stream'' = Some True \<longleftrightarrow> oa_streaming a) \<and>
    jget (hq_body q) ''model'' = Some (JString (oc_model (oa_config a))) \<and>
    (\<exists>transcript. transcript_messages qt (cc_messages (mr_context request)) = Inr transcript \<and>
      jget (hq_body q) ''messages'' =
        Some (JArray (map segment_message (cc_prompt (mr_context request)) @ transcript)))"
  using assms
proof (cases rule: build_cases)
  case (1 body body')
  then show ?thesis
    using request_body_get [OF 1(1)] check_budget_get [OF 1(2)]
    by (simp add: set_stream_get jfield_def)
qed

text \<open>C25 A request stays within its budget: an adapter that was given a budget sends only requests whose input, as its
  counter measures exactly the body sent, fits beside the reserved output in the context window, and
  that cap the output within the reservation, under one name.\<close>

theorem request_within_budget:
  assumes "with_request_budget a0 budget counter = Inr a"
    and "build_http_request qt (with_streaming a streaming) request = Inr q"
  shows "\<exists>input cap k. counter (hq_body q) = Inr input \<and>
    unat input + unat (rb_reserved_output_tokens budget) \<le> unat (rb_context_window_tokens budget) \<and>
    k \<in> {''max_completion_tokens'', ''max_tokens''} \<and> jget (hq_body q) k = Some (JUint cap) \<and>
    0 < cap \<and> cap \<le> rb_reserved_output_tokens budget \<and>
    (jget (hq_body q) ''max_completion_tokens'' = None \<or> jget (hq_body q) ''max_tokens'' = None)"
proof -
  let ?r = "rb_reserved_output_tokens budget" and ?w = "rb_context_window_tokens budget"
  have r: "0 < ?r" "?r < ?w" and b: "oa_request_budget (with_streaming a streaming) = Some (budget, counter)"
    using assms(1) by (auto simp: with_request_budget_def with_streaming_def word_neq_0_conv split: if_splits)
  obtain body body' where q: "hq_body q = JObject body'"
    and c: "check_budget (Some (budget, counter)) body = Inr body'"
    using assms(2) by (cases rule: build_cases) (simp add: b)
  from c obtain input where k: "cap_output budget body = Inr body'"
    and i: "counter (JObject body') = Inr input" "input \<le> ?w - ?r"
    by (cases rule: check_budget_cases) auto
  have "unat input \<le> unat ?w - unat ?r"
    using i(2) unat_sub [OF less_imp_le [OF r(2)]] by (simp add: word_le_nat_alt)
  moreover have "unat ?r < unat ?w" using r(2) by (simp add: word_less_nat_alt)
  ultimately have "unat input + unat ?r \<le> unat ?w" by simp
  then show ?thesis
    using cap_output_cases(2) [OF k r(1)] cap_output_cases(3) [OF k] i(1) unfolding q jget.simps by blast
qed

section \<open>The answer\<close>

lemma parse_call_request_call:
  assumes "qt_value qt (tc_arguments call) = Inr s" and "jt_parse jt s = Inr (tc_arguments call)"
  shows "parse_call jt (request_call qt call) = Inr call"
  using assms by (simp add: parse_call_def request_call_def jfield_def)

lemma parse_calls_request_calls:
  assumes "\<forall>call\<in>set calls. \<exists>s. qt_value qt (tc_arguments call) = Inr s \<and> jt_parse jt s = Inr (tc_arguments call)"
  shows "parse_calls jt (map (request_call qt) calls) = Inr calls"
  using assms by (induction calls) (auto simp: parse_call_request_call)

text \<open>An answer survives the transcript: an assistant message of the transcript, sent back to the adapter as an answer, is read as
  the same text and the same tool calls, provided the arguments survive printing and parsing as JSON.\<close>

theorem answer_roundtrip:
  assumes "\<forall>call\<in>set calls. \<exists>s. qt_value qt (tc_arguments call) = Inr s \<and> jt_parse jt s = Inr (tc_arguments call)"
  shows "parse_response jt (jobject [(''choices'', JArray [jobject
      [(''message'', assistant_message qt content calls), (''finish_reason'', JString reason)]])]) =
    Inr \<lparr>mp_content = content, mp_tool_calls = calls, mp_stop_reason = parse_stop_reason (Some reason),
      mp_usage = no_usage\<rparr>"
proof -
  have "jget (assistant_message qt content calls) ''content'' = Some (JString content)"
    by (simp add: assistant_message_def)
  moreover have "parse_calls jt (case jfield as_array (assistant_message qt content calls) ''tool_calls''
      of Some cs \<Rightarrow> cs | None \<Rightarrow> []) = Inr calls"
    using parse_calls_request_calls [OF assms] by (simp add: assistant_message_def jfield_def)
  ultimately show ?thesis
    by (simp add: parse_response_def jfield_def parse_usage_def no_usage_def)
qed

lemma parse_call_call_json:
  "parse_call jt (call_json c) =
     (case jt_parse jt (sc_arguments c) of
        Inl e \<Rightarrow> Inl (model_failure (''tool call `'' @ sc_id c @ ''` has invalid JSON arguments: '' @ e) False)
      | Inr v \<Rightarrow> Inr \<lparr>tc_id = sc_id c, tc_name = sc_name c, tc_arguments = v\<rparr>)"
  by (simp add: parse_call_def call_json_def jfield_def split: sum.split)

lemma parse_calls_call_json:
  "parse_calls jt (map call_json cs) = Inr calls \<Longrightarrow>
   list_all2 (\<lambda>c call. tc_id call = sc_id c \<and> tc_name call = sc_name c \<and>
     jt_parse jt (sc_arguments c) = Inr (tc_arguments call)) cs calls"
  by (induction cs arbitrary: calls) (auto simp: parse_call_call_json split: sum.splits)

lemma parse_response_json:
  "parse_response jt (response_json content cs reason usage) =
     (case parse_calls jt cs of
        Inl e \<Rightarrow> Inl e
      | Inr calls \<Rightarrow> Inr \<lparr>mp_content = content, mp_tool_calls = calls, mp_stop_reason = parse_stop_reason reason,
          mp_usage = parse_usage (jobject [(''usage'', usage)])\<rparr>)"
  by (simp add: parse_response_def response_json_def jfield_def parse_usage_def Let_def
      split: sum.split option.split)

text \<open>A streamed answer is what was shown: its text is the concatenation of the previews, and every tool call
  has an identifier, a name and arguments that were complete JSON.\<close>

lemma streamed_result:
  assumes "decode_stream jt chunks = Inr (v, texts)" and "parse_response jt v = Inr r"
  shows "mp_content r = concat texts \<and> length (mp_tool_calls r) \<le> 128 \<and>
    (\<forall>call\<in>set (mp_tool_calls r). tc_id call \<noteq> [] \<and> tc_name call \<noteq> [] \<and>
      (\<exists>s. s \<noteq> [] \<and> jt_parse jt s = Inr (tc_arguments call)))"
proof -
  from decoded_response [OF assms(1)] obtain calls reason usage
    where v: "v = response_json (concat texts) (map call_json calls) (Some reason) usage"
      and n: "length calls \<le> 128"
      and c: "\<forall>c\<in>set calls. sc_id c \<noteq> [] \<and> sc_name c \<noteq> [] \<and> sc_arguments c \<noteq> []"
    by (elim exE conjE)
  from assms(2) obtain rs where rs: "parse_calls jt (map call_json calls) = Inr rs"
    and r: "mp_content r = concat texts" "mp_tool_calls r = rs"
    unfolding v parse_response_json by (auto split: sum.splits)
  from parse_calls_call_json [OF rs] c n r show ?thesis
    by (auto simp: list_all2_conv_all_nth in_set_conv_nth) (metis nth_mem)+
qed

section \<open>Samples\<close>

text \<open>A configuration whose extra fields try to restore tools and to stream, and a request without tools.\<close>

definition sample_text :: request_text where
  "sample_text = \<lparr>qt_receipt = (\<lambda>r. Inr (tr_call_id r)), qt_value = (\<lambda>v. Inr ''{}'')\<rparr>"

definition sample_adapter :: adapter where
  "sample_adapter = adapter_new ((openai_config_new ''u'' ''m'')\<lparr>oc_extra_body :=
     [(''functions'', JNull), (''stream'', JBool True), (''tool_choice'', JNull), (''tools'', JNull)]\<rparr>)"

definition sample_request :: model_request where
  "sample_request = \<lparr>mr_thread_id = ''t'', mr_turn_id = ''u'', mr_iteration = 0,
     mr_context = \<lparr>cc_prompt = [], cc_messages = [User ''hi'']\<rparr>, mr_tools = []\<rparr>"

definition sample_budget :: request_budget where
  "sample_budget = \<lparr>rb_context_window_tokens = 8, rb_reserved_output_tokens = 3\<rparr>"

lemmas sample_request_defs = sample_text_def sample_adapter_def sample_request_def sample_budget_def
  adapter_new_def openai_config_new_def with_request_budget_def with_streaming_def
  build_http_request_def request_body_def check_budget_def cap_output_def set_stream_def request_headers_def

lemma sample_braces: "jt_parse sample_json ''{}'' = Inr (JObject [])"
  by (simp add: sample_json_def trim_def trim_end_def byte_def ws1_def ws2_def ws3_def)

theorem request_confined_witness:
  "\<exists>q. build_http_request sample_text sample_adapter sample_request = Inr q \<and>
     jget (hq_body q) ''functions'' = None \<and> jget (hq_body q) ''tool_choice'' = None \<and>
     jfield as_bool (hq_body q) ''stream'' \<noteq> Some True"
proof -
  obtain q where q: "build_http_request sample_text sample_adapter sample_request = Inr q"
    by (simp add: sample_request_defs)
  moreover have "mr_tools sample_request = []" "\<not> oa_streaming sample_adapter" by (simp_all add: sample_request_defs)
  ultimately show ?thesis using request_confined [OF q] by simp
qed

theorem request_within_budget_witness:
  "\<exists>a q. with_request_budget sample_adapter sample_budget (\<lambda>_. Inr 5) = Inr a \<and>
     build_http_request sample_text (with_streaming a True) sample_request = Inr q \<and>
     (\<exists>cap k. jget (hq_body q) k = Some (JUint cap) \<and> 0 < cap \<and> cap \<le> 3)"
proof -
  obtain a q where a: "with_request_budget sample_adapter sample_budget (\<lambda>_. Inr 5) = Inr a"
    and q: "build_http_request sample_text (with_streaming a True) sample_request = Inr q"
    by (simp add: sample_request_defs)
  from request_within_budget [OF a q] have "\<exists>cap k. jget (hq_body q) k = Some (JUint cap) \<and> 0 < cap \<and> cap \<le> 3"
    by (auto simp: sample_budget_def)
  with a q show ?thesis by blast
qed

theorem answer_roundtrip_witness:
  "parse_response sample_json (jobject [(''choices'', JArray [jobject
      [(''message'', assistant_message sample_text ''hi'' [\<lparr>tc_id = ''c'', tc_name = ''n'', tc_arguments = JObject []\<rparr>]),
       (''finish_reason'', JString ''tool_calls'')]])]) =
    Inr \<lparr>mp_content = ''hi'', mp_tool_calls = [\<lparr>tc_id = ''c'', tc_name = ''n'', tc_arguments = JObject []\<rparr>],
      mp_stop_reason = ToolUse, mp_usage = no_usage\<rparr>"
  by (subst answer_roundtrip) (auto simp: sample_text_def sample_braces parse_stop_reason_def)

end
