(* ===== verification/TransportProperties.thy ===== *)
theory TransportProperties
  imports NativeTransport ProviderProperties
begin

text \<open>
  The properties of a model request on its way: what its observer hears, which errors are marked
  retryable, what curl is told, what its answer is made of, and that it ends by its deadline.
\<close>

section \<open>What the observer hears\<close>

definition previews :: "model_request \<Rightarrow> string list \<Rightarrow> model_progress_event list" where
  "previews request texts = map (\<lambda>t. progress_event request (Text_Delta t)) texts"

definition heard :: "model_request \<Rightarrow> model_progress_event list \<Rightarrow> 'x call_world \<Rightarrow> bool" where
  "heard request base w \<longleftrightarrow> (\<exists>texts. cw_events w = base @ previews request texts)"

lemma previews_append: "previews request (xs @ ys) = previews request xs @ previews request ys"
  by (simp add: previews_def)

lemma heard_text: "heard request base w \<Longrightarrow> heard request base (on_text True request start s w)"
  unfolding heard_def
proof (elim exE)
  fix texts assume "cw_events w = base @ previews request texts"
  then show "\<exists>texts. cw_events (on_text True request start s w) = base @ previews request texts"
    by (intro exI [of _ "texts @ [s]"]) (simp add: on_text_def previews_def Let_def)
qed

lemma heard_texts: "heard request base w \<Longrightarrow> heard request base (fold (on_text True request start) texts w)"
  by (induction texts arbitrary: w) (simp_all add: heard_text)

lemma heard_same: "cw_events w' = cw_events w \<Longrightarrow> heard request base w \<Longrightarrow> heard request base w'"
  by (simp add: heard_def)

text \<open>An action that tells the observer nothing.\<close>

definition silent :: "('x call_world, 'e, 'a) act \<Rightarrow> bool" where
  "silent m \<longleftrightarrow> (\<forall>w. cw_events (snd (m w)) = cw_events w)"

lemma silent_heard: "silent m \<Longrightarrow> preserves (heard request base) m"
  unfolding preserves_def
  by (rule tripleI) (metis heard_same silent_def snd_conv)+

lemma silent_steps [frame]:
  "silent look" "silent instant" "silent http_check" "silent refuse_cancelled" "silent curl_receive"
  "silent curl_try_wait" "silent native_poll" "silent native_chunk" "silent (elapsed_ms start)"
  by (auto simp: silent_def look_def instant_def http_check_def refuse_cancelled_def curl_receive_def
      curl_try_wait_def native_poll_def native_chunk_def elapsed_ms_def act_defs Let_def split: sum.split if_split)

lemma heard_steps [frame]:
  "preserves (heard request base) look" "preserves (heard request base) instant"
  "preserves (heard request base) http_check" "preserves (heard request base) refuse_cancelled"
  "preserves (heard request base) curl_receive" "preserves (heard request base) curl_try_wait"
  "preserves (heard request base) native_poll" "preserves (heard request base) native_chunk"
  "preserves (heard request base) (elapsed_ms start)"
  by (rule silent_heard, rule silent_steps)+

lemma preserves_map_err [frame]: "preserves I m \<Longrightarrow> preserves I (map_err f m)"
  unfolding map_err_def by (intro frame)

lemma heard_push_chunk [frame]: "preserves (heard request base) (push_chunk jt (on_text True request start) chunk d)"
  unfolding push_chunk_def by (auto split: prod.split intro!: frame preserves_writes heard_texts)

text \<open>From the first event to the last.\<close>

definition observed_run :: "model_request \<Rightarrow> 'x call_world \<Rightarrow> 'x call_world \<Rightarrow> string \<Rightarrow> bool" where
  "observed_run request w w' result \<longleftrightarrow>
     (\<exists>texts timings. cw_events w' = cw_events w @ [progress_event request Progress_Started]
        @ previews request texts @ [progress_event request (Progress_Finished timings result)])"

lemma observed_runI:
  assumes "cw_events w2 = cw_events w @ progress_event request Progress_Started # previews request texts"
    and "cw_events w' = cw_events w2 @ [progress_event request (Progress_Finished timings result)]"
  shows "observed_run request w w' result"
  using assms by (auto simp: observed_run_def)

locale request_transport =
  fixes post :: "'x post"
  assumes only_previews: "preserves (heard request base) (post q (on_text True request start))"
begin

lemma async_request_heard: "preserves (heard request base) (async_request jt qt a post True request start)"
  unfolding async_request_def by (intro frame only_previews | simp split: option.split)+

lemma complete_blocking_heard:
  "preserves (heard request base) (complete_blocking jt qt a (Blocking post) True request start)"
  unfolding complete_blocking_def transport.case by (intro frame only_previews)

lemma async_observed:
  assumes "async_complete jt qt a post True request w = (r, w')" and "r \<noteq> Inl None"
  shows "\<exists>cancelled. observed_run request w w' (outcome_text cancelled r)"
proof -
  define start where "start = cw_clock w (cw_readings w)"
  define w1 where "w1 = w\<lparr>cw_readings := Suc (cw_readings w),
    cw_events := cw_events w @ [progress_event request Progress_Started]\<rparr>"
  obtain q w2 where q: "async_request jt qt a post True request start w1 = (q, w2)" by (meson surj_pair)
  have "heard request (cw_events w1) w1" by (auto simp: heard_def previews_def intro: exI [of _ "[]"])
  from preservesD [OF async_request_heard this q] obtain texts
    where texts: "cw_events w2 = cw_events w1 @ previews request texts" by (auto simp: heard_def)
  have run: "async_complete jt qt a post True request w =
      (if q = Inl None then err None
       else and_then (reads (\<lambda>w. (cw_timings w)\<lparr>rt_first_text_ms := cw_first_text w\<rparr>)) (\<lambda>timings.
         and_then look (\<lambda>cancelled.
         and_then (finish_progress True request start timings (outcome_text cancelled q)) (\<lambda>_.
         lift_result q)))) w2"
    unfolding async_complete_def using q
    by (simp add: and_then_def attempt_def instant_def control_notify_def writes_def start_def w1_def)
  let ?timings = "(cw_timings w2)\<lparr>rt_first_text_ms := cw_first_text w2,
    rt_total_ms := of_nat (as_millis (cw_clock w2 (cw_readings w2) - start))\<rparr>"
  have "r = q \<and> cw_events w' = cw_events w2 @ [progress_event request
      (Progress_Finished ?timings (outcome_text (cw_cancelled w2 (cw_looks w2)) q))]"
    using assms unfolding run
    by (cases q; cases "q = Inl None")
      (auto simp: act_defs look_def finish_progress_def elapsed_ms_def instant_def control_notify_def)
  then show ?thesis using texts observed_runI [of w2 w request texts w' ?timings] by (auto simp: w1_def)
qed

lemma worker_observed:
  assumes "worker_thread jt qt a (Blocking post) True request w = (r, w')"
  shows "(\<exists>texts. cw_events w' = cw_events w @ [progress_event request Progress_Started] @ previews request texts) \<and>
      r = Inl (model_failure ''model request worker panicked'' False) \<or>
    (\<exists>cancelled. observed_run request w w' (outcome_text cancelled r))"
proof -
  define start where "start = cw_clock w (cw_readings w)"
  define w1 where "w1 = w\<lparr>cw_readings := Suc (cw_readings w),
    cw_events := cw_events w @ [progress_event request Progress_Started]\<rparr>"
  obtain q w2 where q: "complete_blocking jt qt a (Blocking post) True request start w1 = (q, w2)" by (meson surj_pair)
  have "heard request (cw_events w1) w1" by (auto simp: heard_def previews_def intro: exI [of _ "[]"])
  from preservesD [OF complete_blocking_heard this q] obtain texts
    where texts: "cw_events w2 = cw_events w1 @ previews request texts" by (auto simp: heard_def)
  have run: "worker_thread jt qt a (Blocking post) True request w =
      (if q = Inl None then err (model_failure ''model request worker panicked'' False)
       else and_then (elapsed_ms start) (\<lambda>total_ms.
         and_then (reads (\<lambda>w. (cw_timings w)\<lparr>rt_first_text_ms := cw_first_text w, rt_total_ms := total_ms\<rparr>)) (\<lambda>timings.
         and_then look (\<lambda>cancelled.
         and_then (control_notify True request (Progress_Finished timings (outcome_text cancelled q))) (\<lambda>_.
         case q of Inl e \<Rightarrow> err (the e) | Inr r \<Rightarrow> ok r))))) w2"
    unfolding worker_thread_def using q
    by (simp add: and_then_def attempt_def instant_def control_notify_def writes_def start_def w1_def)
  show ?thesis
  proof (cases "q = Inl None")
    case True
    then show ?thesis using assms texts unfolding run by (auto simp: err_def w1_def)
  next
    case False
    let ?timings = "(cw_timings w2)\<lparr>rt_first_text_ms := cw_first_text w2,
      rt_total_ms := of_nat (as_millis (cw_clock w2 (cw_readings w2) - start))\<rparr>"
    have "outcome_text c r = outcome_text c q" for c
      using assms False unfolding run
      by (cases q) (auto simp: act_defs look_def elapsed_ms_def instant_def control_notify_def outcome_text_def)
    moreover have "cw_events w' = cw_events w2 @ [progress_event request
        (Progress_Finished ?timings (outcome_text (cw_cancelled w2 (cw_looks w2)) q))]"
      using assms False unfolding run
      by (cases q) (auto simp: act_defs look_def elapsed_ms_def instant_def control_notify_def)
    ultimately show ?thesis using texts observed_runI [of w2 w request texts w' ?timings] by (auto simp: w1_def)
  qed
qed

end

section \<open>The transports keep the contract\<close>

lemma heard_check_deadline [frame]: "preserves (heard request base) (check_deadline start seconds)"
  unfolding check_deadline_def by (intro frame)

lemma heard_receive_loop [frame]:
  "preserves (heard request base) (receive_loop fuel jt streaming (on_text True request s) start seconds bytes d)"
  by (induction fuel arbitrary: bytes d) (auto split: received.split intro!: frame)

lemma heard_wait_loop [frame]: "preserves (heard request base) (wait_loop fuel start seconds)"
  by (induction fuel) (auto split: waited.split intro!: frame)

lemma heard_writes: "(\<And>w. cw_events (f w) = cw_events w) \<Longrightarrow> preserves (heard request base) (writes f)"
  by (rule preserves_writes) (simp add: heard_def)

lemma heard_curl_response [frame]: "preserves (heard request base) (curl_response jt millis marker streaming got status)"
  unfolding curl_response_def Let_def
  by (auto split: prod.split option.split sum.split intro!: frame heard_writes)

lemma heard_curl: "preserves (heard request base) (curl_transport fuel jt millis q (on_text True request s))"
  unfolding curl_transport_def curl_post_json_controlled_def
  by (auto split: option.split sum.split intro!: frame heard_writes)

interpretation curl: request_transport "curl_transport fuel jt millis" for fuel jt millis
  by unfold_locales (rule heard_curl)

lemma heard_native_await [frame]: "preserves (heard request base) (native_await fuel)"
  by (induction fuel) (auto split: polled.split intro!: frame)

lemma heard_native_body [frame]:
  "preserves (heard request base) (native_body fuel jt decoding (on_text True request s) n body d)"
  by (induction fuel arbitrary: n body d) (auto split: option.split intro!: frame)

lemma heard_native_response [frame]: "preserves (heard request base) (native_response jt streaming status start got)"
  unfolding native_response_def by (auto split: sum.split prod.split intro!: frame heard_writes)

lemma heard_native_send [frame]: "preserves (heard request base) (native_send fuel jt q (on_text True request s))"
  unfolding native_send_def by (auto split: sum.split prod.split option.split intro!: frame)

lemma heard_native: "preserves (heard request base) (native_transport fuel jt q (on_text True request s))"
  unfolding native_transport_def native_post_json_controlled_def
  by (auto split: option.split sum.split intro!: frame)

interpretation native: request_transport "native_transport fuel jt" for fuel jt
  by unfold_locales (rule heard_native)

section \<open>The run and its errors\<close>

lemma writes_then: "and_then (writes f) k s = k () (f s)"
  by (simp add: and_then_def writes_def)

lemma dropped_observed:
  "observed_run request w (snd (async_dropped qt a (native_transport fuel jt) True request w)) ''cancelled''"
proof -
  define start where "start = cw_clock w (cw_readings w)"
  define w1 where "w1 = w\<lparr>cw_readings := Suc (cw_readings w),
    cw_events := cw_events w @ [progress_event request Progress_Started]\<rparr>"
  let ?m = "and_then (map_err Some refuse_cancelled) (\<lambda>_.
    and_then (map_err Some (lift_result (build_http_request qt a request))) (\<lambda>q.
    map_err (map_option (\<lambda>e. model_failure (transport_error_text e) False))
      (native_transport fuel jt q (on_text True request start))))"
  obtain q w2 where q: "?m w1 = (q, w2)" by (meson surj_pair)
  have keep: "preserves (heard request (cw_events w1)) ?m" by (intro frame heard_native)
  have "heard request (cw_events w1) w1" by (auto simp: heard_def previews_def intro: exI [of _ "[]"])
  from preservesD [OF keep this q] obtain texts
    where texts: "cw_events w2 = cw_events w1 @ previews request texts" by (auto simp: heard_def)
  let ?timings = "no_timings\<lparr>rt_total_ms := of_nat (as_millis (cw_clock w2 (cw_readings w2) - start))\<rparr>"
  have "cw_events (snd (async_dropped qt a (native_transport fuel jt) True request w)) =
      cw_events w2 @ [progress_event request (Progress_Finished ?timings ''cancelled'')]"
    unfolding async_dropped_def using q
    by (simp add: and_then_def [of instant] attempt_def instant_def control_notify_def writes_then start_def w1_def)
      (simp add: finish_progress_def elapsed_ms_def instant_def control_notify_def act_defs)
  then show ?thesis
    using texts observed_runI [of w2 w request texts _ ?timings] by (auto simp: w1_def)
qed


lemma transcript_not_retryable:
  "transcript_messages qt ms = Inl e \<Longrightarrow> \<not> me_retryable e"
proof (induction ms)
  case (Cons m ms)
  then show ?case by (cases m) (auto simp: model_failure_def split: sum.splits)
qed simp

lemma cap_not_retryable: "cap_output budget body = Inl e \<Longrightarrow> \<not> me_retryable e"
  by (auto simp: cap_output_def model_failure_def Let_def split: option.splits if_splits)

lemma check_budget_not_retryable: "check_budget b body = Inl e \<Longrightarrow> \<not> me_retryable e"
  using cap_not_retryable
  by (auto simp: check_budget_def Let_def split: option.splits prod.splits sum.splits if_splits)
    (auto simp: model_failure_def)

lemma build_not_retryable:
  assumes "build_http_request qt a request = Inl e"
  shows "\<not> me_retryable e"
  using assms transcript_not_retryable check_budget_not_retryable
  by (auto simp: build_http_request_def request_body_def Let_def split: sum.splits)

lemma parse_call_not_retryable: "parse_call jt v = Inl e \<Longrightarrow> \<not> me_retryable e"
  by (auto simp: parse_call_def model_failure_def split: option.splits sum.splits json.splits)

lemma parse_calls_not_retryable: "parse_calls jt vs = Inl e \<Longrightarrow> \<not> me_retryable e"
  by (induction vs) (auto split: sum.splits dest: parse_call_not_retryable)

lemma parse_not_retryable:
  assumes "parse_response jt v = Inl e"
  shows "\<not> me_retryable e"
  using assms parse_calls_not_retryable
  by (auto simp: parse_response_def model_failure_def split: option.splits sum.splits list.splits)

text \<open>An error that may be retried, as the asynchronous path promises.\<close>

definition transient :: "transport_error \<Rightarrow> bool" where
  "transient e \<longleftrightarrow> (case e of Transport_Io _ \<Rightarrow> True | Transport_Protocol _ \<Rightarrow> False
     | Transport_Http status _ \<Rightarrow> status = 429 \<or> 500 \<le> status)"

lemma transient_retry: "transport_retryable cancelled e \<Longrightarrow>
    \<exists>t. transport_error_text e = transport_error_text t \<and> transient t"
  by (rule exI [of _ e]) (auto simp: transport_retryable_def transient_def split: transport_error.splits)

lemma async_request_errors:
  "triple (\<lambda>_. True) (async_request jt qt a post observed request start) (\<lambda>_ _. True)
     (\<lambda>e _. \<forall>x. e = Some x \<longrightarrow> me_retryable x \<longrightarrow> (\<exists>t. me_message x = transport_error_text t \<and> transient t))"
  (is "triple _ _ _ ?E")
proof -
  have refuse: "triple (\<lambda>_. True) (map_err Some refuse_cancelled) (\<lambda>_ _. True) ?E"
    by (rule tripleI) (auto simp: refuse_cancelled_def http_check_def look_def act_defs model_failure_def split: if_splits)
  have lift: "triple (\<lambda>_. True) (map_err Some (lift_result x)) (\<lambda>_ _. True) ?E"
    if "\<forall>e. x = Inl e \<longrightarrow> \<not> me_retryable e" for x :: "model_error + 'z"
    using that by (cases x) (simp_all add: triple_def act_defs)
  show ?thesis
    unfolding async_request_def
  proof (intro triple_and_then [where R = "\<lambda>_ _. True"] refuse)
    show "triple (\<lambda>_. True) (map_err Some (lift_result (build_http_request qt a request))) (\<lambda>_ _. True) ?E"
      using build_not_retryable by (intro lift) blast
    show "triple (\<lambda>_. True) (map_err Some (lift_result (parse_response jt (hs_body r)))) (\<lambda>_ _. True) ?E" for r
      using parse_not_retryable by (intro lift) blast
    show "triple (\<lambda>_. True) (attempt (post q (on_text observed request start)) (\<lambda>r. case r of
         Inl None \<Rightarrow> err None
       | Inl (Some e) \<Rightarrow>
           and_then look (\<lambda>cancelled.
             err (Some (model_failure (transport_error_text e) (transport_retryable cancelled e))))
       | Inr response \<Rightarrow> ok response)) (\<lambda>_ _. True) ?E" for q
      by (rule tripleI) (auto simp: act_defs look_def model_failure_def dest: transient_retry
          split: prod.splits sum.splits option.splits)
  qed
qed

text \<open>Only transient errors may be retried: an error of the asynchronous path marked retryable is the
  transport's, an I/O error or a status 429 or 5xx; refused, cancelled, malformed and over-budget
  requests never are.\<close>

theorem retryable_only_transient:
  assumes "async_complete jt qt a post observed request w = (Inl (Some e), w')" and "me_retryable e"
  shows "\<exists>t. me_message e = transport_error_text t \<and>
    (case t of Transport_Io _ \<Rightarrow> True | Transport_Http status _ \<Rightarrow> status = 429 \<or> 500 \<le> status
      | Transport_Protocol _ \<Rightarrow> False)"
proof -
  let ?E = "\<lambda>e _. \<forall>x. e = Some x \<longrightarrow> me_retryable x \<longrightarrow> (\<exists>t. me_message x = transport_error_text t \<and> transient t)"
  have "triple (\<lambda>_. True) (async_complete jt qt a post observed request) (\<lambda>_ _. True) ?E"
    unfolding async_complete_def
  proof (intro triple_and_then [where R = "\<lambda>_ _. True"] triple_attempt
      [where R = "\<lambda>r s. \<forall>e. r = Inl e \<longrightarrow> ?E e s"])
    fix start
    show "triple (\<lambda>_. True) (async_request jt qt a post observed request start)
      (\<lambda>a s. \<forall>e. Inr a = Inl e \<longrightarrow> ?E e s) (\<lambda>e s. \<forall>e'. Inl e = Inl e' \<longrightarrow> ?E e' s)"
      by (rule triple_weaken [OF async_request_errors]) auto
  qed (auto intro!: tripleI simp: act_defs instant_def control_notify_def look_def finish_progress_def elapsed_ms_def
      split: if_splits sum.splits)
  from triple_error [OF this TrueI assms(1)] assms(2) show ?thesis by (auto simp: transient_def)
qed

end
