(* ===== verification/CurlProperties.thy ===== *)
theory CurlProperties
  imports TransportProperties
begin

text \<open>
  The properties of the curl transport: its configuration file says what the request says and nothing
  else, an answer is made of everything that was received, and every request ends by its deadline.
\<close>

section \<open>The configuration\<close>

text \<open>A line of the file as curl documents it: a name, or a name and a quoted value in which a backslash
  introduces a line feed, a carriage return, a tab or the next character itself.\<close>

definition escaped_char :: "char \<Rightarrow> char" where
  "escaped_char c =
     (if c = CHR ''n'' then newline else if c = CHR ''r'' then carriage_return
      else if c = CHR ''t'' then CHR 0x09 else if c = CHR ''v'' then CHR 0x0B else c)"

fun read_quoted :: "string \<Rightarrow> (string \<times> string) option" where
  "read_quoted [] = None"
| "read_quoted [c] = (if c = quote then Some ([], []) else None)"
| "read_quoted (c # e # s) =
     (if c = quote then Some ([], e # s)
      else if c = backslash then map_option (\<lambda>(v, t). (escaped_char e # v, t)) (read_quoted s)
      else map_option (\<lambda>(v, t). (c # v, t)) (read_quoted (e # s)))"

definition read_directive :: "string \<Rightarrow> (string \<times> string option) option" where
  "read_directive l =
     (let name = takeWhile (\<lambda>c. c \<noteq> CHR '' '') l; rest = drop (length name) l
      in if rest = [] then Some (name, None)
         else case strip_prefix ('' = '' @ [quote]) rest of
           None \<Rightarrow> None
         | Some t \<Rightarrow> (case read_quoted t of Some (v, []) \<Rightarrow> Some (name, Some v) | _ \<Rightarrow> None))"

definition escape_char :: "char \<Rightarrow> string" where
  "escape_char c =
     (if c = backslash then [backslash, backslash] else if c = quote then [backslash, quote]
      else if c = carriage_return then [backslash, CHR ''r''] else if c = newline then [backslash, CHR ''n'']
      else [c])"

lemma replace_char_append: "replace_char c r (s @ t) = replace_char c r s @ replace_char c r t"
  by (simp add: replace_char_def)

lemma curl_config_escape_Cons: "curl_config_escape (c # s) = escape_char c @ curl_config_escape s"
proof -
  have "curl_config_escape (s @ t) = curl_config_escape s @ curl_config_escape t" for s t
    by (simp add: curl_config_escape_def replace_char_append)
  from this [of "[c]" s] have "curl_config_escape (c # s) = curl_config_escape [c] @ curl_config_escape s" by simp
  moreover have "curl_config_escape [c] = escape_char c"
    by (simp add: curl_config_escape_def replace_char_def escape_char_def)
  ultimately show ?thesis by simp
qed

lemma curl_config_escape_Nil: "curl_config_escape [] = []"
  by (simp add: curl_config_escape_def replace_char_def)

lemma read_quoted_escape: "read_quoted (curl_config_escape s @ quote # t) = Some (s, t)"
proof (induction s)
  case Nil
  then show ?case by (cases t) (simp_all add: curl_config_escape_Nil)
next
  case (Cons c s)
  obtain d u where "curl_config_escape s @ quote # t = d # u" by (cases "curl_config_escape s") auto
  then show ?case using Cons by (auto simp: curl_config_escape_Cons escape_char_def escaped_char_def)
qed

definition plain :: "char \<Rightarrow> bool" where
  "plain c \<longleftrightarrow> c \<notin> {quote, backslash, newline, carriage_return}"

lemma read_quoted_plain:
  "list_all plain s \<Longrightarrow> read_quoted (s @ quote # t) = Some (s, t)"
proof (induction s)
  case Nil
  then show ?case by (cases t) simp_all
next
  case (Cons c s)
  obtain d u where "s @ quote # t = d # u" by (cases s) auto
  then show ?case using Cons by (auto simp: plain_def)
qed

lemma newline_escape: "newline \<notin> set (curl_config_escape s)"
  by (induction s) (auto simp: curl_config_escape_Nil curl_config_escape_Cons escape_char_def)

lemma plain_base: "2 \<le> b \<Longrightarrow> b \<le> 16 \<Longrightarrow> list_all plain (show_base b n)"
proof (rule list_all_iff [THEN iffD2, OF ballI])
  fix c assume b: "2 \<le> b" "b \<le> 16" and "c \<in> set (show_base b n)"
  then obtain d where d: "d < 16" "c = digit d" using set_show_base by blast
  have "byte quote = 34" "byte backslash = 92" "byte newline = 10" "byte carriage_return = 13"
    by (simp_all add: byte_def)
  with byte_digit [OF d(1)] d(2) show "plain c" by (auto simp: plain_def split: if_splits)
qed

lemma plain_marker: "list_all plain (curl_marker (id_text ''turn'' t s p))"
  using plain_base [of 16] by (simp add: curl_marker_def id_text_def hex_def plain_def)

text \<open>One line of the file.\<close>

definition directive_line :: "string \<Rightarrow> string \<Rightarrow> string" where
  "directive_line name v = name @ '' = '' @ [quote] @ v @ [quote]"

lemma directive_is_line: "directive name v = directive_line name v @ [newline]"
  by (simp add: directive_def directive_line_def)

lemma read_directive_line:
  assumes "CHR '' '' \<notin> set name" and "read_quoted (v @ [quote]) = Some (value, [])"
  shows "read_directive (directive_line name v) = Some (name, Some value)"
proof -
  have "takeWhile (\<lambda>c. c \<noteq> CHR '' '') (name @ CHR '' '' # r) = name" for r
    by (subst takeWhile_append2) (use assms(1) in auto)
  then show ?thesis
    using assms(2) by (simp add: read_directive_def directive_line_def Let_def strip_prefix_def)
qed

lemma newline_plain: "list_all plain s \<Longrightarrow> newline \<notin> set s"
  by (auto simp: list_all_iff plain_def)

lemma newline_directive_line: "newline \<notin> set name \<Longrightarrow> newline \<notin> set v \<Longrightarrow> newline \<notin> set (directive_line name v)"
  by (simp add: directive_line_def)

definition header_lines :: "(string \<times> string) list \<Rightarrow> string list" where
  "header_lines hs = map (\<lambda>(name, v). directive_line ''header'' (curl_config_escape (name @ '': '' @ v))) hs"

lemma header_directives_lines:
  "header_directives hs = Inr h \<Longrightarrow> h = concat (map (\<lambda>l. l @ [newline]) (header_lines hs)) \<and>
     (\<forall>(name, v)\<in>set hs. \<not> has_line_break name \<and> \<not> has_line_break v)"
  by (induction hs arbitrary: h) (auto simp: header_lines_def directive_is_line split: if_splits sum.splits)

definition metrics_format :: string where
  "metrics_format = '' %{http_code} %{time_namelookup} %{time_connect} %{time_appconnect} %{time_starttransfer}''"

definition config_lines :: "json_text \<Rightarrow> string \<Rightarrow> http_request \<Rightarrow> string list" where
  "config_lines jt marker q =
     [''silent'', ''show-error'', ''no-buffer'', directive_line ''request'' ''POST'',
      directive_line ''proto'' ''=http,https'', directive_line ''url'' (curl_config_escape (hq_url q)),
      directive_line ''max-time'' (dec (curl_timeout q))] @ header_lines (hq_headers q) @
     [directive_line ''data-binary'' (curl_config_escape (jt_print jt (hq_body q))),
      directive_line ''write-out'' ([backslash, CHR ''n''] @ marker @ metrics_format @ [backslash, CHR ''n''])]"

lemma curl_config_lines:
  assumes "curl_config jt marker q = Inr config"
  shows "config = concat (map (\<lambda>l. l @ [newline]) (config_lines jt marker q)) \<and>
     (\<forall>(name, v)\<in>set (hq_headers q). \<not> has_line_break name \<and> \<not> has_line_break v)"
proof -
  obtain h where h: "header_directives (hq_headers q) = Inr h"
    using assms by (auto simp: curl_config_def split: sum.splits)
  from assms header_directives_lines [OF h] show ?thesis
    by (simp add: curl_config_def h config_lines_def directive_is_line metrics_format_def)
qed

lemma read_plain_line: "list_all plain v \<Longrightarrow> CHR '' '' \<notin> set name \<Longrightarrow>
    read_directive (directive_line name v) = Some (name, Some v)"
  by (intro read_directive_line) (simp_all add: read_quoted_plain)

lemma read_escaped_line: "CHR '' '' \<notin> set name \<Longrightarrow>
    read_directive (directive_line name (curl_config_escape v)) = Some (name, Some v)"
  by (intro read_directive_line) (simp_all add: read_quoted_escape)

lemma read_write_out:
  assumes "list_all plain marker"
  shows "read_directive (directive_line ''write-out''
      ([backslash, CHR ''n''] @ marker @ metrics_format @ [backslash, CHR ''n''])) =
    Some (''write-out'', Some ([newline] @ marker @ metrics_format @ [newline]))"
proof -
  let ?e = "curl_config_escape"
  have plain: "list_all plain s \<Longrightarrow> ?e s = s" for s
    by (induction s) (simp_all add: curl_config_escape_Nil curl_config_escape_Cons escape_char_def plain_def)
  have split: "?e (s @ t) = ?e s @ ?e t" for s t
    by (induction s) (simp_all add: curl_config_escape_Nil curl_config_escape_Cons)
  have "list_all plain metrics_format" by (simp add: metrics_format_def plain_def)
  then have "?e ([newline] @ marker @ metrics_format @ [newline])
      = [backslash, CHR ''n''] @ marker @ metrics_format @ [backslash, CHR ''n'']"
    unfolding split plain [OF assms]
    by (simp add: plain curl_config_escape_Nil curl_config_escape_Cons escape_char_def)
  with read_escaped_line [of "''write-out''" "[newline] @ marker @ metrics_format @ [newline]"] show ?thesis by simp
qed

lemma read_header_lines:
  "map read_directive (header_lines hs) = map (\<lambda>(name, v). Some (''header'', Some (name @ '': '' @ v))) hs"
  by (induction hs) (auto simp: header_lines_def read_escaped_line)

text \<open>C27 The configuration says exactly what the request says: it is lines, and read back line by line as
  curl documents them they are the fixed options, the URL, the time limit, every header and the body,
  each with exactly its value. No text of a request can add an option, end a value or a line early.\<close>

theorem curl_config_exact:
  assumes "curl_config jt (curl_marker (id_text ''turn'' t s p)) q = Inr config"
  shows "\<exists>lines. config = concat (map (\<lambda>l. l @ [newline]) lines) \<and> (\<forall>l\<in>set lines. newline \<notin> set l) \<and>
    map read_directive lines =
      [Some (''silent'', None), Some (''show-error'', None), Some (''no-buffer'', None),
       Some (''request'', Some ''POST''), Some (''proto'', Some ''=http,https''),
       Some (''url'', Some (hq_url q)), Some (''max-time'', Some (dec (curl_timeout q)))] @
      map (\<lambda>(name, v). Some (''header'', Some (name @ '': '' @ v))) (hq_headers q) @
      [Some (''data-binary'', Some (jt_print jt (hq_body q))),
       Some (''write-out'', Some ([newline] @ curl_marker (id_text ''turn'' t s p) @ metrics_format @ [newline]))] \<and>
    (\<forall>(name, v)\<in>set (hq_headers q). \<not> has_line_break name \<and> \<not> has_line_break v)"
proof (intro exI conjI)
  let ?m = "curl_marker (id_text ''turn'' t s p)"
  show "config = concat (map (\<lambda>l. l @ [newline]) (config_lines jt ?m q))"
    and "\<forall>(name, v)\<in>set (hq_headers q). \<not> has_line_break name \<and> \<not> has_line_break v"
    using curl_config_lines [OF assms] by blast+
  have dec: "list_all plain (dec n)" for n
    using plain_base [of 10 n] by (simp add: dec_def)
  have "newline \<notin> set l" if "l \<in> set (header_lines hs)" for l hs
    using that by (auto simp: header_lines_def newline_directive_line newline_escape)
  then show "\<forall>l\<in>set (config_lines jt ?m q). newline \<notin> set l"
    using newline_plain [OF plain_marker] newline_plain [OF dec]
    by (auto simp: config_lines_def newline_directive_line newline_escape metrics_format_def)
  have "list_all plain ''POST''" "list_all plain ''=http,https''" by (simp_all add: plain_def)
  then show "map read_directive (config_lines jt ?m q) =
      [Some (''silent'', None), Some (''show-error'', None), Some (''no-buffer'', None),
       Some (''request'', Some ''POST''), Some (''proto'', Some ''=http,https''),
       Some (''url'', Some (hq_url q)), Some (''max-time'', Some (dec (curl_timeout q)))] @
      map (\<lambda>(name, v). Some (''header'', Some (name @ '': '' @ v))) (hq_headers q) @
      [Some (''data-binary'', Some (jt_print jt (hq_body q))),
       Some (''write-out'', Some ([newline] @ ?m @ metrics_format @ [newline]))]"
    using dec read_write_out [OF plain_marker]
    by (simp add: config_lines_def read_plain_line read_escaped_line read_header_lines)
      (simp add: read_directive_def)
qed

section \<open>The answer\<close>

interpretation texts: decoder_frame "\<lambda>d. \<exists>xs. de_texts d = base @ xs" True for base
  by unfold_locales auto

lemma dispatch_texts: "preserves (\<lambda>d. \<exists>xs. de_texts d = base @ xs) (dispatch jt True)"
  unfolding dispatch_def by (intro frame preserves_writes texts.frame_decode_frame) auto

lemma decode_line_texts: "preserves (\<lambda>d. \<exists>xs. de_texts d = base @ xs) (decode_line jt True l)"
  unfolding decode_line_def by (intro frame preserves_writes dispatch_texts) auto

lemma push_texts:
  assumes "decoder_push jt bytes d = (r, d')"
  shows "\<exists>xs. de_texts d' = de_texts d @ xs"
proof -
  have "preserves (\<lambda>e. \<exists>xs. de_texts e = de_texts d @ xs) (decoder_push jt bytes)"
    unfolding decoder_push_def push_byte_def
    by (intro preserves_for_each frame preserves_writes decode_line_texts) auto
  from preservesD [OF this _ assms] show ?thesis by simp
qed

lemma fold_on_text: "cw_events (fold (on_text True request s) xs w) = cw_events w @ previews request xs"
  by (induction xs arbitrary: w) (simp_all add: on_text_def previews_def Let_def)

lemma push_chunk_result:
  assumes "push_chunk jt (on_text True request s) c d w = (Inr d', w')"
  shows "decoder_push jt c d = (Inr (), d') \<and>
    cw_events w' = cw_events w @ previews request (drop (length (de_texts d)) (de_texts d'))"
  using assms by (auto simp: push_chunk_def writes_then fold_on_text act_defs split: prod.splits sum.splits)

text \<open>What the receiving loop has after some chunks.\<close>

definition received_ok ::
  "json_text \<Rightarrow> bool \<Rightarrow> model_request \<Rightarrow> model_progress_event list \<Rightarrow> string list \<Rightarrow> string \<times> decoder \<Rightarrow>
   'x call_world \<Rightarrow> bool" where
  "received_ok jt streaming request base chunks got w \<longleftrightarrow>
     fst got = concat chunks \<and> length (fst got) \<le> max_body \<and>
     (if streaming
      then for_each chunks (decoder_push jt) decoder_new = (Inr (), snd got) \<and>
        cw_events w = base @ previews request (de_texts (snd got))
      else cw_events w = base)"

lemma received_ok_start: "received_ok jt streaming request (cw_events w) [] ([], decoder_new) w"
  by (simp add: received_ok_def previews_def decoder_new_def act_defs)

lemma received_ok_same: "cw_events w' = cw_events w \<Longrightarrow>
    received_ok jt streaming request base chunks got w \<Longrightarrow> received_ok jt streaming request base chunks got w'"
  unfolding received_ok_def by auto

lemma received_ok_chunk:
  assumes "received_ok jt streaming request base chunks (bytes, d) w"
    and "length bytes + length c \<le> max_body"
    and "(if streaming then push_chunk jt (on_text True request s) c d else ok d) w = (Inr d', w')"
  shows "received_ok jt streaming request base (chunks @ [c]) (bytes @ c, d') w'"
proof (cases streaming)
  case False
  with assms show ?thesis by (auto simp: received_ok_def ok_def)
next
  case True
  then have push: "decoder_push jt c d = (Inr (), d')"
    and events: "cw_events w' = cw_events w @ previews request (drop (length (de_texts d)) (de_texts d'))"
    using assms(3) push_chunk_result [of jt request s c d w d' w'] by simp_all
  from push_texts [OF push] obtain xs where "de_texts d' = de_texts d @ xs" by blast
  with True assms(1,2) push events show ?thesis
    by (auto simp: received_ok_def for_each_append and_then_def previews_append ok_def)
qed

lemma check_deadline_events: "check_deadline start seconds w = (r, w') \<Longrightarrow> cw_events w' = cw_events w"
  by (auto simp: check_deadline_def http_check_def look_def instant_def act_defs split: if_splits)

lemma receive_loop_result:
  assumes "receive_loop fuel jt streaming (on_text True request s) start seconds bytes d w = (Inr (Some got), w')"
    and "received_ok jt streaming request base chunks (bytes, d) w"
  shows "\<exists>chunks'. received_ok jt streaming request base chunks' got w'"
  using assms
proof (induction fuel arbitrary: bytes d w chunks)
  case 0
  then show ?case by (simp add: ok_def)
next
  case (Suc fuel)
  let ?loop = "receive_loop fuel jt streaming (on_text True request s) start seconds"
  from Suc.prems(1) obtain w1 where w1: "check_deadline start seconds w = (Inr (), w1)"
    by (auto simp: and_then_def split: prod.splits sum.splits)
  let ?got = "cn_receive (cw_net w1) (cn_receives (cw_net w1))"
  let ?w2 = "w1\<lparr>cw_net := (cw_net w1)\<lparr>cn_receives := Suc (cn_receives (cw_net w1))\<rparr>\<rparr>"
  have w2: "received_ok jt streaming request base chunks (bytes, d) ?w2"
    using Suc.prems(2) check_deadline_events [OF w1] by (auto intro: received_ok_same)
  show ?case
  proof (cases ?got)
    case (Chunk c)
    with Suc.prems(1) w1 have le: "length bytes + length c \<le> max_body"
      and run: "and_then (if streaming then push_chunk jt (on_text True request s) c d else ok d)
        (?loop (bytes @ c)) ?w2 = (Inr (Some got), w')"
      by (auto simp: and_then_def [of "check_deadline _ _"] and_then_def [of curl_receive] curl_receive_def Let_def
          err_def split: if_splits)
    from run obtain d' w3 where d': "(if streaming then push_chunk jt (on_text True request s) c d else ok d) ?w2 = (Inr d', w3)"
      and rest: "?loop (bytes @ c) d' w3 = (Inr (Some got), w')"
      by (auto simp: and_then_def split: prod.splits sum.splits)
    from Suc.IH [OF rest received_ok_chunk [OF w2 le d']] show ?thesis .
  qed (use Suc.prems(1) w1 w2 Suc.IH in \<open>auto simp: and_then_def [of "check_deadline _ _"]
      and_then_def [of curl_receive] curl_receive_def Let_def act_defs\<close>)
qed

lemma curl_response_result:
  assumes "curl_response jt millis marker streaming (bytes, d) status w = (Inr response, w')"
  shows "200 \<le> hs_status response \<and> hs_status response < 300 \<and> cw_events w' = cw_events w \<and>
    (if streaming then \<exists>d'. decoder_finish jt d = (Inr (hs_body response), d')
     else \<exists>body metrics. rsplit_once (newline # marker @ '' '') bytes = Some (body, metrics) \<and>
       jt_parse jt body = Inr (hs_body response))"
proof -
  obtain body metrics http where o: "rsplit_once (newline # marker @ '' '') bytes = Some (body, metrics)"
    and u: "valid_utf8 bytes" "length (split_whitespace metrics) = 5" "parse_u16 (split_whitespace metrics ! 0) = Some http"
    using assms by (auto simp: curl_response_def err_def Let_def split: prod.splits if_splits option.splits)
  with assms show ?thesis
    by (cases status; cases streaming)
      (auto simp: curl_response_def writes_then and_then_def [of "reads _"] reads_def err_def Let_def and_then_def ok_def writes_def
        split: if_splits prod.splits sum.splits)
qed

lemma curl_transport_result:
  assumes "curl_transport fuel jt millis q (on_text True request s) w = (Inr response, w')"
  shows "200 \<le> hs_status response \<and> hs_status response < 300 \<and>
    (\<exists>chunks. length (concat chunks) \<le> max_body \<and>
      (if wants_stream q
       then \<exists>texts. decode_stream jt chunks = Inr (hs_body response, texts) \<and>
         cw_events w' = cw_events w @ previews request texts
       else cw_events w' = cw_events w \<and> (\<exists>marker body metrics.
         rsplit_once (newline # curl_marker marker @ '' '') (concat chunks) = Some (body, metrics) \<and>
         jt_parse jt body = Inr (hs_body response))))"
proof -
  let ?m = "curl_marker (cn_marker_id (cw_net w))"
  obtain w1 w2 w3 w4 start got status where w1: "cw_events w1 = cw_events w"
    and loop: "receive_loop fuel jt (wants_stream q) (on_text True request s) start (curl_timeout q) [] decoder_new w1
      = (Inr (Some got), w2)"
    and wait: "wait_loop fuel start (curl_timeout q) w2 = (Inr (Some status), w3)"
    and resp: "curl_response jt millis ?m (wants_stream q) got status w3 = (Inr response, w')"
    using assms
    by (auto simp: curl_transport_def curl_post_json_controlled_def act_defs http_check_def look_def instant_def
        split: prod.splits sum.splits option.splits if_splits) (erule (2) that [rotated]; simp)+
  have "cw_events w3 = cw_events w2" using wait
  proof (induction fuel arbitrary: w2)
    case (Suc fuel)
    then show ?case
      by (auto simp: and_then_def curl_try_wait_def Let_def act_defs dest!: check_deadline_events
          split: prod.splits sum.splits waited.splits)
  qed (simp add: ok_def)
  moreover from receive_loop_result [OF loop received_ok_start] obtain chunks
    where got: "received_ok jt (wants_stream q) request (cw_events w1) chunks got w2" by blast
  moreover obtain bytes d where bd: "got = (bytes, d)" by (cases got)
  moreover note r = curl_response_result [OF resp [unfolded bd]]
  ultimately show ?thesis
  proof (cases "wants_stream q")
    case True
    with got bd have push: "for_each chunks (decoder_push jt) decoder_new = (Inr (), d)"
      and ev: "cw_events w2 = cw_events w1 @ previews request (de_texts d)" and le: "length (concat chunks) \<le> max_body"
      by (auto simp: received_ok_def)
    from r True obtain d' where fin: "decoder_finish jt d = (Inr (hs_body response), d')" by auto
    have "decoder_ok d"
      using triple_value [OF decoder_push_held decoder_ok_new, of jt "concat chunks" _ d] push
      by (simp add: push_chunks)
    then have "de_done d \<longrightarrow> de_data d = [] \<and> de_finish_reason d \<noteq> None" by (simp add: decoder_ok_def)
    from finish_result [OF fin this] have "de_texts d' = de_texts d" by blast
    with push fin have "decode_stream jt chunks = Inr (hs_body response, de_texts d)"
      by (simp add: decode_stream_def and_then_def)
    with True r le ev w1 \<open>cw_events w3 = cw_events w2\<close> show ?thesis by auto
  next
    case False
    then show ?thesis using r got bd w1 \<open>cw_events w3 = cw_events w2\<close> by (auto simp: received_ok_def)
  qed
qed

lemma build_wants_stream:
  assumes "build_http_request qt a request = Inr q"
  shows "wants_stream q \<longleftrightarrow> oa_streaming a"
  using assms
proof (cases rule: build_cases)
  case (1 body body')
  then show ?thesis
    using check_budget_get [OF 1(2)] by (simp add: set_stream_get jfield_def wants_stream_def)
qed


section \<open>The deadline\<close>

text \<open>A step of the clock: it is read at least \<open>n\<close> times and is otherwise left alone.\<close>

definition clock_step :: "nat \<Rightarrow> 'x call_world \<Rightarrow> 'x call_world \<Rightarrow> bool" where
  "clock_step n w w' \<longleftrightarrow> cw_clock w' = cw_clock w \<and> cw_readings w + n \<le> cw_readings w'"

lemma clock_on_text: "clock_step 0 w (fold (on_text observed request s) xs w)"
proof (induction xs arbitrary: w)
  case (Cons x xs)
  from Cons [of "on_text observed request s x w"] show ?case
    by (auto simp: clock_step_def on_text_def Let_def split: if_splits)
qed (simp add: clock_step_def)

lemma check_deadline_step:
  assumes "check_deadline start seconds w = (Inr (), w')"
  shows "clock_step 1 w w' \<and> cw_clock w (cw_readings w) < start + seconds * 1000000000"
  using assms by (auto simp: check_deadline_def http_check_def look_def instant_def act_defs clock_step_def split: if_splits)

lemma push_chunk_step:
  "push_chunk jt (on_text observed request s) c d w = (r, w') \<Longrightarrow> clock_step 0 w w'"
  using clock_on_text [of w observed request s]
  by (auto simp: push_chunk_def writes_then act_defs split: prod.splits sum.splits)

text \<open>From reading \<open>n\<close> on, the deadline has passed.\<close>

definition past_deadline :: "nat \<Rightarrow> nat \<Rightarrow> 'x call_world \<Rightarrow> bool" where
  "past_deadline n deadline w \<longleftrightarrow> (\<forall>m\<ge>n. deadline \<le> cw_clock w m)"

lemma receive_loop_returns:
  assumes "past_deadline n (start + seconds * 1000000000) w" and "n - cw_readings w < fuel"
    and "receive_loop fuel jt streaming (on_text observed request s) start seconds bytes d w = (Inr got, w')"
  shows "got \<noteq> None \<and> clock_step 0 w w'"
  using assms
proof (induction fuel arbitrary: bytes d w)
  case 0
  then show ?case by simp
next
  case (Suc fuel)
  let ?loop = "receive_loop fuel jt streaming (on_text observed request s) start seconds"
  from Suc.prems(3) obtain w1 where w1: "check_deadline start seconds w = (Inr (), w1)"
    by (auto simp: and_then_def split: prod.splits sum.splits)
  let ?w2 = "w1\<lparr>cw_net := (cw_net w1)\<lparr>cn_receives := Suc (cn_receives (cw_net w1))\<rparr>\<rparr>"
  note step = check_deadline_step [OF w1]
  have "cw_readings w < n"
    using step Suc.prems(1) by (metis linorder_not_le past_deadline_def)
  then have later: "past_deadline n (start + seconds * 1000000000) w2 \<and> n - cw_readings w2 < fuel \<and> clock_step 0 w w2"
    if "clock_step 0 ?w2 w2" for w2
    using that step Suc.prems(1,2) by (auto simp: past_deadline_def clock_step_def)
  have more: "got \<noteq> None \<and> clock_step 0 w w'"
    if "clock_step 0 ?w2 w2" and "?loop b e w2 = (Inr got, w')" for w2 b e
    using Suc.IH [OF _ _ that(2)] later [OF that(1)] by (auto simp: clock_step_def)
  show ?case
  proof (cases "cn_receive (cw_net w1) (cn_receives (cw_net w1))")
    case (Chunk c)
    with Suc.prems(3) w1 obtain d' w3
      where push: "(if streaming then push_chunk jt (on_text observed request s) c d else ok d) ?w2 = (Inr d', w3)"
        and rest: "?loop (bytes @ c) d' w3 = (Inr got, w')"
      by (auto simp: and_then_def curl_receive_def Let_def err_def split: if_splits prod.splits sum.splits)
    have "clock_step 0 ?w2 w3"
      using push push_chunk_step [of jt observed request s c d ?w2] by (cases streaming) (auto simp: ok_def clock_step_def)
    then show ?thesis using rest by (rule more)
  next
    case Nothing_Yet
    with Suc.prems(3) w1 have "?loop bytes d ?w2 = (Inr got, w')"
      by (simp add: and_then_def curl_receive_def Let_def)
    then show ?thesis by (intro more [of ?w2]) (simp_all add: clock_step_def)
  next
    case Disconnected
    with Suc.prems(3) w1 step show ?thesis
      by (auto simp: and_then_def curl_receive_def Let_def ok_def clock_step_def)
  qed (use Suc.prems(3) w1 in \<open>simp add: and_then_def curl_receive_def Let_def err_def\<close>)
qed

lemma wait_loop_returns:
  assumes "past_deadline n (start + seconds * 1000000000) w" and "n - cw_readings w < fuel"
    and "wait_loop fuel start seconds w = (Inr status, w')"
  shows "status \<noteq> None"
  using assms
proof (induction fuel arbitrary: w)
  case (Suc fuel)
  from Suc.prems(3) obtain w1 where w1: "check_deadline start seconds w = (Inr (), w1)"
    by (auto simp: and_then_def split: prod.splits sum.splits)
  let ?w2 = "w1\<lparr>cw_net := (cw_net w1)\<lparr>cn_waits := Suc (cn_waits (cw_net w1))\<rparr>\<rparr>"
  note step = check_deadline_step [OF w1]
  have "cw_readings w < n"
    using step Suc.prems(1) by (metis linorder_not_le past_deadline_def)
  then have "past_deadline n (start + seconds * 1000000000) ?w2" and "n - cw_readings ?w2 < fuel"
    using step Suc.prems(1,2) by (auto simp: past_deadline_def clock_step_def)
  note IH = Suc.IH [OF this]
  from Suc.prems(3) w1 IH show ?case
    by (cases "cn_wait (cw_net w1) (cn_waits (cw_net w1))")
      (auto simp: and_then_def curl_try_wait_def Let_def act_defs)
qed simp

text \<open>C29 A request over curl ends by its deadline: if the host's clock passes every bound, then whatever the
  server sends, and even if it sends nothing and the process never exits, the request comes to a result.\<close>

theorem curl_returns:
  assumes "\<forall>bound. \<exists>n. \<forall>m\<ge>n. bound \<le> cw_clock w m"
  shows "\<exists>fuel. \<forall>enough\<ge>fuel.
    fst (curl_post_json_controlled enough jt millis q (on_text observed request s) w) \<noteq> Inr None"
proof -
  let ?start = "cw_clock w (cw_readings w)" and ?secs = "curl_timeout q"
  obtain n where n: "\<forall>m\<ge>n. ?start + ?secs * 1000000000 \<le> cw_clock w m" using assms by blast
  have "fst (curl_post_json_controlled fuel jt millis q (on_text observed request s) w) \<noteq> Inr None"
    if fuel: "Suc n \<le> fuel" for fuel
  proof -
    have past: "past_deadline n (?start + ?secs * 1000000000) w1" if "cw_clock w1 = cw_clock w"
      for w1 :: "curl_net call_world" using n that by (simp add: past_deadline_def)
    have small: "n - cw_readings w1 < fuel" for w1 :: "curl_net call_world" using fuel by simp
    let ?loop = "receive_loop fuel jt (wants_stream q) (on_text observed request s) ?start ?secs [] decoder_new"
    have a: False if "?loop w1 = (Inr None, w2)" and "cw_clock w1 = cw_clock w" for w1 w2
      using receive_loop_returns [OF past [OF that(2)] small that(1)] by simp
    have b: False if "?loop w1 = (Inr got, w2)" and "wait_loop fuel ?start ?secs w2 = (Inr None, w3)"
      and "cw_clock w1 = cw_clock w" for w1 w2 w3 got
    proof -
      have "cw_clock w2 = cw_clock w"
        using receive_loop_returns [OF past [OF that(3)] small that(1)] that(3) by (simp add: clock_step_def)
      from wait_loop_returns [OF past [OF this] small that(2)] show False by simp
    qed
    show ?thesis
      by (auto simp: curl_post_json_controlled_def act_defs http_check_def look_def instant_def
          split: prod.splits sum.splits option.splits if_splits) (auto dest: a b)
  qed
  then show ?thesis by blast
qed

end
