(* ===== verification/TransportSamples.thy ===== *)
theory TransportSamples
  imports CurlProperties
begin

text \<open>
  Concrete requests at which the properties of the transports apply: one over curl, one over the native
  client, a server that is not there, and texts that try to leave their line.
\<close>

definition answer_json :: json_text where
  "answer_json = sample_json\<lparr>jt_parse := (\<lambda>s. if s = ''R'' then Inr sample_response else jt_parse sample_json s)\<rparr>"

definition sample_world :: "'x \<Rightarrow> 'x call_world" where
  "sample_world net = \<lparr>cw_events = [], cw_cancelled = (\<lambda>_. False), cw_looks = 0, cw_clock = (\<lambda>n. n), cw_readings = 0,
     cw_first_text = None, cw_timings = no_timings, cw_net = net\<rparr>"

abbreviation enough_fuel :: nat where
  "enough_fuel \<equiv> Suc (Suc (Suc (Suc (Suc 0))))"

definition plain_adapter :: adapter where
  "plain_adapter = adapter_new (openai_config_new ''http://u'' ''m'')"

definition sample_trailer :: string where
  "sample_trailer = newline # curl_marker ''t'' @ '' 200 0 0 0 0'' @ [newline]"

definition sample_curl :: curl_net where
  "sample_curl = \<lparr>cn_marker_id = ''t'', cn_spawn = None,
     cn_receive = (\<lambda>n. if n = 0 then Chunk ''R'' else if n = 1 then Chunk sample_trailer else Disconnected),
     cn_receives = 0, cn_wait = (\<lambda>n. Exited True ''exit status: 0''), cn_waits = 0, cn_stderr = None, cn_config = None\<rparr>"

definition sample_native :: native_net where
  "sample_native = \<lparr>nn_runtime = True, nn_instant_fits = (\<lambda>_. True),
     nn_parse_url = (\<lambda>_. Some \<lparr>up_scheme = ''http'', up_username = [], up_has_password = False\<rparr>),
     nn_header_name = Some, nn_header_value = (\<lambda>_. True), nn_serialize = (\<lambda>_. Inr ''{}''), nn_head = Inr (200, None),
     nn_chunk = (\<lambda>n. Inr (if n = 0 then Some ''R'' else None)), nn_chunks = 0,
     nn_poll = (\<lambda>n. if n = 0 then Cancellation_Tick else Operation_Ready), nn_polls = 0\<rparr>"

lemmas sample_call_defs = sample_world_def plain_adapter_def sample_request_def sample_text_def
  adapter_new_def openai_config_new_def build_http_request_def request_body_def check_budget_def set_stream_def
  request_headers_def wants_stream_def jfield_def http_check_def look_def instant_def act_defs Let_def
  elapsed_ms_def control_notify_def refuse_cancelled_def max_body_def

lemma answer_braces: "parse_response answer_json sample_response = parse_response sample_json sample_response"
  using sample_braces
  by (simp add: sample_response_def parse_response_json parse_call_call_json answer_json_def)

lemma sample_parses: "\<exists>r. parse_response answer_json sample_response = Inr r"
  unfolding answer_braces using sample_braces
  by (simp add: sample_response_def parse_response_json parse_call_call_json)

lemma sample_built: "\<exists>q. build_http_request sample_text plain_adapter sample_request = Inr q \<and>
    hq_url q = ''http://u'' \<and> \<not> wants_stream q \<and> hq_headers q = [(''Content-Type'', ''application/json'')] \<and>
    hq_timeout_seconds q = 120"
  by (simp add: sample_call_defs)

theorem retryable_only_transient_witness:
  "\<exists>e w'. async_complete answer_json sample_text plain_adapter (\<lambda>q callback. err (Some (Transport_Http 503 ''busy'')))
       True sample_request (sample_world ()) = (Inl (Some e), w') \<and> me_retryable e \<and>
     (\<exists>t. me_message e = transport_error_text t)"
proof -
  obtain q where q: "build_http_request sample_text plain_adapter sample_request = Inr q" using sample_built by blast
  obtain e w' where run: "async_complete answer_json sample_text plain_adapter
      (\<lambda>q callback. err (Some (Transport_Http 503 ''busy''))) True sample_request (sample_world ()) = (Inl (Some e), w')"
    and r: "me_retryable e"
    by (simp add: async_complete_def async_request_def q sample_world_def http_check_def look_def instant_def act_defs
        control_notify_def refuse_cancelled_def finish_progress_def elapsed_ms_def model_failure_def transport_retryable_def)
  from retryable_only_transient [OF run r] run r show ?thesis by blast
qed


text \<open>A header value that tries to add an option.\<close>

definition hostile_request :: http_request where
  "hostile_request = \<lparr>hq_url = ''http://u'' @ [quote, newline] @ ''output = x'',
     hq_headers = [(''Authorization'', ''k'' @ [quote, backslash])], hq_body = JObject [], hq_timeout_seconds = 0\<rparr>"

theorem curl_config_exact_witness:
  "\<exists>config. curl_config answer_json (curl_marker (id_text ''turn'' 1 2 3)) hostile_request = Inr config \<and>
     (\<exists>lines. config = concat (map (\<lambda>l. l @ [newline]) lines) \<and> length lines = 10 \<and>
        Some (''url'', Some (hq_url hostile_request)) \<in> set (map read_directive lines))"
proof -
  obtain config where c: "curl_config answer_json (curl_marker (id_text ''turn'' 1 2 3)) hostile_request = Inr config"
    by (simp add: curl_config_def hostile_request_def has_line_break_def)
  from curl_config_exact [OF c] obtain lines where lines: "config = concat (map (\<lambda>l. l @ [newline]) lines)"
    and read: "map read_directive lines =
      [Some (''silent'', None), Some (''show-error'', None), Some (''no-buffer'', None),
       Some (''request'', Some ''POST''), Some (''proto'', Some ''=http,https''),
       Some (''url'', Some (hq_url hostile_request)), Some (''max-time'', Some (dec (curl_timeout hostile_request)))] @
      map (\<lambda>(name, v). Some (''header'', Some (name @ '': '' @ v))) (hq_headers hostile_request) @
      [Some (''data-binary'', Some (jt_print answer_json (hq_body hostile_request))),
       Some (''write-out'', Some ([newline] @ curl_marker (id_text ''turn'' 1 2 3) @ metrics_format @ [newline]))]"
    by (elim exE conjE)
  have "length (map read_directive lines) = 10" unfolding read by (simp add: hostile_request_def)
  moreover have "Some (''url'', Some (hq_url hostile_request)) \<in> set (map read_directive lines)" unfolding read by simp
  ultimately show ?thesis using c lines by (metis length_map)
qed

lemma sample_output:
  "valid_utf8 (''R'' @ sample_trailer) \<and>
   rsplit_once (newline # curl_marker ''t'' @ '' '') (''R'' @ sample_trailer) =
     Some (''R'', ''200 0 0 0 0'' @ [newline]) \<and>
   split_whitespace (''200 0 0 0 0'' @ [newline]) = [''200'', ''0'', ''0'', ''0'', ''0''] \<and> parse_u16 ''200'' = Some 200"
  by (simp add: sample_trailer_def curl_marker_def valid_utf8_def utf8_first_def byte_def strip_prefix_def
      split_whitespace_def ws1_def ws2_def ws3_def parse_u16_def decimal_digit_def)


theorem curl_returns_witness:
  "\<exists>fuel. fst (curl_post_json_controlled fuel answer_json (\<lambda>_. None) hostile_request (on_text False sample_request 0)
     (sample_world (sample_curl\<lparr>cn_receive := (\<lambda>_. Nothing_Yet)\<rparr>))) \<noteq> Inr None"
proof -
  have "\<forall>bound. \<exists>n. \<forall>m\<ge>n. bound \<le> cw_clock (sample_world (sample_curl\<lparr>cn_receive := (\<lambda>_. Nothing_Yet)\<rparr>)) m"
    by (auto simp: sample_world_def)
  from curl_returns [OF this, of answer_json "\<lambda>_. None" hostile_request False sample_request 0] show ?thesis by blast
qed

end
