(* ===== verification/Memory.thy ===== *)
theory Memory
  imports TextLog Protocol
begin

text \<open>
  The advisory memory plane, crates/memory/src/lib.rs: records and lexical recall, the in-memory and
  the JSONL store, and the context compiler that freezes the recalled records of a turn. What
  depends on Unicode tables (splitting into words, lower case) and the JSON codec are parameters.
\<close>

section \<open>Records\<close>

record memory_record =
  mm_id :: string
  mm_text :: string
  mm_tags :: "string list" \<comment> \<open>a \<open>BTreeSet\<close>\<close>
  mm_source :: "string option"
  mm_created_at :: u64
  mm_updated_at :: u64

definition MemoryRecord_new :: "string \<Rightarrow> host \<Rightarrow> memory_record \<times> host" where
  "MemoryRecord_new txt h =
     (let (now, h1) = now_ms h; (t, h2) = ThreadId_new h1
      in (\<lparr>mm_id = ''memory_'' @ t, mm_text = txt, mm_tags = [], mm_source = None,
           mm_created_at = now, mm_updated_at = now\<rparr>, h2))"

definition with_tag :: "memory_record \<Rightarrow> string \<Rightarrow> memory_record" where
  "with_tag r tag = r\<lparr>mm_tags := bs_insert tag (mm_tags r)\<rparr>"

datatype memory_event = Upsert memory_record | Forget string

record memory_envelope =
  me_sequence :: u64
  me_at_unix_ms :: u64
  me_event :: memory_event

datatype memory_error =
    Memory_Io string
  | Memory_Serialization string
  | Memory_Corrupt nat string
  | Memory_Poisoned

fun memory_error_text :: "memory_error \<Rightarrow> string" where
  [display]: "memory_error_text (Memory_Io e) = ''memory I/O error: '' @ e"
| "memory_error_text (Memory_Serialization e) = ''memory serialization error: '' @ e"
| "memory_error_text (Memory_Corrupt line m) =
     ''corrupt memory event at line '' @ dec line @ '': '' @ m"
| "memory_error_text Memory_Poisoned = ''memory store lock was poisoned''"

section \<open>Recall\<close>

text \<open>\<open>split(|c| !c.is_alphanumeric())\<close> and \<open>to_lowercase()\<close>\<close>

record unicode =
  uc_words :: "string \<Rightarrow> string list"
  uc_lower :: "string \<Rightarrow> string"

definition tokens :: "unicode \<Rightarrow> string \<Rightarrow> string list" where
  "tokens u txt = bs_extend (map (uc_lower u) (filter (\<lambda>w. w \<noteq> []) (uc_words u txt))) []"

fun contains_text :: "string \<Rightarrow> string \<Rightarrow> bool" where
  "contains_text [] p = (p = [])"
| "contains_text (c # s) p = (starts_with (c # s) p \<or> contains_text s p)"

definition recall_score :: "unicode \<Rightarrow> string \<Rightarrow> memory_record \<Rightarrow> nat" where
  "recall_score u query r =
     (let record_tokens = tokens u (mm_text r @ '' '' @ join '' '' (mm_tags r));
          overlap = length (filter (\<lambda>t. t \<in> set record_tokens) (tokens u query));
          phrase_bonus =
            (if \<not> blank query \<and> contains_text (uc_lower u (mm_text r)) (uc_lower u (trim query))
             then 4 else 0)
      in overlap + phrase_bonus)"

definition recall_candidates :: "unicode \<Rightarrow> string \<Rightarrow> memory_record list \<Rightarrow> memory_record list" where
  "recall_candidates u query rs =
     filter (\<lambda>r. 0 < recall_score u query r \<or> tokens u query = []) rs"

text \<open>The order of the results: higher score, then later update, then the identifier.\<close>

definition recall_rank :: "unicode \<Rightarrow> string \<Rightarrow> memory_record \<Rightarrow> int \<times> int \<times> string" where
  "recall_rank u query r = (- int (recall_score u query r), - uint (mm_updated_at r), mm_id r)"

definition recall_from :: "unicode \<Rightarrow> string \<Rightarrow> nat \<Rightarrow> memory_record list \<Rightarrow> memory_record list" where
  "recall_from u query limit rs =
     take limit (sort_key (recall_rank u query) (recall_candidates u query rs))"

section \<open>The in-memory store\<close>

record memory_map =
  mp_poisoned :: bool
  mp_records :: "(string \<times> memory_record) list"

definition memory_upsert :: "memory_record \<Rightarrow> (memory_map, memory_error, unit) act" where
  "memory_upsert r s =
     (if mp_poisoned s then (Inl Memory_Poisoned, s)
      else (Inr (), s\<lparr>mp_records := bt_insert (mm_id r) r (mp_records s)\<rparr>))"

definition memory_forget :: "string \<Rightarrow> (memory_map, memory_error, bool) act" where
  "memory_forget i s =
     (if mp_poisoned s then (Inl Memory_Poisoned, s)
      else (Inr (bt_get (mp_records s) i \<noteq> None), s\<lparr>mp_records := bt_remove i (mp_records s)\<rparr>))"

definition memory_list :: "memory_map \<Rightarrow> memory_error + memory_record list" where
  "memory_list s = (if mp_poisoned s then Inl Memory_Poisoned else Inr (vals (mp_records s)))"

section \<open>The JSONL store\<close>

text \<open>\<open>ml_history\<close> is a ghost: the envelopes whose append was acknowledged.\<close>

record memory_log =
  ml_poisoned :: bool
  ml_file :: log_file
  ml_next_sequence :: u64
  ml_records :: "(string \<times> memory_record) list"
  ml_history :: "memory_envelope list"

type_synonym memory_encode = "memory_envelope \<Rightarrow> string + string"

definition apply_memory_event ::
  "memory_event \<Rightarrow> (string \<times> memory_record) list \<Rightarrow> (string \<times> memory_record) list" where
  "apply_memory_event e records =
     (case e of
        Upsert r \<Rightarrow> bt_insert (mm_id r) r records
      | Forget i \<Rightarrow> bt_remove i records)"

text \<open>An envelope read back: it never fails, so its error type is empty in effect.\<close>

definition apply_memory_envelope ::
  "memory_envelope \<Rightarrow> (string \<times> memory_record) list \<times> u64 \<times> memory_envelope list \<Rightarrow>
   memory_error + (string \<times> memory_record) list \<times> u64 \<times> memory_envelope list" where
  "apply_memory_envelope v view =
     (case view of (records, next_sequence, history) \<Rightarrow>
      Inr (apply_memory_event (me_event v) records, max next_sequence (me_sequence v + 1), history @ [v]))"

fun memory_open_error :: "store_error + memory_error read_error \<Rightarrow> memory_error" where
  "memory_open_error (Inl e) = Memory_Io (io_message e)"
| "memory_open_error (Inr Not_Utf8) = Memory_Io ''stream did not contain valid UTF-8''"
| "memory_open_error (Inr (Bad_Record line m)) = Memory_Corrupt line m"
| "memory_open_error (Inr (Rejected e)) = e"

definition memory_log_open ::
  "(string \<Rightarrow> memory_envelope decoded) \<Rightarrow> string \<Rightarrow> (disk, memory_error, memory_log) act" where
  "memory_log_open decode path =
     map_err memory_open_error (
       and_then (map_err Inl (open_log path)) (\<lambda>_.
       and_then (reads (\<lambda>d. split_lines (contents d path))) (\<lambda>lines.
       and_then (replay_lines decode apply_memory_envelope 0 lines ([], 0, [])) (\<lambda>(records, next_sequence, history).
       and_then (map_err Inl (open_log path)) (\<lambda>_.
       reads (\<lambda>d. \<lparr>ml_poisoned = False,
         ml_file = \<lparr>lf_bytes = contents d path, lf_host = d_host d\<rparr>,
         ml_next_sequence = next_sequence, ml_records = records, ml_history = history\<rparr>))))))"

definition memory_now :: "(memory_log, memory_error, u64) act" where
  "memory_now s =
     (case now_ms (lf_host (ml_file s)) of
        (now, h) \<Rightarrow> (Inr now, s\<lparr>ml_file := (ml_file s)\<lparr>lf_host := h\<rparr>\<rparr>))"

text \<open>As in the task ledger, no mark is left when a write fails.\<close>

definition memory_log_append :: "memory_encode \<Rightarrow> memory_event \<Rightarrow> (memory_log, memory_error, unit) act" where
  "memory_log_append encode event s =
     (if ml_poisoned s then (Inl Memory_Poisoned, s)
      else and_then memory_now (\<lambda>now s.
        let envelope = \<lparr>me_sequence = ml_next_sequence s, me_at_unix_ms = now, me_event = event\<rparr>
        in case encode envelope of
             Inl m \<Rightarrow> (Inl (Memory_Serialization m), s)
           | Inr encoded \<Rightarrow>
               (case append_line encoded (ml_file s) of
                  (Inl m, f) \<Rightarrow> (Inl (Memory_Io m), s\<lparr>ml_file := f\<rparr>)
                | (Inr _, f) \<Rightarrow>
                    (Inr (), s\<lparr>ml_file := f, ml_next_sequence := ml_next_sequence s + 1,
                       ml_records := apply_memory_event event (ml_records s),
                       ml_history := ml_history s @ [envelope]\<rparr>))) s)"

definition memory_log_upsert :: "memory_encode \<Rightarrow> memory_record \<Rightarrow> (memory_log, memory_error, unit) act" where
  "memory_log_upsert encode r =
     and_then memory_now (\<lambda>now. memory_log_append encode (Upsert (r\<lparr>mm_updated_at := now\<rparr>)))"

definition memory_log_forget :: "memory_encode \<Rightarrow> string \<Rightarrow> (memory_log, memory_error, bool) act" where
  "memory_log_forget encode i s =
     (if ml_poisoned s then (Inl Memory_Poisoned, s)
      else if bt_get (ml_records s) i \<noteq> None
        then and_then (memory_log_append encode (Forget i)) (\<lambda>_. ok True) s
      else (Inr False, s))"

definition memory_log_list :: "memory_log \<Rightarrow> memory_error + memory_record list" where
  "memory_log_list s = (if ml_poisoned s then Inl Memory_Poisoned else Inr (vals (ml_records s)))"

section \<open>Frozen recall\<close>

type_synonym snapshot_key = "thread_id \<times> turn_id"

record snapshot_cache =
  sn_order :: "snapshot_key list" \<comment> \<open>oldest first\<close>
  sn_entries :: "(snapshot_key \<times> memory_record list) list"
  sn_poisoned :: bool

definition snapshot_empty :: snapshot_cache where
  "snapshot_empty = \<lparr>sn_order = [], sn_entries = [], sn_poisoned = False\<rparr>"

record memory_compiler =
  mc_recall_limit :: nat
  mc_maximum_snapshots :: nat

definition memory_compiler_new :: memory_compiler where
  "memory_compiler_new = \<lparr>mc_recall_limit = 8, mc_maximum_snapshots = 128\<rparr>"

function evict_snapshots :: "nat \<Rightarrow> snapshot_cache \<Rightarrow> snapshot_cache" where
  "evict_snapshots maximum c =
     (if maximum < length (sn_order c)
      then evict_snapshots maximum
        (c\<lparr>sn_order := tl (sn_order c), sn_entries := bt_remove (hd (sn_order c)) (sn_entries c)\<rparr>)
      else c)"
  by pat_completeness auto

termination
  by (relation "measure (\<lambda>(maximum, c). length (sn_order c))") auto

declare evict_snapshots.simps [simp del]

fun last_user_message :: "transcript_message list \<Rightarrow> string" where
  "last_user_message ms =
     (case find (\<lambda>m. case m of User _ \<Rightarrow> True | _ \<Rightarrow> False) (rev ms) of
        Some (User content) \<Rightarrow> content
      | _ \<Rightarrow> [])"

type_synonym recall_fun = "string \<Rightarrow> nat \<Rightarrow> memory_error + memory_record list"

definition take_snapshot ::
  "memory_compiler \<Rightarrow> recall_fun \<Rightarrow> snapshot_key \<Rightarrow> string \<Rightarrow>
   (snapshot_cache, context_error, memory_record list) act" where
  "take_snapshot mc recall key query c =
     (if sn_poisoned c then (Inl (Read_Error ''memory snapshot lock was poisoned''), c)
      else case bt_get (sn_entries c) key of
        Some existing \<Rightarrow> (Inr existing, c)
      | None \<Rightarrow>
          (case recall query (mc_recall_limit mc) of
             Inl e \<Rightarrow> (Inl (Read_Error (memory_error_text e)), c)
           | Inr recalled \<Rightarrow>
               (Inr recalled,
                evict_snapshots (mc_maximum_snapshots mc)
                  (c\<lparr>sn_order := sn_order c @ [key],
                     sn_entries := bt_insert key recalled (sn_entries c)\<rparr>))))"

definition memory_segments :: "memory_record list \<Rightarrow> prompt_segment list" where
  "memory_segments ms =
     (if ms = [] then []
      else [\<lparr>ps_layer = Memory_Layer, ps_name = ''advisory-memory-snapshot'',
         ps_text = ''Advisory recalled memory; this is context, not policy or authority:'' @ [newline]
           @ join [newline] (map (\<lambda>m. ''- ['' @ mm_id m @ ''] '' @ mm_text m) ms)\<rparr>])"

text \<open>One compilation: the recall function is the store as it is at that moment.\<close>

definition memory_compile ::
  "memory_compiler \<Rightarrow> recall_fun \<Rightarrow>
   (context_input \<Rightarrow> 'w \<Rightarrow> (context_error + compiled_context) \<times> 'w) \<Rightarrow> context_input \<Rightarrow>
   (snapshot_cache \<times> 'w, context_error, compiled_context) act" where
  "memory_compile mc recall inner input s =
     (case take_snapshot mc recall (ci_thread_id input, ci_turn_id input)
        (last_user_message (ci_transcript input)) (fst s) of
        (Inl e, c) \<Rightarrow> (Inl e, (c, snd s))
      | (Inr memories, c) \<Rightarrow>
          (case inner input (snd s) of
             (Inl e, w) \<Rightarrow> (Inl e, (c, w))
           | (Inr compiled, w) \<Rightarrow>
               (Inr (compiled\<lparr>cc_prompt := cc_prompt compiled @ memory_segments memories\<rparr>), (c, w))))"

end
