(* ===== verification/MemoryProperties.thy ===== *)
theory MemoryProperties
  imports Memory Paths
begin

text \<open>
  The properties of the memory plane: the contract of a memory store and its two providers, the
  ranking of recall, the freezing of recalled records during a turn, and the JSONL store over
  restarts.
\<close>

section \<open>The contract of a memory store\<close>

locale memory_contract =
  fixes upsert :: "memory_record \<Rightarrow> 's \<Rightarrow> (memory_error + unit) \<times> 's"
    and forget :: "string \<Rightarrow> 's \<Rightarrow> (memory_error + bool) \<times> 's"
    and list_records :: "'s \<Rightarrow> memory_error + memory_record list"
    and records :: "'s \<Rightarrow> string \<Rightarrow> memory_record option" and invar :: "'s \<Rightarrow> bool"
  assumes upsert_value: "invar s \<Longrightarrow> upsert r s = (Inr u, s') \<Longrightarrow>
      invar s' \<and> (\<exists>t. records s' = (records s)(mm_id r \<mapsto> r\<lparr>mm_updated_at := t\<rparr>))"
    and upsert_error: "invar s \<Longrightarrow> upsert r s = (Inl x, s') \<Longrightarrow> invar s' \<and> records s' = records s"
    and forget_value: "invar s \<Longrightarrow> forget i s = (Inr b, s') \<Longrightarrow>
      invar s' \<and> b = (records s i \<noteq> None) \<and> records s' = (records s)(i := None)"
    and forget_error: "invar s \<Longrightarrow> forget i s = (Inl x, s') \<Longrightarrow> invar s' \<and> records s' = records s"
    and list_value: "invar s \<Longrightarrow> list_records s = Inr rs \<Longrightarrow>
      set rs = ran (records s) \<and> distinct (map mm_id rs)"
    and record_id: "invar s \<Longrightarrow> records s i = Some r \<Longrightarrow> mm_id r = i"
begin

lemma listed: "invar s \<Longrightarrow> list_records s = Inr rs \<Longrightarrow> r \<in> set rs \<longleftrightarrow> records s (mm_id r) = Some r"
  using list_value record_id by (fastforce simp: ran_def)

lemma forgotten_not_listed:
  assumes "invar s" and "forget i s = (Inr b, s')" and "list_records s' = Inr rs"
  shows "i \<notin> mm_id ` set rs"
proof -
  have "invar s'" "records s' i = None" using forget_value [OF assms(1,2)] by simp_all
  then show ?thesis using listed [OF _ assms(3)] by auto
qed

lemma upserted_listed:
  assumes "invar s" and "upsert r s = (Inr u, s')" and "list_records s' = Inr rs"
  shows "\<exists>t. r\<lparr>mm_updated_at := t\<rparr> \<in> set rs"
proof -
  obtain t where "invar s'" "records s' (mm_id r) = Some (r\<lparr>mm_updated_at := t\<rparr>)"
    using upsert_value [OF assms(1,2)] by auto
  then show ?thesis using listed [OF _ assms(3), of "r\<lparr>mm_updated_at := t\<rparr>"] by auto
qed

end

definition records_ok :: "(string \<times> memory_record) list \<Rightarrow> bool" where
  "records_ok m \<longleftrightarrow> bt_ok m \<and> (\<forall>i r. bt_get m i = Some r \<longrightarrow> mm_id r = i)"

lemma records_ok_insert: "records_ok m \<Longrightarrow> records_ok (bt_insert (mm_id r) r m)"
  by (auto simp: records_ok_def)

lemma records_ok_remove: "records_ok m \<Longrightarrow> records_ok (bt_remove i m)"
  by (auto simp: records_ok_def)

lemma records_ok_apply: "records_ok m \<Longrightarrow> records_ok (apply_memory_event e m)"
  by (cases e) (auto simp: apply_memory_event_def intro: records_ok_insert records_ok_remove)

lemma records_ok_vals:
  assumes "records_ok m"
  shows "set (vals m) = ran (bt_get m)" and "distinct (map mm_id (vals m))"
proof -
  have bt: "bt_ok m" and ids: "\<And>i r. bt_get m i = Some r \<Longrightarrow> mm_id r = i"
    using assms by (simp_all add: records_ok_def)
  show "set (vals m) = ran (bt_get m)" by (auto simp: in_vals_get [OF bt] ran_def)
  have "map mm_id (vals m) = keys m" using ids by (auto simp: vals_def keys_def bt_get_eq_Some [OF bt])
  then show "distinct (map mm_id (vals m))" using bt_ok_distinct [OF bt] by simp
qed

lemma bt_get_remove_fun: "bt_get (bt_remove i m) = (bt_get m)(i := None)"
  by auto

lemma bt_get_insert_fun: "bt_get (bt_insert i r m) = (bt_get m)(i \<mapsto> r)"
  by auto

lemma same_update: "r\<lparr>mm_updated_at := mm_updated_at r\<rparr> = (r :: memory_record)"
  by simp

interpretation memory_in_memory: memory_contract memory_upsert memory_forget memory_list
  "\<lambda>s. bt_get (mp_records s)" "\<lambda>s. records_ok (mp_records s)"
proof unfold_locales
  fix s :: memory_map and r u s' i b rs x
  assume ok: "records_ok (mp_records s)"
  show "memory_upsert r s = (Inr u, s') \<Longrightarrow> records_ok (mp_records s') \<and>
      (\<exists>t. bt_get (mp_records s') = (bt_get (mp_records s))(mm_id r \<mapsto> r\<lparr>mm_updated_at := t\<rparr>))"
    using ok records_ok_insert
    by (auto simp: memory_upsert_def bt_get_insert_fun split: if_splits intro!: exI [of _ "mm_updated_at r"])
  show "memory_upsert r s = (Inl x, s') \<Longrightarrow> records_ok (mp_records s') \<and>
      bt_get (mp_records s') = bt_get (mp_records s)"
    using ok by (auto simp: memory_upsert_def split: if_splits)
  show "memory_forget i s = (Inr b, s') \<Longrightarrow> records_ok (mp_records s') \<and>
      b = (bt_get (mp_records s) i \<noteq> None) \<and> bt_get (mp_records s') = (bt_get (mp_records s))(i := None)"
    using ok records_ok_remove by (auto simp: memory_forget_def bt_get_remove_fun split: if_splits)
  show "memory_forget i s = (Inl x, s') \<Longrightarrow> records_ok (mp_records s') \<and>
      bt_get (mp_records s') = bt_get (mp_records s)"
    using ok by (auto simp: memory_forget_def split: if_splits)
  show "memory_list s = Inr rs \<Longrightarrow> set rs = ran (bt_get (mp_records s)) \<and> distinct (map mm_id rs)"
    using records_ok_vals [OF ok] by (auto simp: memory_list_def split: if_splits)
  show "bt_get (mp_records s) i = Some r \<Longrightarrow> mm_id r = i"
    using ok by (simp add: records_ok_def)
qed

text \<open>The JSONL store.\<close>

lemma memory_log_append_cases:
  assumes "memory_log_append encode e s = (r, s')"
  obtains (failed) x where "r = Inl x" "ml_records s' = ml_records s" "ml_history s' = ml_history s"
      "ml_next_sequence s' = ml_next_sequence s" "ml_poisoned s' = ml_poisoned s"
      "(\<nexists>m. x = Memory_Io m) \<Longrightarrow> lf_bytes (ml_file s') = lf_bytes (ml_file s)"
  | (recorded) v where "r = Inr ()" "me_event v = e" "me_sequence v = ml_next_sequence s"
      "\<exists>b. encode v = Inr b" "ml_records s' = apply_memory_event e (ml_records s)"
      "ml_history s' = ml_history s @ [v]" "ml_next_sequence s' = ml_next_sequence s + 1"
      "ml_poisoned s' = ml_poisoned s"
      "lf_bytes (ml_file s') = lf_bytes (ml_file s) @ line_of encode v"
proof (cases "ml_poisoned s")
  case True
  with assms show ?thesis by (intro failed) (auto simp: memory_log_append_def)
next
  case False
  obtain now h where n: "now_ms (lf_host (ml_file s)) = (now, h)" by fastforce
  let ?v = "\<lparr>me_sequence = ml_next_sequence s, me_at_unix_ms = now, me_event = e\<rparr>"
  let ?f = "(ml_file s)\<lparr>lf_host := h\<rparr>"
  show ?thesis
  proof (cases "encode ?v")
    case (Inl m)
    with False assms n show ?thesis
      by (intro failed) (auto simp: memory_log_append_def memory_now_def act_defs)
  next
    case (Inr b)
    obtain q f where w: "append_line b ?f = (q, f)" by fastforce
    show ?thesis
    proof (cases q)
      case (Inl m)
      with False assms n \<open>encode ?v = Inr b\<close> w show ?thesis
        by (intro failed) (auto simp: memory_log_append_def memory_now_def act_defs)
    next
      case (Inr u)
      with w have "lf_bytes f = lf_bytes (ml_file s) @ b @ [newline]"
        by (auto dest: append_line_appended)
      with False assms n \<open>encode ?v = Inr b\<close> w Inr show ?thesis
        by (intro recorded [of ?v])
          (auto simp: memory_log_append_def memory_now_def act_defs line_of_def)
    qed
  qed
qed

lemma memory_log_upsert_append:
  assumes "memory_log_upsert encode r s = (q, s')"
  obtains t s1 where "memory_log_append encode (Upsert (r\<lparr>mm_updated_at := t\<rparr>)) s1 = (q, s')"
    "ml_records s1 = ml_records s" "ml_history s1 = ml_history s" "ml_poisoned s1 = ml_poisoned s"
    "ml_next_sequence s1 = ml_next_sequence s" "lf_bytes (ml_file s1) = lf_bytes (ml_file s)"
proof -
  obtain t h where t: "now_ms (lf_host (ml_file s)) = (t, h)" by fastforce
  have "memory_log_append encode (Upsert (r\<lparr>mm_updated_at := t\<rparr>))
      (s\<lparr>ml_file := (ml_file s)\<lparr>lf_host := h\<rparr>\<rparr>) = (q, s')"
    using assms t by (simp add: memory_log_upsert_def memory_now_def act_defs)
  then show ?thesis by (rule that) simp_all
qed

lemma memory_log_forget_cases:
  assumes "memory_log_forget encode i s = (q, s')"
  obtains (poisoned) "q = Inl Memory_Poisoned" "s' = s"
  | (absent) "bt_get (ml_records s) i = None" "q = Inr False" "s' = s"
  | (failed) x where "memory_log_append encode (Forget i) s = (Inl x, s')" "q = Inl x"
  | (forgotten) "bt_get (ml_records s) i \<noteq> None" "q = Inr True"
      "memory_log_append encode (Forget i) s = (Inr (), s')"
proof (cases "ml_poisoned s")
  case True
  with assms show ?thesis by (intro poisoned) (auto simp: memory_log_forget_def)
next
  case False
  obtain r s1 where r: "memory_log_append encode (Forget i) s = (r, s1)" by fastforce
  show ?thesis
  proof (cases "bt_get (ml_records s) i")
    case None
    with False assms show ?thesis by (intro absent) (auto simp: memory_log_forget_def)
  next
    case (Some x)
    with False assms r show ?thesis
      using failed forgotten by (cases r) (auto simp: memory_log_forget_def act_defs)
  qed
qed

interpretation memory_jsonl: memory_contract "memory_log_upsert encode" "memory_log_forget encode"
  memory_log_list "\<lambda>s. bt_get (ml_records s)" "\<lambda>s. records_ok (ml_records s)"
  for encode
proof unfold_locales
  fix s :: memory_log and r u s' i b rs x
  assume ok: "records_ok (ml_records s)"
  show "records_ok (ml_records s') \<and>
      (\<exists>t. bt_get (ml_records s') = (bt_get (ml_records s))(mm_id r \<mapsto> r\<lparr>mm_updated_at := t\<rparr>))"
    if "memory_log_upsert encode r s = (Inr u, s')"
    using that
  proof (rule memory_log_upsert_append)
    fix t s1
    assume "memory_log_append encode (Upsert (r\<lparr>mm_updated_at := t\<rparr>)) s1 = (Inr u, s')"
      and same: "ml_records s1 = ml_records s"
    then have "ml_records s' = apply_memory_event (Upsert (r\<lparr>mm_updated_at := t\<rparr>)) (ml_records s)"
      by (auto elim: memory_log_append_cases)
    then show ?thesis
      using records_ok_apply [OF ok, of "Upsert (r\<lparr>mm_updated_at := t\<rparr>)"]
      by (auto simp: apply_memory_event_def fun_upd_def)
  qed
  show "memory_log_upsert encode r s = (Inl x, s') \<Longrightarrow> records_ok (ml_records s') \<and>
      bt_get (ml_records s') = bt_get (ml_records s)"
    using ok by (auto elim!: memory_log_upsert_append memory_log_append_cases)
  show "memory_log_forget encode i s = (Inr b, s') \<Longrightarrow> records_ok (ml_records s') \<and>
      b = (bt_get (ml_records s) i \<noteq> None) \<and> bt_get (ml_records s') = (bt_get (ml_records s))(i := None)"
    using ok records_ok_remove
    by (auto elim!: memory_log_forget_cases memory_log_append_cases
        simp: apply_memory_event_def bt_get_remove_fun fun_upd_idem)
  show "memory_log_forget encode i s = (Inl x, s') \<Longrightarrow> records_ok (ml_records s') \<and>
      bt_get (ml_records s') = bt_get (ml_records s)"
    using ok by (auto elim!: memory_log_forget_cases memory_log_append_cases)
  show "memory_log_list s = Inr rs \<Longrightarrow> set rs = ran (bt_get (ml_records s)) \<and> distinct (map mm_id rs)"
    using records_ok_vals [OF ok] by (auto simp: memory_log_list_def split: if_splits)
  show "bt_get (ml_records s) i = Some r \<Longrightarrow> mm_id r = i"
    using ok by (simp add: records_ok_def)
qed

section \<open>Recall\<close>


section \<open>Frozen snapshots\<close>

definition cache_ok :: "memory_compiler \<Rightarrow> snapshot_cache \<Rightarrow> bool" where
  "cache_ok mc c \<longleftrightarrow>
     distinct (sn_order c) \<and> set (sn_order c) = set (keys (sn_entries c)) \<and> bt_ok (sn_entries c) \<and>
     length (sn_order c) \<le> mc_maximum_snapshots mc"

lemma evict_one:
  assumes "length (sn_order c) \<le> Suc maximum"
  shows "evict_snapshots maximum c =
    (if length (sn_order c) = Suc maximum
     then c\<lparr>sn_order := tl (sn_order c), sn_entries := bt_remove (hd (sn_order c)) (sn_entries c)\<rparr> else c)"
proof (cases "length (sn_order c) = Suc maximum")
  case True
  then show ?thesis
    by (subst evict_snapshots.simps) (simp add: evict_snapshots.simps [of maximum "c\<lparr>sn_order := _, sn_entries := _\<rparr>"])
next
  case False
  with assms show ?thesis by (subst evict_snapshots.simps) simp
qed

text \<open>A cached entry and how many were cached after it.\<close>

definition cached :: "snapshot_key \<Rightarrow> memory_record list \<Rightarrow> nat \<Rightarrow> snapshot_cache \<Rightarrow> bool" where
  "cached key ms age c \<longleftrightarrow>
     bt_get (sn_entries c) key = Some ms \<and> (\<exists>xs ys. sn_order c = xs @ key # ys \<and> length ys \<le> age)"

lemma cached_mono: "cached key ms age c \<Longrightarrow> age \<le> age' \<Longrightarrow> cached key ms age' c"
  unfolding cached_def by (elim conjE exE, intro conjI exI) (assumption | simp)+

lemma take_snapshot_keeps:
  assumes "take_snapshot mc recall key query c = (r, c')" and "cache_ok mc c"
  shows "cache_ok mc c'"
proof (cases "c' = c")
  case True
  with assms(2) show ?thesis by simp
next
  case False
  with assms(1) obtain ms where new: "bt_get (sn_entries c) key = None"
    and c': "c' = evict_snapshots (mc_maximum_snapshots mc)
      (c\<lparr>sn_order := sn_order c @ [key], sn_entries := bt_insert key ms (sn_entries c)\<rparr>)"
    by (auto simp: take_snapshot_def split: if_splits option.splits sum.splits)
  have fresh: "key \<notin> set (sn_order c)" using new assms(2) by (simp add: cache_ok_def bt_get_None)
  let ?c = "c\<lparr>sn_order := sn_order c @ [key], sn_entries := bt_insert key ms (sn_entries c)\<rparr>"
  have c: "distinct (sn_order ?c)" "set (sn_order ?c) = set (keys (sn_entries ?c))" "bt_ok (sn_entries ?c)"
    "length (sn_order ?c) \<le> Suc (mc_maximum_snapshots mc)" "sn_order ?c \<noteq> []"
    using assms(2) fresh by (auto simp: cache_ok_def)
  then obtain k ks where order: "sn_order ?c = k # ks" by (cases "sn_order ?c") auto
  show ?thesis
    unfolding c' evict_one [OF c(4)] using c order
    by (auto simp: cache_ok_def simp del: append.simps)
qed

lemma take_snapshot_caches:
  assumes "take_snapshot mc recall key query c = (Inr ms, c')" and "cache_ok mc c"
    and "bt_get (sn_entries c) key = None" and "0 < mc_maximum_snapshots mc"
  shows "recall query (mc_recall_limit mc) = Inr ms" and "cached key ms 0 c'"
proof -
  from assms(1,3) show "recall query (mc_recall_limit mc) = Inr ms"
    by (auto simp: take_snapshot_def split: if_splits sum.splits)
  let ?c = "c\<lparr>sn_order := sn_order c @ [key], sn_entries := bt_insert key ms (sn_entries c)\<rparr>"
  have c': "c' = evict_snapshots (mc_maximum_snapshots mc) ?c"
    using assms(1,3) by (auto simp: take_snapshot_def split: if_splits sum.splits)
  have len: "length (sn_order ?c) \<le> Suc (mc_maximum_snapshots mc)"
    using assms(2) by (simp add: cache_ok_def)
  have fresh: "key \<notin> set (sn_order c)" using assms(2,3) by (simp add: cache_ok_def bt_get_None)
  show "cached key ms 0 c'"
  proof (cases "sn_order c")
    case Nil
    then show ?thesis
      unfolding c' evict_one [OF len] using assms(4)
      by (auto simp: cached_def intro: exI [of _ "[]"])
  next
    case (Cons k ks)
    then have "k \<noteq> key" using fresh by auto
    with Cons show ?thesis
      unfolding c' evict_one [OF len] by (auto simp: cached_def intro: exI [of _ "k # ks"])
  qed
qed

lemma take_snapshot_frozen:
  assumes "take_snapshot mc recall k query c = (r, c')" and "cache_ok mc c"
    and "cached key ms age c" and "Suc age < mc_maximum_snapshots mc"
  shows "cached key ms (Suc age) c'"
proof (cases "c' = c")
  case True
  with assms(3) show ?thesis by (simp add: cached_mono)
next
  case False
  with assms(1) obtain ns where new: "bt_get (sn_entries c) k = None"
    and c': "c' = evict_snapshots (mc_maximum_snapshots mc)
      (c\<lparr>sn_order := sn_order c @ [k], sn_entries := bt_insert k ns (sn_entries c)\<rparr>)"
    by (auto simp: take_snapshot_def split: if_splits option.splits sum.splits)
  from assms(3) obtain xs ys where order: "sn_order c = xs @ key # ys" "length ys \<le> age"
    and entry: "bt_get (sn_entries c) key = Some ms" by (auto simp: cached_def)
  have "k \<noteq> key" using new entry by auto
  let ?c = "c\<lparr>sn_order := sn_order c @ [k], sn_entries := bt_insert k ns (sn_entries c)\<rparr>"
  have len: "length (sn_order ?c) \<le> Suc (mc_maximum_snapshots mc)"
    using assms(2) by (simp add: cache_ok_def)
  show ?thesis
  proof (cases xs)
    case Nil
    then have "length (sn_order ?c) \<noteq> Suc (mc_maximum_snapshots mc)"
      using order assms(4) by simp
    then show ?thesis
      unfolding c' evict_one [OF len] using Nil order entry \<open>k \<noteq> key\<close>
      unfolding cached_def by (intro conjI exI [of _ "[]"] exI [of _ "ys @ [k]"]) simp_all
  next
    case (Cons x xs')
    have "x \<noteq> key" using order Cons assms(2) by (auto simp: cache_ok_def)
    with Cons show ?thesis
      unfolding c' evict_one [OF len] using order entry \<open>k \<noteq> key\<close>
      by (auto simp: cached_def intro: exI [of _ xs'] exI [of _ "x # xs'"])
  qed
qed

lemma memory_compile_snapshot:
  assumes "memory_compile mc recall inner input s = (r, s')"
  shows "\<exists>q c. take_snapshot mc recall (ci_thread_id input, ci_turn_id input)
      (last_user_message (ci_transcript input)) (fst s) = (q, c) \<and> fst s' = c \<and>
    (\<forall>compiled. r = Inr compiled \<longrightarrow> (\<exists>ms ic w. q = Inr ms \<and> inner input (snd s) = (Inr ic, w) \<and>
      cc_prompt compiled = cc_prompt ic @ memory_segments ms))"
proof -
  obtain q c where q: "take_snapshot mc recall (ci_thread_id input, ci_turn_id input)
      (last_user_message (ci_transcript input)) (fst s) = (q, c)" by (meson surj_pair)
  with assms have "fst s' = c"
    by (auto simp: memory_compile_def split: sum.splits prod.splits)
  moreover have "\<exists>ms ic w. q = Inr ms \<and> inner input (snd s) = (Inr ic, w) \<and>
      cc_prompt compiled = cc_prompt ic @ memory_segments ms" if "r = Inr compiled" for compiled
    using assms q that by (auto simp: memory_compile_def split: sum.splits prod.splits)
  ultimately show ?thesis using q by (intro exI [of _ q] exI [of _ c]) simp
qed

text \<open>Any compilations, each against the store as it then is.\<close>

fun compile_all ::
  "memory_compiler \<Rightarrow> (context_input \<Rightarrow> 'w \<Rightarrow> (context_error + compiled_context) \<times> 'w) \<Rightarrow>
   (recall_fun \<times> context_input) list \<Rightarrow> snapshot_cache \<times> 'w \<Rightarrow> snapshot_cache \<times> 'w" where
  "compile_all mc inner [] s = s"
| "compile_all mc inner ((recall, input) # calls) s =
     compile_all mc inner calls (snd (memory_compile mc recall inner input s))"

lemma compile_all_frozen:
  "cache_ok mc (fst s) \<Longrightarrow> cached key ms age (fst s) \<Longrightarrow> age + length calls < mc_maximum_snapshots mc \<Longrightarrow>
   cache_ok mc (fst (compile_all mc inner calls s)) \<and>
   (\<exists>age'. cached key ms age' (fst (compile_all mc inner calls s)))"
proof (induction calls arbitrary: s age)
  case Nil
  then show ?case by auto
next
  case (Cons call calls)
  obtain recall input where call: "call = (recall, input)" by (meson surj_pair)
  obtain r s1 where run: "memory_compile mc recall inner input s = (r, s1)" by (meson surj_pair)
  obtain q c where q: "take_snapshot mc recall (ci_thread_id input, ci_turn_id input)
      (last_user_message (ci_transcript input)) (fst s) = (q, c)" "fst s1 = c"
    using memory_compile_snapshot [OF run] by (elim exE conjE)
  have "cache_ok mc (fst s1)" using take_snapshot_keeps [OF q(1) Cons.prems(1)] q(2) by simp
  moreover have "cached key ms (Suc age) (fst s1)"
    using take_snapshot_frozen [OF q(1) Cons.prems(1,2)] Cons.prems(3) q(2) by simp
  ultimately show ?case using Cons.IH [of s1 "Suc age"] Cons.prems(3) by (simp add: call run)
qed

text \<open>Recall is frozen for a turn: when a turn is first compiled, memory is recalled once, and until
  as many other compilations as the cache has places followed, every later compilation of the same
  turn carries exactly the same memory segment, whatever was written to the store in between. The
  cache never holds more snapshots than its maximum.\<close>

theorem memory_frozen:
  assumes "cache_ok mc (fst s)" and "bt_get (sn_entries (fst s)) (ci_thread_id input, ci_turn_id input) = None"
    and "memory_compile mc recall inner input s = (Inr compiled, s1)"
    and "length calls < mc_maximum_snapshots mc"
    and "memory_compile mc recall' inner input' (compile_all mc inner calls s1) = (Inr compiled', s2)"
    and "ci_thread_id input' = ci_thread_id input" and "ci_turn_id input' = ci_turn_id input"
  shows "(\<exists>ms ic ic'. recall (last_user_message (ci_transcript input)) (mc_recall_limit mc) = Inr ms \<and>
      (\<exists>w. inner input (snd s) = (Inr ic, w)) \<and> cc_prompt compiled = cc_prompt ic @ memory_segments ms \<and>
      (\<exists>w w'. inner input' w = (Inr ic', w')) \<and> cc_prompt compiled' = cc_prompt ic' @ memory_segments ms) \<and>
    length (sn_order (fst s2)) \<le> mc_maximum_snapshots mc"
proof -
  let ?key = "(ci_thread_id input, ci_turn_id input)"
  obtain q c where q: "take_snapshot mc recall ?key
      (last_user_message (ci_transcript input)) (fst s) = (q, c)" "fst s1 = c"
    and first: "\<exists>ms ic w. q = Inr ms \<and> inner input (snd s) = (Inr ic, w) \<and>
      cc_prompt compiled = cc_prompt ic @ memory_segments ms"
    using memory_compile_snapshot [OF assms(3)] by (elim exE conjE) simp
  then obtain ms ic where ms: "q = Inr ms" "\<exists>w. inner input (snd s) = (Inr ic, w)"
    "cc_prompt compiled = cc_prompt ic @ memory_segments ms" by blast
  have positive: "0 < mc_maximum_snapshots mc" using assms(4) by simp
  note snap = take_snapshot_caches [OF q(1) [unfolded ms(1)] assms(1,2) positive]
  have "cache_ok mc (fst s1)" using take_snapshot_keeps [OF q(1) assms(1)] q(2) by simp
  from compile_all_frozen [OF this, of ?key ms 0 calls inner] snap(2) q(2) assms(4)
  obtain age where later: "cache_ok mc (fst (compile_all mc inner calls s1))"
    "cached ?key ms age (fst (compile_all mc inner calls s1))" by auto
  obtain q' c' where q': "take_snapshot mc recall' ?key
      (last_user_message (ci_transcript input')) (fst (compile_all mc inner calls s1)) = (q', c')"
    "fst s2 = c'"
    and second: "\<exists>ms ic w. q' = Inr ms \<and> inner input' (snd (compile_all mc inner calls s1)) = (Inr ic, w) \<and>
      cc_prompt compiled' = cc_prompt ic @ memory_segments ms"
    using memory_compile_snapshot [OF assms(5)] unfolding assms(6,7) by (elim exE conjE) simp
  have "q' = Inr ms \<or> (\<exists>x. q' = Inl x)"
    using q'(1) later(2) by (auto simp: take_snapshot_def cached_def split: if_splits)
  then obtain ic' where "\<exists>w w'. inner input' w = (Inr ic', w')"
    "cc_prompt compiled' = cc_prompt ic' @ memory_segments ms"
    using second by auto
  moreover have "length (sn_order (fst s2)) \<le> mc_maximum_snapshots mc"
    using take_snapshot_keeps [OF q'(1) later(1)] q'(2) by (simp add: cache_ok_def)
  ultimately show ?thesis using snap(1) ms(2,3) by blast
qed

section \<open>The JSONL store over restarts\<close>

text \<open>Replaying memory events cannot fail and keeps the records in order under their identifiers.\<close>

interpretation memory_events: event_sourced apply_memory_envelope "\<lambda>(records, n, history). records_ok records"
  by unfold_locales (auto simp: apply_memory_envelope_def records_ok_apply split: prod.splits)

lemma memory_open_records:
  assumes "memory_log_open decode path d = (r, d')"
    and "contents d path = concat (map (line_of encode) vs)"
    and "text_codec encode decode (set vs)"
    and "replay apply_memory_envelope vs ([], 0, []) = Inr (records, next_sequence, history)"
  shows "(\<exists>m. r = Inl (Memory_Io m)) \<or>
    (\<exists>h. r = Inr \<lparr>ml_poisoned = False, ml_file = \<lparr>lf_bytes = contents d path, lf_host = h\<rparr>,
       ml_next_sequence = next_sequence, ml_records = records, ml_history = history\<rparr>)"
proof -
  obtain r1 d1 where o1: "open_log path d = (r1, d1)" by (meson surj_pair)
  note c1 = open_log_result [OF o1]
  show ?thesis
  proof (cases r1)
    case (Inl x)
    with assms(1) o1 c1(2) show ?thesis by (auto simp: memory_log_open_def act_defs)
  next
    case (Inr u1)
    let ?lines = "map (line_of encode) vs"
    have lines: "split_lines (contents d1 path) = ?lines"
      using split_lines_text [OF assms(3), of "[]"] assms(2) c1(1) by simp
    obtain r2 d2 where o2: "replay_lines decode apply_memory_envelope 0 ?lines ([], 0, []) d1 = (r2, d2)"
      by (meson surj_pair)
    note c2 = replay_lines_records [OF assms(3,4) o2]
    show ?thesis
    proof (cases r2)
      case (Inl x)
      with c2(1) obtain m where "x = Inl (Store_Io m)" by auto
      with assms(1) o1 Inr lines o2 Inl show ?thesis by (auto simp: memory_log_open_def act_defs)
    next
      case (Inr v2)
      with c2(1) have v2: "r2 = Inr (records, next_sequence, history)" by auto
      obtain r3 d3 where o3: "open_log path d2 = (r3, d3)" by (meson surj_pair)
      note c3 = open_log_result [OF o3]
      have "contents d3 path = contents d path" using c1(1) c2(2) c3(1) by simp
      then show ?thesis
        using assms(1) o1 \<open>r1 = Inr u1\<close> lines o2 v2 o3 c3(2)
        by (auto simp: memory_log_open_def act_defs)
    qed
  qed
qed

text \<open>The operations of a client, and a store in use: opened on an empty file, operated on without an
  I/O failure, and reopened on the bytes it had left.\<close>

datatype memory_op = Op_upsert memory_record | Op_forget string

fun run_memory_op :: "memory_encode \<Rightarrow> memory_op \<Rightarrow> memory_log \<Rightarrow> memory_error option \<times> memory_log" where
  "run_memory_op encode (Op_upsert r) s =
     (case memory_log_upsert encode r s of (Inl x, s') \<Rightarrow> (Some x, s') | (Inr _, s') \<Rightarrow> (None, s'))"
| "run_memory_op encode (Op_forget i) s =
     (case memory_log_forget encode i s of (Inl x, s') \<Rightarrow> (Some x, s') | (Inr _, s') \<Rightarrow> (None, s'))"

inductive memory_in_use ::
  "memory_encode \<Rightarrow> (string \<Rightarrow> memory_envelope decoded) \<Rightarrow> string \<Rightarrow> memory_log \<Rightarrow> memory_envelope list \<Rightarrow> bool"
  for encode decode path where
  created: "contents d path = [] \<Longrightarrow> memory_log_open decode path d = (Inr s, d') \<Longrightarrow>
    memory_in_use encode decode path s []"
| operated: "memory_in_use encode decode path s vs \<Longrightarrow>
    run_memory_op encode op s = (x, s') \<Longrightarrow> \<nexists>m. x = Some (Memory_Io m) \<Longrightarrow>
    memory_in_use encode decode path s' (vs @ drop (length (ml_history s)) (ml_history s'))"
| reopened: "memory_in_use encode decode path s vs \<Longrightarrow> contents d path = lf_bytes (ml_file s) \<Longrightarrow>
    memory_log_open decode path d = (Inr s', d') \<Longrightarrow> memory_in_use encode decode path s' vs"

definition memory_good :: "memory_encode \<Rightarrow> memory_envelope list \<Rightarrow> memory_log \<Rightarrow> bool" where
  "memory_good encode vs s \<longleftrightarrow>
     \<not> ml_poisoned s \<and> ml_history s = vs \<and> lf_bytes (ml_file s) = concat (map (line_of encode) vs) \<and>
     ml_next_sequence s = of_nat (length vs) \<and>
     replay apply_memory_envelope vs ([], 0, []) = Inr (ml_records s, ml_next_sequence s, vs)"

lemma memory_append_good:
  assumes "memory_log_append encode e s = (r, s')" and "memory_good encode vs s"
    and "\<nexists>m. r = Inl (Memory_Io m)" and "length (ml_history s') < 2 ^ 64"
  shows "memory_good encode (vs @ drop (length vs) (ml_history s')) s'"
  using assms(1)
proof (cases rule: memory_log_append_cases)
  case (failed x)
  then show ?thesis using assms(2,3) by (auto simp: memory_good_def)
next
  case (recorded v)
  have vs: "ml_history s = vs" using assms(2) by (simp add: memory_good_def)
  have "Suc (length vs) < 2 ^ 64" using assms(4) recorded(6) vs by simp
  then have "max (of_nat (length vs)) (of_nat (length vs) + 1) = (of_nat (length vs) + 1 :: u64)"
    by (rule max_next_sequence)
  then show ?thesis
    using recorded assms(2) vs
    by (auto simp: memory_good_def replay_append apply_memory_envelope_def)
qed

lemma memory_append_history: "memory_log_append encode e s = (r, s') \<Longrightarrow> \<exists>us. ml_history s' = ml_history s @ us"
  by (erule memory_log_append_cases) auto

lemma run_memory_op_appends:
  assumes "run_memory_op encode op s = (x, s')"
  obtains (unchanged) "ml_poisoned s' = ml_poisoned s" "lf_bytes (ml_file s') = lf_bytes (ml_file s)"
      "ml_records s' = ml_records s" "ml_next_sequence s' = ml_next_sequence s" "ml_history s' = ml_history s"
  | (appended) e r s1 where "memory_log_append encode e s1 = (r, s')"
      "ml_poisoned s1 = ml_poisoned s" "lf_bytes (ml_file s1) = lf_bytes (ml_file s)"
      "ml_records s1 = ml_records s" "ml_next_sequence s1 = ml_next_sequence s" "ml_history s1 = ml_history s"
      "\<forall>m. r = Inl (Memory_Io m) \<longrightarrow> x = Some (Memory_Io m)"
proof (cases op)
  case (Op_upsert r)
  obtain q where q: "memory_log_upsert encode r s = (q, s')" "\<forall>m. q = Inl (Memory_Io m) \<longrightarrow> x = Some (Memory_Io m)"
    using assms Op_upsert by (auto split: prod.splits sum.splits)
  from q(1) show ?thesis
    by (rule memory_log_upsert_append) (rule appended, assumption+, rule q(2))
next
  case (Op_forget i)
  obtain q where q: "memory_log_forget encode i s = (q, s')" "\<forall>m. q = Inl (Memory_Io m) \<longrightarrow> x = Some (Memory_Io m)"
    using assms Op_forget by (auto split: prod.splits sum.splits)
  from q(1) show ?thesis
  proof (cases rule: memory_log_forget_cases)
    case (failed y)
    then show ?thesis using q(2) by (intro appended [OF failed(1)]) auto
  next
    case forgotten
    then show ?thesis by (intro appended [OF forgotten(3)]) auto
  qed (intro unchanged, simp_all)+
qed

lemma run_memory_op_good:
  assumes "run_memory_op encode op s = (x, s')" and "memory_good encode vs s"
    and "\<nexists>m. x = Some (Memory_Io m)" and "length (ml_history s') < 2 ^ 64"
  shows "memory_good encode (vs @ drop (length vs) (ml_history s')) s'"
  using assms(1)
proof (cases rule: run_memory_op_appends)
  case unchanged
  with assms(2) show ?thesis by (simp add: memory_good_def)
next
  case (appended e r s1)
  then have "memory_good encode vs s1" using assms(2) by (simp add: memory_good_def)
  moreover have "\<nexists>m. r = Inl (Memory_Io m)" using appended(7) assms(3) by blast
  ultimately show ?thesis using memory_append_good [OF appended(1)] assms(4) by blast
qed

lemma memory_reopen_good:
  assumes "memory_good encode vs s" and "text_codec encode decode (set vs)"
    and "contents d path = lf_bytes (ml_file s)" and "memory_log_open decode path d = (r, d')"
  shows "(\<exists>m. r = Inl (Memory_Io m)) \<or>
    (\<exists>s'. r = Inr s' \<and> memory_good encode vs s' \<and> ml_records s' = ml_records s)"
proof -
  have bytes: "contents d path = concat (map (line_of encode) vs)"
    and rep: "replay apply_memory_envelope vs ([], 0, []) = Inr (ml_records s, ml_next_sequence s, vs)"
    using assms(1,3) by (simp_all add: memory_good_def)
  from memory_open_records [OF assms(4) bytes assms(2) rep] assms(1,3) show ?thesis
    by (auto simp: memory_good_def)
qed

lemma memory_in_use_good:
  "memory_in_use encode decode path s vs \<Longrightarrow> text_codec encode decode (set vs) \<Longrightarrow>
   length vs < 2 ^ 64 \<Longrightarrow> memory_good encode vs s"
proof (induction rule: memory_in_use.induct)
  case (created d s d')
  have "text_codec encode decode (set [])" by (simp add: text_codec_def)
  from memory_open_records [OF created.hyps(2) _ this] created.hyps(1) show ?case
    by (auto simp: memory_good_def)
next
  case (operated s vs op x s')
  have codec: "text_codec encode decode (set vs)"
    using operated.prems(1) by (rule text_codec_subset) auto
  have good: "memory_good encode vs s" using operated.IH [OF codec] operated.prems(2) by simp
  then have vs: "ml_history s = vs" by (simp add: memory_good_def)
  have "\<exists>us. ml_history s' = vs @ us" using operated.hyps(2)
    by (cases rule: run_memory_op_appends) (auto simp: vs dest: memory_append_history)
  then have "length (ml_history s') < 2 ^ 64" using operated.prems(2) vs by auto
  with run_memory_op_good [OF operated.hyps(2) good operated.hyps(3)] show ?case by (simp add: vs)
next
  case (reopened s vs d s' d')
  then have "memory_good encode vs s" by simp
  from memory_reopen_good [OF this reopened.prems(1) reopened.hyps(2,3)] show ?case by auto
qed

text \<open>C17 The memory store survives restarts: after any use of a store created on an empty file, with
  any number of restarts and no I/O failure, reopening the log is never refused as corrupt and
  gives back exactly the records it had, listed once each under their identifiers, and the log
  holds every acknowledged event in order.\<close>

theorem memory_survives_restart:
  assumes "memory_in_use encode decode path s vs" and "text_codec encode decode (set vs)"
    and "length vs < 2 ^ 64"
    and "contents d path = lf_bytes (ml_file s)" and "memory_log_open decode path d = (r, d')"
  shows "(\<exists>m. r = Inl (Memory_Io m)) \<or>
    (\<exists>s'. r = Inr s' \<and> memory_log_list s' = memory_log_list s \<and> records_ok (ml_records s') \<and>
       lf_bytes (ml_file s') = concat (map (line_of encode) vs))"
proof -
  have good: "memory_good encode vs s" using assms(1-3) by (rule memory_in_use_good)
  then have state: "replay apply_memory_envelope vs ([], 0, []) = Inr (ml_records s, ml_next_sequence s, vs)"
    "\<not> ml_poisoned s" by (simp_all add: memory_good_def)
  have "records_ok (ml_records s)"
    using memory_events.replay_invar [OF _ state(1)] by (simp add: records_ok_def)
  with memory_reopen_good [OF good assms(2,4,5)] state(2) show ?thesis
    by (auto simp: memory_good_def memory_log_list_def)
qed

section \<open>A sample memory\<close>

definition sample_unicode :: unicode where
  "sample_unicode = \<lparr>uc_words = split_on CHR '' '', uc_lower = (\<lambda>s. s)\<rparr>"

definition sample_record :: "string \<Rightarrow> string \<Rightarrow> memory_record" where
  "sample_record i t = \<lparr>mm_id = i, mm_text = t, mm_tags = [], mm_source = None,
     mm_created_at = 0, mm_updated_at = 0\<rparr>"

abbreviation sample_memories :: "memory_record list" where
  "sample_memories \<equiv> [sample_record ''a'' ''red door'', sample_record ''b'' ''blue door'',
     sample_record ''c'' ''cat'']"

lemmas sample_recall_defs =
  recall_candidates_def recall_score_def tokens_def sample_unicode_def sample_record_def
  bs_extend_def blank_def trim_def trim_end_def ws1_def ws2_def ws3_def byte_def starts_with_def Let_def


definition sample_compiler :: memory_compiler where
  "sample_compiler = \<lparr>mc_recall_limit = 8, mc_maximum_snapshots = 2\<rparr>"

definition sample_turn :: "turn_id \<Rightarrow> context_input" where
  "sample_turn t = \<lparr>ci_thread_id = ''t'', ci_turn_id = t, ci_transcript = [User ''door'']\<rparr>"

definition sample_inner :: "context_input \<Rightarrow> unit \<Rightarrow> (context_error + compiled_context) \<times> unit" where
  "sample_inner input w = (Inr \<lparr>cc_prompt = [], cc_messages = ci_transcript input\<rparr>, w)"

definition sample_first :: "snapshot_cache \<times> unit" where
  "sample_first = snd (memory_compile sample_compiler (\<lambda>_ _. Inr [sample_record ''a'' ''red door'']) sample_inner
     (sample_turn ''1'') (snapshot_empty, ()))"

definition sample_later :: "snapshot_cache \<times> unit" where
  "sample_later = compile_all sample_compiler sample_inner [(\<lambda>_ _. Inr [], sample_turn ''2'')] sample_first"

lemmas sample_compile_defs = sample_compiler_def sample_turn_def sample_inner_def
  sample_first_def sample_later_def memory_compile_def take_snapshot_def snapshot_empty_def
  evict_snapshots.simps memory_segments_def sample_record_def

lemma sample_compiled:
  "\<exists>compiled compiled' s2.
     memory_compile sample_compiler (\<lambda>_ _. Inr [sample_record ''a'' ''red door'']) sample_inner
       (sample_turn ''1'') (snapshot_empty, ()) = (Inr compiled, sample_first) \<and>
     memory_compile sample_compiler (\<lambda>_ _. Inr []) sample_inner (sample_turn ''1'') sample_later =
       (Inr compiled', s2) \<and> cc_prompt compiled' = memory_segments [sample_record ''a'' ''red door'']"
  by (simp add: sample_compile_defs)

theorem memory_frozen_witness:
  "\<exists>compiled' s2. memory_compile sample_compiler (\<lambda>_ _. Inr []) sample_inner (sample_turn ''1'') sample_later =
       (Inr compiled', s2) \<and> cc_prompt compiled' \<noteq> [] \<and> length (sn_order (fst s2)) \<le> 2"
proof -
  obtain compiled compiled' s2 where run:
    "memory_compile sample_compiler (\<lambda>_ _. Inr [sample_record ''a'' ''red door'']) sample_inner
       (sample_turn ''1'') (snapshot_empty, ()) = (Inr compiled, sample_first)"
    "memory_compile sample_compiler (\<lambda>_ _. Inr []) sample_inner (sample_turn ''1'') sample_later = (Inr compiled', s2)"
    and "cc_prompt compiled' = memory_segments [sample_record ''a'' ''red door'']"
    using sample_compiled by blast
  have start: "cache_ok sample_compiler (fst (snapshot_empty, ()))"
    "bt_get (sn_entries (fst (snapshot_empty, ()))) (ci_thread_id (sample_turn ''1''), ci_turn_id (sample_turn ''1'')) = None"
    "length [(\<lambda>_ _. Inr [], sample_turn ''2'')] < mc_maximum_snapshots sample_compiler"
    by (simp_all add: cache_ok_def snapshot_empty_def sample_compiler_def)
  from memory_frozen [OF start(1,2) run(1) start(3) run(2) [unfolded sample_later_def] refl refl] run(2)
  show ?thesis
    by (intro exI [of _ compiled'] exI [of _ s2]) (auto simp: sample_compiler_def memory_segments_def)
qed

definition sample_memory_encode :: memory_encode where
  "sample_memory_encode v = Inr (case me_event v of Upsert r \<Rightarrow> ''{0}'' | Forget i \<Rightarrow> ''{1}'')"

definition sample_envelope :: memory_envelope where
  "sample_envelope = \<lparr>me_sequence = 0, me_at_unix_ms = 0, me_event = Upsert (sample_record ''a'' ''red door'')\<rparr>"

definition sample_memory_decode :: "string \<Rightarrow> memory_envelope decoded" where
  "sample_memory_decode l =
     (if l = ''{0}'' then Decoded sample_envelope else Undecodable False ''expected value'')"

definition sample_memory_disk :: "string \<Rightarrow> disk" where
  "sample_memory_disk bytes = \<lparr>d_files = [(''m'', bytes)], d_host = sample_host (\<lambda>_. Io_ok)\<rparr>"

definition sample_memory :: memory_log where
  "sample_memory = \<lparr>ml_poisoned = False,
     ml_file = \<lparr>lf_bytes = [], lf_host = (sample_host (\<lambda>_. Io_ok))\<lparr>h_operations := 3\<rparr>\<rparr>,
     ml_next_sequence = 0, ml_records = [], ml_history = []\<rparr>"

definition sample_remembered :: memory_log where
  "sample_remembered = snd (run_memory_op sample_memory_encode (Op_upsert (sample_record ''a'' ''red door'')) sample_memory)"

lemmas sample_memory_defs =
  memory_log_upsert_def memory_log_append_def memory_now_def act_defs append_line_def write_all_def
  sync_file_def io_step_def now_ms_def now_nanos_def as_millis_def sample_host_def sample_memory_def
  sample_memory_encode_def sample_remembered_def sample_record_def sample_envelope_def Let_def

lemmas sample_reopen_defs =
  memory_log_open_def open_log_def disk_io_def sample_memory_disk_def file_bytes_def replay_line_def
  sample_memory_decode_def apply_memory_envelope_def valid_utf8_def utf8_first_def byte_def strip_eol_def
  terminated_def blank_def trim_def trim_end_def ws1_def ws2_def ws3_def

lemma sample_memory_opened:
  "\<exists>d'. memory_log_open sample_memory_decode ''m'' (sample_memory_disk []) = (Inr sample_memory, d')"
  by (simp add: sample_reopen_defs sample_memory_defs)

lemma sample_memory_history:
  "run_memory_op sample_memory_encode (Op_upsert (sample_record ''a'' ''red door'')) sample_memory =
     (None, sample_remembered)"
  "ml_history sample_remembered = [sample_envelope]"
  by (simp_all add: sample_memory_defs apply_memory_event_def)

lemma sample_memory_in_use:
  "memory_in_use sample_memory_encode sample_memory_decode ''m'' sample_remembered [sample_envelope]"
proof -
  obtain d' where "memory_log_open sample_memory_decode ''m'' (sample_memory_disk []) = (Inr sample_memory, d')"
    using sample_memory_opened by blast
  then have "memory_in_use sample_memory_encode sample_memory_decode ''m'' sample_memory []"
    by (intro created [of "sample_memory_disk []"]) (simp add: sample_memory_disk_def file_bytes_def)
  from operated [OF this sample_memory_history(1)] show ?thesis
    by (simp add: sample_memory_history(2)) (simp add: sample_memory_def)
qed

lemma sample_memory_codec:
  "text_codec sample_memory_encode sample_memory_decode (set [sample_envelope])"
  by (simp add: text_codec_def sample_memory_encode_def sample_memory_decode_def sample_envelope_def
      valid_utf8_def utf8_first_def byte_def)

lemma sample_memory_reopen:
  "\<exists>s' d'. memory_log_open sample_memory_decode ''m''
     (sample_memory_disk (lf_bytes (ml_file sample_remembered))) = (Inr s', d')"
  by (simp add: sample_reopen_defs sample_memory_defs apply_memory_event_def)

theorem memory_survives_restart_witness:
  "\<exists>s' d'. memory_log_open sample_memory_decode ''m''
     (sample_memory_disk (lf_bytes (ml_file sample_remembered))) = (Inr s', d') \<and>
   memory_log_list s' = memory_log_list sample_remembered"
proof -
  obtain s' d' where run: "memory_log_open sample_memory_decode ''m''
      (sample_memory_disk (lf_bytes (ml_file sample_remembered))) = (Inr s', d')"
    using sample_memory_reopen by blast
  from memory_survives_restart [OF sample_memory_in_use sample_memory_codec _ _ run] run show ?thesis
    by (auto simp: sample_memory_disk_def file_bytes_def)
qed

end
