(* ===== verification/Disk.thy ===== *)
theory Disk
  imports TextLog Registry Paths
begin

text \<open>
  A file system with symbolic links as crates/executor-process uses it through \<open>std::fs\<close>: names are
  resolved component by component, links are followed, each operation may fail, a failed write may
  have been done in part. What other programs do to it between two calls of a tool is covered
  because the theorems hold for every disk.
\<close>

section \<open>Names\<close>

datatype entry = Folder | Regular string | Symlink string | Device

record disk =
  dk_entries :: "(path \<times> entry) list"
  dk_host :: host
  dk_cancelled :: "nat \<Rightarrow> bool" \<comment> \<open>the token, at the n-th look at it\<close>
  dk_looks :: nat

abbreviation root_folder :: path where
  "root_folder \<equiv> []"

definition entry_at :: "(path \<times> entry) list \<Rightarrow> path \<Rightarrow> entry option" where
  "entry_at es p = (if p = root_folder then Some Folder else bt_get es p)"

abbreviation dotdot :: string where
  "dotdot \<equiv> ''..''"

text \<open>Name resolution from \<open>at\<close>, with the number of steps bounded as the system bounds links. With
  \<open>creating\<close>, the last name may be missing from its folder.\<close>

fun walk :: "nat \<Rightarrow> bool \<Rightarrow> (path \<times> entry) list \<Rightarrow> path \<Rightarrow> path \<Rightarrow> path option" where
  "walk n creating es at [] = (if entry_at es at = None then None else Some at)"
| "walk 0 creating es at (c # cs) = None"
| "walk (Suc n) creating es at (c # cs) =
     (if entry_at es at \<noteq> Some Folder then None
      else if c = dotdot then walk n creating es (butlast at) cs
      else case entry_at es (at @ [c]) of
        None \<Rightarrow> if creating \<and> cs = [] then Some (at @ [c]) else None
      | Some (Symlink target) \<Rightarrow>
          walk n creating es (if target \<noteq> [] \<and> hd target = slash then root_folder else at)
            (path_components target @ cs)
      | Some _ \<Rightarrow> walk n creating es (at @ [c]) cs)"

definition resolution_limit :: nat where
  "resolution_limit = 4096"

definition resolve :: "(path \<times> entry) list \<Rightarrow> path \<Rightarrow> path option" where
  "resolve es p = walk resolution_limit False es root_folder p"

definition resolve_create :: "(path \<times> entry) list \<Rightarrow> path \<Rightarrow> path option" where
  "resolve_create es p = walk resolution_limit True es root_folder p"

section \<open>Operations\<close>

abbreviation no_such_file :: string where
  "no_such_file \<equiv> ''No such file or directory (os error 2)''"

definition disk_io :: "(disk, string, unit) act" where
  "disk_io d =
     (case io_step (dk_host d) of
        (Io_ok, h) \<Rightarrow> (Inr (), d\<lparr>dk_host := h\<rparr>)
      | (Io_error e n, h) \<Rightarrow> (Inl e, d\<lparr>dk_host := h\<rparr>))"

definition disk_cancelled :: "(disk, 'e, bool) act" where
  "disk_cancelled d = (Inr (dk_cancelled d (dk_looks d)), d\<lparr>dk_looks := Suc (dk_looks d)\<rparr>)"

definition put_entry :: "path \<Rightarrow> entry \<Rightarrow> disk \<Rightarrow> disk" where
  "put_entry p e d = d\<lparr>dk_entries := bt_insert p e (dk_entries d)\<rparr>"

definition disk_canonicalize :: "path \<Rightarrow> (disk, string, path) act" where
  "disk_canonicalize p =
     and_then disk_io (\<lambda>_ d. case resolve (dk_entries d) p of None \<Rightarrow> (Inl no_such_file, d) | Some q \<Rightarrow> (Inr q, d))"

text \<open>\<open>exists()\<close>, \<open>is_file()\<close> and \<open>is_dir()\<close> follow links and take an error for no.\<close>

definition disk_entry :: "path \<Rightarrow> (disk, 'e, entry option) act" where
  "disk_entry p =
     attempt disk_io (\<lambda>r d. case r of
       Inl _ \<Rightarrow> (Inr None, d)
     | Inr _ \<Rightarrow> (Inr (Option.bind (resolve (dk_entries d) p) (entry_at (dk_entries d))), d))"

definition disk_exists :: "path \<Rightarrow> (disk, 'e, bool) act" where
  "disk_exists p = and_then (disk_entry p) (\<lambda>e. ok (e \<noteq> None))"

definition disk_is_file :: "path \<Rightarrow> (disk, 'e, bool) act" where
  "disk_is_file p = and_then (disk_entry p) (\<lambda>e. ok (case e of Some (Regular _) \<Rightarrow> True | _ \<Rightarrow> False))"

definition disk_is_dir :: "path \<Rightarrow> (disk, 'e, bool) act" where
  "disk_is_dir p = and_then (disk_entry p) (\<lambda>e. ok (e = Some Folder))"

text \<open>An open file is the place it was opened at.\<close>

definition disk_open :: "path \<Rightarrow> (disk, string, path) act" where
  "disk_open p = disk_canonicalize p"

definition handle_is_file :: "path \<Rightarrow> (disk, string, bool) act" where
  "handle_is_file h =
     and_then disk_io (\<lambda>_. reads (\<lambda>d. case entry_at (dk_entries d) h of Some (Regular _) \<Rightarrow> True | _ \<Rightarrow> False))"

text \<open>\<open>take(n).read_to_end(..)\<close>\<close>

definition handle_read :: "path \<Rightarrow> nat \<Rightarrow> (disk, string, string) act" where
  "handle_read h n =
     and_then disk_io (\<lambda>_ d. case entry_at (dk_entries d) h of
       Some (Regular bytes) \<Rightarrow> (Inr (take n bytes), d)
     | Some Folder \<Rightarrow> (Inl ''Is a directory (os error 21)'', d)
     | _ \<Rightarrow> (Inl no_such_file, d))"

definition handle_bytes :: "path \<Rightarrow> disk \<Rightarrow> string" where
  "handle_bytes h d = (case entry_at (dk_entries d) h of Some (Regular bytes) \<Rightarrow> bytes | _ \<Rightarrow> [])"

text \<open>What is written to a device is not kept.\<close>

definition put_bytes :: "path \<Rightarrow> string \<Rightarrow> disk \<Rightarrow> disk" where
  "put_bytes h bytes d =
     (if entry_at (dk_entries d) h = Some Device then d else put_entry h (Regular bytes) d)"

text \<open>\<open>write_all\<close> at the start of the file.\<close>

definition handle_write :: "path \<Rightarrow> string \<Rightarrow> (disk, string, unit) act" where
  "handle_write h bytes d =
     (let old = handle_bytes h d in
      case io_step (dk_host d) of
        (Io_ok, host) \<Rightarrow> (Inr (), put_bytes h (bytes @ drop (length bytes) old) (d\<lparr>dk_host := host\<rparr>))
      | (Io_error e n, host) \<Rightarrow>
          let part = take n bytes
          in (Inl e, put_bytes h (part @ drop (length part) old) (d\<lparr>dk_host := host\<rparr>)))"

definition handle_set_len :: "path \<Rightarrow> nat \<Rightarrow> (disk, string, unit) act" where
  "handle_set_len h n =
     and_then disk_io (\<lambda>_. writes (\<lambda>d. let old = handle_bytes h d
       in put_bytes h (take n old @ replicate (n - length old) (CHR 0x00)) d))"

text \<open>\<open>OpenOptions::new().read(true).write(true).open(p)\<close>\<close>

definition disk_open_existing :: "path \<Rightarrow> (disk, string, path) act" where
  "disk_open_existing p =
     and_then (disk_canonicalize p) (\<lambda>h d.
       if entry_at (dk_entries d) h = Some Folder then (Inl ''Is a directory (os error 21)'', d) else (Inr h, d))"

text \<open>\<open>OpenOptions::new().create(true).truncate(true).write(true).open(p)\<close>: links are followed, also one
  whose target is not there.\<close>

definition disk_open_truncated :: "path \<Rightarrow> (disk, string, path) act" where
  "disk_open_truncated p =
     and_then disk_io (\<lambda>_ d. case resolve_create (dk_entries d) p of
       None \<Rightarrow> (Inl no_such_file, d)
     | Some h \<Rightarrow>
         (case entry_at (dk_entries d) h of
            Some Folder \<Rightarrow> (Inl ''Is a directory (os error 21)'', d)
          | Some Device \<Rightarrow> (Inr h, d)
          | _ \<Rightarrow> (Inr h, put_entry h (Regular []) d)))"

text \<open>\<open>create_dir_all\<close>: the missing folders of a path, from the top.\<close>

fun create_folders :: "nat \<Rightarrow> path \<Rightarrow> (disk, string, unit) act" where
  "create_folders 0 p = ok ()"
| "create_folders (Suc n) p =
     (let q = take (length p - n) p in
      and_then (disk_entry q) (\<lambda>e. case e of
        Some Folder \<Rightarrow> create_folders n p
      | Some _ \<Rightarrow> err ''Not a directory (os error 20)''
      | None \<Rightarrow>
          and_then disk_io (\<lambda>_ d. case resolve (dk_entries d) (butlast q) of
            None \<Rightarrow> (Inl no_such_file, d)
          | Some parent \<Rightarrow>
              if entry_at (dk_entries d) (parent @ [last q]) \<noteq> None then (Inl ''File exists (os error 17)'', d)
              else create_folders n p (put_entry (parent @ [last q]) Folder d))))"

definition create_dir_all :: "path \<Rightarrow> (disk, string, unit) act" where
  "create_dir_all p = create_folders (length p) p"

section \<open>Resolving\<close>

lemma entry_at_root [simp]: "entry_at es [] = Some Folder"
  by (simp add: entry_at_def)

text \<open>A disk's names: every entry but the root sits in a folder under a proper name.\<close>

definition disk_names_ok :: "(path \<times> entry) list \<Rightarrow> bool" where
  "disk_names_ok es \<longleftrightarrow> (\<forall>p c. entry_at es (p @ [c]) \<noteq> None \<longrightarrow>
     entry_at es p = Some Folder \<and> c \<noteq> dotdot \<and> c \<noteq> ''.'' \<and> c \<noteq> [] \<and> slash \<notin> set c)"

lemma walk_folder:
  "walk n False es at p = Some q \<Longrightarrow> entry_at es q \<noteq> None"
  by (induction n "False" es at p rule: walk.induct) (auto split: if_splits option.splits entry.splits)

end
