(* ===== verification/Workspace.thy ===== *)
theory Workspace
  imports Disk RustText
begin

text \<open>
  The workspace tools of crates/executor-process/src/lib.rs: the validation of paths, reading and
  writing a file. A path is absolute and its names are UTF-8, as JSON requires of the prepared action.
\<close>

section \<open>Paths inside the workspace\<close>

datatype process_error =
    Process_Cancelled
  | Process_Io string
  | Process_Invalid string

fun process_error_text :: "process_error \<Rightarrow> string" where
  [display]: "process_error_text Process_Cancelled = ''process cancelled; effects before termination may have occurred''"
| "process_error_text (Process_Io e) = ''process I/O error: '' @ e"
| "process_error_text (Process_Invalid e) = ''invalid process request: '' @ e"

type_synonym 'a tooling = "(disk, tool_error, 'a) act"

definition process_directory :: "path \<Rightarrow> (disk, process_error, path) act" where
  "process_directory p =
     and_then (map_err Process_Io (disk_canonicalize p)) (\<lambda>canonical.
     and_then (disk_is_dir canonical) (\<lambda>dir.
     if dir then ok canonical
     else err (Process_Invalid (''`'' @ path_display canonical @ ''` is not a directory''))))"

definition string_argument :: "json \<Rightarrow> string \<Rightarrow> string tooling" where
  "string_argument arguments name =
     (case jfield as_str arguments name of
        Some s \<Rightarrow> ok s
      | None \<Rightarrow> err (InvalidArguments (''`'' @ name @ ''` must be a string'')))"

definition path_argument :: "json \<Rightarrow> string \<Rightarrow> path tooling" where
  "path_argument arguments name = and_then (string_argument arguments name) (\<lambda>s. ok (path_components s))"

text \<open>Every component is \<open>Component::Normal\<close>: no root, no \<open>.\<close> in front, no \<open>..\<close> anywhere.\<close>

definition relative_path :: "string \<Rightarrow> bool" where
  "relative_path s \<longleftrightarrow> s \<noteq> [] \<and> hd s \<noteq> slash \<and> takeWhile (\<lambda>c. c \<noteq> slash) s \<noteq> ''.'' \<and>
     dotdot \<notin> set (path_components s)"

definition validate_relative :: "string \<Rightarrow> unit tooling" where
  "validate_relative s =
     (if relative_path s then ok ()
      else err (InvalidArguments ''path must be a non-empty relative path without `..`''))"

definition resolve_existing_file :: "path \<Rightarrow> string \<Rightarrow> path tooling" where
  "resolve_existing_file workspace requested =
     and_then (validate_relative requested) (\<lambda>_.
     and_then (map_err InvalidArguments (disk_canonicalize (path_join workspace requested))) (\<lambda>canonical.
     if \<not> path_starts_with canonical workspace
     then err (InvalidArguments ''path is not a file inside the workspace'')
     else and_then (disk_is_file canonical) (\<lambda>file.
       if file then ok canonical else err (InvalidArguments ''path is not a file inside the workspace''))))"

text \<open>The ancestors of a target, the nearest first, until one exists.\<close>

fun verify_ancestor :: "path \<Rightarrow> path \<Rightarrow> nat \<Rightarrow> unit tooling" where
  "verify_ancestor workspace target n =
     and_then (disk_exists (take n target)) (\<lambda>there.
     if there
     then and_then (map_err InvalidArguments (disk_canonicalize (take n target))) (\<lambda>canonical.
       if path_starts_with canonical workspace then ok ()
       else err (InvalidArguments ''write target traverses a symlink outside the workspace''))
     else case n of 0 \<Rightarrow> ok () | Suc m \<Rightarrow> verify_ancestor workspace target m)"

definition verify_write_target :: "path \<Rightarrow> path \<Rightarrow> unit tooling" where
  "verify_write_target workspace target =
     (if \<not> path_starts_with target workspace then err (InvalidArguments ''write target is outside the workspace'')
      else and_then (if target = root_folder then ok () else verify_ancestor workspace target (length target - 1)) (\<lambda>_.
        and_then (disk_exists target) (\<lambda>there.
        if \<not> there then ok ()
        else and_then (map_err InvalidArguments (disk_canonicalize target)) (\<lambda>canonical.
          if path_starts_with canonical workspace then ok ()
          else err (InvalidArguments ''write target resolves outside the workspace'')))))"

definition resolve_write_target :: "path \<Rightarrow> string \<Rightarrow> path tooling" where
  "resolve_write_target workspace requested =
     and_then (validate_relative requested) (\<lambda>_.
     let target = path_join workspace requested
     in and_then (verify_write_target workspace target) (\<lambda>_. ok target))"

definition path_json :: "path \<Rightarrow> json" where
  "path_json p = JString (path_display p)"

definition refuse_cancelled_tool :: "unit tooling" where
  "refuse_cancelled_tool = and_then disk_cancelled (\<lambda>cancelled. if cancelled then err Tool_Cancelled else ok ())"

abbreviation failing :: "(disk, string, 'a) act \<Rightarrow> 'a tooling" where
  "failing m \<equiv> map_err Execution m"

section \<open>Reading a file\<close>

record file_tool =
  ft_workspace :: path
  ft_maximum_bytes :: u64

definition file_tool_new :: "path \<Rightarrow> (disk, process_error, file_tool) act" where
  "file_tool_new workspace =
     and_then (process_directory workspace) (\<lambda>w. ok \<lparr>ft_workspace = w, ft_maximum_bytes = 1048576\<rparr>)"

definition with_maximum_bytes :: "file_tool \<Rightarrow> u64 \<Rightarrow> file_tool" where
  "with_maximum_bytes t maximum = t\<lparr>ft_maximum_bytes := max maximum 1\<rparr>"

definition string_schema :: json where
  "string_schema = jobject [(''type'', JString ''string'')]"

definition object_schema :: "(string \<times> json) list \<Rightarrow> string list \<Rightarrow> json" where
  "object_schema properties required =
     jobject [(''type'', JString ''object''), (''properties'', jobject properties),
       (''required'', JArray (map JString required)), (''additionalProperties'', JBool False)]"

definition read_file_definition :: tool_definition where
  "read_file_definition =
     \<lparr>td_name = ''read_file'', td_description = ''Read a UTF-8 file inside the workspace'',
      td_input_schema = object_schema [(''path'', string_schema)] [''path'']\<rparr>"

definition read_file_prepare :: "file_tool \<Rightarrow> tool_call \<Rightarrow> prepared_tool_call tooling" where
  "read_file_prepare t call =
     and_then (string_argument (tc_arguments call) ''path'') (\<lambda>requested.
     and_then (resolve_existing_file (ft_workspace t) requested) (\<lambda>p.
     ok \<lparr>pc_call_id = tc_id call,
         pc_action = in_scope (CanonicalAction_new ''read_file''
           (jobject [(''path'', path_json p), (''maximum_bytes'', JUint (ft_maximum_bytes t))]) ReadOnly Retry_Safe)
           (path_display (ft_workspace t))\<rparr>))"

definition read_file_execute :: "prepared_tool_call \<Rightarrow> json tooling" where
  "read_file_execute prepared =
     and_then refuse_cancelled_tool (\<lambda>_.
     and_then (path_argument (ca_arguments (pc_action prepared)) ''path'') (\<lambda>p.
     case jfield as_u64 (ca_arguments (pc_action prepared)) ''maximum_bytes'' of
       None \<Rightarrow> err (Execution ''invalid maximum_bytes'')
     | Some maximum \<Rightarrow>
         and_then (failing (disk_open p)) (\<lambda>h.
         and_then (failing (handle_read h (unat (saturating_add maximum 1)))) (\<lambda>bytes.
         if unat maximum < length bytes
         then err (Execution (''file exceeds '' @ dec (unat maximum) @ '' byte limit''))
         else if \<not> valid_utf8 bytes then err (Execution ''file is not valid UTF-8'')
         else ok (jobject [(''path'', path_json p), (''content'', JString bytes)])))))"

section \<open>Writing a file\<close>

definition write_file_definition :: tool_definition where
  "write_file_definition =
     \<lparr>td_name = ''write_file'', td_description = ''Write a UTF-8 file inside the workspace'',
      td_input_schema = object_schema [(''path'', string_schema), (''content'', string_schema),
        (''create_directories'', jobject [(''type'', JString ''boolean'')])] [''path'', ''content'']\<rparr>"

definition wants_directories :: "json \<Rightarrow> bool" where
  "wants_directories arguments \<longleftrightarrow> jfield as_bool arguments ''create_directories'' = Some True"

definition write_file_prepare :: "file_tool \<Rightarrow> tool_call \<Rightarrow> prepared_tool_call tooling" where
  "write_file_prepare t call =
     and_then (string_argument (tc_arguments call) ''path'') (\<lambda>requested.
     and_then (string_argument (tc_arguments call) ''content'') (\<lambda>content.
     if unat (ft_maximum_bytes t) < length content
     then err (InvalidArguments (''content exceeds '' @ dec (unat (ft_maximum_bytes t)) @ '' byte limit''))
     else and_then (resolve_write_target (ft_workspace t) requested) (\<lambda>p.
       ok \<lparr>pc_call_id = tc_id call,
           pc_action = in_scope (CanonicalAction_new ''write_file''
             (jobject [(''path'', path_json p), (''content'', JString content),
               (''create_directories'', JBool (wants_directories (tc_arguments call)))]) WorkspaceWrite Retry_Idempotent)
             (path_display (ft_workspace t))\<rparr>)))"

definition write_file_execute :: "file_tool \<Rightarrow> prepared_tool_call \<Rightarrow> json tooling" where
  "write_file_execute t prepared =
     (let args = ca_arguments (pc_action prepared) in
      and_then refuse_cancelled_tool (\<lambda>_.
      and_then (path_argument args ''path'') (\<lambda>p.
      and_then (string_argument args ''content'') (\<lambda>content.
      and_then (verify_write_target (ft_workspace t) p) (\<lambda>_.
      case path_parent p of
        None \<Rightarrow> err (Execution ''write target has no parent'')
      | Some parent \<Rightarrow>
          and_then
            (if wants_directories args
             then and_then (failing (create_dir_all parent)) (\<lambda>_. verify_write_target (ft_workspace t) p)
             else ok ()) (\<lambda>_.
          and_then (failing (disk_open_truncated p)) (\<lambda>h.
          and_then (failing (handle_write h content)) (\<lambda>_.
          and_then (failing disk_io) (\<lambda>_.
          ok (jobject [(''path'', path_json p), (''bytes_written'', JUint (of_nat (length content)))]))))))))))"

declare verify_ancestor.simps [simp del]

end
