(* ===== verification/Process.thy ===== *)
theory Process
  imports Workspace
begin

text \<open>
  Running a command with a deadline (crates/executor-process/src/lib.rs, unix): the child's two pipes,
  drained in batches without blocking, its exit, the clock, the token and the signals to its group.
  What the child and the system do is given by the world: the pieces that each read finds, the answers
  of each look at the child, the readings left on the clock. The clock does not stand still: after its
  last reading every deadline has passed.
\<close>

section \<open>The world of a process\<close>

datatype stream = Stdout | Stderr

datatype piece = Piece string | Would_block | Interrupted_read | Failed_read string

datatype child_state = Running | Has_exited | Interrupted_wait | Failed_wait string

record command =
  cm_program :: string
  cm_arguments :: "string list"
  cm_directory :: "path option"
  cm_clear_environment :: bool

datatype process_step = Spawned command | Signalled_group | Killed_child | Reaped

record process_world =
  pw_disk :: disk
  pw_clock :: "nat list" \<comment> \<open>the readings to come, in milliseconds\<close>
  pw_pieces :: "stream \<Rightarrow> nat \<Rightarrow> piece" \<comment> \<open>what the n-th read of a pipe finds\<close>
  pw_reads :: "stream \<Rightarrow> nat"
  pw_child :: "nat \<Rightarrow> child_state" \<comment> \<open>what the n-th look at the child finds\<close>
  pw_child_looks :: nat
  pw_pid :: nat
  pw_exit_code :: "int option"
  pw_steps :: "process_step list" \<comment> \<open>what was done, for the statements\<close>

type_synonym 'a running = "(process_world, process_error, 'a) act"

definition on_files :: "(disk, 'e, 'a) act \<Rightarrow> (process_world, 'e, 'a) act" where
  "on_files m w = (case m (pw_disk w) of (r, d) \<Rightarrow> (r, w\<lparr>pw_disk := d\<rparr>))"

definition did :: "process_step \<Rightarrow> (process_world, 'e, unit) act" where
  "did s = writes (\<lambda>w. w\<lparr>pw_steps := pw_steps w @ [s]\<rparr>)"

abbreviation process_cancelled :: "(process_world, 'e, bool) act" where
  "process_cancelled \<equiv> on_files disk_cancelled"

abbreviation process_io :: "unit running" where
  "process_io \<equiv> on_files (map_err Process_Io disk_io)"

text \<open>\<open>Instant::now()\<close>; none is past the last reading.\<close>

definition instant_now :: "(process_world, 'e, nat option) act" where
  "instant_now w =
     (case pw_clock w of [] \<Rightarrow> (Inr None, w) | t # ts \<Rightarrow> (Inr (Some t), w\<lparr>pw_clock := ts\<rparr>))"

fun passed :: "nat option \<Rightarrow> nat \<Rightarrow> nat option \<Rightarrow> bool" where
  "passed (Some start) limit (Some now) \<longleftrightarrow> limit \<le> now - start"
| "passed _ limit _ \<longleftrightarrow> True"

section \<open>Pipes\<close>

record captured_pipe =
  cp_reader :: stream
  cp_retained :: string
  cp_maximum :: nat
  cp_truncated :: bool
  cp_eof :: bool

definition CapturedPipe_new :: "stream \<Rightarrow> nat \<Rightarrow> captured_pipe running" where
  "CapturedPipe_new reader maximum =
     and_then process_io (\<lambda>_. ok \<lparr>cp_reader = reader, cp_retained = [], cp_maximum = maximum,
       cp_truncated = False, cp_eof = False\<rparr>)"

text \<open>One read into a buffer of 8192 bytes; nothing read is the end of the file.\<close>

definition read_piece :: "stream \<Rightarrow> (process_world, 'e, piece) act" where
  "read_piece s w =
     (Inr (case pw_pieces w s (pw_reads w s) of Piece bytes \<Rightarrow> Piece (take 8192 bytes) | p \<Rightarrow> p),
      w\<lparr>pw_reads := (pw_reads w)(s := Suc (pw_reads w s))\<rparr>)"

definition retain_bytes :: "string \<Rightarrow> captured_pipe \<Rightarrow> captured_pipe" where
  "retain_bytes bytes p =
     (let remaining = cp_maximum p - length (cp_retained p)
      in p\<lparr>cp_retained := cp_retained p @ take remaining bytes,
           cp_truncated := cp_truncated p \<or> remaining < length bytes\<rparr>)"

fun drain_batch :: "nat \<Rightarrow> captured_pipe \<Rightarrow> captured_pipe running" where
  "drain_batch 0 p = ok p"
| "drain_batch (Suc n) p =
     and_then (read_piece (cp_reader p)) (\<lambda>piece. case piece of
       Piece bytes \<Rightarrow> if bytes = [] then ok (p\<lparr>cp_eof := True\<rparr>) else drain_batch n (retain_bytes bytes p)
     | Would_block \<Rightarrow> ok p
     | Interrupted_read \<Rightarrow> drain_batch n p
     | Failed_read e \<Rightarrow> err (Process_Io e))"

definition drain :: "captured_pipe \<Rightarrow> captured_pipe running" where
  "drain p = (if cp_eof p then ok p else drain_batch 32 p)"

section \<open>The child\<close>

definition maximum_pid :: nat where
  "maximum_pid = 2147483647"

text \<open>\<open>kill(-pid, SIGKILL)\<close>; that there is no such group is no error.\<close>

definition kill_process_group :: "unit running" where
  "kill_process_group =
     and_then (reads pw_pid) (\<lambda>pid.
     if maximum_pid < pid then err (Process_Io ''out of range integral type conversion attempted'')
     else and_then (did Signalled_group) (\<lambda>_. process_io))"

definition child_has_exited :: "bool running" where
  "child_has_exited =
     and_then (reads (\<lambda>w. pw_child w (pw_child_looks w))) (\<lambda>state.
     and_then (writes (\<lambda>w. w\<lparr>pw_child_looks := Suc (pw_child_looks w)\<rparr>)) (\<lambda>_.
     case state of
       Running \<Rightarrow> ok False
     | Has_exited \<Rightarrow> ok True
     | Interrupted_wait \<Rightarrow> ok False
     | Failed_wait e \<Rightarrow> err (Process_Io e)))"

record process_output =
  po_exit_code :: "int option"
  po_stdout :: string
  po_stderr :: string
  po_timed_out :: bool
  po_stdout_truncated :: bool
  po_stderr_truncated :: bool

record capture =
  ca_out :: captured_pipe
  ca_err :: captured_pipe
  ca_exited :: bool
  ca_cleanup :: "nat option option" \<comment> \<open>when the clean-up began\<close>
  ca_timed_out :: bool
  ca_cancelled :: bool

definition output_cleanup_timeout :: nat where
  "output_cleanup_timeout = 250"

text \<open>\<open>exited || cancellation.is_cancelled() || start.elapsed() >= timeout\<close>, in this order\<close>

definition cleanup_due :: "nat option \<Rightarrow> nat \<Rightarrow> bool \<Rightarrow> bool running" where
  "cleanup_due start limit exited =
     (if exited then ok True
      else and_then process_cancelled (\<lambda>cancelled.
        if cancelled then ok True
        else and_then instant_now (\<lambda>now. ok (passed start limit now))))"

definition begin_cleanup :: "nat option \<Rightarrow> nat \<Rightarrow> capture \<Rightarrow> capture running" where
  "begin_cleanup start limit c =
     (if ca_cleanup c \<noteq> None then ok c
      else and_then (cleanup_due start limit (ca_exited c)) (\<lambda>due.
        if \<not> due then ok c
        else and_then process_cancelled (\<lambda>cancelled.
          and_then kill_process_group (\<lambda>_.
          and_then instant_now (\<lambda>now.
          ok (c\<lparr>ca_cancelled := cancelled, ca_timed_out := \<not> ca_exited c \<and> \<not> cancelled, ca_cleanup := Some now\<rparr>))))))"

text \<open>One round of the loop; the flag says that it was the last.\<close>

definition capture_round :: "nat option \<Rightarrow> nat \<Rightarrow> capture \<Rightarrow> (bool \<times> capture) running" where
  "capture_round start limit c =
     and_then (drain (ca_out c)) (\<lambda>out.
     and_then (drain (ca_err c)) (\<lambda>stderr.
     and_then (if ca_exited c then ok True else child_has_exited) (\<lambda>exited.
     and_then (begin_cleanup start limit (c\<lparr>ca_out := out, ca_err := stderr, ca_exited := exited\<rparr>)) (\<lambda>c.
     if ca_exited c \<and> cp_eof (ca_out c) \<and> cp_eof (ca_err c) then ok (True, c)
     else case ca_cleanup c of
       None \<Rightarrow> ok (False, c)
     | Some at \<Rightarrow>
         and_then instant_now (\<lambda>now.
         if \<not> passed at output_cleanup_timeout now then ok (False, c)
         else if \<not> ca_exited c then err (Process_Io ''process did not exit within the cleanup deadline'')
         else ok (True, c))))))"

section \<open>The loop ends\<close>

text \<open>No step puts readings back on the clock.\<close>

abbreviation clock_within :: "nat \<Rightarrow> process_world \<Rightarrow> bool" where
  "clock_within n w \<equiv> length (pw_clock w) \<le> n"

lemma clock_steps [frame]:
  "preserves (clock_within n) (on_files m)" "preserves (clock_within n) (did s)"
  "preserves (clock_within n) instant_now" "preserves (clock_within n) (read_piece r)"
  by (auto simp: preserves_def triple_def on_files_def did_def writes_def instant_now_def read_piece_def
      split: prod.split sum.split list.split)

lemma clock_drain [frame]: "preserves (clock_within n) (drain_batch k p)" "preserves (clock_within n) (drain p)"
proof -
  show batch: "preserves (clock_within n) (drain_batch k p)" for k p
    by (induction k p rule: drain_batch.induct) (auto intro!: frame split: piece.split)
  show "preserves (clock_within n) (drain p)" unfolding drain_def by (intro frame batch)
qed

lemma clock_child [frame]:
  "preserves (clock_within n) kill_process_group" "preserves (clock_within n) child_has_exited"
  unfolding kill_process_group_def child_has_exited_def
  by (auto intro!: frame preserves_writes split: child_state.split)

lemma clock_cleanup [frame]: "preserves (clock_within n) (begin_cleanup start limit c)"
  unfolding begin_cleanup_def cleanup_due_def by (intro frame)

lemma instant_now_ticks:
  "instant_now w = (Inr now, w') \<Longrightarrow> \<not> passed at limit now \<Longrightarrow> length (pw_clock w') < length (pw_clock w)"
  by (cases at) (auto simp: instant_now_def split: list.splits)

lemma and_then_value:
  "and_then m k s = (Inr b, s') \<longleftrightarrow> (\<exists>a t. m s = (Inr a, t) \<and> k a t = (Inr b, s'))"
  by (auto simp: and_then_def split: prod.split sum.split)

lemma preserves_value: "preserves I m \<Longrightarrow> m s = (Inr a, s') \<Longrightarrow> I s \<Longrightarrow> I s'"
  by (rule preservesD)

lemma begin_cleanup_kept:
  "begin_cleanup start limit c w = (Inr c', w') \<Longrightarrow> c' = c \<or> ca_cleanup c' \<noteq> None"
  by (auto simp: begin_cleanup_def and_then_value ok_def split: if_splits)

lemma begin_cleanup_ticks:
  assumes "begin_cleanup start limit c w = (Inr c', w')" and "ca_cleanup c' = None"
  shows "length (pw_clock w') < length (pw_clock w)"
proof -
  have c: "c' = c" using begin_cleanup_kept [OF assms(1)] assms(2) by simp
  have none: "ca_cleanup c = None" using assms(2) unfolding c .
  have moved: "c\<lparr>ca_cancelled := a, ca_timed_out := b, ca_cleanup := Some now\<rparr> \<noteq> c" for a b now
    using none by (metis capture.select_convs(4) capture.surjective capture.update_convs(4) option.distinct(1))
  from assms(1) none moved obtain w1 where due: "cleanup_due start limit (ca_exited c) w = (Inr False, w1)"
    and same: "w' = w1"
    unfolding c by (auto simp: begin_cleanup_def and_then_value ok_def split: if_splits)
  then obtain u now where u: "(process_cancelled :: bool running) w = (Inr False, u)"
    and now: "(instant_now :: nat option running) u = (Inr now, w1)"
    and wait: "\<not> passed start limit now"
    by (auto simp: cleanup_due_def and_then_value ok_def split: if_splits)
  have "clock_within (length (pw_clock w)) u" using preserves_value [OF clock_steps(1) u] by simp
  with instant_now_ticks [OF now wait] same show ?thesis by simp
qed

lemma capture_round_ticks:
  assumes "capture_round start limit c w = (Inr (False, c'), w')"
  shows "length (pw_clock w') < length (pw_clock w)"
proof -
  from assms obtain out w1 stderr w2 exited w3 c3 w4 where
    one: "drain (ca_out c) w = (Inr out, w1)" and two: "drain (ca_err c) w1 = (Inr stderr, w2)"
    and three: "(if ca_exited c then ok True else child_has_exited) w2 = (Inr exited, w3)"
    and four: "begin_cleanup start limit (c\<lparr>ca_out := out, ca_err := stderr, ca_exited := exited\<rparr>) w3 = (Inr c3, w4)"
    and last: "(if ca_exited c3 \<and> cp_eof (ca_out c3) \<and> cp_eof (ca_err c3) then ok (True, c3)
       else case ca_cleanup c3 of None \<Rightarrow> ok (False, c3)
       | Some at \<Rightarrow> and_then instant_now (\<lambda>now.
           if \<not> passed at output_cleanup_timeout now then ok (False, c3)
           else if \<not> ca_exited c3 then err (Process_Io ''process did not exit within the cleanup deadline'')
           else ok (True, c3))) w4 = (Inr (False, c'), w')"
    unfolding capture_round_def and_then_value by blast
  have look: "preserves (clock_within n) (if ca_exited c then ok True else child_has_exited :: bool running)" for n
    by (intro frame)
  have three: "length (pw_clock w3) \<le> length (pw_clock w)"
    using preserves_value [OF clock_drain(2) one, of "length (pw_clock w)"]
      preserves_value [OF clock_drain(2) two, of "length (pw_clock w)"]
      preserves_value [OF look three, of "length (pw_clock w)"] by simp
  have four_le: "length (pw_clock w4) \<le> length (pw_clock w3)"
    using preserves_value [OF clock_cleanup four, of "length (pw_clock w3)"] by simp
  show ?thesis
  proof (cases "ca_cleanup c3")
    case None
    with last have "w' = w4" by (auto simp: ok_def split: if_splits)
    with begin_cleanup_ticks [OF four None] three show ?thesis by simp
  next
    case (Some at)
    with last obtain now where "(instant_now :: nat option running) w4 = (Inr now, w')" "\<not> passed at output_cleanup_timeout now"
      by (auto simp: and_then_value ok_def err_def split: if_splits)
    from instant_now_ticks [OF this] three four_le show ?thesis by simp
  qed
qed

function capture_loop :: "nat option \<Rightarrow> nat \<Rightarrow> capture \<Rightarrow> capture running" where
  "capture_loop start limit c w =
     (case capture_round start limit c w of
        (Inl e, w') \<Rightarrow> (Inl e, w')
      | (Inr (True, c'), w') \<Rightarrow> (Inr c', w')
      | (Inr (False, c'), w') \<Rightarrow> capture_loop start limit c' w')"
  by pat_completeness auto
termination
  by (relation "measure (\<lambda>(_, _, _, w). length (pw_clock w))") (auto dest: capture_round_ticks [OF sym])

declare capture_loop.simps [simp del]

section \<open>Capturing and running\<close>

definition capture_process :: "u64 \<Rightarrow> nat \<Rightarrow> process_output running" where
  "capture_process timeout_ms maximum =
     and_then (CapturedPipe_new Stdout maximum) (\<lambda>out.
     and_then (CapturedPipe_new Stderr maximum) (\<lambda>stderr.
     and_then instant_now (\<lambda>start.
     and_then (capture_loop start (unat (max timeout_ms 1))
       \<lparr>ca_out = out, ca_err = stderr, ca_exited = False, ca_cleanup = None, ca_timed_out = False, ca_cancelled = False\<rparr>) (\<lambda>c.
     if ca_cancelled c then err Process_Cancelled
     else and_then process_io (\<lambda>_. and_then (did Reaped) (\<lambda>_. and_then (reads pw_exit_code) (\<lambda>code.
       ok \<lparr>po_exit_code = code, po_stdout = from_utf8_lossy (cp_retained (ca_out c)),
           po_stderr = from_utf8_lossy (cp_retained (ca_err c)), po_timed_out = ca_timed_out c,
           po_stdout_truncated = (cp_truncated (ca_out c) \<or> \<not> cp_eof (ca_out c)),
           po_stderr_truncated = (cp_truncated (ca_err c) \<or> \<not> cp_eof (ca_err c))\<rparr>)))))))"

definition run_command :: "command \<Rightarrow> u64 \<Rightarrow> nat \<Rightarrow> process_output running" where
  "run_command command timeout_ms maximum =
     and_then process_cancelled (\<lambda>cancelled.
     if cancelled then err Process_Cancelled
     else and_then process_io (\<lambda>_.
       and_then (did (Spawned command)) (\<lambda>_.
       attempt (capture_process timeout_ms maximum) (\<lambda>result.
       and_then
         (case result of
            Inr _ \<Rightarrow> ok ()
          | Inl _ \<Rightarrow>
              attempt kill_process_group (\<lambda>_.
              attempt (and_then (did Killed_child) (\<lambda>_. process_io)) (\<lambda>_. did Reaped))) (\<lambda>_.
       and_then process_cancelled (\<lambda>cancelled.
       if cancelled then err Process_Cancelled
       else case result of Inl e \<Rightarrow> err e | Inr output \<Rightarrow> ok output))))))"

end
