(* ===== verification/Editing.thy ===== *)
theory Editing
  imports Workspace
begin

text \<open>
  The editing tools of crates/executor-process/src/editing.rs: a page of a file, a literal search over
  named files, and the patch that replaces one unique text and is approved with the whole text before
  and after it.
\<close>

section \<open>Shared steps\<close>

definition max_file_bytes :: nat where
  "max_file_bytes = 1048576"

definition max_page_bytes :: nat where
  "max_page_bytes = 16384"

definition max_paths :: nat where
  "max_paths = 32"

definition max_matches :: nat where
  "max_matches = 100"

abbreviation invalid :: "string \<Rightarrow> 'a tooling" where
  "invalid m \<equiv> err (InvalidArguments m)"

definition read_text :: "path \<Rightarrow> string tooling" where
  "read_text h =
     and_then (failing (handle_is_file h)) (\<lambda>file.
     if \<not> file then invalid ''target must be a regular file''
     else and_then (failing (handle_read h (max_file_bytes + 1))) (\<lambda>bytes.
       if max_file_bytes < length bytes then invalid ''file exceeds 1 MiB limit''
       else if \<not> valid_utf8 bytes then invalid ''file is not valid UTF-8''
       else ok bytes))"

definition strip_root :: "path \<Rightarrow> path \<Rightarrow> path option" where
  "strip_root workspace p = (if path_starts_with p workspace then Some (drop (length workspace) p) else None)"

definition checked_path :: "path \<Rightarrow> path \<Rightarrow> path tooling" where
  "checked_path workspace p =
     (case strip_root workspace p of
        None \<Rightarrow> invalid ''path outside workspace''
      | Some relative \<Rightarrow>
          and_then (resolve_existing_file workspace (path_relative relative)) (\<lambda>current.
          if current \<noteq> p then invalid ''prepared path changed; prepare a new call'' else ok current))"

definition number :: "json \<Rightarrow> string \<Rightarrow> nat \<Rightarrow> nat \<Rightarrow> nat tooling" where
  "number args key preset maximum =
     (case jget args key of
        None \<Rightarrow> ok preset
      | Some v \<Rightarrow>
          (case Option.bind (as_u64 v) (\<lambda>n. if unat n \<le> maximum then Some (unat n) else None) of
             Some n \<Rightarrow> ok n
           | None \<Rightarrow> invalid (''invalid `'' @ key @ ''`'')))"

definition prepared_edit :: "tool_call \<Rightarrow> string \<Rightarrow> json \<Rightarrow> path \<Rightarrow> bool \<Rightarrow> prepared_tool_call" where
  "prepared_edit call name args workspace writing =
     \<lparr>pc_call_id = tc_id call,
      pc_action = in_scope (CanonicalAction_new name args
        (if writing then WorkspaceWrite else ReadOnly) (if writing then Retry_Unsafe else Retry_Safe))
        (path_display workspace)\<rparr>"

section \<open>Reading a page\<close>

definition integer_schema :: "nat \<Rightarrow> nat option \<Rightarrow> json" where
  "integer_schema minimum maximum =
     jobject ([(''type'', JString ''integer''), (''minimum'', JUint (of_nat minimum))]
       @ (case maximum of None \<Rightarrow> [] | Some n \<Rightarrow> [(''maximum'', JUint (of_nat n))]))"

definition read_file_page_definition :: tool_definition where
  "read_file_page_definition =
     \<lparr>td_name = ''read_file_page'',
      td_description = ''Read a UTF-8 byte page (files at most 1 MiB); follow next_offset. Pages are live reads.'',
      td_input_schema = object_schema [(''path'', string_schema), (''offset'', integer_schema 0 None),
        (''limit'', integer_schema 4 (Some max_page_bytes))] [''path'']\<rparr>"

definition read_file_page_prepare :: "path \<Rightarrow> tool_call \<Rightarrow> prepared_tool_call tooling" where
  "read_file_page_prepare workspace call =
     and_then (string_argument (tc_arguments call) ''path'') (\<lambda>requested.
     and_then (resolve_existing_file workspace requested) (\<lambda>p.
     and_then (number (tc_arguments call) ''offset'' 0 max_file_bytes) (\<lambda>offset.
     and_then (number (tc_arguments call) ''limit'' 4096 max_page_bytes) (\<lambda>limit.
     if limit < 4 then invalid ''limit must be at least 4 bytes''
     else ok (prepared_edit call ''read_file_page''
       (jobject [(''path'', path_json p), (''offset'', JUint (of_nat offset)), (''limit'', JUint (of_nat limit))])
       workspace False)))))"

text \<open>\<open>while !is_char_boundary(end) { end -= 1 }\<close>\<close>

fun back_to_boundary :: "string \<Rightarrow> nat \<Rightarrow> nat" where
  "back_to_boundary s 0 = 0"
| "back_to_boundary s (Suc n) = (if is_char_boundary s (Suc n) then Suc n else back_to_boundary s n)"

definition file_page_json :: "path \<Rightarrow> string \<Rightarrow> nat \<Rightarrow> nat \<Rightarrow> json" where
  "file_page_json p content offset until =
     jobject [(''path'', path_json p), (''content'', JString (take (until - offset) (drop offset content))),
       (''offset'', JUint (of_nat offset)),
       (''next_offset'', if until < length content then JUint (of_nat until) else JNull),
       (''total_bytes'', JUint (of_nat (length content)))]"

definition read_file_page_execute :: "path \<Rightarrow> prepared_tool_call \<Rightarrow> json tooling" where
  "read_file_page_execute workspace prepared =
     (let args = ca_arguments (pc_action prepared) in
      and_then refuse_cancelled_tool (\<lambda>_.
      and_then (and_then (path_argument args ''path'') (checked_path workspace)) (\<lambda>p.
      and_then (and_then (failing (disk_open p)) read_text) (\<lambda>content.
      and_then (number args ''offset'' 0 max_file_bytes) (\<lambda>offset.
      and_then (number args ''limit'' 4096 max_page_bytes) (\<lambda>limit.
      if limit < 4 \<or> length content < offset \<or> \<not> is_char_boundary content offset
      then invalid ''invalid page bounds or UTF-8 offset''
      else ok (file_page_json p content offset
        (back_to_boundary content (min (offset + limit) (length content))))))))))"

section \<open>Searching\<close>

definition search_files_definition :: tool_definition where
  "search_files_definition =
     \<lparr>td_name = ''search_files'',
      td_description = ''Search a literal within up to 32 UTF-8 files (1 MiB each). Returns up to 100 matching lines and bounded excerpts.'',
      td_input_schema = object_schema
        [(''paths'', jobject [(''type'', JString ''array''), (''items'', string_schema), (''minItems'', JUint 1),
            (''maxItems'', JUint (of_nat max_paths))]),
         (''query'', jobject [(''type'', JString ''string''), (''minLength'', JUint 1), (''maxLength'', JUint 1024)])]
        [''paths'', ''query'']\<rparr>"

fun resolve_paths :: "path \<Rightarrow> json list \<Rightarrow> path list tooling" where
  "resolve_paths workspace [] = ok []"
| "resolve_paths workspace (v # vs) =
     (case as_str v of
        None \<Rightarrow> invalid ''path must be a string''
      | Some s \<Rightarrow>
          and_then (resolve_existing_file workspace s) (\<lambda>p.
          and_then (resolve_paths workspace vs) (\<lambda>ps. ok (p # ps))))"

definition search_files_prepare :: "path \<Rightarrow> tool_call \<Rightarrow> prepared_tool_call tooling" where
  "search_files_prepare workspace call =
     and_then (string_argument (tc_arguments call) ''query'') (\<lambda>query.
     if query = [] \<or> 1024 < length query \<or> newline \<in> set query \<or> carriage_return \<in> set query
     then invalid ''query must be a single nonempty line of at most 1024 bytes''
     else case jfield as_array (tc_arguments call) ''paths'' of
       None \<Rightarrow> invalid ''paths must be an array''
     | Some vs \<Rightarrow>
         if vs = [] \<or> max_paths < length vs then invalid ''provide 1 to 32 paths''
         else and_then (resolve_paths workspace vs) (\<lambda>ps.
           ok (prepared_edit call ''search_files''
             (jobject [(''paths'', JArray (map path_json ps)), (''query'', JString query)]) workspace False)))"

definition match_json :: "path \<Rightarrow> nat \<Rightarrow> nat \<Rightarrow> string \<Rightarrow> json" where
  "match_json relative line_number offset rest =
     jobject [(''path'', JString (path_relative relative)), (''line'', JUint (of_nat line_number)),
       (''offset'', JUint (of_nat offset)), (''excerpt'', JString (take_chars 200 rest))]"

text \<open>The lines of one file; the flag says that the search ended because a match found no room.\<close>

fun search_lines ::
  "path option \<Rightarrow> string \<Rightarrow> nat \<Rightarrow> nat \<Rightarrow> string list \<Rightarrow> json list \<Rightarrow> (bool \<times> json list) tooling" where
  "search_lines relative query index offset [] matches = ok (False, matches)"
| "search_lines relative query index offset (l # ls) matches =
     (case find_text query l of
        None \<Rightarrow> search_lines relative query (Suc index) (offset + length l) ls matches
      | Some column \<Rightarrow>
          if length matches = max_matches then ok (True, matches)
          else case relative of
            None \<Rightarrow> invalid ''path outside workspace''
          | Some r \<Rightarrow>
              search_lines relative query (Suc index) (offset + length l) ls
                (matches @ [match_json r (index + 1) (offset + column) (drop column l)]))"

fun search_paths :: "path \<Rightarrow> string \<Rightarrow> path list \<Rightarrow> json list \<Rightarrow> (bool \<times> json list) tooling" where
  "search_paths workspace query [] matches = ok (False, matches)"
| "search_paths workspace query (p # ps) matches =
     and_then refuse_cancelled_tool (\<lambda>_.
     and_then (checked_path workspace p) (\<lambda>current.
     and_then (and_then (failing (disk_open current)) read_text) (\<lambda>content.
     and_then (search_lines (strip_root workspace current) query 0 0 (split_lines content) matches) (\<lambda>found.
     if fst found then ok found else search_paths workspace query ps (snd found)))))"

text \<open>\<open>serde_json::from_value::<Vec<PathBuf>>\<close>; the text of its error is a parameter.\<close>

fun decode_paths :: "json list \<Rightarrow> path list option" where
  "decode_paths [] = Some []"
| "decode_paths (v # vs) =
     (case (as_str v, decode_paths vs) of
        (Some s, Some ps) \<Rightarrow> Some (path_components s # ps)
      | _ \<Rightarrow> None)"

definition search_files_execute :: "(json \<Rightarrow> string) \<Rightarrow> path \<Rightarrow> prepared_tool_call \<Rightarrow> json tooling" where
  "search_files_execute decode_error workspace prepared =
     (let args = ca_arguments (pc_action prepared);
          paths = (case jget args ''paths'' of Some v \<Rightarrow> v | None \<Rightarrow> JNull)
      in case Option.bind (as_array paths) decode_paths of
           None \<Rightarrow> invalid (decode_error paths)
         | Some ps \<Rightarrow>
             and_then (string_argument args ''query'') (\<lambda>query.
             and_then (search_paths workspace query ps []) (\<lambda>found.
             ok (jobject [(''matches'', JArray (snd found)), (''truncated'', JBool (fst found))]))))"

section \<open>Patching\<close>

definition apply_patch_definition :: tool_definition where
  "apply_patch_definition =
     \<lparr>td_name = ''apply_patch'',
      td_description = ''Replace one unique exact old_text with new_text in an existing UTF-8 file. Stale or ambiguous text fails; approval binds full before/after content.'',
      td_input_schema = object_schema [(''path'', string_schema),
        (''old_text'', jobject [(''type'', JString ''string''), (''minLength'', JUint 1)]), (''new_text'', string_schema)]
        [''path'', ''old_text'', ''new_text'']\<rparr>"

text \<open>The text after the patch: \<open>old\<close> must be there once, overlapping occurrences counted.\<close>

definition patch_text :: "string \<Rightarrow> string \<Rightarrow> string \<Rightarrow> string tooling" where
  "patch_text before old new =
     (case find_text old before of
        None \<Rightarrow> invalid ''patch conflict: old_text not found''
      | Some start \<Rightarrow>
          let after_first = start + first_char_length (drop start before) in
          if contains_literal (drop after_first before) old then invalid ''patch conflict: old_text is ambiguous''
          else let after = take start before @ new @ drop (start + length old) before
            in if max_file_bytes < length after then invalid ''patched file exceeds 1 MiB'' else ok after)"

definition apply_patch_prepare :: "path \<Rightarrow> tool_call \<Rightarrow> prepared_tool_call tooling" where
  "apply_patch_prepare workspace call =
     and_then (and_then (string_argument (tc_arguments call) ''path'') (resolve_existing_file workspace)) (\<lambda>p.
     and_then (string_argument (tc_arguments call) ''old_text'') (\<lambda>old.
     and_then (string_argument (tc_arguments call) ''new_text'') (\<lambda>new.
     if old = [] \<or> max_file_bytes < length old \<or> max_file_bytes < length new
     then invalid ''invalid patch size or empty old_text''
     else and_then (and_then (failing (disk_open p)) read_text) (\<lambda>before.
       and_then (patch_text before old new) (\<lambda>after.
       ok (prepared_edit call ''apply_patch''
         (jobject [(''path'', path_json p), (''before'', JString before), (''after'', JString after),
           (''old_text'', JString old), (''new_text'', JString new)]) workspace True))))))"

definition apply_patch_execute :: "path \<Rightarrow> prepared_tool_call \<Rightarrow> json tooling" where
  "apply_patch_execute workspace prepared =
     (let args = ca_arguments (pc_action prepared) in
      and_then refuse_cancelled_tool (\<lambda>_.
      and_then (and_then (path_argument args ''path'') (checked_path workspace)) (\<lambda>p.
      and_then (string_argument args ''before'') (\<lambda>before.
      and_then (string_argument args ''after'') (\<lambda>after.
      and_then (failing (disk_open_existing p)) (\<lambda>h.
      and_then (read_text h) (\<lambda>content.
      if content \<noteq> before then invalid ''patch conflict: file changed after preparation''
      else and_then (failing disk_io) (\<lambda>_.
        and_then refuse_cancelled_tool (\<lambda>_.
        and_then (map_err OutcomeUnknown
          (and_then (handle_write h after) (\<lambda>_.
           and_then (handle_set_len h (length after)) (\<lambda>_. disk_io)))) (\<lambda>_.
        ok (jobject [(''path'', path_json p), (''bytes_written'', JUint (of_nat (length after)))])))))))))))"

section \<open>Registration\<close>

definition ReadFileTool :: "file_tool \<Rightarrow> disk tool" where
  "ReadFileTool t = \<lparr>t_definition = read_file_definition, t_prepare = (\<lambda>call _. read_file_prepare t call),
     t_execute = (\<lambda>prepared _. read_file_execute prepared)\<rparr>"

definition WriteFileTool :: "file_tool \<Rightarrow> disk tool" where
  "WriteFileTool t = \<lparr>t_definition = write_file_definition, t_prepare = (\<lambda>call _. write_file_prepare t call),
     t_execute = (\<lambda>prepared _. write_file_execute t prepared)\<rparr>"

definition ReadFilePageTool :: "path \<Rightarrow> disk tool" where
  "ReadFilePageTool w = \<lparr>t_definition = read_file_page_definition,
     t_prepare = (\<lambda>call _. read_file_page_prepare w call), t_execute = (\<lambda>prepared _. read_file_page_execute w prepared)\<rparr>"

definition SearchFilesTool :: "(json \<Rightarrow> string) \<Rightarrow> path \<Rightarrow> disk tool" where
  "SearchFilesTool decode_error w = \<lparr>t_definition = search_files_definition,
     t_prepare = (\<lambda>call _. search_files_prepare w call),
     t_execute = (\<lambda>prepared _. search_files_execute decode_error w prepared)\<rparr>"

definition ApplyPatchTool :: "path \<Rightarrow> disk tool" where
  "ApplyPatchTool w = \<lparr>t_definition = apply_patch_definition,
     t_prepare = (\<lambda>call _. apply_patch_prepare w call), t_execute = (\<lambda>prepared _. apply_patch_execute w prepared)\<rparr>"

end
