(* ===== verification/Shell.thy ===== *)
theory Shell
  imports Process Editing
begin

text \<open>
  The runners of a prepared shell command, the bubblewrap command line and the shell tool
  (crates/executor-process/src/lib.rs). The token that a tool's
  context holds is the one its runner watches.
\<close>

section \<open>Runners\<close>

record process_request =
  pr_command :: string
  pr_working_directory :: path
  pr_timeout_ms :: u64

type_synonym process_runner = "process_request \<Rightarrow> process_output running"

text \<open>\<open>run_controlled\<close> of a runner that has only \<open>run\<close>\<close>

definition controlled_default :: "process_runner \<Rightarrow> process_runner" where
  "controlled_default run request =
     and_then process_cancelled (\<lambda>cancelled.
     if cancelled then err Process_Cancelled
     else attempt (run request) (\<lambda>output.
       and_then process_cancelled (\<lambda>cancelled.
       if cancelled then err Process_Cancelled
       else case output of Inl e \<Rightarrow> err e | Inr out \<Rightarrow> ok out)))"

definition shell_program :: string where
  "shell_program = ''/bin/sh''"

definition LocalProcessRunner :: "nat \<Rightarrow> process_runner" where
  "LocalProcessRunner maximum request =
     and_then process_cancelled (\<lambda>cancelled.
     if cancelled then err Process_Cancelled
     else run_command \<lparr>cm_program = shell_program, cm_arguments = [''-lc'', pr_command request],
         cm_directory = Some (pr_working_directory request), cm_clear_environment = False\<rparr>
       (pr_timeout_ms request) maximum)"

record bubblewrap =
  bw_binary :: string
  bw_workspace :: path
  bw_maximum_output_bytes :: nat
  bw_allow_network :: bool
  bw_read_only_binds :: "path list"

definition bubblewrap_new :: "path \<Rightarrow> nat \<Rightarrow> (process_world, process_error, bubblewrap) act" where
  "bubblewrap_new workspace maximum =
     and_then (on_files (process_directory workspace)) (\<lambda>w.
     ok \<lparr>bw_binary = ''bwrap'', bw_workspace = w, bw_maximum_output_bytes = maximum, bw_allow_network = False,
         bw_read_only_binds = []\<rparr>)"

definition with_binary :: "bubblewrap \<Rightarrow> string \<Rightarrow> bubblewrap" where
  "with_binary b binary = b\<lparr>bw_binary := binary\<rparr>"

definition with_network :: "bubblewrap \<Rightarrow> bool \<Rightarrow> bubblewrap" where
  "with_network b allow = b\<lparr>bw_allow_network := allow\<rparr>"

definition with_read_only_bind :: "bubblewrap \<Rightarrow> path \<Rightarrow> bubblewrap" where
  "with_read_only_bind b p = b\<lparr>bw_read_only_binds := bw_read_only_binds b @ [p]\<rparr>"

definition system_paths :: "path list" where
  "system_paths = [[''usr''], [''bin''], [''lib''], [''lib64'']]"

definition ro_bind :: "path \<Rightarrow> string list" where
  "ro_bind p = [''--ro-bind'', path_display p, path_display p]"

fun system_binds :: "path list \<Rightarrow> (process_world, process_error, string list) act" where
  "system_binds [] = ok []"
| "system_binds (p # ps) =
     and_then (on_files (disk_exists p)) (\<lambda>there.
     and_then (system_binds ps) (\<lambda>rest. ok ((if there then ro_bind p else []) @ rest)))"

fun additional_binds :: "path list \<Rightarrow> (process_world, process_error, string list) act" where
  "additional_binds [] = ok []"
| "additional_binds (p # ps) =
     and_then (on_files (map_err Process_Io (disk_canonicalize p))) (\<lambda>canonical.
     and_then (additional_binds ps) (\<lambda>rest. ok (ro_bind canonical @ rest)))"

definition bubblewrap_arguments ::
  "bubblewrap \<Rightarrow> process_request \<Rightarrow> (process_world, process_error, string list) act" where
  "bubblewrap_arguments b request =
     and_then (on_files (map_err Process_Io (disk_canonicalize (pr_working_directory request)))) (\<lambda>cwd.
     if \<not> path_starts_with cwd (bw_workspace b)
     then err (Process_Invalid (''working directory `'' @ path_display cwd @ ''` is outside sandbox workspace `''
       @ path_display (bw_workspace b) @ ''`''))
     else and_then (system_binds system_paths) (\<lambda>system.
       and_then (additional_binds (bw_read_only_binds b)) (\<lambda>additional.
       ok ([''--die-with-parent'', ''--new-session'', ''--unshare-all'']
         @ (if bw_allow_network b then [''--share-net''] else [])
         @ system @ additional
         @ [''--proc'', ''/proc'', ''--dev'', ''/dev'', ''--tmpfs'', ''/tmp'',
            ''--bind'', path_display (bw_workspace b), path_display (bw_workspace b),
            ''--chdir'', path_display cwd, shell_program, ''-lc'', pr_command request]))))"

definition BubblewrapRunner :: "bubblewrap \<Rightarrow> process_runner" where
  "BubblewrapRunner b request =
     and_then process_cancelled (\<lambda>cancelled.
     if cancelled then err Process_Cancelled
     else and_then (bubblewrap_arguments b request) (\<lambda>arguments.
       run_command \<lparr>cm_program = bw_binary b, cm_arguments = arguments, cm_directory = None,
           cm_clear_environment = True\<rparr>
         (pr_timeout_ms request) (bw_maximum_output_bytes b)))"

section \<open>The shell tool\<close>

record shell_tool =
  sh_workspace :: path
  sh_runner :: process_runner
  sh_maximum_timeout_ms :: u64

definition shell_tool_new :: "path \<Rightarrow> process_runner \<Rightarrow> (process_world, process_error, shell_tool) act" where
  "shell_tool_new workspace runner =
     and_then (on_files (process_directory workspace)) (\<lambda>w.
     ok \<lparr>sh_workspace = w, sh_runner = runner, sh_maximum_timeout_ms = 120000\<rparr>)"

definition with_maximum_timeout_ms :: "shell_tool \<Rightarrow> u64 \<Rightarrow> shell_tool" where
  "with_maximum_timeout_ms t maximum = t\<lparr>sh_maximum_timeout_ms := max maximum 1\<rparr>"

definition shell_definition :: tool_definition where
  "shell_definition =
     \<lparr>td_name = ''shell'', td_description = ''Run a shell command in the configured execution backend'',
      td_input_schema = object_schema [(''command'', string_schema), (''timeout_ms'', integer_schema 1 None)]
        [''command'']\<rparr>"

text \<open>\<open>clamp(1, maximum)\<close>, with a maximum of at least 1\<close>

definition clamp_timeout :: "u64 option \<Rightarrow> u64 \<Rightarrow> u64" where
  "clamp_timeout requested maximum =
     (let n = (case requested of None \<Rightarrow> 30000 | Some n \<Rightarrow> n)
      in if n < 1 then 1 else if maximum < n then maximum else n)"

definition shell_prepare :: "shell_tool \<Rightarrow> tool_call \<Rightarrow> (process_world, tool_error, prepared_tool_call) act" where
  "shell_prepare t call =
     and_then (on_files (string_argument (tc_arguments call) ''command'')) (\<lambda>command.
     if blank command then err (InvalidArguments ''`command` cannot be empty'')
     else ok \<lparr>pc_call_id = tc_id call,
       pc_action = in_scope (CanonicalAction_new ''shell''
         (jobject [(''command'', JString command), (''working_directory'', path_json (sh_workspace t)),
           (''timeout_ms'', JUint (clamp_timeout (jfield as_u64 (tc_arguments call) ''timeout_ms'') (sh_maximum_timeout_ms t)))])
         WorkspaceWrite Retry_Unsafe) (path_display (sh_workspace t))\<rparr>)"

text \<open>\<open>serde_json::from_value::<ProcessRequest>\<close>; the text of its error is a parameter.\<close>

definition decode_request :: "json \<Rightarrow> process_request option" where
  "decode_request v =
     (case (jfield as_str v ''command'', jfield as_str v ''working_directory'', jfield as_u64 v ''timeout_ms'') of
        (Some command, Some directory, Some timeout) \<Rightarrow>
          Some \<lparr>pr_command = command, pr_working_directory = path_components directory, pr_timeout_ms = timeout\<rparr>
      | _ \<Rightarrow> None)"

definition exit_code_json :: "int option \<Rightarrow> json" where
  "exit_code_json code =
     (case code of
        None \<Rightarrow> JNull
      | Some n \<Rightarrow> if 0 \<le> n then JUint (of_int n) else JNumber (CHR ''-'' # dec (nat (- n))))"

definition output_json :: "process_output \<Rightarrow> json" where
  "output_json out =
     jobject [(''exit_code'', exit_code_json (po_exit_code out)), (''stdout'', JString (po_stdout out)),
       (''stderr'', JString (po_stderr out)), (''timed_out'', JBool (po_timed_out out)),
       (''stdout_truncated'', JBool (po_stdout_truncated out)), (''stderr_truncated'', JBool (po_stderr_truncated out))]"

definition shell_error :: "process_error \<Rightarrow> tool_error" where
  "shell_error e =
     (case e of
        Process_Cancelled \<Rightarrow> OutcomeUnknown (process_error_text e)
      | _ \<Rightarrow> Execution (process_error_text e))"

definition shell_execute ::
  "(json \<Rightarrow> string) \<Rightarrow> shell_tool \<Rightarrow> prepared_tool_call \<Rightarrow> (process_world, tool_error, json) act" where
  "shell_execute decode_error t prepared =
     and_then process_cancelled (\<lambda>cancelled.
     if cancelled then err Tool_Cancelled
     else case decode_request (ca_arguments (pc_action prepared)) of
       None \<Rightarrow> err (Execution (decode_error (ca_arguments (pc_action prepared))))
     | Some request \<Rightarrow>
         and_then (map_err shell_error (sh_runner t request)) (\<lambda>output. ok (output_json output)))"

definition ShellTool :: "(json \<Rightarrow> string) \<Rightarrow> shell_tool \<Rightarrow> process_world tool" where
  "ShellTool decode_error t = \<lparr>t_definition = shell_definition, t_prepare = (\<lambda>call _. shell_prepare t call),
     t_execute = (\<lambda>prepared _. shell_execute decode_error t prepared)\<rparr>"

end
