(* ===== verification/Options.thy ===== *)
theory Options
  imports Complex_Main Provider RustText
begin

text \<open>
  The settings of the terminal program (crates/tui/src/bin/options/mod.rs): the arguments, the environment for
  what they leave out, the bounds, and the provider's configuration made from them.
\<close>

section \<open>Numbers\<close>

text \<open>\<open>parse::<u64>()\<close>\<close>

definition parse_u64 :: "string \<Rightarrow> nat option" where
  "parse_u64 s =
     (let digits = (case s of CHR ''+'' # t \<Rightarrow> t | _ \<Rightarrow> s)
      in if digits = [] then None else parse_digits (2 ^ 64 - 1) 0 digits)"

text \<open>An \<open>f64\<close>: sign and magnitude of a finite one. Its decimal text, read and written, is the standard
  library's rounding and a parameter.\<close>

datatype f64 = Not_a_number | Infinite bool | Finite bool rat

record float_text =
  ft_parse :: "string \<Rightarrow> f64 option"
  ft_number :: "f64 \<Rightarrow> string"

definition temperature_ok :: "f64 \<Rightarrow> bool" where
  "temperature_ok n = (case n of
       Finite negative m \<Rightarrow> (let v = (if negative then - m else m) in 0 \<le> v \<and> v \<le> 2)
     | _ \<Rightarrow> False)"

section \<open>Arguments\<close>

definition flag_options :: "string list" where
  "flag_options = [''--demo'', ''--no-tools'', ''--unsafe-local-exec'', ''--no-stream'']"

definition value_options :: "string list" where
  "value_options = [''--workspace'', ''--endpoint'', ''--model'', ''--request-timeout'', ''--max-output-tokens'',
     ''--temperature'', ''--max-model-iterations'', ''--history-groups'']"

text \<open>The \<open>while\<close> loop: the values and the flags so far.\<close>

fun parse_arguments ::
  "string list \<Rightarrow> (string \<times> string) list \<Rightarrow> string list \<Rightarrow> string + (string \<times> string) list \<times> string list" where
  "parse_arguments [] values flags = Inr (values, flags)"
| "parse_arguments (arg # rest) values flags =
     (if arg \<in> set flag_options
      then (if arg \<in> set flags then Inl (''duplicate option: '' @ arg)
            else parse_arguments rest values (bs_insert arg flags))
      else if arg \<in> set value_options
      then (case rest of
          [] \<Rightarrow> Inl (''missing value for '' @ arg)
        | v # rest \<Rightarrow>
            if starts_with v ''--'' \<or> blank v then Inl (''missing value for '' @ arg)
            else if bt_get values arg \<noteq> None then Inl (''duplicate option: '' @ arg)
            else parse_arguments rest (bt_insert arg v values) flags)
      else Inl (''unknown option: '' @ arg))"

definition option_value ::
  "(string \<times> string) list \<Rightarrow> (string \<Rightarrow> string option) \<Rightarrow> string \<Rightarrow> string \<Rightarrow> string option" where
  "option_value values env flag variable =
     (case bt_get values flag of Some v \<Rightarrow> Some v | None \<Rightarrow> env variable)"

definition option_number ::
  "(string \<times> string) list \<Rightarrow> (string \<Rightarrow> string option) \<Rightarrow> string \<Rightarrow> string \<Rightarrow> nat \<Rightarrow> nat \<Rightarrow> string + nat" where
  "option_number values env flag variable fallback maximum =
     (case (case option_value values env flag variable of
          None \<Rightarrow> Inr fallback
        | Some s \<Rightarrow> (case parse_u64 s of None \<Rightarrow> Inl (flag @ '' must be an integer'') | Some n \<Rightarrow> Inr n)) of
        Inl e \<Rightarrow> Inl e
      | Inr n \<Rightarrow>
          if n = 0 \<or> maximum < n then Inl (flag @ '' must be between 1 and '' @ dec maximum) else Inr n)"

definition option_temperature ::
  "float_text \<Rightarrow> (string \<times> string) list \<Rightarrow> (string \<Rightarrow> string option) \<Rightarrow> string + f64 option" where
  "option_temperature ft values env =
     (case option_value values env ''--temperature'' ''HARNESS_TEMPERATURE'' of
        None \<Rightarrow> Inr None
      | Some s \<Rightarrow>
          (case ft_parse ft s of
             None \<Rightarrow> Inl ''--temperature must be finite and between 0 and 2''
           | Some n \<Rightarrow> if temperature_ok n then Inr (Some n)
               else Inl ''--temperature must be finite and between 0 and 2''))"

record options =
  op_demo :: bool
  op_no_stream :: bool
  op_no_tools :: bool
  op_unsafe_local :: bool
  op_workspace :: "string option"
  op_endpoint :: string
  op_model :: "string option"
  op_request_timeout :: nat
  op_max_output_tokens :: nat
  op_temperature :: "f64 option"
  op_max_model_iterations :: nat
  op_history_groups :: nat

definition option_model :: "(string \<times> string) list \<Rightarrow> (string \<Rightarrow> string option) \<Rightarrow> string option" where
  "option_model values env =
     (case option_value values env ''--model'' ''HARNESS_MODEL'' of
        Some m \<Rightarrow> if blank m then None else Some m
      | None \<Rightarrow> None)"

definition options_from ::
  "float_text \<Rightarrow> (string \<Rightarrow> string option) \<Rightarrow> (string \<times> string) list \<Rightarrow> string list \<Rightarrow> string + options" where
  "options_from ft env values flags =
     (case option_temperature ft values env of Inl e \<Rightarrow> Inl e | Inr temperature \<Rightarrow>
      if ''--demo'' \<notin> set flags \<and> option_model values env = None
      then Inl ''set --model, HARNESS_MODEL, or use --demo''
      else case option_number values env ''--request-timeout'' ''HARNESS_REQUEST_TIMEOUT'' 120 600 of
        Inl e \<Rightarrow> Inl e | Inr timeout \<Rightarrow>
      case option_number values env ''--max-output-tokens'' ''HARNESS_MAX_OUTPUT_TOKENS'' 4096 131072 of
        Inl e \<Rightarrow> Inl e | Inr tokens \<Rightarrow>
      case option_number values env ''--max-model-iterations'' ''HARNESS_MAX_MODEL_ITERATIONS'' 32 128 of
        Inl e \<Rightarrow> Inl e | Inr iterations \<Rightarrow>
      case option_number values env ''--history-groups'' ''HARNESS_HISTORY_GROUPS'' 200 2000 of
        Inl e \<Rightarrow> Inl e | Inr groups \<Rightarrow>
      Inr \<lparr>op_demo = (''--demo'' \<in> set flags), op_no_stream = (''--no-stream'' \<in> set flags),
        op_no_tools = (''--no-tools'' \<in> set flags), op_unsafe_local = (''--unsafe-local-exec'' \<in> set flags),
        op_workspace = bt_get values ''--workspace'',
        op_endpoint = (case option_value values env ''--endpoint'' ''HARNESS_API_URL'' of
          Some url \<Rightarrow> url | None \<Rightarrow> ''https://api.openai.com/v1/chat/completions''),
        op_model = option_model values env, op_request_timeout = timeout, op_max_output_tokens = tokens,
        op_temperature = temperature, op_max_model_iterations = iterations, op_history_groups = groups\<rparr>)"

definition parse_options ::
  "float_text \<Rightarrow> string list \<Rightarrow> (string \<Rightarrow> string option) \<Rightarrow> string + options" where
  "parse_options ft args env =
     (case parse_arguments args [] [] of
        Inl e \<Rightarrow> Inl e
      | Inr (values, flags) \<Rightarrow> options_from ft env values flags)"

definition provider_config :: "float_text \<Rightarrow> options \<Rightarrow> string option \<Rightarrow> openai_config" where
  "provider_config ft opts api_key =
     (let config = openai_config_new (op_endpoint opts) (case op_model opts of Some m \<Rightarrow> m | None \<Rightarrow> ''demo'');
          body = bt_insert ''max_completion_tokens'' (JUint (of_nat (op_max_output_tokens opts))) (oc_extra_body config);
          body = (case op_temperature opts of
            None \<Rightarrow> body | Some n \<Rightarrow> bt_insert ''temperature'' (JNumber (ft_number ft n)) body)
      in config\<lparr>oc_api_key := map_option trim api_key, oc_timeout_seconds := of_nat (op_request_timeout opts),
           oc_extra_body := body\<rparr>)"

end
