(* ===== verification/Toolset.thy ===== *)
theory Toolset
  imports Shell Options
begin

text \<open>
  The registration of the workspace tools (crates/executor-process/src/lib.rs) and of the editing tools
  (editing.rs) in one registry, and the toolset of the terminal program (crates/tui/src/bin/main.rs).
\<close>

section \<open>Registration\<close>

text \<open>A file tool in the world of processes.\<close>

definition on_files_tool :: "disk tool \<Rightarrow> process_world tool" where
  "on_files_tool t = \<lparr>t_definition = t_definition t, t_prepare = (\<lambda>call ctx. on_files (t_prepare t call ctx)),
     t_execute = (\<lambda>prepared ctx. on_files (t_execute t prepared ctx))\<rparr>"

text \<open>Registering changes the registry in place: after an error the tools registered before it stay.\<close>

type_synonym registering = "process_world \<times> process_world tool_registry"

definition on_world :: "(process_world, 'e, 'a) act \<Rightarrow> (registering, 'e, 'a) act" where
  "on_world m s = (case s of (w, registry) \<Rightarrow> (case m w of (r, w') \<Rightarrow> (r, (w', registry))))"

definition register_tool :: "process_world tool \<Rightarrow> (registering, process_error, unit) act" where
  "register_tool t s =
     (case s of (w, registry) \<Rightarrow>
        (case register_arc t registry of
           Inl e \<Rightarrow> (Inl (Process_Invalid (registry_error_text e)), s)
         | Inr registry' \<Rightarrow> (Inr (), (w, registry'))))"

definition register_workspace_tools ::
  "(json \<Rightarrow> string) \<Rightarrow> path \<Rightarrow> process_runner \<Rightarrow> (registering, process_error, unit) act" where
  "register_workspace_tools decode_error workspace runner =
     and_then (on_world (on_files (file_tool_new workspace))) (\<lambda>reading.
     and_then (register_tool (on_files_tool (ReadFileTool reading))) (\<lambda>_.
     and_then (on_world (on_files (file_tool_new workspace))) (\<lambda>writing.
     and_then (register_tool (on_files_tool (WriteFileTool writing))) (\<lambda>_.
     and_then (on_world (shell_tool_new workspace runner)) (\<lambda>shell.
     register_tool (ShellTool decode_error shell))))))"

definition register_editing_tools :: "(json \<Rightarrow> string) \<Rightarrow> path \<Rightarrow> (registering, process_error, unit) act" where
  "register_editing_tools decode_error workspace =
     and_then (on_world (on_files (process_directory workspace))) (\<lambda>w1.
     and_then (register_tool (on_files_tool (ReadFilePageTool w1))) (\<lambda>_.
     and_then (on_world (on_files (process_directory workspace))) (\<lambda>w2.
     and_then (register_tool (on_files_tool (SearchFilesTool decode_error w2))) (\<lambda>_.
     and_then (on_world (on_files (process_directory workspace))) (\<lambda>w3.
     register_tool (on_files_tool (ApplyPatchTool w3)))))))"

section \<open>The toolset of the terminal program\<close>

definition program_runner :: "path \<Rightarrow> options \<Rightarrow> (process_world, process_error, process_runner) act" where
  "program_runner workspace opts =
     (if op_unsafe_local opts then ok (LocalProcessRunner 1048576)
      else and_then (bubblewrap_new workspace 1048576) (\<lambda>b. ok (BubblewrapRunner b)))"

definition program_tools :: "(json \<Rightarrow> string) \<Rightarrow> path \<Rightarrow> options \<Rightarrow> (registering, process_error, unit) act" where
  "program_tools decode_error workspace opts =
     (if op_no_tools opts then ok ()
      else and_then (on_world (program_runner workspace opts)) (\<lambda>runner.
        and_then (register_workspace_tools decode_error workspace runner) (\<lambda>_.
        register_editing_tools decode_error workspace)))"

end
