(* ===== verification/ProcessProperties.thy ===== *)
theory ProcessProperties
  imports Shell
begin

text \<open>
  The properties of running a command: what its output is, that its process group does not outlive the
  call unsignalled, what a sandbox may write, that the shell tool runs what was prepared.
\<close>

section \<open>The loop's rule\<close>

lemma triple_capture_loop:
  assumes "\<And>c. triple (I c) (capture_round start limit c) (\<lambda>(over, c') w. I c' w \<and> (over \<longrightarrow> F c' w)) E"
  shows "triple (I c) (capture_loop start limit c) F E"
proof -
  have run: "I c w \<Longrightarrow> (case capture_loop start limit c w of (Inl e, w') \<Rightarrow> E e w' | (Inr c', w') \<Rightarrow> F c' w')" for w
    using assms
  proof (induction start limit c w rule: capture_loop.induct)
    case (1 start limit c w)
    show ?case
    proof (cases "capture_round start limit c w")
      case (Pair r w1)
      show ?thesis
      proof (cases r)
        case (Inl e)
        with Pair triple_error [OF "1.prems"(2,1)] show ?thesis by (simp add: capture_loop.simps)
      next
        case (Inr x)
        obtain over c1 where x: "x = (over, c1)" by fastforce
        with Pair Inr triple_value [OF "1.prems"(2,1)] have "I c1 w1 \<and> (over \<longrightarrow> F c1 w1)" by fastforce
        with Pair Inr x "1.IH" "1.prems"(2) show ?thesis by (cases over) (simp_all add: capture_loop.simps [of start limit c w])
      qed
    qed
  qed
  then show ?thesis by (simp add: triple_def)
qed

section \<open>What was received\<close>

fun piece_bytes :: "piece \<Rightarrow> string" where
  "piece_bytes (Piece bytes) = take 8192 bytes"
| "piece_bytes _ = []"

definition received :: "process_world \<Rightarrow> stream \<Rightarrow> nat \<Rightarrow> string" where
  "received w s n = concat (map (\<lambda>k. piece_bytes (pw_pieces w s k)) [pw_reads w s..<n])"

definition ended :: "process_world \<Rightarrow> stream \<Rightarrow> nat \<Rightarrow> bool" where
  "ended w s n \<longleftrightarrow> pw_reads w s < n \<and> pw_pieces w s (n - 1) = Piece []"

definition pipe_inv :: "process_world \<Rightarrow> stream \<Rightarrow> nat \<Rightarrow> captured_pipe \<Rightarrow> process_world \<Rightarrow> bool" where
  "pipe_inv w0 s maximum p w \<longleftrightarrow> cp_reader p = s \<and> cp_maximum p = maximum \<and> pw_pieces w = pw_pieces w0 \<and>
     pw_reads w0 s \<le> pw_reads w s \<and>
     cp_retained p = take maximum (received w0 s (pw_reads w s)) \<and>
     cp_truncated p = (maximum < length (received w0 s (pw_reads w s))) \<and>
     cp_eof p = ended w0 s (pw_reads w s)"

lemma received_Suc:
  "pw_reads w s \<le> n \<Longrightarrow> received w s (Suc n) = received w s n @ piece_bytes (pw_pieces w s n)"
  by (simp add: received_def)

lemma ended_Suc: "pw_reads w s \<le> n \<Longrightarrow> ended w s (Suc n) \<longleftrightarrow> pw_pieces w s n = Piece []"
  by (simp add: ended_def)

lemma drain_batch_pipe:
  "triple (\<lambda>w. pipe_inv w0 s m p w \<and> \<not> cp_eof p \<and> (\<forall>t. t \<noteq> s \<longrightarrow> pw_reads w t = R t)) (drain_batch n p)
     (\<lambda>p' w. pipe_inv w0 s m p' w \<and> (\<forall>t. t \<noteq> s \<longrightarrow> pw_reads w t = R t)) (\<lambda>_ _. True)"
proof (induction n p rule: drain_batch.induct)
  case (1 p)
  then show ?case by (simp add: triple_def ok_def)
next
  case (2 n p)
  show ?case
  proof (rule tripleI)
    fix w a w'
    assume pre: "pipe_inv w0 s m p w \<and> \<not> cp_eof p \<and> (\<forall>t. t \<noteq> s \<longrightarrow> pw_reads w t = R t)"
      and run: "drain_batch (Suc n) p w = (Inr a, w')"
    let ?k = "pw_reads w s" and ?u = "w\<lparr>pw_reads := (pw_reads w)(s := Suc (pw_reads w s))\<rparr>"
    have s: "cp_reader p = s" and pieces: "pw_pieces w = pw_pieces w0" and le: "pw_reads w0 s \<le> ?k"
      using pre by (auto simp: pipe_inv_def)
    show "pipe_inv w0 s m a w' \<and> (\<forall>t. t \<noteq> s \<longrightarrow> pw_reads w' t = R t)"
    proof (cases "pw_pieces w s ?k")
      case (Piece bytes)
      show ?thesis
      proof (cases "bytes = []")
        case True
        with run Piece s have "a = p\<lparr>cp_eof := True\<rparr>" "w' = ?u"
          by (auto simp: read_piece_def and_then_def ok_def)
        with pre Piece True pieces le show ?thesis by (auto simp: pipe_inv_def received_Suc ended_Suc)
      next
        case False
        with run Piece s have "drain_batch n (retain_bytes (take 8192 bytes) p) ?u = (Inr a, w')"
          by (auto simp: read_piece_def and_then_def)
        moreover have "pipe_inv w0 s m (retain_bytes (take 8192 bytes) p) ?u \<and> \<not> cp_eof (retain_bytes (take 8192 bytes) p)"
          using pre Piece False pieces le
          by (auto simp: pipe_inv_def received_Suc ended_Suc retain_bytes_def Let_def)
        moreover have "triple (\<lambda>w. pipe_inv w0 s m (retain_bytes (take 8192 bytes) p) w \<and>
            \<not> cp_eof (retain_bytes (take 8192 bytes) p) \<and> (\<forall>t. t \<noteq> s \<longrightarrow> pw_reads w t = R t))
          (drain_batch n (retain_bytes (take 8192 bytes) p))
          (\<lambda>p' w. pipe_inv w0 s m p' w \<and> (\<forall>t. t \<noteq> s \<longrightarrow> pw_reads w t = R t)) (\<lambda>_ _. True)"
          by (rule "2.IH"(1)) (use False in simp_all)
        ultimately show ?thesis using pre by (elim triple_value) auto
      qed
    next
      case Interrupted_read
      with run s have "drain_batch n p ?u = (Inr a, w')" by (auto simp: read_piece_def and_then_def)
      moreover have "pipe_inv w0 s m p ?u"
        using pre Interrupted_read pieces le by (auto simp: pipe_inv_def received_Suc ended_Suc)
      moreover note "2.IH"(2)
      ultimately show ?thesis using pre by (elim triple_value) auto
    next
      case Would_block
      with run s have "a = p" "w' = ?u" by (auto simp: read_piece_def and_then_def ok_def)
      with pre Would_block pieces le show ?thesis by (auto simp: pipe_inv_def received_Suc ended_Suc)
    next
      case (Failed_read e)
      with run s show ?thesis by (auto simp: read_piece_def and_then_def err_def)
    qed
  qed simp
qed

lemma drain_pipe:
  "triple (\<lambda>w. pipe_inv w0 s m p w \<and> (\<forall>t. t \<noteq> s \<longrightarrow> pw_reads w t = R t)) (drain p)
     (\<lambda>p' w. pipe_inv w0 s m p' w \<and> (\<forall>t. t \<noteq> s \<longrightarrow> pw_reads w t = R t)) (\<lambda>_ _. True)"
proof (cases "cp_eof p")
  case True
  then show ?thesis by (simp add: drain_def triple_def ok_def)
next
  case False
  have "triple (\<lambda>w. pipe_inv w0 s m p w \<and> (\<forall>t. t \<noteq> s \<longrightarrow> pw_reads w t = R t)) (drain_batch 32 p)
     (\<lambda>p' w. pipe_inv w0 s m p' w \<and> (\<forall>t. t \<noteq> s \<longrightarrow> pw_reads w t = R t)) (\<lambda>_ _. True)"
    by (rule triple_pre [OF drain_batch_pipe]) (use False in simp)
  with False show ?thesis by (simp add: drain_def)
qed

text \<open>Both pipes.\<close>

definition pipes_inv :: "process_world \<Rightarrow> nat \<Rightarrow> captured_pipe \<Rightarrow> captured_pipe \<Rightarrow> process_world \<Rightarrow> bool" where
  "pipes_inv w0 m out stderr w \<longleftrightarrow> pipe_inv w0 Stdout m out w \<and> pipe_inv w0 Stderr m stderr w"

lemma pipe_inv_reads:
  "pipe_inv w0 s m p w \<Longrightarrow> pw_reads w' s = pw_reads w s \<Longrightarrow> pw_pieces w' = pw_pieces w \<Longrightarrow> pipe_inv w0 s m p w'"
  by (simp add: pipe_inv_def)

lemma drain_out: "triple (pipes_inv w0 m out stderr) (drain out) (\<lambda>p. pipes_inv w0 m p stderr) (\<lambda>_ _. True)"
proof (rule tripleI)
  fix w a w' assume pre: "pipes_inv w0 m out stderr w" and run: "drain out w = (Inr a, w')"
  have "pipe_inv w0 Stdout m a w' \<and> (\<forall>t. t \<noteq> Stdout \<longrightarrow> pw_reads w' t = pw_reads w t)"
    by (rule triple_value [OF drain_pipe _ run]) (use pre in \<open>simp add: pipes_inv_def\<close>)
  then show "pipes_inv w0 m a stderr w'"
    using pre by (auto simp: pipes_inv_def pipe_inv_def)
qed simp

lemma drain_stderr: "triple (pipes_inv w0 m out stderr) (drain stderr) (\<lambda>p. pipes_inv w0 m out p) (\<lambda>_ _. True)"
proof (rule tripleI)
  fix w a w' assume pre: "pipes_inv w0 m out stderr w" and run: "drain stderr w = (Inr a, w')"
  have "pipe_inv w0 Stderr m a w' \<and> (\<forall>t. t \<noteq> Stderr \<longrightarrow> pw_reads w' t = pw_reads w t)"
    by (rule triple_value [OF drain_pipe _ run]) (use pre in \<open>simp add: pipes_inv_def\<close>)
  then show "pipes_inv w0 m out a w'"
    using pre by (auto simp: pipes_inv_def pipe_inv_def)
qed simp

text \<open>Everything but the draining leaves the pipes alone.\<close>

lemma pipes_kept [frame]:
  "preserves (pipes_inv w0 m out stderr) (on_files f)" "preserves (pipes_inv w0 m out stderr) (did s)"
  "preserves (pipes_inv w0 m out stderr) instant_now" "preserves (pipes_inv w0 m out stderr) kill_process_group"
  "preserves (pipes_inv w0 m out stderr) child_has_exited"
  unfolding kill_process_group_def child_has_exited_def
  by (auto intro!: frame preserves_writes split: child_state.split)
    (auto simp: preserves_def triple_def on_files_def did_def writes_def instant_now_def pipes_inv_def pipe_inv_def
      split: prod.split sum.split list.split)

lemma begin_cleanup_pipes:
  "triple (pipes_inv w0 m (ca_out c) (ca_err c)) (begin_cleanup start limit c)
     (\<lambda>c' w. pipes_inv w0 m (ca_out c') (ca_err c') w) (\<lambda>_ _. True)"
proof (rule tripleI)
  fix w c' w' assume pre: "pipes_inv w0 m (ca_out c) (ca_err c) w" and run: "begin_cleanup start limit c w = (Inr c', w')"
  have "ca_out c' = ca_out c \<and> ca_err c' = ca_err c"
    using run by (auto simp: begin_cleanup_def and_then_value ok_def split: if_splits)
  moreover have "preserves (pipes_inv w0 m (ca_out c) (ca_err c)) (begin_cleanup start limit c)"
    unfolding begin_cleanup_def cleanup_due_def by (intro frame)
  from preserves_value [OF this run pre] have "pipes_inv w0 m (ca_out c) (ca_err c) w'" .
  ultimately show "pipes_inv w0 m (ca_out c') (ca_err c') w'" by simp
qed simp

lemma capture_round_pipes:
  "triple (pipes_inv w0 m (ca_out c) (ca_err c)) (capture_round start limit c)
     (\<lambda>(over, c') w. pipes_inv w0 m (ca_out c') (ca_err c') w) (\<lambda>_ _. True)"
proof -
  have tail: "triple (pipes_inv w0 m (ca_out c) (ca_err c))
     (if ca_exited c \<and> cp_eof (ca_out c) \<and> cp_eof (ca_err c) then ok (True, c)
     else case ca_cleanup c of
       None \<Rightarrow> ok (False, c)
     | Some at \<Rightarrow>
         and_then instant_now (\<lambda>now.
         if \<not> passed at output_cleanup_timeout now then ok (False, c)
         else if \<not> ca_exited c then err (Process_Io ''process did not exit within the cleanup deadline'')
         else ok (True, c)))
     (\<lambda>(over, c') w. pipes_inv w0 m (ca_out c') (ca_err c') w) (\<lambda>_ _. True)" for c :: capture
    by (rule tripleI)
      (auto simp: and_then_value ok_def err_def split: if_splits option.splits dest: preserves_value [OF pipes_kept(3)])
  have look: "triple (pipes_inv w0 m out stderr) (if ca_exited c then ok True else child_has_exited)
     (\<lambda>_. pipes_inv w0 m out stderr) (\<lambda>_ _. True)" for out stderr
  proof -
    have "preserves (pipes_inv w0 m out stderr) (if ca_exited c then ok True else child_has_exited)" by (intro frame)
    then show ?thesis unfolding preserves_def by (rule triple_weaken) auto
  qed
  have cleanup: "triple (pipes_inv w0 m out stderr)
      (begin_cleanup start limit (c\<lparr>ca_out := out, ca_err := stderr, ca_exited := exited\<rparr>))
      (\<lambda>c' w. pipes_inv w0 m (ca_out c') (ca_err c') w) (\<lambda>_ _. True)" for out stderr exited
    using begin_cleanup_pipes [of w0 m "c\<lparr>ca_out := out, ca_err := stderr, ca_exited := exited\<rparr>"] by simp
  show ?thesis
    unfolding capture_round_def
    by (rule triple_and_then [OF drain_out], rule triple_and_then [OF drain_stderr],
        rule triple_and_then [OF look], rule triple_and_then [OF cleanup], rule tail)
qed

section \<open>What was done to the child\<close>

definition launched :: "process_world \<Rightarrow> command \<Rightarrow> bool \<Rightarrow> process_world \<Rightarrow> bool" where
  "launched w0 command signalled w \<longleftrightarrow> pw_pid w = pw_pid w0 \<and>
     (\<exists>rest. pw_steps w = pw_steps w0 @ Spawned command # rest \<and> (\<forall>c. Spawned c \<notin> set rest) \<and>
       (signalled \<longrightarrow> Signalled_group \<in> set rest))"

lemma launched_weaken: "launched w0 command b w \<Longrightarrow> (b' \<Longrightarrow> b) \<Longrightarrow> launched w0 command b' w"
  by (auto simp: launched_def)

lemma launched_append:
  "launched w0 command b w \<Longrightarrow> (\<And>c. s \<noteq> Spawned c) \<Longrightarrow> pw_steps w' = pw_steps w @ [s] \<Longrightarrow> pw_pid w' = pw_pid w \<Longrightarrow>
   launched w0 command (b \<or> s = Signalled_group) w'"
  by (force simp: launched_def)

lemma launched_kept [frame]:
  "preserves (launched w0 command b) (on_files f)" "preserves (launched w0 command b) instant_now"
  "preserves (launched w0 command b) (read_piece r)"
  by (auto simp: preserves_def triple_def on_files_def instant_now_def read_piece_def launched_def
      split: prod.split sum.split list.split)

lemma launched_did:
  "(\<And>c. s \<noteq> Spawned c) \<Longrightarrow>
   triple (launched w0 command b) (did s) (\<lambda>_. launched w0 command (b \<or> s = Signalled_group)) E"
  unfolding triple_def did_def writes_def
  by (simp del: imp_disjL) (intro allI impI, erule launched_append, simp_all)

lemma launched_drain [frame]: "preserves (launched w0 command b) (drain p)"
proof -
  have "preserves (launched w0 command b) (drain_batch n p)" for n p
    by (induction n p rule: drain_batch.induct) (auto intro!: frame split: piece.split)
  then show ?thesis unfolding drain_def by (intro frame)
qed

lemma launched_child [frame]: "preserves (launched w0 command b) child_has_exited"
  unfolding child_has_exited_def
  by (auto intro!: frame preserves_writes split: child_state.split simp: launched_def)

lemma launched_kill:
  "triple (launched w0 command b) kill_process_group (\<lambda>_. launched w0 command True)
     (\<lambda>_. launched w0 command (b \<or> pw_pid w0 \<le> maximum_pid))"
proof -
  have io: "triple (launched w0 command b) process_io (\<lambda>_. launched w0 command b) (\<lambda>_. launched w0 command b)" for b
    using launched_kept(1) unfolding preserves_def .
  show ?thesis
    unfolding kill_process_group_def
  proof (rule triple_and_then [where R = "\<lambda>pid w. pid = pw_pid w0 \<and> launched w0 command b w"])
    show "triple (launched w0 command b) (reads pw_pid) (\<lambda>pid w. pid = pw_pid w0 \<and> launched w0 command b w)
      (\<lambda>_. launched w0 command (b \<or> pw_pid w0 \<le> maximum_pid))"
      by (rule triple_readsI) (auto simp: launched_def)
    show "triple (\<lambda>w. pid = pw_pid w0 \<and> launched w0 command b w)
        (if maximum_pid < pid then err (Process_Io ''out of range integral type conversion attempted'')
         else and_then (did Signalled_group) (\<lambda>_. process_io))
        (\<lambda>_. launched w0 command True) (\<lambda>_. launched w0 command (b \<or> pw_pid w0 \<le> maximum_pid))" for pid
    proof (rule triple_if)
      show "maximum_pid < pid \<Longrightarrow> triple (\<lambda>w. pid = pw_pid w0 \<and> launched w0 command b w)
        (err (Process_Io ''out of range integral type conversion attempted''))
        (\<lambda>_. launched w0 command True) (\<lambda>_. launched w0 command (b \<or> pw_pid w0 \<le> maximum_pid))"
        by (rule triple_errI) (auto intro: launched_weaken)
      show "\<not> maximum_pid < pid \<Longrightarrow> triple (\<lambda>w. pid = pw_pid w0 \<and> launched w0 command b w)
        (and_then (did Signalled_group) (\<lambda>_. process_io))
        (\<lambda>_. launched w0 command True) (\<lambda>_. launched w0 command (b \<or> pw_pid w0 \<le> maximum_pid))"
        by (rule triple_pre [where P' = "launched w0 command b"], rule triple_and_then [where R = "\<lambda>_. launched w0 command True"])
          (auto intro!: triple_weaken [OF launched_did [of Signalled_group w0 command b]] triple_weaken [OF io [of True]]
            intro: launched_weaken)
    qed
  qed
qed

lemma triple_both:
  "triple P m Q E \<Longrightarrow> triple P' m Q' E' \<Longrightarrow>
   triple (\<lambda>s. P s \<and> P' s) m (\<lambda>a s. Q a s \<and> Q' a s) (\<lambda>e s. E e s \<and> E' e s)"
  by (auto simp: triple_def split: prod.splits sum.splits)

lemma begin_cleanup_launched:
  "triple (launched w0 command (ca_cleanup c \<noteq> None)) (begin_cleanup start limit c)
     (\<lambda>c' w. launched w0 command (ca_cleanup c' \<noteq> None) w \<and> (ca_exited c' \<longrightarrow> ca_cleanup c' \<noteq> None))
     (\<lambda>_. launched w0 command False)"
proof (cases "ca_cleanup c = None")
  case False
  then show ?thesis by (auto simp: begin_cleanup_def triple_def ok_def)
next
  case none: True
  show ?thesis
  proof (rule tripleI)
    fix w a w' assume pre: "launched w0 command (ca_cleanup c \<noteq> None) w" and run: "begin_cleanup start limit c w = (Inr a, w')"
    from run none obtain due w1 where d: "cleanup_due start limit (ca_exited c) w = (Inr due, w1)"
      and rest: "(if \<not> due then ok c
        else and_then process_cancelled (\<lambda>cancelled.
          and_then kill_process_group (\<lambda>_.
          and_then instant_now (\<lambda>now.
          ok (c\<lparr>ca_cancelled := cancelled, ca_timed_out := \<not> ca_exited c \<and> \<not> cancelled, ca_cleanup := Some now\<rparr>))))) w1
        = (Inr a, w')"
      unfolding begin_cleanup_def and_then_value by (auto simp: and_then_value)
    have "preserves (launched w0 command False) (cleanup_due start limit (ca_exited c))"
      unfolding cleanup_due_def by (intro frame)
    from preserves_value [OF this d] pre have l1: "launched w0 command False w1" by (auto intro: launched_weaken)
    show "launched w0 command (ca_cleanup a \<noteq> None) w' \<and> (ca_exited a \<longrightarrow> ca_cleanup a \<noteq> None)"
    proof (cases due)
      case False
      with rest d none l1 show ?thesis by (auto simp: ok_def cleanup_due_def)
    next
      case True
      with rest obtain cancelled w2 w3 now where two: "process_cancelled w1 = (Inr cancelled :: process_error + bool, w2)"
        and kill: "kill_process_group w2 = (Inr (), w3)"
        and four: "instant_now w3 = (Inr now :: process_error + nat option, w')" and a: "ca_cleanup a = Some now"
        by (auto simp: and_then_value ok_def)
      have "launched w0 command False w2" using preserves_value [OF launched_kept(1) two l1] .
      from triple_value [OF launched_kill this kill] have "launched w0 command True w3" .
      from preserves_value [OF launched_kept(2) four this] a show ?thesis by simp
    qed
  next
    fix w e w' assume pre: "launched w0 command (ca_cleanup c \<noteq> None) w" and run: "begin_cleanup start limit c w = (Inl e, w')"
    have kill: "preserves (launched w0 command False) kill_process_group"
      unfolding preserves_def by (rule triple_weaken [OF launched_kill]) (auto intro: launched_weaken)
    have "preserves (launched w0 command False) (begin_cleanup start limit c)"
      unfolding begin_cleanup_def cleanup_due_def by (intro frame kill)
    from preservesD [OF this _ run] pre show "launched w0 command False w'" by (auto intro: launched_weaken)
  qed
qed

definition capture_inv :: "process_world \<Rightarrow> command \<Rightarrow> nat \<Rightarrow> capture \<Rightarrow> process_world \<Rightarrow> bool" where
  "capture_inv w0 command m c w \<longleftrightarrow>
     pipes_inv w0 m (ca_out c) (ca_err c) w \<and> launched w0 command (ca_cleanup c \<noteq> None) w"

lemma capture_round_launched:
  "triple (launched w0 command (ca_cleanup c \<noteq> None)) (capture_round start limit c)
     (\<lambda>(over, c') w. launched w0 command (ca_cleanup c' \<noteq> None) w \<and> (over \<longrightarrow> launched w0 command True w))
     (\<lambda>_. launched w0 command False)"
proof -
  have weak: "preserves (launched w0 command (ca_cleanup c \<noteq> None)) m \<Longrightarrow>
    triple (launched w0 command (ca_cleanup c \<noteq> None)) m (\<lambda>_. launched w0 command (ca_cleanup c \<noteq> None))
      (\<lambda>_. launched w0 command False)" for m :: "'a running"
    unfolding preserves_def by (erule triple_weaken) (auto intro: launched_weaken)
  have tail: "triple (\<lambda>w. launched w0 command (ca_cleanup c \<noteq> None) w \<and> (ca_exited c \<longrightarrow> ca_cleanup c \<noteq> None))
     (if ca_exited c \<and> cp_eof (ca_out c) \<and> cp_eof (ca_err c) then ok (True, c)
     else case ca_cleanup c of
       None \<Rightarrow> ok (False, c)
     | Some at \<Rightarrow>
         and_then instant_now (\<lambda>now.
         if \<not> passed at output_cleanup_timeout now then ok (False, c)
         else if \<not> ca_exited c then err (Process_Io ''process did not exit within the cleanup deadline'')
         else ok (True, c)))
     (\<lambda>(over, c') w. launched w0 command (ca_cleanup c' \<noteq> None) w \<and> (over \<longrightarrow> launched w0 command True w))
     (\<lambda>_. launched w0 command False)" for c :: capture
    using launched_kept(2) [of w0 command True]
    by (cases "ca_cleanup c")
      (auto simp: triple_def ok_def err_def and_then_def preserves_def instant_now_def
        split: prod.splits sum.splits list.splits intro: launched_weaken)
  have cleanup: "triple (launched w0 command (ca_cleanup c \<noteq> None))
      (begin_cleanup start limit (c\<lparr>ca_out := out, ca_err := stderr, ca_exited := exited\<rparr>))
      (\<lambda>c' w. launched w0 command (ca_cleanup c' \<noteq> None) w \<and> (ca_exited c' \<longrightarrow> ca_cleanup c' \<noteq> None))
      (\<lambda>_. launched w0 command False)" for out stderr exited
    using begin_cleanup_launched [of w0 command "c\<lparr>ca_out := out, ca_err := stderr, ca_exited := exited\<rparr>"] by simp
  have look: "preserves (launched w0 command b) (if ca_exited c then ok True else child_has_exited)" for b
    by (intro frame)
  show ?thesis
    unfolding capture_round_def
    by (rule triple_and_then [OF weak [OF launched_drain]], rule triple_and_then [OF weak [OF launched_drain]],
        rule triple_and_then [OF weak [OF look]], rule triple_and_then [OF cleanup], rule tail)
qed

lemma capture_loop_result:
  "triple (capture_inv w0 command m c) (capture_loop start limit c)
     (\<lambda>c' w. pipes_inv w0 m (ca_out c') (ca_err c') w \<and> launched w0 command True w) (\<lambda>_. launched w0 command False)"
proof (rule triple_capture_loop)
  fix c
  show "triple (capture_inv w0 command m c) (capture_round start limit c)
    (\<lambda>(over, c') w. capture_inv w0 command m c' w \<and>
      (over \<longrightarrow> pipes_inv w0 m (ca_out c') (ca_err c') w \<and> launched w0 command True w)) (\<lambda>_. launched w0 command False)"
    unfolding capture_inv_def
    by (rule triple_weaken [OF triple_both [OF capture_round_pipes capture_round_launched]])
      (auto split: prod.splits)
qed

text \<open>The output of a capture that returns.\<close>

definition output_of :: "process_world \<Rightarrow> nat \<Rightarrow> process_output \<Rightarrow> process_world \<Rightarrow> bool" where
  "output_of w0 m out w \<longleftrightarrow>
     po_stdout out = from_utf8_lossy (take m (received w0 Stdout (pw_reads w Stdout))) \<and>
     po_stderr out = from_utf8_lossy (take m (received w0 Stderr (pw_reads w Stderr))) \<and>
     po_stdout_truncated out = (m < length (received w0 Stdout (pw_reads w Stdout)) \<or> \<not> ended w0 Stdout (pw_reads w Stdout)) \<and>
     po_stderr_truncated out = (m < length (received w0 Stderr (pw_reads w Stderr)) \<or> \<not> ended w0 Stderr (pw_reads w Stderr))"

definition fresh_pipes :: "process_world \<Rightarrow> process_world \<Rightarrow> bool" where
  "fresh_pipes w0 w \<longleftrightarrow> pw_pieces w = pw_pieces w0 \<and> pw_reads w = pw_reads w0"

lemma fresh_kept [frame]:
  "preserves (fresh_pipes w0) (on_files f)" "preserves (fresh_pipes w0) instant_now" "preserves (fresh_pipes w0) (did s)"
  by (auto simp: preserves_def triple_def on_files_def instant_now_def fresh_pipes_def did_def writes_def
      split: prod.split sum.split list.split)

lemma preserves_both [frame]:
  "preserves I m \<Longrightarrow> preserves J m \<Longrightarrow> preserves (\<lambda>w. I w \<and> J w) m"
  unfolding preserves_def by (rule triple_weaken [OF triple_both]) auto

lemma fresh_inv:
  "fresh_pipes w0 w \<Longrightarrow>
   pipe_inv w0 s m \<lparr>cp_reader = s, cp_retained = [], cp_maximum = m, cp_truncated = False, cp_eof = False\<rparr> w"
  by (simp add: pipe_inv_def fresh_pipes_def received_def ended_def)

lemma CapturedPipe_new_result:
  "triple (\<lambda>w. fresh_pipes w0 w \<and> launched w0 command False w) (CapturedPipe_new s m)
     (\<lambda>p w. p = \<lparr>cp_reader = s, cp_retained = [], cp_maximum = m, cp_truncated = False, cp_eof = False\<rparr> \<and>
       fresh_pipes w0 w \<and> launched w0 command False w) (\<lambda>_. launched w0 command False)"
proof -
  have "preserves (\<lambda>w. fresh_pipes w0 w \<and> launched w0 command False w) process_io" by (intro frame)
  then have io: "triple (\<lambda>w. fresh_pipes w0 w \<and> launched w0 command False w) process_io
      (\<lambda>_ w. fresh_pipes w0 w \<and> launched w0 command False w) (\<lambda>_. launched w0 command False)"
    unfolding preserves_def by (rule triple_weaken) auto
  show ?thesis
    unfolding CapturedPipe_new_def by (rule triple_and_then [OF io], rule triple_okI, simp)
qed

lemma capture_process_result:
  "triple (\<lambda>w. fresh_pipes w0 w \<and> launched w0 command False w) (capture_process timeout m)
     (\<lambda>out w. output_of w0 m out w \<and> launched w0 command True w) (\<lambda>_. launched w0 command False)"
proof (rule tripleI)
  fix w out w' assume pre: "fresh_pipes w0 w \<and> launched w0 command False w"
    and run: "capture_process timeout m w = (Inr out, w')"
  from run obtain p1 w1 p2 w2 start w3 c w4 code w5 w6 where
    p1: "CapturedPipe_new Stdout m w = (Inr p1, w1)" and p2: "CapturedPipe_new Stderr m w1 = (Inr p2, w2)"
    and now: "(instant_now :: nat option running) w2 = (Inr start, w3)"
    and loop: "capture_loop start (unat (max timeout 1)) \<lparr>ca_out = p1, ca_err = p2, ca_exited = False,
        ca_cleanup = None, ca_timed_out = False, ca_cancelled = False\<rparr> w3 = (Inr c, w4)"
    and io: "process_io w4 = (Inr (), w5)" and reap: "(did Reaped :: unit running) w5 = (Inr (), w6)"
    and out: "out = \<lparr>po_exit_code = code, po_stdout = from_utf8_lossy (cp_retained (ca_out c)),
           po_stderr = from_utf8_lossy (cp_retained (ca_err c)), po_timed_out = ca_timed_out c,
           po_stdout_truncated = (cp_truncated (ca_out c) \<or> \<not> cp_eof (ca_out c)),
           po_stderr_truncated = (cp_truncated (ca_err c) \<or> \<not> cp_eof (ca_err c))\<rparr>" and w': "w' = w6"
    by (auto simp: capture_process_def and_then_value ok_def err_def reads_def split: if_splits)
  note one = triple_value [OF CapturedPipe_new_result pre p1]
  note two = triple_value [OF CapturedPipe_new_result conjunct2 [OF one] p2]
  have three: "fresh_pipes w0 w3 \<and> launched w0 command False w3"
    using preserves_value [OF fresh_kept(2) now] preserves_value [OF launched_kept(2) now] two by blast
  then have "capture_inv w0 command m \<lparr>ca_out = p1, ca_err = p2, ca_exited = False,
        ca_cleanup = None, ca_timed_out = False, ca_cancelled = False\<rparr> w3"
    using one two fresh_inv by (simp add: capture_inv_def pipes_inv_def)
  from triple_value [OF capture_loop_result this loop]
  have four: "pipes_inv w0 m (ca_out c) (ca_err c) w4" "launched w0 command True w4" by blast+
  have "pipes_inv w0 m (ca_out c) (ca_err c) w6"
    using preserves_value [OF pipes_kept(2) reap preserves_value [OF pipes_kept(1) io four(1)]] .
  then have "output_of w0 m out w'" unfolding w' out by (auto simp: output_of_def pipes_inv_def pipe_inv_def)
  moreover have "launched w0 command True w'"
    using triple_value [OF launched_did [of Reaped] preserves_value [OF launched_kept(1) io four(2)] reap] w' by simp
  ultimately show "output_of w0 m out w' \<and> launched w0 command True w'" by blast
next
  fix w e w' assume pre: "fresh_pipes w0 w \<and> launched w0 command False w" and run: "capture_process timeout m w = (Inl e, w')"
  have loop: "triple (launched w0 command False) (capture_loop start limit \<lparr>ca_out = p1, ca_err = p2, ca_exited = False,
        ca_cleanup = None, ca_timed_out = False, ca_cancelled = False\<rparr>)
      (\<lambda>_. launched w0 command False) (\<lambda>_. launched w0 command False)" for start limit p1 p2
  proof -
    have "triple (launched w0 command (ca_cleanup c \<noteq> None)) (capture_loop start limit c)
      (\<lambda>_. launched w0 command True) (\<lambda>_. launched w0 command False)" for c
      by (rule triple_capture_loop [OF capture_round_launched])
    from this [of "\<lparr>ca_out = p1, ca_err = p2, ca_exited = False, ca_cleanup = None, ca_timed_out = False, ca_cancelled = False\<rparr>"]
    show ?thesis by (rule triple_weaken) (auto intro: launched_weaken)
  qed
  have reaped: "preserves (launched w0 command False) (did Reaped :: unit running)"
    unfolding preserves_def by (rule triple_weaken [OF launched_did [of Reaped w0 command False]]) (auto intro: launched_weaken)
  have "preserves (launched w0 command False) (capture_process timeout m)"
    unfolding capture_process_def CapturedPipe_new_def by (intro frame reaped loop [folded preserves_def])
  from preservesD [OF this _ run] pre show "launched w0 command False w'" by blast
qed

section \<open>Running\<close>

lemma steps_kept [frame]:
  "preserves (\<lambda>w. pw_steps w = steps \<and> pw_pid w = pid) (on_files f)"
  by (auto simp: preserves_def triple_def on_files_def split: prod.split sum.split)

lemma cleanup_launched:
  "triple (launched w0 command False)
     (attempt kill_process_group (\<lambda>_. attempt (and_then (did Killed_child) (\<lambda>_. process_io)) (\<lambda>_. did Reaped)))
     (\<lambda>_. launched w0 command (pw_pid w0 \<le> maximum_pid)) (\<lambda>_. launched w0 command (pw_pid w0 \<le> maximum_pid))"
proof -
  have kept: "triple (launched w0 command b) (did s) (\<lambda>_. launched w0 command b) E"
    if "\<And>c. s \<noteq> Spawned c" "s \<noteq> Signalled_group" for s b E
    using launched_did [of s w0 command b E] that by simp
  have io: "triple (launched w0 command b) process_io (\<lambda>_. launched w0 command b) (\<lambda>_. launched w0 command b)" for b
    using launched_kept(1) unfolding preserves_def .
  show ?thesis
    by (rule triple_attempt [where R = "\<lambda>_. launched w0 command (pw_pid w0 \<le> maximum_pid)"],
        rule triple_weaken [OF launched_kill], assumption, erule launched_weaken, simp, erule launched_weaken, simp,
        rule triple_attempt [where R = "\<lambda>_. launched w0 command (pw_pid w0 \<le> maximum_pid)"],
        rule triple_and_then [OF kept io]) (auto intro: kept)
qed

lemma run_command_result:
  assumes "run_command command timeout m w = (r, w')"
  shows "((\<exists>e. r = Inl e) \<and> pw_steps w' = pw_steps w) \<or>
    (launched w command (pw_pid w \<le> maximum_pid) w' \<and>
     (\<forall>out. r = Inr out \<longrightarrow> output_of w m out w' \<and> launched w command True w'))"
proof -
  obtain c w1 where look: "(process_cancelled :: bool running) w = (c, w1)" by fastforce
  note w1 = preservesD [OF steps_kept _ look, of "pw_steps w" "pw_pid w"] preservesD [OF fresh_kept(1) _ look, of w]
  show ?thesis
  proof (cases "c = Inr False")
    case False
    then have "\<exists>e. r = Inl e" "w' = w1"
      using assms look by (auto simp: run_command_def and_then_def err_def split: sum.splits if_splits)
    with w1 show ?thesis by auto
  next
    case True
    obtain i w2 where io: "process_io w1 = (i, w2)" by fastforce
    note w2 = preservesD [OF steps_kept _ io, of "pw_steps w" "pw_pid w"] preservesD [OF fresh_kept(1) _ io, of w]
    show ?thesis
    proof (cases i)
      case (Inl e)
      then have "r = Inl e" "w' = w2"
        using assms look io True by (auto simp: run_command_def and_then_def)
      with w1 w2 show ?thesis by auto
    next
      case (Inr u)
      let ?w3 = "w2\<lparr>pw_steps := pw_steps w2 @ [Spawned command]\<rparr>"
      have fresh: "fresh_pipes w ?w3 \<and> launched w command False ?w3"
        using w1 w2 by (auto simp: fresh_pipes_def launched_def)
      obtain result w4 where capture: "capture_process timeout m ?w3 = (result, w4)" by fastforce
      let ?cleanup = "case result of Inr _ \<Rightarrow> ok () | Inl _ \<Rightarrow>
        attempt kill_process_group (\<lambda>_. attempt (and_then (did Killed_child) (\<lambda>_. process_io)) (\<lambda>_. did Reaped))"
      obtain k w5 where clean: "(?cleanup :: unit running) w4 = (k, w5)" by fastforce
      obtain c2 w6 where look2: "(process_cancelled :: bool running) w5 = (c2, w6)" by fastforce
      have finish: "(\<exists>e. r = Inl e) \<and> w' \<in> {w5, w6} \<or> r = result \<and> k = Inr () \<and> w' = w6"
        using assms look io True Inr capture clean look2
        by (auto simp: run_command_def and_then_def attempt_def did_def writes_def ok_def err_def split: sum.splits if_splits)
      have after: "launched w command (pw_pid w \<le> maximum_pid) w5 \<and>
        (\<forall>out. result = Inr out \<longrightarrow> output_of w m out w5 \<and> launched w command True w5)"
      proof (cases result)
        case (Inl e)
        with capture have "launched w command False w4" using triple_error [OF capture_process_result fresh] by simp
        with clean Inl triple_value [OF cleanup_launched this] triple_error [OF cleanup_launched this]
        show ?thesis by (cases k) auto
      next
        case (Inr out)
        with capture have "output_of w m out w4 \<and> launched w command True w4"
          using triple_value [OF capture_process_result fresh] by simp
        moreover have "w5 = w4" using clean Inr by (simp add: ok_def)
        ultimately show ?thesis using Inr by (auto intro: launched_weaken)
      qed
      have same: "preserves (launched w command b) (process_cancelled :: bool running)" for b by (rule launched_kept)
      have "pw_reads w6 = pw_reads w5" using look2 by (auto simp: on_files_def split: prod.splits)
      then have "output_of w m out w6 \<longleftrightarrow> output_of w m out w5" for out by (simp add: output_of_def)
      with finish after preservesD [OF same _ look2] show ?thesis by auto
    qed
  qed
qed

end
