(* ===== verification/EditingProperties.thy ===== *)
theory EditingProperties
  imports Editing "HOL-Library.Sublist"
begin

text \<open>
  The properties of the editing tools: a patch writes what was approved or nothing, and a search
  reports exactly the matching lines, up to its bound.
\<close>

section \<open>Names\<close>

definition proper_name :: "string \<Rightarrow> bool" where
  "proper_name c \<longleftrightarrow> c \<noteq> [] \<and> c \<noteq> ''.'' \<and> c \<noteq> dotdot \<and> slash \<notin> set c"

lemma split_on_join:
  "cs \<noteq> [] \<Longrightarrow> list_all (\<lambda>c. x \<notin> set c) cs \<Longrightarrow> split_on x (join [x] cs) = cs"
proof (induction "[x]" cs rule: join.induct)
  case (2 s)
  have "x \<notin> set s \<Longrightarrow> split_on x s = [s]" by (induction s) auto
  with 2 show ?case by simp
next
  case (3 s v va)
  have "x \<notin> set s \<Longrightarrow> split_on x (s @ x # t) = s # split_on x t" for t
    by (induction s) auto
  with 3 show ?case by simp
qed simp

lemma components_relative: "list_all proper_name p \<Longrightarrow> path_components (path_relative p) = p"
proof (cases "p = []")
  case False
  assume p: "list_all proper_name p"
  then have "split_on slash (path_relative p) = p"
    unfolding path_relative_def by (intro split_on_join False) (auto simp: list_all_iff proper_name_def)
  with p show ?thesis
    by (simp add: path_components_def) (auto simp: list_all_iff proper_name_def intro: filter_True)
qed (simp add: path_components_def path_relative_def)

lemma components_display: "list_all proper_name p \<Longrightarrow> path_components (path_display p) = p"
  using components_relative [of p]
  by (simp add: path_display_def path_relative_def path_components_def)

lemma path_components_names:
  "c \<in> set (path_components s) \<Longrightarrow> c \<noteq> [] \<and> c \<noteq> ''.'' \<and> slash \<notin> set c"
proof -
  have "c \<in> set (split_on x s) \<Longrightarrow> x \<notin> set c" for x
    by (induction s arbitrary: c) (fastforce split: if_splits list.splits)+
  then show "c \<in> set (path_components s) \<Longrightarrow> ?thesis" by (auto simp: path_components_def)
qed

lemma walk_proper:
  assumes "walk n creating es at p = Some q" and "list_all proper_name at"
    and "\<forall>c\<in>set p. c \<noteq> dotdot \<longrightarrow> proper_name c"
  shows "list_all proper_name q"
  using assms
proof (induction n creating es at p rule: walk.induct)
  case (3 n creating es at c cs)
  note run = "3.prems"(1) and at = "3.prems"(2) and p = "3.prems"(3)
  have but: "list_all proper_name (butlast at)" using at by (auto simp: list_all_iff dest: in_set_butlastD)
  have target: "\<forall>x\<in>set (path_components t @ cs). x \<noteq> dotdot \<longrightarrow> proper_name x" for t
    using p path_components_names by (auto simp: proper_name_def)
  show ?case
  proof (cases "c = dotdot")
    case True
    with run p but "3.IH" show ?thesis by (auto split: if_splits)
  next
    case False
    then have "list_all proper_name (at @ [c])" using at p by simp
    with run p at False target "3.IH" show ?thesis by (auto split: if_splits option.splits entry.splits)
  qed
qed (auto split: if_splits)

lemma resolve_proper:
  assumes "resolve es (ws @ path_components s) = Some p" and "list_all proper_name ws"
  shows "list_all proper_name p"
  using assms(1) unfolding resolve_def
  by (rule walk_proper) (use assms(2) path_components_names in \<open>auto simp: proper_name_def list_all_iff\<close>)

section \<open>Steps that leave the disk's entries alone\<close>

definition same_entries :: "(disk, 'e, 'a) act \<Rightarrow> bool" where
  "same_entries m \<longleftrightarrow> (\<forall>d. dk_entries (snd (m d)) = dk_entries d)"

named_theorems quiet

lemma quiet_basic [quiet]: "same_entries (ok a)" "same_entries (err e)" "same_entries (reads f)"
  by (simp_all add: same_entries_def act_defs)

lemma quiet_and_then [quiet]: "same_entries m \<Longrightarrow> (\<And>a. same_entries (k a)) \<Longrightarrow> same_entries (and_then m k)"
  by (auto simp: same_entries_def and_then_def split: prod.split sum.split) (metis snd_conv)+

lemma quiet_attempt [quiet]: "same_entries m \<Longrightarrow> (\<And>r. same_entries (k r)) \<Longrightarrow> same_entries (attempt m k)"
  by (auto simp: same_entries_def attempt_def split: prod.split) (metis snd_conv)

lemma quiet_map_err [quiet]: "same_entries m \<Longrightarrow> same_entries (map_err f m)"
  unfolding map_err_def by (intro quiet_attempt) (auto simp: same_entries_def act_defs split: sum.split)

lemma quiet_if [quiet]: "same_entries m \<Longrightarrow> same_entries n \<Longrightarrow> same_entries (if c then m else n)"
  by simp

lemma quiet_disk [quiet]: "same_entries disk_io" "same_entries disk_cancelled"
  by (auto simp: same_entries_def disk_io_def disk_cancelled_def split: prod.split io_outcome.split)

lemma quiet_lookup [quiet]:
  "same_entries (disk_canonicalize p)" "same_entries (disk_entry p)" "same_entries (disk_open p)"
  "same_entries (handle_is_file h)" "same_entries (handle_read h n)" "same_entries (disk_open_existing p)"
  unfolding disk_open_def disk_open_existing_def disk_canonicalize_def disk_entry_def handle_is_file_def handle_read_def
  by (intro quiet; auto simp: same_entries_def split: option.split entry.split sum.split)+

lemma quiet_exists [quiet]:
  "same_entries (disk_exists p)" "same_entries (disk_is_file p)" "same_entries (disk_is_dir p)"
  unfolding disk_exists_def disk_is_file_def disk_is_dir_def by (intro quiet)+

lemma quiet_option [quiet]:
  "same_entries m \<Longrightarrow> (\<And>x. same_entries (k x)) \<Longrightarrow> same_entries (case y of None \<Rightarrow> m | Some x \<Rightarrow> k x)"
  by (cases y) simp_all

lemma quiet_paths [quiet]:
  "same_entries (string_argument a n)" "same_entries (path_argument a n)" "same_entries (validate_relative s)"
  "same_entries (resolve_existing_file w s)" "same_entries (checked_path w p)" "same_entries (read_text h)"
  "same_entries refuse_cancelled_tool" "same_entries (number a k i m)"
  unfolding path_argument_def string_argument_def validate_relative_def resolve_existing_file_def checked_path_def
    read_text_def refuse_cancelled_tool_def number_def by (intro quiet)+

lemma quietD: "same_entries m \<Longrightarrow> m d = (r, d') \<Longrightarrow> dk_entries d' = dk_entries d"
  by (metis same_entries_def snd_conv)

section \<open>What the steps find\<close>

lemma and_then_Inr:
  "and_then m k s = (Inr b, s') \<longleftrightarrow> (\<exists>a t. m s = (Inr a, t) \<and> k a t = (Inr b, s'))"
  by (auto simp: and_then_def split: prod.split sum.split)

lemma map_err_Inr: "map_err f m s = (Inr b, s') \<longleftrightarrow> m s = (Inr b, s')"
  by (auto simp: map_err_def attempt_def act_defs split: prod.split sum.split)

lemma steps_on:
  "m s = (Inr a, t) \<Longrightarrow> and_then m k s = k a t"
  "m s = (Inl e, t) \<Longrightarrow> and_then m k s = (Inl e, t)"
  "m s = (Inr a, t) \<Longrightarrow> map_err f m s = (Inr a, t)"
  "m s = (Inl e, t) \<Longrightarrow> map_err f m s = (Inl (f e), t)"
  by (simp_all add: act_defs)

lemma answer_on:
  "m s = (w, t) \<Longrightarrow>
   and_then (map_err f m) (\<lambda>_. ok v) s = (case w of Inl e \<Rightarrow> Inl (f e) | Inr _ \<Rightarrow> Inr v, t)"
  by (cases w) (simp_all add: act_defs)

lemmas step_results = and_then_Inr map_err_Inr

lemma canonicalize_result:
  "disk_canonicalize p d = (Inr q, d') \<Longrightarrow> resolve (dk_entries d) p = Some q \<and> dk_entries d' = dk_entries d"
  using quietD [OF quiet_disk(1)]
  by (auto simp: disk_canonicalize_def step_results split: option.splits)

lemma resolve_existing_result:
  assumes "resolve_existing_file ws s d = (Inr p, d')"
  shows "resolve (dk_entries d) (ws @ path_components s) = Some p \<and> prefix ws p \<and> dk_entries d' = dk_entries d"
proof -
  have s: "relative_path s"
    using assms by (auto simp: resolve_existing_file_def step_results validate_relative_def err_def split: if_splits)
  then have join: "path_join ws s = ws @ path_components s" by (simp add: path_join_def relative_path_def)
  with assms s obtain d1 where "disk_canonicalize (ws @ path_components s) d = (Inr p, d1)" "prefix ws p"
    by (auto simp: resolve_existing_file_def step_results validate_relative_def path_starts_with_prefix ok_def err_def
        split: if_splits)
  with quietD [OF quiet_paths(4) assms] show ?thesis by (auto dest: canonicalize_result)
qed

lemma checked_path_result:
  assumes "checked_path ws p d = (Inr q, d')" and "list_all proper_name p"
  shows "q = p \<and> prefix ws p \<and> resolve (dk_entries d) p = Some p \<and> dk_entries d' = dk_entries d"
proof -
  have ws: "path_starts_with p ws"
    and r: "\<exists>d1. resolve_existing_file ws (path_relative (drop (length ws) p)) d = (Inr p, d1)" and q: "q = p"
    using assms(1) by (auto simp: checked_path_def strip_root_def step_results ok_def err_def split: if_splits)
  from ws obtain rest where p: "p = ws @ rest" by (auto simp: path_starts_with_prefix prefix_def)
  with assms(2) have "path_components (path_relative rest) = rest" by (intro components_relative) simp
  with r p resolve_existing_result have "resolve (dk_entries d) p = Some p" by fastforce
  with ws q quietD [OF quiet_paths(5) assms(1)] show ?thesis by (auto simp: path_starts_with_prefix)
qed

lemma handle_read_result:
  assumes "handle_read h n d = (Inr content, d')"
  shows "\<exists>bytes. entry_at (dk_entries d) h = Some (Regular bytes) \<and> content = take n bytes"
proof -
  obtain e where io: "disk_io d = (Inr (), e)"
    using assms by (auto simp: handle_read_def and_then_def split: prod.splits sum.splits)
  note r = assms [unfolded handle_read_def and_then_def io prod.case sum.case]
  have e: "dk_entries e = dk_entries d" using quietD [OF quiet_disk(1) io] .
  show ?thesis
  proof (cases "entry_at (dk_entries e) h")
    case (Some y)
    with r e show ?thesis by (cases y) auto
  qed (use r in auto)
qed

lemma read_text_result:
  assumes "read_text h d = (Inr content, d')"
  shows "entry_at (dk_entries d) h = Some (Regular content) \<and> length content \<le> max_file_bytes \<and>
    valid_utf8 content \<and> dk_entries d' = dk_entries d"
proof -
  from assms obtain d1 d2 where d1: "handle_is_file h d = (Inr True, d1)"
    and d2: "handle_read h (max_file_bytes + 1) d1 = (Inr content, d2)"
    and c: "length content \<le> max_file_bytes" "valid_utf8 content"
    by (auto simp: read_text_def step_results ok_def err_def split: if_splits)
  have d: "dk_entries d1 = dk_entries d" using quietD [OF quiet_lookup(4) d1] .
  obtain bytes where bytes: "entry_at (dk_entries d1) h = Some (Regular bytes)"
    and cut: "content = take (max_file_bytes + 1) bytes" using handle_read_result [OF d2] by blast
  have "content = bytes" using c(1) unfolding cut by simp
  with bytes c quietD [OF quiet_paths(6) assms] show ?thesis unfolding d by blast
qed

section \<open>Patches\<close>

text \<open>\<open>old\<close> occurs in a text once, at \<open>i\<close>, counting every place where a character begins.\<close>

definition occurs_once_at :: "string \<Rightarrow> string \<Rightarrow> nat \<Rightarrow> bool" where
  "occurs_once_at old content i \<longleftrightarrow>
     starts_with (drop i content) old \<and>
     (\<forall>j\<le>length content. is_char_boundary content j \<longrightarrow> starts_with (drop j content) old \<longrightarrow> j = i)"

lemma inside_first_char:
  assumes "0 < j" and "j < first_char_length s" and "j < length s"
  shows "\<not> starts_char (s ! j)"
proof -
  obtain c r where s: "s = c # r" using assms by (cases s) auto
  have "j - 1 < length (takeWhile (\<lambda>c. \<not> starts_char c) r)"
    using assms by (auto simp: first_char_length_def s)
  then have "\<not> starts_char (r ! (j - 1))" by (metis nth_mem set_takeWhileD takeWhile_nth)
  then show ?thesis using assms(1) by (simp add: s nth_Cons')
qed

lemma patch_text_result:
  assumes "patch_text before old new d = (Inr after, d')" and "old \<noteq> []"
  shows "\<exists>i. occurs_once_at old before i \<and> before = take i before @ old @ drop (i + length old) before \<and>
    after = take i before @ new @ drop (i + length old) before \<and> length after \<le> max_file_bytes \<and> d' = d"
proof -
  obtain i where i: "find_text old before = Some i"
    and none: "find_text old (drop (i + first_char_length (drop i before)) before) = None"
    and after: "after = take i before @ new @ drop (i + length old) before" "length after \<le> max_file_bytes" "d' = d"
    using assms(1) by (auto simp: patch_text_def ok_def err_def contains_literal_def Let_def not_less split: option.splits if_splits)
  from find_text_Some [OF i] obtain t where t: "drop i before = old @ t" "i \<le> length before"
    and first: "\<forall>j<i. \<not> starts_with (drop j before) old" by blast
  have here: "before = take i before @ old @ drop (i + length old) before"
  proof -
    have "drop (i + length old) before = t" using t by (metis add.commute append_eq_conv_conj drop_drop)
    then show ?thesis using t(1) by (metis append_take_drop_id)
  qed
  have "j = i" if j: "j \<le> length before" "is_char_boundary before j" "starts_with (drop j before) old" for j
  proof (rule ccontr)
    let ?n = "first_char_length (drop i before)"
    assume "j \<noteq> i"
    with first j have "i < j" by (metis linorder_neqE_nat)
    have "drop j before \<noteq> []" using j(3) assms(2) by (auto simp: starts_with_append)
    then have lt: "j < length before" by simp
    show False
    proof (cases "j < i + ?n")
      case True
      then have "\<not> starts_char (drop i before ! (j - i))"
        using \<open>i < j\<close> lt by (intro inside_first_char) auto
      then show False using j(2) lt \<open>i < j\<close> by (auto simp: is_char_boundary_def)
    next
      case False
      then have "drop j before = drop (j - (i + ?n)) (drop (i + ?n) before)" by simp
      with none j(3) lt show False unfolding find_text_None by (auto simp: diff_le_mono)
    qed
  qed
  then have "occurs_once_at old before i" using t(1) by (auto simp: occurs_once_at_def starts_with_append)
  with here after show ?thesis by blast
qed

text \<open>The arguments of a prepared patch.\<close>

definition patch_args :: "path \<Rightarrow> string \<Rightarrow> string \<Rightarrow> string \<Rightarrow> string \<Rightarrow> json" where
  "patch_args p before after old new =
     jobject [(''path'', path_json p), (''before'', JString before), (''after'', JString after),
       (''old_text'', JString old), (''new_text'', JString new)]"

lemma patch_args_fields [simp]:
  "jget (patch_args p before after old new) ''path'' = Some (path_json p)"
  "jget (patch_args p before after old new) ''before'' = Some (JString before)"
  "jget (patch_args p before after old new) ''after'' = Some (JString after)"
  by (simp_all add: patch_args_def)

lemma prepared_edit_arguments [simp]:
  "ca_arguments (pc_action (prepared_edit call name args ws w)) = args"
  "ca_effect (pc_action (prepared_edit call name args ws w)) = (if w then WorkspaceWrite else ReadOnly)"
  by (simp_all add: prepared_edit_def CanonicalAction_new_def in_scope_def)

lemma apply_patch_prepare_result:
  assumes "apply_patch_prepare ws call d = (Inr prepared, d')"
  obtains p s content changed old new i where
    "prepared = prepared_edit call ''apply_patch'' (patch_args p content changed old new) ws True"
    "resolve (dk_entries d) (ws @ path_components s) = Some p" "prefix ws p" "occurs_once_at old content i"
    "content = take i content @ old @ drop (i + length old) content"
    "changed = take i content @ new @ drop (i + length old) content"
proof -
  from assms obtain s p d1 d2 d3 d4 d5 d6 h old new content changed where
    p: "resolve_existing_file ws s d1 = (Inr p, d2)" and s: "string_argument (tc_arguments call) ''path'' d = (Inr s, d1)"
    and old: "old \<noteq> []" and patched: "patch_text content old new d5 = (Inr changed, d6)"
    and prepared: "prepared = prepared_edit call ''apply_patch'' (patch_args p content changed old new) ws True"
    by (auto simp: apply_patch_prepare_def step_results ok_def err_def patch_args_def split: if_splits)
  have "dk_entries d1 = dk_entries d" using quietD [OF quiet_paths(1) s] .
  with resolve_existing_result [OF p] patch_text_result [OF patched old] prepared that show ?thesis by auto
qed

text \<open>A write and a cut at a regular file change that file only.\<close>

definition only_changes :: "path \<Rightarrow> disk \<Rightarrow> disk \<Rightarrow> bool" where
  "only_changes h d d' \<longleftrightarrow> (\<forall>q. q \<noteq> h \<longrightarrow> entry_at (dk_entries d') q = entry_at (dk_entries d) q)"

definition holds_file :: "path \<Rightarrow> disk \<Rightarrow> bool" where
  "holds_file h d \<longleftrightarrow> h \<noteq> root_folder \<and> (\<exists>bytes. entry_at (dk_entries d) h = Some (Regular bytes))"

lemma put_bytes_file:
  "holds_file h d \<Longrightarrow> entry_at (dk_entries (put_bytes h bytes d)) q =
     (if q = h then Some (Regular bytes) else entry_at (dk_entries d) q)"
  by (auto simp: holds_file_def put_bytes_def put_entry_def entry_at_def)

lemma handle_write_file:
  assumes "handle_write h bytes d = (r, d')" and "holds_file h d"
  shows "only_changes h d d' \<and> holds_file h d' \<and>
    (\<forall>u old. r = Inr u \<longrightarrow> entry_at (dk_entries d) h = Some (Regular old) \<longrightarrow>
      entry_at (dk_entries d') h = Some (Regular (bytes @ drop (length bytes) old)))"
proof -
  have held: "holds_file h (d\<lparr>dk_host := x\<rparr>)" for x using assms(2) by (simp add: holds_file_def)
  show ?thesis using assms put_bytes_file [OF held]
    by (auto simp: handle_write_def Let_def only_changes_def holds_file_def handle_bytes_def
        split: prod.splits io_outcome.splits)
qed

lemma handle_set_len_file:
  assumes "handle_set_len h n d = (r, d')" and "holds_file h d"
  shows "only_changes h d d' \<and> holds_file h d' \<and>
    (\<forall>u old. r = Inr u \<longrightarrow> entry_at (dk_entries d) h = Some (Regular old) \<longrightarrow>
      entry_at (dk_entries d') h = Some (Regular (take n old @ replicate (n - length old) (CHR 0x00))))"
proof (cases "disk_io d")
  case (Pair io e)
  have e: "dk_entries e = dk_entries d" using quietD [OF quiet_disk(1) Pair] .
  then have held: "holds_file h e" using assms(2) by (simp add: holds_file_def)
  show ?thesis using assms Pair e put_bytes_file [OF held]
    by (auto simp: handle_set_len_def and_then_def writes_def only_changes_def holds_file_def handle_bytes_def
        split: sum.splits)
qed

lemma replace_contents:
  assumes "and_then (handle_write h bytes) (\<lambda>_. and_then (handle_set_len h (length bytes)) (\<lambda>_. disk_io)) d = (r, d')"
    and "holds_file h d"
  shows "only_changes h d d' \<and> (\<forall>u. r = Inr u \<longrightarrow> entry_at (dk_entries d') h = Some (Regular bytes))"
proof (cases "handle_write h bytes d")
  case (Pair r1 d1)
  note one = handle_write_file [OF Pair assms(2)]
  show ?thesis
  proof (cases r1)
    case (Inl e)
    then show ?thesis using assms(1) Pair one by (auto simp: and_then_def)
  next
    case (Inr u)
    obtain r2 d2 where two: "handle_set_len h (length bytes) d1 = (r2, d2)" by fastforce
    note after = handle_set_len_file [OF two conjunct1 [OF conjunct2 [OF one]]]
    obtain r3 d3 where three: "disk_io d2 = (r3, d3)" by fastforce
    have same: "dk_entries d3 = dk_entries d2" using quietD [OF quiet_disk(1) three] .
    have "only_changes h d d2" using one after by (simp add: only_changes_def)
    moreover have "r2 = Inr v \<Longrightarrow> entry_at (dk_entries d2) h = Some (Regular bytes)" for v
      using one after Inr assms(2) by (auto simp: holds_file_def)
    moreover have "(r2 = r \<and> d2 = d' \<and> (\<exists>e. r2 = Inl e)) \<or> (d3 = d' \<and> (\<exists>v. r2 = Inr v))"
      using assms(1) Pair Inr two three by (auto simp: and_then_def split: sum.splits)
    ultimately show ?thesis using same by (auto simp: only_changes_def)
  qed
qed

lemma quiet_map [quiet]: "same_entries (invalid m)"
  by (rule quiet_basic)

text \<open>The steps of a patch before its first write.\<close>

definition patch_checks :: "path \<Rightarrow> path \<Rightarrow> string \<Rightarrow> path tooling" where
  "patch_checks ws p content =
     and_then refuse_cancelled_tool (\<lambda>_.
     and_then (checked_path ws p) (\<lambda>q.
     and_then (failing (disk_open_existing q)) (\<lambda>h.
     and_then (read_text h) (\<lambda>found.
     if found \<noteq> content then invalid ''patch conflict: file changed after preparation''
     else and_then (failing disk_io) (\<lambda>_. and_then refuse_cancelled_tool (\<lambda>_. ok h))))))"

lemma quiet_checks [quiet]: "same_entries (patch_checks ws p content)"
  unfolding patch_checks_def by (intro quiet)

lemma apply_patch_execute_split:
  assumes "list_all proper_name p"
  shows "apply_patch_execute ws (prepared_edit call name (patch_args p content changed old new) scope w) =
    and_then (patch_checks ws p content) (\<lambda>h.
    and_then (map_err OutcomeUnknown
      (and_then (handle_write h changed) (\<lambda>_. and_then (handle_set_len h (length changed)) (\<lambda>_. disk_io)))) (\<lambda>_.
    ok (jobject [(''path'', path_json p), (''bytes_written'', JUint (of_nat (length changed)))])))"
proof -
  have q: "checked_path ws p s = (Inr q, s') \<Longrightarrow> q = p" for q s s'
    using checked_path_result [OF _ assms] by blast
  have cong: "and_then (checked_path ws p) k = and_then (checked_path ws p) k'" if "k p = k' p"
    for k k' :: "path \<Rightarrow> json tooling"
    by (rule ext) (use that in \<open>auto simp: and_then_def dest!: q split: prod.split sum.split\<close>)
  show ?thesis
    using assms
    by (simp add: apply_patch_execute_def patch_checks_def path_argument_def string_argument_def jfield_def
        path_json_def components_display and_then_assoc if_distrib [of "\<lambda>m. and_then m _"] cong: if_cong)
      (intro arg_cong [where f = "and_then _"] ext cong; simp add: and_then_assoc if_distrib [of "\<lambda>m. and_then m _"])
qed

lemma open_existing_result:
  "disk_open_existing p d = (Inr h, d') \<Longrightarrow> resolve (dk_entries d) p = Some h"
  by (auto simp: disk_open_existing_def step_results dest!: canonicalize_result split: if_splits)

lemma patch_checks_result:
  assumes "patch_checks ws p content d = (Inr h, d')" and "list_all proper_name p"
  shows "h = p \<and> resolve (dk_entries d) p = Some p \<and> entry_at (dk_entries d) p = Some (Regular content) \<and>
    dk_entries d' = dk_entries d"
proof -
  from assms(1) obtain d1 d2 d3 d4 q where d1: "refuse_cancelled_tool d = (Inr (), d1)"
    and q: "checked_path ws p d1 = (Inr q, d2)" and h: "disk_open_existing q d2 = (Inr h, d3)"
    and found: "read_text h d3 = (Inr content, d4)"
    by (auto simp: patch_checks_def step_results ok_def err_def split: if_splits)
  note same = quietD [OF quiet_paths(7) d1] quietD [OF quiet_paths(5) q] quietD [OF quiet_lookup(6) h]
    quietD [OF quiet_checks assms(1)]
  have at: "q = p" "resolve (dk_entries d) p = Some p" using checked_path_result [OF q assms(2)] same by auto
  have "h = p" using open_existing_result [OF h] at same by simp
  with at same read_text_result [OF found] show ?thesis by auto
qed

text \<open>C30 A patch that was prepared replaces the one occurrence of the text to replace, inside the
  workspace, and nothing else: executed later, on whatever the disk has become, it either finds the file
  exactly as it was shown for approval and leaves it with exactly the text that was shown, every other
  file as it was, or fails; a failure before the first write changes nothing, and a later one says that the
  outcome is unknown and has touched that file only.\<close>

theorem patch_applies_what_was_approved:
  assumes "apply_patch_prepare ws call d0 = (Inr prepared, d1)" and "list_all proper_name ws"
    and "apply_patch_execute ws prepared d = (r, d')"
  shows "\<exists>p content changed old new i.
    ca_arguments (pc_action prepared) = patch_args p content changed old new \<and>
    ca_effect (pc_action prepared) = WorkspaceWrite \<and> prefix ws p \<and>
    occurs_once_at old content i \<and>
    content = take i content @ old @ drop (i + length old) content \<and>
    changed = take i content @ new @ drop (i + length old) content \<and>
    (case r of
       Inr _ \<Rightarrow> resolve (dk_entries d) p = Some p \<and> entry_at (dk_entries d) p = Some (Regular content) \<and>
         entry_at (dk_entries d') p = Some (Regular changed) \<and> only_changes p d d'
     | Inl (OutcomeUnknown _) \<Rightarrow> only_changes p d d'
     | Inl _ \<Rightarrow> dk_entries d' = dk_entries d)"
proof -
  from apply_patch_prepare_result [OF assms(1)] obtain p s content changed old new i where
    prepared: "prepared = prepared_edit call ''apply_patch'' (patch_args p content changed old new) ws True"
    and p: "resolve (dk_entries d0) (ws @ path_components s) = Some p" "prefix ws p" "occurs_once_at old content i"
    "content = take i content @ old @ drop (i + length old) content"
    "changed = take i content @ new @ drop (i + length old) content" .
  have proper: "list_all proper_name p" by (rule resolve_proper [OF p(1) assms(2)])
  obtain c d2 where checks: "patch_checks ws p content d = (c, d2)" by fastforce
  have same: "dk_entries d2 = dk_entries d" by (rule quietD [OF quiet_checks checks])
  have "case r of
       Inr _ \<Rightarrow> resolve (dk_entries d) p = Some p \<and> entry_at (dk_entries d) p = Some (Regular content) \<and>
         entry_at (dk_entries d') p = Some (Regular changed) \<and> only_changes p d d'
     | Inl (OutcomeUnknown _) \<Rightarrow> only_changes p d d'
     | Inl _ \<Rightarrow> dk_entries d' = dk_entries d"
  proof (cases c)
    case (Inl e)
    then show ?thesis
      using assms(3) checks same unfolding prepared apply_patch_execute_split [OF proper]
      by (auto simp: and_then_def only_changes_def split: tool_error.split)
  next
    case (Inr h)
    note at = patch_checks_result [OF checks [unfolded Inr] proper]
    have "p \<noteq> root_folder" using at by auto
    then have held: "holds_file p d2" using at by (auto simp: holds_file_def)
    define body where "body = and_then (handle_write p changed)
      (\<lambda>_. and_then (handle_set_len p (length changed)) (\<lambda>_. disk_io))"
    obtain w d3 where writing: "body d2 = (w, d3)" by fastforce
    have run: "and_then (map_err OutcomeUnknown body) (\<lambda>_.
      ok (jobject [(''path'', path_json p), (''bytes_written'', JUint (of_nat (length changed)))])) d2 = (r, d')"
      using assms(3) checks Inr at unfolding prepared apply_patch_execute_split [OF proper] body_def
      by (simp add: steps_on)
    have "d' = d3 \<and> (case w of Inl e \<Rightarrow> r = Inl (OutcomeUnknown e) | Inr _ \<Rightarrow> \<exists>v. r = Inr v)"
      using run unfolding answer_on [of body d2, OF writing] by (auto split: sum.splits)
    with replace_contents [OF writing [unfolded body_def] held] at same show ?thesis
      by (auto simp: only_changes_def split: sum.splits)
  qed
  with prepared p show ?thesis by (intro exI [of _ p] exI [of _ content] exI [of _ changed] exI [of _ old] exI [of _ new] exI [of _ i]) simp
qed

end
