(* ===== verification/ShellProperties.thy ===== *)
theory ShellProperties
  imports ProcessProperties EditingProperties
begin

text \<open>
  What running a command promises its callers: the output, the signal to its group, the sandbox, the
  prepared request.
\<close>

section \<open>Every runner\<close>

text \<open>C32 A command that returns an output returns, for each pipe, the first \<open>m\<close> bytes of what was read
  from it in the order it was read, as text, and marks it truncated exactly when more was read or the end
  of the pipe was not reached.\<close>

theorem command_output_exact:
  assumes "run_command command timeout m w = (Inr out, w')"
  shows "(\<exists>n. po_stdout out = from_utf8_lossy (take m (received w Stdout n)) \<and>
      po_stdout_truncated out = (m < length (received w Stdout n) \<or> \<not> ended w Stdout n)) \<and>
    (\<exists>n. po_stderr out = from_utf8_lossy (take m (received w Stderr n)) \<and>
      po_stderr_truncated out = (m < length (received w Stderr n) \<or> \<not> ended w Stderr n))"
  using run_command_result [OF assms] by (auto simp: output_of_def)

text \<open>C33 Whatever a call to run a command returns (an output, a failure, a timeout, a cancellation), the
  process it started, and there is at most one, has had its whole group signalled.\<close>

theorem group_always_signalled:
  assumes "run_command command timeout m w = (r, w')" and "pw_pid w \<le> maximum_pid"
  shows "((\<exists>e. r = Inl e) \<and> pw_steps w' = pw_steps w) \<or>
    (\<exists>rest. pw_steps w' = pw_steps w @ Spawned command # rest \<and> (\<forall>c. Spawned c \<notin> set rest) \<and>
      Signalled_group \<in> set rest)"
  using run_command_result [OF assms(1)] assms(2) by (auto simp: launched_def)

section \<open>The sandbox\<close>

text \<open>What bubblewrap documents of the options used here: what is mounted, in order, what is shared,
  where it starts and what it runs.\<close>

datatype mount = Mount_read_only string string | Mount_writable string string | Mount_proc string
  | Mount_dev string | Mount_tmpfs string

record sandbox =
  sb_unshare_all :: bool
  sb_share_net :: bool
  sb_mounts :: "mount list"
  sb_start :: "string option"
  sb_program :: "string list"

fun bwrap :: "string list \<Rightarrow> sandbox \<Rightarrow> sandbox option" where
  "bwrap [] b = None"
| "bwrap (a # r) b =
     (if a = ''--die-with-parent'' \<or> a = ''--new-session'' then bwrap r b
      else if a = ''--unshare-all'' then bwrap r (b\<lparr>sb_unshare_all := True\<rparr>)
      else if a = ''--share-net'' then bwrap r (b\<lparr>sb_share_net := True\<rparr>)
      else if a = ''--ro-bind''
        then (case r of x # y # r' \<Rightarrow> bwrap r' (b\<lparr>sb_mounts := sb_mounts b @ [Mount_read_only x y]\<rparr>) | _ \<Rightarrow> None)
      else if a = ''--bind''
        then (case r of x # y # r' \<Rightarrow> bwrap r' (b\<lparr>sb_mounts := sb_mounts b @ [Mount_writable x y]\<rparr>) | _ \<Rightarrow> None)
      else if a = ''--proc''
        then (case r of x # r' \<Rightarrow> bwrap r' (b\<lparr>sb_mounts := sb_mounts b @ [Mount_proc x]\<rparr>) | _ \<Rightarrow> None)
      else if a = ''--dev''
        then (case r of x # r' \<Rightarrow> bwrap r' (b\<lparr>sb_mounts := sb_mounts b @ [Mount_dev x]\<rparr>) | _ \<Rightarrow> None)
      else if a = ''--tmpfs''
        then (case r of x # r' \<Rightarrow> bwrap r' (b\<lparr>sb_mounts := sb_mounts b @ [Mount_tmpfs x]\<rparr>) | _ \<Rightarrow> None)
      else if a = ''--chdir''
        then (case r of x # r' \<Rightarrow> bwrap r' (b\<lparr>sb_start := Some x\<rparr>) | _ \<Rightarrow> None)
      else if take 2 a = ''--'' then None
      else Some (b\<lparr>sb_program := a # r\<rparr>))"

definition empty_sandbox :: sandbox where
  "empty_sandbox = \<lparr>sb_unshare_all = False, sb_share_net = False, sb_mounts = [], sb_start = None, sb_program = []\<rparr>"

definition mounts_read_only :: "path list \<Rightarrow> mount list" where
  "mounts_read_only ps = map (\<lambda>p. Mount_read_only (path_display p) (path_display p)) ps"

lemma bwrap_ro_binds:
  "bwrap (concat (map ro_bind ps) @ r) b = bwrap r (b\<lparr>sb_mounts := sb_mounts b @ mounts_read_only ps\<rparr>)"
  by (induction ps arbitrary: b) (simp_all add: ro_bind_def mounts_read_only_def)

lemma system_binds_result:
  "system_binds ps w = (Inr args, w') \<Longrightarrow> \<exists>qs. set qs \<subseteq> set ps \<and> args = concat (map ro_bind qs)"
proof (induction ps arbitrary: w args w')
  case Nil
  then show ?case by (auto simp: ok_def)
next
  case (Cons p ps)
  then obtain there rest w1 w2 where r: "system_binds ps w1 = (Inr rest, w2)"
    and args: "args = (if there then ro_bind p else []) @ rest"
    by (auto simp: and_then_value ok_def)
  from Cons.IH [OF r] obtain qs where "set qs \<subseteq> set ps" "rest = concat (map ro_bind qs)" by blast
  then have "set (if there then p # qs else qs) \<subseteq> set (p # ps) \<and>
    args = concat (map ro_bind (if there then p # qs else qs))" using args by auto
  then show ?case by blast
qed

lemma additional_binds_result:
  "additional_binds ps w = (Inr args, w') \<Longrightarrow> \<exists>qs. length qs = length ps \<and> args = concat (map ro_bind qs)"
proof (induction ps arbitrary: w args w')
  case Nil
  then show ?case by (auto simp: ok_def)
next
  case (Cons p ps)
  then obtain q rest w1 w2 where r: "additional_binds ps w1 = (Inr rest, w2)" and args: "args = ro_bind q @ rest"
    by (auto simp: and_then_value ok_def)
  from Cons.IH [OF r] obtain qs where "length qs = length ps" "rest = concat (map ro_bind qs)" by blast
  then show ?case using args by (intro exI [of _ "q # qs"]) simp
qed

definition confined :: "bubblewrap \<Rightarrow> process_request \<Rightarrow> string list \<Rightarrow> bool" where
  "confined b request args \<longleftrightarrow> (\<exists>cwd system additional.
     prefix (bw_workspace b) cwd \<and> set system \<subseteq> set system_paths \<and>
     length additional = length (bw_read_only_binds b) \<and>
     bwrap args empty_sandbox = Some
       \<lparr>sb_unshare_all = True, sb_share_net = bw_allow_network b,
        sb_mounts = mounts_read_only (system @ additional) @
          [Mount_proc ''/proc'', Mount_dev ''/dev'', Mount_tmpfs ''/tmp'',
           Mount_writable (path_display (bw_workspace b)) (path_display (bw_workspace b))],
        sb_start = Some (path_display cwd), sb_program = [''/bin/sh'', ''-lc'', pr_command request]\<rparr>)"

lemma arguments_confined:
  assumes "bubblewrap_arguments b request w = (Inr args, w')"
  shows "confined b request args"
proof -
  from assms obtain cwd sys add w1 w2 w3 where cwd: "path_starts_with cwd (bw_workspace b)"
    and sys: "system_binds system_paths w1 = (Inr sys, w2)"
    and add: "additional_binds (bw_read_only_binds b) w2 = (Inr add, w3)"
    and args: "args = [''--die-with-parent'', ''--new-session'', ''--unshare-all'']
         @ (if bw_allow_network b then [''--share-net''] else []) @ sys @ add
         @ [''--proc'', ''/proc'', ''--dev'', ''/dev'', ''--tmpfs'', ''/tmp'',
            ''--bind'', path_display (bw_workspace b), path_display (bw_workspace b),
            ''--chdir'', path_display cwd, shell_program, ''-lc'', pr_command request]"
    by (auto simp: bubblewrap_arguments_def and_then_value ok_def err_def split: if_splits)
  from system_binds_result [OF sys] additional_binds_result [OF add] obtain qs rs where
    "set qs \<subseteq> set system_paths" "length rs = length (bw_read_only_binds b)"
    "sys @ add = concat (map ro_bind (qs @ rs))" by auto
  with cwd show ?thesis
    unfolding confined_def args
    by (intro exI [of _ cwd] exI [of _ qs] exI [of _ rs])
      (simp add: path_starts_with_prefix empty_sandbox_def shell_program_def append_assoc [symmetric] bwrap_ro_binds
        del: append_assoc map_append)
qed

text \<open>Only running a command adds steps.\<close>

lemma steps_look: "preserves (\<lambda>w. pw_steps w = steps) (on_files f)"
  by (auto simp: preserves_def triple_def on_files_def split: prod.split sum.split)

lemma steps_binds:
  "preserves (\<lambda>w. pw_steps w = steps) (system_binds ps)" "preserves (\<lambda>w. pw_steps w = steps) (additional_binds ps)"
  by (induction ps) (auto intro!: frame steps_look)

lemma steps_arguments: "preserves (\<lambda>w. pw_steps w = steps) (bubblewrap_arguments b request)"
  unfolding bubblewrap_arguments_def by (intro frame steps_look steps_binds)

text \<open>A runner either starts nothing and fails or starts one command and signals its group.\<close>

definition ran :: "(command \<Rightarrow> bool) \<Rightarrow> process_world \<Rightarrow> process_error + 'a \<Rightarrow> process_world \<Rightarrow> bool" where
  "ran P w r w' \<longleftrightarrow> (pw_steps w' = pw_steps w \<and> (\<exists>e. r = Inl e)) \<or>
     (\<exists>command rest. P command \<and> pw_steps w' = pw_steps w @ Spawned command # rest \<and> (\<forall>c. Spawned c \<notin> set rest))"

lemma run_command_ran:
  assumes "run_command command timeout m w1 = (r, w')" and "pw_steps w1 = pw_steps w" and "P command"
  shows "ran P w r w'"
  using run_command_result [OF assms(1)] assms(2,3) by (auto simp: ran_def launched_def)

text \<open>The bubblewrap runner starts at most one command, with no environment, and its options, read as
  bubblewrap documents them, share the network only when it was allowed, mount one writable folder, the
  workspace, beside a private \<open>/tmp\<close>, and everything else read-only: present system folders and the folders
  it was configured with; they start in the workspace and run the requested command.\<close>

lemma sandbox_confined:
  assumes "BubblewrapRunner b request u = (r, w')" and "pw_steps u = pw_steps w"
  shows "ran (\<lambda>c. \<exists>args. confined b request args \<and>
    c = \<lparr>cm_program = bw_binary b, cm_arguments = args, cm_directory = None, cm_clear_environment = True\<rparr>) w r w'"
    (is "ran ?P w r w'")
proof -
  obtain c w1 where look: "(process_cancelled :: bool running) u = (c, w1)" by fastforce
  have w1: "pw_steps w1 = pw_steps w" using preservesD [OF steps_look _ look] assms(2) by simp
  obtain a w2 where args: "bubblewrap_arguments b request w1 = (a, w2)" by fastforce
  have w2: "pw_steps w2 = pw_steps w" using preservesD [OF steps_arguments _ args] w1 by simp
  show ?thesis
  proof (cases "c = Inr False \<and> (\<exists>x. a = Inr x)")
    case True
    then obtain x where x: "c = Inr False" "a = Inr x" by blast
    with assms(1) look args have "run_command \<lparr>cm_program = bw_binary b, cm_arguments = x, cm_directory = None,
        cm_clear_environment = True\<rparr> (pr_timeout_ms request) (bw_maximum_output_bytes b) w2 = (r, w')"
      by (simp add: BubblewrapRunner_def and_then_def)
    from run_command_ran [OF this w2, of ?P] arguments_confined x args show ?thesis by blast
  next
    case False
    then have "pw_steps w' = pw_steps w \<and> (\<exists>e. r = Inl e)"
      using assms(1) look args w1 w2
      by (auto simp: BubblewrapRunner_def and_then_def err_def split: sum.splits if_splits)
    then show ?thesis by (simp add: ran_def)
  qed
qed

section \<open>The shell tool\<close>

lemma one_le_word: "x \<noteq> 0 \<Longrightarrow> 1 \<le> (x :: u64)"
  by (simp add: word_le_nat_alt Suc_le_eq unat_gt_0)

lemma clamp_timeout_bounds:
  "1 \<le> m \<Longrightarrow> 1 \<le> clamp_timeout n m \<and> clamp_timeout n m \<le> m"
  by (auto simp: clamp_timeout_def Let_def not_less intro: one_le_word)

lemma decode_prepared:
  "list_all proper_name ws \<Longrightarrow>
   decode_request (jobject [(''command'', JString c), (''working_directory'', path_json ws), (''timeout_ms'', JUint n)]) =
     Some \<lparr>pr_command = c, pr_working_directory = ws, pr_timeout_ms = n\<rparr>"
  by (simp add: decode_request_def jfield_def path_json_def components_display)

lemma local_runner_ran:
  assumes "LocalProcessRunner m \<lparr>pr_command = command, pr_working_directory = dir, pr_timeout_ms = timeout\<rparr> u = (p, v)"
    and "pw_steps u = pw_steps w"
  shows "ran (\<lambda>c. c = \<lparr>cm_program = ''/bin/sh'', cm_arguments = [''-lc'', command], cm_directory = Some dir,
    cm_clear_environment = False\<rparr>) w p v"
proof -
  obtain c u2 where look: "(process_cancelled :: bool running) u = (c, u2)" by fastforce
  have u2: "pw_steps u2 = pw_steps w" using preservesD [OF steps_look _ look] assms(2) by simp
  show ?thesis
  proof (cases "c = Inr False")
    case True
    with assms(1) look have "run_command \<lparr>cm_program = ''/bin/sh'', cm_arguments = [''-lc'', command],
        cm_directory = Some dir, cm_clear_environment = False\<rparr> timeout m u2 = (p, v)"
      by (simp add: LocalProcessRunner_def and_then_def shell_program_def)
    from run_command_ran [OF this u2] show ?thesis by simp
  next
    case False
    with assms(1) look u2 show ?thesis
      by (auto simp: LocalProcessRunner_def and_then_def err_def ran_def split: sum.splits if_splits)
  qed
qed

lemma shell_prepare_result:
  assumes "shell_prepare t call w = (Inr prepared, w')"
  obtains command where "\<not> blank command"
    and "ca_arguments (pc_action prepared) = jobject [(''command'', JString command),
      (''working_directory'', path_json (sh_workspace t)), (''timeout_ms'',
        JUint (clamp_timeout (jfield as_u64 (tc_arguments call) ''timeout_ms'') (sh_maximum_timeout_ms t)))]"
  using assms
  by (auto simp: shell_prepare_def and_then_value ok_def err_def CanonicalAction_new_def in_scope_def split: if_splits)

text \<open>How the tool's result follows from the runner's.\<close>

definition shell_result :: "tool_error + json \<Rightarrow> process_error + process_output \<Rightarrow> bool" where
  "shell_result r p \<longleftrightarrow> (case p of
       Inl Process_Cancelled \<Rightarrow> r = Inl (OutcomeUnknown (process_error_text Process_Cancelled))
     | Inl e \<Rightarrow> r = Inl (Execution (process_error_text e))
     | Inr out \<Rightarrow> r = Inr (output_json out))"

text \<open>Executing a prepared command runs it, unless the tool was cancelled before.\<close>

lemma shell_executes_prepared:
  assumes "shell_prepare t call w0 = (Inr prepared, w1)" and "list_all proper_name (sh_workspace t)"
    and "1 \<le> sh_maximum_timeout_ms t" and "shell_execute decode_error t prepared w = (r, w')"
  obtains command timeout u where "\<not> blank command" "1 \<le> timeout" "timeout \<le> sh_maximum_timeout_ms t"
    "ca_arguments (pc_action prepared) = jobject [(''command'', JString command),
      (''working_directory'', path_json (sh_workspace t)), (''timeout_ms'', JUint timeout)]"
    "pw_steps u = pw_steps w"
    "r = Inl Tool_Cancelled \<and> w' = u \<or> (\<exists>p. sh_runner t \<lparr>pr_command = command,
      pr_working_directory = sh_workspace t, pr_timeout_ms = timeout\<rparr> u = (p, w') \<and> shell_result r p)"
proof -
  let ?timeout = "clamp_timeout (jfield as_u64 (tc_arguments call) ''timeout_ms'') (sh_maximum_timeout_ms t)"
  from assms(1) obtain command where command: "\<not> blank command"
    and args: "ca_arguments (pc_action prepared) = jobject [(''command'', JString command),
      (''working_directory'', path_json (sh_workspace t)), (''timeout_ms'', JUint ?timeout)]"
    by (rule shell_prepare_result)
  obtain c u where look: "(process_cancelled :: process_world \<Rightarrow> (tool_error + bool) \<times> process_world) w = (c, u)"
    by fastforce
  have u: "pw_steps u = pw_steps w" using preservesD [OF steps_look _ look] by simp
  have "c \<noteq> Inl e" for e
    using look by (auto simp: on_files_def disk_cancelled_def)
  then consider "c = Inr True" | "c = Inr False" by (cases c) auto
  then have "r = Inl Tool_Cancelled \<and> w' = u \<or> (\<exists>p. sh_runner t \<lparr>pr_command = command,
      pr_working_directory = sh_workspace t, pr_timeout_ms = ?timeout\<rparr> u = (p, w') \<and> shell_result r p)"
  proof cases
    case 1
    then show ?thesis using assms(4) look by (simp add: shell_execute_def and_then_def err_def)
  next
    case 2
    then show ?thesis
      using assms(4) look
      by (auto simp: shell_execute_def args decode_prepared [OF assms(2)] and_then_def map_err_def attempt_def
          ok_def err_def shell_error_def shell_result_def split: prod.splits sum.splits process_error.splits)
  qed
  with that [of command ?timeout u] command args u clamp_timeout_bounds [OF assms(3)] show ?thesis by blast
qed

end
