(* ===== verification/ToolsetProperties.thy ===== *)
theory ToolsetProperties
  imports Toolset ShellProperties
begin

text \<open>
  What the terminal program registers, and what a command that its shell tool runs may do.
\<close>

section \<open>Registering\<close>

lemma on_world_value:
  "on_world m (w, registry) = (Inr a, s) \<longleftrightarrow> (\<exists>w'. m w = (Inr a, w') \<and> s = (w', registry))"
  by (auto simp: on_world_def split: prod.splits)

lemma register_tool_value:
  "register_tool t (w, registry) = (Inr (), s) \<longleftrightarrow>
     (\<exists>registry'. register_arc t registry = Inr registry' \<and> s = (w, registry'))"
  by (auto simp: register_tool_def split: sum.splits)

lemma register_arc_value:
  "register_arc t registry = Inr registry' \<Longrightarrow>
     registry' = bt_insert (td_name (t_definition t)) \<lparr>rg_definition = t_definition t, rg_implementation = t\<rparr> registry"
  by (auto simp: register_arc_def Let_def split: if_splits)

lemma process_directory_value:
  assumes "process_directory p d = (Inr q, d')"
  shows "resolve (dk_entries d) p = Some q \<and> dk_entries d' = dk_entries d"
proof -
  have "same_entries (process_directory p)"
    unfolding process_directory_def by (intro quiet)
  from quietD [OF this assms] show ?thesis
    using assms by (auto simp: process_directory_def and_then_value map_err_def attempt_def disk_canonicalize_def
        ok_def err_def split: prod.splits sum.splits option.splits if_splits dest: quietD [OF quiet_disk(1)])
qed

text \<open>The tools, the workspace and the runner that the program registers.\<close>

lemma directory_on_files_value:
  assumes "on_files (process_directory p) w = (Inr q, w')"
  shows "resolve (dk_entries (pw_disk w)) p = Some q \<and> dk_entries (pw_disk w') = dk_entries (pw_disk w)"
  using assms process_directory_value by (fastforce simp: on_files_def split: prod.splits)

lemma file_tool_on_files_value:
  assumes "on_files (file_tool_new p) w = (Inr t, w')"
  shows "dk_entries (pw_disk w') = dk_entries (pw_disk w)"
  using assms process_directory_value by (fastforce simp: on_files_def file_tool_new_def and_then_value ok_def split: prod.splits)

lemma shell_tool_new_value:
  assumes "shell_tool_new p runner w = (Inr t, w')"
  shows "\<exists>q. resolve (dk_entries (pw_disk w)) p = Some q \<and> dk_entries (pw_disk w') = dk_entries (pw_disk w) \<and>
    t = \<lparr>sh_workspace = q, sh_runner = runner, sh_maximum_timeout_ms = 120000\<rparr>"
  using assms directory_on_files_value by (fastforce simp: shell_tool_new_def and_then_value ok_def)

text \<open>The runner that the settings ask for, over a workspace.\<close>

definition runner_for :: "options \<Rightarrow> path \<Rightarrow> process_runner" where
  "runner_for opts ws =
     (if op_unsafe_local opts then LocalProcessRunner 1048576
      else BubblewrapRunner \<lparr>bw_binary = ''bwrap'', bw_workspace = ws, bw_maximum_output_bytes = 1048576,
        bw_allow_network = False, bw_read_only_binds = []\<rparr>)"

lemma runner_for_ran:
  assumes "runner_for opts ws \<lparr>pr_command = command, pr_working_directory = ws, pr_timeout_ms = timeout\<rparr> u = (q, w')"
    and "pw_steps u = pw_steps w"
  shows "ran (\<lambda>c. if op_unsafe_local opts
      then c = \<lparr>cm_program = ''/bin/sh'', cm_arguments = [''-lc'', command], cm_directory = Some ws,
        cm_clear_environment = False\<rparr>
      else \<exists>args. confined \<lparr>bw_binary = ''bwrap'', bw_workspace = ws, bw_maximum_output_bytes = 1048576,
          bw_allow_network = False, bw_read_only_binds = []\<rparr>
          \<lparr>pr_command = command, pr_working_directory = ws, pr_timeout_ms = timeout\<rparr> args \<and>
        c = \<lparr>cm_program = ''bwrap'', cm_arguments = args, cm_directory = None, cm_clear_environment = True\<rparr>) w q w'"
proof (cases "op_unsafe_local opts")
  case True
  then show ?thesis using local_runner_ran [of 1048576 command ws timeout u q w'] assms by (simp add: runner_for_def)
next
  case False
  then show ?thesis using sandbox_confined [OF _ assms(2)] assms(1) by (fastforce simp: runner_for_def)
qed

lemma program_runner_value:
  assumes "program_runner p opts w = (Inr runner, w')"
  shows "dk_entries (pw_disk w') = dk_entries (pw_disk w) \<and>
    (resolve (dk_entries (pw_disk w)) p = Some ws \<longrightarrow> runner = runner_for opts ws)"
  using assms directory_on_files_value
  by (fastforce simp: program_runner_def runner_for_def bubblewrap_new_def and_then_value ok_def split: if_splits)

lemma workspace_tools_value:
  assumes "register_workspace_tools decode_error p runner (w, []) = (Inr (), (w', tools))"
  obtains reading writing ws where "dk_entries (pw_disk w') = dk_entries (pw_disk w)"
    "resolve (dk_entries (pw_disk w)) p = Some ws"
    "register_all [on_files_tool (ReadFileTool reading), on_files_tool (WriteFileTool writing), ShellTool decode_error
       \<lparr>sh_workspace = ws, sh_runner = runner, sh_maximum_timeout_ms = 120000\<rparr>] [] = Inr tools"
proof -
  from assms obtain reading w1 t1 writing w2 t2 shell where
    one: "on_files (file_tool_new p) w = (Inr reading, w1)" and
    t1: "register_arc (on_files_tool (ReadFileTool reading)) [] = Inr t1" and
    two: "on_files (file_tool_new p) w1 = (Inr writing, w2)" and
    t2: "register_arc (on_files_tool (WriteFileTool writing)) t1 = Inr t2" and
    three: "shell_tool_new p runner w2 = (Inr shell, w')" and
    t3: "register_arc (ShellTool decode_error shell) t2 = Inr tools"
    by (auto simp: register_workspace_tools_def and_then_value on_world_value register_tool_value)
  have "dk_entries (pw_disk w2) = dk_entries (pw_disk w)"
    using file_tool_on_files_value [OF one] file_tool_on_files_value [OF two] by simp
  with shell_tool_new_value [OF three] obtain ws where "resolve (dk_entries (pw_disk w)) p = Some ws"
    "dk_entries (pw_disk w') = dk_entries (pw_disk w)"
    "shell = \<lparr>sh_workspace = ws, sh_runner = runner, sh_maximum_timeout_ms = 120000\<rparr>" by auto
  with t1 t2 t3 show ?thesis by (intro that [of ws reading writing]) simp_all
qed

lemma editing_tools_value:
  assumes "register_editing_tools decode_error p (w, tools) = (Inr (), (w', tools'))"
  obtains w1 w2 w3 where "register_all [on_files_tool (ReadFilePageTool w1), on_files_tool (SearchFilesTool decode_error w2),
    on_files_tool (ApplyPatchTool w3)] tools = Inr tools'"
proof -
  from assms obtain w1 t1 w2 t2 w3 where
    "register_arc (on_files_tool (ReadFilePageTool w1)) tools = Inr t1"
    "register_arc (on_files_tool (SearchFilesTool decode_error w2)) t1 = Inr t2"
    "register_arc (on_files_tool (ApplyPatchTool w3)) t2 = Inr tools'"
    by (auto simp: register_editing_tools_def and_then_value on_world_value register_tool_value)
  then show ?thesis by (intro that [of w1 w2 w3]) simp
qed

lemma registry_get_arc:
  "register_arc t registry = Inr registry' \<Longrightarrow>
     registry_get registry' n = (if td_name (t_definition t) = n then Some t else registry_get registry n)"
  using register_arc_value [of t registry registry'] by (simp add: registry_get_def)

text \<open>What a registry holds after a list of tools was registered in it.\<close>

lemma register_all_get:
  assumes "register_all ts tools = Inr tools'" and "distinct (map (\<lambda>t. td_name (t_definition t)) ts)"
  shows "registry_get tools' n = (case find (\<lambda>t. td_name (t_definition t) = n) ts of
    None \<Rightarrow> registry_get tools n | Some t \<Rightarrow> Some t)"
  using assms
proof (induction ts arbitrary: tools)
  case (Cons t ts)
  then obtain mid where mid: "register_arc t tools = Inr mid" "register_all ts mid = Inr tools'"
    by (auto split: sum.splits)
  have "find (\<lambda>u. td_name (t_definition u) = td_name (t_definition t)) ts = None"
    using Cons.prems(2) by (fastforce simp: find_None_iff image_iff)
  then show ?case
    using Cons.IH [OF mid(2)] Cons.prems(2)
    by (cases "td_name (t_definition t) = n") (simp_all add: registry_get_arc [OF mid(1)] split: option.split)
qed simp

lemma registry_names_get: "set (registry_names tools) = {n. registry_get tools n \<noteq> None}"
  using bt_get_None [of tools] by (auto simp: registry_names_def registry_get_def)

lemma program_tools_value:
  assumes "program_tools decode_error p opts (w, []) = (Inr (), (w', tools))" and "\<not> op_no_tools opts"
  obtains ws where "resolve (dk_entries (pw_disk w)) p = Some ws"
    "registry_get tools ''shell'' = Some (ShellTool decode_error
       \<lparr>sh_workspace = ws, sh_runner = runner_for opts ws, sh_maximum_timeout_ms = 120000\<rparr>)"
    "set (registry_names tools) =
       {''read_file'', ''write_file'', ''shell'', ''read_file_page'', ''search_files'', ''apply_patch''}"
proof -
  from assms obtain runner w1 w2 mid where
    run: "program_runner p opts w = (Inr runner, w1)" and
    one: "register_workspace_tools decode_error p runner (w1, []) = (Inr (), (w2, mid))" and
    two: "register_editing_tools decode_error p (w2, mid) = (Inr (), (w', tools))"
    by (auto simp: program_tools_def and_then_value on_world_value)
  from one obtain reading writing ws where ws: "resolve (dk_entries (pw_disk w1)) p = Some ws" and
    mid: "register_all [on_files_tool (ReadFileTool reading), on_files_tool (WriteFileTool writing), ShellTool decode_error
       \<lparr>sh_workspace = ws, sh_runner = runner, sh_maximum_timeout_ms = 120000\<rparr>] [] = Inr mid"
    by (rule workspace_tools_value)
  from two obtain a b c where tools: "register_all [on_files_tool (ReadFilePageTool a),
      on_files_tool (SearchFilesTool decode_error b), on_files_tool (ApplyPatchTool c)] mid = Inr tools"
    by (rule editing_tools_value)
  note names = on_files_tool_def ReadFileTool_def WriteFileTool_def ShellTool_def ReadFilePageTool_def SearchFilesTool_def
    ApplyPatchTool_def read_file_definition_def write_file_definition_def shell_definition_def
    read_file_page_definition_def search_files_definition_def apply_patch_definition_def
  have ws': "resolve (dk_entries (pw_disk w)) p = Some ws" "runner = runner_for opts ws"
    using program_runner_value [OF run, of ws] ws by auto
  have get: "registry_get tools n = (case find (\<lambda>t. td_name (t_definition t) = n) [on_files_tool (ReadFilePageTool a),
      on_files_tool (SearchFilesTool decode_error b), on_files_tool (ApplyPatchTool c)] of
    None \<Rightarrow> registry_get mid n | Some t \<Rightarrow> Some t)" for n
    by (rule register_all_get [OF tools]) (simp add: names)
  have get': "registry_get mid n = (case find (\<lambda>t. td_name (t_definition t) = n) [on_files_tool (ReadFileTool reading),
      on_files_tool (WriteFileTool writing), ShellTool decode_error
       \<lparr>sh_workspace = ws, sh_runner = runner, sh_maximum_timeout_ms = 120000\<rparr>] of
    None \<Rightarrow> None | Some t \<Rightarrow> Some t)" for n
    using register_all_get [OF mid, of n] by (simp add: names registry_get_def)
  show ?thesis
  proof (rule that [OF ws'(1)])
    show "registry_get tools ''shell'' = Some (ShellTool decode_error
       \<lparr>sh_workspace = ws, sh_runner = runner_for opts ws, sh_maximum_timeout_ms = 120000\<rparr>)"
      by (simp add: get get' ws' names)
    show "set (registry_names tools) =
       {''read_file'', ''write_file'', ''shell'', ''read_file_page'', ''search_files'', ''apply_patch''}"
      unfolding registry_names_get by (auto simp: get get' names split: if_splits)
  qed
qed

section \<open>What a command may do\<close>


end
