(* ===== verification/SearchProperties.thy ===== *)
theory SearchProperties
  imports EditingProperties
begin

text \<open>
  A search reports exactly the lines that contain the query, in order, up to its bound of a hundred, and
  says whether there was one more.
\<close>

section \<open>What there is to find\<close>

text \<open>The lines of a text with the offset each begins at.\<close>

definition numbered_lines :: "string \<Rightarrow> (nat \<times> nat \<times> string) list" where
  "numbered_lines content =
     (let ls = split_lines content in map (\<lambda>n. (n, length (concat (take n ls)), ls ! n)) [0..<length ls])"

definition matches_in :: "path \<Rightarrow> string \<Rightarrow> (nat \<times> nat \<times> string) list \<Rightarrow> json list" where
  "matches_in relative query lines = concat (map (\<lambda>(n, offset, l). case find_text query l of
       None \<Rightarrow> []
     | Some column \<Rightarrow> [match_json relative (n + 1) (offset + column) (drop column l)]) lines)"

definition matches_of :: "path \<Rightarrow> string \<Rightarrow> path \<Rightarrow> disk \<Rightarrow> json list" where
  "matches_of ws query p d = matches_in (drop (length ws) p) query (numbered_lines (handle_bytes p d))"

fun numbered_from :: "nat \<Rightarrow> nat \<Rightarrow> string list \<Rightarrow> (nat \<times> nat \<times> string) list" where
  "numbered_from n offset [] = []"
| "numbered_from n offset (l # ls) = (n, offset, l) # numbered_from (Suc n) (offset + length l) ls"

lemma numbered_from_map:
  "numbered_from n offset ls =
     map (\<lambda>i. (n + i, offset + length (concat (take i ls)), ls ! i)) [0..<length ls]"
proof (induction ls arbitrary: n offset)
  case (Cons l ls)
  have "[0..<length (l # ls)] = 0 # map Suc [0..<length ls]" by (simp add: map_Suc_upt upt_conv_Cons del: upt_Suc)
  then show ?case by (simp add: Cons.IH)
qed simp

lemma numbered_lines_from: "numbered_lines content = numbered_from 0 0 (split_lines content)"
  by (simp add: numbered_lines_def numbered_from_map Let_def)

lemma matches_in_Cons:
  "matches_in r q ((n, offset, l) # ls) =
     (case find_text q l of None \<Rightarrow> [] | Some c \<Rightarrow> [match_json r (n + 1) (offset + c) (drop c l)]) @ matches_in r q ls"
  by (simp add: matches_in_def split: option.split)

section \<open>The loops\<close>

lemma search_lines_result:
  assumes "length ms \<le> max_matches"
  shows "search_lines (Some r) q n offset ls ms d =
    (let found = ms @ matches_in r q (numbered_from n offset ls)
     in (Inr (max_matches < length found, take max_matches found), d))"
  using assms
proof (induction ls arbitrary: n offset ms)
  case (Cons l ls)
  show ?case
  proof (cases "find_text q l")
    case None
    then show ?thesis using Cons by (simp add: matches_in_Cons Let_def)
  next
    case (Some c)
    with Cons show ?thesis
      by (cases "length ms = max_matches") (simp_all add: matches_in_Cons Let_def ok_def take_Cons' Suc_diff_Suc)
  qed
qed (simp add: matches_in_def ok_def Let_def)

lemma search_paths_result:
  assumes "search_paths ws q ps ms d = (Inr (full, out), d')" and "list_all (list_all proper_name) ps"
    and "length ms \<le> max_matches"
  shows "dk_entries d' = dk_entries d \<and> (\<exists>k\<le>length ps.
    (\<forall>p\<in>set (take k ps). prefix ws p \<and> (\<exists>content. entry_at (dk_entries d) p = Some (Regular content))) \<and>
    (let found = ms @ concat (map (\<lambda>p. matches_of ws q p d) (take k ps))
     in full = (max_matches < length found) \<and> out = take max_matches found \<and> (\<not> full \<longrightarrow> k = length ps)))"
  using assms
proof (induction ps arbitrary: ms d)
  case Nil
  then show ?case by (simp add: ok_def)
next
  case (Cons p ps)
  have proper: "list_all proper_name p" using Cons.prems(2) by simp
  from Cons.prems(1) obtain u d1 d2 d3 d4 d5 c h content found where
    d1: "refuse_cancelled_tool d = (Inr u, d1)" and c: "checked_path ws p d1 = (Inr c, d2)"
    and h: "disk_open c d2 = (Inr h, d3)" and content: "read_text h d3 = (Inr content, d4)"
    and found: "search_lines (strip_root ws c) q 0 0 (split_lines content) ms d4 = (Inr found, d5)"
    and rest: "(if fst found then ok found else search_paths ws q ps (snd found)) d5 = (Inr (full, out), d')"
    unfolding search_paths.simps step_results by blast
  note here = checked_path_result [OF c proper]
  have same: "dk_entries d1 = dk_entries d" "dk_entries d2 = dk_entries d" "dk_entries d3 = dk_entries d"
    "dk_entries d4 = dk_entries d"
    using quietD [OF quiet_paths(7) d1] quietD [OF quiet_paths(5) c] quietD [OF quiet_lookup(3) h]
      quietD [OF quiet_paths(6) content] by simp_all
  have "h = p" using h here same canonicalize_result by (fastforce simp: disk_open_def)
  with read_text_result [OF content] same have holds: "entry_at (dk_entries d) p = Some (Regular content)" by simp
  then have text_of: "handle_bytes p e = content" if "dk_entries e = dk_entries d" for e
    using that by (simp add: handle_bytes_def)
  let ?all = "ms @ matches_of ws q p d"
  have strip: "strip_root ws c = Some (drop (length ws) p)"
    using here by (auto simp: strip_root_def path_starts_with_prefix)
  have search: "found = (max_matches < length ?all, take max_matches ?all)" "d5 = d4"
    using found unfolding strip search_lines_result [OF Cons.prems(3)]
    by (simp_all add: Let_def matches_of_def numbered_lines_from text_of)
  show ?case
  proof (cases "max_matches < length ?all")
    case True
    with rest search have "full" "out = take max_matches ?all" "d' = d4" by (simp_all add: ok_def)
    then show ?thesis using same True holds here by (intro conjI exI [of _ 1]) (auto simp: Let_def)
  next
    case False
    with rest search have go: "search_paths ws q ps ?all d4 = (Inr (full, out), d')" by simp
    have bytes: "matches_of ws q x d4 = matches_of ws q x d" for x
      using same(4) by (simp add: matches_of_def handle_bytes_def)
    have "list_all (list_all proper_name) ps" "length ?all \<le> max_matches" using Cons.prems(2) False by simp_all
    from Cons.IH [OF go this, unfolded same(4) bytes] obtain k where k: "k \<le> length ps"
      "\<forall>x\<in>set (take k ps). prefix ws x \<and> (\<exists>content. entry_at (dk_entries d) x = Some (Regular content))"
      "let found = ?all @ concat (map (\<lambda>p. matches_of ws q p d) (take k ps))
       in full = (max_matches < length found) \<and> out = take max_matches found \<and> (\<not> full \<longrightarrow> k = length ps)"
      "dk_entries d' = dk_entries d" by blast
    have "\<forall>x\<in>set (take (Suc k) (p # ps)).
      prefix ws x \<and> (\<exists>content. entry_at (dk_entries d) x = Some (Regular content))"
      using k(2) holds here by simp
    moreover have "let found = ms @ concat (map (\<lambda>p. matches_of ws q p d) (take (Suc k) (p # ps)))
       in full = (max_matches < length found) \<and> out = take max_matches found \<and> (\<not> full \<longrightarrow> Suc k = length (p # ps))"
      using k(3) unfolding take_Suc_Cons list.map concat.simps append_assoc Let_def length_Cons nat.inject .
    moreover have "Suc k \<le> length (p # ps)" using k(1) by simp
    ultimately show ?thesis using k(4) by (intro conjI exI [of _ "Suc k"])
  qed
qed

section \<open>Preparation\<close>

definition search_args :: "path list \<Rightarrow> string \<Rightarrow> json" where
  "search_args ps query = jobject [(''paths'', JArray (map path_json ps)), (''query'', JString query)]"

lemma resolve_paths_result:
  assumes "resolve_paths ws vs d = (Inr ps, d')" and "list_all proper_name ws"
  shows "list_all (list_all proper_name) ps \<and> length ps = length vs"
  using assms(1)
proof (induction vs arbitrary: d d' ps)
  case Nil
  then show ?case by (simp add: ok_def)
next
  case (Cons v vs)
  then obtain s p qs d1 d2 where "as_str v = Some s" and p: "resolve_existing_file ws s d = (Inr p, d1)"
    and qs: "resolve_paths ws vs d1 = (Inr qs, d2)" "ps = p # qs"
    by (auto simp: step_results err_def ok_def split: option.splits)
  have "list_all proper_name p"
    using resolve_existing_result [OF p] resolve_proper assms(2) by blast
  with Cons.IH [OF qs(1)] qs(2) show ?case by simp
qed

lemma search_prepare_result:
  assumes "search_files_prepare ws call d = (Inr prepared, d')" and "list_all proper_name ws"
  obtains ps query where "prepared = prepared_edit call ''search_files'' (search_args ps query) ws False"
    "list_all (list_all proper_name) ps" "ps \<noteq> []" "length ps \<le> max_paths" "query \<noteq> []" "newline \<notin> set query"
proof -
  from assms(1) obtain query vs ps d1 d2 where
    q: "query \<noteq> []" "newline \<notin> set query" and vs: "vs \<noteq> []" "length vs \<le> max_paths"
    and ps: "resolve_paths ws vs d1 = (Inr ps, d2)"
    and prepared: "prepared = prepared_edit call ''search_files'' (search_args ps query) ws False"
    by (auto simp: search_files_prepare_def step_results ok_def err_def search_args_def not_less
        split: if_splits option.splits)
  show ?thesis
    by (rule that [OF prepared _ _ _ q]) (use resolve_paths_result [OF ps assms(2)] vs in auto)
qed

lemma decode_prepared_paths:
  "list_all (list_all proper_name) ps \<Longrightarrow> decode_paths (map path_json ps) = Some ps"
  by (induction ps) (simp_all add: path_json_def components_display)

lemma line_offset:
  assumes "n < length ls" and "drop c (ls ! n) = q @ t" and "c \<le> length (ls ! n)"
  shows "drop (length (concat (take n ls)) + c) (concat ls) = q @ t @ concat (drop (Suc n) ls)"
proof -
  have "concat ls = concat (take n ls @ ls ! n # drop (Suc n) ls)" using id_take_nth_drop [OF assms(1)] by simp
  then show ?thesis using assms(2,3) by simp
qed

text \<open>Where a match points, the query is.\<close>

lemma match_is_there:
  assumes "m \<in> set (matches_of ws query p d)"
  shows "\<exists>n offset. starts_with (drop offset (handle_bytes p d)) query \<and>
    m = match_json (drop (length ws) p) (n + 1) offset (drop (offset - length (concat (take n (split_lines (handle_bytes p d)))))
      (split_lines (handle_bytes p d) ! n)) \<and> n < length (split_lines (handle_bytes p d))"
proof -
  let ?ls = "split_lines (handle_bytes p d)"
  from assms obtain n c where n: "n < length ?ls" "find_text query (?ls ! n) = Some c"
    and m: "m = match_json (drop (length ws) p) (n + 1) (length (concat (take n ?ls)) + c) (drop c (?ls ! n))"
    unfolding matches_of_def matches_in_def numbered_lines_def Let_def
    by (clarsimp split: option.splits) (metis add.commute plus_1_eq_Suc)
  obtain t where t: "drop c (?ls ! n) = query @ t" "c \<le> length (?ls ! n)" using find_text_Some [OF n(2)] by blast
  have "drop (length (concat (take n ?ls)) + c) (handle_bytes p d) = query @ t @ concat (drop (Suc n) ?ls)"
    using line_offset [OF n(1) t] by simp
  then show ?thesis using n m by (intro exI [of _ n] exI [of _ "length (concat (take n ?ls)) + c"]) (auto simp: starts_with_append)
qed

text \<open>C31 A search that was prepared and returns has read the first files of its list, all inside the
  workspace, and reports exactly their lines that contain the query, in order and with the line's number
  and the offset of the first occurrence, cut to a hundred; it says it was truncated exactly when there was
  one more, and otherwise it has read every file. The disk is as it was.\<close>

theorem search_reports_exactly:
  assumes "search_files_prepare ws call d0 = (Inr prepared, d1)" and "list_all proper_name ws"
    and "search_files_execute decode_error ws prepared d = (Inr v, d')"
  shows "dk_entries d' = dk_entries d \<and> (\<exists>ps query k.
    ca_arguments (pc_action prepared) = search_args ps query \<and> k \<le> length ps \<and>
    (\<forall>p\<in>set (take k ps). prefix ws p \<and> (\<exists>content. entry_at (dk_entries d) p = Some (Regular content))) \<and>
    (let found = concat (map (\<lambda>p. matches_of ws query p d) (take k ps)); full = (100 < length found)
     in v = jobject [(''matches'', JArray (take 100 found)), (''truncated'', JBool full)] \<and>
       (\<not> full \<longrightarrow> k = length ps)))"
proof -
  obtain ps query where prepared: "prepared = prepared_edit call ''search_files'' (search_args ps query) ws False"
    and proper: "list_all (list_all proper_name) ps" by (rule search_prepare_result [OF assms(1,2)])
  have args: "jget (search_args ps query) ''paths'' = Some (JArray (map path_json ps))"
    "jget (search_args ps query) ''query'' = Some (JString query)" by (simp_all add: search_args_def)
  from assms(3) obtain full out where run: "search_paths ws query ps [] d = (Inr (full, out), d')"
    and v: "v = jobject [(''matches'', JArray out), (''truncated'', JBool full)]"
    by (auto simp: search_files_execute_def prepared args decode_prepared_paths [OF proper] string_argument_def
        jfield_def step_results ok_def)
  show ?thesis
    using search_paths_result [OF run proper] v
    by (auto simp: Let_def prepared max_matches_def)
qed

end
