(* ===== verification/EditingSamples.thy ===== *)
theory EditingSamples
  imports SearchProperties
begin

text \<open>
  The editing tools on a concrete disk: a workspace with two files and a link whose target is missing,
  outside the workspace.
\<close>

definition steady_host :: host where
  "steady_host = \<lparr>h_pid = 7, h_next_id = 0, h_clock = (\<lambda>_. 0), h_readings = 0, h_io = (\<lambda>_. Io_ok),
     h_operations = 0\<rparr>"

definition sample_workspace :: disk where
  "sample_workspace = \<lparr>dk_entries =
       bt_from [([''w''], Folder), ([''w'', ''a''], Regular ''one two''), ([''w'', ''b''], Regular ''two''),
         ([''w'', ''gone''], Symlink ''/out''), ([''home''], Folder)],
     dk_host = steady_host, dk_cancelled = (\<lambda>_. False), dk_looks = 0\<rparr>"

definition patch_call :: tool_call where
  "patch_call = \<lparr>tc_id = ''call'', tc_name = ''apply_patch'', tc_arguments =
     jobject [(''path'', JString ''a''), (''old_text'', JString ''one''), (''new_text'', JString ''1'')]\<rparr>"

definition search_call :: tool_call where
  "search_call = \<lparr>tc_id = ''call'', tc_name = ''search_files'', tc_arguments =
     jobject [(''paths'', JArray [JString ''a'', JString ''b'']), (''query'', JString ''two'')]\<rparr>"

text \<open>Evaluation: the names resolve in a few of the 4096 steps.\<close>

lemma walk_numeral:
  "walk (numeral n) creating es at (c # cs) =
     (if entry_at es at \<noteq> Some Folder then None
      else if c = dotdot then walk (pred_numeral n) creating es (butlast at) cs
      else case entry_at es (at @ [c]) of
        None \<Rightarrow> if creating \<and> cs = [] then Some (at @ [c]) else None
      | Some (Symlink target) \<Rightarrow>
          walk (pred_numeral n) creating es (if target \<noteq> [] \<and> hd target = slash then root_folder else at)
            (path_components target @ cs)
      | Some _ \<Rightarrow> walk (pred_numeral n) creating es (at @ [c]) cs)"
  by (simp add: numeral_eq_Suc)

lemma sample_entries:
  "entry_at (dk_entries sample_workspace) = (\<lambda>p.
     if p = [] then Some Folder else if p = [''w''] then Some Folder
     else if p = [''w'', ''a''] then Some (Regular ''one two'')
     else if p = [''w'', ''b''] then Some (Regular ''two'')
     else if p = [''w'', ''gone''] then Some (Symlink ''/out'')
     else if p = [''home''] then Some Folder else None)"
  by (rule ext) (simp add: sample_workspace_def entry_at_def bt_get_from)

lemma io_runs:
  "dk_host d = host \<Longrightarrow> h_io host (h_operations host) = Io_ok \<Longrightarrow>
   disk_io d = (Inr (), d\<lparr>dk_host := host\<lparr>h_operations := Suc (h_operations host)\<rparr>\<rparr>)"
  by (auto simp: disk_io_def io_step_def)

lemma sample_resolves:
  "resolve (dk_entries sample_workspace) [''w'', ''a''] = Some [''w'', ''a'']"
  "resolve (dk_entries sample_workspace) [''w'', ''b''] = Some [''w'', ''b'']"
  "resolve (dk_entries sample_workspace) [''w''] = Some [''w'']"
  "resolve (dk_entries sample_workspace) [''w'', ''gone''] = None"
  "resolve_create (dk_entries sample_workspace) [''w'', ''gone''] = Some [''out'']"
  by (simp_all add: resolve_def resolve_create_def resolution_limit_def walk_numeral sample_entries path_components_def)

lemma sample_host_fields:
  "dk_host sample_workspace = steady_host" "dk_cancelled sample_workspace n = False"
  "h_io steady_host n = Io_ok"
  by (simp_all add: sample_workspace_def steady_host_def)

lemmas runs = act_defs disk_io_def io_step_def disk_cancelled_def disk_canonicalize_def disk_entry_def
  disk_exists_def disk_is_file_def disk_open_def disk_open_existing_def handle_is_file_def handle_read_def handle_bytes_def
  string_argument_def path_argument_def jfield_def validate_relative_def relative_path_def resolve_existing_file_def
  path_join_def path_starts_with_def path_components_def read_text_def max_file_bytes_def refuse_cancelled_tool_def
  strip_root_def checked_path_def path_relative_def

lemma sample_texts:
  "valid_utf8 ''one two''" "valid_utf8 ''two''" "starts_char (CHR ''n'')" "starts_char (CHR ''t'')"
  by (code_simp)+

lemma patch_prepared:
  "\<exists>d1. apply_patch_prepare [''w''] patch_call sample_workspace = (Inr (prepared_edit patch_call ''apply_patch''
     (patch_args [''w'', ''a''] ''one two'' ''1 two'' ''one'' ''1'') [''w''] True), d1)"
  by (simp add: runs apply_patch_prepare_def patch_call_def sample_resolves sample_entries sample_host_fields
      patch_args_def patch_text_def contains_literal_def starts_with_def first_char_length_def sample_texts)

lemma sample_names: "list_all proper_name [''w'']"
  by (simp add: proper_name_def)

lemma patch_executed:
  "\<exists>v d'. apply_patch_execute [''w''] (prepared_edit patch_call ''apply_patch''
     (patch_args [''w'', ''a''] ''one two'' ''1 two'' ''one'' ''1'') [''w''] True) sample_workspace = (Inr v, d')"
  by (simp add: runs apply_patch_execute_def sample_resolves sample_entries sample_host_fields sample_texts
      path_json_def path_display_def handle_write_def handle_set_len_def put_bytes_def put_entry_def Let_def)

theorem patch_applies_what_was_approved_witness:
  "\<exists>prepared d1 v d' p content changed.
     apply_patch_prepare [''w''] patch_call sample_workspace = (Inr prepared, d1) \<and>
     apply_patch_execute [''w''] prepared sample_workspace = (Inr v, d') \<and>
     entry_at (dk_entries sample_workspace) p = Some (Regular content) \<and>
     entry_at (dk_entries d') p = Some (Regular changed) \<and> only_changes p sample_workspace d' \<and> prefix [''w''] p"
proof -
  let ?prepared = "prepared_edit patch_call ''apply_patch''
     (patch_args [''w'', ''a''] ''one two'' ''1 two'' ''one'' ''1'') [''w''] True"
  obtain d1 where one: "apply_patch_prepare [''w''] patch_call sample_workspace = (Inr ?prepared, d1)"
    using patch_prepared by blast
  obtain v d' where two: "apply_patch_execute [''w''] ?prepared sample_workspace = (Inr v, d')"
    using patch_executed by blast
  from patch_applies_what_was_approved [OF one sample_names two] one two show ?thesis by simp blast
qed

lemma search_prepared:
  "\<exists>d1. search_files_prepare [''w''] search_call sample_workspace =
     (Inr (prepared_edit search_call ''search_files''
       (search_args [[''w'', ''a''], [''w'', ''b'']] ''two'') [''w''] False), d1)"
  by (simp add: runs search_files_prepare_def search_call_def sample_resolves sample_entries sample_host_fields
      search_args_def max_paths_def path_json_def path_display_def)

lemma search_executed:
  "\<exists>v d'. search_files_execute decode_error [''w''] (prepared_edit search_call ''search_files''
       (search_args [[''w'', ''a''], [''w'', ''b'']] ''two'') [''w''] False) sample_workspace = (Inr v, d')"
  by (simp add: runs search_files_execute_def sample_resolves sample_entries sample_host_fields sample_texts
      search_args_def path_json_def path_display_def starts_with_def max_matches_def Let_def)

theorem search_reports_exactly_witness:
  "\<exists>prepared d1 d' v ps query k.
     search_files_prepare [''w''] search_call sample_workspace = (Inr prepared, d1) \<and>
     search_files_execute (\<lambda>_. []) [''w''] prepared sample_workspace = (Inr v, d') \<and>
     dk_entries d' = dk_entries sample_workspace \<and>
     ca_arguments (pc_action prepared) = search_args ps query \<and> k \<le> length ps"
proof -
  let ?prepared = "prepared_edit search_call ''search_files''
       (search_args [[''w'', ''a''], [''w'', ''b'']] ''two'') [''w''] False"
  obtain d1 where one: "search_files_prepare [''w''] search_call sample_workspace = (Inr ?prepared, d1)"
    using search_prepared by blast
  obtain v d' where two: "search_files_execute (\<lambda>_. []) [''w''] ?prepared sample_workspace = (Inr v, d')"
    using search_executed by blast
  from search_reports_exactly [OF one sample_names two] one two show ?thesis by blast
qed

section \<open>A link whose target is missing\<close>

definition write_call :: tool_call where
  "write_call = \<lparr>tc_id = ''call'', tc_name = ''write_file'', tc_arguments =
     jobject [(''path'', JString ''gone''), (''content'', JString ''x'')]\<rparr>"

definition sample_tool :: file_tool where
  "sample_tool = \<lparr>ft_workspace = [''w''], ft_maximum_bytes = 1048576\<rparr>"

text \<open>The check of a write target looks at what the target resolves to only where it exists: through a
  link in the workspace whose target is missing, the write tool creates a file outside the workspace.\<close>

theorem write_follows_dangling_link:
  "\<exists>prepared d1 v d'. write_file_prepare sample_tool write_call sample_workspace = (Inr prepared, d1) \<and>
     write_file_execute sample_tool prepared sample_workspace = (Inr v, d') \<and>
     entry_at (dk_entries sample_workspace) [''out''] = None \<and>
     entry_at (dk_entries d') [''out''] = Some (Regular ''x'') \<and> \<not> prefix [''w''] [''out'']"
  by (simp add: runs write_file_prepare_def write_file_execute_def sample_tool_def write_call_def sample_resolves
      sample_entries sample_host_fields path_json_def path_display_def handle_write_def put_bytes_def put_entry_def
      resolve_write_target_def verify_write_target_def verify_ancestor.simps disk_open_truncated_def wants_directories_def
      CanonicalAction_new_def in_scope_def path_parent_def entry_at_def Let_def)

end
