(* ===== verification/ShellSamples.thy ===== *)
theory ShellSamples
  imports ShellProperties EditingSamples
begin

text \<open>
  A command that writes \<open>hello\<close> and exits, run with room for four bytes, and the shell tool over it.
\<close>

definition sample_process :: process_world where
  "sample_process = \<lparr>pw_disk = sample_workspace, pw_clock = [0, 1, 2, 3],
     pw_pieces = (\<lambda>s n. if s = Stdout \<and> n = 0 then Piece ''hello'' else Piece []), pw_reads = (\<lambda>_. 0),
     pw_child = (\<lambda>_. Has_exited), pw_child_looks = 0, pw_pid = 42, pw_exit_code = Some 0, pw_steps = []\<rparr>"

definition sample_command :: command where
  "sample_command = \<lparr>cm_program = ''/bin/sh'', cm_arguments = [''-lc'', ''echo hello''],
     cm_directory = Some [''w''], cm_clear_environment = False\<rparr>"

lemmas process_runs = act_defs disk_io_def io_step_def disk_cancelled_def on_files_def did_def instant_now_def
  read_piece_def drain_def retain_bytes_def CapturedPipe_new_def kill_process_group_def child_has_exited_def maximum_pid_def
  cleanup_due_def begin_cleanup_def capture_round_def capture_loop.simps capture_process_def run_command_def

lemma drain_batch_numeral:
  "drain_batch (numeral n) p =
     and_then (read_piece (cp_reader p)) (\<lambda>piece. case piece of
       Piece bytes \<Rightarrow> if bytes = [] then ok (p\<lparr>cp_eof := True\<rparr>) else drain_batch (pred_numeral n) (retain_bytes bytes p)
     | Would_block \<Rightarrow> ok p
     | Interrupted_read \<Rightarrow> drain_batch (pred_numeral n) p
     | Failed_read e \<Rightarrow> err (Process_Io e))"
  by (simp add: numeral_eq_Suc)

lemma process_sample_run:
  "\<exists>out w'. run_command sample_command timeout 4 sample_process = (Inr out, w')"
  by (simp add: process_runs drain_batch_numeral sample_process_def sample_host_fields Let_def)

theorem command_output_exact_witness:
  "\<exists>out w' n. run_command sample_command 1000 4 sample_process = (Inr out, w') \<and>
     po_stdout out = from_utf8_lossy (take 4 (received sample_process Stdout n)) \<and>
     po_stdout_truncated out = (4 < length (received sample_process Stdout n) \<or> \<not> ended sample_process Stdout n)"
proof -
  obtain out w' where run: "run_command sample_command 1000 4 sample_process = (Inr out, w')"
    using process_sample_run by blast
  from command_output_exact [OF this] run show ?thesis by blast
qed

theorem group_always_signalled_witness:
  "\<exists>out w' rest. run_command sample_command 1000 4 sample_process = (Inr out, w') \<and>
     pw_steps w' = pw_steps sample_process @ Spawned sample_command # rest \<and> Signalled_group \<in> set rest"
proof -
  obtain out w' where run: "run_command sample_command 1000 4 sample_process = (Inr out, w')"
    using process_sample_run by blast
  have "pw_pid sample_process \<le> maximum_pid" by (simp add: sample_process_def maximum_pid_def)
  from group_always_signalled [OF run this] run show ?thesis by auto
qed

end
