(* ===== verification/OptionsProperties.thy ===== *)
theory OptionsProperties
  imports Options
begin

text \<open>
  The properties of the settings: they are what the arguments say, or else the environment, or else the
  default, and within their bounds.
\<close>

section \<open>What the arguments say\<close>

text \<open>The word after the option.\<close>

fun given :: "string \<Rightarrow> string list \<Rightarrow> string option" where
  "given option_name (a # v # rest) = (if a = option_name then Some v else given option_name (v # rest))"
| "given option_name _ = None"

abbreviation dashed :: "string list \<Rightarrow> string list" where
  "dashed args \<equiv> filter (\<lambda>a. starts_with a ''--'') args"

definition chosen ::
  "string list \<Rightarrow> (string \<Rightarrow> string option) \<Rightarrow> string \<Rightarrow> string \<Rightarrow> string option" where
  "chosen args env option_name variable =
     (case given option_name args of Some v \<Rightarrow> Some v | None \<Rightarrow> env variable)"

definition number_from :: "string option \<Rightarrow> nat \<Rightarrow> nat \<Rightarrow> nat \<Rightarrow> bool" where
  "number_from source fallback maximum n \<longleftrightarrow> 1 \<le> n \<and> n \<le> maximum \<and>
     (case source of None \<Rightarrow> n = fallback | Some t \<Rightarrow> parse_u64 t = Some n)"

lemma given_skip: "a \<noteq> name \<Longrightarrow> given name (a # rest) = given name rest"
  by (cases rest) simp_all

lemma given_absent: "name \<notin> set args \<Longrightarrow> given name args = None"
  by (induction name args rule: given.induct) auto

lemma options_dashed: "a \<in> set flag_options \<union> set value_options \<Longrightarrow> starts_with a ''--''"
  by (auto simp: flag_options_def value_options_def starts_with_def)

lemma options_apart: "a \<in> set flag_options \<Longrightarrow> a \<notin> set value_options"
  by (auto simp: flag_options_def value_options_def)

text \<open>The loop keeps what it has, adds what it reads, and takes no option twice.\<close>

lemma parse_arguments_given:
  assumes "parse_arguments args vs flags = Inr (vs', flags')"
  shows "(\<forall>name \<in> set value_options. bt_get vs' name =
      (case given name args of Some v \<Rightarrow> Some v | None \<Rightarrow> bt_get vs name)) \<and>
    set flags' = set flags \<union> (set args \<inter> set flag_options) \<and>
    distinct (dashed args) \<and> set (dashed args) \<subseteq> set flag_options \<union> set value_options \<and>
    (\<forall>a \<in> set (dashed args). (a \<in> set flag_options \<longrightarrow> a \<notin> set flags) \<and>
       (a \<in> set value_options \<longrightarrow> bt_get vs a = None))"
  using assms
proof (induction args vs flags rule: parse_arguments.induct)
  case (1 vs flags)
  then show ?case by simp
next
  case (2 arg rest vs flags)
  show ?case
  proof (cases "arg \<in> set flag_options")
    case True
    then have "arg \<notin> set flags" and run: "parse_arguments rest vs (bs_insert arg flags) = Inr (vs', flags')"
      using "2.prems" by (auto split: if_splits)
    moreover have "given name (arg # rest) = given name rest" if "name \<in> set value_options" for name
      using options_apart [OF True] that by (intro given_skip) blast
    ultimately show ?thesis
      using "2.IH"(1) [OF True \<open>arg \<notin> set flags\<close> run] options_dashed [of arg] True
        options_apart [OF True]
      by (auto simp: set_bs_insert)
  next
    case False
    note flag = this
    then have arg: "arg \<in> set value_options" using "2.prems" by (auto split: if_splits)
    then obtain v more where rest: "rest = v # more" and v: "\<not> starts_with v ''--''"
      and unset: "bt_get vs arg = None" and fine: "\<not> (starts_with v ''--'' \<or> blank v)"
      and run: "parse_arguments more (bt_insert arg v vs) flags = Inr (vs', flags')"
      using "2.prems" flag by (auto split: list.splits if_splits)
    have "v \<notin> set flag_options \<union> set value_options" using v options_dashed by blast
    then have given: "given name (arg # v # more) = (if name = arg then Some v else given name more)"
      if "name \<in> set value_options" for name using that given_skip [of v name more] by auto
    have ih: "(\<forall>name \<in> set value_options. bt_get vs' name =
        (case given name more of Some v \<Rightarrow> Some v | None \<Rightarrow> bt_get (bt_insert arg v vs) name)) \<and>
      set flags' = set flags \<union> (set more \<inter> set flag_options) \<and>
      distinct (dashed more) \<and> set (dashed more) \<subseteq> set flag_options \<union> set value_options \<and>
      (\<forall>a \<in> set (dashed more). (a \<in> set flag_options \<longrightarrow> a \<notin> set flags) \<and>
         (a \<in> set value_options \<longrightarrow> bt_get (bt_insert arg v vs) a = None))"
      using "2.IH"(2) [OF flag arg rest fine] unset run by simp
    have new: "arg \<notin> set (dashed more)" using ih arg by auto
    then have absent: "given arg more = None"
      using options_dashed [of arg] arg by (intro given_absent) simp
    have dash: "dashed (arg # rest) = arg # dashed more"
      using options_dashed [of arg] arg v rest by simp
    show ?thesis
    proof (intro conjI ballI)
      fix name assume name: "name \<in> set value_options"
      show "bt_get vs' name =
          (case given name (arg # rest) of Some v \<Rightarrow> Some v | None \<Rightarrow> bt_get vs name)"
        using ih name given [OF name] absent rest
        by (cases "name = arg") (auto split: option.splits)
    next
      show "set flags' = set flags \<union> (set (arg # rest) \<inter> set flag_options)"
        using ih flag rest \<open>v \<notin> set flag_options \<union> set value_options\<close> by auto
      show "distinct (dashed (arg # rest))" using ih new by (simp only: dash) simp
      show "set (dashed (arg # rest)) \<subseteq> set flag_options \<union> set value_options"
        using ih arg by (simp only: dash) auto
    next
      fix a assume "a \<in> set (dashed (arg # rest))"
      then have "a = arg \<or> a \<in> set (dashed more)" by (simp only: dash) auto
      then show "a \<in> set flag_options \<longrightarrow> a \<notin> set flags" using ih flag by auto
      show "a \<in> set value_options \<longrightarrow> bt_get vs a = None"
        using \<open>a = arg \<or> a \<in> set (dashed more)\<close> ih unset by (auto split: if_splits)
    qed
  qed
qed

section \<open>The settings\<close>

lemma option_number_from:
  assumes "option_number vs env name variable fallback maximum = Inr n"
  shows "number_from (option_value vs env name variable) fallback maximum n"
  using assms by (auto simp: option_number_def number_from_def split: option.splits sum.splits if_splits)

lemma option_model_some: "option_model vs env = Some m \<Longrightarrow> \<not> blank m"
  by (simp add: option_model_def split: option.splits if_splits)

definition temperature_from :: "float_text \<Rightarrow> string option \<Rightarrow> f64 option \<Rightarrow> bool" where
  "temperature_from ft source t \<longleftrightarrow> (case source of
       None \<Rightarrow> t = None
     | Some s \<Rightarrow> ft_parse ft s = t \<and> (case t of
         Some (Finite negative m) \<Rightarrow> (if negative then - m else m) \<in> {0..2}
       | _ \<Rightarrow> False))"

lemma option_temperature_from:
  assumes "option_temperature ft vs env = Inr t"
  shows "temperature_from ft (option_value vs env ''--temperature'' ''HARNESS_TEMPERATURE'') t"
  using assms
  by (auto simp: option_temperature_def temperature_from_def temperature_ok_def Let_def
      split: option.splits f64.splits if_splits)

lemma value_option_names:
  "''--workspace'' \<in> set value_options" "''--endpoint'' \<in> set value_options" "''--model'' \<in> set value_options"
  "''--request-timeout'' \<in> set value_options" "''--max-output-tokens'' \<in> set value_options"
  "''--temperature'' \<in> set value_options" "''--max-model-iterations'' \<in> set value_options"
  "''--history-groups'' \<in> set value_options"
  by (simp_all add: value_options_def)

lemma flag_option_names:
  "''--demo'' \<in> set flag_options" "''--no-tools'' \<in> set flag_options"
  "''--unsafe-local-exec'' \<in> set flag_options" "''--no-stream'' \<in> set flag_options"
  by (simp_all add: flag_options_def)

lemma options_from_fields:
  assumes "options_from ft env vs flags = Inr opts"
  shows "op_demo opts \<longleftrightarrow> ''--demo'' \<in> set flags" "op_no_stream opts \<longleftrightarrow> ''--no-stream'' \<in> set flags"
    "op_no_tools opts \<longleftrightarrow> ''--no-tools'' \<in> set flags"
    "op_unsafe_local opts \<longleftrightarrow> ''--unsafe-local-exec'' \<in> set flags"
    "op_workspace opts = bt_get vs ''--workspace''"
    "op_endpoint opts = (case option_value vs env ''--endpoint'' ''HARNESS_API_URL'' of
       Some url \<Rightarrow> url | None \<Rightarrow> ''https://api.openai.com/v1/chat/completions'')"
    "op_model opts = option_model vs env" "op_demo opts \<or> op_model opts \<noteq> None"
    "option_temperature ft vs env = Inr (op_temperature opts)"
    "option_number vs env ''--request-timeout'' ''HARNESS_REQUEST_TIMEOUT'' 120 600 = Inr (op_request_timeout opts)"
    "option_number vs env ''--max-output-tokens'' ''HARNESS_MAX_OUTPUT_TOKENS'' 4096 131072 =
       Inr (op_max_output_tokens opts)"
    "option_number vs env ''--max-model-iterations'' ''HARNESS_MAX_MODEL_ITERATIONS'' 32 128 =
       Inr (op_max_model_iterations opts)"
    "option_number vs env ''--history-groups'' ''HARNESS_HISTORY_GROUPS'' 200 2000 = Inr (op_history_groups opts)"
  using assms by (auto simp: options_from_def split: sum.splits if_splits)

text \<open>C38 Settings that are accepted are the ones that were given: no option stands twice among the arguments
  and none is unknown, a flag is set exactly when it is there, every value is the word after its option or
  else the environment's or else the default, every number is within its bounds, the temperature is finite
  and between 0 and 2, and without a model only the demonstration runs.\<close>

theorem options_as_given:
  assumes "parse_options ft args env = Inr opts"
  shows "distinct (dashed args) \<and> set (dashed args) \<subseteq> set flag_options \<union> set value_options \<and>
    op_demo opts = (''--demo'' \<in> set args) \<and> op_no_stream opts = (''--no-stream'' \<in> set args) \<and>
    op_no_tools opts = (''--no-tools'' \<in> set args) \<and>
    op_unsafe_local opts = (''--unsafe-local-exec'' \<in> set args) \<and>
    op_workspace opts = given ''--workspace'' args \<and>
    op_endpoint opts = (case chosen args env ''--endpoint'' ''HARNESS_API_URL'' of
       Some url \<Rightarrow> url | None \<Rightarrow> ''https://api.openai.com/v1/chat/completions'') \<and>
    op_model opts = Option.bind (chosen args env ''--model'' ''HARNESS_MODEL'')
      (\<lambda>m. if blank m then None else Some m) \<and> (op_demo opts \<or> op_model opts \<noteq> None) \<and>
    number_from (chosen args env ''--request-timeout'' ''HARNESS_REQUEST_TIMEOUT'') 120 600 (op_request_timeout opts) \<and>
    number_from (chosen args env ''--max-output-tokens'' ''HARNESS_MAX_OUTPUT_TOKENS'') 4096 131072
      (op_max_output_tokens opts) \<and>
    number_from (chosen args env ''--max-model-iterations'' ''HARNESS_MAX_MODEL_ITERATIONS'') 32 128
      (op_max_model_iterations opts) \<and>
    number_from (chosen args env ''--history-groups'' ''HARNESS_HISTORY_GROUPS'') 200 2000 (op_history_groups opts) \<and>
    temperature_from ft (chosen args env ''--temperature'' ''HARNESS_TEMPERATURE'') (op_temperature opts)"
proof -
  obtain vs flags where run: "parse_arguments args [] [] = Inr (vs, flags)"
    and from_vs: "options_from ft env vs flags = Inr opts"
    using assms by (auto simp: parse_options_def split: sum.splits)
  note read = parse_arguments_given [OF run]
  have get: "bt_get vs name = given name args" if "name \<in> set value_options" for name
    using read that by (auto split: option.splits)
  have flag: "name \<in> set flags \<longleftrightarrow> name \<in> set args" if "name \<in> set flag_options" for name
    using read that by auto
  have picked: "option_value vs env name variable = chosen args env name variable"
    if "name \<in> set value_options" for name variable
    by (simp add: option_value_def chosen_def get [OF that])
  note fields = options_from_fields [OF from_vs]
  note numbers = fields(10-13) [THEN option_number_from]
  note words = value_option_names [THEN picked]
  have "distinct (dashed args)" "set (dashed args) \<subseteq> set flag_options \<union> set value_options"
    using read by blast+
  moreover note fields(1-4) [unfolded flag_option_names [THEN flag]]
  moreover note fields(5) [unfolded get [OF value_option_names(1)]] fields(6) [unfolded words] fields(8)
  moreover have "op_model opts = Option.bind (chosen args env ''--model'' ''HARNESS_MODEL'')
      (\<lambda>m. if blank m then None else Some m)"
    unfolding fields(7) option_model_def words by (simp split: option.split)
  moreover note numbers [unfolded words] option_temperature_from [OF fields(9), unfolded words]
  ultimately show ?thesis by (intro conjI)
qed

definition sample_numbers :: float_text where
  "sample_numbers = \<lparr>ft_parse = (\<lambda>s. if s = ''0.5'' then Some (Finite False (1 / 2)) else None), ft_number = (\<lambda>_. ''0.5'')\<rparr>"

definition sample_environment :: "string \<Rightarrow> string option" where
  "sample_environment name = (if name = ''HARNESS_HISTORY_GROUPS'' then Some ''20'' else None)"

definition sample_arguments :: "string list" where
  "sample_arguments = [''--model'', ''m'', ''--no-stream'', ''--temperature'', ''0.5'', ''--request-timeout'', ''240'']"

definition sample_options :: options where
  "sample_options = \<lparr>op_demo = False, op_no_stream = True, op_no_tools = False, op_unsafe_local = False,
     op_workspace = None, op_endpoint = ''https://api.openai.com/v1/chat/completions'', op_model = Some ''m'',
     op_request_timeout = 240, op_max_output_tokens = 4096, op_temperature = Some (Finite False (1 / 2)),
     op_max_model_iterations = 32, op_history_groups = 20\<rparr>"

lemma sample_arguments_read:
  "parse_arguments sample_arguments [] [] =
     Inr ([(''--model'', ''m''), (''--request-timeout'', ''240''), (''--temperature'', ''0.5'')], [''--no-stream''])"
  by (simp add: sample_arguments_def flag_options_def value_options_def starts_with_def blank_def trim_def
      trim_end_def ws1_def ws2_def ws3_def byte_def)

lemma sample_options_read: "parse_options sample_numbers sample_arguments sample_environment = Inr sample_options"
  unfolding parse_options_def sample_arguments_read
  by (simp add: options_from_def option_temperature_def option_model_def option_number_def option_value_def
      sample_numbers_def sample_environment_def sample_options_def temperature_ok_def parse_u64_def
      decimal_digit_def blank_def trim_def trim_end_def ws1_def ws2_def ws3_def byte_def)

theorem options_as_given_witness:
  "parse_options sample_numbers sample_arguments sample_environment = Inr sample_options \<and>
   op_no_stream sample_options = (''--no-stream'' \<in> set sample_arguments) \<and>
   number_from (chosen sample_arguments sample_environment ''--request-timeout'' ''HARNESS_REQUEST_TIMEOUT'') 120 600
     (op_request_timeout sample_options)"
  using options_as_given [OF sample_options_read] sample_options_read by blast

end
