(* ===== verification/ToolsetSamples.thy ===== *)
theory ToolsetSamples
  imports ToolsetProperties ShellSamples OptionsProperties
begin

text \<open>
  The terminal program's tools on the sample workspace, in its sandbox, and a command that they run.
\<close>

lemma tool_names_not_blank:
  "\<not> blank ''read_file''" "\<not> blank ''write_file''" "\<not> blank ''shell''" "\<not> blank ''read_file_page''"
  "\<not> blank ''search_files''" "\<not> blank ''apply_patch''"
  by (code_simp)+

lemma register_fresh:
  "\<not> blank (td_name (t_definition t)) \<Longrightarrow> td_name (t_definition t) \<notin> set (keys registry) \<Longrightarrow>
   register_tool t (w, registry) = (Inr (), (w, bt_insert (td_name (t_definition t))
     \<lparr>rg_definition = t_definition t, rg_implementation = t\<rparr> registry))"
  by (simp add: register_tool_def register_arc_def bt_get_None Let_def)

text \<open>The sample disk with other counts of its operations and looks at the token.\<close>

definition sample_at :: "nat \<Rightarrow> nat \<Rightarrow> process_world" where
  "sample_at n k = sample_process\<lparr>pw_disk :=
     sample_workspace\<lparr>dk_host := steady_host\<lparr>h_operations := n\<rparr>, dk_looks := k\<rparr>\<rparr>"

lemma sample_directory:
  "on_files (process_directory [''w'']) (sample_at n k) = (Inr [''w''], sample_at (Suc (Suc n)) k)"
  by (simp add: on_files_def process_directory_def act_defs disk_canonicalize_def disk_is_dir_def disk_entry_def disk_io_def
      io_step_def sample_at_def sample_process_def sample_resolves sample_host_fields sample_entries)

lemma sample_file_tool:
  "on_files (file_tool_new [''w'']) (sample_at n k) =
     (Inr \<lparr>ft_workspace = [''w''], ft_maximum_bytes = 1048576\<rparr>, sample_at (Suc (Suc n)) k)"
  using sample_directory [of n k]
  by (auto simp: on_files_def file_tool_new_def and_then_def ok_def split: prod.splits sum.splits)

lemma sample_shell_tool:
  "shell_tool_new [''w''] runner (sample_at n k) =
     (Inr \<lparr>sh_workspace = [''w''], sh_runner = runner, sh_maximum_timeout_ms = 120000\<rparr>, sample_at (Suc (Suc n)) k)"
  by (simp add: shell_tool_new_def and_then_def sample_directory ok_def)

lemma sample_runner:
  "program_runner [''w''] sample_options (sample_at n k) =
     (Inr (runner_for sample_options [''w'']), sample_at (Suc (Suc n)) k)"
  by (simp add: program_runner_def runner_for_def sample_options_def bubblewrap_new_def and_then_def sample_directory ok_def)

lemma sample_tools:
  "\<exists>w tools. program_tools decode_error [''w''] sample_options (sample_at 0 0, []) = (Inr (), (w, tools))"
  by (simp add: program_tools_def register_workspace_tools_def register_editing_tools_def and_then_def on_world_def
      sample_runner sample_file_tool sample_shell_tool sample_directory register_fresh tool_names_not_blank
      on_files_tool_def ReadFileTool_def WriteFileTool_def ShellTool_def ReadFilePageTool_def SearchFilesTool_def
      ApplyPatchTool_def read_file_definition_def write_file_definition_def shell_definition_def
      read_file_page_definition_def search_files_definition_def apply_patch_definition_def)
    (simp add: sample_options_def)

section \<open>A command\<close>

definition sample_shell :: shell_tool where
  "sample_shell = \<lparr>sh_workspace = [''w''], sh_runner = runner_for sample_options [''w''], sh_maximum_timeout_ms = 120000\<rparr>"

definition shell_call :: tool_call where
  "shell_call = \<lparr>tc_id = ''call'', tc_name = ''shell'', tc_arguments =
     jobject [(''command'', JString ''echo hello''), (''timeout_ms'', JUint 0)]\<rparr>"

definition sample_scope :: tool_execution_context where
  "sample_scope = \<lparr>tx_thread_id = ''t'', tx_turn_id = ''u'', tx_workspace = None, tx_metadata = []\<rparr>"

lemma not_blank_sample: "\<not> blank ''echo hello''"
  by code_simp

definition sample_shell_action :: prepared_tool_call where
  "sample_shell_action = \<lparr>pc_call_id = ''call'',
     pc_action = in_scope (CanonicalAction_new ''shell'' (jobject [(''command'', JString ''echo hello''),
       (''working_directory'', path_json [''w'']), (''timeout_ms'', JUint 1)]) WorkspaceWrite Retry_Unsafe)
       (path_display [''w''])\<rparr>"

lemma shell_prepared:
  "shell_prepare sample_shell shell_call w = (Inr sample_shell_action, w)"
  by (simp add: shell_prepare_def shell_call_def sample_shell_def sample_shell_action_def on_files_def string_argument_def
      jfield_def act_defs not_blank_sample clamp_timeout_def)

lemma sample_arguments:
  "\<exists>args. bubblewrap_arguments \<lparr>bw_binary = ''bwrap'', bw_workspace = [''w''], bw_maximum_output_bytes = 1048576,
     bw_allow_network = False, bw_read_only_binds = []\<rparr>
     \<lparr>pr_command = c, pr_working_directory = [''w''], pr_timeout_ms = t\<rparr> (sample_at n k) = (Inr args, sample_at (n + 5) k)"
  by (simp add: bubblewrap_arguments_def system_paths_def process_runs disk_canonicalize_def disk_exists_def
      disk_entry_def sample_at_def sample_process_def sample_resolves sample_host_fields path_starts_with_def)

lemma sample_command_runs:
  "\<exists>out w'. run_command c t m (sample_at n k) = (Inr out, w')"
  by (simp add: process_runs drain_batch_numeral sample_at_def sample_process_def sample_host_fields Let_def)

lemma sample_look: "process_cancelled (sample_at n k) = (Inr False, sample_at n (Suc k))"
  by (simp add: on_files_def disk_cancelled_def sample_at_def sample_process_def sample_host_fields)

lemma sample_shell_runs:
  "\<exists>out w'. shell_execute decode_error sample_shell sample_shell_action (sample_at n k) = (Inr (output_json out), w')"
proof -
  obtain args where args: "bubblewrap_arguments \<lparr>bw_binary = ''bwrap'', bw_workspace = [''w''],
      bw_maximum_output_bytes = 1048576, bw_allow_network = False, bw_read_only_binds = []\<rparr>
     \<lparr>pr_command = ''echo hello'', pr_working_directory = [''w''], pr_timeout_ms = 1\<rparr> (sample_at n (Suc (Suc k))) =
     (Inr args, sample_at (n + 5) (Suc (Suc k)))"
    using sample_arguments by blast
  obtain out w' where "run_command \<lparr>cm_program = ''bwrap'', cm_arguments = args, cm_directory = None,
      cm_clear_environment = True\<rparr> 1 1048576 (sample_at (n + 5) (Suc (Suc k))) = (Inr out, w')"
    using sample_command_runs by blast
  with args show ?thesis
    by (simp add: shell_execute_def sample_shell_action_def sample_shell_def runner_for_def sample_options_def
        BubblewrapRunner_def and_then_def map_err_def attempt_def ok_def sample_look decode_prepared [OF sample_names]
        CanonicalAction_new_def in_scope_def) blast
qed


end
