(* ===== verification/Preview.thy ===== *)
theory Preview
  imports RustText Completion
begin

text \<open>
  The preview buffer of the terminal interface (crates/tui/src/progress.rs): one draft that text deltas
  of the same request are appended to, cut to its last 65536 bytes, and the last sixteen ends of requests,
  which are also written to the metrics file.
\<close>

section \<open>Bounded text\<close>

definition preview_limit :: nat where
  "preview_limit = 65536"

text \<open>\<open>while !is_char_boundary(start) { start += 1 }\<close>\<close>

function next_boundary :: "string \<Rightarrow> nat \<Rightarrow> nat" where
  "next_boundary s i = (if length s \<le> i \<or> is_char_boundary s i then i else next_boundary s (Suc i))"
  by pat_completeness auto
termination
  by (relation "measure (\<lambda>(s, i). length s - i)") auto

declare next_boundary.simps [simp del]

definition truncate_preview :: "string \<Rightarrow> string" where
  "truncate_preview s =
     (if preview_limit < length s then drop (next_boundary s (length s - preview_limit)) s else s)"

definition append_bounded :: "string \<Rightarrow> string \<Rightarrow> string" where
  "append_bounded previous s = truncate_preview (previous @ s)"

section \<open>The buffer\<close>

record preview_snapshot =
  pv_draft :: "model_progress_event option"
  pv_completed :: "model_progress_event list"
  pv_error :: "string option"

text \<open>\<open>pb_metrics\<close> is the metrics file, if there is one: what was written, and what each write returns.\<close>

record metrics_file =
  mf_lines :: "string list"
  mf_writes :: "nat \<Rightarrow> string option"
  mf_count :: nat

record preview_buffer =
  pb_state :: preview_snapshot
  pb_metrics :: "metrics_file option"

definition empty_snapshot :: preview_snapshot where
  "empty_snapshot = \<lparr>pv_draft = None, pv_completed = [], pv_error = None\<rparr>"

definition take_preview :: "preview_buffer \<Rightarrow> preview_snapshot \<times> preview_buffer" where
  "take_preview b = (pb_state b, b\<lparr>pb_state := empty_snapshot\<rparr>)"

definition same_request :: "model_progress_event \<Rightarrow> model_progress_event \<Rightarrow> bool" where
  "same_request old event \<longleftrightarrow> pg_turn_id old = pg_turn_id event \<and> pg_iteration old = pg_iteration event \<and>
     pg_thread_id old = pg_thread_id event"

text \<open>\<open>writeln!(file, "{record}")\<close>\<close>

definition write_metrics :: "string \<Rightarrow> preview_buffer \<Rightarrow> preview_buffer" where
  "write_metrics line b =
     (case pb_metrics b of
        None \<Rightarrow> b
      | Some f \<Rightarrow>
          (let f' = f\<lparr>mf_count := Suc (mf_count f)\<rparr> in
           case mf_writes f (mf_count f) of
             None \<Rightarrow> b\<lparr>pb_metrics := Some (f'\<lparr>mf_lines := mf_lines f @ [line]\<rparr>)\<rparr>
           | Some e \<Rightarrow> b\<lparr>pb_metrics := Some f',
               pb_state := (pb_state b)\<lparr>pv_error := Some (''request metrics write failed: '' @ e)\<rparr>\<rparr>))"

definition maximum_completed :: nat where
  "maximum_completed = 16"

text \<open>The record that is written is the encoding of the event, a parameter.\<close>

definition on_progress ::
  "(model_progress_event \<Rightarrow> string) \<Rightarrow> model_progress_event \<Rightarrow> preview_buffer \<Rightarrow> preview_buffer" where
  "on_progress encode event b =
     (case pg_progress event of
        Progress_Started \<Rightarrow> b\<lparr>pb_state := (pb_state b)\<lparr>pv_draft := Some event\<rparr>\<rparr>
      | Text_Delta s \<Rightarrow>
          (let fresh = b\<lparr>pb_state := (pb_state b)\<lparr>pv_draft := Some (event\<lparr>pg_progress := Text_Delta (truncate_preview s)\<rparr>)\<rparr>\<rparr>
           in case pv_draft (pb_state b) of
             None \<Rightarrow> fresh
           | Some old \<Rightarrow>
               (if \<not> same_request old event then fresh
                else case pg_progress old of
                  Text_Delta previous \<Rightarrow>
                    b\<lparr>pb_state := (pb_state b)\<lparr>pv_draft := Some (old\<lparr>pg_progress := Text_Delta (append_bounded previous s)\<rparr>)\<rparr>\<rparr>
                | _ \<Rightarrow> fresh))
      | Progress_Finished t outcome \<Rightarrow>
          (let b' = write_metrics (encode event) b; completed = pv_completed (pb_state b') @ [event]
           in b'\<lparr>pb_state := (pb_state b')\<lparr>pv_completed := drop (length completed - maximum_completed) completed\<rparr>\<rparr>))"

definition buffer_new :: "metrics_file option \<Rightarrow> preview_buffer" where
  "buffer_new metrics = \<lparr>pb_state = empty_snapshot, pb_metrics = metrics\<rparr>"

end
