(* ===== verification/Tui.thy ===== *)
theory Tui
  imports Preview
begin

text \<open>
  The terminal interface (crates/tui/src/lib.rs): its state, what it does with events, previews, approval
  prompts and keys, what it draws, and its loop. The channels, the terminal, the clock and the worker that
  runs a turn are outside: one round of the loop is given what they deliver. The interface keeps a log of
  what it does to them: the frames it draws, the prompts it answers, the turns it starts.
\<close>

section \<open>State\<close>

text \<open>A prompt's response channel is known by a number.\<close>

record approval_prompt =
  ap_channel :: nat
  ap_request :: approval_request

record frame =
  fr_title :: string
  fr_lines :: "string list"
  fr_approval :: "(string \<times> string) option" \<comment> \<open>the tool and the action shown\<close>
  fr_status :: string
  fr_input :: string

datatype ui_step =
    Rendered frame
  | Answered approval_prompt approval_decision
  | Started_turn thread_id string

record ui_state =
  ui_thread_id :: thread_id
  ui_current_turn :: "turn_id option"
  ui_iteration :: nat
  ui_settled :: bool
  ui_terminal_reported :: bool
  ui_draft :: string
  ui_started :: "nat option"
  ui_phase_started :: "nat option"
  ui_phase :: string
  ui_input :: string
  ui_logs :: "string list"
  ui_running :: bool
  ui_cancellation :: "bool option" \<comment> \<open>the token: has it been cancelled\<close>
  ui_current_approval :: "approval_prompt option"
  ui_queued_approvals :: "approval_prompt list"
  ui_steps :: "ui_step list"
  ui_received :: "approval_prompt list" \<comment> \<open>every prompt taken from the channel, for the statements\<close>

definition push_log :: "string \<Rightarrow> ui_state \<Rightarrow> ui_state" where
  "push_log line s = s\<lparr>ui_logs := ui_logs s @ [line]\<rparr>"

definition ui_new :: "thread_id \<Rightarrow> ui_state" where
  "ui_new thread =
     push_log ''Type a message. /cancel stops the active turn; /quit exits.''
       \<lparr>ui_thread_id = thread, ui_current_turn = None, ui_iteration = 0, ui_settled = True,
        ui_terminal_reported = False, ui_draft = [], ui_started = None, ui_phase_started = None, ui_phase = ''ready'',
        ui_input = [], ui_logs = [], ui_running = False, ui_cancellation = None, ui_current_approval = None,
        ui_queued_approvals = [], ui_steps = [], ui_received = []\<rparr>"

definition ui_is_cancelled :: "ui_state \<Rightarrow> bool" where
  "ui_is_cancelled s \<longleftrightarrow> ui_cancellation s = Some True"

text \<open>\<open>while logs.len() > maximum { logs.pop_front() }\<close>\<close>

definition trim_logs :: "nat \<Rightarrow> ui_state \<Rightarrow> ui_state" where
  "trim_logs maximum s = s\<lparr>ui_logs := drop (length (ui_logs s) - maximum) (ui_logs s)\<rparr>"

section \<open>Approvals\<close>

text \<open>The provider sends a prompt and waits for the response; \<open>None\<close> is a channel that was dropped.\<close>

definition tui_approval :: "bool \<Rightarrow> approval_decision option \<Rightarrow> approval_error + approval_decision" where
  "tui_approval listening response =
     (if \<not> listening then Inl (ApprovalError ''TUI approval channel was closed'')
      else case response of
        None \<Rightarrow> Inl (ApprovalError ''TUI approval response was dropped'')
      | Some decision \<Rightarrow> Inr decision)"

definition answer :: "approval_prompt \<Rightarrow> approval_decision \<Rightarrow> ui_state \<Rightarrow> ui_state" where
  "answer prompt decision s = s\<lparr>ui_steps := ui_steps s @ [Answered prompt decision]\<rparr>"

definition resolve_approval :: "bool \<Rightarrow> ui_state \<Rightarrow> ui_state" where
  "resolve_approval approve s =
     (let s1 = (case ui_current_approval s of
          None \<Rightarrow> s
        | Some prompt \<Rightarrow>
            (let action = ar_action (ap_request prompt); s = s\<lparr>ui_current_approval := None\<rparr>
             in if approve
                then answer prompt (Approved action) (push_log (''approved: '' @ ca_tool_name action) s)
                else answer prompt (Denied ''denied in TUI'') (push_log (''denied: '' @ ca_tool_name action) s)))
      in case ui_queued_approvals s1 of
           [] \<Rightarrow> s1\<lparr>ui_current_approval := None\<rparr>
         | p # ps \<Rightarrow> s1\<lparr>ui_current_approval := Some p, ui_queued_approvals := ps\<rparr>)"

function deny_pending :: "ui_state \<Rightarrow> ui_state" where
  "deny_pending s = (if ui_current_approval s = None then s else deny_pending (resolve_approval False s))"
  by pat_completeness auto
termination
  by (relation "measure (\<lambda>s. length (ui_queued_approvals s) + (if ui_current_approval s = None then 0 else 1))")
    (auto simp: resolve_approval_def Let_def answer_def push_log_def split: list.split)

declare deny_pending.simps [simp del]

definition receive_prompt :: "approval_prompt \<Rightarrow> ui_state \<Rightarrow> ui_state" where
  "receive_prompt prompt s =
     (let s = s\<lparr>ui_received := ui_received s @ [prompt]\<rparr>
      in if ui_is_cancelled s then answer prompt (Denied ''turn cancelled in TUI'') s
         else if ui_current_approval s = None then s\<lparr>ui_current_approval := Some prompt\<rparr>
         else s\<lparr>ui_queued_approvals := ui_queued_approvals s @ [prompt]\<rparr>)"

definition drain_approvals :: "approval_prompt list \<Rightarrow> ui_state \<Rightarrow> bool \<times> ui_state" where
  "drain_approvals prompts s = (prompts \<noteq> [], fold receive_prompt prompts s)"

definition cancel_active :: "ui_state \<Rightarrow> ui_state" where
  "cancel_active s =
     deny_pending (if ui_cancellation s = None then s
       else push_log ''cancellation requested'' (s\<lparr>ui_cancellation := Some True, ui_draft := []\<rparr>))"

section \<open>Events and previews\<close>

text \<open>What the interface writes with code it does not own: JSON and seconds.\<close>

record ui_text =
  ut_json :: "json \<Rightarrow> string"
  ut_seconds :: "nat \<Rightarrow> string"

fun receipt_status_text :: "receipt_status \<Rightarrow> string" where
  "receipt_status_text Receipt_Succeeded = ''ok''"
| "receipt_status_text Receipt_Failed = ''failed''"
| "receipt_status_text Receipt_Denied = ''denied''"
| "receipt_status_text Receipt_Unknown = ''unknown''"

fun format_event :: "ui_text \<Rightarrow> runtime_event \<Rightarrow> string option" where
  "format_event ut (AssistantMessage content calls _ _) =
     (if content \<noteq> [] then Some (''assistant: '' @ content)
      else if calls \<noteq> [] then Some (''assistant requested: '' @ join '', '' (map tc_name calls))
      else None)"
| "format_event ut (ToolPrepared p) =
     Some (''prepared '' @ ca_tool_name (pc_action p) @ '': '' @ ut_json ut (ca_arguments (pc_action p)))"
| "format_event ut (ToolReceiptRecorded r) =
     Some (''tool '' @ tr_tool_name r @ '' ['' @ receipt_status_text (tr_status r) @ '']: '' @
       (case tr_output r of
          Some v \<Rightarrow> ut_json ut v
        | None \<Rightarrow> (case tr_error r of Some e \<Rightarrow> e | None \<Rightarrow> [])))"
| "format_event ut (TurnCompleted _) = Some ''turn complete''"
| "format_event ut TurnCancelled = Some ''turn cancelled''"
| "format_event ut (TurnFailed e) = Some (''turn failed: '' @ e)"
| "format_event ut _ = None"

text \<open>One event of the interface's thread, at the time \<open>now\<close>.\<close>

definition event_state :: "nat \<Rightarrow> event_envelope \<Rightarrow> ui_state \<Rightarrow> ui_state" where
  "event_state now v s =
     (case ev_event v of
        TurnStarted \<Rightarrow> s\<lparr>ui_current_turn := ev_turn_id v, ui_draft := [], ui_settled := True\<rparr>
      | ModelRequestStarted i \<Rightarrow> s\<lparr>ui_iteration := i, ui_settled := False, ui_draft := [],
          ui_phase := ''waiting for model'', ui_phase_started := Some now\<rparr>
      | AssistantMessage _ _ _ _ \<Rightarrow> s\<lparr>ui_settled := True, ui_draft := [], ui_phase := ''processing''\<rparr>
      | TurnCompleted _ \<Rightarrow> s\<lparr>ui_settled := True, ui_draft := [], ui_phase := ''processing''\<rparr>
      | TurnCancelled \<Rightarrow> s\<lparr>ui_settled := True, ui_draft := [], ui_phase := ''processing''\<rparr>
      | TurnFailed _ \<Rightarrow> s\<lparr>ui_settled := True, ui_draft := [], ui_phase := ''processing''\<rparr>
      | ToolExecutionStarted _ \<Rightarrow> s\<lparr>ui_phase := ''executing tool'', ui_phase_started := Some now\<rparr>
      | ApprovalRequested _ \<Rightarrow> s\<lparr>ui_phase := ''awaiting approval'', ui_phase_started := Some now\<rparr>
      | _ \<Rightarrow> s)"

fun take_events :: "ui_text \<Rightarrow> nat \<Rightarrow> event_envelope list \<Rightarrow> ui_state \<Rightarrow> bool \<times> ui_state" where
  "take_events ut now [] s = (False, s)"
| "take_events ut now (v # vs) s =
     (if ev_thread_id v \<noteq> ui_thread_id s then take_events ut now vs s
      else
        let s = (if terminal_event (ev_event v) then s\<lparr>ui_terminal_reported := True\<rparr> else s);
            s = event_state now v s
        in case format_event ut (ev_event v) of
             None \<Rightarrow> take_events ut now vs s
           | Some line \<Rightarrow> (True, snd (take_events ut now vs (push_log line s))))"

definition drain_events :: "ui_text \<Rightarrow> nat \<Rightarrow> nat \<Rightarrow> event_envelope list \<Rightarrow> ui_state \<Rightarrow> bool \<times> ui_state" where
  "drain_events ut maximum now vs s =
     (case take_events ut now vs s of (changed, s) \<Rightarrow> (changed, trim_logs maximum s))"

definition ms_text :: "u64 option \<Rightarrow> string" where
  "ms_text v = (case v of None \<Rightarrow> ''unknown'' | Some n \<Rightarrow> dec (unat n) @ ''ms'')"

definition current_preview :: "model_progress_event \<Rightarrow> ui_state \<Rightarrow> bool" where
  "current_preview event s \<longleftrightarrow> pg_thread_id event = ui_thread_id s \<and> Some (pg_turn_id event) = ui_current_turn s \<and>
     pg_iteration event = ui_iteration s \<and> \<not> ui_settled s \<and> \<not> ui_is_cancelled s"

definition draft_progress :: "model_progress_event option \<Rightarrow> ui_state \<Rightarrow> bool \<times> ui_state" where
  "draft_progress draft s =
     (case draft of
        Some event \<Rightarrow>
          (if current_preview event s
           then (case pg_progress event of
             Text_Delta t \<Rightarrow> (True, s\<lparr>ui_draft := append_bounded (ui_draft s) t, ui_phase := ''receiving model text''\<rparr>)
           | _ \<Rightarrow> (False, s))
           else (False, s))
      | None \<Rightarrow> (False, s))"

definition finished_line :: "nat \<Rightarrow> request_timings \<Rightarrow> string \<Rightarrow> string" where
  "finished_line iteration t outcome =
     ''request '' @ dec iteration @ '' '' @ outcome @ '': DNS '' @ ms_text (rt_dns_ms t) @ '' TCP '' @
     ms_text (rt_tcp_connect_ms t) @ '' TLS '' @ ms_text (rt_tls_ms t) @ '' | first byte '' @
     ms_text (rt_first_byte_ms t) @ '' first text '' @ ms_text (rt_first_text_ms t) @ '' | total '' @
     dec (unat (rt_total_ms t)) @ ''ms''"

fun completed_progress :: "model_progress_event list \<Rightarrow> ui_state \<Rightarrow> bool \<times> ui_state" where
  "completed_progress [] s = (False, s)"
| "completed_progress (event # events) s =
     (if pg_thread_id event \<noteq> ui_thread_id s then completed_progress events s
      else case pg_progress event of
        Progress_Finished t outcome \<Rightarrow>
          (True, snd (completed_progress events (push_log (finished_line (pg_iteration event) t outcome) s)))
      | _ \<Rightarrow> completed_progress events s)"

definition drain_progress :: "preview_snapshot \<Rightarrow> ui_state \<Rightarrow> bool \<times> ui_state" where
  "drain_progress snapshot s =
     (case draft_progress (pv_draft snapshot) s of (c1, s) \<Rightarrow>
      case completed_progress (pv_completed snapshot) s of (c2, s) \<Rightarrow>
      case pv_error snapshot of
        None \<Rightarrow> (c1 \<or> c2, s)
      | Some e \<Rightarrow> (True, push_log e s))"

end
