(* ===== verification/TuiLoop.thy ===== *)
theory TuiLoop
  imports Tui
begin

text \<open>
  The terminal interface's keys, its drawing and its loop (crates/tui/src/lib.rs).
\<close>

section \<open>Keys\<close>

datatype key_code = Key_Char string | Key_Enter | Key_Esc | Key_Backspace | Key_Other

record key_event =
  ke_control :: bool
  ke_code :: key_code

text \<open>\<open>String::pop\<close>\<close>

definition drop_last_char :: "string \<Rightarrow> string" where
  "drop_last_char s = rev (drop 1 (dropWhile (\<lambda>c. \<not> starts_char c) (rev s)))"

definition begin_turn :: "nat \<Rightarrow> string \<Rightarrow> ui_state \<Rightarrow> ui_state" where
  "begin_turn now input s =
     (let s = s\<lparr>ui_running := True, ui_terminal_reported := False, ui_started := Some now,
          ui_phase_started := Some now, ui_phase := ''preparing'', ui_draft := [], ui_cancellation := Some False\<rparr>;
          s = push_log (''you: '' @ input) s
      in s\<lparr>ui_steps := ui_steps s @ [Started_turn (ui_thread_id s) input]\<rparr>)"

text \<open>The line that was entered; the flag says to leave.\<close>

definition submit_input :: "nat \<Rightarrow> ui_state \<Rightarrow> bool \<times> ui_state" where
  "submit_input now s =
     (let input = trim (ui_input s); s = s\<lparr>ui_input := []\<rparr>
      in if input = [] then (False, s)
         else if input = ''/quit'' \<or> input = ''/exit'' then (True, s)
         else if input = ''/cancel'' then (False, cancel_active s)
         else if ui_running s then (False, push_log ''a turn is already running'' s)
         else (False, begin_turn now input s))"

definition handle_key :: "nat \<Rightarrow> nat \<Rightarrow> key_event \<Rightarrow> ui_state \<Rightarrow> bool \<times> ui_state" where
  "handle_key maximum now key s =
     (if ke_control key \<and> ke_code key = Key_Char ''c''
      then (if ui_running s then (False, cancel_active s) else (True, s))
      else if ui_current_approval s \<noteq> None
      then (False,
        if ke_code key \<in> {Key_Char ''y'', Key_Char ''Y''} then resolve_approval True s
        else if ke_code key \<in> {Key_Char ''n'', Key_Char ''N'', Key_Esc} then resolve_approval False s
        else s)
      else case (case ke_code key of
          Key_Esc \<Rightarrow> (True, s)
        | Key_Char c \<Rightarrow> (False, s\<lparr>ui_input := ui_input s @ c\<rparr>)
        | Key_Backspace \<Rightarrow> (False, s\<lparr>ui_input := drop_last_char (ui_input s)\<rparr>)
        | Key_Enter \<Rightarrow> submit_input now s
        | Key_Other \<Rightarrow> (False, s)) of
          (True, s) \<Rightarrow> (True, s)
        | (False, s) \<Rightarrow> (False, trim_logs maximum s))"

definition finish_turn :: "string + string \<Rightarrow> ui_state \<Rightarrow> ui_state" where
  "finish_turn result s =
     (let s = s\<lparr>ui_running := False, ui_cancellation := None, ui_draft := []\<rparr>
      in if ui_terminal_reported s then s
         else case result of Inl e \<Rightarrow> push_log (''turn failed: '' @ e) s | Inr _ \<Rightarrow> s)"

section \<open>Drawing\<close>

function char_list :: "string \<Rightarrow> string list" where
  "char_list [] = []"
| "char_list (c # s) =
     (c # takeWhile (\<lambda>x. \<not> starts_char x) s) # char_list (dropWhile (\<lambda>x. \<not> starts_char x) s)"
  by pat_completeness auto
termination
  by (relation "measure length") (auto simp: le_imp_less_Suc length_dropWhile_le)

text \<open>\<open>char::is_control\<close>: U+0000 to U+001F and U+007F to U+009F\<close>

definition is_control :: "string \<Rightarrow> bool" where
  "is_control c = (case c of
       [a] \<Rightarrow> byte a < 0x20 \<or> byte a = 0x7F
     | [a, b] \<Rightarrow> byte a = 0xC2 \<and> byte b < 0xA0
     | _ \<Rightarrow> False)"

fun wrap_chars :: "nat \<Rightarrow> string list \<Rightarrow> string list \<Rightarrow> string list" where
  "wrap_chars width [] current = [concat current]"
| "wrap_chars width (c # cs) current =
     (if c = [newline] then concat current # wrap_chars width cs []
      else if width \<le> length current then concat current # wrap_chars width cs [c]
      else wrap_chars width cs (current @ [c]))"

definition wrap_line :: "string \<Rightarrow> nat \<Rightarrow> string list" where
  "wrap_line line width =
     (if width = 0 then [[]]
      else wrap_chars width (filter (\<lambda>c. \<not> is_control c \<or> c = [newline]) (char_list line)) [])"

record tui_config =
  tc_title :: string
  tc_maximum_log_entries :: nat

definition tui_config_default :: tui_config where
  "tui_config_default = \<lparr>tc_title = ''Agent Harness'', tc_maximum_log_entries = 2000\<rparr>"

definition status_line :: "ui_text \<Rightarrow> nat \<Rightarrow> ui_state \<Rightarrow> string" where
  "status_line ut now s =
     (if ui_running s
      then (let since = (\<lambda>start. ut_seconds ut (case start of None \<Rightarrow> 0 | Some t \<Rightarrow> now - t)) in
        (if ui_is_cancelled s then ''cancelling'' else ui_phase s) @ '' '' @ since (ui_phase_started s) @ ''s | turn '' @
        since (ui_started s) @ ''s | Ctrl+C cancels'')
      else ''ready | Ctrl+C exits'')"

definition visible_lines :: "nat \<Rightarrow> nat \<Rightarrow> ui_state \<Rightarrow> string list" where
  "visible_lines width height s =
     (let width = max width 20;
          log_height = height - (4 + (if ui_current_approval s = None then 0 else 4));
          wrapped = concat (map (\<lambda>line. wrap_line line (width - 2)) (ui_logs s)) @
            (if ui_draft s = [] then [] else wrap_line (''draft (unvalidated): '' @ ui_draft s) (width - 2))
      in drop (length wrapped - log_height) wrapped)"

definition shown_action :: "ui_text \<Rightarrow> approval_prompt \<Rightarrow> string \<times> string" where
  "shown_action ut prompt =
     (ca_tool_name (ar_action (ap_request prompt)), ut_json ut (ca_arguments (ar_action (ap_request prompt))))"

definition render_frame :: "ui_text \<Rightarrow> tui_config \<Rightarrow> nat \<Rightarrow> nat \<times> nat \<Rightarrow> ui_state \<Rightarrow> frame" where
  "render_frame ut config now extent s =
     \<lparr>fr_title = tc_title config @ ''  ['' @ ui_thread_id s @ '']'',
      fr_lines = visible_lines (fst extent) (snd extent) s,
      fr_approval = map_option (shown_action ut) (ui_current_approval s),
      fr_status = ''status: '' @ status_line ut now s, fr_input = ''> '' @ ui_input s\<rparr>"

section \<open>The loop\<close>

datatype turn_message = Turn_Result "string + string" | Turn_Empty | Turn_Disconnected

datatype terminal_event = Key_Pressed key_event | Resized | Other_Event

text \<open>What the outside gives to one round: the channels' contents, the time, the size of the terminal (or why it
  cannot be drawn), whether there is an event and which; and, for a round that leaves, what the channels give
  while the worker closes.\<close>

record round =
  rn_events :: "event_envelope list"
  rn_snapshot :: preview_snapshot
  rn_approvals :: "approval_prompt list"
  rn_turn :: turn_message
  rn_late_events :: "event_envelope list"
  rn_now :: nat
  rn_extent :: "string + nat \<times> nat"
  rn_poll :: "string + bool"
  rn_read :: "string + terminal_event"
  rn_closing :: "(approval_prompt list \<times> bool) list"

definition receive_turn :: "ui_text \<Rightarrow> nat \<Rightarrow> round \<Rightarrow> ui_state \<Rightarrow> bool \<times> ui_state" where
  "receive_turn ut maximum r s =
     (case rn_turn r of
        Turn_Result result \<Rightarrow>
          (True, finish_turn result (snd (drain_events ut maximum (rn_now r) (rn_late_events r) s)))
      | Turn_Empty \<Rightarrow> (False, s)
      | Turn_Disconnected \<Rightarrow> if ui_running s then (True, s\<lparr>ui_running := False\<rparr>) else (False, s))"

definition receive_all :: "ui_text \<Rightarrow> nat \<Rightarrow> round \<Rightarrow> ui_state \<Rightarrow> bool \<times> ui_state" where
  "receive_all ut maximum r s =
     (case drain_events ut maximum (rn_now r) (rn_events r) s of (d1, s) \<Rightarrow>
      case drain_progress (rn_snapshot r) s of (d2, s) \<Rightarrow>
      case drain_approvals (rn_approvals r) s of (d3, s) \<Rightarrow>
      case receive_turn ut maximum r s of (d4, s) \<Rightarrow> (d1 \<or> d2 \<or> d3 \<or> d4, s))"

text \<open>For at most two seconds, until the worker's result comes.\<close>

fun close_worker :: "(approval_prompt list \<times> bool) list \<Rightarrow> ui_state \<Rightarrow> ui_state" where
  "close_worker [] s = s"
| "close_worker ((prompts, ended) # rounds) s =
     (let s = deny_pending (snd (drain_approvals prompts s))
      in if ended then s else close_worker rounds s)"

definition cancel_token :: "ui_state \<Rightarrow> ui_state" where
  "cancel_token s = s\<lparr>ui_cancellation := map_option (\<lambda>_. True) (ui_cancellation s)\<rparr>"

definition leave_loop :: "round \<Rightarrow> ui_state \<Rightarrow> ui_state" where
  "leave_loop r s =
     (let s = cancel_token (deny_pending s)
      in if ui_running s then close_worker (rn_closing r) s else s)"

text \<open>\<open>Drop for UiState\<close>\<close>

definition drop_state :: "ui_state \<Rightarrow> ui_state" where
  "drop_state s = deny_pending (cancel_token s)"

datatype 'a round_end = Goes_on bool | Leaves 'a

definition draw_frame :: "ui_text \<Rightarrow> tui_config \<Rightarrow> round \<Rightarrow> bool \<Rightarrow> (ui_state, string, unit) act" where
  "draw_frame ut config r dirty s =
     (if \<not> (dirty \<or> ui_running s) then (Inr (), s)
      else case rn_extent r of
        Inl e \<Rightarrow> (Inl e, s)
      | Inr extent \<Rightarrow>
          (Inr (), s\<lparr>ui_steps := ui_steps s @ [Rendered (render_frame ut config (rn_now r) extent s)]\<rparr>))"

definition read_terminal ::
  "tui_config \<Rightarrow> round \<Rightarrow> ui_state \<Rightarrow> (string + unit) round_end \<times> ui_state" where
  "read_terminal config r s =
     (case rn_poll r of
        Inl e \<Rightarrow> (Leaves (Inl e), s)
      | Inr False \<Rightarrow> (Goes_on False, s)
      | Inr True \<Rightarrow>
          (case rn_read r of
             Inl e \<Rightarrow> (Leaves (Inl e), s)
           | Inr (Key_Pressed key) \<Rightarrow>
               (case handle_key (tc_maximum_log_entries config) (rn_now r) key s of
                  (True, s) \<Rightarrow> (Leaves (Inr ()), leave_loop r s)
                | (False, s) \<Rightarrow> (Goes_on True, s))
           | Inr Resized \<Rightarrow> (Goes_on True, s)
           | Inr Other_Event \<Rightarrow> (Goes_on False, s)))"

definition tui_round ::
  "ui_text \<Rightarrow> tui_config \<Rightarrow> round \<Rightarrow> bool \<Rightarrow> ui_state \<Rightarrow> (string + unit) round_end \<times> ui_state" where
  "tui_round ut config r dirty s =
     (case receive_all ut (tc_maximum_log_entries config) r s of (changed, s) \<Rightarrow>
      case draw_frame ut config r (dirty \<or> changed) s of
        (Inl e, s) \<Rightarrow> (Leaves (Inl e), s)
      | (Inr _, s) \<Rightarrow> read_terminal config r s)"

text \<open>\<open>run\<close>: its result, if the rounds given are enough for it to leave, and the state dropped.\<close>

fun tui_loop :: "ui_text \<Rightarrow> tui_config \<Rightarrow> round list \<Rightarrow> bool \<Rightarrow> ui_state \<Rightarrow> (string + unit) option \<times> ui_state" where
  "tui_loop ut config [] dirty s = (None, s)"
| "tui_loop ut config (r # rs) dirty s =
     (case tui_round ut config r dirty s of
        (Leaves result, s) \<Rightarrow> (Some result, drop_state s)
      | (Goes_on dirty, s) \<Rightarrow> tui_loop ut config rs dirty s)"

definition tui_run :: "ui_text \<Rightarrow> tui_config \<Rightarrow> thread_id \<Rightarrow> round list \<Rightarrow> (string + unit) option \<times> ui_state" where
  "tui_run ut config thread rounds = tui_loop ut config rounds True (ui_new thread)"

end
