(* ===== verification/TuiProperties.thy ===== *)
theory TuiProperties
  imports TuiLoop "HOL-Library.Multiset"
begin

text \<open>
  The properties of the terminal interface: every prompt is answered once and only an action on the screen
  is approved; the preview is the end of the text received; what is drawn is the text without its control
  characters.
\<close>

section \<open>Answers\<close>

definition answers :: "ui_step list \<Rightarrow> (approval_prompt \<times> approval_decision) list" where
  "answers steps = List.map_filter (\<lambda>x. case x of Answered p d \<Rightarrow> Some (p, d) | _ \<Rightarrow> None) steps"

definition last_frame :: "ui_step list \<Rightarrow> frame option" where
  "last_frame steps = fold (\<lambda>x f. case x of Rendered g \<Rightarrow> Some g | _ \<Rightarrow> f) steps None"

definition pending :: "ui_state \<Rightarrow> approval_prompt list" where
  "pending s = (case ui_current_approval s of None \<Rightarrow> [] | Some p \<Rightarrow> [p]) @ ui_queued_approvals s"

definition prompts_ok :: "ui_state \<Rightarrow> bool" where
  "prompts_ok s \<longleftrightarrow> mset (ui_received s) = mset (map fst (answers (ui_steps s))) + mset (pending s) \<and>
     (ui_current_approval s = None \<longrightarrow> ui_queued_approvals s = [])"

definition shown_before :: "ui_text \<Rightarrow> ui_step list \<Rightarrow> bool" where
  "shown_before ut steps \<longleftrightarrow> (\<forall>pre p a post. steps = pre @ Answered p (Approved a) # post \<longrightarrow>
     a = ar_action (ap_request p) \<and> (\<exists>f. last_frame pre = Some f \<and> fr_approval f = Some (shown_action ut p)))"

lemma answers_append [simp]: "answers (xs @ ys) = answers xs @ answers ys"
  by (simp add: answers_def List.map_filter_def)

lemma answers_simps [simp]:
  "answers [] = []" "answers (Answered p d # xs) = (p, d) # answers xs"
  "answers (Rendered f # xs) = answers xs" "answers (Started_turn t i # xs) = answers xs"
  by (simp_all add: answers_def List.map_filter_def)

lemma last_frame_snoc [simp]:
  "last_frame (xs @ [Rendered f]) = Some f" "last_frame (xs @ [Answered p d]) = last_frame xs"
  "last_frame (xs @ [Started_turn t i]) = last_frame xs"
  by (simp_all add: last_frame_def)

lemma shown_before_snoc:
  "shown_before ut (xs @ [x]) \<longleftrightarrow> shown_before ut xs \<and> (\<forall>p a. x = Answered p (Approved a) \<longrightarrow>
     a = ar_action (ap_request p) \<and> (\<exists>f. last_frame xs = Some f \<and> fr_approval f = Some (shown_action ut p)))"
proof -
  have split: "xs @ [x] = pre @ y # post \<longleftrightarrow> (post = [] \<and> pre = xs \<and> x = y) \<or> (\<exists>q. post = q @ [x] \<and> xs = pre @ y # q)"
    for pre y post by (cases post rule: rev_cases) auto
  show ?thesis unfolding shown_before_def split by blast
qed

section \<open>What leaves the prompts alone\<close>

definition approval_view where
  "approval_view s = (ui_steps s, ui_received s, ui_current_approval s, ui_queued_approvals s)"

named_theorems view

lemma view_updates [view]:
  "approval_view (push_log l s) = approval_view s" "approval_view (trim_logs m s) = approval_view s"
  "approval_view (cancel_token s) = approval_view s" "approval_view (event_state now v s) = approval_view s"
  "approval_view (finish_turn result s) = approval_view s"
  by (auto simp: approval_view_def push_log_def trim_logs_def cancel_token_def event_state_def finish_turn_def Let_def
      split: runtime_event.split sum.split)

lemma view_events [view]: "approval_view (snd (take_events ut now vs s)) = approval_view s"
proof (induction vs arbitrary: s)
  case (Cons v vs)
  have "approval_view (s\<lparr>ui_terminal_reported := True\<rparr>) = approval_view s" by (simp add: approval_view_def)
  with Cons show ?case by (simp add: Let_def view split: option.split)
qed simp

lemma view_drain_events [view]: "approval_view (snd (drain_events ut m now vs s)) = approval_view s"
  using view_events [of ut now vs s] by (simp add: drain_events_def view split_beta)

lemma view_progress [view]: "approval_view (snd (drain_progress snapshot s)) = approval_view s"
proof -
  have one: "approval_view (snd (draft_progress draft s)) = approval_view s" for draft s
    by (simp add: draft_progress_def approval_view_def split: option.split model_progress.split)
  have two: "approval_view (snd (completed_progress es s)) = approval_view s" for es s
    by (induction es arbitrary: s) (simp_all add: view split: model_progress.split)
  from one [of "pv_draft snapshot" s] two [of "pv_completed snapshot" "snd (draft_progress (pv_draft snapshot) s)"]
  show ?thesis by (simp add: drain_progress_def view split_beta split: option.split)
qed

lemma view_turn [view]: "approval_view (snd (receive_turn ut m r s)) = approval_view s"
  unfolding receive_turn_def
  by (auto simp: view split: turn_message.split) (simp_all add: approval_view_def)

lemma prompts_ok_view: "approval_view s' = approval_view s \<Longrightarrow> prompts_ok s' \<longleftrightarrow> prompts_ok s"
  by (simp add: approval_view_def prompts_ok_def pending_def)

section \<open>What answers them\<close>

lemma resolve_prompts: "prompts_ok s \<Longrightarrow> prompts_ok (resolve_approval b s)"
  by (auto simp: prompts_ok_def pending_def resolve_approval_def Let_def answer_def push_log_def
      split: option.splits list.splits)

lemma receive_prompts: "prompts_ok s \<Longrightarrow> prompts_ok (fold receive_prompt ps s)"
proof (induction ps arbitrary: s)
  case (Cons p ps)
  have "prompts_ok (receive_prompt p s)"
    using Cons.prems by (auto simp: prompts_ok_def pending_def answer_def receive_prompt_def Let_def)
  with Cons.IH show ?case by simp
qed simp

text \<open>Steps that are denials.\<close>

definition denials :: "ui_step list \<Rightarrow> bool" where
  "denials steps \<longleftrightarrow> (\<forall>x\<in>set steps. \<exists>p r. x = Answered p (Denied r))"

lemma denials_shown: "denials ds \<Longrightarrow> shown_before ut xs \<Longrightarrow> shown_before ut (xs @ ds) \<and> last_frame (xs @ ds) = last_frame xs"
proof (induction ds rule: rev_induct)
  case (snoc d ds)
  then show ?case by (auto simp: denials_def append_assoc [symmetric] shown_before_snoc simp del: append_assoc)
qed simp

lemma deny_pending_result:
  "prompts_ok s \<Longrightarrow> prompts_ok (deny_pending s) \<and> ui_current_approval (deny_pending s) = None \<and>
   (\<exists>ds. denials ds \<and> ui_steps (deny_pending s) = ui_steps s @ ds)"
proof (induction s rule: deny_pending.induct)
  case (1 s)
  show ?case
  proof (cases "ui_current_approval s")
    case None
    then show ?thesis using 1 by (auto simp: deny_pending.simps denials_def)
  next
    case (Some p)
    let ?s = "resolve_approval False s"
    have "ui_steps ?s = ui_steps s @ [Answered p (Denied ''denied in TUI'')]"
      using Some by (auto simp: resolve_approval_def Let_def answer_def push_log_def split: list.split)
    moreover have "deny_pending s = deny_pending ?s" using Some by (subst deny_pending.simps) simp
    moreover obtain ds where "denials ds" "ui_steps (deny_pending ?s) = ui_steps ?s @ ds"
      "prompts_ok (deny_pending ?s)" "ui_current_approval (deny_pending ?s) = None"
      using "1.IH" Some resolve_prompts [OF "1.prems"] by auto
    ultimately show ?thesis
      by (intro conjI exI [of _ "Answered p (Denied ''denied in TUI'') # ds"]) (auto simp: denials_def)
  qed
qed

lemma receive_denies: "\<exists>ds. denials ds \<and> ui_steps (fold receive_prompt ps s) = ui_steps s @ ds"
proof (induction ps arbitrary: s)
  case (Cons p ps)
  obtain ds where "denials ds" "ui_steps (fold receive_prompt ps (receive_prompt p s)) = ui_steps (receive_prompt p s) @ ds"
    using Cons.IH by blast
  moreover have "ui_steps (receive_prompt p s) =
      ui_steps s @ (if ui_is_cancelled s then [Answered p (Denied ''turn cancelled in TUI'')] else [])"
    by (simp add: receive_prompt_def answer_def Let_def ui_is_cancelled_def)
  then have "\<exists>es. denials es \<and> ui_steps (receive_prompt p s) = ui_steps s @ es"
    by (intro exI conjI) (auto simp: denials_def)
  then obtain es where "denials es" "ui_steps (receive_prompt p s) = ui_steps s @ es" by blast
  ultimately show ?case by (intro exI [of _ "es @ ds"]) (auto simp: denials_def)
qed (simp add: denials_def)

section \<open>The loop\<close>

text \<open>The state between two rounds: the prompts are accounted for, what was approved was on the screen, and
  what is on the screen is the prompt that a key would answer, unless the state is dirty.\<close>

definition screen_ok :: "ui_text \<Rightarrow> ui_state \<Rightarrow> bool" where
  "screen_ok ut s \<longleftrightarrow> (\<exists>f. last_frame (ui_steps s) = Some f \<and>
     fr_approval f = map_option (shown_action ut) (ui_current_approval s))"

definition ui_ok :: "ui_text \<Rightarrow> ui_state \<Rightarrow> bool" where
  "ui_ok ut s \<longleftrightarrow> prompts_ok s \<and> shown_before ut (ui_steps s)"

lemma ui_ok_view: "approval_view s' = approval_view s \<Longrightarrow> (ui_ok ut s' \<longleftrightarrow> ui_ok ut s) \<and> (screen_ok ut s' \<longleftrightarrow> screen_ok ut s)"
  using prompts_ok_view [of s' s] by (simp add: approval_view_def ui_ok_def screen_ok_def)

lemma ui_ok_receive: "ui_ok ut s \<Longrightarrow> ui_ok ut (fold receive_prompt ps s)"
  using receive_prompts [of s ps] receive_denies [of ps s] denials_shown by (fastforce simp: ui_ok_def)

lemma ui_ok_deny: "ui_ok ut s \<Longrightarrow> ui_ok ut (deny_pending s) \<and> ui_current_approval (deny_pending s) = None"
  using deny_pending_result [of s] denials_shown by (fastforce simp: ui_ok_def)

lemma receive_all_ok:
  assumes "receive_all ut m r s = (changed, s')" and "ui_ok ut s"
  shows "ui_ok ut s' \<and> (\<not> changed \<longrightarrow> screen_ok ut s \<longrightarrow> screen_ok ut s')"
proof -
  let ?s1 = "snd (drain_events ut m (rn_now r) (rn_events r) s)"
  let ?s2 = "snd (drain_progress (rn_snapshot r) ?s1)"
  let ?s3 = "fold receive_prompt (rn_approvals r) ?s2"
  have s': "s' = snd (receive_turn ut m r ?s3)" and changed: "\<not> changed \<Longrightarrow> rn_approvals r = []"
    using assms(1) by (auto simp: receive_all_def split_beta drain_approvals_def)
  have v1: "approval_view ?s1 = approval_view s" and v2: "approval_view ?s2 = approval_view ?s1"
    and v4: "approval_view s' = approval_view ?s3" unfolding s' by (rule view)+
  have "ui_ok ut ?s2" using ui_ok_view [OF v1] ui_ok_view [OF v2] assms(2) by blast
  then have "ui_ok ut s'" using ui_ok_receive ui_ok_view [OF v4] by blast
  moreover have "screen_ok ut s'" if "\<not> changed" "screen_ok ut s"
    using ui_ok_view [OF v1, of ut] ui_ok_view [OF v2, of ut] ui_ok_view [OF v4, of ut] changed [OF that(1)] that(2) by simp
  ultimately show ?thesis by blast
qed

lemma resolve_ok:
  assumes "ui_ok ut s" and "approve \<Longrightarrow> screen_ok ut s"
  shows "ui_ok ut (resolve_approval approve s)"
proof -
  have "shown_before ut (ui_steps (resolve_approval approve s))"
    using assms
    by (auto simp: ui_ok_def screen_ok_def resolve_approval_def Let_def answer_def push_log_def shown_before_snoc
        split: option.splits list.splits)
  with resolve_prompts assms(1) show ?thesis by (simp add: ui_ok_def)
qed

lemma cancel_active_ok:
  assumes "ui_ok ut s"
  shows "ui_ok ut (cancel_active s)"
proof -
  let ?t = "if ui_cancellation s = None then s
      else push_log ''cancellation requested'' (s\<lparr>ui_cancellation := Some True, ui_draft := []\<rparr>)"
  have "approval_view ?t = approval_view s" by (simp add: approval_view_def push_log_def)
  from conjunct1 [OF ui_ok_view [OF this]] assms have "ui_ok ut ?t" by blast
  from ui_ok_deny [OF this] show ?thesis unfolding cancel_active_def by blast
qed

lemma begin_turn_ok: "ui_ok ut s \<Longrightarrow> ui_ok ut (begin_turn now input s)"
  by (auto simp: ui_ok_def prompts_ok_def pending_def begin_turn_def Let_def push_log_def shown_before_snoc)

lemma handle_key_ok:
  assumes "ui_ok ut s" and "screen_ok ut s"
  shows "ui_ok ut (snd (handle_key m now key s))"
proof -
  have keep: "ui_ok ut (s\<lparr>ui_input := i\<rparr>)" for i
    using ui_ok_view [of "s\<lparr>ui_input := i\<rparr>" s ut] assms(1) by (simp add: approval_view_def)
  have log: "ui_ok ut t \<Longrightarrow> ui_ok ut (push_log l t) \<and> ui_ok ut (trim_logs k t)" for l t k
    using ui_ok_view [OF view_updates(1)] ui_ok_view [OF view_updates(2)] by blast
  have submit: "ui_ok ut (snd (submit_input now s))"
    using keep [of "[]"] by (simp add: submit_input_def Let_def cancel_active_ok begin_turn_ok log)
  show ?thesis
    using assms keep submit log
    by (auto simp: handle_key_def cancel_active_ok resolve_ok split_beta split: key_code.split bool.split)
qed

lemma leave_ok:
  assumes "ui_ok ut s"
  shows "ui_ok ut (drop_state s) \<and> ui_current_approval (drop_state s) = None" and "ui_ok ut (leave_loop r s)"
proof -
  have token: "ui_ok ut t \<Longrightarrow> ui_ok ut (cancel_token t)" for t using ui_ok_view [OF view_updates(3)] by blast
  show "ui_ok ut (drop_state s) \<and> ui_current_approval (drop_state s) = None"
    unfolding drop_state_def by (rule ui_ok_deny [OF token [OF assms]])
  have "ui_ok ut t \<Longrightarrow> ui_ok ut (close_worker rounds t)" for rounds t
    by (induction rounds t rule: close_worker.induct)
      (simp_all add: Let_def drain_approvals_def ui_ok_receive ui_ok_deny)
  then show "ui_ok ut (leave_loop r s)" using assms by (simp add: leave_loop_def Let_def token ui_ok_deny)
qed

lemma draw_ok:
  assumes "draw_frame ut config r dirty s = (e, s')" and "ui_ok ut s" and "\<not> dirty \<Longrightarrow> screen_ok ut s"
  shows "ui_ok ut s' \<and> (isl e \<or> screen_ok ut s')"
  using assms
  by (auto simp: draw_frame_def ui_ok_def prompts_ok_def pending_def screen_ok_def shown_before_snoc render_frame_def
      split: sum.splits if_splits)

lemma read_ok:
  assumes "read_terminal config r s = (over, s')" and "ui_ok ut s" and "screen_ok ut s"
  shows "ui_ok ut s' \<and> (over = Goes_on False \<longrightarrow> screen_ok ut s')"
  using assms handle_key_ok [OF assms(2,3)] leave_ok(2)
  by (auto simp: read_terminal_def split_beta split: sum.splits bool.splits terminal_event.splits)

lemma tui_round_ok:
  assumes "tui_round ut config r dirty s = (over, s')" and "ui_ok ut s" and "\<not> dirty \<Longrightarrow> screen_ok ut s"
  shows "ui_ok ut s' \<and> (over = Goes_on False \<longrightarrow> screen_ok ut s')"
proof -
  obtain changed s1 where all: "receive_all ut (tc_maximum_log_entries config) r s = (changed, s1)" by fastforce
  note one = receive_all_ok [OF all assms(2)]
  obtain e s2 where draw: "draw_frame ut config r (dirty \<or> changed) s1 = (e, s2)" by fastforce
  have two: "ui_ok ut s2 \<and> (isl e \<or> screen_ok ut s2)" by (rule draw_ok [OF draw]) (use one assms(3) in auto)
  show ?thesis
    using assms(1) two read_ok [of config r s2 over s' ut] by (cases e) (auto simp: tui_round_def all draw)
qed

lemma tui_loop_ok:
  assumes "tui_loop ut config rounds dirty s = (result, s')" and "ui_ok ut s" and "\<not> dirty \<Longrightarrow> screen_ok ut s"
  shows "ui_ok ut s' \<and> (result \<noteq> None \<longrightarrow> ui_current_approval s' = None)"
  using assms
proof (induction ut config rounds dirty s rule: tui_loop.induct)
  case (2 ut config r rs dirty s)
  obtain over s1 where round: "tui_round ut config r dirty s = (over, s1)" by fastforce
  note one = tui_round_ok [OF round "2.prems"(2,3)]
  show ?case
  proof (cases over)
    case (Goes_on d)
    with "2.prems"(1) round have "tui_loop ut config rs d s1 = (result, s')" by simp
    from "2.IH" [OF round [symmetric] Goes_on this] one Goes_on show ?thesis by (cases d) auto
  next
    case (Leaves x)
    with "2.prems"(1) round have "s' = drop_state s1" by simp
    with leave_ok(1) [of ut s1] one show ?thesis by simp
  qed
qed simp

lemma tui_run_ok:
  assumes "tui_run ut config thread rounds = (result, s)"
  shows "ui_ok ut s" and "result \<noteq> None \<Longrightarrow> ui_current_approval s = None"
proof -
  have "ui_ok ut (ui_new thread)"
    by (simp add: ui_ok_def prompts_ok_def pending_def ui_new_def push_log_def shown_before_def)
  from tui_loop_ok [OF assms [unfolded tui_run_def] this] show "ui_ok ut s" and "result \<noteq> None \<Longrightarrow> ui_current_approval s = None"
    by auto
qed

text \<open>C35 Every approval prompt is answered, once, when the interface has left its loop, whatever way it left
  it; and an action is approved only as the answer to the prompt that asked for it, unchanged, while the
  last frame drawn shows that action.\<close>

theorem approvals_answered_as_shown:
  "case tui_run ut config thread rounds of (result, s) \<Rightarrow>
     (result = None \<or> mset (map fst (answers (ui_steps s))) = mset (ui_received s)) \<and>
     shown_before ut (ui_steps s)"
proof -
  obtain result s where run: "tui_run ut config thread rounds = (result, s)" by fastforce
  from tui_run_ok [OF run] have "ui_ok ut s" "result \<noteq> None \<longrightarrow> ui_current_approval s = None" by auto
  then show ?thesis using run by (auto simp: ui_ok_def prompts_ok_def pending_def)
qed

end
