(* ===== verification/PreviewProperties.thy ===== *)
theory PreviewProperties
  imports TuiLoop "HOL-Library.Sublist"
begin

text \<open>
  The preview: however the worker's deltas and the interface's rounds interleave, the draft is the last
  64 KiB of the text received, cut where a character begins; and what is drawn of a line.
\<close>

section \<open>Boundaries\<close>

lemma next_boundary_spec:
  "i \<le> length s \<Longrightarrow> i \<le> next_boundary s i \<and> next_boundary s i \<le> length s \<and> is_char_boundary s (next_boundary s i) \<and>
   (\<forall>j. i \<le> j \<longrightarrow> j < next_boundary s i \<longrightarrow> \<not> is_char_boundary s j)"
proof (induction s i rule: next_boundary.induct)
  case (1 s i)
  show ?case
  proof (cases "length s \<le> i \<or> is_char_boundary s i")
    case True
    then have n: "next_boundary s i = i" by (subst next_boundary.simps) simp
    show ?thesis unfolding n using True "1.prems" by (auto simp: is_char_boundary_def)
  next
    case False
    then have n: "next_boundary s i = next_boundary s (Suc i)" by (subst next_boundary.simps) simp
    have "Suc i \<le> length s" using False by simp
    from "1.IH" [OF False this] False show ?thesis unfolding n by (metis Suc_leD le_less_Suc_eq not_less)
  qed
qed

lemma next_boundary_eq:
  assumes "i \<le> r" and "r \<le> length s" and "is_char_boundary s r" and "\<And>j. i \<le> j \<Longrightarrow> j < r \<Longrightarrow> \<not> is_char_boundary s j"
  shows "next_boundary s i = r"
  using next_boundary_spec [of i s] assms by (metis le_trans linorder_neqE_nat)

lemma valid_starts:
  "valid_utf8 s \<Longrightarrow> s \<noteq> [] \<Longrightarrow> starts_char (hd s)"
proof -
  have bad: "foldl (\<lambda>q c. utf8_step q (byte c)) Malformed t = Malformed" for t
    by (induction t) simp_all
  assume "valid_utf8 s" "s \<noteq> []"
  then obtain c t where s: "s = c # t" by (cases s) auto
  have "utf8_first (byte c) \<noteq> Malformed" using \<open>valid_utf8 s\<close> bad [of t] by (auto simp: valid_utf8_def s)
  with s show "starts_char (hd s)" by (auto simp: utf8_first_def starts_char_def split: if_splits)
qed

lemma boundary_append:
  "j < length a \<Longrightarrow> is_char_boundary (a @ b) j \<longleftrightarrow> is_char_boundary a j"
  by (auto simp: is_char_boundary_def nth_append)

lemma boundary_drop:
  assumes "is_char_boundary a k" and "k \<le> length a" and "b \<noteq> [] \<Longrightarrow> starts_char (hd b)"
  shows "is_char_boundary (drop k a @ b) j \<longleftrightarrow> is_char_boundary (a @ b) (k + j)"
proof (cases "j = 0")
  case True
  have "is_char_boundary (a @ b) k"
  proof (cases "k < length a")
    case False
    then show ?thesis using assms by (cases b) (auto simp: is_char_boundary_def nth_append)
  qed (use assms(1) boundary_append in blast)
  then show ?thesis using True by (simp add: is_char_boundary_def)
next
  case False
  have "(drop k a @ b) ! j = (a @ b) ! (k + j)" using assms(2) by (auto simp: nth_append add.commute)
  then show ?thesis using False assms(2) by (auto simp: is_char_boundary_def)
qed

lemma truncate_append:
  assumes "b \<noteq> [] \<Longrightarrow> starts_char (hd b)"
  shows "truncate_preview (truncate_preview a @ b) = truncate_preview (a @ b)"
proof (cases "preview_limit < length a")
  case False
  then show ?thesis by (simp add: truncate_preview_def)
next
  case True
  define k where "k = next_boundary a (length a - preview_limit)"
  have k: "length a - preview_limit \<le> k" "k \<le> length a" "is_char_boundary a k"
    "\<And>j. length a - preview_limit \<le> j \<Longrightarrow> j < k \<Longrightarrow> \<not> is_char_boundary a j"
    using next_boundary_spec [of "length a - preview_limit" a] by (auto simp: k_def)
  have cut: "truncate_preview a = drop k a" using True by (simp add: truncate_preview_def k_def)
  note shift = boundary_drop [OF k(3,2) assms]
  let ?s = "drop k a @ b" and ?m = "length (a @ b) - preview_limit"
  have whole: "truncate_preview (a @ b) = drop (next_boundary (a @ b) ?m) (a @ b)"
    using True by (simp add: truncate_preview_def)
  show ?thesis
  proof (cases "preview_limit < length ?s")
    case False
    have "next_boundary (a @ b) ?m = k"
    proof (rule next_boundary_eq)
      show "is_char_boundary (a @ b) k" using shift [of 0] by (simp add: is_char_boundary_def)
      show "\<not> is_char_boundary (a @ b) j" if "?m \<le> j" "j < k" for j
        using that k(2) k(4) [of j] boundary_append [of j a b] by simp
    qed (use False k True in auto)
    then show ?thesis using whole cut False k(2) by (simp add: truncate_preview_def)
  next
    case big: True
    define r where "r = next_boundary ?s (length ?s - preview_limit)"
    have r: "length ?s - preview_limit \<le> r" "r \<le> length ?s" "is_char_boundary ?s r"
      "\<And>j. length ?s - preview_limit \<le> j \<Longrightarrow> j < r \<Longrightarrow> \<not> is_char_boundary ?s j"
      using next_boundary_spec [of "length ?s - preview_limit" ?s] by (auto simp: r_def)
    have "next_boundary (a @ b) ?m = k + r"
    proof (rule next_boundary_eq)
      show "is_char_boundary (a @ b) (k + r)" using shift r(3) by blast
      show "\<not> is_char_boundary (a @ b) j" if "?m \<le> j" "j < k + r" for j
      proof -
        have "k \<le> j" using that(1) big k(2) by simp
        then obtain i where i: "j = k + i" using le_Suc_ex by blast
        then have "\<not> is_char_boundary ?s i" using that big k(2) by (intro r(4)) auto
        then show ?thesis using shift i by blast
      qed
    qed (use r k big in auto)
    then show ?thesis using whole cut big k(2) by (simp add: truncate_preview_def r_def add.commute)
  qed
qed

lemma truncate_length: "length (truncate_preview s) \<le> preview_limit \<and> suffix (truncate_preview s) s"
  using next_boundary_spec [of "length s - preview_limit" s]
  by (auto simp: truncate_preview_def suffix_drop)

lemma append_bounded_all:
  "(\<And>t. t \<in> set ts \<Longrightarrow> valid_utf8 t) \<Longrightarrow>
   fold (\<lambda>t d. append_bounded d t) ts (truncate_preview a) = truncate_preview (a @ concat ts)"
proof (induction ts arbitrary: a)
  case (Cons t ts)
  have "append_bounded (truncate_preview a) t = truncate_preview (a @ t)"
    unfolding append_bounded_def by (rule truncate_append) (use Cons.prems valid_starts in simp)
  with Cons.IH [of "a @ t"] Cons.prems show ?case by simp
qed simp

section \<open>Rounds\<close>

definition delta :: "model_progress_event \<Rightarrow> string \<Rightarrow> model_progress_event" where
  "delta event t = event\<lparr>pg_progress := Text_Delta t\<rparr>"

text \<open>A round: the worker hands over some deltas of the request, then the interface drains the buffer.\<close>

fun preview_rounds ::
  "(model_progress_event \<Rightarrow> string) \<Rightarrow> model_progress_event \<Rightarrow> string list list \<Rightarrow> preview_buffer \<Rightarrow> ui_state \<Rightarrow> ui_state" where
  "preview_rounds encode event [] b s = s"
| "preview_rounds encode event (ts # rounds) b s =
     (case take_preview (fold (on_progress encode) (map (delta event) ts) b) of
        (snapshot, b) \<Rightarrow> preview_rounds encode event rounds b (snd (drain_progress snapshot s)))"

lemma buffer_appends:
  assumes "\<And>t. t \<in> set ts \<Longrightarrow> valid_utf8 t" and "pv_draft (pb_state b) = Some (delta event (truncate_preview a))"
  shows "pv_draft (pb_state (fold (on_progress encode) (map (delta event) ts) b)) =
    Some (delta event (truncate_preview (a @ concat ts)))"
  using assms
proof (induction ts arbitrary: a b)
  case (Cons t ts)
  have "append_bounded (truncate_preview a) t = truncate_preview (a @ t)"
    unfolding append_bounded_def by (rule truncate_append) (use Cons.prems valid_starts in simp)
  then have "pv_draft (pb_state (on_progress encode (delta event t) b)) = Some (delta event (truncate_preview (a @ t)))"
    using Cons.prems(2) by (simp add: on_progress_def delta_def same_request_def Let_def)
  from Cons.IH [OF _ this] Cons.prems(1) show ?case by simp
qed simp

definition idle_draft :: "preview_buffer \<Rightarrow> bool" where
  "idle_draft b \<longleftrightarrow> (case pv_draft (pb_state b) of None \<Rightarrow> True | Some e \<Rightarrow> pg_progress e = Progress_Started)"

lemma buffer_round:
  assumes "\<And>t. t \<in> set ts \<Longrightarrow> valid_utf8 t" and "idle_draft b"
  shows "pv_draft (pb_state (fold (on_progress encode) (map (delta event) ts) b)) =
    (if ts = [] then pv_draft (pb_state b) else Some (delta event (truncate_preview (concat ts))))"
proof (cases ts)
  case (Cons t us)
  have "pv_draft (pb_state (on_progress encode (delta event t) b)) = Some (delta event (truncate_preview t))"
    using assms(2) by (auto simp: on_progress_def delta_def idle_draft_def Let_def split: option.splits)
  from buffer_appends [OF _ this, of us] assms(1) Cons show ?thesis by simp
qed simp

lemma completed_draft:
  "ui_draft (snd (completed_progress es s)) = ui_draft s \<and> current_preview e (snd (completed_progress es s)) = current_preview e s"
  by (induction es arbitrary: s)
    (simp_all add: push_log_def current_preview_def ui_is_cancelled_def split: model_progress.split)


section \<open>Drawn lines\<close>

definition whole_char :: "string \<Rightarrow> bool" where
  "whole_char c \<longleftrightarrow> c \<noteq> [] \<and> starts_char (hd c) \<and> list_all (\<lambda>x. \<not> starts_char x) (tl c)"

lemma concat_char_list [simp]: "concat (char_list s) = s"
  by (induction s rule: char_list.induct) simp_all

lemma char_list_whole: "(s \<noteq> [] \<Longrightarrow> starts_char (hd s)) \<Longrightarrow> list_all whole_char (char_list s)"
proof (induction s rule: char_list.induct)
  case (2 c s)
  let ?rest = "dropWhile (\<lambda>x. \<not> starts_char x) s"
  have "?rest \<noteq> [] \<Longrightarrow> starts_char (hd ?rest)" using hd_dropWhile [of "\<lambda>x. \<not> starts_char x" s] by simp
  then have "list_all whole_char (char_list ?rest)" by (rule "2.IH")
  moreover have "whole_char (c # takeWhile (\<lambda>x. \<not> starts_char x) s)"
    using "2.prems" by (auto simp: whole_char_def list_all_iff dest: set_takeWhileD)
  ultimately show ?case by simp
qed simp

lemma starts_while:
  "s = [] \<or> starts_char (hd s) \<Longrightarrow>
   takeWhile (\<lambda>x. \<not> starts_char x) s = [] \<and> dropWhile (\<lambda>x. \<not> starts_char x) s = s"
  by (cases s) simp_all

lemma char_list_concat: "list_all whole_char cs \<Longrightarrow> char_list (concat cs) = cs"
proof (induction cs)
  case (Cons c cs)
  obtain a t where c: "c = a # t" "\<forall>x\<in>set t. \<not> starts_char x"
    using Cons.prems by (cases c) (auto simp: whole_char_def list_all_iff)
  have "concat cs = [] \<or> starts_char (hd (concat cs))"
    using Cons.prems by (cases cs) (auto simp: whole_char_def)
  then have "takeWhile (\<lambda>x. \<not> starts_char x) (concat cs) = []" "dropWhile (\<lambda>x. \<not> starts_char x) (concat cs) = concat cs"
    using starts_while by blast+
  with c(2) have "takeWhile (\<lambda>x. \<not> starts_char x) (t @ concat cs) = t"
    "dropWhile (\<lambda>x. \<not> starts_char x) (t @ concat cs) = concat cs"
    by (simp_all add: takeWhile_append2 dropWhile_append2)
  moreover have "char_list (concat cs) = cs" using Cons by simp
  ultimately show ?case by (simp add: c(1))
qed simp

definition line_within :: "nat \<Rightarrow> string set \<Rightarrow> string \<Rightarrow> bool" where
  "line_within w S l \<longleftrightarrow> (\<exists>ds. l = concat ds \<and> length ds \<le> w \<and> set ds \<subseteq> S)"

lemma line_withinI: "length ds \<le> w \<Longrightarrow> set ds \<subseteq> S \<Longrightarrow> line_within w S (concat ds)"
  by (auto simp: line_within_def)

lemma wrap_chars_result:
  assumes "0 < w" and "length cur \<le> w" and "set cur \<subseteq> S" and "\<forall>c\<in>set cs. c \<noteq> [newline] \<longrightarrow> c \<in> S"
  shows "concat (wrap_chars w cs cur) = concat (cur @ filter (\<lambda>c. c \<noteq> [newline]) cs) \<and>
    (\<forall>l\<in>set (wrap_chars w cs cur). line_within w S l)"
  using assms
proof (induction w cs cur rule: wrap_chars.induct)
  case (1 w cur)
  then show ?case by (simp add: line_withinI)
next
  case (2 w c cs cur)
  note here = line_withinI [OF "2.prems"(2,3)]
  consider (line) "c = [newline]" | (full) "c \<noteq> [newline]" "w \<le> length cur" | (fits) "c \<noteq> [newline]" "length cur < w"
    by linarith
  then show ?case
  proof cases
    case line
    then show ?thesis using "2.IH"(1) [OF line] "2.prems" here by simp
  next
    case full
    then show ?thesis using "2.IH"(2) [OF full] "2.prems" here by simp
  next
    case fits
    then have "\<not> w \<le> length cur" by simp
    from "2.IH"(3) [OF fits(1) this] "2.prems" here fits show ?thesis by simp
  qed
qed

text \<open>What is drawn of a text in the log is the text without its control characters, whatever a model, a
  tool or a file put into it: no line drawn holds a control character (so none can steer the terminal), none
  is wider than the screen, and nothing else is lost.\<close>

theorem drawn_lines_plain:
  assumes "valid_utf8 line" and "0 < width"
  shows "concat (wrap_line line width) = concat (filter (\<lambda>c. \<not> is_control c) (char_list line)) \<and>
    (\<forall>l\<in>set (wrap_line line width). length (char_list l) \<le> width \<and> (\<forall>c\<in>set (char_list l). \<not> is_control c))"
proof -
  let ?S = "{c. whole_char c \<and> \<not> is_control c}"
  let ?cs = "filter (\<lambda>c. \<not> is_control c \<or> c = [newline]) (char_list line)"
  have whole: "list_all whole_char (char_list line)" by (rule char_list_whole) (use assms(1) valid_starts in simp)
  have newline: "is_control [newline]" by (simp add: is_control_def byte_def)
  have "\<forall>c\<in>set ?cs. c \<noteq> [newline] \<longrightarrow> c \<in> ?S" using whole by (auto simp: list_all_iff)
  from wrap_chars_result [OF assms(2) _ _ this, of "[]"] assms(2)
  have r: "concat (wrap_line line width) = concat (filter (\<lambda>c. c \<noteq> [newline]) ?cs)"
    "\<forall>l\<in>set (wrap_line line width). line_within width ?S l"
    by (simp_all add: wrap_line_def)
  have "filter (\<lambda>c. c \<noteq> [newline]) ?cs = filter (\<lambda>c. \<not> is_control c) (char_list line)"
    unfolding filter_filter by (rule filter_cong) (use newline in auto)
  then have "concat (wrap_line line width) = concat (filter (\<lambda>c. \<not> is_control c) (char_list line))" using r(1) by simp
  moreover have "length (char_list l) \<le> width \<and> (\<forall>c\<in>set (char_list l). \<not> is_control c)"
    if within: "line_within width ?S l" for l
  proof -
    obtain ds where ds: "l = concat ds" "length ds \<le> width" "set ds \<subseteq> ?S" using within by (auto simp: line_within_def)
    then have "char_list l = ds" using char_list_concat by (auto simp: list_all_iff)
    with ds show ?thesis by auto
  qed
  ultimately show ?thesis using r by blast
qed

end
