(* ===== verification/TuiSamples.thy ===== *)
theory TuiSamples
  imports TuiProperties PreviewProperties
begin

text \<open>
  A preview received in three rounds, and a line with an escape sequence.
\<close>

definition sample_request_event :: model_progress_event where
  "sample_request_event = \<lparr>pg_thread_id = ''t'', pg_turn_id = ''u'', pg_iteration = 0, pg_progress = Progress_Started\<rparr>"

definition sample_ui :: ui_state where
  "sample_ui = (ui_new ''t'')\<lparr>ui_current_turn := Some ''u'', ui_settled := False\<rparr>"

lemma preview_texts: "valid_utf8 ''ab''" "valid_utf8 ''c''" "valid_utf8 [CHR 0x1B, CHR ''x'']"
  by code_simp+


theorem drawn_lines_plain_witness:
  "valid_utf8 [CHR 0x1B, CHR ''x''] \<and> (0 :: nat) < 3 \<and>
   concat (wrap_line [CHR 0x1B, CHR ''x''] 3) = concat (filter (\<lambda>c. \<not> is_control c) (char_list [CHR 0x1B, CHR ''x''])) \<and>
   wrap_line [CHR 0x1B, CHR ''x''] 3 = [''x'']"
proof -
  have "wrap_line [CHR 0x1B, CHR ''x''] 3 = [''x'']" by code_simp
  with drawn_lines_plain [OF preview_texts(3), of 3] preview_texts(3) show ?thesis by simp
qed

end
