(* ===== verification/AppServer.thy ===== *)
theory AppServer
  imports Runtime RustText
begin

text \<open>
  The JSON-RPC server (crates/app-server/src/lib.rs): the dispatch of a request, the turns it knows and the
  background workers that run them, and the loop over the input's lines. A worker runs concurrently with the
  requests; its end is a step of its own, with any result, and between two steps the runtime may be in any
  state. Parsing and printing JSON and the encoding of events and reports are parameters.
\<close>

section \<open>State\<close>

datatype turn_run_state = Run_Running | Run_Completed string | Run_Failed string | Run_Cancelled

record turn_control =
  tn_thread_id :: thread_id
  tn_cancelled :: bool \<comment> \<open>the token\<close>
  tn_state :: turn_run_state

record worker =
  wk_thread_id :: thread_id
  wk_turn_id :: turn_id
  wk_input :: string

record ('s, 'w) server =
  sv_runtime :: "('s, 'w) rstate"
  sv_turns :: "(turn_id \<times> turn_control) list"
  sv_poisoned :: bool
  sv_workers :: "worker list" \<comment> \<open>the background turns that have not ended\<close>

record rpc_error =
  rpc_code :: string \<comment> \<open>the number's text\<close>
  rpc_message :: string

definition invalid_request :: "string \<Rightarrow> rpc_error" where
  "invalid_request m = \<lparr>rpc_code = ''-32600'', rpc_message = m\<rparr>"

definition invalid_params :: "string \<Rightarrow> rpc_error" where
  "invalid_params m = \<lparr>rpc_code = ''-32602'', rpc_message = m\<rparr>"

definition rpc_internal :: "string \<Rightarrow> rpc_error" where
  "rpc_internal m = \<lparr>rpc_code = ''-32603'', rpc_message = m\<rparr>"

definition method_not_found :: "string \<Rightarrow> rpc_error" where
  "method_not_found m = \<lparr>rpc_code = ''-32601'', rpc_message = ''method `'' @ m @ ''` was not found''\<rparr>"

definition rpc_runtime_error :: "runtime_error \<Rightarrow> rpc_error" where
  "rpc_runtime_error e = rpc_internal (runtime_error_text e)"

type_synonym ('s, 'w, 'a) serving = "(('s, 'w) server, rpc_error, 'a) act"

definition on_runtime :: "('s, 'w, 'a) ract \<Rightarrow> ('s, 'w, 'a) serving" where
  "on_runtime m = map_err rpc_runtime_error (zoom sv_runtime (\<lambda>x s. s\<lparr>sv_runtime := x\<rparr>) m)"

record server_codec =
  sc_events :: "event_envelope list \<Rightarrow> string + json"
  sc_report :: "recovery_report \<Rightarrow> string + json"

definition encoded :: "string + json \<Rightarrow> ('s, 'w, json) serving" where
  "encoded r = (case r of Inl e \<Rightarrow> err (rpc_internal e) | Inr v \<Rightarrow> ok v)"

section \<open>Parameters\<close>

definition thread_param :: "json \<Rightarrow> ('s, 'w, thread_id) serving" where
  "thread_param params =
     (case jfield as_str params ''thread_id'' of
        Some t \<Rightarrow> ok t
      | None \<Rightarrow> err (invalid_params ''thread_id must be a string''))"

definition turn_param :: "json \<Rightarrow> ('s, 'w, turn_id) serving" where
  "turn_param params =
     (case jfield as_str params ''turn_id'' of
        Some u \<Rightarrow> ok u
      | None \<Rightarrow> err (invalid_params ''turn_id must be a string''))"

section \<open>Methods\<close>

definition lock_turns :: "('s, 'w, (turn_id \<times> turn_control) list) serving" where
  "lock_turns s =
     (if sv_poisoned s then (Inl (rpc_internal ''turn state lock was poisoned''), s) else (Inr (sv_turns s), s))"

definition find_turn :: "turn_id \<Rightarrow> ('s, 'w, turn_control) serving" where
  "find_turn u =
     and_then lock_turns (\<lambda>turns.
     case bt_get turns u of Some c \<Rightarrow> ok c | None \<Rightarrow> err (invalid_params ''turn does not exist''))"

fun state_json :: "turn_run_state \<Rightarrow> json" where
  "state_json Run_Running = jobject [(''status'', JString ''running'')]"
| "state_json (Run_Completed content) = jobject [(''status'', JString ''completed''), (''content'', JString content)]"
| "state_json (Run_Failed e) = jobject [(''status'', JString ''failed''), (''error'', JString e)]"
| "state_json Run_Cancelled = jobject [(''status'', JString ''cancelled'')]"

definition server_start_turn :: "('s, 'w) runtime \<Rightarrow> json \<Rightarrow> ('s, 'w, json) serving" where
  "server_start_turn rt params =
     and_then (thread_param params) (\<lambda>thread.
     and_then (on_runtime (thread_events_of rt thread)) (\<lambda>_.
     case jfield as_str params ''input'' of
       None \<Rightarrow> err (invalid_params ''input must be a string'')
     | Some input \<Rightarrow>
         and_then (\<lambda>s. let (u, h) = TurnId_new (r_host (sv_runtime s))
           in (Inr u, s\<lparr>sv_runtime := (sv_runtime s)\<lparr>r_host := h\<rparr>\<rparr>)) (\<lambda>u.
         and_then lock_turns (\<lambda>turns.
         and_then (writes (\<lambda>s. s\<lparr>
             sv_turns := bt_insert u \<lparr>tn_thread_id = thread, tn_cancelled = False, tn_state = Run_Running\<rparr> (sv_turns s),
             sv_workers := sv_workers s @ [\<lparr>wk_thread_id = thread, wk_turn_id = u, wk_input = input\<rparr>]\<rparr>)) (\<lambda>_.
         ok (jobject [(''thread_id'', JString thread), (''turn_id'', JString u)]))))))"

definition turn_status :: "json \<Rightarrow> ('s, 'w, json) serving" where
  "turn_status params =
     and_then (turn_param params) (\<lambda>u.
     and_then (find_turn u) (\<lambda>c.
     ok (jobject [(''thread_id'', JString (tn_thread_id c)), (''turn_id'', JString u), (''state'', state_json (tn_state c))])))"

definition turn_cancel :: "json \<Rightarrow> ('s, 'w, json) serving" where
  "turn_cancel params =
     and_then (turn_param params) (\<lambda>u.
     and_then (find_turn u) (\<lambda>c.
     if tn_state c \<noteq> Run_Running then err (invalid_params ''turn is not running'')
     else and_then (writes (\<lambda>s. s\<lparr>sv_turns := bt_insert u (c\<lparr>tn_cancelled := True\<rparr>) (sv_turns s)\<rparr>)) (\<lambda>_.
       ok (jobject [(''turn_id'', JString u), (''cancellation_requested'', JBool True)]))))"

definition thread_events_after :: "u64 option \<Rightarrow> event_envelope list \<Rightarrow> event_envelope list" where
  "thread_events_after after events =
     filter (\<lambda>v. case after of None \<Rightarrow> True | Some n \<Rightarrow> n < ev_sequence v) events"

definition dispatch_request :: "('s, 'w) runtime \<Rightarrow> server_codec \<Rightarrow> json \<Rightarrow> ('s, 'w, json) serving" where
  "dispatch_request rt codec request =
     (if jfield as_str request ''jsonrpc'' \<noteq> Some ''2.0'' then err (invalid_request ''jsonrpc must be `2.0`'')
      else case jfield as_str request ''method'' of
        None \<Rightarrow> err (invalid_request ''method must be a string'')
      | Some m \<Rightarrow>
          (let params = (case jget request ''params'' of None \<Rightarrow> JNull | Some v \<Rightarrow> v) in
           if m = ''server/health'' then ok (jobject [(''status'', JString ''ok'')])
           else if m = ''thread/start''
           then and_then (on_runtime (start_thread rt)) (\<lambda>t. ok (jobject [(''thread_id'', JString t)]))
           else if m = ''thread/events''
           then and_then (thread_param params) (\<lambda>t.
             and_then (on_runtime (thread_events_of rt t)) (\<lambda>events.
             encoded (sc_events codec (thread_events_after (jfield as_u64 params ''after_sequence'') events))))
           else if m = ''thread/recover''
           then and_then (thread_param params) (\<lambda>t.
             and_then (on_runtime (recover rt t)) (\<lambda>report. encoded (sc_report codec report)))
           else if m = ''turn/start'' then server_start_turn rt params
           else if m = ''turn/status'' then turn_status params
           else if m = ''turn/cancel'' then turn_cancel params
           else err (method_not_found m)))"

definition rpc_response :: "json \<Rightarrow> rpc_error + json \<Rightarrow> json" where
  "rpc_response i r =
     (case r of
        Inr result \<Rightarrow> jobject [(''jsonrpc'', JString ''2.0''), (''id'', i), (''result'', result)]
      | Inl e \<Rightarrow> jobject [(''jsonrpc'', JString ''2.0''), (''id'', i),
          (''error'', jobject [(''code'', JNumber (rpc_code e)), (''message'', JString (rpc_message e))])])"

definition handle_value ::
  "('s, 'w) runtime \<Rightarrow> server_codec \<Rightarrow> json \<Rightarrow> ('s, 'w) server \<Rightarrow> json option \<times> ('s, 'w) server" where
  "handle_value rt codec request s =
     (case dispatch_request rt codec request s of
        (r, s') \<Rightarrow> (map_option (\<lambda>i. rpc_response i r) (jget request ''id''), s'))"

section \<open>Workers\<close>

definition run_state_of :: "runtime_error + turn_outcome \<Rightarrow> turn_run_state" where
  "run_state_of result =
     (case result of
        Inr outcome \<Rightarrow> Run_Completed (to_content outcome)
      | Inl (Runtime_Cancelled _) \<Rightarrow> Run_Cancelled
      | Inl e \<Rightarrow> Run_Failed (runtime_error_text e))"

definition end_worker :: "worker \<Rightarrow> runtime_error + turn_outcome \<Rightarrow> ('s, 'w) server \<Rightarrow> ('s, 'w) server" where
  "end_worker w result s =
     (let s = s\<lparr>sv_workers := remove1 w (sv_workers s)\<rparr>
      in if sv_poisoned s then s
         else case bt_get (sv_turns s) (wk_turn_id w) of
           None \<Rightarrow> s
         | Some c \<Rightarrow> s\<lparr>sv_turns := bt_insert (wk_turn_id w) (c\<lparr>tn_state := run_state_of result\<rparr>) (sv_turns s)\<rparr>)"

text \<open>The steps of the server and its workers. The identifier that a request generates for its worker is
  new, as \<open>generated_ids_unique\<close> has it.\<close>

datatype server_event = Handled json "json option" | Worker_ended worker "runtime_error + turn_outcome" | Runtime_moved

inductive server_step ::
  "('s, 'w) runtime \<Rightarrow> server_codec \<Rightarrow> ('s, 'w) server \<Rightarrow> server_event \<Rightarrow> ('s, 'w) server \<Rightarrow> bool"
  for rt codec where
  handled: "handle_value rt codec request s = (response, s') \<Longrightarrow>
    (sv_workers s' \<noteq> sv_workers s \<longrightarrow> bt_get (sv_turns s) (wk_turn_id (last (sv_workers s'))) = None) \<Longrightarrow>
    server_step rt codec s (Handled request response) s'"
| ended: "w \<in> set (sv_workers s) \<Longrightarrow> server_step rt codec s (Worker_ended w result) (end_worker w result s)"
| moved: "server_step rt codec s Runtime_moved (s\<lparr>sv_runtime := r\<rparr>)"

inductive_cases server_stepE: "server_step rt codec s e s'"

definition server_new :: "('s, 'w) rstate \<Rightarrow> ('s, 'w) server" where
  "server_new r = \<lparr>sv_runtime = r, sv_turns = [], sv_poisoned = False, sv_workers = []\<rparr>"

inductive server_reaches ::
  "('s, 'w) runtime \<Rightarrow> server_codec \<Rightarrow> ('s, 'w) rstate \<Rightarrow> ('s, 'w) server \<Rightarrow> bool" for rt codec r where
  start: "server_reaches rt codec r (server_new r)"
| step: "server_reaches rt codec r s \<Longrightarrow> server_step rt codec s e s' \<Longrightarrow> server_reaches rt codec r s'"

section \<open>The loop\<close>

record output_stream =
  os_bytes :: string
  os_writes :: "nat \<Rightarrow> string option" \<comment> \<open>what the n-th operation returns\<close>
  os_count :: nat

datatype server_error = Server_Input string | Server_Output string

fun server_error_text :: "server_error \<Rightarrow> string" where
  "server_error_text (Server_Input e) = ''JSON-RPC input error: '' @ e"
| "server_error_text (Server_Output e) = ''JSON-RPC output error: '' @ e"

type_synonym ('s, 'w) serve_state = "('s, 'w) server \<times> output_stream"

text \<open>\<open>writeln!(..)?; flush()?\<close>; a write that fails leaves nothing.\<close>

definition write_response :: "string \<Rightarrow> (('s, 'w) serve_state, server_error, unit) act" where
  "write_response line st =
     (case st of (s, out) \<Rightarrow>
        (case os_writes out (os_count out) of
           Some e \<Rightarrow> (Inl (Server_Output e), (s, out\<lparr>os_count := Suc (os_count out)\<rparr>))
         | None \<Rightarrow>
             (let out = out\<lparr>os_bytes := os_bytes out @ line @ [newline], os_count := Suc (os_count out)\<rparr>
              in case os_writes out (os_count out) of
                Some e \<Rightarrow> (Inl (Server_Output e), (s, out\<lparr>os_count := Suc (os_count out)\<rparr>))
              | None \<Rightarrow> (Inr (), (s, out\<lparr>os_count := Suc (os_count out)\<rparr>)))))"

definition parse_failure :: "string \<Rightarrow> json" where
  "parse_failure e =
     jobject [(''jsonrpc'', JString ''2.0''), (''id'', JNull),
       (''error'', jobject [(''code'', JNumber ''-32700''), (''message'', JString e)])]"

text \<open>The lines as \<open>lines()\<close> gives them, each with what happened in the background before it.\<close>

fun serve ::
  "('s, 'w) runtime \<Rightarrow> server_codec \<Rightarrow> (string \<Rightarrow> string + json) \<Rightarrow> (json \<Rightarrow> string) \<Rightarrow>
    ((('s, 'w) server \<Rightarrow> ('s, 'w) server) \<times> (string + string)) list \<Rightarrow> (('s, 'w) serve_state, server_error, unit) act" where
  "serve rt codec parse print [] st = (Inr (), st)"
| "serve rt codec parse print ((background, line) # lines) st =
     (case st of (s, out) \<Rightarrow>
      let s = background s in
      case line of
        Inl e \<Rightarrow> (Inl (Server_Input e), (s, out))
      | Inr text \<Rightarrow>
          if blank text then serve rt codec parse print lines (s, out)
          else case parse text of
            Inl e \<Rightarrow>
              and_then (write_response (print (parse_failure e))) (\<lambda>_. serve rt codec parse print lines) (s, out)
          | Inr request \<Rightarrow>
              (case handle_value rt codec request s of
                 (None, s') \<Rightarrow> serve rt codec parse print lines (s', out)
               | (Some response, s') \<Rightarrow>
                   and_then (write_response (print response)) (\<lambda>_. serve rt codec parse print lines) (s', out)))"

end
