(* ===== verification/ServerProperties.thy ===== *)
theory ServerProperties
  imports AppServer
begin

text \<open>
  The properties of the server: the life of a turn, and what a response answers.
\<close>

section \<open>What a request changes\<close>

definition server_view where
  "server_view s = (sv_turns s, sv_workers s, sv_poisoned s)"

definition started_turn :: "('s, 'w) server \<Rightarrow> ('s, 'w) server \<Rightarrow> bool" where
  "started_turn s s' \<longleftrightarrow> (\<exists>u thread input.
     server_view s' = (bt_insert u \<lparr>tn_thread_id = thread, tn_cancelled = False, tn_state = Run_Running\<rparr> (sv_turns s),
       sv_workers s @ [\<lparr>wk_thread_id = thread, wk_turn_id = u, wk_input = input\<rparr>], sv_poisoned s))"

definition cancelled_turn :: "('s, 'w) server \<Rightarrow> ('s, 'w) server \<Rightarrow> bool" where
  "cancelled_turn s s' \<longleftrightarrow> (\<exists>u c. bt_get (sv_turns s) u = Some c \<and> tn_state c = Run_Running \<and>
     server_view s' = (bt_insert u (c\<lparr>tn_cancelled := True\<rparr>) (sv_turns s), sv_workers s, sv_poisoned s))"

definition request_effect :: "('s, 'w) server \<Rightarrow> ('s, 'w) server \<Rightarrow> bool" where
  "request_effect s s' \<longleftrightarrow> server_view s' = server_view s \<or> started_turn s s' \<or> cancelled_turn s s'"

abbreviation unchanged :: "('s, 'w) server \<Rightarrow> ('s, 'w) server \<Rightarrow> bool" where
  "unchanged s0 s \<equiv> server_view s = server_view s0"

lemma view_kept [frame]:
  "preserves (unchanged s0) (on_runtime m)" "preserves (unchanged s0) (thread_param params)"
  "preserves (unchanged s0) (turn_param params)" "preserves (unchanged s0) (encoded r)"
  "preserves (unchanged s0) (lock_turns :: ('s, 'w, (turn_id \<times> turn_control) list) serving)"
  "preserves (unchanged s0) (find_turn u)" "preserves (unchanged s0) (turn_status params)"
  for s0 :: "('s, 'w) server"
proof -
  show rt: "preserves (unchanged s0) (on_runtime m)"
    by (auto simp: preserves_def triple_def on_runtime_def zoom_def map_err_def attempt_def ok_def err_def server_view_def
        split: prod.split sum.split)
  show param: "preserves (unchanged s0) (thread_param params)" "preserves (unchanged s0) (turn_param params)"
    unfolding thread_param_def turn_param_def by (intro frame)+
  show "preserves (unchanged s0) (encoded r)" unfolding encoded_def by (intro frame)
  show lock: "preserves (unchanged s0) lock_turns"
    by (auto simp: preserves_def triple_def lock_turns_def)
  show find: "preserves (unchanged s0) (find_turn u)" for u unfolding find_turn_def by (intro frame lock)
  show "preserves (unchanged s0) (turn_status params)" unfolding turn_status_def by (intro frame param find)
qed

lemma keeps_effect:
  assumes "preserves (unchanged s) m" and "m s = (r, s')"
  shows "request_effect s s'"
  using preservesD [OF assms(1) _ assms(2)] by (simp add: request_effect_def)

lemma and_then_cases:
  assumes "and_then m k s = (r, s')"
  obtains (failed) e where "m s = (Inl e, s')" "r = Inl e" | (returned) a t where "m s = (Inr a, t)" "k a t = (r, s')"
  using assms by (auto simp: and_then_def split: prod.splits sum.splits)

lemma cancel_effect: "turn_cancel params s = (r, s') \<Longrightarrow> request_effect s s'"
proof -
  assume run: "turn_cancel params s = (r, s')"
  show ?thesis
  proof (cases "\<exists>u c t t'. turn_param params s = (Inr u, t) \<and> find_turn u t = (Inr c, t') \<and> tn_state c = Run_Running")
    case True
    then obtain u c t t' where u: "turn_param params s = (Inr u, t)" and c: "find_turn u t = (Inr c, t')"
      and running: "tn_state c = Run_Running" by blast
    have views: "unchanged s t" "unchanged s t'"
      using preservesD [OF view_kept(3) _ u, of s] preservesD [OF view_kept(6) _ c, of s] by simp_all
    have "bt_get (sv_turns t) u = Some c"
      using c by (auto simp: find_turn_def and_then_def lock_turns_def ok_def err_def split: option.splits if_splits)
    then have "bt_get (sv_turns s) u = Some c" using views(1) by (simp add: server_view_def)
    moreover have "server_view s' = (bt_insert u (c\<lparr>tn_cancelled := True\<rparr>) (sv_turns s), sv_workers s, sv_poisoned s)"
      using run u c running views(2) by (auto simp: turn_cancel_def and_then_def writes_def ok_def server_view_def)
    ultimately have "cancelled_turn s s'" using running unfolding cancelled_turn_def by blast
    then show ?thesis by (simp add: request_effect_def)
  next
    case False
    have "unchanged s s'"
      using run
    proof (unfold turn_cancel_def, elim and_then_cases)
      fix e assume "turn_param params s = (Inl e, s')"
      then show ?thesis using preservesD [OF view_kept(3)] by fastforce
    next
      fix u t e assume u: "turn_param params s = (Inr u, t)" and f: "find_turn u t = (Inl e, s')"
      show ?thesis using preservesD [OF view_kept(3) _ u, of s] preservesD [OF view_kept(6) _ f, of s] by simp
    next
      fix u t c t' assume u: "turn_param params s = (Inr u, t)" and c: "find_turn u t = (Inr c, t')"
        and rest: "(if tn_state c \<noteq> Run_Running then err (invalid_params ''turn is not running'')
          else and_then (writes (\<lambda>s. s\<lparr>sv_turns := bt_insert u (c\<lparr>tn_cancelled := True\<rparr>) (sv_turns s)\<rparr>)) (\<lambda>_.
            ok (jobject [(''turn_id'', JString u), (''cancellation_requested'', JBool True)]))) t' = (r, s')"
      from False u c rest have "s' = t'" by (auto simp: err_def split: if_splits)
      then show ?thesis using preservesD [OF view_kept(3) _ u, of s] preservesD [OF view_kept(6) _ c, of s] by simp
    qed
    then show ?thesis by (simp add: request_effect_def)
  qed
qed

lemma start_effect: "server_start_turn rt params s = (r, s') \<Longrightarrow> request_effect s s'"
proof -
  assume run: "server_start_turn rt params s = (r, s')"
  obtain p t1 where p: "(thread_param params :: ('a, 'b, thread_id) serving) s = (p, t1)" by fastforce
  have v1: "unchanged s t1" using preservesD [OF view_kept(2) _ p, of s] by simp
  show ?thesis
  proof (cases p)
    case (Inl e)
    then show ?thesis using run p v1 by (simp add: server_start_turn_def and_then_def request_effect_def)
  next
    case (Inr thread)
    obtain q t2 where q: "on_runtime (thread_events_of rt thread) t1 = (q, t2)" by fastforce
    have v2: "unchanged s t2" using preservesD [OF view_kept(1) _ q, of s] v1 by simp
    show ?thesis
    proof (cases q)
      case (Inl e)
      then show ?thesis using run p Inr q v2 by (simp add: server_start_turn_def and_then_def request_effect_def)
    next
      case q': (Inr events)
      show ?thesis
      proof (cases "jfield as_str params ''input''")
        case None
        then show ?thesis using run p Inr q q' v2
          by (simp add: server_start_turn_def and_then_def request_effect_def err_def)
      next
        case (Some input)
        obtain u h where u: "TurnId_new (r_host (sv_runtime t2)) = (u, h)" by fastforce
        show ?thesis
        proof (cases "sv_poisoned t2")
          case True
          then have "unchanged s s'" using run p Inr q q' v2 Some u
            by (auto simp: server_start_turn_def and_then_def lock_turns_def server_view_def)
          then show ?thesis by (simp add: request_effect_def)
        next
          case False
          then have "started_turn s s'" using run p Inr q q' v2 Some u
            by (auto simp: server_start_turn_def and_then_def lock_turns_def server_view_def started_turn_def
                writes_def ok_def)
          then show ?thesis by (simp add: request_effect_def)
        qed
      qed
    qed
  qed
qed

text \<open>The requests that only read, as one operation each.\<close>

lemma reading_requests [frame]:
  "preserves (unchanged s0) (and_then (on_runtime (start_thread rt)) (\<lambda>t. ok (f t)))"
  "preserves (unchanged s0) (and_then (thread_param params) (\<lambda>t.
     and_then (on_runtime (thread_events_of rt t)) (\<lambda>events. encoded (g events))))"
  "preserves (unchanged s0) (and_then (thread_param params) (\<lambda>t.
     and_then (on_runtime (recover rt t)) (\<lambda>report. encoded (h report))))"
  for s0 :: "('s, 'w) server"
  by (intro frame)+

lemma if_cases_effect:
  assumes "(if c then m else m') s = (r, s')"
    and "m s = (r, s') \<Longrightarrow> request_effect s s'" and "m' s = (r, s') \<Longrightarrow> request_effect s s'"
  shows "request_effect s s'"
  using assms by (cases c) simp_all

lemma dispatch_effect:
  assumes "dispatch_request rt codec request s = (r, s')"
  shows "request_effect s s'"
proof -
  have other: "m s = (r, s') \<Longrightarrow> preserves (unchanged s) m \<Longrightarrow> request_effect s s'" for m
    by (rule keeps_effect)
  have failing: "err e s = (r, s') \<Longrightarrow> request_effect s s'" for e
    by (rule other) (assumption, intro frame)
  from assms show ?thesis
  proof (cases "jfield as_str request ''method''")
    case None
    show ?thesis using assms unfolding dispatch_request_def None option.case by (elim if_cases_effect failing)
  next
    case (Some m)
    show ?thesis using assms unfolding dispatch_request_def Some option.case Let_def
    proof (elim if_cases_effect failing start_effect cancel_effect)
    qed (erule other, intro frame)+
  qed
qed

lemma handle_effect: "handle_value rt codec request s = (response, s') \<Longrightarrow> request_effect s s'"
  using dispatch_effect by (auto simp: handle_value_def split: prod.splits)

section \<open>The life of a turn\<close>

text \<open>The turns that run are the ones a worker has, one each.\<close>

definition server_ok :: "('s, 'w) server \<Rightarrow> bool" where
  "server_ok s \<longleftrightarrow> \<not> sv_poisoned s \<and> distinct (map wk_turn_id (sv_workers s)) \<and>
     (\<forall>u. u \<in> wk_turn_id ` set (sv_workers s) \<longleftrightarrow> (\<exists>c. bt_get (sv_turns s) u = Some c \<and> tn_state c = Run_Running))"

text \<open>What a step does to one turn.\<close>

definition turn_moves :: "server_event \<Rightarrow> turn_id \<Rightarrow> turn_control \<Rightarrow> turn_control \<Rightarrow> bool" where
  "turn_moves e u c c' \<longleftrightarrow> tn_thread_id c' = tn_thread_id c \<and> (tn_cancelled c \<longrightarrow> tn_cancelled c') \<and>
     (tn_state c' = tn_state c \<or>
       (tn_state c = Run_Running \<and>
         (\<exists>w result. e = Worker_ended w result \<and> wk_turn_id w = u \<and> tn_state c' = run_state_of result)))"

lemma turn_moves_refl [simp]: "turn_moves e u c c"
  by (simp add: turn_moves_def)

lemma run_state_not_running [simp]: "run_state_of result \<noteq> Run_Running"
  by (simp add: run_state_of_def split: sum.split runtime_error.split)

lemma server_new_ok: "server_ok (server_new r)"
  by (simp add: server_ok_def server_new_def)

lemma server_ok_view: "server_view s' = server_view s \<Longrightarrow> server_ok s \<Longrightarrow> server_ok s'"
  by (simp add: server_view_def server_ok_def)

lemma workers_distinct_remove1:
  assumes "distinct (map f xs)" and "x \<in> set xs"
  shows "f ` set (remove1 x xs) = f ` set xs - {f x}" and "distinct (map f (remove1 x xs))"
proof -
  have d: "distinct xs" "inj_on f (set xs)" using assms(1) by (simp_all add: distinct_map)
  then show "f ` set (remove1 x xs) = f ` set xs - {f x}"
    using assms(2) by (auto simp: set_remove1_eq dest: inj_onD)
  show "distinct (map f (remove1 x xs))"
    using d by (auto simp: distinct_map set_remove1_eq intro: inj_on_subset)
qed

lemma end_worker_turn:
  assumes ok: "server_ok s" and w: "w \<in> set (sv_workers s)"
  obtains c where "bt_get (sv_turns s) (wk_turn_id w) = Some c" and "tn_state c = Run_Running"
    and "sv_turns (end_worker w result s) =
      bt_insert (wk_turn_id w) (c\<lparr>tn_state := run_state_of result\<rparr>) (sv_turns s)"
    and "sv_workers (end_worker w result s) = remove1 w (sv_workers s)"
    and "\<not> sv_poisoned (end_worker w result s)"
proof -
  obtain c where c: "bt_get (sv_turns s) (wk_turn_id w) = Some c" "tn_state c = Run_Running"
    using ok w unfolding server_ok_def by blast
  show thesis using c ok by (intro that) (simp_all add: end_worker_def Let_def server_ok_def)
qed

lemma end_worker_ok:
  assumes ok: "server_ok s" and w: "w \<in> set (sv_workers s)"
  shows "server_ok (end_worker w result s)"
proof -
  have d: "distinct (map wk_turn_id (sv_workers s))" using ok by (simp add: server_ok_def)
  show ?thesis
    using ok w
  proof (rule end_worker_turn [where result = result])
    fix c assume facts: "bt_get (sv_turns s) (wk_turn_id w) = Some c" "tn_state c = Run_Running"
      "sv_turns (end_worker w result s) =
        bt_insert (wk_turn_id w) (c\<lparr>tn_state := run_state_of result\<rparr>) (sv_turns s)"
      "sv_workers (end_worker w result s) = remove1 w (sv_workers s)" "\<not> sv_poisoned (end_worker w result s)"
    show ?thesis
      using ok facts(5) unfolding server_ok_def facts(3,4) workers_distinct_remove1(1) [OF d w]
      by (auto simp: workers_distinct_remove1(2) [OF d w])
  qed
qed

lemma started_ok:
  assumes ok: "server_ok s" and "started_turn s s'"
    and new: "bt_get (sv_turns s) (wk_turn_id (last (sv_workers s'))) = None"
  shows "server_ok s'"
proof -
  obtain u thread input where v: "server_view s' =
      (bt_insert u \<lparr>tn_thread_id = thread, tn_cancelled = False, tn_state = Run_Running\<rparr> (sv_turns s),
       sv_workers s @ [\<lparr>wk_thread_id = thread, wk_turn_id = u, wk_input = input\<rparr>], sv_poisoned s)"
    using assms(2) unfolding started_turn_def by blast
  then have "u \<notin> wk_turn_id ` set (sv_workers s)" using ok new by (simp add: server_view_def server_ok_def)
  then show ?thesis using ok v by (auto simp: server_view_def server_ok_def)
qed

lemma cancelled_ok:
  assumes ok: "server_ok s" and "cancelled_turn s s'"
  shows "server_ok s'"
proof -
  obtain u c where c: "bt_get (sv_turns s) u = Some c" "tn_state c = Run_Running"
    and v: "server_view s' = (bt_insert u (c\<lparr>tn_cancelled := True\<rparr>) (sv_turns s), sv_workers s, sv_poisoned s)"
    using assms(2) unfolding cancelled_turn_def by blast
  have "(\<exists>d. bt_get (sv_turns s') u' = Some d \<and> tn_state d = Run_Running) \<longleftrightarrow>
      (\<exists>d. bt_get (sv_turns s) u' = Some d \<and> tn_state d = Run_Running)" for u'
    using c v by (simp add: server_view_def)
  then show ?thesis using ok v by (simp add: server_ok_def server_view_def)
qed

lemma server_step_turns:
  assumes ok: "server_ok s" and step: "server_step rt codec s e s'"
  shows "server_ok s' \<and> (\<forall>u c. bt_get (sv_turns s) u = Some c \<longrightarrow>
    (\<exists>c'. bt_get (sv_turns s') u = Some c' \<and> turn_moves e u c c'))"
  using step
proof (cases rule: server_step.cases)
  case (handled request response)
  note guard = handled(3)
  have "request_effect s s'" using handled(2) by (rule handle_effect)
  then consider "server_view s' = server_view s" | "started_turn s s'" | "cancelled_turn s s'"
    unfolding request_effect_def by blast
  then show ?thesis
  proof cases
    case 1
    then show ?thesis using ok by (auto simp: server_view_def server_ok_def)
  next
    case 2
    then have new: "bt_get (sv_turns s) (wk_turn_id (last (sv_workers s'))) = None"
      using guard by (auto simp: started_turn_def server_view_def)
    then show ?thesis using started_ok [OF ok 2 new] 2 by (auto simp: started_turn_def server_view_def)
  next
    case 3
    then show ?thesis using cancelled_ok [OF ok 3]
      by (auto simp: cancelled_turn_def server_view_def turn_moves_def)
  qed
next
  case (ended w result)
  show ?thesis
    using ok ended(3)
  proof (rule end_worker_turn [where result = result])
    fix c assume "bt_get (sv_turns s) (wk_turn_id w) = Some c" "tn_state c = Run_Running"
      "sv_turns (end_worker w result s) =
        bt_insert (wk_turn_id w) (c\<lparr>tn_state := run_state_of result\<rparr>) (sv_turns s)"
    then show ?thesis
      using end_worker_ok [OF ok ended(3)] ended(1,2) by (auto simp: turn_moves_def)
  qed
next
  case (moved r)
  then show ?thesis using ok by (auto simp: server_ok_def)
qed

lemma reached_ok: "server_reaches rt codec r s \<Longrightarrow> server_ok s"
  by (induction rule: server_reaches.induct) (auto simp: server_new_ok dest: server_step_turns)

text \<open>C37 A turn that the server knows stays known and keeps its thread, and a requested cancellation is never
  taken back. Its state changes at most once, from running to what its own worker's result says; no request,
  no other worker and nothing in the runtime moves it. And it is running exactly as long as its one worker
  has not ended.\<close>

theorem turn_lifecycle:
  assumes "server_reaches rt codec r s" and "server_step rt codec s e s'"
    and "bt_get (sv_turns s) u = Some c"
  shows "\<exists>c'. bt_get (sv_turns s') u = Some c' \<and> tn_thread_id c' = tn_thread_id c \<and>
    (tn_cancelled c' \<or> \<not> tn_cancelled c) \<and>
    (tn_state c' = tn_state c \<or>
      (tn_state c = Run_Running \<and>
        (\<exists>w result. e = Worker_ended w result \<and> wk_turn_id w = u \<and> tn_state c' = run_state_of result))) \<and>
    (tn_state c' = Run_Running \<longleftrightarrow> u \<in> wk_turn_id ` set (sv_workers s')) \<and>
    distinct (map wk_turn_id (sv_workers s'))"
proof -
  have moves: "server_ok s'" "\<exists>c'. bt_get (sv_turns s') u = Some c' \<and> turn_moves e u c c'"
    using server_step_turns [OF reached_ok [OF assms(1)] assms(2)] assms(3) by blast+
  obtain c' where c': "bt_get (sv_turns s') u = Some c'" "turn_moves e u c c'" using moves(2) by blast
  have "tn_state c' = Run_Running \<longleftrightarrow> u \<in> wk_turn_id ` set (sv_workers s')"
    "distinct (map wk_turn_id (sv_workers s'))"
    using moves(1) c'(1) by (auto simp: server_ok_def)
  with c' show ?thesis unfolding turn_moves_def by blast
qed

end
