(* ===== verification/ServerSamples.thy ===== *)
theory ServerSamples
  imports ServerProperties TurnProperties
begin

text \<open>
  A sample server: a turn is started, its cancellation requested, and its worker ends with an error.
\<close>

definition sample_codec :: server_codec where
  "sample_codec = \<lparr>sc_events = (\<lambda>_. Inr JNull), sc_report = (\<lambda>_. Inr JNull)\<rparr>"

definition start_request :: json where
  "start_request = JObject [(''id'', JUint 1), (''jsonrpc'', JString ''2.0''), (''method'', JString ''turn/start''),
     (''params'', JObject [(''input'', JString ''hi''), (''thread_id'', JString ''t'')])]"

definition running_server :: "(memory_store, nat) server" where
  "running_server = snd (handle_value sample_runtime sample_codec start_request (server_new sample_state))"

lemma running_turn:
  "\<exists>u. sv_turns running_server = [(u, \<lparr>tn_thread_id = ''t'', tn_cancelled = False, tn_state = Run_Running\<rparr>)] \<and>
     sv_workers running_server = [\<lparr>wk_thread_id = ''t'', wk_turn_id = u, wk_input = ''hi''\<rparr>]"
  by (simp add: running_server_def handle_value_def dispatch_request_def start_request_def server_new_def
      server_start_turn_def thread_param_def on_runtime_def thread_events_of_def lock_turns_def writes_def
      ok_def and_then_def split_beta Let_def sample_turn_defs zoom_def map_err_def jfield_def)

lemma running_reached: "server_reaches sample_runtime sample_codec sample_state running_server"
proof -
  obtain response where "handle_value sample_runtime sample_codec start_request (server_new sample_state) =
      (response, running_server)"
    by (metis running_server_def prod.collapse)
  then show ?thesis
    by (intro server_reaches.step [OF server_reaches.start server_step.handled]) (simp_all add: server_new_def)
qed

theorem turn_lifecycle_witness:
  "\<exists>u w c'. server_reaches sample_runtime sample_codec sample_state running_server \<and>
     server_step sample_runtime sample_codec running_server (Worker_ended w (Inl (Runtime_Cancelled ''u'')))
       (end_worker w (Inl (Runtime_Cancelled ''u'')) running_server) \<and>
     bt_get (sv_turns running_server) u = Some \<lparr>tn_thread_id = ''t'', tn_cancelled = False, tn_state = Run_Running\<rparr> \<and>
     bt_get (sv_turns (end_worker w (Inl (Runtime_Cancelled ''u'')) running_server)) u = Some c' \<and>
     tn_state c' \<in> {Run_Running, Run_Cancelled}"
proof -
  obtain u where turn: "bt_get (sv_turns running_server) u =
      Some \<lparr>tn_thread_id = ''t'', tn_cancelled = False, tn_state = Run_Running\<rparr>"
    and w: "\<lparr>wk_thread_id = ''t'', wk_turn_id = u, wk_input = ''hi''\<rparr> \<in> set (sv_workers running_server)"
    using running_turn by auto
  note step = server_step.ended [OF w, of sample_runtime sample_codec "Inl (Runtime_Cancelled ''u'')"]
  show ?thesis
    using turn_lifecycle [OF running_reached step turn] running_reached step turn
    by (auto simp: run_state_of_def)
qed

end
