(* ===== verification/Program.thy ===== *)
theory Program
  imports Runtime JsonlStore FsContext Toolset
begin

text \<open>
  The runtime's construction (crates/harness-core/src/runtime.rs) and how the terminal program puts its parts
  together (crates/tui/src/bin/main.rs): the model, the capabilities, the context and the runtime.
\<close>

section \<open>Building a runtime\<close>

text \<open>The store is its two methods, and the turn's token is asked as \<open>cancelled\<close> says.\<close>

definition runtime_new ::
  "(model_request \<Rightarrow> 'w \<Rightarrow> (model_error + model_response) \<times> 'w) \<Rightarrow> 's store_append \<Rightarrow> 's store_load \<Rightarrow>
    (context_input \<Rightarrow> 'w \<Rightarrow> (context_error + compiled_context) \<times> 'w) \<Rightarrow> 'w tool_registry \<Rightarrow> tool_policy \<Rightarrow>
    ('w \<Rightarrow> bool \<times> 'w) \<Rightarrow> ('s, 'w) runtime" where
  "runtime_new model appends load compile tools policy cancelled =
     \<lparr>rt_model = model, rt_append = appends, rt_load = load, rt_compile = compile, rt_tools = tools,
      rt_policy = policy,
      rt_policy_context = \<lparr>principal = None, channel = None, agent = None, sandbox = None\<rparr>, rt_parent = None,
      rt_approvals = DenyAllApprovals, rt_executor = RejectingExecutor, rt_hooks = [], rt_observers = 0,
      rt_cancelled = cancelled, rt_config = default_config\<rparr>"

definition with_policy_context :: "('s, 'w) runtime \<Rightarrow> policy_context \<Rightarrow> ('s, 'w) runtime" where
  "with_policy_context rt context = rt\<lparr>rt_policy_context := context\<rparr>"

definition with_parent_capabilities :: "('s, 'w) runtime \<Rightarrow> capability_projection \<Rightarrow> ('s, 'w) runtime" where
  "with_parent_capabilities rt parent = rt\<lparr>rt_parent := Some parent\<rparr>"

definition with_approval_provider ::
  "('s, 'w) runtime \<Rightarrow> (approval_request \<Rightarrow> 'w \<Rightarrow> (approval_error + approval_decision) \<times> 'w) \<Rightarrow>
    ('s, 'w) runtime" where
  "with_approval_provider rt provider = rt\<lparr>rt_approvals := provider\<rparr>"

definition with_executor :: "('s, 'w) runtime \<Rightarrow> 'w executor \<Rightarrow> ('s, 'w) runtime" where
  "with_executor rt executor = rt\<lparr>rt_executor := executor\<rparr>"

definition with_hooks :: "('s, 'w) runtime \<Rightarrow> 'w hook_set \<Rightarrow> ('s, 'w) runtime" where
  "with_hooks rt hooks = rt\<lparr>rt_hooks := hooks\<rparr>"

definition with_observer :: "('s, 'w) runtime \<Rightarrow> ('s, 'w) runtime" where
  "with_observer rt = rt\<lparr>rt_observers := Suc (rt_observers rt)\<rparr>"

definition with_config :: "('s, 'w) runtime \<Rightarrow> runtime_config \<Rightarrow> ('s, 'w) runtime" where
  "with_config rt config = rt\<lparr>rt_config := config\<rparr>"

section \<open>The program\<close>

text \<open>The last thing the user said.\<close>

fun last_user :: "transcript_message list \<Rightarrow> string option" where
  "last_user [] = None"
| "last_user (m # ms) =
     (case last_user ms of
        Some content \<Rightarrow> Some content
      | None \<Rightarrow> (case m of User content \<Rightarrow> Some content | _ \<Rightarrow> None))"

definition DemoModel :: "model_request \<Rightarrow> 'w \<Rightarrow> (model_error + model_response) \<times> 'w" where
  "DemoModel request w =
     (let input = (case last_user (cc_messages (mr_context request)) of Some s \<Rightarrow> s | None \<Rightarrow> [])
      in (Inr (response_text (''demo response: '' @ input)), w))"

definition program_api_key :: "(string \<Rightarrow> string option) \<Rightarrow> string option" where
  "program_api_key env = (case env ''HARNESS_API_KEY'' of Some k \<Rightarrow> Some k | None \<Rightarrow> env ''OPENAI_API_KEY'')"

definition program_adapter :: "float_text \<Rightarrow> options \<Rightarrow> (string \<Rightarrow> string option) \<Rightarrow> adapter" where
  "program_adapter ft opts env =
     with_streaming (adapter_new (provider_config ft opts (program_api_key env))) (\<not> op_no_stream opts)"

definition program_context :: "(path \<Rightarrow> bool) \<Rightarrow> path \<Rightarrow> options \<Rightarrow> fs_config" where
  "program_context is_dir workspace opts =
     (fs_config_new workspace workspace)\<lparr>
       fc_stable := [\<lparr>ps_layer = Stable, ps_name = ''agent-harness'', ps_text =
         ''You are a coding agent. Inspect before changing files and report verifiable outcomes.''\<rparr>],
       fc_skill_roots := filter is_dir [workspace @ [''.agents'', ''skills''], workspace @ [''.codex'', ''skills'']],
       fc_max_groups := Some (op_history_groups opts)\<rparr>"

definition program_policy :: capability_policy where
  "program_policy =
     grant (grant (grant (grant (grant (grant deny_by_default
       ''read_file'' Allow) ''read_file_page'' Allow) ''search_files'' Allow)
       ''apply_patch'' Ask) ''write_file'' Ask) ''shell'' Ask"

definition program_runtime ::
  "(model_request \<Rightarrow> 'w \<Rightarrow> (model_error + model_response) \<times> 'w) \<Rightarrow> (event_envelope \<Rightarrow> string + string) \<Rightarrow>
    (context_input \<Rightarrow> 'w \<Rightarrow> (context_error + compiled_context) \<times> 'w) \<Rightarrow> 'w tool_registry \<Rightarrow>
    (approval_request \<Rightarrow> 'w \<Rightarrow> (approval_error + approval_decision) \<times> 'w) \<Rightarrow> ('w \<Rightarrow> bool \<times> 'w) \<Rightarrow> string \<Rightarrow>
    options \<Rightarrow> (jsonl_store, 'w) runtime" where
  "program_runtime model encode compile tools approvals cancelled workspace opts =
     with_config (with_observer (with_approval_provider (with_executor
       (runtime_new model (jsonl_append encode) jsonl_load compile tools (capability_access program_policy) cancelled)
       DirectExecutor) approvals))
       (default_config\<lparr>config_workspace := Some workspace, max_model_iterations := op_max_model_iterations opts\<rparr>)"

section \<open>Starting the program\<close>

definition wants_help :: "string list \<Rightarrow> bool" where
  "wants_help args \<longleftrightarrow> list_ex (\<lambda>a. a = ''--help'' \<or> a = ''-h'') args"

text \<open>The current directory is asked for also where a workspace is given, and may not be known.\<close>

definition program_workspace :: "options \<Rightarrow> string + path \<Rightarrow> (process_world, string, path) act" where
  "program_workspace opts current =
     (case current of
        Inl e \<Rightarrow> err e
      | Inr here \<Rightarrow>
          on_files (disk_canonicalize (case op_workspace opts of None \<Rightarrow> here | Some p \<Rightarrow> path_join here p)))"

text \<open>Up to the construction of the runtime; \<open>None\<close> is the program that prints its help.\<close>

definition program_start ::
  "float_text \<Rightarrow> (json \<Rightarrow> string) \<Rightarrow> string list \<Rightarrow> (string \<Rightarrow> string option) \<Rightarrow> string + path \<Rightarrow>
    (registering, string, (options \<times> path) option) act" where
  "program_start ft decode_error args env current =
     (if wants_help args then ok None
      else case parse_options ft args env of
        Inl e \<Rightarrow> err e
      | Inr opts \<Rightarrow>
          and_then (on_world (program_workspace opts current)) (\<lambda>workspace.
          and_then (map_err process_error_text (program_tools decode_error workspace opts)) (\<lambda>_.
          ok (Some (opts, workspace)))))"

end
