(* ===== verification/ProgramProperties.thy ===== *)
theory ProgramProperties
  imports Program ToolsetProperties OptionsProperties TurnProperties
begin

text \<open>
  The property of the terminal program: what it does to the workspace was approved, action by action.
\<close>

lemma program_access:
  "capability_access program_policy name context =
     (if name \<in> {''read_file'', ''read_file_page'', ''search_files''} then Allow
      else if name \<in> {''apply_patch'', ''write_file'', ''shell''} then Ask else Deny)"
  by (simp add: capability_access_def program_policy_def grant_def deny_by_default_def)

lemma program_projection:
  "projection_access (capabilities (program_runtime model encode compile tools approvals cancelled workspace opts)) name =
     (if name \<in> set (registry_names tools) then capability_access program_policy name
        \<lparr>principal = None, channel = None, agent = None, sandbox = None\<rparr> else Deny)"
  by (simp add: capabilities_def projection_access_project program_runtime_def with_config_def with_observer_def
      with_approval_provider_def with_executor_def runtime_new_def)

text \<open>A program that started accepted its arguments, and its registry has just the tools that the policy names, or
  none.\<close>

lemma program_started:
  assumes "program_start ft decode_error args env current (w0, []) = (Inr (Some (opts, ws)), (w1, tools))"
  shows "parse_options ft args env = Inr opts \<and>
    set (registry_names tools) = (if op_no_tools opts then {} else {name. capability_access program_policy name context \<noteq> Deny})"
proof -
  from assms obtain w where "parse_options ft args env = Inr opts" and
    tools: "program_tools decode_error ws opts (w, []) = (Inr (), (w1, tools))"
    by (auto simp: program_start_def and_then_value on_world_value map_err_Inr ok_def err_def split: if_splits sum.splits)
  moreover have "set (registry_names tools) = {}" if "op_no_tools opts"
    using tools that by (simp add: program_tools_def ok_def registry_names_def keys_def)
  moreover have "set (registry_names tools) = {name. capability_access program_policy name context \<noteq> Deny}"
    if "\<not> op_no_tools opts"
    using tools that by (elim program_tools_value) (auto simp: program_access)
  ultimately show ?thesis by simp
qed

lemma program_served:
  "served_runtime (program_runtime model encode compile tools approvals cancelled workspace opts)
     (\<lambda>t s. thread_events t (js_events s))"
proof -
  let ?rt = "program_runtime model encode compile tools approvals cancelled workspace opts"
  have "?rt = ?rt\<lparr>rt_append := jsonl_append encode, rt_load := jsonl_load\<rparr>"
    by (simp add: program_runtime_def with_config_def with_observer_def
        with_approval_provider_def with_executor_def runtime_new_def)
  then show ?thesis using jsonl_runtime.served_runtime_axioms [of encode ?rt] by simp
qed

lemma accepted_iterations:
  assumes "parse_options ft args env = Inr opts"
  shows "op_max_model_iterations opts \<le> 128"
  using assms options_from_fields(12) option_number_from
  by (fastforce simp: parse_options_def number_from_def split: sum.splits)

text \<open>What a turn of the program adds: recovery's events, which execute nothing, and the turn's own, at most 128
  of them requests to the model; it executes only the tools it grants, and the last three of them only
  after exactly that action was approved.\<close>

lemma program_asks_first:
  assumes "parse_options ft args env = Inr opts"
    and "run_turn_with_id (program_runtime model encode compile tools approvals cancelled workspace opts)
      t u input s = (r, s')"
  obtains R vs where
    "thread_events t (js_events (r_store s')) = thread_events t (js_events (r_store s)) @ R @ vs"
    "\<And>v. v \<in> set R \<Longrightarrow> recovery_step (thread_events t (js_events (r_store s))) v"
    "\<And>v. v \<in> set vs \<Longrightarrow> ev_turn_id v = Some u"
    "length (filter (\<lambda>v. is_request (ev_event v)) vs) \<le> 128"
    "\<And>xs v ys p. vs = xs @ v # ys \<Longrightarrow> ev_event v = ToolExecutionStarted p \<Longrightarrow>
       ca_tool_name (pc_action p) \<in> {''read_file'', ''read_file_page'', ''search_files''} \<or>
       ca_tool_name (pc_action p) \<in> {''apply_patch'', ''write_file'', ''shell''} \<and>
       (\<exists>w \<in> set xs. ev_event w = ApprovalResolved (pc_call_id p) (Approved (pc_action p)))"
proof -
  let ?rt = "program_runtime model encode compile tools approvals cancelled workspace opts"
  obtain R vs st where a: "turn_added ?rt u (thread_events t (js_events (r_store s)))
      (thread_events t (js_events (r_store s'))) R vs st"
    using run_turn_summary [OF program_served assms(2)] by blast
  then have run: "turn_run (rules_of ?rt) (map ev_event vs) st" by (simp add: turn_added_def)
  have "max_model_iterations (rt_config ?rt) = op_max_model_iterations opts"
    by (simp add: program_runtime_def with_config_def)
  then have "length (filter is_request (map ev_event vs)) \<le> 128"
    using turn_run_requests [OF run] accepted_iterations [OF assms(1)] by simp
  then have few: "length (filter (\<lambda>v. is_request (ev_event v)) vs) \<le> 128"
    by (simp add: filter_map comp_def)
  have gated: "ca_tool_name (pc_action p) \<in> {''read_file'', ''read_file_page'', ''search_files''} \<or>
      ca_tool_name (pc_action p) \<in> {''apply_patch'', ''write_file'', ''shell''} \<and>
      (\<exists>w \<in> set xs. ev_event w = ApprovalResolved (pc_call_id p) (Approved (pc_action p)))"
    if split: "vs = xs @ v # ys" and started: "ev_event v = ToolExecutionStarted p" for xs v ys p
  proof -
    have "permitted (rules_of ?rt) (map ev_event xs) p"
      using run split started by (intro executions_permitted [of _ _ p "map ev_event ys" st]) simp
    then show ?thesis
      by (auto simp: permitted_def program_projection program_access image_iff split: if_splits)
  qed
  show ?thesis
    by (rule that [OF _ _ _ few gated]) (use a in \<open>auto simp: turn_added_def\<close>)
qed

end
