(* ===== verification/ApprovalProperties.thy ===== *)
theory ApprovalProperties
  imports ProgramProperties TuiProperties
begin

text \<open>
  The approvals of a turn and the terminal interface together: what the log calls approved was approved by
  the provider, for a request of this turn; the interface's provider approves what was on the screen.
\<close>

section \<open>Approvals in the log come from the provider\<close>

definition vouched :: "(approval_request \<Rightarrow> approval_decision \<Rightarrow> bool) \<Rightarrow> thread_id \<Rightarrow> event_envelope \<Rightarrow> bool" where
  "vouched P t v \<longleftrightarrow> (\<forall>c a. ev_event v = ApprovalResolved c (Approved a) \<longrightarrow>
     (\<exists>request. ar_thread_id request = t \<and> ev_turn_id v = Some (ar_turn_id request) \<and> ar_call_id request = c \<and>
       P request (Approved a)))"

text \<open>Every answer of the provider, whatever its environment, is one that \<open>P\<close> allows.\<close>

definition answers_within ::
  "(approval_request \<Rightarrow> 'w \<Rightarrow> (approval_error + approval_decision) \<times> 'w) \<Rightarrow>
    (approval_request \<Rightarrow> approval_decision \<Rightarrow> bool) \<Rightarrow> bool" where
  "answers_within approvals P \<longleftrightarrow> (\<forall>request w d w'. approvals request w = (Inr d, w') \<longrightarrow> P request d)"

context served_runtime
begin

definition vouches ::
  "(approval_request \<Rightarrow> approval_decision \<Rightarrow> bool) \<Rightarrow> thread_id \<Rightarrow> event_envelope list \<Rightarrow> ('s, 'w) rstate \<Rightarrow> bool" where
  "vouches P t L s \<longleftrightarrow> (\<exists>vs. log t (r_store s) = L @ vs \<and> list_all (vouched P t) vs)"

lemma vouches_on_log: "vouches P t L = on_log t (\<lambda>es. \<exists>vs. es = L @ vs \<and> list_all (vouched P t) vs)"
  by (rule ext) (simp add: vouches_def on_log_def)

lemma vouches_append:
  assumes "\<And>v. ev_event v = e \<Longrightarrow> ev_turn_id v = u \<Longrightarrow> vouched P t v"
  shows "preserves (vouches P t L) (append_event rt t u e)"
  unfolding preserves_def vouches_on_log
proof (rule triple_append_event)
  show "\<exists>vs'. es @ [v] = L @ vs' \<and> list_all (vouched P t) vs'"
    if "\<exists>vs. es = L @ vs \<and> list_all (vouched P t) vs" "ev_turn_id v = u" "ev_event v = e" for es v
    using that assms by auto
qed

lemma vouches_ask:
  assumes "answers_within (rt_approvals rt) P"
  shows "preserves (vouches P t L) (ask_approval rt t u prepared)"
proof -
  let ?request = "\<lparr>ar_thread_id = t, ar_turn_id = u, ar_call_id = pc_call_id prepared,
    ar_action = pc_action prepared, ar_reason = ''effective tool policy requires approval''\<rparr>"
  let ?I = "vouches P t L"
  let ?decision = "\<lambda>result. case result of Inr d \<Rightarrow> d | Inl (e :: approval_error) \<Rightarrow> Denied (approval_error_text e)"
  have asked: "triple ?I (on_env (rt_approvals rt ?request)) (\<lambda>d s. ?I s \<and> P ?request d) (\<lambda>_. ?I)"
    by (rule tripleI)
      (use assms in \<open>auto simp: on_env_def zoom_def vouches_def answers_within_def split: prod.splits\<close>)
  have resolved: "preserves ?I (append_event rt t (Some u) (ApprovalResolved (pc_call_id prepared) d))"
    if "\<And>a. d = Approved a \<Longrightarrow> P ?request d" for d
    by (rule vouches_append) (use that in \<open>force simp: vouched_def\<close>)
  have settled: "triple (\<lambda>s. ?I s \<and> (\<forall>d. result = Inr d \<longrightarrow> P ?request d))
      (and_then (append_event rt t (Some u) (ApprovalResolved (pc_call_id prepared) (?decision result)))
        (\<lambda>_. ok (denial_of (pc_action prepared) (?decision result)))) (\<lambda>_. ?I) (\<lambda>_. ?I)" for result
  proof (cases "\<forall>d. result = Inr d \<longrightarrow> P ?request d")
    case True
    then have "preserves ?I (append_event rt t (Some u) (ApprovalResolved (pc_call_id prepared) (?decision result)))"
      by (intro resolved) (cases result; simp)
    then have "preserves ?I (and_then (append_event rt t (Some u) (ApprovalResolved (pc_call_id prepared) (?decision result)))
        (\<lambda>_. ok (denial_of (pc_action prepared) (?decision result))))" by (intro frame)
    then show ?thesis unfolding preserves_def by (rule triple_pre) simp
  qed (auto simp: triple_def)
  show ?thesis
    unfolding ask_approval_def Let_def preserves_def
  proof (rule triple_and_then)
    show "triple ?I (append_event rt t (Some u) (ApprovalRequested ?request)) (\<lambda>_. ?I) (\<lambda>_. ?I)"
      using vouches_append [of "ApprovalRequested ?request" "Some u" P t L] by (simp add: vouched_def preserves_def)
    show "triple ?I (attempt (on_env (rt_approvals rt ?request)) (\<lambda>result.
        and_then (append_event rt t (Some u) (ApprovalResolved (pc_call_id prepared) (?decision result)))
        (\<lambda>_. ok (denial_of (pc_action prepared) (?decision result))))) (\<lambda>_. ?I) (\<lambda>_. ?I)"
      by (rule triple_attempt [where R = "\<lambda>result s. ?I s \<and> (\<forall>d. result = Inr d \<longrightarrow> P ?request d)", OF _ settled])
        (rule triple_weaken [OF asked], simp_all)
  qed
qed

lemma turn_frame_vouches:
  assumes "answers_within (rt_approvals rt) P"
  shows "turn_frame rt t (vouches P t L)"
proof
  show "preserves (vouches P t L) (append_event rt t u e)" if "\<not> approval_answer e" for u e
    by (rule vouches_append) (use that in \<open>auto simp: vouched_def approval_answer_def\<close>)
qed (auto intro: preserves_load vouches_ask assms simp: vouches_def)

lemma recover_exclusive_steps:
  assumes "recover_exclusive rt t s = (r, s')"
  obtains R where "log t (r_store s') = log t (r_store s) @ R" "\<forall>v \<in> set R. recovery_step (log t (r_store s)) v"
proof -
  have pre: "on_log t (\<lambda>es. es = log t (r_store s)) s" by (simp add: on_log_def)
  have "partly_repaired (log t (r_store s)) (log t (r_store s'))"
    using assms triple_error [OF triple_recover_exclusive pre] triple_value [OF triple_recover_exclusive pre]
    by (cases r) (auto simp: on_log_def dest: repaired_partly)
  then show ?thesis by (elim repaired_steps) (auto intro: that)
qed

lemma run_turn_vouched:
  assumes "answers_within (rt_approvals rt) P" and "run_turn_with_id rt t u input s = (r, s')"
  shows "\<exists>R vs. log t (r_store s') = log t (r_store s) @ R @ vs \<and>
    (\<forall>v \<in> set R. recovery_step (log t (r_store s)) v) \<and> list_all (vouched P t) vs"
  using assms(2)
proof (cases rule: run_turn_cases)
  case refused
  then show ?thesis by (intro exI [of _ "[]"]) simp
next
  case (stopped x s1)
  obtain R where "log t (r_store s1) = log t (r_store s) @ R" "\<forall>v \<in> set R. recovery_step (log t (r_store s)) v"
    using recover_exclusive_steps [OF stopped(3)] by auto
  with stopped(5) show ?thesis by (intro exI [of _ R] exI [of _ "[]"]) (simp add: release_thread_def)
next
  case (ran report s1 s2)
  obtain R where R: "log t (r_store s1) = log t (r_store s) @ R" "\<forall>v \<in> set R. recovery_step (log t (r_store s)) v"
    using recover_exclusive_steps [OF ran(3)] by auto
  have "vouches P t (log t (r_store s1)) s1" by (simp add: vouches_def)
  then have "vouches P t (log t (r_store s1)) s2"
    by (rule preservesD [OF turn_frame.frame_start_turn [OF turn_frame_vouches [OF assms(1)]] _ ran(4)])
  with R ran(5) show ?thesis by (auto simp: vouches_def release_thread_def)
qed

end

section \<open>Approvals of the interface\<close>

definition answered_in :: "ui_state \<Rightarrow> approval_request \<Rightarrow> approval_decision \<Rightarrow> bool" where
  "answered_in ui request d \<longleftrightarrow> (\<exists>prompt. (prompt, d) \<in> set (answers (ui_steps ui)) \<and> ap_request prompt = request)"

text \<open>The provider over a run of the interface: the response to a request is the answer that the interface
  gave to its prompt, or the channel is dropped.\<close>

definition interface_approvals ::
  "('w \<Rightarrow> bool) \<Rightarrow> ui_state \<Rightarrow> approval_request \<Rightarrow> 'w \<Rightarrow> (approval_error + approval_decision) \<times> 'w" where
  "interface_approvals listening ui request w =
     (tui_approval (listening w)
       (map_option snd (find (\<lambda>x. ap_request (fst x) = request) (answers (ui_steps ui)))), w)"

lemma interface_answers: "answers_within (interface_approvals listening ui) (answered_in ui)"
  by (auto simp: answers_within_def interface_approvals_def tui_approval_def answered_in_def find_Some_iff
      split: if_splits option.splits) (metis fst_conv nth_mem)

lemma answers_step: "(prompt, d) \<in> set (answers steps) \<longleftrightarrow> Answered prompt d \<in> set steps"
  by (auto simp: answers_def List.map_filter_def split: ui_step.splits)

text \<open>An action that the interface approved was on its screen.\<close>

definition approved_on_screen ::
  "ui_text \<Rightarrow> ui_state \<Rightarrow> thread_id \<Rightarrow> turn_id \<Rightarrow> prepared_tool_call \<Rightarrow> bool" where
  "approved_on_screen ut ui t u p \<longleftrightarrow> (\<exists>pre prompt post f.
     ui_steps ui = pre @ Answered prompt (Approved (pc_action p)) # post \<and>
     ap_request prompt = \<lparr>ar_thread_id = t, ar_turn_id = u, ar_call_id = pc_call_id p, ar_action = pc_action p,
       ar_reason = ar_reason (ap_request prompt)\<rparr> \<and>
     last_frame pre = Some f \<and>
     fr_approval f = Some (ca_tool_name (pc_action p), ut_json ut (ca_arguments (pc_action p))))"

lemma answered_on_screen:
  assumes "shown_before ut (ui_steps ui)" and "answered_in ui request (Approved (pc_action p))"
    and "ar_thread_id request = t" "ar_turn_id request = u" "ar_call_id request = pc_call_id p"
  shows "approved_on_screen ut ui t u p"
proof -
  from assms(2) obtain prompt where prompt: "ap_request prompt = request"
    and "Answered prompt (Approved (pc_action p)) \<in> set (ui_steps ui)"
    by (auto simp: answered_in_def answers_step)
  then obtain pre post where steps: "ui_steps ui = pre @ Answered prompt (Approved (pc_action p)) # post"
    by (meson split_list)
  with assms(1) obtain f where "pc_action p = ar_action request" "last_frame pre = Some f"
    "fr_approval f = Some (shown_action ut prompt)"
    unfolding shown_before_def using prompt by blast
  with steps prompt assms(3-) show ?thesis
    unfolding approved_on_screen_def
    by (intro exI [of _ pre] exI [of _ prompt] exI [of _ post] exI [of _ f]) (auto simp: shown_action_def)
qed


end
