(* ===== verification/ApprovalSamples.thy ===== *)
theory ApprovalSamples
  imports ApprovalProperties
begin

text \<open>
  The model asks for a command, the interface shows it, the user presses y, and it is run.
\<close>

definition command_action :: canonical_action where
  "command_action = CanonicalAction_new ''shell'' JNull ExternalSideEffect Retry_Unsafe"

definition command_request :: approval_request where
  "command_request = \<lparr>ar_thread_id = ''t'', ar_turn_id = ''u'', ar_call_id = ''c1'', ar_action = command_action,
     ar_reason = ''effective tool policy requires approval''\<rparr>"

definition command_prompt :: approval_prompt where
  "command_prompt = \<lparr>ap_channel = 0, ap_request = command_request\<rparr>"

text \<open>A round that draws and waits, and a round with a key.\<close>

definition quiet_round :: round where
  "quiet_round = \<lparr>rn_events = [], rn_snapshot = empty_snapshot, rn_approvals = [], rn_turn = Turn_Empty,
     rn_late_events = [], rn_now = 0, rn_extent = Inr (80, 24), rn_poll = Inr False, rn_read = Inr Other_Event,
     rn_closing = []\<rparr>"

definition command_rounds :: "round list" where
  "command_rounds = [quiet_round\<lparr>rn_approvals := [command_prompt]\<rparr>,
     quiet_round\<lparr>rn_poll := Inr True, rn_read := Inr (Key_Pressed \<lparr>ke_control = False, ke_code = Key_Char ''y''\<rparr>)\<rparr>]"

definition plain_text :: ui_text where
  "plain_text = \<lparr>ut_json = (\<lambda>_. []), ut_seconds = dec\<rparr>"

definition command_interface :: ui_state where
  "command_interface = snd (tui_run plain_text tui_config_default ''t'' command_rounds)"

lemma command_answers: "answers (ui_steps command_interface) = [(command_prompt, Approved command_action)]"
  by (simp add: command_interface_def command_rounds_def tui_run_def tui_round_def receive_all_def drain_events_def
      quiet_round_def drain_progress_def empty_snapshot_def draft_progress_def drain_approvals_def receive_turn_def draw_frame_def
      read_terminal_def handle_key_def resolve_approval_def receive_prompt_def ui_is_cancelled_def answer_def ui_new_def
      push_log_def trim_logs_def Let_def command_prompt_def command_request_def)

lemmas sample_defs = command_request_def command_action_def CanonicalAction_new_def

lemma command_approved:
  "interface_approvals (\<lambda>_. True) command_interface command_request w = (Inr (Approved command_action), w)"
  by (simp add: interface_approvals_def command_answers command_prompt_def tui_approval_def)

definition command_runtime :: "(jsonl_store, nat) runtime" where
  "command_runtime = program_runtime (rt_model sample_runtime) sample_encode (rt_compile sample_runtime)
     (rt_tools sample_runtime) (interface_approvals (\<lambda>_. True) command_interface) (rt_cancelled sample_runtime) ''w'' sample_options"

definition command_state :: "(jsonl_store, nat) rstate" where
  "command_state = \<lparr>
     r_store = \<lparr>js_path = ''events.jsonl'', js_recovered_tail = None, js_poisoned = False,
       js_file = \<lparr>lf_bytes = ''[0]'' @ [newline], lf_host = sample_host (\<lambda>_. Io_ok)\<rparr>, js_next_sequence = 1,
       js_events = [sample_event 0 ''event_0_0_7'' ThreadStarted], js_write_failed = False\<rparr>,
     r_env = 0, r_notified = [], r_active = [], r_active_poisoned = False, r_host = sample_host (\<lambda>_. Io_ok)\<rparr>"

lemmas turn_loop_numeral = turn_loop.simps(2) [where n = "pred_numeral k" for k, folded numeral_eq_Suc]

lemma command_executes:
  "list_ex (\<lambda>v. case ev_event v of ToolExecutionStarted p \<Rightarrow> ca_tool_name (pc_action p) = ''shell'' | _ \<Rightarrow> False)
     (thread_events ''t'' (js_events (r_store (snd (run_turn_with_id command_runtime ''t'' ''u'' ''hi'' command_state)))))"
  by (simp add: command_runtime_def command_state_def program_runtime_def with_config_def with_observer_def
      with_approval_provider_def with_executor_def runtime_new_def program_policy_def sample_options_def
      jsonl_append_def jsonl_load_def sample_encode_def sample_event_def append_line_def write_all_def sync_file_def io_step_def
      turn_loop_numeral sample_turn_defs thread_events_def command_approved [unfolded sample_defs])

definition command_run :: "(runtime_error + turn_outcome) \<times> (jsonl_store, nat) rstate" where
  "command_run = run_turn_with_id command_runtime ''t'' ''u'' ''hi'' command_state"


end
