(* ===== verification/Terminal.thy ===== *)
theory Terminal
  imports TuiLoop
begin

text \<open>
  The terminal session around the interface's loop (crates/tui/src/lib.rs): raw mode, the alternate screen and
  the cursor, entered before the loop and left, whatever the loop's result, by \<open>Drop\<close>. How far each call
  gets before it fails is given by the world.
\<close>

record terminal =
  tm_raw :: bool
  tm_alternate :: bool
  tm_hidden :: bool
  tm_answers :: "nat \<Rightarrow> nat \<times> string option" \<comment> \<open>the commands that the n-th call carries out before it fails, and its error\<close>
  tm_calls :: nat

datatype terminal_command = EnterAlternateScreen | LeaveAlternateScreen | Hide | Show | ResetColor

fun apply_command :: "terminal_command \<Rightarrow> terminal \<Rightarrow> terminal" where
  "apply_command EnterAlternateScreen t = t\<lparr>tm_alternate := True\<rparr>"
| "apply_command LeaveAlternateScreen t = t\<lparr>tm_alternate := False\<rparr>"
| "apply_command Hide t = t\<lparr>tm_hidden := True\<rparr>"
| "apply_command Show t = t\<lparr>tm_hidden := False\<rparr>"
| "apply_command ResetColor t = t"

text \<open>\<open>execute!\<close>\<close>

definition execute_commands :: "terminal_command list \<Rightarrow> (terminal, string, unit) act" where
  "execute_commands commands t =
     (let t' = t\<lparr>tm_calls := Suc (tm_calls t)\<rparr>
      in case tm_answers t (tm_calls t) of
           (_, None) \<Rightarrow> (Inr (), fold apply_command commands t')
         | (n, Some e) \<Rightarrow> (Inl e, fold apply_command (take n commands) t'))"

definition set_raw_mode :: "bool \<Rightarrow> (terminal, string, unit) act" where
  "set_raw_mode raw t =
     (let t' = t\<lparr>tm_calls := Suc (tm_calls t)\<rparr>
      in case snd (tm_answers t (tm_calls t)) of None \<Rightarrow> (Inr (), t'\<lparr>tm_raw := raw\<rparr>) | Some e \<Rightarrow> (Inl e, t'))"

definition session_enter :: "(terminal, string, unit) act" where
  "session_enter =
     and_then (set_raw_mode True) (\<lambda>_.
     attempt (execute_commands [EnterAlternateScreen, Hide]) (\<lambda>result. case result of
       Inr _ \<Rightarrow> ok ()
     | Inl e \<Rightarrow> attempt (set_raw_mode False) (\<lambda>_. err e)))"

definition session_drop :: "(terminal, string, unit) act" where
  "session_drop =
     attempt (execute_commands [Show, LeaveAlternateScreen, ResetColor]) (\<lambda>_.
     attempt (set_raw_mode False) (\<lambda>_. ok ()))"

text \<open>The session and the loop in it; with a loop that has not left yet, the session is still there.\<close>

definition run_with_model_progress ::
  "ui_text \<Rightarrow> tui_config \<Rightarrow> thread_id \<Rightarrow> round list \<Rightarrow> (terminal, string, (string + unit) option \<times> ui_state) act" where
  "run_with_model_progress ut config thread rounds =
     and_then session_enter (\<lambda>_.
     case tui_run ut config thread rounds of
       (None, s) \<Rightarrow> ok (None, s)
     | (Some result, s) \<Rightarrow> and_then session_drop (\<lambda>_. ok (Some result, s)))"

section \<open>The terminal is given back\<close>

definition plain_terminal :: "terminal \<Rightarrow> bool" where
  "plain_terminal t \<longleftrightarrow> \<not> tm_raw t \<and> \<not> tm_alternate t \<and> \<not> tm_hidden t"

lemma session_drop_restores:
  assumes "session_drop t = (r, t')"
    and "snd (tm_answers t (tm_calls t)) = None" and "snd (tm_answers t (Suc (tm_calls t))) = None"
  shows "r = Inr () \<and> plain_terminal t'"
  using assms
  by (auto simp: session_drop_def attempt_def ok_def execute_commands_def set_raw_mode_def plain_terminal_def Let_def
      split: prod.splits option.splits)

lemma commands_kept [simp]:
  "tm_raw (fold apply_command cs t) = tm_raw t" "tm_answers (fold apply_command cs t) = tm_answers t"
  "tm_calls (fold apply_command cs t) = tm_calls t"
proof (induction cs arbitrary: t)
  case (Cons c cs)
  { case 1 then show ?case using Cons.IH by (cases c) simp_all }
  { case 2 then show ?case using Cons.IH by (cases c) simp_all }
  { case 3 then show ?case using Cons.IH by (cases c) simp_all }
qed simp_all

lemma session_enter_result:
  assumes "session_enter t = (r, t')"
  shows "case r of
      Inr _ \<Rightarrow> tm_answers t' = tm_answers t \<and> tm_calls t' = tm_calls t + 2
    | Inl e \<Rightarrow> plain_terminal t \<longrightarrow> snd (tm_answers t (tm_calls t)) = None \<longrightarrow>
        snd (tm_answers t (tm_calls t + 2)) = None \<longrightarrow>
        \<not> tm_raw t' \<and> (fst (tm_answers t (Suc (tm_calls t))) = 0 \<longrightarrow> plain_terminal t')"
proof (cases "snd (tm_answers t (tm_calls t))")
  case (Some e)
  with assms show ?thesis by (auto simp: session_enter_def and_then_def set_raw_mode_def Let_def)
next
  case raw: None
  obtain n x where call: "tm_answers t (Suc (tm_calls t)) = (n, x)" by fastforce
  show ?thesis
  proof (cases x)
    case None
    with assms raw call show ?thesis
      by (auto simp: session_enter_def and_then_def attempt_def ok_def set_raw_mode_def execute_commands_def Let_def)
  next
    case (Some e)
    with assms raw call show ?thesis
      by (cases "snd (tm_answers t (Suc (Suc (tm_calls t))))")
        (auto simp: session_enter_def and_then_def attempt_def err_def set_raw_mode_def execute_commands_def Let_def
          plain_terminal_def)
  qed
qed

text \<open>Whatever a run of the interface ends with, the terminal is as before, when the calls that undo the session work.\<close>

lemma run_restores_terminal:
  assumes "run_with_model_progress ut config thread rounds t = (Inr (Some result, s), t')"
    and "\<And>n. 2 \<le> n \<Longrightarrow> snd (tm_answers t (tm_calls t + n)) = None"
  shows "plain_terminal t'"
proof -
  obtain a t1 where enter: "session_enter t = (a, t1)" by fastforce
  with assms(1) have a: "a = Inr ()" by (cases a) (auto simp: run_with_model_progress_def and_then_def)
  with session_enter_result [OF enter] have t1: "tm_answers t1 = tm_answers t" "tm_calls t1 = tm_calls t + 2" by auto
  obtain d where "session_drop t1 = (d, t')"
    using assms(1) enter a
    by (auto simp: run_with_model_progress_def and_then_def ok_def split: prod.splits option.splits sum.splits)
  from session_drop_restores [OF this] show ?thesis using assms(2) [of 2] assms(2) [of 3] by (simp add: t1 numeral_3_eq_3)
qed

text \<open>An entry that fails after its first command reached the terminal leaves the alternate screen on.\<close>

lemma failed_entry_keeps_screen:
  "\<exists>t e t'. plain_terminal t \<and> session_enter t = (Inl e, t') \<and> \<not> tm_raw t' \<and> tm_alternate t'"
proof (intro exI conjI)
  let ?t = "\<lparr>tm_raw = False, tm_alternate = False, tm_hidden = False,
    tm_answers = (\<lambda>n. if n = 1 then (1, Some ''Broken pipe'') else (0, None)), tm_calls = 0\<rparr>"
  show "plain_terminal ?t" by (simp add: plain_terminal_def)
  show "session_enter ?t = (Inl ''Broken pipe'', ?t\<lparr>tm_alternate := True, tm_calls := 3\<rparr>)"
    by (simp add: session_enter_def and_then_def attempt_def err_def execute_commands_def set_raw_mode_def Let_def)
qed simp_all

end
