(* ===== verification/PortableProcess.thy ===== *)
theory PortableProcess
  imports Process
begin

text \<open>
  Running a command on systems other than unix (crates/executor-process/src/lib.rs, not unix): two threads read the
  pipes to their ends while the command's thread waits for the child. What the reads give, the answers of the
  looks at the child, the token and the threads, and the readings left on the clock are given by the world;
  after the last reading every deadline has passed.
\<close>

section \<open>Reading a pipe\<close>

text \<open>The reads of a thread in order, each of at most 8192 bytes; no bytes are the end, which is also where the
  list ends.\<close>

fun read_capped :: "nat \<Rightarrow> (string + string) list \<Rightarrow> string \<Rightarrow> bool \<Rightarrow> process_error + string \<times> bool" where
  "read_capped maximum [] retained truncated = Inr (retained, truncated)"
| "read_capped maximum (Inl e # rest) retained truncated = Inl (Process_Io e)"
| "read_capped maximum (Inr bytes # rest) retained truncated =
     (let bytes = take 8192 bytes; remaining = maximum - length retained
      in if bytes = [] then Inr (retained, truncated)
         else read_capped maximum rest (retained @ take remaining bytes) (truncated \<or> remaining < length bytes))"

text \<open>What a thread reads before the end.\<close>

fun bytes_read :: "(string + string) list \<Rightarrow> string" where
  "bytes_read [] = []"
| "bytes_read (Inl e # rest) = []"
| "bytes_read (Inr bytes # rest) = (if bytes = [] then [] else take 8192 bytes @ bytes_read rest)"

lemma retained_step:
  assumes "length retained \<le> maximum"
  shows "take maximum ((retained @ take (maximum - length retained) bytes) @ rest) = take maximum (retained @ bytes @ rest)"
    and "(maximum - length retained < length bytes \<or>
      maximum < length ((retained @ take (maximum - length retained) bytes) @ rest)) =
      (maximum < length (retained @ bytes @ rest))"
  using assms by (cases "maximum - length retained < length bytes"; simp)+

lemma read_capped_exact:
  assumes "read_capped maximum pieces retained truncated = Inr (out, lost)" and "length retained \<le> maximum"
  shows "out = take maximum (retained @ bytes_read pieces) \<and>
    lost = (truncated \<or> maximum < length (retained @ bytes_read pieces))"
  using assms
proof (induction maximum pieces retained truncated arbitrary: out lost rule: read_capped.induct)
  case (3 maximum bytes rest retained truncated)
  let ?bytes = "take 8192 bytes" and ?remaining = "maximum - length retained"
  show ?case
  proof (cases "bytes = []")
    case True
    with "3.prems" show ?thesis by (auto simp: Let_def)
  next
    case False
    with "3.prems" have "read_capped maximum rest (retained @ take ?remaining ?bytes)
        (truncated \<or> ?remaining < length ?bytes) = Inr (out, lost)" by (simp add: Let_def)
    moreover have "length (retained @ take ?remaining ?bytes) \<le> maximum" using "3.prems"(2) by simp
    ultimately have "out = take maximum ((retained @ take ?remaining ?bytes) @ bytes_read rest) \<and>
        lost = ((truncated \<or> ?remaining < length ?bytes) \<or>
          maximum < length ((retained @ take ?remaining ?bytes) @ bytes_read rest))"
      using "3.IH" [OF refl refl] False by simp
    with False retained_step [OF "3.prems"(2), of ?bytes "bytes_read rest"] show ?thesis by auto
  qed
qed auto

section \<open>The world\<close>

datatype portable_step = Portable_spawned command | Portable_killed | Portable_reaped

record portable_world =
  px_spawn :: "string option" \<comment> \<open>why the command cannot be started\<close>
  px_reads :: "stream \<Rightarrow> (string + string) list"
  px_status :: "nat \<Rightarrow> string + int option option" \<comment> \<open>the n-th \<open>try_wait\<close>; \<open>Some\<close> when the child has exited\<close>
  px_cancelled :: "nat \<Rightarrow> bool"
  px_cancel_looks :: nat
  px_kill :: "string option"
  px_wait :: "string + int option"
  px_finished :: "nat \<Rightarrow> bool" \<comment> \<open>both threads have ended at the n-th look\<close>
  px_steps :: "portable_step list" \<comment> \<open>what was done, for the statements\<close>

type_synonym 'a portable = "(portable_world, process_error, 'a) act"

definition portable_did :: "portable_step \<Rightarrow> unit portable" where
  "portable_did s = writes (\<lambda>w. w\<lparr>px_steps := px_steps w @ [s]\<rparr>)"

definition portable_cancelled :: "bool portable" where
  "portable_cancelled w = (Inr (px_cancelled w (px_cancel_looks w)), w\<lparr>px_cancel_looks := Suc (px_cancel_looks w)\<rparr>)"

definition io_value :: "string + 'a \<Rightarrow> 'a portable" where
  "io_value r = (case r of Inl e \<Rightarrow> err (Process_Io e) | Inr a \<Rightarrow> ok a)"

definition kill_child :: "(int option \<times> bool) portable" where
  "kill_child =
     and_then (reads px_kill) (\<lambda>failed. case failed of
       Some e \<Rightarrow> err (Process_Io e)
     | None \<Rightarrow>
         and_then (portable_did Portable_killed) (\<lambda>_.
         and_then (reads px_wait) (\<lambda>status.
         and_then (io_value status) (\<lambda>code.
         and_then (portable_did Portable_reaped) (\<lambda>_. ok (code, True))))))"

section \<open>Waiting\<close>

text \<open>The \<open>n\<close>-th look at the child, with the readings that are left; the exit code, whether the time was up, and the
  readings left over.\<close>

fun wait_child :: "nat option \<Rightarrow> nat \<Rightarrow> nat \<Rightarrow> nat list \<Rightarrow> ((int option \<times> bool) \<times> nat list) portable" where
  "wait_child start limit n clock =
     and_then (reads (\<lambda>w. px_status w n)) (\<lambda>status.
     and_then (io_value status) (\<lambda>exited.
     case exited of
       Some code \<Rightarrow> ok ((code, False), clock)
     | None \<Rightarrow>
         and_then portable_cancelled (\<lambda>cancelled.
         if cancelled then and_then (portable_did Portable_killed) (\<lambda>_. err Process_Cancelled)
         else case clock of
             [] \<Rightarrow> and_then kill_child (\<lambda>ended. ok (ended, []))
           | now # later \<Rightarrow>
               if passed start limit (Some now) then and_then kill_child (\<lambda>ended. ok (ended, later))
               else wait_child start limit (Suc n) later)))"

declare wait_child.simps [simp del]

definition cleanup_timeout_error :: string where
  "cleanup_timeout_error = ''output pipes did not close within the cleanup deadline''"

fun wait_readers :: "nat option \<Rightarrow> nat \<Rightarrow> nat list \<Rightarrow> unit portable" where
  "wait_readers start n clock =
     and_then (reads (\<lambda>w. px_finished w n)) (\<lambda>finished.
     if finished then ok ()
     else case clock of
         [] \<Rightarrow> err (Process_Io cleanup_timeout_error)
       | now # later \<Rightarrow>
           if passed start 250 (Some now) then err (Process_Io cleanup_timeout_error)
           else wait_readers start (Suc n) later)"

declare wait_readers.simps [simp del]

definition next_reading :: "nat list \<Rightarrow> nat option \<times> nat list" where
  "next_reading clock = (case clock of [] \<Rightarrow> (None, []) | t # ts \<Rightarrow> (Some t, ts))"

text \<open>What the two threads hand over; the error of stdout comes first.\<close>

definition portable_output ::
  "nat \<Rightarrow> int option \<Rightarrow> bool \<Rightarrow> (stream \<Rightarrow> (string + string) list) \<Rightarrow> process_error + process_output" where
  "portable_output maximum code timed_out pipes =
     (case read_capped maximum (pipes Stdout) [] False of
        Inl e \<Rightarrow> Inl e
      | Inr (out, out_cut) \<Rightarrow>
          (case read_capped maximum (pipes Stderr) [] False of
             Inl e \<Rightarrow> Inl e
           | Inr (errs, errs_cut) \<Rightarrow>
               Inr \<lparr>po_exit_code = code, po_stdout = from_utf8_lossy out, po_stderr = from_utf8_lossy errs,
                 po_timed_out = timed_out, po_stdout_truncated = out_cut, po_stderr_truncated = errs_cut\<rparr>))"

text \<open>\<open>run_command\<close>, with the readings of the clock; the limit of the wait is at least a millisecond.\<close>

definition run_command_portable :: "command \<Rightarrow> u64 \<Rightarrow> nat \<Rightarrow> nat list \<Rightarrow> process_output portable" where
  "run_command_portable command timeout maximum clock =
     and_then portable_cancelled (\<lambda>cancelled.
     if cancelled then err Process_Cancelled
     else and_then (reads px_spawn) (\<lambda>refused. case refused of
       Some e \<Rightarrow> err (Process_Io e)
     | None \<Rightarrow>
         and_then (portable_did (Portable_spawned command)) (\<lambda>_.
         case next_reading clock of (start, clock) \<Rightarrow>
         and_then (wait_child start (unat (max timeout 1)) 0 clock) (\<lambda>((code, timed_out), clock).
         case next_reading clock of (cleanup, clock) \<Rightarrow>
         and_then (wait_readers cleanup 0 clock) (\<lambda>_.
         and_then (reads px_reads) (\<lambda>pipes.
         case portable_output maximum code timed_out pipes of Inl e \<Rightarrow> err e | Inr out \<Rightarrow> ok out))))))"

section \<open>What it returns\<close>

lemma portable_reads_kept:
  "preserves (\<lambda>w. px_reads w = p) (wait_child start limit n clock)"
  "preserves (\<lambda>w. px_reads w = p) (wait_readers start m clock')"
proof -
  have step: "preserves (\<lambda>w. px_reads w = p) (portable_did s)" "preserves (\<lambda>w. px_reads w = p) portable_cancelled" for s
    by (auto simp: preserves_def triple_def portable_did_def portable_cancelled_def writes_def)
  have io: "preserves (\<lambda>w. px_reads w = p) (io_value r)" for r :: "string + 'b"
    unfolding io_value_def by (intro frame)
  have kill: "preserves (\<lambda>w. px_reads w = p) kill_child"
    unfolding kill_child_def by (intro frame step io)
  show "preserves (\<lambda>w. px_reads w = p) (wait_child start limit n clock)"
  proof (induction clock arbitrary: n)
    case Nil
    show ?case by (subst wait_child.simps) (auto intro!: frame step io kill)
  next
    case (Cons now later)
    show ?case by (subst wait_child.simps) (auto intro!: frame step io kill Cons)
  qed
  show "preserves (\<lambda>w. px_reads w = p) (wait_readers start m clock')"
  proof (induction clock' arbitrary: m)
    case Nil
    show ?case by (subst wait_readers.simps) (auto intro!: frame)
  next
    case (Cons now later)
    show ?case by (subst wait_readers.simps) (auto intro!: frame Cons)
  qed
qed

text \<open>As on unix, the output is the first bytes of each pipe, and is marked truncated exactly when there were more.\<close>

lemma portable_output_exact:
  assumes "run_command_portable command timeout maximum clock w = (Inr out, w')"
  shows "po_stdout out = from_utf8_lossy (take maximum (bytes_read (px_reads w Stdout))) \<and>
    po_stderr out = from_utf8_lossy (take maximum (bytes_read (px_reads w Stderr))) \<and>
    po_stdout_truncated out = (maximum < length (bytes_read (px_reads w Stdout))) \<and>
    po_stderr_truncated out = (maximum < length (bytes_read (px_reads w Stderr)))"
proof -
  have lifted: "(case r of Inl e \<Rightarrow> err e | Inr a \<Rightarrow> ok a) u = (Inr b, u') \<longleftrightarrow> r = Inr b \<and> u' = u"
    for r :: "process_error + 'b" and u u' :: portable_world and b
    by (auto simp: ok_def err_def split: sum.split)
  from assms obtain start limit clock1 code timed_out clock2 cleanup clock3 w1 w2 w3 where
    child: "wait_child start limit 0 clock1 w1 = (Inr ((code, timed_out), clock2), w2)" "px_reads w1 = px_reads w" and
    readers: "wait_readers cleanup 0 clock3 w2 = (Inr (), w3)" and
    out: "portable_output maximum code timed_out (px_reads w3) = Inr out"
    by (auto simp: run_command_portable_def and_then_value reads_def portable_cancelled_def portable_did_def writes_def
        case_prod_beta lifted err_def split: if_splits option.splits)
  have "px_reads w3 = px_reads w"
    using preservesD [OF portable_reads_kept(1) child(2) child(1)] preservesD [OF portable_reads_kept(2) _ readers] by blast
  with out have "portable_output maximum code timed_out (px_reads w) = Inr out" by simp
  then obtain o1 c1 o2 c2 where "read_capped maximum (px_reads w Stdout) [] False = Inr (o1, c1)"
    "read_capped maximum (px_reads w Stderr) [] False = Inr (o2, c2)"
    "po_stdout out = from_utf8_lossy o1" "po_stderr out = from_utf8_lossy o2"
    "po_stdout_truncated out = c1" "po_stderr_truncated out = c2"
    by (auto simp: portable_output_def split: sum.splits prod.splits)
  then show ?thesis using read_capped_exact [of maximum _ "[]" False] by fastforce
qed

end
