(* ===== verification/Eval.thy ===== *)
theory Eval
  imports Program TaskAcceptance
begin

text \<open>
  The evaluation driver (crates/eval/src/lib.rs): a fixture is run either by one turn of the runtime or as a
  task whose journal asks for turns until its checks pass, its attempts are used up or it is blocked, and the
  run is summed up in a report. The codecs, what is read from the workspace after a turn, and the turn that is
  dropped at the boundary of an execution (the fault fixtures) are parameters. Times are left out.
\<close>

section \<open>Data\<close>

record fixture =
  fx_version :: u32
  fx_id :: string
  fx_split :: string
  fx_objective :: string
  fx_initial :: string
  fx_expected :: string
  fx_proposals :: "string list"
  fx_max_attempts :: u32
  fx_deny_write :: bool
  fx_interrupt_execution :: bool

datatype eval_mode = Core_Only | Task_Mode

record run_report =
  rp_fixture :: fixture
  rp_mode :: eval_mode
  rp_model :: string
  rp_reported_success :: bool
  rp_verified_success :: bool
  rp_false_completion :: bool
  rp_attempts :: u32
  rp_model_iterations :: nat
  rp_tokens :: token_usage
  rp_live_model :: bool
  rp_interventions :: u32
  rp_denied_receipts :: nat
  rp_unknown_receipts :: nat
  rp_task_status :: "acceptance_status option"
  rp_turn_errors :: "string list"

text \<open>What an attempt writes to its evidence file.\<close>

record attempt_file =
  ef_turn_id :: turn_id
  ef_artifacts :: "artifact_ref list"
  ef_checks :: "check_evidence list"
  ef_receipts :: "tool_receipt list"

text \<open>The variables of \<open>run\<close>; the evidence files written so far are kept in order.\<close>

record 'w eval_state =
  el_runtime :: "(jsonl_store, 'w) rstate"
  el_task :: "task_journal option"
  el_attempts :: u32
  el_normal_completion :: bool
  el_verified_success :: bool
  el_turn_errors :: "string list"
  el_evidence :: "attempt_file list"
  el_host :: host

record 'w eval_outside =
  eo_model :: "model_request \<Rightarrow> 'w \<Rightarrow> (model_error + model_response) \<times> 'w"
  eo_tool :: "string + 'w tool" \<comment> \<open>\<open>WriteFileTool::new\<close> on the workspace\<close>
  eo_source :: "'w \<Rightarrow> string + string" \<comment> \<open>\<open>read_to_string(workspace/lib.rs)\<close>\<close>
  eo_dropped :: "turn_id \<Rightarrow> string \<Rightarrow> (jsonl_store, 'w) rstate \<Rightarrow> bool \<times> (jsonl_store, 'w) rstate"
  eo_message_text :: "transcript_message \<Rightarrow> string + string"
  eo_debug :: "string \<Rightarrow> string"
  eo_event :: "event_envelope \<Rightarrow> string + string"
  eo_decode :: "string \<Rightarrow> event_envelope decoded"
  eo_journal :: journal_encode
  eo_fixture :: "fixture \<Rightarrow> string + string"
  eo_attempt :: "attempt_file \<Rightarrow> string + string"
  eo_report :: "run_report \<Rightarrow> string + string"

text \<open>An error's text; \<open>None\<close> is a loop that was given too few rounds.\<close>

type_synonym ('w, 'a) evaluating = "('w eval_state, string option, 'a) act"

fun task_error_text :: "task_error \<Rightarrow> string" where
  "task_error_text (Task_Io e) = ''task journal I/O: '' @ e"
| "task_error_text (Task_Json e) = ''task journal JSON: '' @ e"
| "task_error_text (Task_Invalid e) = ''invalid task transition or journal: '' @ e"

section \<open>The scripted model\<close>

text \<open>The model's environment: its calls so far, the host that generates identifiers, and the rest.\<close>

definition scripted_proposal :: "fixture \<Rightarrow> nat \<Rightarrow> string option" where
  "scripted_proposal fx n =
     (if n < length (fx_proposals fx) then Some (fx_proposals fx ! n)
      else if fx_proposals fx = [] then None else Some (last (fx_proposals fx)))"

definition ScriptedModel ::
  "fixture \<Rightarrow> model_request \<Rightarrow> nat \<times> host \<times> 'v \<Rightarrow> (model_error + model_response) \<times> (nat \<times> host \<times> 'v)" where
  "ScriptedModel fx request env =
     (case env of (call, h, w) \<Rightarrow>
        if call mod 2 = 1 then (Inr (response_text ''The requested change is complete.''), (Suc call, h, w))
        else case scripted_proposal fx (call div 2) of
          None \<Rightarrow> (Inl (model_failure ''empty fixture script'' False), (Suc call, h, w))
        | Some content \<Rightarrow>
            (case ToolCall_new ''write_file''
                (jobject [(''path'', JString ''lib.rs''), (''content'', JString content)]) h of
               (tool_call, h) \<Rightarrow> (Inr (response_tool_calls [tool_call]), (Suc call, h, w))))"

section \<open>Before the run\<close>

definition eval_fail :: "string \<Rightarrow> ('s, string option, 'a) act" where
  "eval_fail e = err (Some e)"

definition check_fixture :: "fixture \<Rightarrow> bool \<Rightarrow> string option" where
  "check_fixture fx live =
     (if fx_version fx \<noteq> 1 \<or> fx_proposals fx = [] \<or> fx_max_attempts fx = 0
      then Some ''unsupported or invalid fixture''
      else if live \<and> fx_interrupt_execution fx
      then Some ''interruption injection requires the synchronous scripted model''
      else None)"

definition eval_spec :: "fixture \<Rightarrow> task_spec" where
  "eval_spec fx =
     \<lparr>sp_objective = fx_objective fx,
      sp_criteria = [\<lparr>cr_id = ''source-content-v1'', cr_artifact_id = ''lib.rs'', cr_expected = fx_expected fx\<rparr>],
      sp_budget = \<lparr>max_attempts = fx_max_attempts fx\<rparr>\<rparr>"

definition on_disk_of_run :: "(JsonlStore.disk, store_error, 'a) act \<Rightarrow> (JsonlStore.disk, string option, 'a) act" where
  "on_disk_of_run m = map_err (\<lambda>e. Some (io_message e)) m"

text \<open>\<open>std::fs::write\<close> of what an encoder gives\<close>

definition write_encoded :: "string \<Rightarrow> string + string \<Rightarrow> (JsonlStore.disk, string option, unit) act" where
  "write_encoded path encoded_text =
     (case encoded_text of
        Inl e \<Rightarrow> eval_fail e
      | Inr bytes \<Rightarrow>
          on_disk_of_run (and_then JsonlStore.disk_io (\<lambda>_. and_then (writes (put_file path [])) (\<lambda>_. write_file path bytes))))"

text \<open>The directories, the files and the two logs of a run; a directory that is there is an error of
  \<open>create_dir\<close>.\<close>

definition eval_setup ::
  "'w eval_outside \<Rightarrow> fixture \<Rightarrow> eval_mode \<Rightarrow> string \<Rightarrow> (JsonlStore.disk, string option, task_journal option \<times> jsonl_store) act" where
  "eval_setup eo fx mode dir =
     and_then (on_disk_of_run JsonlStore.disk_io) (\<lambda>_.
     and_then (on_disk_of_run JsonlStore.disk_io) (\<lambda>_.
     and_then (write_encoded (dir @ ''/workspace/lib.rs'') (Inr (fx_initial fx))) (\<lambda>_.
     and_then (write_encoded (dir @ ''/fixture.json'') (eo_fixture eo fx)) (\<lambda>_.
     and_then (case mode of
         Core_Only \<Rightarrow> ok None
       | Task_Mode \<Rightarrow> and_then (map_err (\<lambda>e. Some (task_error_text e))
           (journal_create (eo_journal eo) (dir @ ''/task.jsonl'') (eval_spec fx))) (\<lambda>j. ok (Some j))) (\<lambda>task.
     and_then (map_err (\<lambda>e. Some (store_error_text e)) (jsonl_open (eo_decode eo) (dir @ ''/events.jsonl''))) (\<lambda>store.
     ok (task, store)))))))"

definition eval_policy :: "fixture \<Rightarrow> capability_policy" where
  "eval_policy fx = grant deny_by_default ''write_file'' (if fx_deny_write fx then Deny else Allow)"

definition eval_runtime :: "'w eval_outside \<Rightarrow> fixture \<Rightarrow> string \<Rightarrow> 'w tool_registry \<Rightarrow> (jsonl_store, 'w) runtime" where
  "eval_runtime eo fx dir tools =
     with_config (with_executor
       (runtime_new (eo_model eo) (jsonl_append (eo_event eo)) jsonl_load
         (\<lambda>i w. (layered_compile (eo_message_text eo) layered_new i, w)) tools
         (capability_access (eval_policy fx)) (\<lambda>w. (False, w)))
       DirectExecutor)
       (default_config\<lparr>max_model_iterations := 4, config_workspace := Some (dir @ ''/workspace'')\<rparr>)"

section \<open>One attempt\<close>

definition on_eval_runtime :: "(jsonl_store, 'w, 'a) ract \<Rightarrow> (('w eval_state), runtime_error, 'a) act" where
  "on_eval_runtime m = zoom el_runtime (\<lambda>x s. s\<lparr>el_runtime := x\<rparr>) m"

definition runtime_part :: "(jsonl_store, 'w, 'a) ract \<Rightarrow> ('w, 'a) evaluating" where
  "runtime_part m = map_err (\<lambda>e. Some (runtime_error_text e)) (on_eval_runtime m)"

text \<open>\<open>if let Some(task) = &mut task { .. }\<close>\<close>

definition on_journal :: "unit journal_act \<Rightarrow> ('w, unit) evaluating" where
  "on_journal m s =
     (case el_task s of
        None \<Rightarrow> (Inr (), s)
      | Some j \<Rightarrow>
          (case m j of
             (Inl e, j) \<Rightarrow> (Inl (Some (task_error_text e)), s\<lparr>el_task := Some j\<rparr>)
           | (Inr _, j) \<Rightarrow> (Inr (), s\<lparr>el_task := Some j\<rparr>)))"

definition eval_turn_id :: "('w, turn_id) evaluating" where
  "eval_turn_id s =
     (case TurnId_new (r_host (el_runtime s)) of
        (u, h) \<Rightarrow> (Inr u, s\<lparr>el_runtime := (el_runtime s)\<lparr>r_host := h\<rparr>\<rparr>))"

definition add_turn_error :: "string \<Rightarrow> ('w, unit) evaluating" where
  "add_turn_error e = writes (\<lambda>s. s\<lparr>el_turn_errors := el_turn_errors s @ [e]\<rparr>)"

text \<open>The turn that is dropped when its executor has been entered, and what follows it.\<close>

definition drop_turn :: "'w eval_outside \<Rightarrow> turn_id \<Rightarrow> string \<Rightarrow> ('w, unit) evaluating" where
  "drop_turn eo u input s =
     (case eo_dropped eo u input (el_runtime s) of
        (reached, r) \<Rightarrow>
          (if reached then Inr () else Inl (Some ''fault fixture failed to reach execution boundary''),
           s\<lparr>el_runtime := r\<rparr>))"

definition interrupted_turn ::
  "'w eval_outside \<Rightarrow> (jsonl_store, 'w) runtime \<Rightarrow> thread_id \<Rightarrow> turn_id \<Rightarrow> string \<Rightarrow> ('w, unit) evaluating" where
  "interrupted_turn eo rt thread u input =
     and_then (drop_turn eo u input) (\<lambda>_.
     and_then (runtime_part (recover rt thread)) (\<lambda>_.
     add_turn_error ''injected interruption at execution boundary; recovered without replay''))"

definition completed_turn ::
  "(jsonl_store, 'w) runtime \<Rightarrow> thread_id \<Rightarrow> turn_id \<Rightarrow> string \<Rightarrow> ('w, unit) evaluating" where
  "completed_turn rt thread u input =
     attempt (on_eval_runtime (run_turn_with_id rt thread u input)) (\<lambda>result.
       case result of
         Inr _ \<Rightarrow> writes (\<lambda>s. s\<lparr>el_normal_completion := True\<rparr>)
       | Inl e \<Rightarrow>
           and_then (writes (\<lambda>s. s\<lparr>el_normal_completion := False\<rparr>)) (\<lambda>_.
           and_then (add_turn_error (runtime_error_text e)) (\<lambda>_.
           and_then (runtime_part (recover rt thread)) (\<lambda>_. ok ()))))"

definition turn_receipts :: "turn_id \<Rightarrow> event_envelope list \<Rightarrow> tool_receipt list" where
  "turn_receipts u events =
     List.map_filter (\<lambda>v. case ev_event v of ToolReceiptRecorded r \<Rightarrow> Some r | _ \<Rightarrow> None)
       (filter (\<lambda>v. ev_turn_id v = Some u) events)"

definition load_run_events :: "thread_id \<Rightarrow> ('w, event_envelope list) evaluating" where
  "load_run_events thread s =
     (case jsonl_load thread (r_store (el_runtime s)) of
        Inl e \<Rightarrow> (Inl (Some (store_error_text e)), s)
      | Inr events \<Rightarrow> (Inr events, s))"

definition read_source :: "'w eval_outside \<Rightarrow> ('w, string) evaluating" where
  "read_source eo s =
     (case eo_source eo (r_env (el_runtime s)) of Inl e \<Rightarrow> (Inl (Some e), s) | Inr c \<Rightarrow> (Inr c, s))"

definition eval_write :: "string + string \<Rightarrow> ('w, unit) evaluating" where
  "eval_write encoded_text s =
     (case encoded_text of
        Inl e \<Rightarrow> (Inl (Some e), s)
      | Inr _ \<Rightarrow>
          (case io_step (el_host s) of
             (Io_ok, h) \<Rightarrow> (Inr (), s\<lparr>el_host := h\<rparr>)
           | (Io_error e n, h) \<Rightarrow> (Inl (Some e), s\<lparr>el_host := h\<rparr>)))"

definition collect_evidence ::
  "'w eval_outside \<Rightarrow> fixture \<Rightarrow> thread_id \<Rightarrow> turn_id \<Rightarrow> ('w, attempt_file) evaluating" where
  "collect_evidence eo fx thread u =
     and_then (load_run_events thread) (\<lambda>events.
     and_then (read_source eo) (\<lambda>content.
     let receipts = turn_receipts u events;
         artifacts = [\<lparr>af_id = ''lib.rs'', af_content = content\<rparr>];
         checks = gate_check (eo_debug eo) (eval_spec fx) artifacts;
         evidence = \<lparr>ef_turn_id = u, ef_artifacts = artifacts, ef_checks = checks, ef_receipts = receipts\<rparr>
     in and_then (writes (\<lambda>s. s\<lparr>el_verified_success :=
            list_all ce_passed checks \<and> \<not> list_ex (\<lambda>r. tr_status r = Receipt_Unknown) receipts\<rparr>)) (\<lambda>_.
        and_then (eval_write (eo_attempt eo evidence)) (\<lambda>_.
        and_then (writes (\<lambda>s. s\<lparr>el_evidence := el_evidence s @ [evidence]\<rparr>)) (\<lambda>_. ok evidence)))))"

text \<open>The decision after an attempt: the next input, or none to leave the loop.\<close>

definition decide_next ::
  "'w eval_outside \<Rightarrow> fixture \<Rightarrow> attempt_file \<Rightarrow> ('w, string option) evaluating" where
  "decide_next eo fx evidence =
     and_then (reads el_task) (\<lambda>task.
     if task = None then ok None
     else
       and_then (on_journal (verify_attempt (eo_debug eo) (eo_journal eo) (ef_artifacts evidence) (ef_receipts evidence)))
       (\<lambda>_. and_then (reads (\<lambda>s. map_option tj_state (el_task s))) (\<lambda>state.
       and_then (reads el_normal_completion) (\<lambda>normal.
       case state of
         None \<Rightarrow> ok None
       | Some state \<Rightarrow>
           if ta_status state \<noteq> NeedsRepair then ok None
           else if \<not> normal
           then and_then (on_journal (block_task (eo_debug eo) (eo_journal eo)
               ''Core turn failed; host inspection required before further generation'')) (\<lambda>_. ok None)
           else ok (Some (fx_objective fx @ [newline] @ ''Verification feedback:'' @ [newline] @
               join [newline] (ta_remaining_work state)))))))"

definition eval_attempt ::
  "'w eval_outside \<Rightarrow> fixture \<Rightarrow> (jsonl_store, 'w) runtime \<Rightarrow> thread_id \<Rightarrow> string \<Rightarrow> ('w, string option) evaluating" where
  "eval_attempt eo fx rt thread input =
     and_then eval_turn_id (\<lambda>u.
     and_then (on_journal (start_attempt (eo_debug eo) (eo_journal eo) u)) (\<lambda>_.
     and_then (writes (\<lambda>s. s\<lparr>el_attempts := el_attempts s + 1\<rparr>)) (\<lambda>_.
     and_then (if fx_interrupt_execution fx then interrupted_turn eo rt thread u input
               else completed_turn rt thread u input) (\<lambda>_.
     and_then (collect_evidence eo fx thread u) (decide_next eo fx)))))"

fun eval_loop ::
  "'w eval_outside \<Rightarrow> fixture \<Rightarrow> (jsonl_store, 'w) runtime \<Rightarrow> thread_id \<Rightarrow> nat \<Rightarrow> string \<Rightarrow> ('w, unit) evaluating" where
  "eval_loop eo fx rt thread 0 input = err None"
| "eval_loop eo fx rt thread (Suc n) input =
     and_then (eval_attempt eo fx rt thread input) (\<lambda>continue.
     case continue of None \<Rightarrow> ok () | Some input \<Rightarrow> eval_loop eo fx rt thread n input)"

section \<open>The report\<close>

definition is_receipt_of :: "receipt_status \<Rightarrow> runtime_event \<Rightarrow> bool" where
  "is_receipt_of status e = (case e of ToolReceiptRecorded r \<Rightarrow> tr_status r = status | _ \<Rightarrow> False)"

definition add_tokens :: "event_envelope \<Rightarrow> token_usage \<Rightarrow> token_usage" where
  "add_tokens v tokens =
     (case ev_event v of
        AssistantMessage _ _ _ usage \<Rightarrow>
          \<lparr>input_tokens = input_tokens tokens + input_tokens usage,
           output_tokens = output_tokens tokens + output_tokens usage\<rparr>
      | _ \<Rightarrow> tokens)"

definition make_report ::
  "fixture \<Rightarrow> eval_mode \<Rightarrow> string \<Rightarrow> bool \<Rightarrow> event_envelope list \<Rightarrow> 'w eval_state \<Rightarrow> run_report" where
  "make_report fx mode model live events s =
     (let status = map_option (\<lambda>j. ta_status (tj_state j)) (el_task s);
          denied = length (filter (\<lambda>v. is_receipt_of Receipt_Denied (ev_event v)) events);
          unknown = length (filter (\<lambda>v. is_receipt_of Receipt_Unknown (ev_event v)) events);
          reported = (case status of None \<Rightarrow> el_normal_completion s | Some t \<Rightarrow> t = Accepted)
      in \<lparr>rp_fixture = fx, rp_mode = mode, rp_model = model, rp_reported_success = reported,
          rp_verified_success = el_verified_success s,
          rp_false_completion = (reported \<and> \<not> el_verified_success s), rp_attempts = el_attempts s,
          rp_model_iterations =
            length (filter (\<lambda>v. case ev_event v of ModelRequestStarted _ \<Rightarrow> True | _ \<Rightarrow> False) events),
          rp_tokens = fold add_tokens events no_usage, rp_live_model = live,
          rp_interventions = (if 0 < unknown \<or> status = Some Task_Blocked then 1 else 0),
          rp_denied_receipts = denied, rp_unknown_receipts = unknown, rp_task_status = status,
          rp_turn_errors = el_turn_errors s\<rparr>)"

section \<open>The run\<close>

definition first_input :: "fixture \<Rightarrow> string" where
  "first_input fx = fx_objective fx @ [newline] @ ''Edit lib.rs. Required exact source contents:'' @ [newline] @
     fx_expected fx"

text \<open>From the first turn to the report; a task has at most \<open>max_attempts\<close> attempts.\<close>

definition eval_drive ::
  "'w eval_outside \<Rightarrow> fixture \<Rightarrow> eval_mode \<Rightarrow> string \<Rightarrow> bool \<Rightarrow> (jsonl_store, 'w) runtime \<Rightarrow> ('w, run_report) evaluating"
where
  "eval_drive eo fx mode model live rt =
     and_then (runtime_part (start_thread rt)) (\<lambda>thread.
     and_then (eval_loop eo fx rt thread (unat (fx_max_attempts fx)) (first_input fx)) (\<lambda>_.
     and_then (load_run_events thread) (\<lambda>events.
     and_then (reads (make_report fx mode model live events)) (\<lambda>report.
     and_then (eval_write (eo_report eo report)) (\<lambda>_. ok report)))))"

text \<open>The whole of \<open>run\<close>, with the state it ends in, if it came to have one.\<close>

definition eval_run ::
  "'w eval_outside \<Rightarrow> fixture \<Rightarrow> eval_mode \<Rightarrow> string \<Rightarrow> string \<Rightarrow> bool \<Rightarrow> JsonlStore.disk \<Rightarrow> 'w \<Rightarrow>
    (string option + run_report) \<times> 'w eval_state option" where
  "eval_run eo fx mode dir model live d w =
     (case check_fixture fx live of
        Some e \<Rightarrow> (Inl (Some e), None)
      | None \<Rightarrow>
          (case eval_setup eo fx mode dir d of
             (Inl e, d) \<Rightarrow> (Inl e, None)
           | (Inr (task, store), d) \<Rightarrow>
               (case eo_tool eo of
                  Inl e \<Rightarrow> (Inl (Some e), None)
                | Inr tool \<Rightarrow>
                    (case register_arc tool [] of
                       Inl e \<Rightarrow> (Inl (Some (registry_error_text e)), None)
                     | Inr tools \<Rightarrow>
                         (case eval_drive eo fx mode model live (eval_runtime eo fx dir tools)
                             \<lparr>el_runtime = \<lparr>r_store = store, r_env = w, r_notified = [], r_active = [],
                                r_active_poisoned = False, r_host = d_host d\<rparr>,
                              el_task = task, el_attempts = 0, el_normal_completion = False,
                              el_verified_success = False, el_turn_errors = [], el_evidence = [], el_host = d_host d\<rparr> of
                            (r, s) \<Rightarrow> (r, Some s))))))"

section \<open>The command line\<close>

text \<open>crates/eval/src/main.rs, built with the live feature: the arguments, the configuration of live runs, and
  the runs that are made, each fixture without and with a task.\<close>

record live_config =
  lv_endpoint :: string
  lv_model_snapshot :: string
  lv_revision :: string
  lv_timeout_seconds :: u64

definition default_timeout_seconds :: u64 where
  "default_timeout_seconds = 30"

definition validate_live :: "live_config \<Rightarrow> string + unit" where
  "validate_live c =
     (if blank (lv_model_snapshot c) \<or> blank (lv_revision c) \<or> list_ex (\<lambda>x. x \<in> set ''@?#'') (lv_endpoint c)
      then Inl ''live config needs a pinned model/revision and an endpoint without embedded credentials or query parameters''
      else if \<not> (1 \<le> lv_timeout_seconds c \<and> lv_timeout_seconds c \<le> 300)
      then Inl ''live timeout_seconds must be between 1 and 300''
      else Inr ())"

text \<open>The output directory and the file of the live configuration so far.\<close>

fun eval_arguments :: "string list \<Rightarrow> string option \<Rightarrow> string option \<Rightarrow> string + string \<times> string option" where
  "eval_arguments [] output live =
     (case output of None \<Rightarrow> Inl ''--output NEW_DIRECTORY is required'' | Some dir \<Rightarrow> Inr (dir, live))"
| "eval_arguments (arg # rest) output live =
     (if arg = ''--output''
      then (case rest of
          [] \<Rightarrow> Inl ''missing output directory'' | v # rest \<Rightarrow> eval_arguments rest (Some v) live)
      else if arg = ''--live-config''
      then (case rest of
          [] \<Rightarrow> Inl ''missing live config'' | v # rest \<Rightarrow> eval_arguments rest output (Some v))
      else Inl ''usage: agent-harness-eval --output NEW_DIRECTORY [--live-config CONFIG.json]'')"

definition live_provider :: "live_config \<Rightarrow> string option \<Rightarrow> openai_config" where
  "live_provider c api_key =
     (openai_config_new (lv_endpoint c) (lv_model_snapshot c))\<lparr>
       oc_api_key := api_key, oc_timeout_seconds := lv_timeout_seconds c,
       oc_extra_body := bt_insert ''max_completion_tokens'' (JUint 1024)
         (bt_insert ''temperature'' (JUint 0) (oc_extra_body (openai_config_new (lv_endpoint c) (lv_model_snapshot c))))\<rparr>"

definition skipped_fixtures :: "bool \<Rightarrow> fixture list \<Rightarrow> string list" where
  "skipped_fixtures live fxs = map fx_id (filter (\<lambda>fx. live \<and> fx_interrupt_execution fx) fxs)"

definition planned_runs :: "bool \<Rightarrow> string \<Rightarrow> fixture list \<Rightarrow> (fixture \<times> eval_mode \<times> string) list" where
  "planned_runs live output fxs =
     concat (map (\<lambda>fx. [(fx, Core_Only, output @ ''/'' @ fx_id fx @ ''-core''), (fx, Task_Mode, output @ ''/'' @ fx_id fx @ ''-task'')])
       (filter (\<lambda>fx. \<not> (live \<and> fx_interrupt_execution fx)) fxs))"

text \<open>A run with the script, which starts at its first call.\<close>

definition run_scripted ::
  "(nat \<times> host \<times> 'v) eval_outside \<Rightarrow> fixture \<Rightarrow> eval_mode \<Rightarrow> string \<Rightarrow> JsonlStore.disk \<Rightarrow> host \<Rightarrow> 'v \<Rightarrow>
    (string option + run_report) \<times> (nat \<times> host \<times> 'v) eval_state option" where
  "run_scripted eo fx mode dir d h v =
     eval_run (eo\<lparr>eo_model := ScriptedModel fx\<rparr>) fx mode dir ''scripted-v1'' False d (0, h, v)"

record eval_summary =
  sm_live_config :: bool
  sm_timeout_seconds :: "u64 option"
  sm_skipped :: "string list"
  sm_runs :: "run_report list"

text \<open>What \<open>main\<close> uses of the outside: the live configuration's file, the fixtures, the runs and its own files.\<close>

record 'v eval_program =
  ep_config :: "string \<Rightarrow> string + live_config"
  ep_fixtures :: "string + fixture list"
  ep_create_dir :: "string \<Rightarrow> ('v, string option, unit) act"
  ep_write_config :: "string \<Rightarrow> live_config \<Rightarrow> ('v, string option, unit) act"
  ep_run :: "live_config option \<Rightarrow> fixture \<Rightarrow> eval_mode \<Rightarrow> string \<Rightarrow> ('v, string option, run_report) act"
  ep_write_summary :: "string \<Rightarrow> eval_summary \<Rightarrow> ('v, string option, unit) act"

text \<open>The first run that fails ends the program.\<close>

fun eval_runs ::
  "(fixture \<Rightarrow> eval_mode \<Rightarrow> string \<Rightarrow> ('v, string option, run_report) act) \<Rightarrow>
    (fixture \<times> eval_mode \<times> string) list \<Rightarrow> ('v, string option, run_report list) act" where
  "eval_runs run [] = ok []"
| "eval_runs run ((fx, mode, dir) # plan) =
     and_then (run fx mode dir) (\<lambda>report. and_then (eval_runs run plan) (\<lambda>reports. ok (report # reports)))"

definition read_live :: "(string \<Rightarrow> string + live_config) \<Rightarrow> string option \<Rightarrow> string + live_config option" where
  "read_live config_of path =
     (case path of
        None \<Rightarrow> Inr None
      | Some p \<Rightarrow>
          (case config_of p of
             Inl e \<Rightarrow> Inl e
           | Inr c \<Rightarrow> (case validate_live c of Inl e \<Rightarrow> Inl e | Inr _ \<Rightarrow> Inr (Some c))))"

definition eval_main :: "'v eval_program \<Rightarrow> string list \<Rightarrow> ('v, string option, eval_summary) act" where
  "eval_main ep args =
     (case eval_arguments args None None of
        Inl e \<Rightarrow> eval_fail e
      | Inr (output, live) \<Rightarrow>
          (case read_live (ep_config ep) live of
             Inl e \<Rightarrow> eval_fail e
           | Inr config \<Rightarrow>
               and_then (ep_create_dir ep output) (\<lambda>_.
               and_then (case config of None \<Rightarrow> ok () | Some c \<Rightarrow> ep_write_config ep (output @ ''/live-config.json'') c) (\<lambda>_.
               case ep_fixtures ep of
                 Inl e \<Rightarrow> eval_fail e
               | Inr fxs \<Rightarrow>
                   and_then (eval_runs (ep_run ep config) (planned_runs (live \<noteq> None) output fxs)) (\<lambda>reports.
                   let summary = \<lparr>sm_live_config = (live \<noteq> None), sm_timeout_seconds = map_option lv_timeout_seconds config,
                         sm_skipped = skipped_fixtures (live \<noteq> None) fxs, sm_runs = reports\<rparr>
                   in and_then (ep_write_summary ep (output @ ''/summary.json'') summary) (\<lambda>_. ok summary))))))"

end
