(* ===== verification/EvalProperties.thy ===== *)
theory EvalProperties
  imports Eval AcceptanceProperties
begin

text \<open>
  The properties of the evaluation driver: a task that is reported as done is done, within its attempts, and a
  run always comes to its end.
\<close>

section \<open>What the turn leaves alone\<close>

definition task_view where
  "task_view s = (map_option tj_state (el_task s), el_attempts s)"

text \<open>Every error has a text.\<close>

definition told :: "('s, string option, 'a) act \<Rightarrow> bool" where
  "told m \<longleftrightarrow> (\<forall>s. fst (m s) \<noteq> Inl None)"

named_theorems tells

lemma toldD: "told m \<Longrightarrow> m s = (Inl e, s') \<Longrightarrow> e \<noteq> None"
  by (metis fst_conv told_def)

lemma told_basic [tells]:
  "told (ok a)" "told (reads f)" "told (writes g)" "told (eval_fail e)" "told (map_err (\<lambda>e. Some (h e)) m)"
  by (auto simp: told_def act_defs eval_fail_def split: prod.split sum.split)

lemma told_and_then [tells]: "told m \<Longrightarrow> (\<And>a. told (k a)) \<Longrightarrow> told (and_then m k)"
  by (clarsimp simp: told_def and_then_def split: prod.split sum.split) (metis fst_conv not_None_eq)

lemma told_attempt [tells]: "(\<And>r. told (k r)) \<Longrightarrow> told (attempt m k)"
  by (auto simp: told_def attempt_def split: prod.split)

lemma told_cases [tells]:
  "(\<And>x. told (j x)) \<Longrightarrow> (\<And>x. told (l x)) \<Longrightarrow> told (case y of Inl x \<Rightarrow> j x | Inr x \<Rightarrow> l x)"
  "told m \<Longrightarrow> (\<And>x. told (n x)) \<Longrightarrow> told (case z of None \<Rightarrow> m | Some x \<Rightarrow> n x)"
  "told m \<Longrightarrow> told m' \<Longrightarrow> told (if c then m else m')"
  by (auto split: sum.split option.split)

lemma told_parts [tells]:
  "told (runtime_part m)" "told (on_journal w)" "told eval_turn_id" "told (add_turn_error e)"
  "told (drop_turn eo u input)" "told (load_run_events thread)" "told (read_source eo)" "told (eval_write t)"
  by (auto simp: told_def runtime_part_def on_journal_def eval_turn_id_def add_turn_error_def drop_turn_def load_run_events_def
      read_source_def eval_write_def act_defs split: prod.split sum.split option.split io_outcome.split)

lemma told_turn [tells]: "told (completed_turn rt thread u input)" "told (interrupted_turn eo rt thread u input)"
  unfolding completed_turn_def interrupted_turn_def by (intro tells)+

lemma told_collect [tells]: "told (collect_evidence eo fx thread u)"
  unfolding collect_evidence_def Let_def by (intro tells)

lemma told_decide [tells]: "told (decide_next eo fx evidence)"
  unfolding decide_next_def by (intro tells)

lemma told_eval_attempt [tells]: "told (eval_attempt eo fx rt thread input)"
  unfolding eval_attempt_def by (intro tells)

text \<open>The frame.\<close>

lemma task_view_on_runtime [frame]: "preserves (\<lambda>s. task_view s = v) (on_eval_runtime m)"
  by (auto simp: preserves_def triple_def on_eval_runtime_def zoom_def task_view_def split: prod.split sum.split)

lemma task_view_map_err [frame]: "preserves I m \<Longrightarrow> preserves I (map_err f m)"
  unfolding map_err_def by (intro frame)

lemma task_view_kept [frame]:
  "preserves (\<lambda>s. task_view s = v) (runtime_part m)" "preserves (\<lambda>s. task_view s = v) eval_turn_id"
  "preserves (\<lambda>s. task_view s = v) (add_turn_error e)"
  "preserves (\<lambda>s. task_view s = v) (writes (\<lambda>s. s\<lparr>el_normal_completion := b\<rparr>))"
proof -
  show "preserves (\<lambda>s. task_view s = v) (runtime_part m)" unfolding runtime_part_def by (intro frame)
  show "preserves (\<lambda>s. task_view s = v) eval_turn_id"
    by (auto simp: preserves_def triple_def eval_turn_id_def task_view_def split: prod.split)
  show "preserves (\<lambda>s. task_view s = v) (add_turn_error e)"
    unfolding add_turn_error_def by (intro preserves_writes) (simp add: task_view_def)
  show "preserves (\<lambda>s. task_view s = v) (writes (\<lambda>s. s\<lparr>el_normal_completion := b\<rparr>))"
    by (intro preserves_writes) (simp add: task_view_def)
qed

lemma task_view_turn [frame]:
  "preserves (\<lambda>s. task_view s = v) (drop_turn eo u input)"
  "preserves (\<lambda>s. task_view s = v) (completed_turn rt thread u input)"
  "preserves (\<lambda>s. task_view s = v) (interrupted_turn eo rt thread u input)"
proof -
  show drop: "preserves (\<lambda>s. task_view s = v) (drop_turn eo u input)"
    by (auto simp: preserves_def triple_def drop_turn_def task_view_def split: prod.split)
  show "preserves (\<lambda>s. task_view s = v) (completed_turn rt thread u input)"
    unfolding completed_turn_def by (intro frame)
  show "preserves (\<lambda>s. task_view s = v) (interrupted_turn eo rt thread u input)"
    unfolding interrupted_turn_def by (intro frame drop)
qed

section \<open>One attempt of a task\<close>

text \<open>The task after \<open>k\<close> attempts.\<close>

definition at_work :: "fixture \<Rightarrow> u32 \<Rightarrow> 'w eval_state \<Rightarrow> bool" where
  "at_work fx k s \<longleftrightarrow> (\<exists>t. task_view s = (Some t, k) \<and> ta_spec t = eval_spec fx \<and> ta_attempts t = k)"

definition in_attempt :: "fixture \<Rightarrow> u32 \<Rightarrow> 'w eval_state \<Rightarrow> bool" where
  "in_attempt fx k s \<longleftrightarrow> (\<exists>t. task_view s = (Some t, k) \<and> ta_spec t = eval_spec fx \<and> ta_attempts t = k \<and>
     ta_status t = Attempt_Running)"

text \<open>What the last evidence file says, and that the driver's verdict is that.\<close>

definition evidence_good :: "fixture \<Rightarrow> attempt_file \<Rightarrow> bool" where
  "evidence_good fx evidence \<longleftrightarrow> map af_content (ef_artifacts evidence) = [fx_expected fx] \<and>
     (\<forall>r \<in> set (ef_receipts evidence). tr_status r \<noteq> Receipt_Unknown)"

definition verdict_kept :: "fixture \<Rightarrow> 'w eval_state \<Rightarrow> bool" where
  "verdict_kept fx s \<longleftrightarrow> el_evidence s \<noteq> [] \<and> el_verified_success s = evidence_good fx (last (el_evidence s))"

definition evidence_of :: "attempt_file \<Rightarrow> 'w eval_state \<Rightarrow> bool" where
  "evidence_of evidence s \<longleftrightarrow> el_evidence s \<noteq> [] \<and> last (el_evidence s) = evidence \<and>
     (\<exists>c. ef_artifacts evidence = [\<lparr>af_id = ''lib.rs'', af_content = c\<rparr>])"

lemma gate_single:
  "list_all ce_passed (gate_check debug (eval_spec fx) artifacts) \<longleftrightarrow>
     (case filter (\<lambda>a. af_id a = ''lib.rs'') artifacts of [a] \<Rightarrow> af_content a = fx_expected fx | _ \<Rightarrow> False)"
  by (auto simp: gate_check_def eval_spec_def gate_passed_def matching_artifacts_def Let_def split: list.split)

lemma transition_result:
  assumes "transition debug encode e j = (r, j')"
  shows "case r of Inl x \<Rightarrow> tj_state j' = tj_state j
    | Inr _ \<Rightarrow> apply_task_event debug e (tj_state j) = Inr (tj_state j')"
proof -
  have kept: "append_record encode e j = (r1, j1) \<Longrightarrow> tj_state j1 = tj_state j" for r1 j1
    by (auto simp: append_record_def split: if_splits sum.splits prod.splits)
  then show ?thesis
    using assms by (auto simp: transition_def and_then_def writes_def split: sum.splits prod.splits)
qed

lemma on_journal_result:
  assumes "on_journal (transition debug encode e) s = (Inr u, s')" and "task_view s = (Some t, k)"
  shows "\<exists>t'. task_view s' = (Some t', k) \<and> apply_task_event debug e t = Inr t'"
    and "el_evidence s' = el_evidence s \<and> el_verified_success s' = el_verified_success s"
proof -
  obtain j where j: "el_task s = Some j" "tj_state j = t" "el_attempts s = k"
    using assms(2) by (auto simp: task_view_def)
  obtain r j' where run: "transition debug encode e j = (r, j')" by fastforce
  with assms(1) j obtain v where "r = Inr v" and s': "s' = s\<lparr>el_task := Some j'\<rparr>"
    by (auto simp: on_journal_def split: sum.splits)
  with transition_result [OF run] j have "apply_task_event debug e t = Inr (tj_state j')" by simp
  then show "\<exists>t'. task_view s' = (Some t', k) \<and> apply_task_event debug e t = Inr t'"
    using j s' by (simp add: task_view_def)
  show "el_evidence s' = el_evidence s \<and> el_verified_success s' = el_verified_success s" by (simp add: s')
qed

lemma attempt_begins:
  assumes "on_journal (start_attempt debug encode u) s = (Inr x, s')" and "at_work fx k s"
  shows "k < fx_max_attempts fx" and "in_attempt fx (k + 1) (s'\<lparr>el_attempts := el_attempts s' + 1\<rparr>)"
proof -
  obtain t where t: "task_view s = (Some t, k)" "ta_spec t = eval_spec fx" "ta_attempts t = k"
    using assms(2) by (auto simp: at_work_def)
  obtain t' where t': "task_view s' = (Some t', k)" "apply_task_event debug (AttemptStarted u) t = Inr t'"
    using on_journal_result(1) [OF assms(1) [unfolded start_attempt_def] t(1)] by blast
  from t'(2) t have next_t: "t' = t\<lparr>ta_attempts := k + 1, ta_active_turn := Some u, ta_status := Attempt_Running\<rparr>"
    and less: "k < fx_max_attempts fx"
    by (auto simp: apply_task_event_def eval_spec_def split: if_splits)
  show "k < fx_max_attempts fx" by (fact less)
  have "task_view (s'\<lparr>el_attempts := el_attempts s' + 1\<rparr>) = (Some t', k + 1)"
    using t'(1) by (simp add: task_view_def)
  then show "in_attempt fx (k + 1) (s'\<lparr>el_attempts := el_attempts s' + 1\<rparr>)"
    using t(2) next_t by (simp add: in_attempt_def)
qed

lemma evidence_collected:
  assumes "collect_evidence eo fx thread u s = (Inr evidence, s')"
  shows "task_view s' = task_view s" and "verdict_kept fx s'" and "evidence_of evidence s'"
proof -
  obtain events content where run: "load_run_events thread s = (Inr events, s)" "read_source eo s = (Inr content, s)"
    using assms by (auto simp: collect_evidence_def and_then_def load_run_events_def read_source_def split: sum.splits)
  have written: "eval_write x s1 = (Inr v, s2) \<Longrightarrow> \<exists>h. s2 = s1\<lparr>el_host := h\<rparr>"
    for x v and s1 s2 :: "'a eval_state"
    by (auto simp: eval_write_def split: sum.splits prod.splits io_outcome.splits)
  define artifacts where "artifacts = [\<lparr>af_id = ''lib.rs'', af_content = content\<rparr>]"
  let ?receipts = "turn_receipts u events"
  define e where "e = \<lparr>ef_turn_id = u, ef_artifacts = artifacts,
    ef_checks = gate_check (eo_debug eo) (eval_spec fx) artifacts, ef_receipts = ?receipts\<rparr>"
  have "\<exists>h. s' = s\<lparr>el_verified_success := list_all ce_passed (ef_checks e) \<and>
      \<not> list_ex (\<lambda>r. tr_status r = Receipt_Unknown) ?receipts, el_host := h, el_evidence := el_evidence s @ [e]\<rparr>
      \<and> evidence = e"
    using assms run
    by (auto simp: collect_evidence_def and_then_def writes_def ok_def Let_def e_def artifacts_def
        split: sum.splits prod.splits dest!: written)
  then show "task_view s' = task_view s" and "verdict_kept fx s'" and "evidence_of evidence s'"
    by (auto simp: task_view_def verdict_kept_def evidence_of_def evidence_good_def e_def gate_single artifacts_def
        list_ex_iff)
qed

definition accepted :: "'w eval_state \<Rightarrow> bool" where
  "accepted s \<longleftrightarrow> (\<exists>t k. task_view s = (Some t, k) \<and> ta_status t = Accepted)"

lemma decision:
  assumes run: "decide_next eo fx evidence s = (Inr next_input, s')"
    and t: "in_attempt fx k s" and verdict: "verdict_kept fx s" and evidence: "evidence_of evidence s"
  shows "at_work fx k s' \<and> verdict_kept fx s' \<and> (next_input \<noteq> None \<longrightarrow> k \<noteq> fx_max_attempts fx) \<and>
    (accepted s' \<longrightarrow> el_verified_success s')"
proof -
  obtain t where t: "task_view s = (Some t, k)" "ta_spec t = eval_spec fx" "ta_attempts t = k"
    "ta_status t = Attempt_Running"
    using t by (auto simp: in_attempt_def)
  then obtain s1 where v: "on_journal (verify_attempt (eo_debug eo) (eo_journal eo) (ef_artifacts evidence)
      (ef_receipts evidence)) s = (Inr (), s1)"
    and rest: "s' = s1 \<and> next_input = None \<or>
      (\<exists>u. on_journal (block_task (eo_debug eo) (eo_journal eo)
         ''Core turn failed; host inspection required before further generation'') s1 = (Inr u, s') \<and> next_input = None) \<or>
      s' = s1 \<and> (\<exists>t'. map_option tj_state (el_task s1) = Some t' \<and> ta_status t' = NeedsRepair)"
    using run by (auto simp: decide_next_def and_then_def reads_def ok_def task_view_def
        split: sum.splits prod.splits option.splits if_splits)
  obtain t1 where t1: "task_view s1 = (Some t1, k)"
    and e1: "apply_task_event (eo_debug eo) (AttemptChecked (ef_artifacts evidence) (ef_receipts evidence)) t = Inr t1"
    using on_journal_result(1) [OF v [unfolded verify_attempt_def] t(1)] by blast
  have same: "el_evidence s1 = el_evidence s" "el_verified_success s1 = el_verified_success s"
    using on_journal_result(2) [OF v [unfolded verify_attempt_def] t(1)] by simp_all
  have checked: "ta_spec t1 = eval_spec fx" "ta_attempts t1 = k"
    "ta_status t1 = (if list_ex (\<lambda>r. tr_status r = Receipt_Unknown) (ef_receipts evidence) then Task_Blocked
       else if list_all ce_passed (gate_check (eo_debug eo) (eval_spec fx) (ef_artifacts evidence)) then Accepted
       else if k = fx_max_attempts fx then BudgetExhausted else NeedsRepair)"
    using e1 t by (auto simp: apply_task_event_def Let_def eval_spec_def split: option.splits)
  have good: "el_verified_success s1" if "ta_status t1 = Accepted"
    using that verdict evidence unfolding checked(3) gate_single
    by (auto simp: verdict_kept_def evidence_of_def evidence_good_def same list_ex_iff split: if_splits)
  have kept: "verdict_kept fx s1" using verdict by (simp add: verdict_kept_def same)
  from rest consider "s' = s1" "next_input = None"
    | u where "on_journal (block_task (eo_debug eo) (eo_journal eo)
         ''Core turn failed; host inspection required before further generation'') s1 = (Inr u, s')" "next_input = None"
    | "s' = s1" "ta_status t1 = NeedsRepair"
    using t1 by (auto simp: task_view_def)
  then show ?thesis
  proof cases
    case 2
    obtain t2 where t2: "task_view s' = (Some t2, k)" "apply_task_event (eo_debug eo) (Block_Requested
        ''Core turn failed; host inspection required before further generation'') t1 = Inr t2"
      using on_journal_result(1) [OF 2(1) [unfolded block_task_def] t1] by blast
    then have "ta_status t2 = Task_Blocked" "ta_spec t2 = ta_spec t1" "ta_attempts t2 = ta_attempts t1"
      by (auto simp: apply_task_event_def split: if_splits)
    then show ?thesis
      using t2(1) checked 2(2) kept on_journal_result(2) [OF 2(1) [unfolded block_task_def] t1]
      by (auto simp: at_work_def accepted_def verdict_kept_def)
  qed (use t1 checked kept good in \<open>auto simp: at_work_def accepted_def split: if_splits\<close>)
qed

lemma preserved_view: "preserves (\<lambda>s. task_view s = v) m \<Longrightarrow> task_view s = v \<Longrightarrow> m s = (r, s') \<Longrightarrow> task_view s' = v"
  by (rule preservesD)

lemma at_work_view: "task_view s' = task_view s \<Longrightarrow> at_work fx k s' = at_work fx k s"
  by (simp add: at_work_def)

text \<open>An attempt that returned, in its parts.\<close>

lemma attempt_parts:
  fixes eo :: "'w eval_outside"
  assumes "eval_attempt eo fx rt thread input s = (Inr next_input, s')"
  obtains u evidence and s1 s2 s3 s4 :: "'w eval_state" where "task_view s1 = task_view s"
    and "on_journal (start_attempt (eo_debug eo) (eo_journal eo) u) s1 = (Inr (), s2)"
    and "task_view s3 = task_view (s2\<lparr>el_attempts := el_attempts s2 + 1\<rparr>)"
    and "collect_evidence eo fx thread u s3 = (Inr evidence, s4)"
    and "decide_next eo fx evidence s4 = (Inr next_input, s')"
proof -
  let ?turn = "\<lambda>u. if fx_interrupt_execution fx then interrupted_turn eo rt thread u input
    else completed_turn rt thread u input"
  obtain u s1 s2 s3 evidence s4 where 1: "eval_turn_id s = (Inr u, s1)"
    and 2: "on_journal (start_attempt (eo_debug eo) (eo_journal eo) u) s1 = (Inr (), s2)"
    and 3: "?turn u (s2\<lparr>el_attempts := el_attempts s2 + 1\<rparr>) = (Inr (), s3)"
    and 4: "collect_evidence eo fx thread u s3 = (Inr evidence, s4)"
    and 5: "decide_next eo fx evidence s4 = (Inr next_input, s')"
    using assms unfolding eval_attempt_def
    by (auto simp: and_then_def writes_def split: sum.splits prod.splits)
  have "preserves (\<lambda>s. task_view s = v) (?turn u)" for v by (intro frame)
  from that [OF preserved_view [OF task_view_kept(2) refl 1] 2 preserved_view [OF this refl 3] 4 5] show thesis .
qed

lemma task_attempt:
  fixes eo :: "'w eval_outside"
  assumes "eval_attempt eo fx rt thread input s = (Inr next_input, s')" and "at_work fx k s"
  shows "k < fx_max_attempts fx \<and> at_work fx (k + 1) s' \<and> verdict_kept fx s' \<and>
    (next_input \<noteq> None \<longrightarrow> k + 1 \<noteq> fx_max_attempts fx) \<and> (accepted s' \<longrightarrow> el_verified_success s')"
  using assms(1)
proof (rule attempt_parts)
  fix u evidence and s1 s2 s3 s4 :: "'w eval_state"
  assume 1: "task_view s1 = task_view s"
    and 2: "on_journal (start_attempt (eo_debug eo) (eo_journal eo) u) s1 = (Inr (), s2)"
    and 3: "task_view s3 = task_view (s2\<lparr>el_attempts := el_attempts s2 + 1\<rparr>)"
    and 4: "collect_evidence eo fx thread u s3 = (Inr evidence, s4)"
    and 5: "decide_next eo fx evidence s4 = (Inr next_input, s')"
  have "at_work fx k s1" using assms(2) at_work_view [OF 1] by blast
  note begun = attempt_begins [OF 2 this]
  have "in_attempt fx (k + 1) s4" using begun(2) evidence_collected(1) [OF 4] 3 by (simp add: in_attempt_def)
  from decision [OF 5 this evidence_collected(2,3) [OF 4]] begun(1) show ?thesis by blast
qed

lemma core_attempt:
  fixes eo :: "'w eval_outside"
  assumes "eval_attempt eo fx rt thread input s = (Inr next_input, s')" and "task_view s = (None, k)"
  shows "next_input = None \<and> task_view s' = (None, k + 1) \<and> verdict_kept fx s'"
  using assms(1)
proof (rule attempt_parts)
  fix u evidence and s1 s2 s3 s4 :: "'w eval_state"
  assume 1: "task_view s1 = task_view s"
    and 2: "on_journal (start_attempt (eo_debug eo) (eo_journal eo) u) s1 = (Inr (), s2)"
    and 3: "task_view s3 = task_view (s2\<lparr>el_attempts := el_attempts s2 + 1\<rparr>)"
    and 4: "collect_evidence eo fx thread u s3 = (Inr evidence, s4)"
    and 5: "decide_next eo fx evidence s4 = (Inr next_input, s')"
  have "s2 = s1" using 1 2 assms(2) by (auto simp: on_journal_def task_view_def)
  then have view: "task_view s4 = (None, k + 1)"
    using 1 3 assms(2) evidence_collected(1) [OF 4] by (simp add: task_view_def)
  then have "el_task s4 = None" by (simp add: task_view_def)
  then have "next_input = None \<and> s' = s4" using 5 by (simp add: decide_next_def and_then_def reads_def ok_def)
  then show ?thesis using view evidence_collected(2) [OF 4] by simp
qed

lemma word_remaining:
  fixes k m :: u32
  assumes "k < m"
  shows "unat (k + 1) = unat k + 1" "unat (k + 1) \<le> unat m" "k < k + 1"
proof -
  have "unat k < unat m" using assms by (simp add: word_less_nat_alt)
  moreover show step: "unat (k + 1) = unat k + 1" using assms by (rule unat_next_attempt)
  ultimately show "unat (k + 1) \<le> unat m" by simp
  show "k < k + 1" using step by (simp add: word_less_nat_alt)
qed

lemma task_loop:
  assumes "at_work fx k s" and "unat (fx_max_attempts fx) - unat k = n" and "0 < n"
    and "eval_loop eo fx rt thread n input s = (r, s')"
  shows "case r of Inl e \<Rightarrow> e \<noteq> None
    | Inr _ \<Rightarrow> (\<exists>k'. at_work fx k' s' \<and> k < k' \<and> k' \<le> fx_max_attempts fx) \<and> verdict_kept fx s' \<and>
        (accepted s' \<longrightarrow> el_verified_success s')"
  using assms
proof (induction n arbitrary: k s input)
  case (Suc n)
  obtain a s1 where run: "eval_attempt eo fx rt thread input s = (a, s1)" by fastforce
  show ?case
  proof (cases a)
    case (Inl e)
    then have "e \<noteq> None" using run toldD [OF told_eval_attempt] by blast
    then show ?thesis using Suc.prems(4) run Inl by (auto simp: and_then_def)
  next
    case (Inr next_input)
    note step = task_attempt [OF run [unfolded Inr] Suc.prems(1)]
    note room = word_remaining [of k "fx_max_attempts fx"]
    show ?thesis
    proof (cases next_input)
      case None
      then have "r = Inr ()" "s' = s1" using Suc.prems(4) run Inr by (auto simp: and_then_def ok_def)
      then show ?thesis using step room by (auto simp: word_le_nat_alt)
    next
      case (Some input')
      then have loop: "eval_loop eo fx rt thread n input' s1 = (r, s')"
        using Suc.prems(4) run Inr by (simp add: and_then_def)
      have k: "k < fx_max_attempts fx" "k + 1 \<noteq> fx_max_attempts fx" using step Some by simp_all
      then have "unat (k + 1) \<noteq> unat (fx_max_attempts fx)" by (simp add: word_unat_eq_iff)
      then have "unat (fx_max_attempts fx) - unat (k + 1) = n" "0 < n"
        using Suc.prems(2) room(1,2) k(1) by simp_all
      from Suc.IH [OF _ this loop] step room(3) k(1) show ?thesis
        by (auto split: sum.splits intro: less_trans)
    qed
  qed
qed simp

section \<open>The whole run\<close>

lemma core_loop:
  assumes "task_view s = (None, k)" and "0 < n" and "eval_loop eo fx rt thread n input s = (r, s')"
  shows "case r of Inl e \<Rightarrow> e \<noteq> None | Inr _ \<Rightarrow> task_view s' = (None, k + 1) \<and> verdict_kept fx s'"
proof -
  obtain m where n: "n = Suc m" using assms(2) by (cases n) simp_all
  obtain a s1 where run: "eval_attempt eo fx rt thread input s = (a, s1)" by fastforce
  show ?thesis
  proof (cases a)
    case (Inl e)
    then have "e \<noteq> None" using run toldD [OF told_eval_attempt] by blast
    then show ?thesis using assms(3) run Inl n by (auto simp: and_then_def)
  next
    case (Inr next_input)
    from core_attempt [OF run [unfolded Inr] assms(1)] show ?thesis
      using assms(3) run Inr n by (auto simp: and_then_def ok_def)
  qed
qed

lemma journal_create_state:
  assumes "journal_create encode path spec d = (Inr j, d')"
  shows "initial_state spec = Inr (tj_state j)"
proof -
  have kept: "append_record enc e i = (r, i') \<Longrightarrow> tj_state i' = tj_state i" for enc e i r i'
    by (auto simp: append_record_def split: if_splits sum.splits prod.splits)
  then show ?thesis
    using assms by (auto simp: journal_create_def split: sum.splits prod.splits dest!: kept)
qed

text \<open>What the setup gives.\<close>

definition begun :: "fixture \<Rightarrow> eval_mode \<Rightarrow> task_journal option \<Rightarrow> bool" where
  "begun fx mode task \<longleftrightarrow> (case mode of
       Core_Only \<Rightarrow> task = None
     | Task_Mode \<Rightarrow> (\<exists>j. task = Some j \<and> ta_spec (tj_state j) = eval_spec fx \<and> ta_attempts (tj_state j) = 0))"

lemma told_disk [tells]: "told (on_disk_of_run m)"
  unfolding on_disk_of_run_def by (intro tells)

lemma told_write_encoded [tells]: "told (write_encoded path t)"
  unfolding write_encoded_def by (intro tells)

lemma told_setup [tells]: "told (eval_setup eo fx mode dir)"
  unfolding eval_setup_def by (cases mode; simp only: eval_mode.case; intro tells)

lemma setup_result:
  assumes "eval_setup eo fx mode dir d = (Inr (task, store), d')"
  shows "begun fx mode task"
proof -
  obtain d1 d2 where "(case mode of Core_Only \<Rightarrow> ok None
      | Task_Mode \<Rightarrow> and_then (map_err (\<lambda>e. Some (task_error_text e))
           (journal_create (eo_journal eo) (dir @ ''/task.jsonl'') (eval_spec fx))) (\<lambda>j. ok (Some j))) d1 =
      (Inr task, d2)"
    using assms unfolding eval_setup_def by (auto simp: and_then_def ok_def split: sum.splits prod.splits)
  then show ?thesis
    by (cases mode) (auto simp: begun_def ok_def and_then_def map_err_def attempt_def err_def
        dest!: journal_create_state dest: initial_state_ok(2,4) split: sum.splits prod.splits)
qed

lemma start_thread_view: "runtime_part (start_thread rt) s = (r, s') \<Longrightarrow> task_view s' = task_view s"
  using preserved_view [OF task_view_kept(1) refl] .

text \<open>The state the loop ends in.\<close>

definition run_over :: "fixture \<Rightarrow> eval_mode \<Rightarrow> 'w eval_state \<Rightarrow> bool" where
  "run_over fx mode s \<longleftrightarrow> verdict_kept fx s \<and> (case mode of
       Core_Only \<Rightarrow> task_view s = (None, 1)
     | Task_Mode \<Rightarrow> (\<exists>k. at_work fx k s \<and> 0 < k \<and> k \<le> fx_max_attempts fx) \<and>
         (accepted s \<longrightarrow> el_verified_success s))"

lemma run_over_host: "run_over fx mode (s\<lparr>el_host := h\<rparr>) = run_over fx mode s"
  by (cases mode) (simp_all add: run_over_def verdict_kept_def at_work_def accepted_def task_view_def)

lemma make_report_host:
  "make_report fx mode model live events (s\<lparr>el_host := h\<rparr>) = make_report fx mode model live events s"
  by (simp add: make_report_def Let_def cong: option.case_cong)

lemma loop_over:
  assumes "begun fx mode (el_task s)" and "el_attempts s = 0" and "fx_max_attempts fx \<noteq> 0"
    and "eval_loop eo fx rt thread (unat (fx_max_attempts fx)) input s = (r, s')"
  shows "case r of Inl e \<Rightarrow> e \<noteq> None | Inr _ \<Rightarrow> run_over fx mode s'"
proof (cases mode)
  case Core_Only
  then have "task_view s = (None, 0)" using assms(1,2) by (simp add: begun_def task_view_def)
  moreover have "0 < unat (fx_max_attempts fx)" using assms(3) by (simp add: unat_gt_0)
  ultimately show ?thesis
    using core_loop [OF _ _ assms(4)] Core_Only by (fastforce simp: run_over_def split: sum.splits)
next
  case Task_Mode
  then have "at_work fx 0 s" using assms(1,2) by (auto simp: begun_def at_work_def task_view_def)
  moreover have "0 < unat (fx_max_attempts fx)" using assms(3) by (simp add: unat_gt_0)
  ultimately show ?thesis
    using task_loop [OF _ _ _ assms(4), of 0] Task_Mode by (fastforce simp: run_over_def split: sum.splits)
qed

lemma driven:
  assumes "begun fx mode (el_task s)" and "el_attempts s = 0" and "fx_max_attempts fx \<noteq> 0"
    and "eval_drive eo fx mode model live rt s = (r, s')"
  shows "case r of Inl e \<Rightarrow> e \<noteq> None
    | Inr report \<Rightarrow> \<exists>events. run_over fx mode s' \<and> report = make_report fx mode model live events s'"
proof -
  obtain a s1 where start: "runtime_part (start_thread rt) s = (a, s1)" by fastforce
  have view: "begun fx mode (el_task s1)" "el_attempts s1 = 0"
    using start_thread_view [OF start] assms(1,2)
    by (auto simp: task_view_def begun_def split: eval_mode.splits)
  show ?thesis
  proof (cases a)
    case (Inl e)
    then have "e \<noteq> None" using start toldD [OF told_parts(1)] by blast
    then show ?thesis using assms(4) start Inl by (auto simp: eval_drive_def and_then_def)
  next
    case (Inr thread)
    obtain b s2 where loop: "eval_loop eo fx rt thread (unat (fx_max_attempts fx)) (first_input fx) s1 = (b, s2)"
      by fastforce
    note over = loop_over [OF view assms(3) loop]
    let ?rest = "and_then (load_run_events thread) (\<lambda>events. and_then (reads (make_report fx mode model live events))
      (\<lambda>report. and_then (eval_write (eo_report eo report)) (\<lambda>_. ok report)))"
    have told: "told ?rest" by (intro tells)
    show ?thesis
    proof (cases b)
      case (Inl e)
      then show ?thesis using assms(4) start Inr loop over by (auto simp: eval_drive_def and_then_def)
    next
      case over_b: (Inr u)
      have rest: "?rest s2 = (r, s')" using assms(4) start Inr loop over_b by (simp add: eval_drive_def and_then_def)
      show ?thesis
      proof (cases r)
        case (Inl e)
        then show ?thesis using toldD [OF told] rest by auto
      next
        case (Inr report)
        then obtain events h where "report = make_report fx mode model live events s2" "s' = s2\<lparr>el_host := h\<rparr>"
          using rest unfolding and_then_def load_run_events_def reads_def ok_def eval_write_def
          by (auto simp del: make_report_host split: sum.splits prod.splits io_outcome.splits)
        moreover have "run_over fx mode s2" using over over_b by simp
        ultimately show ?thesis using Inr by (simp add: run_over_host make_report_host) blast
      qed
    qed
  qed
qed

lemma report_of_run:
  assumes "run_over fx mode s" and "report = make_report fx mode model live events s"
  shows "el_evidence s \<noteq> [] \<and> rp_verified_success report = evidence_good fx (last (el_evidence s)) \<and>
    (if mode = Task_Mode
     then \<not> rp_false_completion report \<and> rp_reported_success report = (rp_task_status report = Some Accepted) \<and>
       0 < rp_attempts report \<and> rp_attempts report \<le> fx_max_attempts fx
     else rp_task_status report = None \<and> rp_attempts report = 1)"
  using assms
  by (cases mode)
    (auto simp: run_over_def verdict_kept_def make_report_def Let_def at_work_def accepted_def task_view_def)

section \<open>The suite\<close>

lemma eval_runs_reports:
  assumes "eval_runs run plan v = (Inr reports, v')"
  shows "list_all2 (\<lambda>(fx, mode, dir) report. \<exists>v v'. run fx mode dir v = (Inr report, v')) plan reports"
  using assms
proof (induction plan arbitrary: v reports v')
  case Nil
  then show ?case by (simp add: ok_def)
next
  case (Cons x plan)
  obtain fx mode dir where x: "x = (fx, mode, dir)" by (cases x)
  from Cons.prems obtain report v1 reports' v2 where "run fx mode dir v = (Inr report, v1)"
    "eval_runs run plan v1 = (Inr reports', v2)" "reports = report # reports'"
    by (auto simp: x and_then_value ok_def)
  with Cons.IH show ?case unfolding x by auto
qed

text \<open>The summary has one report for each planned run, in its order: every fixture without and with a task, but for
  the fault fixtures of a live suite, which it names.\<close>

lemma suite_reports:
  assumes "eval_main ep args v = (Inr summary, v')"
  obtains dir live config fxs where
    "eval_arguments args None None = Inr (dir, live)" "ep_fixtures ep = Inr fxs"
    "read_live (ep_config ep) live = Inr config" "sm_skipped summary = skipped_fixtures (live \<noteq> None) fxs"
    "list_all2 (\<lambda>(fx, mode, d) report. \<exists>v v'. ep_run ep config fx mode d v = (Inr report, v'))
       (planned_runs (live \<noteq> None) dir fxs) (sm_runs summary)"
proof -
  from assms obtain dir live config where args: "eval_arguments args None None = Inr (dir, live)"
    and config: "read_live (ep_config ep) live = Inr config"
    by (auto simp: eval_main_def eval_fail_def err_def split: sum.splits prod.splits)
  with assms obtain fxs v1 v2 reports where "ep_fixtures ep = Inr fxs"
    "eval_runs (ep_run ep config) (planned_runs (live \<noteq> None) dir fxs) v1 = (Inr reports, v2)"
    "sm_runs summary = reports" "sm_skipped summary = skipped_fixtures (live \<noteq> None) fxs"
    by (auto simp: eval_main_def eval_fail_def err_def ok_def and_then_value Let_def split: sum.splits)
  with args config eval_runs_reports show ?thesis by (intro that) auto
qed


end
